(* ===== verification/Prelude.thy ===== *)
theory Prelude
  imports Main "HOL-Library.Word" "HOL-Library.Multiset"
begin

text \<open>
  What every component shares: the machine types of the program, the outcome
  types of its fallible operations, the model of the few operations on
  \<open>std::deque\<close> and \<open>std::map\<close> the sources use, and the collections of
  lemmas that the component proofs draw on.

  Conventions: \<open>option\<close> is the outcome of an operation whose C++ counterpart is
  undefined for some arguments (\<open>None\<close> is undefined behaviour, such as
  \<open>front\<close> of an empty deque or an iterator past the end); a sum type with
  \<open>cpp_error\<close> on the left is the outcome of an operation that may throw
  (\<open>Undefined\<close> there is undefined behaviour in an operation that can also throw).
\<close>

section \<open>Types\<close>

type_synonym snowflake = "64 word"
type_synonym size_t = "64 word"

datatype cpp_error = Invalid_argument | Out_of_range | Type_error | Undefined

type_synonym 'a result = "cpp_error + 'a"

named_theorems mc_defs "definitions unfolded in component proofs"
named_theorems mc_inv "preservation of component invariants"
named_theorems mc_len "lengths of queues after the operations"

section \<open>Chaining of outcomes\<close>

fun bind_result :: "'a result \<Rightarrow> ('a \<Rightarrow> 'b result) \<Rightarrow> 'b result" where
  "bind_result (Inl e) f = Inl e"
| "bind_result (Inr a) f = f a"

lemma bind_result_Inr_iff:
  "bind_result r f = Inr b \<longleftrightarrow> (\<exists>a. r = Inr a \<and> f a = Inr b)"
  by (cases r) auto

lemma bind_resultE:
  assumes "bind_result r f = Inr b" obtains a where "r = Inr a" and "f a = Inr b"
  using assms by (cases r) auto

lemma bind_Some_iff:
  "Option.bind x f = Some b \<longleftrightarrow> (\<exists>a. x = Some a \<and> f a = Some b)"
  by (cases x) auto

section \<open>Deques\<close>

text \<open>\<open>erase_at n xs\<close> is \<open>xs.erase (xs.begin () + n)\<close>, \<open>insert_at\<close> is
  \<open>xs.insert (xs.begin () + n, x)\<close>; both are undefined out of range.\<close>

definition erase_at :: "nat \<Rightarrow> 'a list \<Rightarrow> 'a list option" where
  "erase_at n xs = (if n < length xs then Some (take n xs @ drop (Suc n) xs) else None)"

definition insert_at :: "nat \<Rightarrow> 'a \<Rightarrow> 'a list \<Rightarrow> 'a list option" where
  "insert_at n x xs = (if n \<le> length xs then Some (take n xs @ x # drop n xs) else None)"

lemma erase_at_Some_iff:
  "erase_at n xs = Some ys \<longleftrightarrow> n < length xs \<and> ys = take n xs @ drop (Suc n) xs"
  by (auto simp: erase_at_def)

lemma insert_at_Some_iff:
  "insert_at n x xs = Some ys \<longleftrightarrow> n \<le> length xs \<and> ys = take n xs @ x # drop n xs"
  by (auto simp: insert_at_def)

lemma erase_at_0 [simp]: "erase_at 0 (x # xs) = Some xs"
  by (simp add: erase_at_def)

lemma insert_at_0 [simp]: "insert_at 0 x xs = Some (x # xs)"
  by (simp add: insert_at_def)

lemma mset_erase_at:
  assumes "erase_at n xs = Some ys"
  shows "mset xs = add_mset (xs ! n) (mset ys)"
proof -
  have n: "n < length xs" and ys: "ys = take n xs @ drop (Suc n) xs"
    using assms by (auto simp: erase_at_Some_iff)
  have "mset xs = mset (take n xs @ xs ! n # drop (Suc n) xs)"
    using id_take_nth_drop [OF n] by simp
  then show ?thesis by (simp add: ys)
qed

lemma mset_insert_at:
  assumes "insert_at n x xs = Some ys"
  shows "mset ys = add_mset x (mset xs)"
proof -
  have "ys = take n xs @ x # drop n xs" using assms by (simp add: insert_at_Some_iff)
  then have "mset ys = add_mset x (mset (take n xs @ drop n xs))"
    by (simp del: append_take_drop_id)
  then show ?thesis by simp
qed

lemma length_erase_at: "erase_at n xs = Some ys \<Longrightarrow> length xs = Suc (length ys)"
  using mset_erase_at [of n xs ys] by (metis size_add_mset size_mset)

lemma length_insert_at: "insert_at n x xs = Some ys \<Longrightarrow> length ys = Suc (length xs)"
  using mset_insert_at [of n x xs ys] by (metis size_add_mset size_mset)

lemma erase_insert_at:
  "n \<le> length xs \<Longrightarrow> Option.bind (insert_at n x xs) (erase_at n) = Some xs"
  by (simp add: insert_at_def erase_at_def min_def)

section \<open>Association lists in insertion order\<close>

text \<open>Registries that the sources keep in a \<open>std::vector\<close> and search from the front.\<close>

definition erase_if :: "('a \<Rightarrow> bool) \<Rightarrow> 'a list \<Rightarrow> 'a list" where
  "erase_if P xs = filter (\<lambda>x. \<not> P x) xs"

fun erase_first :: "('a \<Rightarrow> bool) \<Rightarrow> 'a list \<Rightarrow> 'a list" where
  "erase_first P [] = []"
| "erase_first P (x # xs) = (if P x then xs else x # erase_first P xs)"

lemma erase_first_none [simp]: "\<forall>x \<in> set xs. \<not> P x \<Longrightarrow> erase_first P xs = xs"
  by (induction xs) auto

lemma set_erase_first_subset: "set (erase_first P xs) \<subseteq> set xs"
  by (induction xs) auto

lemma erase_first_append:
  "\<forall>x \<in> set xs. \<not> P x \<Longrightarrow> erase_first P (xs @ ys) = xs @ erase_first P ys"
  by (induction xs) auto

lemma distinct_erase_first: "distinct (map f xs) \<Longrightarrow> distinct (map f (erase_first P xs))"
  by (induction xs) (use set_erase_first_subset in fastforce)+

lemma erase_first_eq_erase_if:
  "distinct (map f xs) \<Longrightarrow> erase_first (\<lambda>x. f x = k) xs = erase_if (\<lambda>x. f x = k) xs"
  by (induction xs) (auto simp: erase_if_def filter_id_conv image_iff intro!: filter_True [symmetric])

section \<open>Sums of words\<close>

lemma unat_add_no_overflow:
  fixes a b :: "'a::len word"
  shows "unat a + unat b < 2 ^ LENGTH('a) \<Longrightarrow> unat (a + b) = unat a + unat b"
  by (simp add: unat_add_lem)

lemma unat_Suc_word:
  fixes a :: "64 word"
  shows "unat a + 1 < 2 ^ 64 \<Longrightarrow> unat (a + 1) = unat a + 1"
  by (subst unat_add_no_overflow) auto

end
