(* ===== verification/CppStd.thy ===== *)
theory CppStd
  imports Prelude
begin

text \<open>
  The parts of the C++ standard library that the sources rely on: decimal
  printing (\<open>std::to_string\<close>), decimal parsing (\<open>std::stoi\<close>, \<open>std::stoll\<close>,
  \<open>std::stoull\<close>), and \<open>std::tolower\<close> and \<open>isspace\<close> of the C locale.
\<close>

section \<open>Characters\<close>

definition chr :: "nat \<Rightarrow> char" where
  "chr n = char_of n"

definition ord :: "char \<Rightarrow> nat" where
  "ord c = of_char c"

lemma ord_chr [simp]: "ord (chr n) = n mod 256"
  by (simp add: ord_def chr_def)

lemma ord_less_256 [simp]: "ord c < 256"
  by (simp add: ord_def)

lemma chr_ord [simp]: "chr (ord c) = c"
  by (simp add: ord_def chr_def)

lemma ord_inject [simp]: "ord a = ord b \<longleftrightarrow> a = b"
  by (simp add: ord_def)

definition is_digit :: "char \<Rightarrow> bool" where
  "is_digit c \<longleftrightarrow> 48 \<le> ord c \<and> ord c \<le> 57"

definition is_space :: "char \<Rightarrow> bool" where
  "is_space c \<longleftrightarrow> ord c = 32 \<or> (9 \<le> ord c \<and> ord c \<le> 13)"

definition to_lower :: "char \<Rightarrow> char" where
  "to_lower c = (if 65 \<le> ord c \<and> ord c \<le> 90 then chr (ord c + 32) else c)"

definition digit_char :: "nat \<Rightarrow> char" where
  "digit_char d = chr (48 + d)"

definition digit_val :: "char \<Rightarrow> nat" where
  "digit_val c = ord c - 48"

lemma digit_val_char [simp]: "d < 10 \<Longrightarrow> digit_val (digit_char d) = d"
  by (simp add: digit_val_def digit_char_def)

lemma is_digit_char [simp]: "d < 10 \<Longrightarrow> is_digit (digit_char d)"
  by (simp add: is_digit_def digit_char_def)

lemma digit_val_less: "is_digit c \<Longrightarrow> digit_val c < 10"
  unfolding is_digit_def digit_val_def by linarith

section \<open>Printing\<close>

text \<open>Recursions on a number dispatch on a Boolean argument, so that evaluation unfolds
  them only when the test has been decided.\<close>

function dec_str_if :: "bool \<Rightarrow> int \<Rightarrow> string" where
  "dec_str_if True n = [digit_char (nat n)]"
| "dec_str_if False n = dec_str_if (n div 10 < 10) (n div 10) @ [digit_char (nat (n mod 10))]"
  by pat_completeness auto
termination by (relation "measure (\<lambda>(b, n). if b then 0 else Suc (nat n))") auto

definition dec_str :: "int \<Rightarrow> string" where
  "dec_str n = dec_str_if (n < 10) n"

definition nat_str :: "nat \<Rightarrow> string" where
  "nat_str n = dec_str (int n)"

lemma nat_str_simps: "nat_str n =
    (if n < 10 then [digit_char n] else nat_str (n div 10) @ [digit_char (n mod 10)])"
proof (cases "n < 10")
  case False
  have "nat (int n mod 10) = n mod 10"
    by (simp add: nat_mod_as_int)
  then show ?thesis using False by (simp add: nat_str_def dec_str_def zdiv_int)
qed (simp add: nat_str_def dec_str_def)

lemma nat_str_induct [case_names step]:
  assumes "\<And>n. (\<not> n < 10 \<Longrightarrow> P (n div 10)) \<Longrightarrow> P n"
  shows "P (n :: nat)"
proof (induction n rule: less_induct)
  case (less n)
  show ?case by (rule assms, rule less) simp
qed

definition int_str :: "int \<Rightarrow> string" where
  "int_str i = (if i < 0 then CHR ''-'' # dec_str (- i) else dec_str i)"

lemma dec_str_nat_str: "0 \<le> i \<Longrightarrow> dec_str i = nat_str (nat i)"
  by (simp add: nat_str_def)

definition digits_val :: "string \<Rightarrow> int" where
  "digits_val s = foldl (\<lambda>a c. a * 10 + int (digit_val c)) 0 s"

lemma digits_val_snoc: "digits_val (s @ [c]) = digits_val s * 10 + int (digit_val c)"
  by (simp add: digits_val_def)

lemma digits_val_nat_str [simp]: "digits_val (nat_str n) = int n"
proof (induction n rule: nat_str_induct)
  case (step n)
  show ?case
  proof (cases "n < 10")
    case True
    then show ?thesis by (simp add: nat_str_simps [of n] digits_val_def)
  next
    case False
    then have "nat_str n = nat_str (n div 10) @ [digit_char (n mod 10)]"
      by (simp add: nat_str_simps [of n])
    moreover have "int (n div 10) * 10 + int (n mod 10) = int n"
      by (metis div_mult_mod_eq of_nat_add of_nat_mult of_nat_numeral)
    ultimately show ?thesis using step False by (simp add: digits_val_snoc)
  qed
qed

lemma nat_str_digits: "\<forall>c \<in> set (nat_str n). is_digit c"
proof (induction n rule: nat_str_induct)
  case (step n)
  then show ?case by (cases "n < 10") (simp_all add: nat_str_simps [of n])
qed

lemma nat_str_not_Nil [simp]: "nat_str n \<noteq> []"
  by (subst nat_str_simps) simp

lemma nat_str_inject [simp]: "nat_str m = nat_str n \<longleftrightarrow> m = n"
  by (metis digits_val_nat_str of_nat_eq_iff)

lemma length_nat_str_le:
  "0 < k \<Longrightarrow> n < 10 ^ k \<Longrightarrow> length (nat_str n) \<le> k"
proof (induction n arbitrary: k rule: nat_str_induct)
  case (step n)
  show ?case
  proof (cases "n < 10")
    case True
    then show ?thesis using step(2) by (simp add: nat_str_simps [of n])
  next
    case False
    then obtain j where k: "k = Suc j" and j: "0 < j"
      using step(2,3) by (cases k; cases "k - 1") auto
    have "n div 10 < 10 ^ j" using step(3) unfolding k by (auto simp: less_mult_imp_div_less mult.commute)
    then have "length (nat_str (n div 10)) \<le> j" using step(1) False j by blast
    then show ?thesis using False by (simp add: nat_str_simps [of n] k)
  qed
qed

lemma length_nat_str_ge2: "10 \<le> n \<Longrightarrow> 2 \<le> length (nat_str n)"
  using nat_str_not_Nil [of "n div 10"]
  by (subst nat_str_simps) (auto simp: Suc_le_eq simp del: nat_str_not_Nil)

lemma length_nat_str_1: "n < 10 \<Longrightarrow> length (nat_str n) = 1"
  by (simp add: nat_str_simps [of n])

section \<open>Parsing\<close>

text \<open>\<open>strtol\<close> in base 10: leading white space, an optional sign, then the
  longest run of digits; \<open>None\<close> when there is no digit.\<close>

definition parse_dec :: "string \<Rightarrow> int option" where
  "parse_dec s =
    (let s1 = dropWhile is_space s;
         neg = (s1 \<noteq> [] \<and> hd s1 = CHR ''-'');
         s2 = (if s1 \<noteq> [] \<and> (hd s1 = CHR ''-'' \<or> hd s1 = CHR ''+'') then tl s1 else s1);
         ds = takeWhile is_digit s2
     in if ds = [] then None
        else Some (if neg then - digits_val ds else digits_val ds))"

definition sto_range :: "int \<Rightarrow> int \<Rightarrow> string \<Rightarrow> int result" where
  "sto_range lo hi s =
    (case parse_dec s of
       None \<Rightarrow> Inl Invalid_argument
     | Some v \<Rightarrow> if lo \<le> v \<and> v \<le> hi then Inr v else Inl Out_of_range)"

definition stoi :: "string \<Rightarrow> int result" where
  "stoi = sto_range (- (2 ^ 31)) (2 ^ 31 - 1)"

definition stoll :: "string \<Rightarrow> int result" where
  "stoll = sto_range (- (2 ^ 63)) (2 ^ 63 - 1)"

text \<open>\<open>strtoull\<close> accepts a sign and negates modulo \<open>2 ^ 64\<close>.\<close>

definition stoull :: "string \<Rightarrow> 64 word result" where
  "stoull s = (case sto_range (- (2 ^ 64 - 1)) (2 ^ 64 - 1) s of
       Inl e \<Rightarrow> Inl e | Inr v \<Rightarrow> Inr (word_of_int v))"

lemma digit_not_space: "is_digit c \<Longrightarrow> \<not> is_space c"
  by (auto simp: is_digit_def is_space_def)

lemma digit_not_sign: "is_digit c \<Longrightarrow> c \<noteq> CHR ''-'' \<and> c \<noteq> CHR ''+''"
  by (auto simp: is_digit_def ord_def)

lemma parse_dec_digits:
  assumes "ds \<noteq> []" and "\<forall>c \<in> set ds. is_digit c" and "rest = [] \<or> \<not> is_digit (hd rest)"
  shows "parse_dec (ds @ rest) = Some (digits_val ds)"
proof -
  obtain d ds' where ds: "ds = d # ds'" using assms(1) by (cases ds) auto
  have d: "is_digit d" using assms(2) ds by simp
  have tw: "takeWhile is_digit (ds @ rest) = ds"
    using assms(2,3) by (cases rest) (auto simp: takeWhile_append)
  have dw: "dropWhile is_space (ds @ rest) = ds @ rest"
    using digit_not_space [OF d] by (simp add: ds)
  show ?thesis
    using tw digit_not_sign [OF d] unfolding parse_dec_def Let_def dw by (simp add: ds)
qed

lemma parse_dec_nat_str [simp]: "parse_dec (nat_str n) = Some (int n)"
  using parse_dec_digits [of "nat_str n" "[]"] nat_str_digits by simp

lemma stoi_nat_str: "n < 2 ^ 31 \<Longrightarrow> stoi (nat_str n) = Inr (int n)"
  by (simp add: stoi_def sto_range_def)

lemma stoll_nat_str: "n < 2 ^ 63 \<Longrightarrow> stoll (nat_str n) = Inr (int n)"
  by (simp add: stoll_def sto_range_def)

lemma nat_str_not_sign: "c \<in> set (nat_str n) \<Longrightarrow> is_digit c"
  using nat_str_digits by blast

lemma parse_dec_neg: "parse_dec (CHR ''-'' # nat_str n) = Some (- int n)"
proof -
  have sp: "\<not> is_space (CHR ''-'')" by (simp add: is_space_def ord_def)
  have tw: "takeWhile is_digit (nat_str n) = nat_str n"
    using nat_str_digits takeWhile_eq_all_conv by blast
  show ?thesis using sp by (simp add: parse_dec_def Let_def tw)
qed

lemma parse_dec_int_str [simp]: "parse_dec (int_str i) = Some i"
  using parse_dec_neg [of "nat (- i)"]
  by (cases "i < 0") (auto simp: int_str_def dec_str_nat_str)

lemma stoi_int_str: "- (2 ^ 31) \<le> i \<Longrightarrow> i < 2 ^ 31 \<Longrightarrow> stoi (int_str i) = Inr i"
  by (simp add: stoi_def sto_range_def)

lemma int_str_chars: "c \<in> set (int_str i) \<Longrightarrow> is_digit c \<or> c = CHR ''-''"
  using nat_str_not_sign by (auto simp: int_str_def dec_str_nat_str split: if_splits)

section \<open>Searching a string\<close>

text \<open>\<open>str_find s p i\<close> is \<open>s.find (p, i)\<close>.\<close>

fun find_sub :: "string \<Rightarrow> string \<Rightarrow> nat option" where
  "find_sub p [] = (if p = [] then Some 0 else None)"
| "find_sub p (c # cs) =
    (if take (length p) (c # cs) = p then Some 0 else map_option Suc (find_sub p cs))"

definition str_find :: "string \<Rightarrow> string \<Rightarrow> nat \<Rightarrow> nat option" where
  "str_find s p i = (if i > length s then None else map_option (\<lambda>k. k + i) (find_sub p (drop i s)))"

definition substr :: "string \<Rightarrow> nat \<Rightarrow> nat option \<Rightarrow> string" where
  "substr s t n = (case n of None \<Rightarrow> drop t s | Some k \<Rightarrow> take k (drop t s))"

end
