(* ===== verification/ChildCommand.thy ===== *)
theory ChildCommand
  imports CppStd
begin

text \<open>
  \<open>src/musicat/child/command.cpp\<close> and \<open>include/musicat/child/command.h\<close>: the
  text protocol between the main process, the worker manager and its children. A
  command is a sequence of \<open>key=value;\<close> arguments in which a backslash escapes
  the three special characters; it travels in records of \<open>CMD_BUFSIZE\<close> bytes. The
  second part is the queue of commands to write and the table by which a
  caller waits for the worker's reply.
\<close>

section \<open>Commands and keys\<close>

definition cmd_create_audio_processor :: string where "cmd_create_audio_processor = ''cap''"
definition cmd_shutdown :: string where "cmd_shutdown = ''shut''"
definition cmd_call_ytdlp :: string where "cmd_call_ytdlp = ''ytd''"
definition cmd_call_system :: string where "cmd_call_system = ''sys''"
definition cmd_dl_music :: string where "cmd_dl_music = ''dlm''"

lemmas command_execute_commands_t [mc_defs] =
  cmd_create_audio_processor_def cmd_shutdown_def cmd_call_ytdlp_def cmd_call_system_def
  cmd_dl_music_def

definition key_command :: string where "key_command = ''cmd''"
definition key_file_path :: string where "key_file_path = ''fp''"
definition key_debug :: string where "key_debug = ''dbg''"
definition key_id :: string where "key_id = ''id''"
definition key_guild_id :: string where "key_guild_id = ''gid''"
definition key_ready :: string where "key_ready = ''rdy''"
definition key_seek :: string where "key_seek = ''sk''"
definition key_volume :: string where "key_volume = ''vl''"
definition key_helper_chain :: string where "key_helper_chain = ''ehl''"
definition key_force :: string where "key_force = ''frc''"
definition key_ytdlp_util_exe :: string where "key_ytdlp_util_exe = ''ytdex''"
definition key_ytdlp_query :: string where "key_ytdlp_query = ''ytdq''"
definition key_ytdlp_max_entries :: string where "key_ytdlp_max_entries = ''ytdme''"
definition key_ytdlp_lib_path :: string where "key_ytdlp_lib_path = ''ytdlibp''"
definition key_gnuplot_cmd :: string where "key_gnuplot_cmd = ''gplotcmd''"
definition key_sys_cmd :: string where "key_sys_cmd = ''syscmd''"
definition key_sys_max_out_len :: string where "key_sys_max_out_len = ''sysmol''"
definition key_sys_no_stderr :: string where "key_sys_no_stderr = ''sysns''"
definition key_sys_w_stderr_mark :: string where "key_sys_w_stderr_mark = ''syswsm''"

lemmas command_options_keys_t [mc_defs] =
  key_command_def key_file_path_def key_debug_def key_id_def key_guild_id_def key_ready_def
  key_seek_def key_volume_def key_helper_chain_def key_force_def key_ytdlp_util_exe_def
  key_ytdlp_query_def key_ytdlp_max_entries_def key_ytdlp_lib_path_def key_gnuplot_cmd_def
  key_sys_cmd_def key_sys_max_out_len_def key_sys_no_stderr_def key_sys_w_stderr_mark_def

section \<open>Options\<close>

record command_options_t =
  op_command :: string
  op_file_path :: string
  op_debug :: bool
  op_id :: string
  op_pid :: int
  op_parent_read_fd :: int
  op_parent_write_fd :: int
  op_child_read_fd :: int
  op_child_write_fd :: int
  op_audio_stream_fifo_path :: string
  op_guild_id :: string
  op_ready :: int
  op_seek :: string
  op_audio_stream_stdin_path :: string
  op_audio_stream_stdout_path :: string
  op_volume :: int
  op_helper_chain :: string
  op_force :: bool
  op_ytdlp_util_exe :: string
  op_ytdlp_query :: string
  op_ytdlp_max_entries :: int
  op_ytdlp_lib_path :: string
  op_gnuplot_cmd :: string
  op_sys_cmd :: string
  op_sys_max_out_len :: "64 word"
  op_sys_no_stderr :: bool
  op_sys_w_stderr_mark :: bool
  op_ts_queued :: int

definition create_command_options :: command_options_t where
  "create_command_options =
    \<lparr>op_command = [], op_file_path = [], op_debug = False, op_id = [], op_pid = - 1,
     op_parent_read_fd = - 1, op_parent_write_fd = - 1, op_child_read_fd = - 1,
     op_child_write_fd = - 1, op_audio_stream_fifo_path = [], op_guild_id = [], op_ready = 0,
     op_seek = [], op_audio_stream_stdin_path = [], op_audio_stream_stdout_path = [],
     op_volume = 100, op_helper_chain = [], op_force = False, op_ytdlp_util_exe = [],
     op_ytdlp_query = [], op_ytdlp_max_entries = - 1, op_ytdlp_lib_path = [],
     op_gnuplot_cmd = [], op_sys_cmd = [], op_sys_max_out_len = 10000, op_sys_no_stderr = False,
     op_sys_w_stderr_mark = False, op_ts_queued = 0\<rparr>"

text \<open>The process state a parsed command touches: its options and the global debug flag
  (\<open>set_debug_state\<close>).\<close>

type_synonym parse_state = "command_options_t \<times> bool"

definition assign_command_option_key_value ::
  "parse_state \<Rightarrow> string \<Rightarrow> string \<Rightarrow> parse_state result" where
  "assign_command_option_key_value st opt value =
    (case st of (options, dbg) \<Rightarrow>
     if opt = key_id then Inr (options\<lparr>op_id := value\<rparr>, dbg)
     else if opt = key_command then Inr (options\<lparr>op_command := value\<rparr>, dbg)
     else if opt = key_file_path then Inr (options\<lparr>op_file_path := value\<rparr>, dbg)
     else if opt = key_debug then Inr (options\<lparr>op_debug := (value = ''1'')\<rparr>, value = ''1'')
     else if opt = key_guild_id then Inr (options\<lparr>op_guild_id := value\<rparr>, dbg)
     else if opt = key_ready then
       bind_result (stoi value) (\<lambda>v. Inr (options\<lparr>op_ready := v\<rparr>, dbg))
     else if opt = key_seek then Inr (options\<lparr>op_seek := value\<rparr>, dbg)
     else if opt = key_volume then
       bind_result (stoi value) (\<lambda>v. Inr (options\<lparr>op_volume := v\<rparr>, dbg))
     else if opt = key_helper_chain then
       Inr (options\<lparr>op_helper_chain := op_helper_chain options @ ''@'' @ value @ ''@''\<rparr>, dbg)
     else if opt = key_force then Inr (options\<lparr>op_force := (value = ''1'')\<rparr>, dbg)
     else if opt = key_ytdlp_util_exe then Inr (options\<lparr>op_ytdlp_util_exe := value\<rparr>, dbg)
     else if opt = key_ytdlp_query then Inr (options\<lparr>op_ytdlp_query := value\<rparr>, dbg)
     else if opt = key_ytdlp_lib_path then Inr (options\<lparr>op_ytdlp_lib_path := value\<rparr>, dbg)
     else if opt = key_ytdlp_max_entries then
       bind_result (stoi value) (\<lambda>v. Inr (options\<lparr>op_ytdlp_max_entries := v\<rparr>, dbg))
     else if opt = key_gnuplot_cmd then Inr (options\<lparr>op_gnuplot_cmd := value\<rparr>, dbg)
     else if opt = key_sys_cmd then Inr (options\<lparr>op_sys_cmd := value\<rparr>, dbg)
     else if opt = key_sys_max_out_len then
       bind_result (if value = [] then Inr 1 else stoull value)
         (\<lambda>v. Inr (options\<lparr>op_sys_max_out_len := v\<rparr>, dbg))
     else if opt = key_sys_no_stderr then Inr (options\<lparr>op_sys_no_stderr := (value = ''1'')\<rparr>, dbg)
     else if opt = key_sys_w_stderr_mark then
       Inr (options\<lparr>op_sys_w_stderr_mark := (value = ''1'')\<rparr>, dbg)
     else Inr (options, dbg))"

section \<open>Escaping\<close>

definition to_sanitize_command_value :: string where
  "to_sanitize_command_value = [CHR 0x5C, CHR ''='', CHR '';'']"

definition backslash :: char where
  "backslash = CHR 0x5C"

definition should_sanitize :: "char \<Rightarrow> bool" where
  "should_sanitize tc \<longleftrightarrow> tc \<in> set to_sanitize_command_value"

fun sanitize_command_value :: "string \<Rightarrow> string" where
  "sanitize_command_value [] = []"
| "sanitize_command_value (c # cs) =
    (if should_sanitize c then [backslash, c] else [c]) @ sanitize_command_value cs"

fun sanitize_kv_loop :: "bool \<Rightarrow> string \<Rightarrow> string" where
  "sanitize_kv_loop should_check [] = []"
| "sanitize_kv_loop should_check (c # cs) =
    (if should_check \<and> should_sanitize c then [backslash] else []) @ [c]
    @ sanitize_kv_loop (should_check \<or> c = CHR ''='') cs"

definition sanitize_command_key_value :: "string \<Rightarrow> string" where
  "sanitize_command_key_value = sanitize_kv_loop False"

definition create_arg :: "string \<Rightarrow> string \<Rightarrow> string" where
  "create_arg key value = key @ ''='' @ value @ '';''"

definition create_arg_sanitize_value :: "string \<Rightarrow> string \<Rightarrow> string" where
  "create_arg_sanitize_value key value = create_arg key (sanitize_command_value value)"

definition get_dbg_str_arg :: "bool \<Rightarrow> string" where
  "get_dbg_str_arg dbg = create_arg key_debug (if dbg then ''1'' else ''0'')"

definition get_exit_command :: "string \<Rightarrow> string" where
  "get_exit_command sid =
    create_arg_sanitize_value key_id sid @ create_arg key_command cmd_shutdown"

section \<open>Parsing\<close>

text \<open>\<open>set_option\<close>: the key up to the first unescaped \<open>=\<close>, the value after it
  (further unescaped \<open>=\<close> are dropped).\<close>

fun set_option_loop :: "string \<Rightarrow> string \<Rightarrow> string \<Rightarrow> bool \<Rightarrow> bool \<Rightarrow> string \<times> string" where
  "set_option_loop [] opt value filling_value include_next_special = (opt, value)"
| "set_option_loop (c # cs) opt value filling_value include_next_special =
    (if \<not> include_next_special \<and> c = backslash then
       set_option_loop cs opt value filling_value True
     else if \<not> include_next_special \<and> c = CHR ''='' then
       set_option_loop cs opt value True False
     else if filling_value then
       set_option_loop cs opt (value @ [c]) True False
     else set_option_loop cs (opt @ [c]) value False False)"

definition set_option :: "parse_state \<Rightarrow> string \<Rightarrow> parse_state result" where
  "set_option st cmd_option =
    (case set_option_loop cmd_option [] [] False False of
       (opt, value) \<Rightarrow> assign_command_option_key_value st opt value)"

fun parse_loop :: "string \<Rightarrow> bool \<Rightarrow> string \<Rightarrow> parse_state \<Rightarrow> parse_state result" where
  "parse_loop [] include_next_special temp_str st =
    (if temp_str = [] then Inr st
     else set_option st (sanitize_command_key_value temp_str))"
| "parse_loop (c # cs) include_next_special temp_str st =
    (if \<not> include_next_special \<and> c = backslash then
       parse_loop cs True temp_str st
     else if \<not> include_next_special \<and> c = CHR '';'' then
       bind_result (set_option st (sanitize_command_key_value temp_str))
         (parse_loop cs False [])
     else parse_loop cs False (temp_str @ [c]) st)"

definition parse_command_to_options :: "string \<Rightarrow> parse_state \<Rightarrow> parse_state result" where
  "parse_command_to_options cmd st = parse_loop cmd False [] st"

section \<open>The round trip of a command\<close>

lemma should_sanitize_iff:
  "should_sanitize c \<longleftrightarrow> c = backslash \<or> c = CHR ''='' \<or> c = CHR '';''"
  by (simp add: should_sanitize_def to_sanitize_command_value_def backslash_def)

lemma special_distinct [simp]:
  "backslash \<noteq> CHR ''=''" "backslash \<noteq> CHR '';''"
  "CHR ''='' \<noteq> backslash" "CHR '';'' \<noteq> backslash"
  by (simp_all add: backslash_def)

definition clean_key :: "string \<Rightarrow> bool" where
  "clean_key k \<longleftrightarrow> (\<forall>c \<in> set k. \<not> should_sanitize c)"

lemma parse_loop_sanitized:
  "parse_loop (sanitize_command_value v @ rest) False temp st = parse_loop rest False (temp @ v) st"
  by (induction v arbitrary: temp) (auto simp: should_sanitize_iff)

lemma parse_loop_clean:
  "clean_key k \<Longrightarrow> parse_loop (k @ rest) False temp st = parse_loop rest False (temp @ k) st"
  by (induction k arbitrary: temp) (auto simp: clean_key_def should_sanitize_iff)

lemma sanitize_kv_loop_True: "sanitize_kv_loop True v = sanitize_command_value v"
  by (induction v) auto

lemma sanitize_command_key_value_eq:
  "clean_key k \<Longrightarrow>
    sanitize_command_key_value (k @ CHR ''='' # v) = k @ CHR ''='' # sanitize_command_value v"
  unfolding sanitize_command_key_value_def
  by (induction k) (auto simp: clean_key_def should_sanitize_iff sanitize_kv_loop_True)

lemma set_option_loop_value:
  "set_option_loop (sanitize_command_value v) opt value True False = (opt, value @ v)"
  by (induction v arbitrary: "value") (auto simp: should_sanitize_iff)

lemma set_option_loop_key:
  "clean_key k \<Longrightarrow> set_option_loop (k @ CHR ''='' # rest) opt value False False
    = set_option_loop rest (opt @ k) value True False"
  by (induction k arbitrary: opt) (auto simp: clean_key_def should_sanitize_iff)

lemma parse_loop_arg:
  assumes "clean_key k"
  shows "parse_loop (create_arg_sanitize_value k v @ rest) False [] st =
    bind_result (assign_command_option_key_value st k v) (parse_loop rest False [])"
proof -
  have "parse_loop (create_arg_sanitize_value k v @ rest) False [] st
      = parse_loop (CHR '';'' # rest) False (k @ CHR ''='' # v) st"
    using assms
    by (simp add: create_arg_sanitize_value_def create_arg_def parse_loop_clean parse_loop_sanitized)
  also have "\<dots> = bind_result (set_option st (k @ CHR ''='' # sanitize_command_value v))
      (parse_loop rest False [])"
    using assms by (simp add: sanitize_command_key_value_eq)
  also have "set_option st (k @ CHR ''='' # sanitize_command_value v)
      = assign_command_option_key_value st k v"
    using assms by (simp add: set_option_def set_option_loop_key set_option_loop_value)
  finally show ?thesis .
qed

lemma sanitize_clean: "clean_key v \<Longrightarrow> sanitize_command_value v = v"
  by (induction v) (auto simp: clean_key_def)

lemma create_arg_clean: "clean_key v \<Longrightarrow> create_arg k v = create_arg_sanitize_value k v"
  by (simp add: create_arg_sanitize_value_def sanitize_clean)

text \<open>What a command means: its assignments, in order, up to the first that throws.\<close>

fun assign_all :: "(string \<times> string) list \<Rightarrow> parse_state \<Rightarrow> parse_state result" where
  "assign_all [] st = Inr st"
| "assign_all ((k, v) # kvs) st =
    bind_result (assign_command_option_key_value st k v) (assign_all kvs)"

definition command_of :: "(string \<times> string) list \<Rightarrow> string" where
  "command_of kvs = concat (map (\<lambda>(k, v). create_arg_sanitize_value k v) kvs)"

lemma bind_result_cong:
  "(\<And>a. f a = g a) \<Longrightarrow> bind_result r f = bind_result r g"
  by (cases r) auto

lemma parse_command_of:
  "\<forall>(k, v) \<in> set kvs. clean_key k \<Longrightarrow>
    parse_command_to_options (command_of kvs) st = assign_all kvs st"
  unfolding parse_command_to_options_def
proof (induction kvs arbitrary: st)
  case Nil
  then show ?case by (simp add: command_of_def)
next
  case (Cons kv kvs)
  obtain k v where kv: "kv = (k, v)" by fastforce
  then have "parse_loop (command_of (kv # kvs)) False [] st
      = bind_result (assign_command_option_key_value st k v)
          (parse_loop (command_of kvs) False [])"
    using Cons.prems parse_loop_arg [of k v "command_of kvs" st] by (simp add: command_of_def)
  also have "\<dots> = assign_all (kv # kvs) st"
    unfolding kv assign_all.simps
    by (rule bind_result_cong) (use Cons.IH Cons.prems in simp)
  finally show ?case .
qed

lemma clean_keys:
  "clean_key key_id" "clean_key key_command" "clean_key key_force" "clean_key key_ready"
  "clean_key key_debug" "clean_key key_file_path" "clean_key key_guild_id"
  "clean_key key_seek" "clean_key key_volume" "clean_key key_helper_chain"
  "clean_key key_ytdlp_util_exe" "clean_key key_ytdlp_query" "clean_key key_ytdlp_max_entries"
  "clean_key key_ytdlp_lib_path" "clean_key key_gnuplot_cmd" "clean_key key_sys_cmd"
  "clean_key key_sys_max_out_len" "clean_key key_sys_no_stderr" "clean_key key_sys_w_stderr_mark"
  by code_simp+

section \<open>Records on the wire\<close>

text \<open>\<open>CMD_BUFSIZE\<close> is \<open>BUFSIZ\<close> of the C library. A command is written padded with NUL
  bytes to that size, or not at all; the reader takes the record as a C string.\<close>

definition CMD_BUFSIZE :: nat where
  "CMD_BUFSIZE = 8192"

definition NUL :: char where
  "NUL = CHR 0x00"

definition write_command :: "string \<Rightarrow> int \<Rightarrow> string option" where
  "write_command cmd write_fd =
    (if write_fd < 0 then None
     else if length cmd > CMD_BUFSIZE then None
     else Some (cmd @ replicate (CMD_BUFSIZE - length cmd) NUL))"

definition c_str :: "string \<Rightarrow> string" where
  "c_str s = takeWhile (\<lambda>c. c \<noteq> NUL) s"

lemma length_write_command: "write_command cmd fd = Some r \<Longrightarrow> length r = CMD_BUFSIZE"
  by (auto simp: write_command_def split: if_splits)

lemma c_str_write_command:
  assumes "write_command cmd fd = Some r" and "NUL \<notin> set cmd"
  shows "c_str r = cmd"
proof -
  have r: "r = cmd @ replicate (CMD_BUFSIZE - length cmd) NUL"
    using assms(1) by (auto simp: write_command_def split: if_splits)
  have "takeWhile (\<lambda>c. c \<noteq> NUL) (cmd @ ys) = cmd @ takeWhile (\<lambda>c. c \<noteq> NUL) ys" for ys
    using assms(2) by (intro takeWhile_append2) auto
  then show ?thesis by (simp add: r c_str_def)
qed

section \<open>The command queue\<close>

record command_queue_t =
  cq_queue :: "string list"
  cq_written :: "string list"

definition send_command :: "string \<Rightarrow> command_queue_t \<Rightarrow> command_queue_t" where
  "send_command cmd q = q\<lparr>cq_queue := cq_queue q @ [cmd]\<rparr>"

definition write_to_worker :: "int \<Rightarrow> string \<Rightarrow> command_queue_t \<Rightarrow> command_queue_t" where
  "write_to_worker fd cmd q =
    (case write_command cmd fd of None \<Rightarrow> q | Some r \<Rightarrow> q\<lparr>cq_written := cq_written q @ [r]\<rparr>)"

fun command_queue_loop :: "int \<Rightarrow> string list \<Rightarrow> command_queue_t \<Rightarrow> command_queue_t" where
  "command_queue_loop fd [] q = q\<lparr>cq_queue := []\<rparr>"
| "command_queue_loop fd (i # is) q =
    command_queue_loop fd is ((write_to_worker fd i q)\<lparr>cq_queue := is\<rparr>)"

definition command_queue_routine :: "int \<Rightarrow> command_queue_t \<Rightarrow> command_queue_t" where
  "command_queue_routine fd q = command_queue_loop fd (cq_queue q) q"

definition wait_for_command :: "bool \<Rightarrow> command_queue_t \<Rightarrow> bool" where
  "wait_for_command running q \<longleftrightarrow> cq_queue q \<noteq> [] \<or> \<not> running"

text \<open>One iteration of the notification thread; \<open>handle_child_message\<close> is below.\<close>

definition read_notification :: "string \<Rightarrow> bool \<Rightarrow> parse_state result" where
  "read_notification rec dbg = parse_command_to_options (c_str rec) (create_command_options, dbg)"

lemma command_queue_loop_eq:
  "command_queue_loop fd is q =
    q\<lparr>cq_queue := [], cq_written := cq_written q @ List.map_filter (\<lambda>c. write_command c fd) is\<rparr>"
proof (induction "is" arbitrary: q)
  case (Cons i "is")
  show ?case
    by (cases "write_command i fd") (simp_all add: Cons write_to_worker_def List.map_filter_simps)
qed (simp add: List.map_filter_simps)

section \<open>Waiting for a slave\<close>

definition TIMEOUT :: int where "TIMEOUT = - 1"
definition ERR_SLAVE_EXIST :: int where "ERR_SLAVE_EXIST = 875"

definition should_bail_out_afayc :: "int \<Rightarrow> bool" where
  "should_bail_out_afayc command_status \<longleftrightarrow>
    command_status = ERR_SLAVE_EXIST \<or> command_status = TIMEOUT"

type_synonym slave_ready = "string \<rightharpoonup> bool \<times> int"

definition mark_slave_ready :: "string \<Rightarrow> int \<Rightarrow> slave_ready \<Rightarrow> slave_ready" where
  "mark_slave_ready sid status q = q(sid \<mapsto> (True, status))"

definition handle_child_message :: "command_options_t \<Rightarrow> slave_ready \<Rightarrow> slave_ready" where
  "handle_child_message options q =
    (if op_command options = key_ready then mark_slave_ready (op_id options) (op_ready options) q
     else q)"

text \<open>\<open>wait_slave_ready\<close> runs in three critical sections: it returns at once when
  there is an entry, or registers one and waits; the wait ends when the predicate
  holds or the time is up, and the last section reads and removes the entry.\<close>

definition wait_slave_enter :: "string \<Rightarrow> slave_ready \<Rightarrow> int option \<times> slave_ready" where
  "wait_slave_enter sid q =
    (case q sid of
       Some (rdy, ret) \<Rightarrow> (Some ret, q(sid := None))
     | None \<Rightarrow> (None, q(sid \<mapsto> (False, - 1))))"

definition wait_slave_wakes :: "string \<Rightarrow> slave_ready \<Rightarrow> bool" where
  "wait_slave_wakes sid q \<longleftrightarrow> (case q sid of None \<Rightarrow> True | Some (rdy, _) \<Rightarrow> rdy)"

definition wait_slave_leave :: "string \<Rightarrow> slave_ready \<Rightarrow> int \<times> slave_ready" where
  "wait_slave_leave sid q =
    (case q sid of None \<Rightarrow> (- 1, q) | Some (rdy, ret) \<Rightarrow> (ret, q(sid := None)))"

text \<open>What other threads do to the table meanwhile.\<close>

datatype sr_event = Sr_mark string int | Sr_enter string | Sr_leave string

fun sr_step :: "sr_event \<Rightarrow> slave_ready \<Rightarrow> slave_ready" where
  "sr_step (Sr_mark i st) q = mark_slave_ready i st q"
| "sr_step (Sr_enter i) q = snd (wait_slave_enter i q)"
| "sr_step (Sr_leave i) q = snd (wait_slave_leave i q)"

fun sr_id :: "sr_event \<Rightarrow> string" where
  "sr_id (Sr_mark i st) = i"
| "sr_id (Sr_enter i) = i"
| "sr_id (Sr_leave i) = i"

definition sr_run :: "sr_event list \<Rightarrow> slave_ready \<Rightarrow> slave_ready" where
  "sr_run es q = fold sr_step es q"

lemma sr_step_other: "sr_id e \<noteq> i \<Longrightarrow> sr_step e q i = q i"
  by (cases e) (auto simp: mark_slave_ready_def wait_slave_enter_def wait_slave_leave_def
      split: option.splits)

lemma sr_run_other: "\<forall>e \<in> set es. sr_id e \<noteq> i \<Longrightarrow> sr_run es q i = q i"
  unfolding sr_run_def
  by (induction es arbitrary: q) (auto simp: sr_step_other)

lemma wait_slave_enter_None: "q i = None \<Longrightarrow>
    fst (wait_slave_enter i q) = None \<and> snd (wait_slave_enter i q) i = Some (False, - 1)"
  by (simp add: wait_slave_enter_def)

text \<open>\<open>send_command_wr\<close>: the command, and a forced exit command when the reply
  says so.\<close>

definition bail_out_afayc :: "string \<Rightarrow> command_queue_t \<Rightarrow> command_queue_t" where
  "bail_out_afayc exit_cmd q = send_command (exit_cmd @ create_arg key_force ''1'') q"

definition send_command_wr_begin :: "string \<Rightarrow> string \<Rightarrow> command_queue_t \<Rightarrow> slave_ready
    \<Rightarrow> int option \<times> command_queue_t \<times> slave_ready" where
  "send_command_wr_begin cmd sid q sr =
    (case wait_slave_enter sid sr of (r, sr') \<Rightarrow> (r, send_command cmd q, sr'))"

definition send_command_wr_end :: "string \<Rightarrow> int \<Rightarrow> command_queue_t \<Rightarrow> command_queue_t" where
  "send_command_wr_end exit_cmd status q =
    (if should_bail_out_afayc status then bail_out_afayc exit_cmd q else q)"

section \<open>Properties\<close>

lemma write_parse_command_of:
  assumes "\<forall>(k, v) \<in> set kvs. clean_key k \<and> NUL \<notin> set k \<and> NUL \<notin> set v"
    and "length (command_of kvs) \<le> CMD_BUFSIZE" and "0 \<le> fd"
  shows "\<exists>rec. write_command (command_of kvs) fd = Some rec \<and> length rec = CMD_BUFSIZE
    \<and> parse_command_to_options (c_str rec) st = assign_all kvs st"
proof -
  obtain rec where w: "write_command (command_of kvs) fd = Some rec"
    using assms(2,3) by (simp add: write_command_def)
  have "NUL \<notin> set (sanitize_command_value v)" if "NUL \<notin> set v" for v
    using that by (induction v) (auto simp: backslash_def NUL_def)
  then have "NUL \<notin> set (command_of kvs)"
    using assms(1) by (auto simp: command_of_def create_arg_sanitize_value_def create_arg_def NUL_def)
  then have "c_str rec = command_of kvs" by (rule c_str_write_command [OF w])
  moreover have "parse_command_to_options (command_of kvs) st = assign_all kvs st"
    using assms(1) by (intro parse_command_of) auto
  ultimately show ?thesis using w length_write_command [OF w] by auto
qed

text \<open>C1: A command built from clean keys and arbitrary values, written as a record
  and read back as a C string, parses to exactly the assignments it was built from, in
  order; the escaping hides every special character of a value.\<close>

theorem command_roundtrip:
  assumes "\<forall>(k, v) \<in> set kvs. clean_key k \<and> NUL \<notin> set k \<and> NUL \<notin> set v"
    and "length (command_of kvs) \<le> CMD_BUFSIZE" and "0 \<le> fd"
  shows "\<exists>rec. write_command (command_of kvs) fd = Some rec \<and> length rec = CMD_BUFSIZE
    \<and> parse_command_to_options (c_str rec) st = assign_all kvs st"
  using assms by (rule write_parse_command_of)

theorem command_roundtrip_witness:
  "\<exists>rec. write_command (command_of [(''id'', ''a=b;c''), (''sk'', [CHR 0x5C, CHR ''x''])]) 3 = Some rec
    \<and> length rec = CMD_BUFSIZE
    \<and> parse_command_to_options (c_str rec) (create_command_options, False)
      = assign_all [(''id'', ''a=b;c''), (''sk'', [CHR 0x5C, CHR ''x''])] (create_command_options, False)"
  by (rule command_roundtrip)
    (simp_all add: clean_key_def should_sanitize_iff backslash_def NUL_def command_of_def CMD_BUFSIZE_def
      create_arg_sanitize_value_def create_arg_def)

text \<open>The status that the worker reports for an id reaches the caller that waits for
  it, whatever other ids do meanwhile: a caller that registered first does not wake before the
  mark, wakes after it, and takes the status and the entry away; a caller that comes after the
  mark gets the status at once.\<close>

theorem wait_slave_ready_delivers:
  assumes "q i = None" and "\<forall>e \<in> set es1 \<union> set es2. sr_id e \<noteq> i"
  shows "(let q1 = snd (wait_slave_enter i q); q2 = sr_run es1 q1;
             q3 = sr_run es2 (mark_slave_ready i st q2)
          in fst (wait_slave_enter i q) = None \<and> \<not> wait_slave_wakes i q2
           \<and> wait_slave_wakes i q3 \<and> fst (wait_slave_leave i q3) = st
           \<and> snd (wait_slave_leave i q3) i = None)
    \<and> (let q3 = sr_run es2 (mark_slave_ready i st (sr_run es1 q))
       in fst (wait_slave_enter i q3) = Some st \<and> snd (wait_slave_enter i q3) i = None)"
proof -
  have "sr_run es2 (mark_slave_ready i st x) i = Some (True, st)" for x
    using assms(2) by (subst sr_run_other) (auto simp: mark_slave_ready_def)
  moreover have "sr_run es1 (snd (wait_slave_enter i q)) i = Some (False, - 1)"
    using assms by (subst sr_run_other) (auto simp: wait_slave_enter_def)
  ultimately show ?thesis
    using assms(1)
    by (simp_all add: Let_def wait_slave_wakes_def wait_slave_leave_def wait_slave_enter_def)
qed

theorem wait_slave_ready_delivers_witness:
  "let q3 = sr_run [Sr_leave ''c''] (mark_slave_ready ''a'' 7 (sr_run [Sr_mark ''b'' 1] Map.empty))
   in fst (wait_slave_enter ''a'' q3) = Some 7 \<and> snd (wait_slave_enter ''a'' q3) ''a'' = None"
  by (rule wait_slave_ready_delivers [THEN conjunct2]) simp_all

text \<open>The writer thread empties the command queue in order: every queued command that
  fits a record is written once, padded, and longer ones are dropped without disturbing the rest.\<close>

theorem command_queue_fifo:
  "command_queue_routine fd (fold send_command cmds \<lparr>cq_queue = [], cq_written = out\<rparr>) =
    \<lparr>cq_queue = [], cq_written = out @
      (if fd < 0 then [] else
        map (\<lambda>c. c @ replicate (CMD_BUFSIZE - length c) NUL)
          (filter (\<lambda>c. length c \<le> CMD_BUFSIZE) cmds))\<rparr>"
proof -
  have f: "fold send_command cmds \<lparr>cq_queue = qu, cq_written = out\<rparr>
      = \<lparr>cq_queue = qu @ cmds, cq_written = out\<rparr>" for qu
    by (induction cmds arbitrary: qu) (auto simp: send_command_def)
  have "List.map_filter (\<lambda>c. write_command c fd) cmds =
      (if fd < 0 then [] else
        map (\<lambda>c. c @ replicate (CMD_BUFSIZE - length c) NUL)
          (filter (\<lambda>c. length c \<le> CMD_BUFSIZE) cmds))"
    by (induction cmds) (auto simp: List.map_filter_simps write_command_def)
  then show ?thesis by (simp add: command_queue_routine_def f command_queue_loop_eq)
qed

end
