(* ===== verification/Interfaces.thy ===== *)
theory Interfaces
  imports Prelude
begin

text \<open>
  The contracts that several components share, each stated once as a locale. Every
  component that provides one interprets it on its own operations.

  \<^item> \<open>kv_store\<close>: a mutable table, read and written by key, where writing replaces.
  \<^item> \<open>registry\<close>: a table in which the first registration under a key wins until it is
    removed; registering again reports the duplicate and leaves the table alone.
  \<^item> \<open>id_set\<close>: a set of guild ids kept as a list, with its mark, unmark and test.
\<close>

section \<open>Tables where writing replaces\<close>

locale kv_store =
  fixes lookup :: "'s \<Rightarrow> 'k \<Rightarrow> 'v option"
    and store :: "'k \<Rightarrow> 'v \<Rightarrow> 's \<Rightarrow> 's"
    and remove :: "'k \<Rightarrow> 's \<Rightarrow> 's"
  assumes lookup_store: "lookup (store k v s) = (lookup s)(k \<mapsto> v)"
    and lookup_remove: "lookup (remove k s) = (lookup s)(k := None)"
begin

lemma store_same: "lookup (store k v s) k = Some v"
  by (simp add: lookup_store)

lemma store_other: "k' \<noteq> k \<Longrightarrow> lookup (store k v s) k' = lookup s k'"
  by (simp add: lookup_store)

lemma store_store: "lookup (store k v (store k v' s)) = lookup (store k v s)"
  by (simp add: lookup_store)

lemma store_commute:
  "k \<noteq> k' \<Longrightarrow> lookup (store k v (store k' v' s)) = lookup (store k' v' (store k v s))"
  by (simp add: lookup_store fun_upd_twist)

lemma remove_store: "lookup (remove k (store k v s)) = (lookup s)(k := None)"
  by (simp add: lookup_store lookup_remove)

lemma lookup_fold_store:
  "lookup (fold (\<lambda>(k, v). store k v) kvs s) = lookup s ++ map_of (rev kvs)"
  by (induction kvs arbitrary: s) (auto simp: lookup_store)

lemma lookup_fold_remove:
  "lookup (fold remove ks s) k = (if k \<in> set ks then None else lookup s k)"
  by (induction ks arbitrary: s) (auto simp: lookup_remove)

end

section \<open>Registries where the first registration wins\<close>

locale registry =
  fixes entry :: "'s \<Rightarrow> 'k \<Rightarrow> 'v option"
    and key_of :: "'v \<Rightarrow> 'k"
    and register :: "'v \<Rightarrow> 's \<Rightarrow> bool \<times> 's"
    and unregister :: "'k \<Rightarrow> 's \<Rightarrow> bool \<times> 's"
    and ok :: "'s \<Rightarrow> bool"
  assumes register_fresh:
      "ok s \<Longrightarrow> entry s (key_of v) = None \<Longrightarrow> fst (register v s)
        \<and> ok (snd (register v s)) \<and> entry (snd (register v s)) = (entry s)(key_of v \<mapsto> v)"
    and register_dup: "ok s \<Longrightarrow> entry s (key_of v) = Some v' \<Longrightarrow> register v s = (False, s)"
    and unregister_entry:
      "ok s \<Longrightarrow> ok (snd (unregister k s)) \<and> entry (snd (unregister k s)) = (entry s)(k := None)
        \<and> (fst (unregister k s) \<longleftrightarrow> entry s k \<noteq> None)"
begin

lemma register_status: "ok s \<Longrightarrow> fst (register v s) \<longleftrightarrow> entry s (key_of v) = None"
  using register_fresh register_dup by (cases "entry s (key_of v)") auto

lemma register_entry:
  "ok s \<Longrightarrow> entry (snd (register v s)) =
    (if entry s (key_of v) = None then (entry s)(key_of v \<mapsto> v) else entry s)"
  using register_fresh register_dup by (cases "entry s (key_of v)") auto

lemma register_ok: "ok s \<Longrightarrow> ok (snd (register v s))"
  using register_fresh register_dup by (cases "entry s (key_of v)") auto

lemma unregister_ok: "ok s \<Longrightarrow> ok (snd (unregister k s))"
  using unregister_entry by blast

lemma register_other:
  "ok s \<Longrightarrow> k \<noteq> key_of v \<Longrightarrow> entry (snd (register v s)) k = entry s k"
  by (simp add: register_entry)

lemma first_wins:
  "ok s \<Longrightarrow> entry s (key_of v) = None \<Longrightarrow> key_of v' = key_of v \<Longrightarrow>
    entry (snd (register v' (snd (register v s)))) (key_of v) = Some v"
  by (simp add: register_entry register_ok)

lemma register_unregister:
  assumes "ok s" and "entry s (key_of v) = None"
  shows "entry (snd (unregister (key_of v) (snd (register v s)))) = entry s"
  using assms unregister_entry [OF register_ok [OF assms(1)]] by (auto simp: register_entry)

lemma again_after_unregister:
  "ok s \<Longrightarrow> fst (register v (snd (unregister (key_of v) s)))"
  by (simp add: register_status unregister_ok unregister_entry)

end

section \<open>Sets of guild ids\<close>

locale id_set =
  fixes ok :: "'s \<Rightarrow> bool"
    and member :: "'s \<Rightarrow> snowflake \<Rightarrow> bool"
    and mark :: "snowflake \<Rightarrow> 's \<Rightarrow> 's"
    and unmark :: "snowflake \<Rightarrow> 's \<Rightarrow> 's"
  assumes member_mark: "ok s \<Longrightarrow> member (mark i s) j \<longleftrightarrow> j = i \<or> member s j"
    and member_unmark: "ok s \<Longrightarrow> member (unmark i s) j \<longleftrightarrow> j \<noteq> i \<and> member s j"
    and ok_mark: "ok s \<Longrightarrow> ok (mark i s)"
    and ok_unmark: "ok s \<Longrightarrow> ok (unmark i s)"
begin

lemma unmark_mark: "ok s \<Longrightarrow> \<not> member s i \<Longrightarrow> member (unmark i (mark i s)) j \<longleftrightarrow> member s j"
  by (auto simp: member_mark member_unmark ok_mark)

lemma mark_idem: "ok s \<Longrightarrow> member (mark i (mark i s)) j \<longleftrightarrow> member (mark i s) j"
  by (auto simp: member_mark ok_mark)

lemma member_fold_mark: "ok s \<Longrightarrow> member (fold mark is s) j \<longleftrightarrow> j \<in> set is \<or> member s j"
  by (induction "is" arbitrary: s) (auto simp: member_mark ok_mark)

end

section \<open>Maps in key order\<close>

text \<open>A \<open>std::map\<close> as the list of its entries in key order, for the loops that go
  through one.\<close>

fun str_less :: "string \<Rightarrow> string \<Rightarrow> bool" where
  "str_less s [] = False"
| "str_less [] (c # cs) = True"
| "str_less (a # as) (c # cs) =
    (if a = c then str_less as cs else (of_char a :: nat) < of_char c)"

fun omap_insert :: "string \<Rightarrow> 'v \<Rightarrow> (string \<times> 'v) list \<Rightarrow> (string \<times> 'v) list" where
  "omap_insert k v [] = [(k, v)]"
| "omap_insert k v ((k', v') # m) =
    (if k = k' then (k, v) # m
     else if str_less k k' then (k, v) # (k', v') # m
     else (k', v') # omap_insert k v m)"

definition omap_delete :: "string \<Rightarrow> (string \<times> 'v) list \<Rightarrow> (string \<times> 'v) list" where
  "omap_delete k m = filter (\<lambda>(k', v). k' \<noteq> k) m"

definition omap_ok :: "(string \<times> 'v) list \<Rightarrow> bool" where
  "omap_ok m \<longleftrightarrow> sorted_wrt str_less (map fst m)"

lemma str_less_irrefl [simp]: "\<not> str_less s s"
  by (induction s) auto

lemma str_less_trans: "str_less a b \<Longrightarrow> str_less b c \<Longrightarrow> str_less a c"
proof (induction a b arbitrary: c rule: str_less.induct)
  case (2 x xs)
  then show ?case by (cases c) auto
next
  case (3 x xs y ys)
  then show ?case by (cases c) (auto split: if_splits)
qed simp

lemma str_less_linear: "a \<noteq> b \<Longrightarrow> \<not> str_less a b \<Longrightarrow> str_less b a"
proof (induction a b rule: str_less.induct)
  case (1 s)
  then show ?case by (cases s) auto
next
  case (3 a as c cs)
  have "a \<noteq> c \<Longrightarrow> (of_char a :: nat) \<noteq> of_char c" by simp
  with 3 show ?case by (cases "a = c") (auto simp: not_less_iff_gr_or_eq)
qed simp

lemma map_of_omap_insert: "map_of (omap_insert k v m) = (map_of m)(k \<mapsto> v)"
  by (induction k v m rule: omap_insert.induct) auto

lemma map_of_omap_delete: "map_of (omap_delete k m) = (map_of m)(k := None)"
  by (induction m) (auto simp: omap_delete_def)

lemma keys_omap_insert: "set (map fst (omap_insert k v m)) = insert k (set (map fst m))"
  by (induction k v m rule: omap_insert.induct) auto

lemma omap_ok_Nil [simp]: "omap_ok []"
  by (simp add: omap_ok_def)

lemma omap_ok_insert: "omap_ok m \<Longrightarrow> omap_ok (omap_insert k v m)"
  unfolding omap_ok_def
proof (induction k v m rule: omap_insert.induct)
  case (2 k v k' v' m)
  show ?case
  proof (cases "k = k' \<or> str_less k k'")
    case True
    then show ?thesis using 2(2) by (auto intro: str_less_trans)
  next
    case False
    then have "str_less k' k" using str_less_linear by auto
    then show ?thesis using False 2 keys_omap_insert [of k v m] by auto
  qed
qed simp

lemma omap_ok_delete: "omap_ok m \<Longrightarrow> omap_ok (omap_delete k m)"
  unfolding omap_ok_def omap_delete_def by (induction m) auto

lemma omap_ok_distinct: "omap_ok m \<Longrightarrow> distinct (map fst m)"
  unfolding omap_ok_def by (induction m) auto

lemma set_omap_delete: "kv \<in> set (omap_delete k m) \<longleftrightarrow> kv \<in> set m \<and> fst kv \<noteq> k"
  by (auto simp: omap_delete_def)

end
