(* ===== verification/Worker.thy ===== *)
theory Worker
  imports ChildCommand Interfaces
begin

text \<open>
  The worker process: \<open>src/musicat/child/worker.cpp\<close>, \<open>slave_manager.cpp\<close>,
  \<open>worker_management.cpp\<close> and \<open>worker_command.cpp\<close>. It receives commands from the main
  process, forks the children they ask for, keeps the table of its slaves, replies with
  the status, and reaps the slaves whose shutdown was requested.

  The operating system is a record of what a call changes (FIFOs on disk, named
  semaphores, child processes, signals sent); which calls fail and which pid a fork
  returns is the parameter \<open>orc\<close>.
\<close>

section \<open>The operating system\<close>

record os =
  os_fifos :: "string set"
  os_sems :: "string \<rightharpoonup> nat"
  os_children :: "int set"
  os_killed :: "int list"

record os_oracle =
  orc_mkfifo_fails :: "string \<Rightarrow> bool"
  orc_fork :: int
  orc_ts :: int

definition unlink :: "string \<Rightarrow> os \<Rightarrow> os" where
  "unlink path s = s\<lparr>os_fifos := os_fifos s - {path}\<rparr>"

definition mkfifo :: "os_oracle \<Rightarrow> string \<Rightarrow> os \<Rightarrow> int \<times> os" where
  "mkfifo orc path s =
    (if orc_mkfifo_fails orc path \<or> path \<in> os_fifos s then (- 1, s)
     else (0, s\<lparr>os_fifos := insert path (os_fifos s)\<rparr>))"

definition get_sem_key :: "os_oracle \<Rightarrow> string \<Rightarrow> string" where
  "get_sem_key orc key = ''musicat.'' @ key @ ''.'' @ int_str (orc_ts orc)"

definition create_sem :: "string \<Rightarrow> os \<Rightarrow> os" where
  "create_sem full_key s =
    s\<lparr>os_sems := (os_sems s)(full_key \<mapsto> (case os_sems s full_key of None \<Rightarrow> 0 | Some n \<Rightarrow> n))\<rparr>"

definition do_sem_post :: "string \<Rightarrow> os \<Rightarrow> os" where
  "do_sem_post full_key s =
    (case os_sems s full_key of
       None \<Rightarrow> s | Some n \<Rightarrow> s\<lparr>os_sems := (os_sems s)(full_key \<mapsto> Suc n)\<rparr>)"

definition clear_sem :: "string \<Rightarrow> os \<Rightarrow> os" where
  "clear_sem full_key s = s\<lparr>os_sems := (os_sems s)(full_key := None)\<rparr>"

text \<open>\<open>do_sem_wait\<close> blocks (no result) while the count is zero, then clears.\<close>

definition do_sem_wait :: "string \<Rightarrow> os \<Rightarrow> os option" where
  "do_sem_wait full_key s =
    (case os_sems s full_key of Some (Suc n) \<Rightarrow> Some (clear_sem full_key s) | _ \<Rightarrow> None)"

text \<open>\<open>call_fork\<close> in the parent: a pid, or a negative status. The child posts the
  semaphore, on the path where \<open>prctl\<close> fails as well.\<close>

definition call_fork :: "os_oracle \<Rightarrow> os \<Rightarrow> int \<times> os" where
  "call_fork orc s =
    (if orc_fork orc < 0 then (- 1, s)
     else (orc_fork orc, s\<lparr>os_children := insert (orc_fork orc) (os_children s)\<rparr>))"

definition child_start :: "string \<Rightarrow> os \<Rightarrow> os" where
  "child_start full_key s = do_sem_post full_key s"

section \<open>Paths\<close>

definition get_local_dir :: string where
  "get_local_dir = ''.musicat/''"

definition get_audio_stream_fifo_path :: "string \<Rightarrow> string" where
  "get_audio_stream_fifo_path i = get_local_dir @ i @ ''.audio_stream''"

definition get_audio_stream_stdin_path :: "string \<Rightarrow> string" where
  "get_audio_stream_stdin_path i = get_local_dir @ i @ ''.stdin''"

definition get_audio_stream_stdout_path :: "string \<Rightarrow> string" where
  "get_audio_stream_stdout_path i = get_local_dir @ i @ ''.stdout''"

definition get_ytdout_fifo_path :: "string \<Rightarrow> string" where
  "get_ytdout_fifo_path i = get_local_dir @ i @ ''.ytdout''"

definition get_ytdout_json_out_filename :: "string \<Rightarrow> string" where
  "get_ytdout_json_out_filename i = get_local_dir @ i @ ''.ytdres.json''"

definition get_system_fifo_path :: "string \<Rightarrow> string" where
  "get_system_fifo_path i = get_local_dir @ i @ ''.sys''"

definition get_system_json_filename :: "string \<Rightarrow> string" where
  "get_system_json_filename i = get_local_dir @ i @ ''.sys.out''"

definition get_download_music_fifo_path :: "string \<Rightarrow> string" where
  "get_download_music_fifo_path i = get_local_dir @ i @ ''.dlnotif''"

definition get_gnuplot_out_fifo_path :: "string \<Rightarrow> string" where
  "get_gnuplot_out_fifo_path i = get_local_dir @ i @ ''.gnuplotout''"

section \<open>Creating children\<close>

type_synonym spawn_result = "(int \<times> command_options_t \<times> os) option"

definition create_audio_processor :: "os_oracle \<Rightarrow> command_options_t \<Rightarrow> os \<Rightarrow> spawn_result" where
  "create_audio_processor orc options s0 =
    (let as_fp = get_audio_stream_fifo_path (op_id options);
         si_fp = get_audio_stream_stdin_path (op_id options);
         so_fp = get_audio_stream_stdout_path (op_id options);
         s1 = unlink so_fp (unlink si_fp (unlink as_fp s0))
     in case mkfifo orc as_fp s1 of (st1, s2) \<Rightarrow>
        if st1 < 0 then Some (st1, options, s2)
        else case mkfifo orc si_fp s2 of (st2, s3) \<Rightarrow>
        if st2 < 0 then Some (st2, options, unlink as_fp s3)
        else case mkfifo orc so_fp s3 of (st3, s4) \<Rightarrow>
        if st3 < 0 then Some (st3, options, unlink as_fp (unlink si_fp s4))
        else
          let options1 = options\<lparr>op_audio_stream_fifo_path := as_fp,
                op_audio_stream_stdin_path := si_fp, op_audio_stream_stdout_path := so_fp\<rparr>;
              key = get_sem_key orc (op_id options)
          in case call_fork orc (create_sem key s4) of (pid, s5) \<Rightarrow>
             if pid < 0 then
               (case do_sem_wait key (do_sem_post key (unlink so_fp s5)) of
                  None \<Rightarrow> None
                | Some s6 \<Rightarrow> Some (pid, options1, unlink as_fp (unlink si_fp s6)))
             else
               (case do_sem_wait key (child_start key s5) of
                  None \<Rightarrow> None
                | Some s6 \<Rightarrow> Some (0, options1\<lparr>op_pid := pid\<rparr>, s6)))"

text \<open>The other children have one FIFO each and share the sequence of calls.\<close>

definition spawn_with_fifo :: "string \<Rightarrow> os_oracle \<Rightarrow> command_options_t \<Rightarrow> os \<Rightarrow> spawn_result" where
  "spawn_with_fifo as_fp orc options s0 =
    (case mkfifo orc as_fp (unlink as_fp s0) of (st, s1) \<Rightarrow>
     if st < 0 then Some (st, options, s1)
     else
       let key = get_sem_key orc (op_id options)
       in case call_fork orc (create_sem key s1) of (pid, s2) \<Rightarrow>
          if pid < 0 then
            (case do_sem_wait key (do_sem_post key s2) of
               None \<Rightarrow> None | Some s3 \<Rightarrow> Some (pid, options, unlink as_fp s3))
          else
            (case do_sem_wait key (child_start key s2) of
               None \<Rightarrow> None | Some s3 \<Rightarrow> Some (0, options\<lparr>op_pid := pid\<rparr>, s3)))"

definition call_ytdlp :: "os_oracle \<Rightarrow> command_options_t \<Rightarrow> os \<Rightarrow> spawn_result" where
  "call_ytdlp orc options = spawn_with_fifo (get_ytdout_fifo_path (op_id options)) orc options"

definition call_gnuplot :: "os_oracle \<Rightarrow> command_options_t \<Rightarrow> os \<Rightarrow> spawn_result" where
  "call_gnuplot orc options = spawn_with_fifo (get_gnuplot_out_fifo_path (op_id options)) orc options"

definition call_system :: "os_oracle \<Rightarrow> command_options_t \<Rightarrow> os \<Rightarrow> spawn_result" where
  "call_system orc options = spawn_with_fifo (get_system_fifo_path (op_id options)) orc options"

text \<open>\<open>download_music\<close> unlinks its FIFO on the failed \<open>mkfifo\<close> as well.\<close>

definition download_music :: "os_oracle \<Rightarrow> command_options_t \<Rightarrow> os \<Rightarrow> spawn_result" where
  "download_music orc options s0 =
    (let as_fp = get_download_music_fifo_path (op_id options) in
     case mkfifo orc as_fp (unlink as_fp s0) of (st, s1) \<Rightarrow>
     if st < 0 then Some (st, options, unlink as_fp s1)
     else
       let key = get_sem_key orc (op_id options)
       in case call_fork orc (create_sem key s1) of (pid, s2) \<Rightarrow>
          if pid < 0 then
            (case do_sem_wait key (do_sem_post key s2) of
               None \<Rightarrow> None | Some s3 \<Rightarrow> Some (pid, options, unlink as_fp s3))
          else
            (case do_sem_wait key (child_start key s2) of
               None \<Rightarrow> None | Some s3 \<Rightarrow> Some (0, options\<lparr>op_pid := pid\<rparr>, s3)))"

text \<open>The FIFOs a slave of a given command owns.\<close>

definition slave_fifos :: "string \<Rightarrow> string \<Rightarrow> string set" where
  "slave_fifos cmd i =
    (if cmd = cmd_create_audio_processor then
       {get_audio_stream_fifo_path i, get_audio_stream_stdin_path i, get_audio_stream_stdout_path i}
     else if cmd = cmd_call_ytdlp then {get_ytdout_fifo_path i}
     else if cmd = cmd_call_system then {get_system_fifo_path i}
     else if cmd = cmd_dl_music then {get_download_music_fifo_path i}
     else {})"

lemmas os_defs = unlink_def mkfifo_def create_sem_def do_sem_post_def clear_sem_def
  do_sem_wait_def call_fork_def child_start_def

lemma audio_paths_distinct [simp]:
  "get_audio_stream_fifo_path i \<noteq> get_audio_stream_stdin_path i"
  "get_audio_stream_fifo_path i \<noteq> get_audio_stream_stdout_path i"
  "get_audio_stream_stdin_path i \<noteq> get_audio_stream_stdout_path i"
  "get_audio_stream_stdin_path i \<noteq> get_audio_stream_fifo_path i"
  "get_audio_stream_stdout_path i \<noteq> get_audio_stream_fifo_path i"
  "get_audio_stream_stdout_path i \<noteq> get_audio_stream_stdin_path i"
  by (simp_all add: get_audio_stream_fifo_path_def get_audio_stream_stdin_path_def
      get_audio_stream_stdout_path_def)

text \<open>What a spawn promises: it never blocks; failing, it leaves no FIFO of its own and
  no semaphore behind; succeeding, the FIFOs are there and the pid is the new child's.\<close>

definition spawn_ok :: "string set \<Rightarrow> os_oracle \<Rightarrow> command_options_t \<Rightarrow> os \<Rightarrow> spawn_result \<Rightarrow> bool" where
  "spawn_ok fifos orc options s0 r \<longleftrightarrow>
    (case r of
       None \<Rightarrow> False
     | Some (st, options', s') \<Rightarrow>
         op_id options' = op_id options \<and> op_command options' = op_command options
         \<and> os_sems s' = os_sems s0 \<and> os_killed s' = os_killed s0
         \<and> (if st = 0 then os_fifos s' = os_fifos s0 \<union> fifos \<and> op_pid options' = orc_fork orc
              \<and> 0 \<le> orc_fork orc \<and> os_children s' = insert (orc_fork orc) (os_children s0)
            else st < 0 \<and> os_fifos s' = os_fifos s0 - fifos \<and> os_children s' = os_children s0))"

lemma spawn_with_fifo_ok:
  assumes "os_sems s0 (get_sem_key orc (op_id options)) = None"
  shows "spawn_ok {p} orc options s0 (spawn_with_fifo p orc options s0)"
proof (cases "orc_mkfifo_fails orc p")
  case True
  then show ?thesis by (simp add: spawn_ok_def spawn_with_fifo_def os_defs)
next
  case False
  then show ?thesis using assms
    by (cases "orc_fork orc < 0")
      (auto simp: spawn_ok_def spawn_with_fifo_def os_defs Let_def fun_upd_idem)
qed

lemma download_music_ok:
  assumes "os_sems s0 (get_sem_key orc (op_id options)) = None"
  shows "spawn_ok {get_download_music_fifo_path (op_id options)} orc options s0
    (download_music orc options s0)"
proof -
  let ?p = "get_download_music_fifo_path (op_id options)"
  have "download_music orc options s0 = spawn_with_fifo ?p orc options s0"
    by (simp add: download_music_def spawn_with_fifo_def Let_def mkfifo_def unlink_def)
  then show ?thesis using spawn_with_fifo_ok [OF assms] by simp
qed

lemma create_audio_processor_ok:
  assumes "os_sems s0 (get_sem_key orc (op_id options)) = None"
  shows "spawn_ok {get_audio_stream_fifo_path (op_id options),
      get_audio_stream_stdin_path (op_id options), get_audio_stream_stdout_path (op_id options)}
    orc options s0 (create_audio_processor orc options s0)"
proof -
  let ?a = "get_audio_stream_fifo_path (op_id options)"
    and ?i = "get_audio_stream_stdin_path (op_id options)"
    and ?o = "get_audio_stream_stdout_path (op_id options)"
  consider "orc_mkfifo_fails orc ?a"
    | "\<not> orc_mkfifo_fails orc ?a" "orc_mkfifo_fails orc ?i"
    | "\<not> orc_mkfifo_fails orc ?a" "\<not> orc_mkfifo_fails orc ?i" "orc_mkfifo_fails orc ?o"
    | "\<not> orc_mkfifo_fails orc ?a" "\<not> orc_mkfifo_fails orc ?i" "\<not> orc_mkfifo_fails orc ?o"
    by blast
  then show ?thesis
  proof cases
    case 4
    then show ?thesis using assms
      by (cases "orc_fork orc < 0")
        (auto simp: spawn_ok_def create_audio_processor_def os_defs Let_def fun_upd_idem)
  qed (auto simp: spawn_ok_def create_audio_processor_def os_defs Let_def)
qed

section \<open>The table of slaves\<close>

type_synonym slave_list = "(string \<times> command_options_t) list"

definition insert_slave :: "command_options_t \<Rightarrow> slave_list \<Rightarrow> int \<times> slave_list" where
  "insert_slave options l =
    (case map_of l (op_id options) of
       Some _ \<Rightarrow> (1, l) | None \<Rightarrow> (0, omap_insert (op_id options) options l))"

definition get_slave :: "string \<Rightarrow> slave_list \<Rightarrow> int \<times> command_options_t" where
  "get_slave i l =
    (case map_of l i of None \<Rightarrow> (- 1, create_command_options) | Some s \<Rightarrow> (0, s))"

definition delete_slave :: "string \<Rightarrow> slave_list \<Rightarrow> int \<times> slave_list" where
  "delete_slave i l = (case map_of l i of None \<Rightarrow> (1, l) | Some _ \<Rightarrow> (0, omap_delete i l))"

definition slave_entry :: "slave_list \<Rightarrow> string \<Rightarrow> command_options_t option" where
  "slave_entry l i = (if fst (get_slave i l) = 0 then Some (snd (get_slave i l)) else None)"

lemma slave_entry_map_of [simp]: "slave_entry l i = map_of l i"
  by (auto simp: slave_entry_def get_slave_def split: option.splits)

definition slave_register :: "command_options_t \<Rightarrow> slave_list \<Rightarrow> bool \<times> slave_list" where
  "slave_register options l = (case insert_slave options l of (st, l') \<Rightarrow> (st = 0, l'))"

definition slave_unregister :: "string \<Rightarrow> slave_list \<Rightarrow> bool \<times> slave_list" where
  "slave_unregister i l = (case delete_slave i l of (st, l') \<Rightarrow> (st = 0, l'))"

interpretation slaves: registry slave_entry op_id slave_register slave_unregister omap_ok
  by unfold_locales
    (auto simp: slave_register_def slave_unregister_def insert_slave_def delete_slave_def fun_eq_iff
      map_of_omap_insert map_of_omap_delete omap_ok_insert omap_ok_delete split: option.splits)

section \<open>Waiting for children\<close>

datatype wait_status = Exited int | Signaled int | Stopped

datatype wait_result = W_error | W_none | W_state int wait_status

fun exit_status :: "wait_status \<Rightarrow> int" where
  "exit_status (Exited c) = c"
| "exit_status (Signaled g) = g"
| "exit_status Stopped = - 1"

text \<open>\<open>call_waitpid\<close> repeats until the child exited or was killed: the results of the
  successive \<open>waitpid\<close> calls are a list; no result when it runs out.\<close>

fun call_waitpid :: "wait_result list \<Rightarrow> int option" where
  "call_waitpid [] = None"
| "call_waitpid (W_error # rs) = Some (- 2)"
| "call_waitpid (W_none # rs) = None"
| "call_waitpid (W_state w ws # rs) =
    (case ws of Stopped \<Rightarrow> call_waitpid rs | _ \<Rightarrow> Some (exit_status ws))"

definition call_waitpid_nohang :: "int \<Rightarrow> wait_result \<Rightarrow> int" where
  "call_waitpid_nohang cpid r =
    (if cpid = - 1 then 1
     else case r of W_error \<Rightarrow> - 2 | W_none \<Rightarrow> - 1 | W_state w ws \<Rightarrow> exit_status ws)"

definition kill_child :: "int \<Rightarrow> os \<Rightarrow> os" where
  "kill_child pid s = s\<lparr>os_killed := os_killed s @ [pid]\<rparr>"

text \<open>Reaping removes the child; \<open>wr\<close> gives what \<open>waitpid\<close> returns for a pid.\<close>

definition reap_child :: "int \<Rightarrow> int \<Rightarrow> os \<Rightarrow> os" where
  "reap_child pid status s =
    (if status \<noteq> - 1 \<and> status \<noteq> - 2 then s\<lparr>os_children := os_children s - {pid}\<rparr> else s)"

definition wait_routine_nohang ::
  "(int \<Rightarrow> wait_result) \<Rightarrow> command_options_t \<Rightarrow> bool \<Rightarrow> os \<Rightarrow> int \<times> os" where
  "wait_routine_nohang wr options force_kill s =
    (let s1 = (if force_kill then kill_child (op_pid options) s else s);
         status = call_waitpid_nohang (op_pid options) (wr (op_pid options))
     in (status, reap_child (op_pid options) status s1))"

definition shutdown_audio_processor :: "command_options_t \<Rightarrow> int" where
  "shutdown_audio_processor options = 0"

definition shutdown_routine :: "command_options_t \<Rightarrow> int" where
  "shutdown_routine options =
    (if op_command options = cmd_create_audio_processor then shutdown_audio_processor options
     else if op_command options = cmd_call_ytdlp then 0
     else if op_command options = cmd_call_system then 0
     else if op_command options = cmd_dl_music then 0
     else 1)"

definition clean_up_audio_processor :: "command_options_t \<Rightarrow> os \<Rightarrow> os" where
  "clean_up_audio_processor options s =
    unlink (op_audio_stream_stdout_path options)
      (unlink (op_audio_stream_stdin_path options)
        (unlink (op_audio_stream_fifo_path options) s))"

definition clean_up_routine :: "command_options_t \<Rightarrow> os \<Rightarrow> os" where
  "clean_up_routine options s =
    (if op_command options = cmd_create_audio_processor then clean_up_audio_processor options s
     else if op_command options = cmd_call_ytdlp then unlink (get_ytdout_fifo_path (op_id options)) s
     else if op_command options = cmd_call_system then unlink (get_system_fifo_path (op_id options)) s
     else if op_command options = cmd_dl_music then
       unlink (get_download_music_fifo_path (op_id options)) s
     else s)"

section \<open>The worker\<close>

record worker =
  w_os :: os
  w_slaves :: slave_list
  w_shutdown_queue :: "command_options_t list"
  w_written :: "string list"

definition slave_shutdown :: "string \<Rightarrow> worker \<Rightarrow> int" where
  "slave_shutdown i w = (case map_of (w_slaves w) i of None \<Rightarrow> 1 | Some _ \<Rightarrow> 0)"

definition slave_wait :: "(int \<Rightarrow> wait_result) \<Rightarrow> string \<Rightarrow> bool \<Rightarrow> worker \<Rightarrow> int \<times> worker" where
  "slave_wait wr i force_kill w =
    (case map_of (w_slaves w) i of
       None \<Rightarrow> (1, w)
     | Some options \<Rightarrow>
         (case wait_routine_nohang wr options force_kill (w_os w) of
            (st, s) \<Rightarrow> (st, w\<lparr>w_os := s\<rparr>)))"

definition clean_up :: "string \<Rightarrow> worker \<Rightarrow> int \<times> worker" where
  "clean_up i w =
    (case map_of (w_slaves w) i of
       None \<Rightarrow> (1, w)
     | Some options \<Rightarrow>
         (0, w\<lparr>w_os := clean_up_routine options (w_os w), w_slaves := omap_delete i (w_slaves w)\<rparr>))"

definition handle_worker_fork_entry :: "command_options_t \<Rightarrow> command_options_t" where
  "handle_worker_fork_entry options =
    options\<lparr>op_parent_read_fd := - 1, op_parent_write_fd := - 1, op_child_read_fd := - 1,
      op_child_write_fd := - 1\<rparr>"

text \<open>In a forked child every inherited descriptor is closed and forgotten.\<close>

definition handle_worker_fork :: "slave_list \<Rightarrow> slave_list" where
  "handle_worker_fork l = map (\<lambda>(i, options). (i, handle_worker_fork_entry options)) l"

definition dispatch :: "os_oracle \<Rightarrow> command_options_t \<Rightarrow> os \<Rightarrow> spawn_result" where
  "dispatch orc options s =
    (if op_command options = cmd_create_audio_processor then create_audio_processor orc options s
     else if op_command options = cmd_call_ytdlp then call_ytdlp orc options s
     else if op_command options = cmd_call_system then call_system orc options s
     else if op_command options = cmd_dl_music then download_music orc options s
     else Some (0, options, s))"

definition ready_msg :: "int \<Rightarrow> string \<Rightarrow> string" where
  "ready_msg status i =
    key_ready @ ''='' @ int_str status @ '';'' @ key_id @ ''='' @ i @ '';''
      @ key_command @ ''='' @ key_ready @ '';''"

definition reply :: "int \<Rightarrow> int \<Rightarrow> string \<Rightarrow> worker \<Rightarrow> worker" where
  "reply write_fd status i w =
    (case write_command (ready_msg status i) write_fd of
       None \<Rightarrow> w | Some r \<Rightarrow> w\<lparr>w_written := w_written w @ [r]\<rparr>)"

definition execute :: "os_oracle \<Rightarrow> int \<Rightarrow> int \<Rightarrow> command_options_t \<Rightarrow> worker \<Rightarrow> (int \<times> worker) option" where
  "execute orc write_fd now options w =
    (let slave_info = get_slave (op_id options) (w_slaves w) in
     if fst slave_info = 0 \<and> op_command (snd slave_info) = op_command options then
       Some (ERR_SLAVE_EXIST, reply write_fd ERR_SLAVE_EXIST (op_id options) w)
     else if op_command options = cmd_shutdown then
       (if fst slave_info \<noteq> 0 then Some (fst slave_info, w)
        else Some (0, w\<lparr>w_shutdown_queue :=
               w_shutdown_queue w @ [options\<lparr>op_ts_queued := now\<rparr>]\<rparr>))
     else
       (case dispatch orc options (w_os w) of
          None \<Rightarrow> None
        | Some (status, options', s') \<Rightarrow>
            let w1 = w\<lparr>w_os := s'\<rparr>;
                w2 = (if status = 0 then w1\<lparr>w_slaves := snd (insert_slave options' (w_slaves w1))\<rparr>
                      else w1)
            in Some (status, reply write_fd status (op_id options') w2)))"

text \<open>\<open>handle_command\<close>: parse the record, then execute; an exception of the parser
  ends the worker process.\<close>

definition handle_command :: "os_oracle \<Rightarrow> int \<Rightarrow> int \<Rightarrow> bool \<Rightarrow> string \<Rightarrow> worker
    \<Rightarrow> ((int \<times> worker) option \<times> bool) result" where
  "handle_command orc write_fd now dbg rec w =
    bind_result (parse_command_to_options (c_str rec) (create_command_options, dbg))
      (\<lambda>(options, dbg'). Inr (execute orc write_fd now options w, dbg'))"

text \<open>One pass over the shutdown queue.\<close>

fun reap_loop :: "(int \<Rightarrow> wait_result) \<Rightarrow> int \<Rightarrow> command_options_t list \<Rightarrow> worker
    \<Rightarrow> command_options_t list \<times> worker" where
  "reap_loop wr now [] w = ([], w)"
| "reap_loop wr now (i # q) w =
    (case slave_wait wr (op_id i) (op_force i \<or> now - op_ts_queued i > 30) w of
       (status, w1) \<Rightarrow>
         if status \<noteq> - 1 \<and> status \<noteq> - 2 then
           reap_loop wr now q (snd (clean_up (op_id i) w1))
         else (case reap_loop wr now q w1 of (q', w2) \<Rightarrow> (i # q', w2)))"

definition reap :: "(int \<Rightarrow> wait_result) \<Rightarrow> int \<Rightarrow> worker \<Rightarrow> worker" where
  "reap wr now w =
    (case reap_loop wr now (w_shutdown_queue w) w of
       (q, w') \<Rightarrow> w'\<lparr>w_shutdown_queue := q\<rparr>)"

text \<open>The end of the worker: every slave is killed and waited for, then cleaned up.\<close>

fun wait_all :: "(int \<Rightarrow> wait_result list) \<Rightarrow> slave_list \<Rightarrow> os \<Rightarrow> os option" where
  "wait_all wr [] s = Some s"
| "wait_all wr ((i, options) # l) s =
    (case call_waitpid (wr (op_pid options)) of
       None \<Rightarrow> None
     | Some status \<Rightarrow>
         wait_all wr l (reap_child (op_pid options) status (kill_child (op_pid options) s)))"

definition clean_up_all :: "worker \<Rightarrow> worker" where
  "clean_up_all w =
    w\<lparr>w_os := fold (\<lambda>(i, options). clean_up_routine options) (w_slaves w) (w_os w), w_slaves := []\<rparr>"

definition worker_exit :: "(int \<Rightarrow> wait_result list) \<Rightarrow> worker \<Rightarrow> worker option" where
  "worker_exit wr w =
    (case wait_all wr (w_slaves w) (w_os w) of
       None \<Rightarrow> None | Some s \<Rightarrow> Some (clean_up_all (w\<lparr>w_os := s\<rparr>)))"

section \<open>Replies\<close>

lemma digit_not_sanitized: "is_digit c \<Longrightarrow> \<not> should_sanitize c"
  by (auto simp: should_sanitize_iff is_digit_def backslash_def ord_def)

lemma clean_int_str: "clean_key (int_str i)"
  using digit_not_sanitized int_str_chars
  by (auto simp: clean_key_def) (auto simp: should_sanitize_iff backslash_def)

lemma ready_msg_command_of:
  "clean_key i \<Longrightarrow>
    ready_msg status i = command_of [(key_ready, int_str status), (key_id, i), (key_command, key_ready)]"
  using clean_keys
  by (simp add: ready_msg_def command_of_def create_arg_sanitize_value_def create_arg_def
      sanitize_clean clean_int_str)

lemma keys_distinct [simp]:
  "key_ready \<noteq> key_id" "key_ready \<noteq> key_command" "key_ready \<noteq> key_file_path"
  "key_ready \<noteq> key_debug" "key_ready \<noteq> key_guild_id" "key_command \<noteq> key_id"
  by (simp_all add: mc_defs)

lemma assign_ready:
  "- (2 ^ 31) \<le> status \<Longrightarrow> status < 2 ^ 31 \<Longrightarrow>
    assign_all [(key_ready, int_str status), (key_id, i), (key_command, key_ready)] (options, dbg)
      = Inr (options\<lparr>op_ready := status, op_id := i, op_command := key_ready\<rparr>, dbg)"
  by (simp add: assign_command_option_key_value_def stoi_int_str)

lemma NUL_not_in_int_str: "NUL \<notin> set (int_str i)"
  using int_str_chars [of NUL i] by (auto simp: NUL_def is_digit_def ord_def)

lemma NUL_not_in_ready_msg: "NUL \<notin> set i \<Longrightarrow> NUL \<notin> set (ready_msg status i)"
  using NUL_not_in_int_str by (simp add: ready_msg_def mc_defs) (simp add: NUL_def)

lemma read_ready_msg:
  assumes "clean_key i" "NUL \<notin> set i" "- (2 ^ 31) \<le> status" "status < 2 ^ 31"
    and "write_command (ready_msg status i) fd = Some rec"
  shows "read_notification rec dbg =
    Inr (create_command_options\<lparr>op_ready := status, op_id := i, op_command := key_ready\<rparr>, dbg)"
proof -
  have "c_str rec = ready_msg status i"
    using c_str_write_command [OF assms(5)] NUL_not_in_ready_msg [OF assms(2)] by simp
  then show ?thesis
    using assms(3,4) clean_keys ready_msg_command_of [OF assms(1)]
    by (simp only: read_notification_def) (simp only: parse_command_of assign_ready list.set split_beta ball_simps fst_conv snd_conv)
qed

section \<open>The invariant of the worker\<close>

definition spawns :: "string \<Rightarrow> bool" where
  "spawns cmd \<longleftrightarrow> cmd \<in> {cmd_create_audio_processor, cmd_call_ytdlp, cmd_call_system, cmd_dl_music}"

lemma dispatch_ok:
  assumes "os_sems s (get_sem_key orc (op_id options)) = None" and "spawns (op_command options)"
  shows "spawn_ok (slave_fifos (op_command options) (op_id options)) orc options s (dispatch orc options s)"
  using assms spawn_with_fifo_ok [OF assms(1)] download_music_ok [OF assms(1)]
    create_audio_processor_ok [OF assms(1)]
  by (auto simp: spawns_def dispatch_def slave_fifos_def call_ytdlp_def call_system_def)

lemma dispatch_audio_paths:
  assumes "dispatch orc options s = Some (0, options', s')"
    and "op_command options = cmd_create_audio_processor"
  shows "op_audio_stream_fifo_path options' = get_audio_stream_fifo_path (op_id options)
    \<and> op_audio_stream_stdin_path options' = get_audio_stream_stdin_path (op_id options)
    \<and> op_audio_stream_stdout_path options' = get_audio_stream_stdout_path (op_id options)"
  using assms
  by (auto simp: dispatch_def create_audio_processor_def Let_def call_fork_def mkfifo_def
      split: if_splits option.splits)

lemma suffix_ends: "i @ x = j @ y \<Longrightarrow> length x \<le> length y \<Longrightarrow> drop (length y - length x) y = x"
proof -
  assume a: "i @ x = j @ y" and l: "length x \<le> length y"
  have "length i = length j + (length y - length x)"
    using arg_cong [OF a, of length] l by simp
  then have "drop (length i) (j @ y) = drop (length y - length x) y" by simp
  moreover have "drop (length i) (i @ x) = x" by simp
  ultimately show ?thesis using a by simp
qed

definition fifo_suffixes :: "string list" where
  "fifo_suffixes = [''.audio_stream'', ''.stdin'', ''.stdout'', ''.ytdout'', ''.sys'', ''.dlnotif'']"

lemma fifo_suffixes_free_all:
  "\<forall>x \<in> set fifo_suffixes. \<forall>y \<in> set fifo_suffixes.
    length x \<le> length y \<longrightarrow> drop (length y - length x) y = x \<longrightarrow> x = y"
  by (simp add: fifo_suffixes_def)

lemma fifo_suffixes_free:
  "x \<in> set fifo_suffixes \<Longrightarrow> y \<in> set fifo_suffixes \<Longrightarrow> length x \<le> length y \<Longrightarrow>
    drop (length y - length x) y = x \<Longrightarrow> x = y"
  using fifo_suffixes_free_all by blast

lemma fifo_path_inj:
  assumes "x \<in> set fifo_suffixes" "y \<in> set fifo_suffixes" "get_local_dir @ i @ x = get_local_dir @ j @ y"
  shows "x = y \<and> i = j"
proof -
  have e: "i @ x = j @ y" using assms(3) by simp
  have "x = y"
  proof (cases "length x \<le> length y")
    case True
    show ?thesis by (rule fifo_suffixes_free [OF assms(1,2) True suffix_ends [OF e True]])
  next
    case False
    then have l: "length y \<le> length x" by simp
    show ?thesis
      by (rule fifo_suffixes_free [OF assms(2,1) l suffix_ends [OF e [symmetric] l], symmetric])
  qed
  then show ?thesis using e by simp
qed

definition cmd_suffixes :: "string \<Rightarrow> string set" where
  "cmd_suffixes c =
    (if c = cmd_create_audio_processor then {''.audio_stream'', ''.stdin'', ''.stdout''}
     else if c = cmd_call_ytdlp then {''.ytdout''}
     else if c = cmd_call_system then {''.sys''}
     else if c = cmd_dl_music then {''.dlnotif''} else {})"

lemma slave_fifos_suffixes: "slave_fifos c i = (\<lambda>x. get_local_dir @ i @ x) ` cmd_suffixes c"
  by (auto simp: slave_fifos_def cmd_suffixes_def get_audio_stream_fifo_path_def
      get_audio_stream_stdin_path_def get_audio_stream_stdout_path_def get_ytdout_fifo_path_def
      get_system_fifo_path_def get_download_music_fifo_path_def)

lemma cmd_suffixes_subset: "cmd_suffixes c \<subseteq> set fifo_suffixes"
  by (simp add: cmd_suffixes_def fifo_suffixes_def)

lemma cmd_suffixes_disjoint: "x \<in> cmd_suffixes c \<Longrightarrow> x \<in> cmd_suffixes d \<Longrightarrow> c = d"
  by (auto simp: cmd_suffixes_def split: if_splits)

lemma slave_fifos_disjoint:
  assumes "p \<in> slave_fifos c i" "p \<in> slave_fifos d j"
  shows "c = d \<and> i = j"
proof -
  obtain x y where xy: "x \<in> cmd_suffixes c" "y \<in> cmd_suffixes d" "p = get_local_dir @ i @ x"
      "p = get_local_dir @ j @ y"
    using assms by (auto simp: slave_fifos_suffixes)
  then have "x = y \<and> i = j" using fifo_path_inj cmd_suffixes_subset by (metis subsetD)
  then show ?thesis using xy cmd_suffixes_disjoint by blast
qed

text \<open>What a registered slave is: its key is its id, it runs a command that forks, its
  child is alive (or a zombie not yet reaped) and its FIFOs are on disk.\<close>

definition slave_ok :: "os \<Rightarrow> string \<Rightarrow> command_options_t \<Rightarrow> bool" where
  "slave_ok s i options \<longleftrightarrow> op_id options = i \<and> op_pid options \<in> os_children s
    \<and> slave_fifos (op_command options) i \<subseteq> os_fifos s
    \<and> (spawns (op_command options) \<longrightarrow> op_pid options \<noteq> - 1)
    \<and> (op_command options = cmd_create_audio_processor \<longrightarrow>
        op_audio_stream_fifo_path options = get_audio_stream_fifo_path i
        \<and> op_audio_stream_stdin_path options = get_audio_stream_stdin_path i
        \<and> op_audio_stream_stdout_path options = get_audio_stream_stdout_path i)"

definition worker_ok :: "worker \<Rightarrow> bool" where
  "worker_ok w \<longleftrightarrow> omap_ok (w_slaves w)
    \<and> (\<forall>(i, options) \<in> set (w_slaves w). slave_ok (w_os w) i options \<and> spawns (op_command options))
    \<and> inj_on (\<lambda>(i, options). op_pid options) (set (w_slaves w))"

definition worker_init :: "os \<Rightarrow> worker" where
  "worker_init s = \<lparr>w_os = s, w_slaves = [], w_shutdown_queue = [], w_written = []\<rparr>"

lemma worker_ok_init: "worker_ok (worker_init s)"
  by (simp add: worker_ok_def worker_init_def)


lemma slave_ok_mono:
  "slave_ok s i options \<Longrightarrow> os_fifos s \<subseteq> os_fifos s' \<Longrightarrow> os_children s \<subseteq> os_children s' \<Longrightarrow>
    slave_ok s' i options"
  by (auto simp: slave_ok_def)

lemma slave_ok_other_fifos:
  assumes "slave_ok s i options" and "op_command options \<noteq> c \<or> i \<noteq> j"
    and "os_fifos s' = os_fifos s - slave_fifos c j" and "os_children s' = os_children s"
  shows "slave_ok s' i options"
  using assms slave_fifos_disjoint unfolding slave_ok_def by blast

lemma set_omap_insert_fresh:
  "map_of m k = None \<Longrightarrow> set (omap_insert k v m) = insert (k, v) (set m)"
  by (induction k v m rule: omap_insert.induct) (auto split: if_splits)

lemma map_of_mem: "omap_ok m \<Longrightarrow> (i, v) \<in> set m \<longleftrightarrow> map_of m i = Some v"
  using omap_ok_distinct map_of_eq_Some_iff by metis

lemma worker_ok_register:
  assumes ok: "worker_ok w" and new: "spawns (op_command options)" "slave_ok s' (op_id options) options"
    and old: "\<And>i o1. (i, o1) \<in> set (w_slaves w) \<Longrightarrow> slave_ok s' i o1"
    and pid: "\<And>i o1. (i, o1) \<in> set (w_slaves w) \<Longrightarrow> op_pid o1 \<noteq> op_pid options"
  shows "worker_ok (w\<lparr>w_os := s', w_slaves := snd (insert_slave options (w_slaves w))\<rparr>)"
proof (cases "map_of (w_slaves w) (op_id options)")
  case None
  then have l: "snd (insert_slave options (w_slaves w)) = omap_insert (op_id options) options (w_slaves w)"
    by (simp add: insert_slave_def)
  have "set (omap_insert (op_id options) options (w_slaves w))
      = insert (op_id options, options) (set (w_slaves w))"
    using set_omap_insert_fresh [OF None] .
  moreover have "inj_on (\<lambda>(i, o1). op_pid o1) (insert (op_id options, options) (set (w_slaves w)))"
    using ok pid unfolding worker_ok_def inj_on_def by fastforce
  ultimately show ?thesis
    using ok new old omap_ok_insert unfolding worker_ok_def by (auto simp: l)
next
  case (Some o1)
  then have "snd (insert_slave options (w_slaves w)) = w_slaves w"
    by (simp add: insert_slave_def)
  then show ?thesis using ok old unfolding worker_ok_def by auto
qed

lemma worker_ok_reply [simp]: "worker_ok (reply fd st i w) = worker_ok w"
  by (simp add: reply_def worker_ok_def split: option.splits)

lemma execute_cases:
  assumes fresh: "os_sems (w_os w) (get_sem_key orc (op_id options)) = None"
    and cmd: "spawns (op_command options)"
    and nodup: "\<And>o1. map_of (w_slaves w) (op_id options) = Some o1 \<Longrightarrow> op_command o1 \<noteq> op_command options"
  obtains st options' s' where "dispatch orc options (w_os w) = Some (st, options', s')"
    and "spawn_ok (slave_fifos (op_command options) (op_id options)) orc options (w_os w)
        (Some (st, options', s'))"
    and "execute orc fd now options w = Some (st, reply fd st (op_id options)
        (if st = 0 then w\<lparr>w_os := s', w_slaves := snd (insert_slave options' (w_slaves w))\<rparr>
         else w\<lparr>w_os := s'\<rparr>))"
proof -
  have sp: "spawn_ok (slave_fifos (op_command options) (op_id options)) orc options (w_os w)
      (dispatch orc options (w_os w))"
    by (rule dispatch_ok [OF fresh cmd])
  then obtain st options' s' where d: "dispatch orc options (w_os w) = Some (st, options', s')"
    by (cases "dispatch orc options (w_os w)") (auto simp: spawn_ok_def)
  have "op_id options' = op_id options" using sp d by (simp add: spawn_ok_def)
  moreover have "op_command options \<noteq> cmd_shutdown"
    using cmd by (auto simp: spawns_def mc_defs)
  moreover have "\<not> (fst (get_slave (op_id options) (w_slaves w)) = 0
      \<and> op_command (snd (get_slave (op_id options) (w_slaves w))) = op_command options)"
    using nodup by (auto simp: get_slave_def split: option.splits)
  ultimately have "execute orc fd now options w = Some (st, reply fd st (op_id options)
        (if st = 0 then w\<lparr>w_os := s', w_slaves := snd (insert_slave options' (w_slaves w))\<rparr>
         else w\<lparr>w_os := s'\<rparr>))"
    using d by (auto simp: execute_def Let_def)
  then show thesis using that d sp by simp
qed

lemma execute_spawn_ok:
  assumes ok: "worker_ok w" and fresh: "os_sems (w_os w) (get_sem_key orc (op_id options)) = None"
    and pid: "orc_fork orc \<notin> os_children (w_os w)" and cmd: "spawns (op_command options)"
    and nodup: "\<And>o1. map_of (w_slaves w) (op_id options) = Some o1 \<Longrightarrow> op_command o1 \<noteq> op_command options"
    and ex: "execute orc fd now options w = Some (st, w')"
  shows "worker_ok w'"
proof -
  obtain st1 options' s' where d: "dispatch orc options (w_os w) = Some (st1, options', s')"
    and sp: "spawn_ok (slave_fifos (op_command options) (op_id options)) orc options (w_os w)
        (Some (st1, options', s'))"
    and e: "execute orc fd now options w = Some (st1, reply fd st1 (op_id options)
        (if st1 = 0 then w\<lparr>w_os := s', w_slaves := snd (insert_slave options' (w_slaves w))\<rparr>
         else w\<lparr>w_os := s'\<rparr>))"
    using execute_cases [OF fresh cmd nodup] by metis
  have old: "slave_ok (w_os w) i o1" "spawns (op_command o1)" if "(i, o1) \<in> set (w_slaves w)" for i o1
    using ok that by (auto simp: worker_ok_def)
  have cid: "op_command o1 \<noteq> op_command options \<or> i \<noteq> op_id options"
    if "(i, o1) \<in> set (w_slaves w)" for i o1
  proof -
    have "map_of (w_slaves w) i = Some o1"
      using that ok map_of_mem [of "w_slaves w" i o1] by (simp add: worker_ok_def)
    then show ?thesis using nodup by auto
  qed
  show ?thesis
  proof (cases "st1 = 0")
    case True
    have new: "slave_ok s' (op_id options') options'"
    proof -
      have "op_command options = cmd_create_audio_processor \<longrightarrow>
          op_audio_stream_fifo_path options' = get_audio_stream_fifo_path (op_id options)
          \<and> op_audio_stream_stdin_path options' = get_audio_stream_stdin_path (op_id options)
          \<and> op_audio_stream_stdout_path options' = get_audio_stream_stdout_path (op_id options)"
        using dispatch_audio_paths d True by blast
      moreover have "op_pid options' = orc_fork orc" "0 \<le> orc_fork orc"
          "op_id options' = op_id options" "op_command options' = op_command options"
          "os_children s' = insert (orc_fork orc) (os_children (w_os w))"
          "slave_fifos (op_command options) (op_id options) \<subseteq> os_fifos s'"
        using sp True by (simp_all add: spawn_ok_def)
      ultimately show ?thesis unfolding slave_ok_def by simp
    qed
    have "slave_ok s' i o1" if "(i, o1) \<in> set (w_slaves w)" for i o1
      using slave_ok_mono [OF old(1) [OF that]] sp True by (auto simp: spawn_ok_def)
    moreover have "op_pid o1 \<noteq> op_pid options'" if "(i, o1) \<in> set (w_slaves w)" for i o1
      using old(1) [OF that] sp True pid by (auto simp: spawn_ok_def slave_ok_def)
    moreover have "spawns (op_command options')" using sp cmd by (simp add: spawn_ok_def)
    ultimately have "worker_ok (w\<lparr>w_os := s', w_slaves := snd (insert_slave options' (w_slaves w))\<rparr>)"
      by (intro worker_ok_register [OF ok _ new])
    then show ?thesis using ex e True by auto
  next
    case False
    then have "slave_ok s' i o1" if "(i, o1) \<in> set (w_slaves w)" for i o1
      using slave_ok_other_fifos [OF old(1) [OF that] cid [OF that]] sp by (auto simp: spawn_ok_def)
    then have "worker_ok (w\<lparr>w_os := s'\<rparr>)" using ok by (auto simp: worker_ok_def)
    then show ?thesis using ex e False by auto
  qed
qed

section \<open>Reaping\<close>

text \<open>Whether the entry of an id leaves the shutdown queue in a pass.\<close>

definition wait_done :: "(int \<Rightarrow> wait_result) \<Rightarrow> slave_list \<Rightarrow> string \<Rightarrow> bool" where
  "wait_done wr l i =
    (case map_of l i of
       None \<Rightarrow> True
     | Some options \<Rightarrow> call_waitpid_nohang (op_pid options) (wr (op_pid options)) \<notin> {- 1, - 2})"

lemma slave_wait_status:
  "fst (slave_wait wr i f w) \<noteq> - 1 \<and> fst (slave_wait wr i f w) \<noteq> - 2 \<longleftrightarrow> wait_done wr (w_slaves w) i"
  by (auto simp: slave_wait_def wait_done_def wait_routine_nohang_def Let_def split: option.splits)

lemma slave_wait_frame:
  "w_slaves (snd (slave_wait wr i f w)) = w_slaves w"
  "os_fifos (w_os (snd (slave_wait wr i f w))) = os_fifos (w_os w)"
  "w_written (snd (slave_wait wr i f w)) = w_written w"
  by (auto simp: slave_wait_def wait_routine_nohang_def Let_def kill_child_def reap_child_def
      split: option.splits)

lemma slave_wait_children:
  "os_children (w_os (snd (slave_wait wr i f w))) =
    (case map_of (w_slaves w) i of
       Some options \<Rightarrow> if wait_done wr (w_slaves w) i then os_children (w_os w) - {op_pid options}
         else os_children (w_os w)
     | None \<Rightarrow> os_children (w_os w))"
  by (auto simp: slave_wait_def wait_done_def wait_routine_nohang_def Let_def kill_child_def
      reap_child_def split: option.splits)

lemma clean_up_routine_fifos:
  "slave_ok s' i options \<Longrightarrow>
    os_fifos (clean_up_routine options s) = os_fifos s - slave_fifos (op_command options) i
    \<and> os_children (clean_up_routine options s) = os_children s"
  by (auto simp: slave_ok_def clean_up_routine_def clean_up_audio_processor_def slave_fifos_def
      unlink_def)

definition reap_entry :: "(int \<Rightarrow> wait_result) \<Rightarrow> string \<Rightarrow> bool \<Rightarrow> worker \<Rightarrow> worker" where
  "reap_entry wr i f w =
    (if wait_done wr (w_slaves w) i then snd (clean_up i (snd (slave_wait wr i f w)))
     else snd (slave_wait wr i f w))"

lemma reap_loop_Cons:
  "reap_loop wr now (i # q) w =
    (let r = reap_loop wr now q (reap_entry wr (op_id i) (op_force i \<or> now - op_ts_queued i > 30) w)
     in (if wait_done wr (w_slaves w) (op_id i) then fst r else i # fst r, snd r))"
  using slave_wait_status [of wr "op_id i" "op_force i \<or> now - op_ts_queued i > 30" w]
  by (auto simp: reap_entry_def Let_def split: prod.splits)

lemma reap_entry_slaves:
  "w_slaves (reap_entry wr i f w) =
    (if wait_done wr (w_slaves w) i then omap_delete i (w_slaves w) else w_slaves w)"
proof -
  have "map_of (w_slaves w) i = None \<Longrightarrow> omap_delete i (w_slaves w) = w_slaves w"
    unfolding omap_delete_def map_of_eq_None_iff by (rule filter_True) force
  then show ?thesis
    by (auto simp: reap_entry_def clean_up_def slave_wait_frame split: option.splits)
qed

lemma reap_entry_ok:
  assumes ok: "worker_ok w"
  shows "worker_ok (reap_entry wr i f w)"
proof (cases "map_of (w_slaves w) i")
  case None
  then have "reap_entry wr i f w = w"
    by (simp add: reap_entry_def clean_up_def slave_wait_def wait_done_def)
  then show ?thesis using ok by simp
next
  case (Some options)
  then have mem: "(i, options) \<in> set (w_slaves w)" by (rule map_of_SomeD)
  then have so: "slave_ok (w_os w) i options" using ok by (auto simp: worker_ok_def)
  let ?w1 = "snd (slave_wait wr i f w)"
  show ?thesis
  proof (cases "wait_done wr (w_slaves w) i")
    case False
    then have "os_children (w_os ?w1) = os_children (w_os w)"
      using Some by (simp add: slave_wait_children)
    then show ?thesis
      using ok False by (auto simp: worker_ok_def reap_entry_def slave_wait_frame slave_ok_def)
  next
    case True
    let ?w2 = "reap_entry wr i f w"
    have w2: "w_os ?w2 = clean_up_routine options (w_os ?w1)"
      using True Some by (simp add: reap_entry_def clean_up_def slave_wait_frame)
    have f: "os_fifos (w_os ?w2) = os_fifos (w_os w) - slave_fifos (op_command options) i"
      and c: "os_children (w_os ?w2) = os_children (w_os w) - {op_pid options}"
      using clean_up_routine_fifos [OF so, of "w_os ?w1"] True Some
      by (simp_all add: w2 slave_wait_frame slave_wait_children)
    have "slave_ok (w_os ?w2) j o1 \<and> spawns (op_command o1)"
      if "(j, o1) \<in> set (omap_delete i (w_slaves w))" for j o1
    proof -
      have j: "(j, o1) \<in> set (w_slaves w)" "j \<noteq> i" using that by (auto simp: set_omap_delete)
      then have jo: "slave_ok (w_os w) j o1" "spawns (op_command o1)" using ok by (auto simp: worker_ok_def)
      have "op_pid o1 \<noteq> op_pid options"
        using ok j mem unfolding worker_ok_def inj_on_def by fastforce
      moreover have "slave_fifos (op_command o1) j \<inter> slave_fifos (op_command options) i = {}"
        using slave_fifos_disjoint j(2) by blast
      ultimately show ?thesis using jo f c unfolding slave_ok_def by auto
    qed
    moreover have "inj_on (\<lambda>(i, options). op_pid options) (set (omap_delete i (w_slaves w)))"
      using ok unfolding worker_ok_def by (auto simp: inj_on_def set_omap_delete)
    ultimately show ?thesis
      using ok True omap_ok_delete by (auto simp: worker_ok_def reap_entry_slaves)
  qed
qed

lemma wait_done_reap_entry:
  "wait_done wr (w_slaves (reap_entry wr i f w)) j = wait_done wr (w_slaves w) j"
  by (cases "j = i") (auto simp: reap_entry_slaves wait_done_def map_of_omap_delete)

lemma reap_loop_queue:
  "fst (reap_loop wr now q w) = filter (\<lambda>i. \<not> wait_done wr (w_slaves w) (op_id i)) q"
  by (induction q arbitrary: w) (auto simp: reap_loop_Cons Let_def wait_done_reap_entry simp del: reap_loop.simps(2))

lemma reap_loop_ok: "worker_ok w \<Longrightarrow> worker_ok (snd (reap_loop wr now q w))"
  by (induction q arbitrary: w)
    (auto simp: reap_loop_Cons Let_def reap_entry_ok simp del: reap_loop.simps(2))

lemma reap_loop_slaves:
  "map_of (w_slaves (snd (reap_loop wr now q w))) i =
    (if i \<in> op_id ` set q \<and> wait_done wr (w_slaves w) i then None else map_of (w_slaves w) i)"
proof (induction q arbitrary: w)
  case (Cons x q)
  show ?case
    unfolding reap_loop_Cons Let_def snd_conv Cons wait_done_reap_entry
    by (auto simp: reap_entry_slaves map_of_omap_delete)
qed simp

lemma reap_eq:
  "reap wr now w = (snd (reap_loop wr now (w_shutdown_queue w) w))
    \<lparr>w_shutdown_queue := filter (\<lambda>i. \<not> wait_done wr (w_slaves w) (op_id i)) (w_shutdown_queue w)\<rparr>"
  using reap_loop_queue [of wr now "w_shutdown_queue w" w]
  by (auto simp: reap_def split: prod.splits)

lemma worker_ok_queue [simp]: "worker_ok (w\<lparr>w_shutdown_queue := q\<rparr>) = worker_ok w"
  by (simp add: worker_ok_def)

lemma reap_ok: "worker_ok w \<Longrightarrow> worker_ok (reap wr now w)"
  by (simp add: reap_eq reap_loop_ok)

section \<open>Properties\<close>

text \<open>C21: Every command that forks leaves the operating system as it promises: it never
  blocks on its semaphore; when a FIFO cannot be made or the fork fails, none of its FIFOs, no
  semaphore and no child is left; when it succeeds, its FIFOs exist and the options carry the
  pid of the one new child.\<close>

theorem dispatch_no_leak:
  assumes "os_sems s (get_sem_key orc (op_id options)) = None"
    and "op_command options \<in> {cmd_create_audio_processor, cmd_call_ytdlp, cmd_call_system, cmd_dl_music}"
  shows "\<exists>st options' s'. dispatch orc options s = Some (st, options', s') \<and> os_sems s' = os_sems s
    \<and> (if st = 0 then os_fifos s' = os_fifos s \<union> slave_fifos (op_command options) (op_id options)
          \<and> op_pid options' = orc_fork orc \<and> os_children s' = insert (orc_fork orc) (os_children s)
       else st < 0 \<and> os_fifos s' = os_fifos s - slave_fifos (op_command options) (op_id options)
          \<and> os_children s' = os_children s)"
proof -
  have "spawns (op_command options)" using assms(2) by (simp only: spawns_def)
  note sp = dispatch_ok [OF assms(1) this]
  then obtain st options' s' where d: "dispatch orc options s = Some (st, options', s')"
    by (cases "dispatch orc options s") (auto simp: spawn_ok_def)
  show ?thesis
    by (rule exI [of _ st], rule exI [of _ options'], rule exI [of _ s'])
      (use sp in \<open>simp add: spawn_ok_def d\<close>)
qed

definition os0 :: os where
  "os0 = \<lparr>os_fifos = {}, os_sems = Map.empty, os_children = {}, os_killed = []\<rparr>"

definition orc0 :: os_oracle where
  "orc0 = \<lparr>orc_mkfifo_fails = (\<lambda>p. False), orc_fork = 42, orc_ts = 5\<rparr>"

definition ytd_options :: command_options_t where
  "ytd_options = create_command_options\<lparr>op_command := ''ytd'', op_id := ''q''\<rparr>"

theorem dispatch_no_leak_witness:
  "\<exists>st options' s'. dispatch orc0 ytd_options os0 = Some (st, options', s') \<and> os_sems s' = os_sems os0
    \<and> (if st = 0 then os_fifos s' = os_fifos os0 \<union> slave_fifos (op_command ytd_options) (op_id ytd_options)
          \<and> op_pid options' = orc_fork orc0 \<and> os_children s' = insert (orc_fork orc0) (os_children os0)
       else st < 0 \<and> os_fifos s' = os_fifos os0 - slave_fifos (op_command ytd_options) (op_id ytd_options)
          \<and> os_children s' = os_children os0)"
  by (rule dispatch_no_leak) (simp_all add: os0_def ytd_options_def mc_defs)

text \<open>C15: Executing a command keeps the worker's table sound: every registered slave is
  keyed by its id, has a live child of its own and its FIFOs on disk. A second command with the
  id and kind of a registered slave is refused with \<open>ERR_SLAVE_EXIST\<close> and starts nothing.\<close>

theorem execute_invariant:
  assumes "worker_ok w" and "os_sems (w_os w) (get_sem_key orc (op_id options)) = None"
    and "orc_fork orc \<notin> os_children (w_os w)"
    and "op_command options \<in> {cmd_create_audio_processor, cmd_call_ytdlp, cmd_call_system,
      cmd_dl_music, cmd_shutdown}"
  shows "\<exists>st w'. execute orc fd now options w = Some (st, w') \<and> worker_ok w'
    \<and> (\<forall>o1. map_of (w_slaves w) (op_id options) = Some o1 \<and> op_command o1 = op_command options \<longrightarrow>
          st = ERR_SLAVE_EXIST \<and> w_os w' = w_os w \<and> w_slaves w' = w_slaves w)"
proof (cases "\<exists>o1. map_of (w_slaves w) (op_id options) = Some o1 \<and> op_command o1 = op_command options")
  case True
  then have "execute orc fd now options w =
      Some (ERR_SLAVE_EXIST, reply fd ERR_SLAVE_EXIST (op_id options) w)"
    by (auto simp: execute_def get_slave_def)
  moreover have "w_os (reply fd ERR_SLAVE_EXIST i w) = w_os w"
      "w_slaves (reply fd ERR_SLAVE_EXIST i w) = w_slaves w" for i
    by (simp_all add: reply_def split: option.splits)
  ultimately show ?thesis using assms(1) by simp
next
  case False
  show ?thesis
  proof (cases "op_command options = cmd_shutdown")
    case True
    then show ?thesis using False assms(1)
      by (auto simp: execute_def Let_def get_slave_def worker_ok_def split: option.splits)
  next
    case no_shut: False
    then have cmd: "spawns (op_command options)" using assms(4) by (auto simp: spawns_def)
    have nd: "\<And>o1. map_of (w_slaves w) (op_id options) = Some o1 \<Longrightarrow> op_command o1 \<noteq> op_command options"
      using False by blast
    obtain st w' where ex: "execute orc fd now options w = Some (st, w')"
      using execute_cases [OF assms(2) cmd nd] by metis
    then show ?thesis
      using execute_spawn_ok [OF assms(1-3) cmd nd ex] nd by blast
  qed
qed

theorem execute_invariant_witness:
  "\<exists>st w'. execute orc0 3 100 ytd_options (worker_init os0) = Some (st, w') \<and> worker_ok w'
    \<and> (\<forall>o1. map_of (w_slaves (worker_init os0)) (op_id ytd_options) = Some o1
          \<and> op_command o1 = op_command ytd_options \<longrightarrow>
          st = ERR_SLAVE_EXIST \<and> w_os w' = w_os (worker_init os0)
          \<and> w_slaves w' = w_slaves (worker_init os0))"
proof (rule execute_invariant)
  show "worker_ok (worker_init os0)" by (rule worker_ok_init)
qed (simp_all add: worker_init_def os0_def orc0_def ytd_options_def mc_defs)

text \<open>C16: One pass over the shutdown queue takes out exactly the entries whose child has
  ended (or whose slave is gone), removes their slaves from the table, keeps every other entry and
  slave, and preserves the soundness of the table.\<close>

theorem reap_exact:
  assumes "worker_ok w"
  shows "worker_ok (reap wr now w)
    \<and> w_shutdown_queue (reap wr now w) =
        filter (\<lambda>i. \<not> wait_done wr (w_slaves w) (op_id i)) (w_shutdown_queue w)
    \<and> (\<forall>i. map_of (w_slaves (reap wr now w)) i =
        (if i \<in> op_id ` set (w_shutdown_queue w) \<and> wait_done wr (w_slaves w) i then None
         else map_of (w_slaves w) i))"
  using reap_ok [OF assms] by (simp add: reap_eq reap_loop_slaves)

definition worker1 :: worker where
  "worker1 = (worker_init \<lparr>os_fifos = {''.musicat/q.ytdout''}, os_sems = Map.empty,
       os_children = {42}, os_killed = []\<rparr>)
     \<lparr>w_slaves := [(''q'', ytd_options\<lparr>op_pid := 42\<rparr>)],
      w_shutdown_queue := [create_command_options\<lparr>op_id := ''q''\<rparr>]\<rparr>"

lemma worker1_ok: "worker_ok worker1"
  by (simp add: worker_ok_def worker1_def worker_init_def omap_ok_def slave_ok_def spawns_def
      ytd_options_def create_command_options_def slave_fifos_def get_ytdout_fifo_path_def
      get_local_dir_def mc_defs)

theorem reap_exact_witness:
  "worker_ok (reap (\<lambda>p. W_state p (Exited 0)) 9 worker1)
    \<and> w_shutdown_queue (reap (\<lambda>p. W_state p (Exited 0)) 9 worker1) =
        filter (\<lambda>i. \<not> wait_done (\<lambda>p. W_state p (Exited 0)) (w_slaves worker1) (op_id i))
          (w_shutdown_queue worker1)
    \<and> (\<forall>i. map_of (w_slaves (reap (\<lambda>p. W_state p (Exited 0)) 9 worker1)) i =
        (if i \<in> op_id ` set (w_shutdown_queue worker1)
              \<and> wait_done (\<lambda>p. W_state p (Exited 0)) (w_slaves worker1) i then None
         else map_of (w_slaves worker1) i))"
  by (rule reap_exact [OF worker1_ok])

text \<open>The reply a worker writes for an id that holds no special character comes back
  in the main process as the status of that id: reading the record and handling the message
  marks the id ready with that status.\<close>

theorem reply_marks_ready:
  assumes "clean_key i" "NUL \<notin> set i" "- (2 ^ 31) \<le> status" "status < 2 ^ 31"
    and "write_command (ready_msg status i) fd = Some rec"
  shows "\<exists>options. read_notification rec dbg = Inr (options, dbg)
    \<and> handle_child_message options q = q(i \<mapsto> (True, status))"
  using read_ready_msg [OF assms]
  by (auto simp: handle_child_message_def mark_slave_ready_def)

theorem reply_marks_ready_witness:
  "\<exists>options. read_notification (the (write_command (ready_msg 0 ''q7'') 3)) False = Inr (options, False)
    \<and> handle_child_message options Map.empty = Map.empty(''q7'' \<mapsto> (True, 0))"
proof (rule reply_marks_ready)
  show "write_command (ready_msg 0 ''q7'') 3 = Some (the (write_command (ready_msg 0 ''q7'') 3))"
    by (simp add: write_command_def CMD_BUFSIZE_def ready_msg_def mc_defs int_str_def dec_str_def)
qed (simp_all add: clean_key_def should_sanitize_iff backslash_def NUL_def)

text \<open>A command under the id of a registered slave of another kind starts a child
  that no entry of the table names: registration fails silently, so the child is never waited
  for, and its FIFO stays.\<close>

theorem execute_orphans_child:
  assumes "worker_ok w" and "os_sems (w_os w) (get_sem_key orc (op_id options)) = None"
    and "orc_fork orc \<notin> os_children (w_os w)" and "spawns (op_command options)"
    and "map_of (w_slaves w) (op_id options) = Some o1" and "op_command o1 \<noteq> op_command options"
    and "execute orc fd now options w = Some (0, w')"
  shows "orc_fork orc \<in> os_children (w_os w')
    \<and> (\<forall>(i, o2) \<in> set (w_slaves w'). op_pid o2 \<noteq> orc_fork orc)"
proof -
  have nd: "\<And>o2. map_of (w_slaves w) (op_id options) = Some o2 \<Longrightarrow> op_command o2 \<noteq> op_command options"
    using assms(5,6) by simp
  obtain st options' s' where sp: "spawn_ok (slave_fifos (op_command options) (op_id options)) orc
      options (w_os w) (Some (st, options', s'))"
    and e: "execute orc fd now options w = Some (st, reply fd st (op_id options)
        (if st = 0 then w\<lparr>w_os := s', w_slaves := snd (insert_slave options' (w_slaves w))\<rparr>
         else w\<lparr>w_os := s'\<rparr>))"
    using execute_cases [OF assms(2,4) nd] by metis
  then have st: "st = 0" using assms(7) by simp
  have "snd (insert_slave options' (w_slaves w)) = w_slaves w"
    using sp assms(5) by (simp add: insert_slave_def spawn_ok_def)
  then have "w' = reply fd 0 (op_id options) (w\<lparr>w_os := s', w_slaves := w_slaves w\<rparr>)"
    using e assms(7) st by auto
  then have "w_slaves w' = w_slaves w" "w_os w' = s'"
    by (simp_all add: reply_def split: option.splits)
  then show ?thesis
    using sp st assms(1,3) by (auto simp: spawn_ok_def worker_ok_def slave_ok_def)
qed

definition dlm_options :: command_options_t where
  "dlm_options = create_command_options\<lparr>op_command := ''dlm'', op_id := ''q''\<rparr>"

theorem execute_orphans_child_witness:
  "\<exists>w'. execute (orc0\<lparr>orc_fork := 43\<rparr>) 3 100 dlm_options worker1 = Some (0, w')
    \<and> 43 \<in> os_children (w_os w') \<and> (\<forall>(i, o2) \<in> set (w_slaves w'). op_pid o2 \<noteq> 43)"
proof -
  let ?orc = "orc0\<lparr>orc_fork := 43\<rparr>"
  have "\<exists>w'. execute ?orc 3 100 dlm_options worker1 = Some (0, w')"
    by (simp add: execute_def dispatch_def download_music_def worker1_def worker_init_def dlm_options_def
        ytd_options_def create_command_options_def get_slave_def orc0_def os_defs mc_defs Let_def)
  then obtain w' where e: "execute ?orc 3 100 dlm_options worker1 = Some (0, w')" by blast
  have "orc_fork ?orc \<in> os_children (w_os w') \<and> (\<forall>(i, o2) \<in> set (w_slaves w'). op_pid o2 \<noteq> orc_fork ?orc)"
    by (rule execute_orphans_child [OF worker1_ok _ _ _ _ _ e, of "ytd_options\<lparr>op_pid := 42\<rparr>"])
      (simp_all add: worker1_def worker_init_def dlm_options_def ytd_options_def
        create_command_options_def spawns_def mc_defs)
  then show ?thesis using e by auto
qed

end
