(* ===== verification/Util.thy ===== *)
theory Util
  imports CppStd "HOL-Library.Sublist"
begin

text \<open>
  \<open>src/musicat/util.cpp\<close>, \<open>include/musicat/util.h\<close> and the pure helpers of
  \<open>src/musicat/musicat.cpp\<close>: string helpers, the fuzzy matcher, the number
  validator, the search for a focused option, the choice of a member's highest
  role, the throttler, duration printing and the random permutation that
  \<open>shuffle\<close> uses.
\<close>

section \<open>Strings\<close>

definition join :: "bool \<Rightarrow> string \<Rightarrow> string \<Rightarrow> string" where
  "join j str join_str = (if j then str @ join_str else str)"

definition max_len :: "string \<Rightarrow> nat \<Rightarrow> bool \<Rightarrow> string" where
  "max_len s m cut_front =
    (if length s \<le> m then s
     else if cut_front then drop (length s - m) s
     else take m s)"

definition trim_str :: "string \<Rightarrow> string" where
  "trim_str s = rev (dropWhile is_space (rev (dropWhile is_space s)))"

fun valid_number_loop :: "string \<Rightarrow> int" where
  "valid_number_loop [] = 0"
| "valid_number_loop (c # cs) =
    (if c \<in> set ''1234567890'' then valid_number_loop cs
     else signed_take_bit 7 (int (ord c)))"

definition valid_number :: "string \<Rightarrow> int" where
  "valid_number numstr = (if numstr = [] then - 1 else valid_number_loop numstr)"

text \<open>The inner loop of \<open>fuzzy_match\<close>: advance in \<open>str\<close> until the character is found;
  the iterator stays behind it.\<close>

fun fuzzy_scan :: "bool \<Rightarrow> char \<Rightarrow> string \<Rightarrow> bool \<times> string" where
  "fuzzy_scan ci sc [] = (False, [])"
| "fuzzy_scan ci sc (c # cs) =
    (if (if ci then to_lower c = to_lower sc else c = sc) then (True, cs)
     else fuzzy_scan ci sc cs)"

fun fuzzy_match :: "string \<Rightarrow> string \<Rightarrow> bool \<Rightarrow> bool" where
  "fuzzy_match [] str ci = True"
| "fuzzy_match (sc # search) str ci =
    (case fuzzy_scan ci sc str of
       (False, _) \<Rightarrow> False
     | (True, i) \<Rightarrow> fuzzy_match search i ci)"

definition fold_case :: "bool \<Rightarrow> string \<Rightarrow> string" where
  "fold_case ci s = (if ci then map to_lower s else s)"

lemma fuzzy_scan_False: "fuzzy_scan ci sc str = (False, r) \<Longrightarrow>
    fold_case ci [sc] ! 0 \<notin> set (fold_case ci str)"
  by (induction ci sc str rule: fuzzy_scan.induct) (auto simp: fold_case_def split: if_splits)

lemma fuzzy_scan_True: "fuzzy_scan ci sc str = (True, r) \<Longrightarrow>
    \<exists>p c. str = p @ c # r \<and> fold_case ci [c] = fold_case ci [sc]
      \<and> fold_case ci [sc] ! 0 \<notin> set (fold_case ci p)"
proof (induction ci sc str rule: fuzzy_scan.induct)
  case (2 ci sc c cs)
  show ?case
  proof (cases "if ci then to_lower c = to_lower sc else c = sc")
    case True
    then have "r = cs" using 2(2) by (cases ci) auto
    then show ?thesis using True
      by (intro exI [of _ "[]"] exI [of _ c]) (auto simp: fold_case_def split: if_splits)
  next
    case False
    then obtain p d where "cs = p @ d # r" "fold_case ci [d] = fold_case ci [sc]"
        "fold_case ci [sc] ! 0 \<notin> set (fold_case ci p)"
      using 2 by auto
    then show ?thesis using False
      by (intro exI [of _ "c # p"] exI [of _ d]) (auto simp: fold_case_def split: if_splits)
  qed
qed simp

lemma subseq_Cons_skip:
  "x \<notin> set p \<Longrightarrow> subseq (x # xs) (p @ x # ys) \<longleftrightarrow> subseq xs ys"
  by (induction p) (auto simp: subseq_Cons2_iff)

lemma subseq_Cons_notin: "x \<notin> set ys \<Longrightarrow> \<not> subseq (x # xs) ys"
  by (auto dest: list_emb_ConsD)

lemma fuzzy_match_subseq:
  "fuzzy_match search str ci \<longleftrightarrow> subseq (fold_case ci search) (fold_case ci str)"
proof (induction search str ci rule: fuzzy_match.induct)
  case (1 str ci)
  then show ?case by (simp add: fold_case_def)
next
  case (2 sc search str ci)
  obtain b r where br: "fuzzy_scan ci sc str = (b, r)" by fastforce
  show ?case
  proof (cases b)
    case False
    have "\<not> subseq (fold_case ci (sc # search)) (fold_case ci str)"
      using False br fuzzy_scan_False [of ci sc str r]
      by (cases ci) (simp_all add: fold_case_def subseq_Cons_notin del: subseq_Cons')
    then show ?thesis using br False by simp
  next
    case True
    then obtain p c where s: "str = p @ c # r" "fold_case ci [c] = fold_case ci [sc]"
        "fold_case ci [sc] ! 0 \<notin> set (fold_case ci p)"
      using br fuzzy_scan_True [of ci sc str r] by auto
    have "subseq (fold_case ci (sc # search)) (fold_case ci str)
        \<longleftrightarrow> subseq (fold_case ci search) (fold_case ci r)"
      using s subseq_Cons_skip [of "fold_case ci [sc] ! 0" "fold_case ci p"]
      by (auto simp: fold_case_def split: if_splits)
    then show ?thesis using 2 True br by simp
  qed
qed

lemma digit_set: "c \<in> set ''1234567890'' \<longleftrightarrow> is_digit c"
proof -
  have "c \<in> set ''1234567890'' \<longleftrightarrow> ord c \<in> ord ` set ''1234567890''"
    by (simp only: image_iff) auto
  also have "ord ` set ''1234567890'' = {49, 50, 51, 52, 53, 54, 55, 56, 57, 48}"
    by (simp add: ord_def)
  also have "(n::nat) \<in> {49, 50, 51, 52, 53, 54, 55, 56, 57, 48} \<longleftrightarrow> 48 \<le> n \<and> n \<le> 57" for n
    by (simp, presburger)
  finally show ?thesis by (simp add: is_digit_def)
qed

lemma valid_number_loop_0:
  "valid_number_loop s = 0 \<longleftrightarrow>
    (case dropWhile is_digit s of [] \<Rightarrow> True | c # _ \<Rightarrow> ord c = 0)"
proof (induction s)
  case (Cons c cs)
  have "signed_take_bit 7 (int (ord c)) = 0 \<longleftrightarrow> take_bit (Suc 7) (int (ord c)) = take_bit (Suc 7) 0"
    using signed_take_bit_eq_iff_take_bit_eq [of 7 "int (ord c)" 0] by simp
  also have "\<dots> \<longleftrightarrow> ord c = 0"
    using ord_less_256 [of c] by (simp add: take_bit_eq_mod)
  finally have "signed_take_bit 7 (int (ord c)) = 0 \<longleftrightarrow> ord c = 0" .
  moreover have "valid_number_loop (c # cs) =
      (if is_digit c then valid_number_loop cs else signed_take_bit 7 (int (ord c)))"
    by (simp only: valid_number_loop.simps digit_set)
  ultimately show ?case using Cons by (simp del: valid_number_loop.simps)
qed simp

section \<open>Duration printing\<close>

text \<open>\<open>uint8_t\<close> minute and second never truncate: both are below 60.\<close>

definition pad2 :: "nat \<Rightarrow> string" where
  "pad2 n = (let s = nat_str n in (if length s < 2 then ''0'' else '''') @ s)"

definition format_duration :: "64 word \<Rightarrow> string" where
  "format_duration dur =
    (let secondr = unat dur div 1000;
         minuter = secondr div 60;
         hour = minuter div 60;
         minute = (minuter mod 60) mod 256;
         second = (secondr mod 60) mod 256
     in (if hour \<noteq> 0 then pad2 hour @ '':'' else '''') @ pad2 minute @ '':'' @ pad2 second)"

section \<open>A random permutation\<close>

text \<open>\<open>shuffle_indexes\<close> draws \<open>get_random_number () % ori.size ()\<close> into an
  \<open>int\<close>. The numbers drawn are the list \<open>rs\<close>; an index that the conversion makes negative
  or a list of numbers that is too short is no result.\<close>

fun shuffle_loop :: "64 word list \<Rightarrow> nat list \<Rightarrow> nat list \<Rightarrow> nat list option" where
  "shuffle_loop rs [] ret = Some ret"
| "shuffle_loop [] (o1 # ori) ret = None"
| "shuffle_loop (r0 # rs) (o1 # ori) ret =
    (let r = signed_take_bit 31 (int (unat r0 mod length (o1 # ori)))
     in if r < 0 then None
        else (case erase_at (nat r) (o1 # ori) of
               None \<Rightarrow> None
             | Some ori' \<Rightarrow> shuffle_loop rs ori' (ret @ [(o1 # ori) ! nat r])))"

definition shuffle_indexes :: "64 word list \<Rightarrow> nat \<Rightarrow> nat list option" where
  "shuffle_indexes rs len = shuffle_loop rs [0..<len] []"

definition rand_item :: "64 word \<Rightarrow> 'a list \<Rightarrow> 'a option" where
  "rand_item r vec = (if vec = [] then None else Some (vec ! (unat r mod length vec)))"

lemma shuffle_loop_mset:
  "length ori < 2 ^ 31 \<Longrightarrow> length ori \<le> length rs \<Longrightarrow>
    \<exists>p. shuffle_loop rs ori ret = Some p \<and> mset p = mset ret + mset ori"
proof (induction rs ori ret rule: shuffle_loop.induct)
  case (3 r0 rs o1 ori ret)
  define xs where "xs = o1 # ori"
  define i where "i = unat r0 mod length xs"
  have i: "i < length xs" by (simp add: i_def xs_def)
  have "i < 2 ^ 31" using i 3(2) by (simp add: xs_def)
  then have r: "signed_take_bit 31 (int i) = int i"
    by (intro signed_take_bit_int_eq_self) auto
  obtain ori' where e: "erase_at i xs = Some ori'" using i by (simp add: erase_at_def)
  have l: "length xs = Suc (length ori')" using length_erase_at [OF e] .
  have "\<exists>p. shuffle_loop rs ori' (ret @ [xs ! i]) = Some p
      \<and> mset p = mset (ret @ [xs ! i]) + mset ori'"
    using 3(1) [of "int i" "ori'"] 3(2,3) e l r unfolding i_def xs_def by simp
  moreover have "shuffle_loop (r0 # rs) (o1 # ori) ret = shuffle_loop rs ori' (ret @ [xs ! i])"
    using r e unfolding i_def xs_def by simp
  ultimately show ?case using mset_erase_at [OF e] unfolding xs_def by simp
qed auto

lemma shuffle_indexes_mset:
  assumes "len < 2 ^ 31" and "len \<le> length rs"
  shows "\<exists>p. shuffle_indexes rs len = Some p \<and> mset p = mset [0..<len]"
  using shuffle_loop_mset [of "[0..<len]" rs "[]"] assms by (simp add: shuffle_indexes_def)

section \<open>The highest role of a member\<close>

record role =
  r_id :: snowflake
  r_colour :: "32 word"
  r_position :: nat

definition role_list :: "(snowflake \<Rightarrow> role option) \<Rightarrow> bool \<Rightarrow> snowflake list \<Rightarrow> role list" where
  "role_list find_role with_color oroles =
    concat (map (\<lambda>i. case find_role i of
        None \<Rightarrow> []
      | Some r \<Rightarrow> if with_color \<and> r_colour r = 0 then [] else [r]) oroles)"

fun highest_loop :: "role option \<Rightarrow> role list \<Rightarrow> role option" where
  "highest_loop h [] = h"
| "highest_loop None (i # is) = highest_loop (Some i) is"
| "highest_loop (Some h) (i # is) =
    (if r_position h > r_position i then highest_loop (Some h) is
     else highest_loop (Some i) is)"

text \<open>\<open>find_guild_member\<close> throws for an unknown member (here \<open>None\<close>).\<close>

definition get_user_highest_role ::
  "(snowflake \<Rightarrow> snowflake \<Rightarrow> snowflake list option) \<Rightarrow> (snowflake \<Rightarrow> role option)
    \<Rightarrow> snowflake \<Rightarrow> snowflake \<Rightarrow> bool \<Rightarrow> role option" where
  "get_user_highest_role find_guild_member_roles find_role guild_id user_id with_color =
    (case find_guild_member_roles guild_id user_id of
       None \<Rightarrow> None
     | Some oroles \<Rightarrow> highest_loop None (role_list find_role with_color oroles))"

text \<open>The last among the roles of the highest position.\<close>

definition last_max :: "role \<Rightarrow> role list \<Rightarrow> bool" where
  "last_max r rs \<longleftrightarrow> (\<exists>xs ys. rs = xs @ r # ys \<and> (\<forall>x \<in> set xs. r_position x \<le> r_position r)
      \<and> (\<forall>y \<in> set ys. r_position y < r_position r))"

lemma last_max_Nil [simp]: "\<not> last_max r []"
  by (simp add: last_max_def)

lemma last_max_Cons [simp]:
  "last_max r (x # rs) \<longleftrightarrow> (x = r \<and> (\<forall>y \<in> set rs. r_position y < r_position r))
    \<or> (r_position x \<le> r_position r \<and> last_max r rs)"
proof
  assume "last_max r (x # rs)"
  then obtain xs ys where "x # rs = xs @ r # ys" "\<forall>x \<in> set xs. r_position x \<le> r_position r"
      "\<forall>y \<in> set ys. r_position y < r_position r" unfolding last_max_def by blast
  then show "(x = r \<and> (\<forall>y \<in> set rs. r_position y < r_position r))
    \<or> (r_position x \<le> r_position r \<and> last_max r rs)"
    unfolding last_max_def by (cases xs) auto
next
  assume "(x = r \<and> (\<forall>y \<in> set rs. r_position y < r_position r))
    \<or> (r_position x \<le> r_position r \<and> last_max r rs)"
  then show "last_max r (x # rs)"
  proof
    assume "r_position x \<le> r_position r \<and> last_max r rs"
    then obtain xs ys where "rs = xs @ r # ys" "\<forall>x \<in> set (x # xs). r_position x \<le> r_position r"
        "\<forall>y \<in> set ys. r_position y < r_position r" unfolding last_max_def by auto
    then show ?thesis unfolding last_max_def by (intro exI [of _ "x # xs"] exI [of _ ys]) simp
  next
    assume "x = r \<and> (\<forall>y \<in> set rs. r_position y < r_position r)"
    then show ?thesis unfolding last_max_def by (intro exI [of _ "[]"] exI [of _ rs]) simp
  qed
qed

lemma highest_loop_Some: "highest_loop (Some h) rs = Some r \<longleftrightarrow> last_max r (h # rs)"
proof (induction rs arbitrary: h)
  case (Cons i rs)
  show ?case
  proof (cases "r_position i < r_position h")
    case True
    have "last_max r (h # rs) \<longleftrightarrow> last_max r (h # i # rs)"
    proof -
      have "h = r \<Longrightarrow> r_position i < r_position r" and "r_position h \<le> r_position r \<Longrightarrow> i \<noteq> r"
          and "r_position h \<le> r_position r \<Longrightarrow> r_position i \<le> r_position r"
        using True by auto
      then show ?thesis unfolding last_max_Cons by (simp only: list.set ball_simps) blast
    qed
    then show ?thesis using Cons.IH [of h] True by simp
  next
    case False
    have "last_max r (i # rs) \<longleftrightarrow> last_max r (h # i # rs)"
    proof -
      have "h = r \<Longrightarrow> \<not> r_position i < r_position r"
          and "r_position i \<le> r_position r \<Longrightarrow> r_position h \<le> r_position r"
          and "i = r \<Longrightarrow> r_position h \<le> r_position r"
        using False by auto
      then show ?thesis unfolding last_max_Cons by (simp only: list.set ball_simps) blast
    qed
    then show ?thesis using Cons.IH [of i] False by simp
  qed
qed simp

lemma highest_loop_None [simp]: "highest_loop None rs = None \<longleftrightarrow> rs = []"
proof -
  have "highest_loop (Some h) rs \<noteq> None" for h rs
    by (induction rs arbitrary: h) auto
  then show ?thesis by (cases rs) auto
qed

section \<open>The focused option of a command\<close>

datatype cmd_option = Cmd_option (o_name: string) (o_type: nat) (o_focused: bool) (o_options: "cmd_option list")

definition no_option :: cmd_option where
  "no_option = Cmd_option '''' 0 False []"

fun find_focused :: "cmd_option list \<Rightarrow> string list \<Rightarrow> cmd_option \<times> string list" where
  "find_focused [] paths = (no_option, [])"
| "find_focused (Cmd_option n t foc opts # rest) paths =
    (let new_paths = paths @ [n] in
     if foc then (Cmd_option n t foc opts, new_paths)
     else if opts \<noteq> [] then
       (let nested = find_focused opts new_paths
        in if o_type (fst nested) \<noteq> 0 then nested else find_focused rest paths)
     else find_focused rest paths)"

text \<open>The options reachable by following option names from a list of options.\<close>

fun option_at :: "cmd_option list \<Rightarrow> string list \<Rightarrow> cmd_option \<Rightarrow> bool" where
  "option_at opts [] x \<longleftrightarrow> False"
| "option_at opts (n # ns) x \<longleftrightarrow>
    (\<exists>y \<in> set opts. o_name y = n \<and> (if ns = [] then y = x else option_at (o_options y) ns x))"

lemma option_at_Cons: "option_at rest p x \<Longrightarrow> option_at (y # rest) p x"
  by (cases p) auto

lemma find_focused_path:
  "o_type (fst (find_focused opts paths)) \<noteq> 0 \<Longrightarrow>
    \<exists>p. snd (find_focused opts paths) = paths @ p \<and> option_at opts p (fst (find_focused opts paths))
      \<and> o_focused (fst (find_focused opts paths))"
proof (induction opts paths rule: find_focused.induct)
  case (1 paths)
  then show ?case by (simp add: no_option_def)
next
  case (2 n t foc opts rest paths)
  let ?o = "Cmd_option n t foc opts" and ?np = "paths @ [n]"
  consider (here) "foc"
    | (nested) "\<not> foc" "opts \<noteq> []" "o_type (fst (find_focused opts ?np)) \<noteq> 0"
    | (flat) "\<not> foc" "opts = []"
    | (unfocused) "\<not> foc" "opts \<noteq> []" "o_type (fst (find_focused opts ?np)) = 0"
    by blast
  then show ?case
  proof cases
    case here
    then show ?thesis by (auto simp: Let_def intro!: exI [of _ "[n]"])
  next
    case nested
    then obtain p where p: "snd (find_focused opts ?np) = ?np @ p"
        "option_at opts p (fst (find_focused opts ?np))" "o_focused (fst (find_focused opts ?np))"
      using 2(1) by blast
    then have "p \<noteq> []" by auto
    then show ?thesis using nested p
      by (intro exI [of _ "n # p"]) (auto simp: Let_def)
  next
    case flat
    then have "o_type (fst (find_focused rest paths)) \<noteq> 0"
      using 2(4) by (simp add: Let_def)
    then show ?thesis using flat 2(3) option_at_Cons by (fastforce simp: Let_def)
  next
    case unfocused
    then have "o_type (fst (find_focused rest paths)) \<noteq> 0"
      using 2(4) by (simp add: Let_def)
    then show ?thesis using unfocused 2(2) option_at_Cons by (fastforce simp: Let_def)
  qed
qed

section \<open>The throttler\<close>

text \<open>A \<open>throttle_sync_t\<close> waits while \<open>c >= max_c\<close>, then counts itself in; its
  destructor counts itself out and wakes one waiter. A system state adds the threads
  that hold a \<open>throttle_sync_t\<close> and the ones blocked in its constructor.\<close>

record throttler =
  t_c :: int
  t_max_c :: int

definition throttler_init :: "int \<Rightarrow> throttler" where
  "throttler_init max_run = \<lparr>t_c = 0, t_max_c = max_run\<rparr>"

definition will_block :: "throttler \<Rightarrow> bool" where
  "will_block t \<longleftrightarrow> t_c t \<ge> t_max_c t"

definition throttle_enter :: "throttler \<Rightarrow> throttler option" where
  "throttle_enter t = (if t_c t \<ge> t_max_c t then None else Some (t\<lparr>t_c := t_c t + 1\<rparr>))"

definition throttle_leave :: "throttler \<Rightarrow> throttler" where
  "throttle_leave t = t\<lparr>t_c := t_c t - 1\<rparr>"

record throttle_sys =
  ts_t :: throttler
  ts_holding :: "nat list"
  ts_waiting :: "nat list"

inductive throttle_step :: "throttle_sys \<Rightarrow> throttle_sys \<Rightarrow> bool" where
  enter: "throttle_enter (ts_t s) = Some t' \<Longrightarrow>
    throttle_step s (s\<lparr>ts_t := t', ts_holding := tid # ts_holding s\<rparr>)"
| block: "throttle_enter (ts_t s) = None \<Longrightarrow>
    throttle_step s (s\<lparr>ts_waiting := ts_waiting s @ [tid]\<rparr>)"
| woken: "tid \<in> set (ts_waiting s) \<Longrightarrow> throttle_enter (ts_t s) = Some t' \<Longrightarrow>
    throttle_step s (s\<lparr>ts_t := t', ts_waiting := remove1 tid (ts_waiting s),
      ts_holding := tid # ts_holding s\<rparr>)"
| leave: "tid \<in> set (ts_holding s) \<Longrightarrow>
    throttle_step s (s\<lparr>ts_t := throttle_leave (ts_t s), ts_holding := remove1 tid (ts_holding s)\<rparr>)"

inductive_cases throttle_stepE: "throttle_step s s'"

definition throttle_start :: "int \<Rightarrow> throttle_sys" where
  "throttle_start m = \<lparr>ts_t = throttler_init m, ts_holding = [], ts_waiting = []\<rparr>"

definition throttle_ok :: "int \<Rightarrow> throttle_sys \<Rightarrow> bool" where
  "throttle_ok m s \<longleftrightarrow> t_max_c (ts_t s) = m \<and> t_c (ts_t s) = int (length (ts_holding s))
    \<and> t_c (ts_t s) \<le> m"

lemma int_length_remove1: "x \<in> set xs \<Longrightarrow> int (length (remove1 x xs)) = int (length xs) - 1"
  using length_pos_if_in_set [of x xs] by (simp add: length_remove1 of_nat_diff Suc_le_eq del: length_greater_0_conv)

lemma throttle_step_ok: "throttle_step s s' \<Longrightarrow> throttle_ok m s \<Longrightarrow> throttle_ok m s'"
  by (erule throttle_stepE)
    (auto simp: throttle_ok_def throttle_enter_def throttle_leave_def int_length_remove1
      split: if_splits)

lemma throttle_reachable_ok:
  assumes "throttle_step\<^sup>*\<^sup>* (throttle_start m) s" and "0 \<le> m"
  shows "throttle_ok m s"
  using assms(1)
proof (induction rule: rtranclp_induct)
  case base
  then show ?case using assms(2) by (simp add: throttle_ok_def throttle_start_def throttler_init_def)
qed (rule throttle_step_ok)

section \<open>Properties\<close>

text \<open>Fuzzy matching is the subsequence relation: \<open>search\<close> matches exactly when its
  characters occur in \<open>str\<close> in order, up to case when asked.\<close>

theorem fuzzy_match_iff_subseq:
  "fuzzy_match search str ci \<longleftrightarrow>
    subseq (if ci then map to_lower search else search) (if ci then map to_lower str else str)"
  using fuzzy_match_subseq [of search str ci] by (simp add: fold_case_def)

text \<open>The focused option that autocomplete acts on is found together with its path: a
  result that is not the empty option is focused, and following the returned names from the
  top of the command reaches it.\<close>

theorem find_focused_sound:
  assumes "find_focused opts [] = (x, path)" and "o_type x \<noteq> 0"
  shows "o_focused x \<and> option_at opts path x"
  using find_focused_path [of opts "[]"] assms by auto

theorem find_focused_sound_witness:
  "o_focused (Cmd_option ''query'' 3 True []) \<and>
    option_at [Cmd_option ''play'' 1 False [Cmd_option ''top'' 5 False [], Cmd_option ''query'' 3 True []]]
      [''play'', ''query''] (Cmd_option ''query'' 3 True [])"
  by (rule find_focused_sound) (simp_all add: no_option_def)

text \<open>C25: In every run of threads through a throttler, the number of threads inside is its
  counter and never exceeds the limit; a thread is told that it would block exactly when the
  limit is reached.\<close>

theorem throttler_bounded:
  assumes "throttle_step\<^sup>*\<^sup>* (throttle_start m) s" and "0 \<le> m"
  shows "t_c (ts_t s) = int (length (ts_holding s)) \<and> int (length (ts_holding s)) \<le> m
    \<and> (will_block (ts_t s) \<longleftrightarrow> int (length (ts_holding s)) = m)"
  using throttle_reachable_ok [OF assms] by (auto simp: throttle_ok_def will_block_def)

definition throttle_after_enter :: throttle_sys where
  "throttle_after_enter = \<lparr>ts_t = \<lparr>t_c = 1, t_max_c = 2\<rparr>, ts_holding = [7], ts_waiting = []\<rparr>"

lemma throttle_one_step: "throttle_step\<^sup>*\<^sup>* (throttle_start 2) throttle_after_enter"
proof (rule r_into_rtranclp)
  have "throttle_step (throttle_start 2)
      ((throttle_start 2)\<lparr>ts_t := \<lparr>t_c = 1, t_max_c = 2\<rparr>, ts_holding := 7 # ts_holding (throttle_start 2)\<rparr>)"
    by (rule throttle_step.enter) (simp add: throttle_enter_def throttle_start_def throttler_init_def)
  then show "throttle_step (throttle_start 2) throttle_after_enter"
    by (simp add: throttle_start_def throttle_after_enter_def)
qed

theorem throttler_bounded_witness:
  "t_c (ts_t throttle_after_enter) = int (length (ts_holding throttle_after_enter))
    \<and> int (length (ts_holding throttle_after_enter)) \<le> 2
    \<and> (will_block (ts_t throttle_after_enter) \<longleftrightarrow> int (length (ts_holding throttle_after_enter)) = 2)"
  by (rule throttler_bounded [OF throttle_one_step]) simp

text \<open>The role that colours a member is one of the member's known roles (coloured ones
  when a colour is asked for) of the highest position, the last of those in the member's list;
  there is none only when no role qualifies.\<close>

theorem highest_role_spec:
  "case get_user_highest_role members find_role g u with_color of
     None \<Rightarrow> members g u = None \<or> role_list find_role with_color (the (members g u)) = []
   | Some r \<Rightarrow> members g u \<noteq> None \<and> last_max r (role_list find_role with_color (the (members g u)))"
proof (cases "members g u")
  case (Some ids)
  show ?thesis
  proof (cases "role_list find_role with_color ids")
    case Nil
    then show ?thesis using Some by (simp add: get_user_highest_role_def)
  next
    case (Cons r0 rs0)
    obtain r where r: "highest_loop None (r0 # rs0) = Some r"
      using highest_loop_None [of "r0 # rs0"] by (cases "highest_loop None (r0 # rs0)") auto
    then have "highest_loop (Some r0) rs0 = Some r" by simp
    then have "last_max r (r0 # rs0)" by (simp only: highest_loop_Some)
    then show ?thesis using Some Cons r by (simp add: get_user_highest_role_def del: highest_loop.simps last_max_Cons)
  qed
qed (simp add: get_user_highest_role_def)

end
