(* ===== verification/Floats.thy ===== *)
theory Floats
  imports CppStd
begin

text \<open>
  Finite \<open>float\<close> (24 bits) and \<open>double\<close> (53 bits) values as dyadic numbers
  \<open>m * 2 ^ e\<close> of integers, with the rounding to nearest (ties to even) of every
  operation written out, the printing of \<open>std::to_string\<close> (\<open>%f\<close>: six decimals of the
  exact value, ties to even) and the parsing of plain decimals by \<open>std::stof\<close>.
  Infinities, NaNs, the sign of zero, subnormal numbers and overflow of the exponent are outside
  the values the sources compute with.
\<close>

datatype fl = Fl (fl_man: int) (fl_exp: int)

definition fl_zero :: fl where
  "fl_zero = Fl 0 0"

text \<open>The number of bits of a positive integer.\<close>

primrec num_bits :: "num \<Rightarrow> int" where
  "num_bits num.One = 1"
| "num_bits (num.Bit0 n) = 1 + num_bits n"
| "num_bits (num.Bit1 n) = 1 + num_bits n"

definition bits :: "int \<Rightarrow> int" where
  "bits n = (if n \<le> 0 then 0 else num_bits (num_of_nat (nat n)))"

lemma bits_code [code]:
  "bits 0 = 0" "bits (Int.Pos n) = num_bits n" "bits (Int.Neg n) = 0"
  by (simp_all add: bits_def numeral_num_of_nat)

text \<open>The quotient \<open>a / b\<close> of two numbers (\<open>a \<ge> 0\<close>, \<open>b > 0\<close>) rounded to the nearest
  integer, ties to even.\<close>

definition div_even :: "int \<Rightarrow> int \<Rightarrow> int" where
  "div_even a b =
    (let q = a div b; r = a mod b in
     if 2 * r < b then q else if b < 2 * r then q + 1
     else if even q then q else q + 1)"

text \<open>\<open>rnd_frac p n d\<close> is the fraction \<open>n / d\<close> (\<open>d > 0\<close>) rounded to \<open>p\<close> bits.\<close>

definition rnd_frac :: "nat \<Rightarrow> int \<Rightarrow> int \<Rightarrow> fl" where
  "rnd_frac p n d =
    (if n = 0 then fl_zero else
     let a = \<bar>n\<bar>;
         k0 = bits a - bits d - int p;
         k = (if push_bit (nat (- k0)) a < push_bit p (push_bit (nat k0) d) then k0 else k0 + 1);
         q = div_even (push_bit (nat (- k)) a) (push_bit (nat k) d)
     in Fl (if n < 0 then - q else q) k)"

definition rnd_dyadic :: "nat \<Rightarrow> int \<Rightarrow> int \<Rightarrow> fl" where
  "rnd_dyadic p m e =
    (if 0 \<le> e then rnd_frac p (push_bit (nat e) m) 1 else rnd_frac p m (push_bit (nat (- e)) 1))"

definition fl_of_int :: "nat \<Rightarrow> int \<Rightarrow> fl" where
  "fl_of_int p i = rnd_frac p i 1"

definition fl_conv :: "nat \<Rightarrow> fl \<Rightarrow> fl" where
  "fl_conv p x = rnd_dyadic p (fl_man x) (fl_exp x)"

text \<open>Mantissas of two values at their common exponent.\<close>

definition fl_align :: "fl \<Rightarrow> fl \<Rightarrow> int \<times> int \<times> int" where
  "fl_align x y =
    (let e = min (fl_exp x) (fl_exp y)
     in (push_bit (nat (fl_exp x - e)) (fl_man x), push_bit (nat (fl_exp y - e)) (fl_man y), e))"

definition fl_less :: "fl \<Rightarrow> fl \<Rightarrow> bool" where
  "fl_less x y = (case fl_align x y of (a, b, e) \<Rightarrow> a < b)"

definition fl_eq :: "fl \<Rightarrow> fl \<Rightarrow> bool" where
  "fl_eq x y = (case fl_align x y of (a, b, e) \<Rightarrow> a = b)"

definition fl_add :: "nat \<Rightarrow> fl \<Rightarrow> fl \<Rightarrow> fl" where
  "fl_add p x y = (case fl_align x y of (a, b, e) \<Rightarrow> rnd_dyadic p (a + b) e)"

definition fl_mul :: "nat \<Rightarrow> fl \<Rightarrow> fl \<Rightarrow> fl" where
  "fl_mul p x y = rnd_dyadic p (fl_man x * fl_man y) (fl_exp x + fl_exp y)"

definition fl_div_int :: "nat \<Rightarrow> fl \<Rightarrow> int \<Rightarrow> fl" where
  "fl_div_int p x d =
    (if 0 \<le> fl_exp x then rnd_frac p (push_bit (nat (fl_exp x)) (fl_man x)) d
     else rnd_frac p (fl_man x) (push_bit (nat (- fl_exp x)) d))"

text \<open>Conversion to an integer truncates towards zero.\<close>

definition fl_trunc :: "fl \<Rightarrow> int" where
  "fl_trunc x =
    (let a = drop_bit (nat (- fl_exp x)) (push_bit (nat (fl_exp x)) \<bar>fl_man x\<bar>)
     in if fl_man x < 0 then - a else a)"

definition pad_left :: "nat \<Rightarrow> string \<Rightarrow> string" where
  "pad_left n s = replicate (n - length s) (CHR ''0'') @ s"

definition fl_str :: "fl \<Rightarrow> string" where
  "fl_str x =
    (let n = div_even (push_bit (nat (fl_exp x)) (\<bar>fl_man x\<bar> * 1000000)) (push_bit (nat (- fl_exp x)) 1)
     in (if fl_man x < 0 then ''-'' else '''') @ dec_str (n div 1000000) @ ''.''
        @ pad_left 6 (dec_str (n mod 1000000)))"

text \<open>\<open>stof\<close> on plain decimals: optional sign, digits, optional point and digits.\<close>

definition parse_fl :: "nat \<Rightarrow> string \<Rightarrow> fl result" where
  "parse_fl p s =
    (let s1 = dropWhile is_space s;
         neg = (s1 \<noteq> [] \<and> hd s1 = CHR ''-'');
         s2 = (if s1 \<noteq> [] \<and> (hd s1 = CHR ''-'' \<or> hd s1 = CHR ''+'') then tl s1 else s1);
         ip = takeWhile is_digit s2;
         s3 = dropWhile is_digit s2;
         fp = (if s3 \<noteq> [] \<and> hd s3 = CHR ''.'' then takeWhile is_digit (tl s3) else []);
         n = digits_val (ip @ fp)
     in if ip = [] \<and> fp = [] then Inl Invalid_argument
        else Inr (rnd_frac p (if neg then - n else n) (10 ^ length fp)))"

lemma fl_str_2_5: "fl_str (rnd_frac 53 5 2) = ''2.500000''"
  by code_simp

lemma fl_str_0_07: "fl_str (rnd_frac 24 7 100) = ''0.070000''"
  by code_simp

lemma fl_trunc_mul: "fl_trunc (fl_mul 53 (rnd_frac 53 29 100) (fl_of_int 53 1000)) = 290"
  by code_simp

end
