(* ===== verification/Json.thy ===== *)
theory Json
  imports Floats
begin

text \<open>
  JSON values as the sources use them through \<open>nlohmann::json\<close>: look-up of a
  member (\<open>find\<close> returns the end iterator, here \<open>None\<close>, on anything that is not an
  object) and the conversions \<open>get<T> ()\<close>, which throw \<open>type_error\<close> on a value of
  another kind. Numbers are exact: an integer or a finite \<open>double\<close>.
\<close>

datatype json =
    JNull
  | JBool bool
  | JInt int
  | JFloat fl
  | JStr string
  | JArr "json list"
  | JObj "(string \<times> json) list"

fun is_object :: "json \<Rightarrow> bool" where
  "is_object (JObj kv) = True"
| "is_object _ = False"

fun is_array :: "json \<Rightarrow> bool" where
  "is_array (JArr xs) = True"
| "is_array _ = False"

fun is_string :: "json \<Rightarrow> bool" where
  "is_string (JStr s) = True"
| "is_string _ = False"

fun is_null :: "json \<Rightarrow> bool" where
  "is_null JNull = True"
| "is_null _ = False"

fun jfind :: "json \<Rightarrow> string \<Rightarrow> json option" where
  "jfind (JObj kv) k = map_of kv k"
| "jfind _ k = None"

fun get_string :: "json \<Rightarrow> string result" where
  "get_string (JStr s) = Inr s"
| "get_string _ = Inl Type_error"

fun get_bool :: "json \<Rightarrow> bool result" where
  "get_bool (JBool b) = Inr b"
| "get_bool _ = Inl Type_error"

fun get_double :: "json \<Rightarrow> fl result" where
  "get_double (JInt i) = Inr (fl_of_int 53 i)"
| "get_double (JFloat r) = Inr r"
| "get_double _ = Inl Type_error"

text \<open>Conversion of a floating point value to an integer type truncates towards zero
  and is undefined when the result does not fit.\<close>

definition fl_to_int :: "int \<Rightarrow> int \<Rightarrow> fl \<Rightarrow> int result" where
  "fl_to_int lo hi r =
    (let i = fl_trunc r in if lo \<le> i \<and> i \<le> hi then Inr i else Inl Undefined)"

definition wrap32 :: "int \<Rightarrow> int" where
  "wrap32 i = signed_take_bit 31 i"

text \<open>\<open>get<int64_t> ()\<close> refuses booleans, \<open>get<int> ()\<close> converts them and truncates.\<close>

fun get_int64 :: "json \<Rightarrow> int result" where
  "get_int64 (JInt i) = Inr (signed_take_bit 63 i)"
| "get_int64 (JFloat r) = fl_to_int (- (2 ^ 63)) (2 ^ 63 - 1) r"
| "get_int64 _ = Inl Type_error"

fun get_int :: "json \<Rightarrow> int result" where
  "get_int (JInt i) = Inr (wrap32 i)"
| "get_int (JFloat r) = fl_to_int (- (2 ^ 31)) (2 ^ 31 - 1) r"
| "get_int (JBool b) = Inr (if b then 1 else 0)"
| "get_int _ = Inl Type_error"

lemma signed_take_bit_id:
  "- (2 ^ n) \<le> (i::int) \<Longrightarrow> i < 2 ^ n \<Longrightarrow> signed_take_bit n i = i"
  by (rule signed_take_bit_int_eq_self)

lemma wrap32_id: "- (2 ^ 31) \<le> i \<Longrightarrow> i < 2 ^ 31 \<Longrightarrow> wrap32 i = i"
  unfolding wrap32_def by (rule signed_take_bit_id)

text \<open>Objects are built by assignment to a key, in the place the key already has.\<close>

fun obj_set :: "string \<Rightarrow> json \<Rightarrow> (string \<times> json) list \<Rightarrow> (string \<times> json) list" where
  "obj_set k v [] = [(k, v)]"
| "obj_set k v ((k', v') # kv) = (if k' = k then (k, v) # kv else (k', v') # obj_set k v kv)"

fun jset :: "string \<Rightarrow> json \<Rightarrow> json \<Rightarrow> json result" where
  "jset k v (JObj kv) = Inr (JObj (obj_set k v kv))"
| "jset k v JNull = Inr (JObj [(k, v)])"
| "jset k v _ = Inl Type_error"

lemma map_of_obj_set [simp]: "map_of (obj_set k v kv) = (map_of kv)(k \<mapsto> v)"
  by (induction k v kv rule: obj_set.induct) auto

lemma jfind_jset:
  "jset k v j = Inr j' \<Longrightarrow> jfind j' k' = (if k' = k then Some v else jfind j k')"
  by (cases j) auto

end
