(* ===== verification/Track.thy ===== *)
theory Track
  imports Util Json
begin

text \<open>
  \<open>include/musicat/mctrack.h\<close>, \<open>src/musicat/mctrack.cpp\<close> and
  \<open>src/musicat/YTDLPTrack.cpp\<close>: a track wraps a raw JSON value that comes either
  from the yt-search library or from yt-dlp; every accessor tests which of the two
  it is and reads the fields accordingly. The methods of \<open>yt_search::YTrack\<close> are the
  parameter \<open>yt\<close>.
\<close>

section \<open>Data\<close>

record MCTrack =
  tr_raw :: json
  tr_filename :: string
  tr_user_id :: snowflake
  tr_skip_vote :: "snowflake list"
  tr_info_raw :: json
  tr_seekable :: bool
  tr_repeat :: int
  tr_seek_to :: string
  tr_current_byte :: int

record yt_api =
  yt_title :: "json \<Rightarrow> string"
  yt_url :: "json \<Rightarrow> string"
  yt_id :: "json \<Rightarrow> string"
  yt_length :: "json \<Rightarrow> string"
  yt_thumbnail :: "json \<Rightarrow> string"
  yt_snippet :: "json \<Rightarrow> string"
  yt_channel :: "json \<Rightarrow> string"
  yt_duration :: "json \<Rightarrow> 64 word"

definition TRACK_MC :: int where "TRACK_MC = 0"
definition TRACK_YTDLP_SEARCH :: int where "TRACK_YTDLP_SEARCH = 1"
definition TRACK_YTDLP_DETAILED :: int where "TRACK_YTDLP_DETAILED = 2"
definition TRACK_SHORT :: int where "TRACK_SHORT = 4"

lemmas track_flags [mc_defs] =
  TRACK_MC_def TRACK_YTDLP_SEARCH_def TRACK_YTDLP_DETAILED_def TRACK_SHORT_def

definition track_init :: "MCTrack \<Rightarrow> MCTrack" where
  "track_init t = t\<lparr>tr_seekable := False, tr_seek_to := [], tr_current_byte := 0, tr_repeat := 0\<rparr>"

definition MCTrack_default :: MCTrack where
  "MCTrack_default = track_init
    \<lparr>tr_raw = JNull, tr_filename = [], tr_user_id = 0, tr_skip_vote = [], tr_info_raw = JNull,
     tr_seekable = False, tr_repeat = 0, tr_seek_to = [], tr_current_byte = 0\<rparr>"

text \<open>The conversion from a \<open>YTrack\<close>; the raw information nested under
  \<open>raw_info\<close> becomes the track's information.\<close>

definition MCTrack_of_YTrack :: "json \<Rightarrow> MCTrack" where
  "MCTrack_of_YTrack raw =
    (let t = MCTrack_default\<lparr>tr_raw := raw\<rparr> in
     case jfind raw ''raw_info'' of None \<Rightarrow> t | Some i \<Rightarrow> t\<lparr>tr_info_raw := i\<rparr>)"

definition is_empty :: "MCTrack \<Rightarrow> bool" where
  "is_empty t \<longleftrightarrow> tr_filename t = []"

definition track_check_for_seek_to :: "MCTrack \<Rightarrow> MCTrack" where
  "track_check_for_seek_to t =
    (let t1 = t\<lparr>tr_seek_to := []\<rparr> in
     if tr_current_byte t1 < 1 then t1 else t1\<lparr>tr_seek_to := ''y''\<rparr>)"

section \<open>yt-dlp tracks\<close>

definition get_str :: "json \<Rightarrow> string \<Rightarrow> string" where
  "get_str data at =
    (if \<not> is_object data then []
     else case jfind data at of
       None \<Rightarrow> []
     | Some v \<Rightarrow> (case get_string v of Inl _ \<Rightarrow> [] | Inr s \<Rightarrow> s))"

definition is_detailed :: "json \<Rightarrow> bool" where
  "is_detailed raw \<longleftrightarrow> is_object raw \<and> jfind raw ''extractor_key'' \<noteq> None"

definition ytdlp_get_id_nocheck :: "json \<Rightarrow> string" where
  "ytdlp_get_id_nocheck data = get_str data ''id''"

definition ytdlp_get_id :: "json \<Rightarrow> string" where
  "ytdlp_get_id data = (if \<not> is_object data then [] else ytdlp_get_id_nocheck data)"

definition ytdlp_get_title :: "MCTrack \<Rightarrow> string" where
  "ytdlp_get_title t = get_str (tr_raw t) ''title''"

text \<open>\<open>get<double>\<close> throws on a duration that is neither null nor a number; the
  conversion of a value outside \<open>uint64_t\<close> is undefined.\<close>

definition fl_to_u64 :: "fl \<Rightarrow> 64 word result" where
  "fl_to_u64 v = (let i = fl_trunc v in
     if 0 \<le> i \<and> i < 2 ^ 64 then Inr (word_of_int i) else Inl Undefined)"

definition ytdlp_get_duration :: "json \<Rightarrow> 64 word result" where
  "ytdlp_get_duration data =
    (if \<not> is_object data then Inr 0
     else case jfind data ''duration'' of
       None \<Rightarrow> Inr 0
     | Some JNull \<Rightarrow> Inr 0
     | Some i \<Rightarrow> bind_result (get_double i) (\<lambda>v.
         if fl_less fl_zero v then fl_to_u64 (fl_mul 53 v (fl_of_int 53 1000))
         else fl_to_u64 v))"

definition ytdlp_get_thumbnail :: "MCTrack \<Rightarrow> string" where
  "ytdlp_get_thumbnail t =
    (let data = tr_raw t; info_data = tr_info_raw t in
     if is_detailed data then get_str data ''thumbnail''
     else if is_object info_data \<and> is_detailed info_data then get_str info_data ''thumbnail''
     else let id = ytdlp_get_id_nocheck data in
       if id = [] then [] else ''http://i3.ytimg.com/vi/'' @ id @ ''/hqdefault.jpg'')"

definition ytdlp_get_description :: "MCTrack \<Rightarrow> string" where
  "ytdlp_get_description t = get_str (tr_raw t) ''description''"

definition ytdlp_get_url :: "json \<Rightarrow> string" where
  "ytdlp_get_url data =
    (let url = get_str data ''url'' in
     if url = [] then get_str data ''original_url'' else url)"

definition ytdlp_get_length_str :: "MCTrack \<Rightarrow> string result" where
  "ytdlp_get_length_str t =
    bind_result (ytdlp_get_duration (tr_raw t)) (\<lambda>dur. Inr (format_duration dur))"

definition ytdlp_get_channel_name :: "MCTrack \<Rightarrow> string" where
  "ytdlp_get_channel_name t =
    (let data = tr_raw t in
     if get_str data ''extractor'' = ''generic'' then get_str data ''webpage_url_domain''
     else get_str data ''channel'')"

fun ytdlp_entries :: "json \<Rightarrow> MCTrack list" where
  "ytdlp_entries (JArr es) = map (\<lambda>e. MCTrack_default\<lparr>tr_raw := e\<rparr>) es"
| "ytdlp_entries _ = []"

definition get_playlist_entries :: "json \<Rightarrow> MCTrack list" where
  "get_playlist_entries data =
    (if \<not> is_object data then []
     else case jfind data ''entries'' of None \<Rightarrow> [] | Some ep \<Rightarrow> ytdlp_entries ep)"

section \<open>Which kind of track\<close>

definition is_url_shorts :: "string \<Rightarrow> bool" where
  "is_url_shorts s \<longleftrightarrow> sublist ''/shorts/'' s"

definition is_short_data :: "json \<Rightarrow> bool" where
  "is_short_data data = is_url_shorts (ytdlp_get_url data)"

definition get_track_flag :: "json \<Rightarrow> int" where
  "get_track_flag data =
    (if \<not> is_object data then 0
     else let f0 = TRACK_MC;
              f1 = (if is_short_data data then or f0 TRACK_SHORT else f0);
              f2 = (if jfind data ''ie_key'' \<noteq> None then or f1 TRACK_YTDLP_SEARCH else f1)
          in if jfind data ''extractor_key'' \<noteq> None then or f2 TRACK_YTDLP_DETAILED else f2)"

definition is_YTDLPTrack_flag :: "int \<Rightarrow> bool" where
  "is_YTDLPTrack_flag f \<longleftrightarrow> and f TRACK_YTDLP_SEARCH \<noteq> 0 \<or> and f TRACK_YTDLP_DETAILED \<noteq> 0"

definition is_YTDLPTrack :: "MCTrack \<Rightarrow> bool" where
  "is_YTDLPTrack t = is_YTDLPTrack_flag (get_track_flag (tr_raw t))"

definition is_YTDLPTrack_info :: "json \<Rightarrow> bool" where
  "is_YTDLPTrack_info info = is_YTDLPTrack_flag (get_track_flag info)"

section \<open>Accessors\<close>

definition get_title :: "yt_api \<Rightarrow> MCTrack \<Rightarrow> string" where
  "get_title yt t = (if is_YTDLPTrack t then ytdlp_get_title t else yt_title yt (tr_raw t))"

definition get_duration :: "yt_api \<Rightarrow> MCTrack \<Rightarrow> 64 word result" where
  "get_duration yt t =
    (if is_YTDLPTrack t then ytdlp_get_duration (tr_raw t)
     else if is_YTDLPTrack_info (tr_info_raw t) then ytdlp_get_duration (tr_info_raw t)
     else Inr (yt_duration yt (tr_info_raw t)))"

definition get_thumbnail :: "yt_api \<Rightarrow> MCTrack \<Rightarrow> string" where
  "get_thumbnail yt t = (if is_YTDLPTrack t then ytdlp_get_thumbnail t else yt_thumbnail yt (tr_raw t))"

definition get_description :: "yt_api \<Rightarrow> MCTrack \<Rightarrow> string" where
  "get_description yt t = (if is_YTDLPTrack t then ytdlp_get_description t else yt_snippet yt (tr_raw t))"

definition get_url :: "yt_api \<Rightarrow> MCTrack \<Rightarrow> string" where
  "get_url yt t = (if is_YTDLPTrack t then ytdlp_get_url (tr_raw t) else yt_url yt (tr_raw t))"

definition get_id :: "yt_api \<Rightarrow> MCTrack \<Rightarrow> string" where
  "get_id yt t = (if is_YTDLPTrack t then ytdlp_get_id (tr_raw t) else yt_id yt (tr_raw t))"

definition get_length_str :: "yt_api \<Rightarrow> MCTrack \<Rightarrow> string result" where
  "get_length_str yt t = (if is_YTDLPTrack t then ytdlp_get_length_str t else Inr (yt_length yt (tr_raw t)))"

definition get_channel_name :: "yt_api \<Rightarrow> MCTrack \<Rightarrow> string" where
  "get_channel_name yt t =
    (if is_YTDLPTrack t then ytdlp_get_channel_name t else yt_channel yt (tr_raw t))"

definition is_short :: "yt_api \<Rightarrow> MCTrack \<Rightarrow> bool" where
  "is_short yt t = is_url_shorts (get_url yt t)"

section \<open>Lemmas\<close>

lemma get_track_flag_bits:
  "is_object data \<Longrightarrow> get_track_flag data =
    (if is_short_data data then 4 else 0) + (if jfind data ''ie_key'' \<noteq> None then 1 else 0)
    + (if jfind data ''extractor_key'' \<noteq> None then 2 else 0)"
  by (simp add: get_track_flag_def mc_defs)

lemma is_YTDLPTrack_iff:
  "is_YTDLPTrack t \<longleftrightarrow> is_object (tr_raw t)
    \<and> (jfind (tr_raw t) ''ie_key'' \<noteq> None \<or> jfind (tr_raw t) ''extractor_key'' \<noteq> None)"
proof (cases "is_object (tr_raw t)")
  case True
  then show ?thesis
    unfolding is_YTDLPTrack_def is_YTDLPTrack_flag_def get_track_flag_bits [OF True]
    by (simp add: mc_defs)
next
  case False
  then show ?thesis
    by (simp add: is_YTDLPTrack_def is_YTDLPTrack_flag_def get_track_flag_def)
qed

lemma get_str_JStr: "get_str data k = s \<Longrightarrow> s \<noteq> [] \<Longrightarrow> jfind data k = Some (JStr s)"
  by (cases data; cases "jfind data k"; cases "the (jfind data k)") (auto simp: get_str_def)

lemma length_get_playlist_entries:
  "jfind data ''entries'' = Some (JArr es) \<Longrightarrow> length (get_playlist_entries data) = length es"
  by (cases data) (auto simp: get_playlist_entries_def)

lemma get_playlist_entries_fresh:
  "t \<in> set (get_playlist_entries data) \<Longrightarrow>
    is_empty t \<and> tr_current_byte t = 0 \<and> tr_repeat t = 0 \<and> tr_seek_to t = []"
  by (cases "jfind data ''entries''"; cases "the (jfind data ''entries'')")
    (auto simp: get_playlist_entries_def is_empty_def MCTrack_default_def track_init_def split: if_splits)

end
