(* ===== verification/EqualizerFx.thy ===== *)
theory EqualizerFx
  imports Json
begin

text \<open>
  The text form of the equalizer: \<open>src/musicat/cmds/filters.cpp\<close>. Eighteen
  band gains and a volume, in percent, are printed as ffmpeg arguments
  \<open>1b=0.500000:...:18b=0.500000,volume=1.000000\<close> and read back by searching for each
  label. Printing divides by 100 in \<open>float\<close>, reading multiplies by 100 in \<open>float\<close> and
  truncates.
\<close>

section \<open>The equalizer\<close>

record equalizer_fx_t =
  eq_volume :: int
  eq_bands :: "int list"

definition percent_to_dec_base :: int where
  "percent_to_dec_base = 100"

definition create_equalizer_fx_t :: equalizer_fx_t where
  "create_equalizer_fx_t = \<lparr>eq_volume = 100, eq_bands = replicate 18 50\<rparr>"

definition band_to_str :: "fl \<Rightarrow> string" where
  "band_to_str v = fl_str (fl_div_int 24 v percent_to_dec_base)"

definition vol_to_str :: "fl \<Rightarrow> string" where
  "vol_to_str v = fl_str (fl_div_int 24 v percent_to_dec_base)"

text \<open>The callers pass a \<open>float\<close> where \<open>int64_t\<close> is expected.\<close>

definition band_vol_to_str_value :: "int \<Rightarrow> string" where
  "band_vol_to_str_value v = int_str (fl_trunc (fl_of_int 24 v))"

text \<open>The label of band \<open>k\<close> with its separator, then the value.\<close>

fun bands_af :: "nat \<Rightarrow> int list \<Rightarrow> string" where
  "bands_af k [] = []"
| "bands_af k (b # bs) =
    (if k = 1 then [] else '':'') @ nat_str k @ ''b='' @ band_to_str (fl_of_int 24 b)
      @ bands_af (Suc k) bs"

definition equalizer_fx_t_to_af_args :: "equalizer_fx_t \<Rightarrow> bool \<Rightarrow> string" where
  "equalizer_fx_t_to_af_args eq with_volume =
    bands_af 1 (eq_bands eq)
    @ (if with_volume then '',volume='' @ vol_to_str (fl_of_int 24 (eq_volume eq)) else [])"

text \<open>The label of the volume comes between bands 9 and 10.\<close>

fun bands_slash :: "nat \<Rightarrow> int \<Rightarrow> int list \<Rightarrow> string" where
  "bands_slash k vol [] = []"
| "bands_slash k vol (b # bs) =
    (if k = 1 then [] else '' '') @ ''band-'' @ nat_str k @ '': '' @ band_vol_to_str_value b
      @ (if k = 9 then '' volume: '' @ band_vol_to_str_value vol else [])
      @ bands_slash (Suc k) vol bs"

definition equalizer_fx_t_to_slash_args :: "equalizer_fx_t \<Rightarrow> string" where
  "equalizer_fx_t_to_slash_args eq = bands_slash 1 (eq_volume eq) (eq_bands eq)"

definition searches :: "string list" where
  "searches = [''volume='', ''1b='', ''2b='', ''3b='', ''4b='', ''5b='', ''6b='', ''7b='', ''8b='',
    ''9b='', ''10b='', ''11b='', ''12b='', ''13b='', ''14b='', ''15b='', ''16b='', ''17b='', ''18b='']"

definition fl_to_percent :: "fl \<Rightarrow> int result" where
  "fl_to_percent v =
    fl_to_int (- (2 ^ 63)) (2 ^ 63 - 1) (fl_mul 24 v (fl_of_int 24 percent_to_dec_base))"

text \<open>The value found for one label; \<open>None\<close> when the label is missing.\<close>

definition search_value :: "string \<Rightarrow> string \<Rightarrow> int result option" where
  "search_value str search =
    (case str_find str search 0 of
       None \<Rightarrow> None
     | Some i \<Rightarrow>
         let e = str_find str '':'' (i + 1);
             t = i + length search
         in Some (bind_result (parse_fl 24 (substr str t (map_option (\<lambda>e. e - t) e))) fl_to_percent))"

text \<open>A missing label is skipped without advancing the index.\<close>

fun af_args_loop :: "string \<Rightarrow> string list \<Rightarrow> nat \<Rightarrow> equalizer_fx_t \<Rightarrow> equalizer_fx_t result" where
  "af_args_loop str [] idx ret = Inr ret"
| "af_args_loop str (search # ss) idx ret =
    (case search_value str search of
       None \<Rightarrow> af_args_loop str ss idx ret
     | Some r \<Rightarrow> bind_result r (\<lambda>v.
         af_args_loop str ss (Suc idx)
           (if idx = 0 then ret\<lparr>eq_volume := v\<rparr>
            else ret\<lparr>eq_bands := (eq_bands ret)[idx - 1 := v]\<rparr>)))"

definition af_args_to_equalizer_fx_t :: "string \<Rightarrow> equalizer_fx_t result" where
  "af_args_to_equalizer_fx_t str = af_args_loop str searches 0 create_equalizer_fx_t"

section \<open>Searching in printed arguments\<close>

lemma find_sub_at:
  "find_sub p (p @ r) = Some 0"
  by (cases "p @ r") (auto simp: append_eq_Cons_conv)

text \<open>A segment that lacks a character of the pattern, closed by one that does not
  occur in the pattern, holds no occurrence.\<close>

lemma find_sub_skip:
  assumes "x \<in> set p" and "x \<notin> set seg" and "y \<notin> set p"
  shows "find_sub p (seg @ y # r) = map_option (\<lambda>k. k + length seg + 1) (find_sub p r)"
  using assms(2)
proof (induction seg)
  case Nil
  have "take (length p) (y # r) \<noteq> p"
    using assms(1,3) by (cases p) auto
  then show ?case by (simp add: option.map_comp comp_def)
next
  case (Cons c seg)
  have "take (length p) (c # seg @ y # r) \<noteq> p"
  proof
    assume a: "take (length p) (c # seg @ y # r) = p"
    show False
    proof (cases "length p \<le> Suc (length seg)")
      case True
      then have "set p \<subseteq> set (c # seg)"
        using a by (metis append_Cons length_Cons set_take_subset take_append take_all_iff append_Nil2
            diff_is_0_eq take0)
      then show False using assms(1) Cons.prems by auto
    next
      case False
      then have "y \<in> set (take (length p) ((c # seg) @ y # r))"
        by (subst take_append) (auto simp: Suc_diff_le take_Cons' not_le less_diff_conv)
      then show False using a assms(3) by simp
    qed
  qed
  then show ?case using Cons by (simp add: option.map_comp comp_def)
qed

lemma find_sub_none:
  assumes "x \<in> set p" and "x \<notin> set s"
  shows "find_sub p s = None"
  using assms(2)
proof (induction s)
  case (Cons c s)
  have "take (length p) (c # s) \<noteq> p"
    using assms(1) Cons.prems by (metis in_set_takeD)
  then show ?case using Cons by simp
qed (use assms(1) in auto)

lemma find_sub_char: "find_sub [x] s = (if x \<in> set s then Some (length (takeWhile (\<lambda>c. c \<noteq> x) s)) else None)"
  by (induction s) auto

text \<open>The value of a label whose first occurrence is known.\<close>

lemma search_value_found:
  assumes "find_sub p s = Some i" and "drop i s = p @ r" and "CHR '':'' \<notin> set p" and "p \<noteq> []"
  shows "search_value s p = Some (bind_result (parse_fl 24 (takeWhile (\<lambda>c. c \<noteq> CHR '':'') r)) fl_to_percent)"
proof -
  have l: "i \<le> length s" using assms(2,4) by (metis append_is_Nil_conv drop_all linorder_le_cases)
  have il: "i < length s" using assms(2,4) l by (metis append_is_Nil_conv drop_eq_Nil not_less)
  obtain c p' where p: "p = c # p'" using assms(4) by (cases p) auto
  have d1: "drop (i + 1) s = p' @ r" using assms(2) p by (metis Suc_eq_plus1 append_Cons drop_Suc list.sel(3) tl_drop)
  have dt: "drop (i + length p) s = r" using assms(2)
    by (metis add.commute append_eq_conv_conj drop_drop)
  have fs: "str_find s p 0 = Some i" using assms(1) by (simp add: str_find_def)
  have tw: "takeWhile (\<lambda>c. c \<noteq> CHR '':'') (p' @ r) = p' @ takeWhile (\<lambda>c. c \<noteq> CHR '':'') r"
    using assms(3) p by (intro takeWhile_append2) auto
  show ?thesis
  proof (cases "CHR '':'' \<in> set r")
    case True
    have "str_find s '':'' (i + 1) = Some (length p' + length (takeWhile (\<lambda>c. c \<noteq> CHR '':'') r) + (i + 1))"
      using il d1 True tw by (simp add: str_find_def find_sub_char)
    moreover have "length p' + length (takeWhile (\<lambda>c. c \<noteq> CHR '':'') r) + (i + 1) - (i + length p)
        = length (takeWhile (\<lambda>c. c \<noteq> CHR '':'') r)"
      using p by simp
    ultimately show ?thesis
      unfolding search_value_def fs by (simp add: substr_def dt takeWhile_eq_take [symmetric])
  next
    case False
    have "str_find s '':'' (i + 1) = None"
      using il d1 False assms(3) p by (simp add: str_find_def find_sub_char)
    moreover have r: "takeWhile (\<lambda>c. c \<noteq> CHR '':'') r = r"
      using False by (intro takeWhile_eq_all_conv [THEN iffD2]) auto
    ultimately show ?thesis
      unfolding search_value_def fs r by (simp add: substr_def dt)
  qed
qed

text \<open>No occurrence of \<open>p\<close> starts inside \<open>lab\<close>, whatever follows.\<close>

fun no_start :: "string \<Rightarrow> string \<Rightarrow> bool" where
  "no_start p [] \<longleftrightarrow> True"
| "no_start p (c # lab) \<longleftrightarrow>
    take (length p) (c # lab) \<noteq> take (length (c # lab)) p \<and> no_start p lab"

lemma find_sub_no_start:
  "no_start p lab \<Longrightarrow> find_sub p (lab @ x) = map_option (\<lambda>k. k + length lab) (find_sub p x)"
proof (induction lab)
  case Nil
  then show ?case by (simp add: option.map_ident)
next
  case (Cons c lab)
  have "take (length p) (c # lab @ x) \<noteq> p"
  proof
    assume a: "take (length p) (c # lab @ x) = p"
    have "take (length (c # lab)) p = take (length (c # lab)) (take (length p) ((c # lab) @ x))"
      using a by simp
    also have "\<dots> = take (length p) (take (length (c # lab)) ((c # lab) @ x))"
      by (simp only: take_take min.commute)
    also have "\<dots> = take (length p) (c # lab)" by simp
    finally show False using Cons.prems by simp
  qed
  then show ?case
    using Cons by (simp add: option.map_comp comp_def)
qed

definition band_label :: "nat \<Rightarrow> string" where
  "band_label k = nat_str k @ ''b=''"

lemma searches_eq: "searches = ''volume='' # map band_label [1..<19]"
  by code_simp

lemma no_start_tl_searches: "sorted_wrt (\<lambda>x y. no_start y x) (tl searches)"
  by (simp add: searches_def)

lemma no_start_labels:
  assumes "1 \<le> k" "k < j" "j < 19"
  shows "no_start (band_label j) (band_label k)"
proof -
  have "sorted_wrt (\<lambda>x y. no_start y x) (map band_label [1..<19])"
    using no_start_tl_searches by (simp only: searches_eq list.sel)
  then have "no_start (map band_label [1..<19] ! (j - 1)) (map band_label [1..<19] ! (k - 1))"
    using assms by (intro sorted_wrt_nth_less [where P = "\<lambda>x y. no_start y x"]) simp_all
  then show ?thesis using assms by simp
qed

section \<open>Printed values\<close>

definition value_chars :: "string \<Rightarrow> bool" where
  "value_chars s \<longleftrightarrow> (\<exists>ip fp. s = ip @ CHR ''.'' # fp \<and> ip \<noteq> [] \<and> (\<forall>c \<in> set (ip @ fp). is_digit c))"

lemma dec_str_digits: "0 \<le> i \<Longrightarrow> c \<in> set (dec_str i) \<Longrightarrow> is_digit c"
  using nat_str_digits by (auto simp: dec_str_nat_str)

lemma pad_left_digits: "\<forall>c \<in> set s. is_digit c \<Longrightarrow> c \<in> set (pad_left n s) \<Longrightarrow> is_digit c"
  by (auto simp: pad_left_def is_digit_def ord_def split: if_splits)

lemma div_even_nonneg: "0 \<le> a \<Longrightarrow> 0 < b \<Longrightarrow> 0 \<le> div_even a b"
  using pos_imp_zdiv_nonneg_iff [of b a] by (auto simp: div_even_def Let_def)

lemma fl_str_value_chars: "0 \<le> fl_man x \<Longrightarrow> value_chars (fl_str x)"
proof -
  assume "0 \<le> fl_man x"
  moreover define n where
    "n = div_even (push_bit (nat (fl_exp x)) (\<bar>fl_man x\<bar> * 1000000)) (push_bit (nat (- fl_exp x)) 1)"
  ultimately have s: "fl_str x = dec_str (n div 1000000) @ ''.'' @ pad_left 6 (dec_str (n mod 1000000))"
    by (simp add: fl_str_def Let_def)
  have n: "0 \<le> n" unfolding n_def by (rule div_even_nonneg) auto
  have "dec_str (n div 1000000) \<noteq> []"
    using n by (simp add: dec_str_nat_str pos_imp_zdiv_nonneg_iff)
  moreover have "\<forall>c \<in> set (dec_str (n div 1000000)). is_digit c"
    using n dec_str_digits [of "n div 1000000"] by (simp add: pos_imp_zdiv_nonneg_iff)
  moreover have "\<forall>c \<in> set (pad_left 6 (dec_str (n mod 1000000))). is_digit c"
    using pad_left_digits dec_str_digits [of "n mod 1000000"] by auto
  ultimately show ?thesis unfolding value_chars_def s by (intro exI) auto
qed

lemma value_chars_free:
  "value_chars s \<Longrightarrow> \<not> is_digit c \<Longrightarrow> c \<noteq> CHR ''.'' \<Longrightarrow> c \<notin> set s"
  by (auto simp: value_chars_def)

lemma not_digits [simp]: "\<not> is_digit (CHR '':'')" "\<not> is_digit (CHR ''b'')" "\<not> is_digit (CHR ''v'')"
  "\<not> is_digit (CHR ''.'')" "\<not> is_digit (CHR '','')"
  by (simp_all add: is_digit_def ord_def)

lemma parse_fl_value:
  assumes "ip \<noteq> []" "\<forall>c \<in> set (ip @ fp). is_digit c" "rest = [] \<or> \<not> is_digit (hd rest)"
  shows "parse_fl p (ip @ CHR ''.'' # fp @ rest) = Inr (rnd_frac p (digits_val (ip @ fp)) (10 ^ length fp))"
proof -
  obtain d ip' where ip: "ip = d # ip'" using assms(1) by (cases ip) auto
  have d: "is_digit d" using assms(2) ip by simp
  let ?s = "ip @ CHR ''.'' # fp @ rest"
  have dw: "dropWhile is_space ?s = ?s" using digit_not_space [OF d] by (simp add: ip)
  have tw: "takeWhile is_digit ?s = ip" "dropWhile is_digit ?s = CHR ''.'' # fp @ rest"
    using assms(2) by (auto simp: takeWhile_append dropWhile_append)
  have tf: "takeWhile is_digit (fp @ rest) = fp"
    using assms(2,3) by (cases rest) (auto simp: takeWhile_append)
  have hd: "hd ?s \<noteq> CHR ''-''" "hd ?s \<noteq> CHR ''+''" using digit_not_sign [OF d] by (simp_all add: ip)
  show ?thesis unfolding parse_fl_def Let_def dw using hd tw tf assms(1) by simp
qed

lemma parse_fl_rest:
  "value_chars s \<Longrightarrow> rest = [] \<or> \<not> is_digit (hd rest) \<Longrightarrow> parse_fl p (s @ rest) = parse_fl p s"
  unfolding value_chars_def using parse_fl_value [where rest = "[]"] parse_fl_value by fastforce

section \<open>Reading back a printed value\<close>

lemma digits_val_append: "digits_val (a @ b) = digits_val a * 10 ^ length b + digits_val b"
proof (induction b rule: rev_induct)
  case (snoc c b)
  have "digits_val (a @ b @ [c]) = digits_val (a @ b) * 10 + int (digit_val c)"
    using digits_val_snoc [of "a @ b" c] by simp
  then show ?case using snoc by (simp add: digits_val_snoc algebra_simps)
qed (simp add: digits_val_def)

lemma digits_val_pad_left: "digits_val (pad_left n s) = digits_val s"
proof -
  have "digits_val (replicate k (CHR ''0'')) = 0" for k
    by (induction k) (simp_all add: digits_val_def digit_val_def ord_def)
  then show ?thesis by (simp add: pad_left_def digits_val_append)
qed

lemma digits_val_dec_str: "0 \<le> i \<Longrightarrow> digits_val (dec_str i) = i"
  by (simp add: dec_str_nat_str)

text \<open>The printed number of millionths.\<close>

definition fl_micros :: "fl \<Rightarrow> int" where
  "fl_micros x = div_even (push_bit (nat (fl_exp x)) (\<bar>fl_man x\<bar> * 1000000)) (push_bit (nat (- fl_exp x)) 1)"

lemma parse_fl_str:
  assumes "0 \<le> fl_man x"
  shows "parse_fl p (fl_str x) = Inr (rnd_frac p (fl_micros x) (1000000))"
proof -
  define n where "n = fl_micros x"
  have n: "0 \<le> n" unfolding n_def fl_micros_def by (rule div_even_nonneg) auto
  let ?ip = "dec_str (n div 1000000)" and ?fp = "pad_left 6 (dec_str (n mod 1000000))"
  have s: "fl_str x = ?ip @ CHR ''.'' # ?fp @ []"
    using assms by (simp add: fl_str_def Let_def n_def fl_micros_def)
  have pos: "0 \<le> n div 1000000" "0 \<le> n mod 1000000" using n by (simp_all add: pos_imp_zdiv_nonneg_iff)
  have "nat (n mod 1000000) < 1000000" using pos(2) by (simp add: nat_less_iff)
  then have "length (dec_str (n mod 1000000)) \<le> 6"
    using pos(2) length_nat_str_le [of 6 "nat (n mod 1000000)"] by (simp add: dec_str_nat_str)
  then have l: "length ?fp = 6" by (simp add: pad_left_def)
  have "digits_val (?ip @ ?fp) = n div 1000000 * 10 ^ 6 + n mod 1000000"
    using pos by (simp only: digits_val_append l digits_val_pad_left digits_val_dec_str)
  then have v: "digits_val (?ip @ ?fp) = n" by simp
  have "?ip \<noteq> []" using pos(1) by (simp add: dec_str_nat_str)
  moreover have "\<forall>c \<in> set (?ip @ ?fp). is_digit c"
    using dec_str_digits [OF pos(1)] dec_str_digits [OF pos(2)] pad_left_digits [of "dec_str (n mod 1000000)"]
    unfolding set_append by blast
  ultimately have "parse_fl p (fl_str x) = Inr (rnd_frac p (digits_val (?ip @ ?fp)) (10 ^ length ?fp))"
    unfolding s by (intro parse_fl_value) simp_all
  then show ?thesis using v l unfolding n_def by simp
qed

section \<open>Reading back printed arguments\<close>

text \<open>The percentage that comes back for a printed percentage: the truncation in
  \<open>float\<close> loses one percent for six values between 1 and 200.\<close>

definition drift :: "int \<Rightarrow> int" where
  "drift v = (if v \<in> {53, 59, 105, 106, 117, 118} then v - 1 else v)"

abbreviation band_val :: "int \<Rightarrow> string" where
  "band_val b \<equiv> band_to_str (fl_of_int 24 b)"

definition band_range :: "int \<Rightarrow> bool" where
  "band_range b \<longleftrightarrow> 1 \<le> b \<and> b \<le> 200"

definition band_reads_ok :: "int \<Rightarrow> bool" where
  "band_reads_ok v \<longleftrightarrow> (let x = fl_div_int 24 (fl_of_int 24 v) 100 in 0 \<le> fl_man x
      \<and> fl_to_percent (rnd_frac 24 (fl_micros x) 1000000) = Inr (drift v))"

lemma band_reads_1: "list_all band_reads_ok [1..50]"
  by code_simp

lemma band_reads_2: "list_all band_reads_ok [51..100]"
  by code_simp

lemma band_reads_3: "list_all band_reads_ok [101..150]"
  by code_simp

lemma band_reads_4: "list_all band_reads_ok [151..200]"
  by code_simp

lemma band_reads_all: "band_range b \<Longrightarrow> band_reads_ok b"
proof -
  assume "band_range b"
  then have "b \<in> set [1..50] \<or> b \<in> set [51..100] \<or> b \<in> set [101..150] \<or> b \<in> set [151..200]"
    unfolding band_range_def set_upto atLeastAtMost_iff by linarith
  then show ?thesis
    using band_reads_1 band_reads_2 band_reads_3 band_reads_4 unfolding list_all_iff by blast
qed

lemma band_man: "band_range b \<Longrightarrow> 0 \<le> fl_man (fl_div_int 24 (fl_of_int 24 b) 100)"
  using band_reads_all [of b] by (simp add: band_reads_ok_def Let_def)

lemma band_reads:
  assumes "band_range b"
  shows "bind_result (parse_fl 24 (band_val b)) fl_to_percent = Inr (drift b)"
proof -
  have "fl_to_percent (rnd_frac 24 (fl_micros (fl_div_int 24 (fl_of_int 24 b) 100)) 1000000) = Inr (drift b)"
    using band_reads_all [OF assms] by (simp add: band_reads_ok_def Let_def)
  then show ?thesis
    using parse_fl_str [OF band_man [OF assms], of 24]
    by (simp add: band_to_str_def percent_to_dec_base_def)
qed

lemma band_val_chars: "band_range b \<Longrightarrow> value_chars (band_val b)"
  using fl_str_value_chars [OF band_man] by (simp add: band_to_str_def percent_to_dec_base_def)

lemma band_reads_rest:
  "band_range b \<Longrightarrow> rest = [] \<or> \<not> is_digit (hd rest) \<Longrightarrow>
    bind_result (parse_fl 24 (band_val b @ rest)) fl_to_percent = Inr (drift b)"
  using band_reads parse_fl_rest [OF band_val_chars] by simp

text \<open>The labels after the first, each behind its separator.\<close>

fun bands_rest :: "nat \<Rightarrow> int list \<Rightarrow> string" where
  "bands_rest k [] = []"
| "bands_rest k (b # bs) = CHR '':'' # band_label k @ band_val b @ bands_rest (Suc k) bs"

lemma bands_af_rest: "k \<noteq> 1 \<Longrightarrow> k \<noteq> 0 \<Longrightarrow> bands_af k bs = bands_rest k bs"
  by (induction bs arbitrary: k) (auto simp: band_label_def)

lemma bands_af_1: "bands_af 1 (b # bs) = band_label 1 @ band_val b @ bands_rest 2 bs"
  by (simp add: bands_af_rest band_label_def numeral_2_eq_2)

lemma band_label_free: "CHR '':'' \<notin> set (band_label k)" "CHR ''v'' \<notin> set (band_label k)"
    "CHR ''b'' \<in> set (band_label k)" "band_label k \<noteq> []"
  using nat_str_digits [of k] by (auto simp: band_label_def)

text \<open>Where band \<open>j\<close> is found in the arguments of the bands from \<open>k\<close> on.\<close>

lemma find_band:
  "1 \<le> k \<Longrightarrow> k \<le> j \<Longrightarrow> j < k + length (b # bs) \<Longrightarrow> j < 19 \<Longrightarrow> list_all band_range (b # bs) \<Longrightarrow>
    \<exists>i. find_sub (band_label j) (band_label k @ band_val b @ bands_rest (Suc k) bs @ tail) = Some i
      \<and> drop i (band_label k @ band_val b @ bands_rest (Suc k) bs @ tail)
        = band_label j @ band_val ((b # bs) ! (j - k)) @ bands_rest (Suc j) (drop (Suc (j - k)) (b # bs)) @ tail"
proof (induction bs arbitrary: k b)
  case Nil
  then have "k = j" by simp
  then show ?case using find_sub_at by (intro exI [of _ 0]) auto
next
  case (Cons b' bs)
  show ?case
  proof (cases "k = j")
    case True
    then show ?thesis using find_sub_at by (intro exI [of _ 0]) auto
  next
    case False
    let ?r = "band_label (Suc k) @ band_val b' @ bands_rest (Suc (Suc k)) bs @ tail"
    have kj: "k < j" using False Cons.prems by simp
    obtain i where i: "find_sub (band_label j) ?r = Some i"
      "drop i ?r = band_label j @ band_val ((b' # bs) ! (j - Suc k))
        @ bands_rest (Suc j) (drop (Suc (j - Suc k)) (b' # bs)) @ tail"
      using Cons.IH [of "Suc k" b'] Cons.prems kj by auto
    have free: "CHR ''b'' \<notin> set (band_val b)"
      using Cons.prems by (intro value_chars_free [OF band_val_chars]) auto
    have "find_sub (band_label j) (band_label k @ band_val b @ CHR '':'' # ?r)
        = map_option (\<lambda>n. n + length (band_label k)) (find_sub (band_label j) (band_val b @ CHR '':'' # ?r))"
      using Cons.prems kj by (intro find_sub_no_start no_start_labels) auto
    also have "find_sub (band_label j) (band_val b @ CHR '':'' # ?r)
        = map_option (\<lambda>n. n + length (band_val b) + 1) (find_sub (band_label j) ?r)"
      by (rule find_sub_skip [OF band_label_free(3) free band_label_free(1)])
    finally have "find_sub (band_label j) (band_label k @ band_val b @ CHR '':'' # ?r)
        = Some (i + length (band_val b) + 1 + length (band_label k))"
      using i(1) by simp
    moreover have "drop (i + length (band_val b) + 1 + length (band_label k))
        (band_label k @ band_val b @ CHR '':'' # ?r) = drop i ?r"
      by simp
    moreover have "j - k = Suc (j - Suc k)" using kj by simp
    ultimately show ?thesis using i(2) by simp
  qed
qed

lemma takeWhile_band:
  assumes "band_range b" and "CHR '':'' \<notin> set tail"
  shows "takeWhile (\<lambda>c. c \<noteq> CHR '':'') (band_val b @ bands_rest k bs @ tail)
    = band_val b @ (if bs = [] then tail else [])"
proof -
  have "CHR '':'' \<notin> set (band_val b)" by (rule value_chars_free [OF band_val_chars [OF assms(1)]]) auto
  then have "takeWhile (\<lambda>c. c \<noteq> CHR '':'') (band_val b @ xs)
      = band_val b @ takeWhile (\<lambda>c. c \<noteq> CHR '':'') xs" for xs
    by (intro takeWhile_append2) auto
  moreover have "takeWhile (\<lambda>c. c \<noteq> CHR '':'') tail = tail"
    using assms(2) by (intro takeWhile_eq_all_conv [THEN iffD2]) auto
  ultimately show ?thesis by (cases bs) auto
qed

lemma search_band:
  assumes "length bs = 18" "list_all band_range bs" "1 \<le> j" "j < 19"
    and "tail = [] \<or> \<not> is_digit (hd tail)" "CHR '':'' \<notin> set tail"
  shows "search_value (bands_af 1 bs @ tail) (band_label j) = Some (Inr (drift (bs ! (j - 1))))"
proof -
  obtain b bs' where bs: "bs = b # bs'" using assms(1) by (cases bs) auto
  let ?s = "bands_af 1 bs @ tail"
  have s: "?s = band_label 1 @ band_val b @ bands_rest (Suc 1) bs' @ tail"
    unfolding bs bands_af_1 by (simp add: numeral_2_eq_2)
  have "\<exists>i. find_sub (band_label j) ?s = Some i \<and> drop i ?s
      = band_label j @ band_val (bs ! (j - 1)) @ bands_rest (Suc j) (drop (Suc (j - 1)) bs) @ tail"
    unfolding s unfolding bs by (rule find_band) (use assms bs in auto)
  then obtain i where i: "find_sub (band_label j) ?s = Some i"
    "drop i ?s = band_label j @ band_val (bs ! (j - 1)) @ bands_rest (Suc j) (drop (Suc (j - 1)) bs) @ tail"
    by blast
  have br: "band_range (bs ! (j - 1))" using assms(1-4) by (simp add: list_all_length)
  show ?thesis
    unfolding search_value_found [OF i band_label_free(1,4)]
    using takeWhile_band [OF br assms(6)] band_reads_rest [OF br, of "[]"] band_reads_rest [OF br assms(5)]
    by auto
qed

lemma af_args_loop_bands:
  "(\<forall>n < length ss. search_value str (ss ! n) = Some (Inr (vs ! n))) \<Longrightarrow> length vs = length ss \<Longrightarrow>
    m + length ss \<le> length (eq_bands ret) \<Longrightarrow>
    af_args_loop str ss (Suc m) ret
      = Inr (ret\<lparr>eq_bands := take m (eq_bands ret) @ vs @ drop (m + length ss) (eq_bands ret)\<rparr>)"
proof (induction ss arbitrary: vs m ret)
  case Nil
  then show ?case by simp
next
  case (Cons s ss)
  obtain v vs' where vs: "vs = v # vs'" using Cons.prems(2) by (cases vs) auto
  let ?ret = "ret\<lparr>eq_bands := (eq_bands ret)[m := v]\<rparr>"
  have m: "m < length (eq_bands ret)" using Cons.prems(3) by simp
  have "search_value str s = Some (Inr v)" using Cons.prems(1) vs by fastforce
  then have "af_args_loop str (s # ss) (Suc m) ret = af_args_loop str ss (Suc (Suc m)) ?ret" by simp
  also have "\<dots> = Inr (?ret\<lparr>eq_bands := take (Suc m) (eq_bands ?ret) @ vs'
      @ drop (Suc m + length ss) (eq_bands ?ret)\<rparr>)"
    using Cons.prems vs by (intro Cons.IH) auto
  also have "take (Suc m) (eq_bands ?ret) = take m (eq_bands ret) @ [v]"
    using m by (simp add: take_Suc_conv_app_nth)
  finally show ?case by (simp add: vs)
qed

lemma map_search_bands:
  assumes "length bs = 18" "list_all band_range bs"
    and "tail = [] \<or> \<not> is_digit (hd tail)" "CHR '':'' \<notin> set tail"
  shows "\<forall>n < length (map band_label [1..<19]).
    search_value (bands_af 1 bs @ tail) (map band_label [1..<19] ! n) = Some (Inr (map drift bs ! n))"
  using search_band [OF assms(1,2) _ _ assms(3,4)] assms(1) by auto

lemma value_no_v: "band_range b \<Longrightarrow> CHR ''v'' \<notin> set (band_val b)"
  by (intro value_chars_free [OF band_val_chars]) auto

lemma bands_no_v: "list_all band_range bs \<Longrightarrow> CHR ''v'' \<notin> set (bands_af k bs)"
proof (induction bs arbitrary: k)
  case (Cons b bs)
  have "CHR ''v'' \<notin> set (nat_str k)" using nat_str_digits [of k] not_digits(3) by blast
  then show ?case using Cons value_no_v by auto
qed simp

lemma search_volume:
  assumes "list_all band_range bs" "band_range vol"
  shows "search_value (bands_af 1 bs @ '',volume='' @ band_val vol) ''volume='' = Some (Inr (drift vol))"
proof -
  let ?s = "bands_af 1 bs @ CHR '','' # ''volume='' @ band_val vol"
  have f: "find_sub ''volume='' ?s = Some (length (bands_af 1 bs) + 1)"
    using find_sub_skip [of "CHR ''v''" "''volume=''" "bands_af 1 bs" "CHR '',''"]
      bands_no_v [OF assms(1)] find_sub_at [of "''volume=''"] by simp
  have d: "drop (length (bands_af 1 bs) + 1) ?s = ''volume='' @ band_val vol" by simp
  have tw: "takeWhile (\<lambda>c. c \<noteq> CHR '':'') (band_val vol) = band_val vol"
    using takeWhile_band [OF assms(2), of "[]" 1 "[]"] by simp
  show ?thesis
    using search_value_found [OF f d] band_reads [OF assms(2)] 
    unfolding tw by (simp only: append_Cons append_Nil) simp
qed

lemma search_no_volume: "list_all band_range bs \<Longrightarrow> search_value (bands_af 1 bs) ''volume='' = None"
  using find_sub_none [of "CHR ''v''" "''volume=''" "bands_af 1 bs"] bands_no_v [of bs 1]
  by (simp add: search_value_def str_find_def)

lemma equalizer_drift:
  assumes "length (eq_bands eq) = 18" and "\<forall>b \<in> set (eq_volume eq # eq_bands eq). 1 \<le> b \<and> b \<le> 200"
  shows "af_args_to_equalizer_fx_t (equalizer_fx_t_to_af_args eq True)
    = Inr \<lparr>eq_volume = drift (eq_volume eq), eq_bands = map drift (eq_bands eq)\<rparr>"
proof -
  let ?bs = "eq_bands eq" and ?tail = "'',volume='' @ band_val (eq_volume eq)"
  have br: "list_all band_range ?bs" "band_range (eq_volume eq)"
    using assms(2) by (auto simp: list_all_iff band_range_def)
  have s: "equalizer_fx_t_to_af_args eq True = bands_af 1 ?bs @ ?tail"
    by (simp add: equalizer_fx_t_to_af_args_def vol_to_str_def band_to_str_def)
  have "CHR '':'' \<notin> set (band_val (eq_volume eq))"
    by (rule value_chars_free [OF band_val_chars [OF br(2)]]) auto
  then have "\<forall>n < length (map band_label [1..<19]).
      search_value (bands_af 1 ?bs @ ?tail) (map band_label [1..<19] ! n) = Some (Inr (map drift ?bs ! n))"
    by (intro map_search_bands [OF assms(1) br(1)]) auto
  from af_args_loop_bands [OF this, of 0 "create_equalizer_fx_t\<lparr>eq_volume := drift (eq_volume eq)\<rparr>"]
  show ?thesis
    using search_volume [OF br] assms(1)
    unfolding af_args_to_equalizer_fx_t_def searches_eq s by (simp add: create_equalizer_fx_t_def)
qed

section \<open>Properties\<close>

text \<open>C19: Saved equalizer settings are read back band for band. With eighteen bands and
  a volume between 1 and 200 percent, parsing the printed arguments never throws and gives every
  percentage back exactly, except for 53, 59, 105, 106, 117 and 118, which the truncation of a
  \<open>float\<close> product turns into one percent less.\<close>

theorem equalizer_roundtrip:
  assumes "length (eq_bands eq) = 18" and "\<forall>b \<in> set (eq_volume eq # eq_bands eq). 1 \<le> b \<and> b \<le> 200"
  shows "af_args_to_equalizer_fx_t (equalizer_fx_t_to_af_args eq True)
    = Inr \<lparr>eq_volume = drift (eq_volume eq), eq_bands = map drift (eq_bands eq)\<rparr>"
  by (rule equalizer_drift [OF assms])

theorem equalizer_roundtrip_witness:
  "af_args_to_equalizer_fx_t (equalizer_fx_t_to_af_args
      \<lparr>eq_volume = 105, eq_bands = 150 # 59 # replicate 16 50\<rparr> True)
    = Inr \<lparr>eq_volume = 104, eq_bands = 150 # 58 # replicate 16 50\<rparr>"
  by (subst equalizer_roundtrip) (simp_all add: drift_def)

text \<open>Arguments printed without a volume, the form a player keeps in its
  \<open>equalizer\<close> field, are not read back as they were written: the missing
  \<open>volume=\<close> label is skipped without advancing the index, so the first band becomes the
  volume, every other band moves down by one and the last is left at its default.\<close>

theorem equalizer_without_volume_shifts:
  assumes "length (eq_bands eq) = 18" and "\<forall>b \<in> set (eq_bands eq). 1 \<le> b \<and> b \<le> 200"
  shows "af_args_to_equalizer_fx_t (equalizer_fx_t_to_af_args eq False)
    = Inr \<lparr>eq_volume = drift (hd (eq_bands eq)), eq_bands = map drift (tl (eq_bands eq)) @ [50]\<rparr>"
proof -
  let ?bs = "eq_bands eq"
  have br: "list_all band_range ?bs" using assms(2) by (auto simp: list_all_iff band_range_def)
  have s: "equalizer_fx_t_to_af_args eq False = bands_af 1 ?bs"
    by (simp add: equalizer_fx_t_to_af_args_def)
  have all: "\<forall>n < 18. search_value (bands_af 1 ?bs) (band_label (1 + n)) = Some (Inr (drift (?bs ! n)))"
    using map_search_bands [OF assms(1) br, of "[]"] assms(1) by simp
  have ls: "map band_label [1..<19] = band_label 1 # map band_label [2..<19]"
    by (subst upt_conv_Cons) (simp_all add: numeral_2_eq_2)
  have rest: "\<forall>n < length (map band_label [2..<19]).
      search_value (bands_af 1 ?bs) (map band_label [2..<19] ! n) = Some (Inr (map drift (tl ?bs) ! n))"
  proof (intro allI impI)
    fix n assume n: "n < length (map band_label [2..<19])"
    then have "n < 17" by simp
    then have l: "map band_label [2..<19] ! n = band_label (1 + Suc n)"
        and v: "map drift (tl ?bs) ! n = drift (?bs ! Suc n)"
      using assms(1) by (simp_all add: nth_tl del: upt_rec_numeral)
    show "search_value (bands_af 1 ?bs) (map band_label [2..<19] ! n)
        = Some (Inr (map drift (tl ?bs) ! n))"
      unfolding l v using all \<open>n < 17\<close> by (intro all [rule_format]) simp
  qed
  have hd: "search_value (bands_af 1 ?bs) (band_label 1) = Some (Inr (drift (hd ?bs)))"
    using all [rule_format, of 0] assms(1) by (cases ?bs) simp_all
  from af_args_loop_bands [OF rest, of 0 "create_equalizer_fx_t\<lparr>eq_volume := drift (hd ?bs)\<rparr>"]
  show ?thesis
    using search_no_volume [OF br] hd assms(1)
    unfolding af_args_to_equalizer_fx_t_def searches_eq ls s by (simp add: create_equalizer_fx_t_def)
qed

theorem equalizer_without_volume_shifts_witness:
  "af_args_to_equalizer_fx_t (equalizer_fx_t_to_af_args
      \<lparr>eq_volume = 100, eq_bands = 150 # 60 # replicate 15 50 @ [80]\<rparr> False)
    = Inr \<lparr>eq_volume = 150, eq_bands = 60 # replicate 15 50 @ [80, 50]\<rparr>"
  by (subst equalizer_without_volume_shifts) (auto simp: drift_def)

end
