(* ===== verification/Player.thy ===== *)
theory Player
  imports Track EqualizerFx
begin

text \<open>
  The player of a guild: \<open>include/musicat/player.h\<close> and \<open>src/musicat/player.cpp\<close>.
  Its state is the queue of tracks, the playing track, the number of tracks pushed in front
  of the playing one (\<open>shifted_track\<close>), the loop mode, the filter settings and
  some flags. Every operation returns the new player; an iterator out of range is \<open>None\<close>.
  Calls into other parts of the program (the database, the dashboard, the voice client,
  the info embed) are returned as a list of effects in the order they are made.
\<close>

section \<open>Data\<close>

datatype loop_mode_t = l_none | l_song | l_queue | l_song_queue

record guild_player_t =
  gp_guild_id :: snowflake
  gp_shard_id :: "32 word"
  gp_text_channel_id :: snowflake
  gp_voice_channel_id :: snowflake
  gp_info_message :: json
  gp_max_history_size :: nat
  gp_history :: "string list"
  gp_shifted_track :: nat
  gp_queue :: "MCTrack list"
  gp_current_track :: MCTrack
  gp_dashboard_control_requests :: "snowflake list"
  gp_loop_mode :: loop_mode_t
  gp_earwax :: bool
  gp_volume :: int
  gp_equalizer :: string
  gp_sampling_rate :: int
  gp_pitch :: int
  gp_vibrato_d :: int
  gp_tremolo_d :: int
  gp_vibrato_f :: fl
  gp_tremolo_f :: fl
  gp_tempo :: fl
  gp_auto_play :: bool
  gp_saved_queue_loaded :: bool
  gp_saved_config_loaded :: bool
  gp_tried_continuing :: bool
  gp_processing_audio :: bool
  gp_notification :: bool
  gp_stopping :: bool
  gp_stopped :: bool

datatype player_effect =
    Db_player_config snowflake "bool option" "int option" "loop_mode_t option"
  | Update_info_embed snowflake
  | Publish_pause snowflake
  | Send_join snowflake
  | Pause_audio bool
  | Skip_to_next_marker
  | Stream_unsubscribe snowflake

definition INVALID_SHARD_ID :: "32 word" where
  "INVALID_SHARD_ID = 0xFFFFFFFF"

definition opus_byte_per_ms :: int where
  "opus_byte_per_ms = 1 * 48 * 2 * 2"

definition fl_1 :: fl where "fl_1 = fl_of_int 53 1"
definition fl_m1 :: fl where "fl_m1 = fl_of_int 53 (- 1)"

definition player_init :: "guild_player_t \<Rightarrow> guild_player_t" where
  "player_init p = p\<lparr>
    gp_text_channel_id := 0, gp_voice_channel_id := 0, gp_info_message := JNull,
    gp_max_history_size := 1000, gp_history := [], gp_shifted_track := 0, gp_queue := [],
    gp_current_track := MCTrack_default, gp_dashboard_control_requests := [],
    gp_loop_mode := l_none, gp_earwax := False, gp_volume := 100, gp_equalizer := [],
    gp_sampling_rate := - 1, gp_pitch := 0, gp_vibrato_d := - 1, gp_tremolo_d := - 1,
    gp_vibrato_f := fl_m1, gp_tremolo_f := fl_m1, gp_tempo := fl_1, gp_auto_play := True,
    gp_saved_queue_loaded := False, gp_saved_config_loaded := False,
    gp_tried_continuing := False, gp_processing_audio := False, gp_notification := True,
    gp_stopping := False, gp_stopped := False\<rparr>"

definition guild_player_new :: "snowflake \<Rightarrow> 32 word \<Rightarrow> guild_player_t" where
  "guild_player_new guild_id shard_id = player_init
    \<lparr>gp_guild_id = guild_id, gp_shard_id = shard_id, gp_text_channel_id = 0,
     gp_voice_channel_id = 0, gp_info_message = JNull, gp_max_history_size = 0,
     gp_history = [], gp_shifted_track = 0, gp_queue = [], gp_current_track = MCTrack_default,
     gp_dashboard_control_requests = [], gp_loop_mode = l_none, gp_earwax = False,
     gp_volume = 0, gp_equalizer = [], gp_sampling_rate = 0, gp_pitch = 0, gp_vibrato_d = 0,
     gp_tremolo_d = 0, gp_vibrato_f = fl_zero, gp_tremolo_f = fl_zero, gp_tempo = fl_zero,
     gp_auto_play = False, gp_saved_queue_loaded = False, gp_saved_config_loaded = False,
     gp_tried_continuing = False, gp_processing_audio = False, gp_notification = False,
     gp_stopping = False, gp_stopped = False\<rparr>"

section \<open>The queue\<close>

definition queue_add :: "MCTrack \<Rightarrow> guild_player_t \<Rightarrow> guild_player_t" where
  "queue_add t p = p\<lparr>gp_queue := gp_queue p @ [t]\<rparr>"

definition queue_pop :: "guild_player_t \<Rightarrow> guild_player_t option" where
  "queue_pop p = (if gp_queue p = [] then None else Some (p\<lparr>gp_queue := butlast (gp_queue p)\<rparr>))"

definition queue_add_front :: "MCTrack \<Rightarrow> guild_player_t \<Rightarrow> guild_player_t" where
  "queue_add_front t p = p\<lparr>gp_queue := t # gp_queue p\<rparr>"

definition queue_pop_front :: "guild_player_t \<Rightarrow> guild_player_t option" where
  "queue_pop_front p = (case gp_queue p of [] \<Rightarrow> None | t # q \<Rightarrow> Some (p\<lparr>gp_queue := q\<rparr>))"

definition queue_insert :: "MCTrack \<Rightarrow> nat \<Rightarrow> guild_player_t \<Rightarrow> guild_player_t option" where
  "queue_insert t pos p = map_option (\<lambda>q. p\<lparr>gp_queue := q\<rparr>) (insert_at pos t (gp_queue p))"

definition queue_erase :: "nat \<Rightarrow> guild_player_t \<Rightarrow> guild_player_t option" where
  "queue_erase pos p = map_option (\<lambda>q. p\<lparr>gp_queue := q\<rparr>) (erase_at pos (gp_queue p))"

definition set_queue :: "MCTrack list \<Rightarrow> guild_player_t \<Rightarrow> guild_player_t" where
  "set_queue q p = p\<lparr>gp_queue := q\<rparr>"

definition queue_clear :: "guild_player_t \<Rightarrow> guild_player_t" where
  "queue_clear p = p\<lparr>gp_queue := []\<rparr>"

lemmas queue_defs [mc_defs] = queue_add_def queue_pop_def queue_add_front_def queue_pop_front_def
  queue_insert_def queue_erase_def set_queue_def queue_clear_def

text \<open>\<open>reset_shifted\<close> moves the playing track back to the front; the iterator at
  \<open>shifted_track\<close> must be inside the queue.\<close>

definition reset_shifted :: "guild_player_t \<Rightarrow> (bool \<times> guild_player_t) option" where
  "reset_shifted p =
    (if gp_queue p \<noteq> [] \<and> gp_shifted_track p > 0 then
       (if gp_shifted_track p < length (gp_queue p) then
          (let s = gp_queue p ! gp_shifted_track p in
           case queue_erase (gp_shifted_track p) p of
             None \<Rightarrow> None
           | Some p1 \<Rightarrow> Some (True, (queue_add_front s p1)\<lparr>gp_shifted_track := 0\<rparr>))
        else None)
     else Some (False, p\<lparr>gp_shifted_track := 0\<rparr>))"

section \<open>Adding tracks\<close>

definition add_track_will_block :: "throttler \<Rightarrow> MCTrack \<Rightarrow> bool" where
  "add_track_will_block add_track_throttler t \<longleftrightarrow> tr_info_raw t = JNull \<and> will_block add_track_throttler"

text \<open>\<open>fetched\<close> is what the yt-search library returns for the track's url (\<open>None\<close> when
  it throws); it is asked only when the track carries no information yet.\<close>

definition add_track ::
  "json option \<Rightarrow> bool \<Rightarrow> snowflake \<Rightarrow> bool \<Rightarrow> int \<Rightarrow> MCTrack \<Rightarrow> guild_player_t
    \<Rightarrow> (MCTrack \<times> guild_player_t \<times> player_effect list) option" where
  "add_track fetched to_front guild_id update_embed arg_slip t p =
    (case (if tr_info_raw t = JNull then map_option (\<lambda>r. t\<lparr>tr_info_raw := r\<rparr>) fetched else Some t) of
       None \<Rightarrow> Some (t, p, [])
     | Some t1 \<Rightarrow>
         let siz = length (gp_queue p);
             top1 = (arg_slip = 1 \<or> to_front);
             eff = (if update_embed \<and> siz > 0 \<and> guild_id \<noteq> 0 then [Update_info_embed guild_id] else [])
         in if top1 then
              (let p1 = queue_add_front t1 p in
               Some (t1, (if gp_shifted_track p1 < length (gp_queue p1) - 1
                          then p1\<lparr>gp_shifted_track := gp_shifted_track p1 + 1\<rparr> else p1), eff))
            else if arg_slip > 1 \<and> siz > nat arg_slip then
              map_option (\<lambda>p1. (t1, p1, eff)) (queue_insert t1 (nat arg_slip) p)
            else Some (t1, queue_add t1 p, eff))"

definition set_max_history_size :: "64 word \<Rightarrow> guild_player_t \<Rightarrow> guild_player_t \<times> player_effect list" where
  "set_max_history_size siz p =
    (p\<lparr>gp_max_history_size := unat siz\<rparr>,
     [Db_player_config (gp_guild_id p) None (Some (signed_take_bit 31 (uint siz))) None])"

definition set_auto_play :: "bool \<Rightarrow> guild_player_t \<Rightarrow> guild_player_t \<times> player_effect list" where
  "set_auto_play state p =
    (p\<lparr>gp_auto_play := state\<rparr>, [Db_player_config (gp_guild_id p) (Some state) None None])"

definition set_loop_mode :: "int \<Rightarrow> guild_player_t \<Rightarrow> guild_player_t \<times> player_effect list" where
  "set_loop_mode mode p =
    (let nm = (if mode = 0 then l_none else if mode = 1 then l_song
               else if mode = 2 then l_queue else if mode = 3 then l_song_queue
               else gp_loop_mode p)
     in (p\<lparr>gp_loop_mode := nm\<rparr>, [Db_player_config (gp_guild_id p) None None (Some nm)]))"

definition set_channel :: "snowflake \<Rightarrow> guild_player_t \<Rightarrow> guild_player_t" where
  "set_channel channel_id p = p\<lparr>gp_text_channel_id := channel_id\<rparr>"

section \<open>Stopping and skipping\<close>

definition reset_first_track_current_byte :: "guild_player_t \<Rightarrow> guild_player_t" where
  "reset_first_track_current_byte p =
    (case gp_queue p of
       [] \<Rightarrow> p | t # q \<Rightarrow> p\<lparr>gp_queue := t\<lparr>tr_current_byte := 0\<rparr> # q\<rparr>)"

text \<open>\<open>in_voice\<close>: whether the bot's own voice state names a cached channel.\<close>

definition stop :: "bool \<Rightarrow> guild_player_t \<Rightarrow> guild_player_t" where
  "stop in_voice p =
    (if \<not> gp_processing_audio p then p
     else if \<not> in_voice then p
     else reset_first_track_current_byte
       (p\<lparr>gp_stopping := True, gp_current_track := (gp_current_track p)\<lparr>tr_current_byte := 0\<rparr>\<rparr>))"

definition skip_playback ::
  "bool \<Rightarrow> bool \<Rightarrow> guild_player_t \<Rightarrow> (MCTrack list \<times> int) \<times> guild_player_t \<times> player_effect list" where
  "skip_playback has_voiceclient in_voice p =
    (if \<not> has_voiceclient then (([], - 1), p, [])
     else (([gp_current_track p], 0), stop in_voice p, [Pause_audio False, Skip_to_next_marker]))"

fun skip_loop :: "nat \<Rightarrow> bool \<Rightarrow> guild_player_t \<Rightarrow> MCTrack list \<Rightarrow> MCTrack list \<times> guild_player_t" where
  "skip_loop 0 again p removed = (removed, p)"
| "skip_loop (Suc n) again p removed =
    (case gp_queue p of
       [] \<Rightarrow> (removed, p)
     | l # q \<Rightarrow>
         let p1 = p\<lparr>gp_queue := q\<rparr>;
             p2 = (if again then queue_add (l\<lparr>tr_repeat := 0\<rparr>) p1 else p1)
         in skip_loop n again p2 (removed @ [l]))"

definition skip_amount :: "int \<Rightarrow> int" where
  "skip_amount amount = (let a = (if amount < 1 then 1 else amount) in if a > 1000 then 1000 else a)"

definition clear_repeats :: "guild_player_t \<Rightarrow> guild_player_t" where
  "clear_repeats p =
    (let p1 = (if \<not> is_empty (gp_current_track p)
               then p\<lparr>gp_current_track := (gp_current_track p)\<lparr>tr_repeat := 0\<rparr>\<rparr> else p)
     in case gp_queue p1 of [] \<Rightarrow> p1 | t # q \<Rightarrow> p1\<lparr>gp_queue := t\<lparr>tr_repeat := 0\<rparr> # q\<rparr>)"

definition skip_queue ::
  "int \<Rightarrow> bool \<Rightarrow> bool \<Rightarrow> bool \<Rightarrow> guild_player_t \<Rightarrow> (MCTrack list \<times> guild_player_t) option" where
  "skip_queue amount remove pop_current push_back p =
    (case reset_shifted p of
       None \<Rightarrow> None
     | Some (_, p1) \<Rightarrow>
         let l_1 = (gp_loop_mode p1 = l_song);
             l_s = (gp_loop_mode p1 = l_song_queue);
             l_q = (gp_loop_mode p1 = l_queue);
             p2 = clear_repeats p1;
             start = (if pop_current \<or> l_1 \<or> l_s then 0 else 1)
         in Some (skip_loop (nat (skip_amount amount - start))
              (\<not> remove \<and> (push_back \<or> l_s \<or> l_q)) p2 []))"

section \<open>Removing and shuffling\<close>

text \<open>\<open>size_t\<close> arguments are words: \<open>pos + 1\<close> wraps, and \<open>to\<close> is unset when it is
  \<open>-1\<close>.\<close>

fun erase_loop :: "nat \<Rightarrow> nat \<Rightarrow> 'a list \<Rightarrow> 'a list" where
  "erase_loop b 0 q = q"
| "erase_loop b (Suc n) q =
    (case erase_at b q of None \<Rightarrow> q | Some q' \<Rightarrow> erase_loop b n q')"

definition remove_track ::
  "64 word \<Rightarrow> 64 word \<Rightarrow> 64 word \<Rightarrow> guild_player_t \<Rightarrow> (64 word \<times> guild_player_t) option" where
  "remove_track pos amount to p =
    (if pos = 0 \<or> (amount = 0 \<and> to = - 1) then Some (0, p)
     else case reset_shifted p of
       None \<Rightarrow> None
     | Some (_, p1) \<Rightarrow>
         let siz = of_nat (length (gp_queue p1)) in
         if pos + 1 > siz then Some (0, p1)
         else
           let amount1 = (if to \<noteq> - 1 \<and> to > pos then to - pos else amount);
               mx = siz - pos;
               amount2 = (if amount1 > mx then mx else amount1)
           in if unat pos > length (gp_queue p1) then None
              else Some (amount2, p1\<lparr>gp_queue := erase_loop (unat pos) (unat amount2) (gp_queue p1)\<rparr>))"

fun remove_by_user_loop :: "snowflake \<Rightarrow> nat \<Rightarrow> MCTrack list \<Rightarrow> MCTrack list \<times> nat" where
  "remove_by_user_loop u i [] = ([], 0)"
| "remove_by_user_loop u i (t # q) =
    (if tr_user_id t = u \<and> i \<noteq> 0 then
       (case remove_by_user_loop u i q of (q', n) \<Rightarrow> (q', Suc n))
     else (case remove_by_user_loop u (Suc i) q of (q', n) \<Rightarrow> (t # q', n)))"

definition remove_track_by_user :: "snowflake \<Rightarrow> guild_player_t \<Rightarrow> nat \<times> guild_player_t" where
  "remove_track_by_user user_id p =
    (if user_id = 0 then (0, p)
     else case remove_by_user_loop user_id 0 (gp_queue p) of
       (q, ret) \<Rightarrow> (ret, p\<lparr>gp_queue := q\<rparr>))"

text \<open>\<open>paused\<close>: the state of the voice client, if there is one.\<close>

definition pause :: "bool option \<Rightarrow> guild_player_t \<Rightarrow> bool \<times> player_effect list" where
  "pause paused p =
    (case paused of
       Some False \<Rightarrow> (True, [Pause_audio True, Publish_pause (gp_guild_id p)])
     | _ \<Rightarrow> (False, []))"

definition nth_all :: "'a list \<Rightarrow> nat list \<Rightarrow> 'a list option" where
  "nth_all q is = (if \<forall>i \<in> set is. i < length q then Some (map (\<lambda>i. q ! i) is) else None)"

definition shuffle ::
  "64 word list \<Rightarrow> bool \<Rightarrow> guild_player_t \<Rightarrow> (bool \<times> guild_player_t \<times> player_effect list) option" where
  "shuffle rs update_embed p =
    (let siz = length (gp_queue p) in
     if siz < 3 then Some (False, p, [])
     else case reset_shifted p of
       None \<Rightarrow> None
     | Some (_, p1) \<Rightarrow>
         (case shuffle_indexes rs (siz - 1) of
            None \<Rightarrow> None
          | Some b \<Rightarrow>
              let os = gp_queue p1 ! 0 in
              (case queue_pop_front p1 of
                 None \<Rightarrow> None
               | Some p2 \<Rightarrow>
                   (case nth_all (gp_queue p2) b of
                      None \<Rightarrow> None
                    | Some n_queue \<Rightarrow>
                        Some (True, queue_add_front os (set_queue n_queue (queue_clear p2)),
                          if update_embed then [Update_info_embed (gp_guild_id p)] else [])))))"

definition current_track_is_first_track :: "guild_player_t \<Rightarrow> bool" where
  "current_track_is_first_track p \<longleftrightarrow>
    gp_queue p \<noteq> [] \<and> tr_filename (gp_current_track p) = tr_filename (hd (gp_queue p))"

section \<open>Streaming\<close>

definition get_info_message :: "guild_player_t \<Rightarrow> json option" where
  "get_info_message p = (if is_object (gp_info_message p) then Some (gp_info_message p) else None)"

definition set_info_message :: "json \<Rightarrow> guild_player_t \<Rightarrow> guild_player_t" where
  "set_info_message message p = p\<lparr>gp_info_message := message\<rparr>"

text \<open>\<open>audio_config.h\<close> defines \<open>USING_STREAM_CODEC\<close>: the encoder lives in the stream codec,
  and the player's own set-up and clean-up of an encoder do nothing.\<close>

definition setup_encoder :: "guild_player_t \<Rightarrow> int \<times> guild_player_t" where
  "setup_encoder p = (0, p)"

definition destroy_encoder :: "guild_player_t \<Rightarrow> guild_player_t" where
  "destroy_encoder p = p"

definition init_for_stream :: "guild_player_t \<Rightarrow> int \<times> guild_player_t" where
  "init_for_stream p =
    (case setup_encoder p of
       (status, p1) \<Rightarrow>
         if status = 0
         then (status, (reset_first_track_current_byte p1)\<lparr>gp_processing_audio := True\<rparr>)
         else (status, p1))"

definition done_streaming :: "guild_player_t \<Rightarrow> guild_player_t \<times> player_effect list" where
  "done_streaming p =
    ((destroy_encoder p)\<lparr>gp_stopping := False, gp_processing_audio := False\<rparr>,
     [Stream_unsubscribe (gp_guild_id p)])"

definition BUFSIZ :: int where
  "BUFSIZ = 8192"

definition check_for_to_seek :: "guild_player_t \<Rightarrow> guild_player_t" where
  "check_for_to_seek p =
    (case gp_queue p of
       [] \<Rightarrow> p
     | t # q \<Rightarrow>
         let to_seek = tr_current_byte (gp_current_track p) - BUFSIZ * 8
         in p\<lparr>gp_queue := t\<lparr>tr_current_byte := (if to_seek < 0 then 0 else to_seek)\<rparr> # q\<rparr>)"

section \<open>Filters\<close>

definition fx_is_tempo_active :: "guild_player_t \<Rightarrow> bool" where
  "fx_is_tempo_active p \<longleftrightarrow> \<not> fl_eq (gp_tempo p) fl_1"

definition fx_is_pitch_active :: "guild_player_t \<Rightarrow> bool" where
  "fx_is_pitch_active p \<longleftrightarrow> gp_pitch p \<noteq> 0"

definition fx_is_equalizer_active :: "guild_player_t \<Rightarrow> bool" where
  "fx_is_equalizer_active p \<longleftrightarrow> gp_equalizer p \<noteq> []"

definition fx_is_sampling_rate_active :: "guild_player_t \<Rightarrow> bool" where
  "fx_is_sampling_rate_active p \<longleftrightarrow> gp_sampling_rate p \<noteq> - 1"

definition fx_has_vibrato_f :: "guild_player_t \<Rightarrow> bool" where
  "fx_has_vibrato_f p \<longleftrightarrow> \<not> fl_eq (gp_vibrato_f p) fl_m1"

definition fx_has_vibrato_d :: "guild_player_t \<Rightarrow> bool" where
  "fx_has_vibrato_d p \<longleftrightarrow> gp_vibrato_d p \<noteq> - 1"

definition fx_is_vibrato_active :: "guild_player_t \<Rightarrow> bool" where
  "fx_is_vibrato_active p \<longleftrightarrow> fx_has_vibrato_f p \<or> fx_has_vibrato_d p"

definition fx_has_tremolo_f :: "guild_player_t \<Rightarrow> bool" where
  "fx_has_tremolo_f p \<longleftrightarrow> \<not> fl_eq (gp_tremolo_f p) fl_m1"

definition fx_has_tremolo_d :: "guild_player_t \<Rightarrow> bool" where
  "fx_has_tremolo_d p \<longleftrightarrow> gp_tremolo_d p \<noteq> - 1"

definition fx_is_tremolo_active :: "guild_player_t \<Rightarrow> bool" where
  "fx_is_tremolo_active p \<longleftrightarrow> fx_has_tremolo_f p \<or> fx_has_tremolo_d p"

definition fx_is_earwax_active :: "guild_player_t \<Rightarrow> bool" where
  "fx_is_earwax_active p \<longleftrightarrow> gp_earwax p"

definition fx_get_active_count :: "guild_player_t \<Rightarrow> int" where
  "fx_get_active_count p =
    (if fx_is_tempo_active p then 1 else 0) + (if fx_is_pitch_active p then 1 else 0)
    + (if fx_is_equalizer_active p then 1 else 0) + (if fx_is_sampling_rate_active p then 1 else 0)
    + (if fx_is_vibrato_active p then 1 else 0) + (if fx_is_tremolo_active p then 1 else 0)
    + (if fx_is_earwax_active p then 1 else 0)"

text \<open>One member of the saved settings: absent members leave the player alone.\<close>

definition load_member ::
  "json \<Rightarrow> string \<Rightarrow> (json \<Rightarrow> guild_player_t \<Rightarrow> guild_player_t result) \<Rightarrow> guild_player_t
    \<Rightarrow> guild_player_t result" where
  "load_member fx_states k f p = (case jfind fx_states k of None \<Rightarrow> Inr p | Some v \<Rightarrow> f v p)"

definition load_equalizer :: "json \<Rightarrow> guild_player_t \<Rightarrow> guild_player_t result" where
  "load_equalizer v p =
    bind_result (get_string v) (\<lambda>eq.
    bind_result (af_args_to_equalizer_fx_t eq) (\<lambda>arg.
      Inr (p\<lparr>gp_volume := wrap32 (eq_volume arg),
             gp_equalizer := equalizer_fx_t_to_af_args arg False\<rparr>)))"

definition load_fx_states :: "json \<Rightarrow> guild_player_t \<Rightarrow> (int \<times> guild_player_t) result" where
  "load_fx_states fx_states p0 =
    (if \<not> is_object fx_states then Inr (1, p0)
     else
       bind_result (load_member fx_states ''tempo''
         (\<lambda>v p. bind_result (get_double v) (\<lambda>d. Inr (p\<lparr>gp_tempo := d\<rparr>))) p0) (\<lambda>p1.
       bind_result (load_member fx_states ''pitch''
         (\<lambda>v p. bind_result (get_int v) (\<lambda>i. Inr (p\<lparr>gp_pitch := i\<rparr>))) p1) (\<lambda>p2.
       bind_result (load_member fx_states ''equalizer'' load_equalizer p2) (\<lambda>p3.
       bind_result (load_member fx_states ''sampling_rate''
         (\<lambda>v p. bind_result (get_int64 v) (\<lambda>i. Inr (p\<lparr>gp_sampling_rate := wrap32 i\<rparr>))) p3) (\<lambda>p4.
       bind_result (load_member fx_states ''vibrato_f''
         (\<lambda>v p. bind_result (get_double v) (\<lambda>d. Inr (p\<lparr>gp_vibrato_f := d\<rparr>))) p4) (\<lambda>p5.
       bind_result (load_member fx_states ''vibrato_d''
         (\<lambda>v p. bind_result (get_int v) (\<lambda>i. Inr (p\<lparr>gp_vibrato_d := i\<rparr>))) p5) (\<lambda>p6.
       bind_result (load_member fx_states ''tremolo_f''
         (\<lambda>v p. bind_result (get_double v) (\<lambda>d. Inr (p\<lparr>gp_tremolo_f := d\<rparr>))) p6) (\<lambda>p7.
       bind_result (load_member fx_states ''tremolo_d''
         (\<lambda>v p. bind_result (get_int v) (\<lambda>i. Inr (p\<lparr>gp_tremolo_d := i\<rparr>))) p7) (\<lambda>p8.
       bind_result (load_member fx_states ''earwax''
         (\<lambda>v p. bind_result (get_bool v) (\<lambda>b. Inr (p\<lparr>gp_earwax := b\<rparr>))) p8) (\<lambda>p9.
       Inr (0, p9)))))))))))"

definition fx_states_to_json :: "guild_player_t \<Rightarrow> json" where
  "fx_states_to_json p = JObj [
    (''tempo'', JFloat (gp_tempo p)),
    (''pitch'', JInt (gp_pitch p)),
    (''equalizer'', JStr (gp_equalizer p @ '',volume=''
       @ fl_str (fl_div_int 24 (fl_of_int 24 (gp_volume p)) 100))),
    (''sampling_rate'', JInt (gp_sampling_rate p)),
    (''vibrato_f'', JFloat (gp_vibrato_f p)),
    (''vibrato_d'', JInt (gp_vibrato_d p)),
    (''tremolo_f'', JFloat (gp_tremolo_f p)),
    (''tremolo_d'', JInt (gp_tremolo_d p)),
    (''earwax'', JBool (gp_earwax p))]"

text \<open>The resampling and tempo that shift the pitch by a percentage.\<close>

definition pitch_sample :: "int \<Rightarrow> int \<Rightarrow> int" where
  "pitch_sample pitch rel_sampling_rate =
    (let sample = (if rel_sampling_rate = - 1 then 48000 else rel_sampling_rate) + pitch * (- 240);
         s1 = (if sample < 6000 then 6000 else sample)
     in if s1 > 192000 then 192000 else s1)"

definition pitch_tempo :: "int \<Rightarrow> fl \<Rightarrow> fl" where
  "pitch_tempo pitch rel_tempo =
    (let tempo_per_percent = rnd_frac 53 1 200;
         neg = Fl (- fl_man tempo_per_percent) (fl_exp tempo_per_percent);
         tempo = fl_add 53 (if fl_eq rel_tempo fl_m1 then fl_1 else rel_tempo)
           (fl_mul 53 (fl_of_int 53 pitch) neg);
         t1 = (if fl_less tempo (rnd_frac 53 1 2) then rnd_frac 53 1 2 else tempo)
     in if fl_less (fl_of_int 53 3) t1 then fl_of_int 53 3 else t1)"

definition get_ffmpeg_pitch_args :: "int \<Rightarrow> int \<Rightarrow> fl \<Rightarrow> string" where
  "get_ffmpeg_pitch_args pitch rel_sampling_rate rel_tempo =
    (if pitch = 0 then []
     else ''aresample='' @ int_str (pitch_sample pitch rel_sampling_rate)
       @ '',atempo='' @ fl_str (pitch_tempo pitch rel_tempo))"

text \<open>The depth in percent becomes a \<open>float\<close> in both branches of the conditional.\<close>

definition depth_str :: "int \<Rightarrow> string" where
  "depth_str nd = fl_str (if nd > 0 then fl_div_int 24 (fl_of_int 24 nd) 100 else fl_of_int 24 nd)"

definition get_ffmpeg_vibrato_args :: "bool \<Rightarrow> bool \<Rightarrow> guild_player_t \<Rightarrow> string" where
  "get_ffmpeg_vibrato_args has_f has_d p =
    (if has_f then ''f='' @ fl_str (gp_vibrato_f p) else [])
    @ (if has_d then (if has_f then '':'' else []) @ ''d='' @ depth_str (gp_vibrato_d p) else [])"

definition get_ffmpeg_tremolo_args :: "bool \<Rightarrow> bool \<Rightarrow> guild_player_t \<Rightarrow> string" where
  "get_ffmpeg_tremolo_args has_f has_d p =
    (if has_f then ''f='' @ fl_str (gp_tremolo_f p) else [])
    @ (if has_d then (if has_f then '':'' else []) @ ''d='' @ depth_str (gp_tremolo_d p) else [])"

definition get_filter_descr :: "guild_player_t \<Rightarrow> string" where
  "get_filter_descr p =
    ''volume='' @ fl_str (fl_div_int 53 (fl_of_int 53 (gp_volume p)) 100)
    @ (if fx_is_sampling_rate_active p then '',aresample='' @ int_str (gp_sampling_rate p) else [])
    @ (if fx_is_tempo_active p then '',atempo='' @ fl_str (gp_tempo p) else [])
    @ (if fx_is_pitch_active p
       then '','' @ get_ffmpeg_pitch_args (gp_pitch p) (gp_sampling_rate p) (gp_tempo p) else [])
    @ (if fx_is_equalizer_active p then '',superequalizer='' @ gp_equalizer p else [])
    @ (if fx_is_vibrato_active p
       then '',vibrato='' @ get_ffmpeg_vibrato_args (fx_has_vibrato_f p) (fx_has_vibrato_d p) p else [])
    @ (if fx_is_tremolo_active p
       then '',tremolo='' @ get_ffmpeg_tremolo_args (fx_has_tremolo_f p) (fx_has_tremolo_d p) p else [])
    @ (if fx_is_earwax_active p then '',earwax'' else [])"

section \<open>Control from the dashboard\<close>

text \<open>\<open>user_vc\<close> is the id of the voice channel a user is in, if one is cached.\<close>

definition user_in_the_same_vc :: "(snowflake \<Rightarrow> snowflake option) \<Rightarrow> snowflake \<Rightarrow> guild_player_t \<Rightarrow> bool" where
  "user_in_the_same_vc user_vc user_id p \<longleftrightarrow> user_vc user_id = Some (gp_voice_channel_id p)"

definition can_control_dashboard :: "(snowflake \<Rightarrow> snowflake option) \<Rightarrow> snowflake \<Rightarrow> guild_player_t \<Rightarrow> bool" where
  "can_control_dashboard user_vc user_id p \<longleftrightarrow>
    user_id \<in> set (gp_dashboard_control_requests p) \<or> user_in_the_same_vc user_vc user_id p"

definition request_dashboard_control ::
  "(snowflake \<Rightarrow> snowflake option) \<Rightarrow> snowflake \<Rightarrow> guild_player_t \<Rightarrow> guild_player_t \<times> player_effect list" where
  "request_dashboard_control user_vc user_id p =
    (if can_control_dashboard user_vc user_id p then (p, [Send_join user_id])
     else (p\<lparr>gp_dashboard_control_requests := gp_dashboard_control_requests p @ [user_id]\<rparr>,
           [Send_join user_id]))"

section \<open>The order of play\<close>

text \<open>What the queue means: the playing track first, then the tracks pushed in front of it,
  then the rest. \<open>player_ok\<close> is what keeps the iterator of \<open>reset_shifted\<close> in range.\<close>

definition player_ok :: "guild_player_t \<Rightarrow> bool" where
  "player_ok p \<longleftrightarrow> gp_shifted_track p = 0 \<or> gp_shifted_track p < length (gp_queue p)"

definition play_order :: "guild_player_t \<Rightarrow> MCTrack list" where
  "play_order p =
    (if gp_shifted_track p = 0 then gp_queue p
     else gp_queue p ! gp_shifted_track p # take (gp_shifted_track p) (gp_queue p)
       @ drop (Suc (gp_shifted_track p)) (gp_queue p))"

lemma reset_shifted_ok:
  assumes "player_ok p"
  shows "reset_shifted p =
    Some (gp_shifted_track p \<noteq> 0, p\<lparr>gp_queue := play_order p, gp_shifted_track := 0\<rparr>)"
proof (cases "gp_shifted_track p = 0")
  case True
  then show ?thesis by (auto simp: reset_shifted_def play_order_def)
next
  case False
  then have "gp_shifted_track p < length (gp_queue p)" using assms by (simp add: player_ok_def)
  then show ?thesis using False
    by (cases "gp_queue p") (auto simp: reset_shifted_def play_order_def queue_defs erase_at_def)
qed

lemma mset_play_order: "player_ok p \<Longrightarrow> mset (play_order p) = mset (gp_queue p)"
proof (cases "gp_shifted_track p = 0")
  case False
  assume "player_ok p"
  then have l: "gp_shifted_track p < length (gp_queue p)" using False by (simp add: player_ok_def)
  have "erase_at (gp_shifted_track p) (gp_queue p) = Some (take (gp_shifted_track p) (gp_queue p)
      @ drop (Suc (gp_shifted_track p)) (gp_queue p))"
    using l by (simp add: erase_at_def)
  from mset_erase_at [OF this] show ?thesis using False by (simp add: play_order_def)
qed (simp add: play_order_def)

lemma length_play_order: "player_ok p \<Longrightarrow> length (play_order p) = length (gp_queue p)"
  using mset_play_order [of p] by (metis size_mset)

lemma player_ok_unshifted [simp]: "gp_shifted_track p = 0 \<Longrightarrow> player_ok p"
  by (simp add: player_ok_def)

lemma play_order_unshifted [simp]: "gp_shifted_track p = 0 \<Longrightarrow> play_order p = gp_queue p"
  by (simp add: play_order_def)

lemma play_order_queue: "gp_shifted_track p = 0 \<Longrightarrow> play_order (p\<lparr>gp_queue := q\<rparr>) = q"
  by (simp add: play_order_def)

subsection \<open>Adding\<close>

text \<open>The order of play after a track is added: behind the playing track when it goes to
  the front, else at the end or at the slip position.\<close>

definition order_add :: "bool \<Rightarrow> int \<Rightarrow> MCTrack \<Rightarrow> MCTrack list \<Rightarrow> MCTrack list" where
  "order_add to_front slip t q =
    (if slip = 1 \<or> to_front then take 1 q @ t # drop 1 q
     else if slip > 1 \<and> length q > nat slip then take (nat slip) q @ t # drop (nat slip) q
     else q @ [t])"

lemma add_front_order:
  assumes "player_ok p"
  shows "let p1 = queue_add_front t p; p2 = (if gp_shifted_track p1 < length (gp_queue p1) - 1
      then p1\<lparr>gp_shifted_track := gp_shifted_track p1 + 1\<rparr> else p1)
    in player_ok p2 \<and> play_order p2 = take 1 (play_order p) @ t # drop 1 (play_order p)"
proof (cases "gp_queue p")
  case Nil
  then have "gp_shifted_track p = 0" using assms by (simp add: player_ok_def)
  then show ?thesis using Nil by (simp add: queue_add_front_def play_order_def player_ok_def)
next
  case (Cons x q)
  then have l: "gp_shifted_track p < length (gp_queue p)" using assms by (auto simp: player_ok_def)
  then show ?thesis using Cons
    by (cases "gp_shifted_track p")
      (auto simp: queue_add_front_def play_order_def player_ok_def Let_def take_Cons')
qed

lemma add_back_order:
  assumes "player_ok p"
  shows "player_ok (queue_add t p) \<and> play_order (queue_add t p) = play_order p @ [t]"
  using assms by (auto simp: queue_add_def play_order_def player_ok_def nth_append)

lemma insert_order:
  assumes "player_ok p" "gp_shifted_track p < n" "n < length (gp_queue p)"
  shows "\<exists>p1. queue_insert t n p = Some p1 \<and> player_ok p1
    \<and> play_order p1 = take n (play_order p) @ t # drop n (play_order p)"
proof -
  let ?s = "gp_shifted_track p" and ?q = "gp_queue p"
  obtain m where n: "n = Suc m" using assms(2) by (cases n) auto
  have nth: "(take n ?q @ t # drop n ?q) ! ?s = ?q ! ?s"
    using assms by (simp add: nth_append)
  have tk: "take ?s (take n ?q @ t # drop n ?q) = take ?s ?q"
    using assms by (simp add: min_def)
  have dr: "drop (Suc ?s) (take n ?q @ t # drop n ?q) = drop (Suc ?s) (take n ?q) @ t # drop n ?q"
    using assms by simp
  have "?s \<noteq> 0 \<Longrightarrow> take n (play_order p) = ?q ! ?s # take ?s ?q @ drop (Suc ?s) (take n ?q)"
    using assms n by (auto simp: play_order_def min_def drop_take less_Suc_eq_le dest: le_antisym)
  moreover have "?s \<noteq> 0 \<Longrightarrow> drop n (play_order p) = drop n ?q"
    using assms n by (simp add: play_order_def min_def)
  ultimately show ?thesis
    using assms nth tk dr
    by (cases "?s = 0") (auto simp: queue_insert_def insert_at_def player_ok_def play_order_def)
qed

text \<open>Adding implements \<open>order_add\<close>, unless the slip position lies inside the tracks
  pushed in front of the playing one.\<close>

lemma add_track_order:
  assumes "player_ok p" and "tr_info_raw t \<noteq> JNull \<or> fetched \<noteq> None"
    and "to_front \<or> arg_slip \<le> 1 \<or> int (gp_shifted_track p) < arg_slip"
  shows "\<exists>t1 p1 eff. add_track fetched to_front guild_id upd arg_slip t p = Some (t1, p1, eff)
    \<and> player_ok p1 \<and> play_order p1 = order_add to_front arg_slip t1 (play_order p)
    \<and> t1 = (if tr_info_raw t = JNull then t\<lparr>tr_info_raw := the fetched\<rparr> else t)"
proof -
  define t1 where "t1 = (if tr_info_raw t = JNull then t\<lparr>tr_info_raw := the fetched\<rparr> else t)"
  have f: "(if tr_info_raw t = JNull then map_option (\<lambda>r. t\<lparr>tr_info_raw := r\<rparr>) fetched else Some t)
      = Some t1"
    using assms(2) by (auto simp: t1_def)
  consider (front) "arg_slip = 1 \<or> to_front"
    | (slip) "\<not> (arg_slip = 1 \<or> to_front)" "arg_slip > 1" "length (gp_queue p) > nat arg_slip"
    | (behind) "\<not> (arg_slip = 1 \<or> to_front)" "\<not> (arg_slip > 1 \<and> length (gp_queue p) > nat arg_slip)"
    by blast
  then show ?thesis
  proof cases
    case front
    then show ?thesis unfolding add_track_def f
      using add_front_order [OF assms(1), of t1] by (auto simp: t1_def order_add_def Let_def)
  next
    case slip
    then have "gp_shifted_track p < nat arg_slip" using assms(3) by auto
    from insert_order [OF assms(1) this slip(3), of t1] obtain p1 where
      "queue_insert t1 (nat arg_slip) p = Some p1" "player_ok p1"
      "play_order p1 = take (nat arg_slip) (play_order p) @ t1 # drop (nat arg_slip) (play_order p)"
      by blast
    then show ?thesis unfolding add_track_def f
      using slip by (simp add: t1_def [symmetric] order_add_def length_play_order [OF assms(1)])
  next
    case behind
    then show ?thesis unfolding add_track_def f
      using add_back_order [OF assms(1), of t1]
      by (auto simp: t1_def [symmetric] order_add_def length_play_order [OF assms(1)] Let_def)
  qed
qed

subsection \<open>Skipping\<close>

definition norep :: "MCTrack \<Rightarrow> MCTrack" where
  "norep t = t\<lparr>tr_repeat := 0\<rparr>"

lemma norep_norep [simp]: "norep (norep t) = norep t"
  by (simp add: norep_def)

lemma skip_loop_frame:
  "gp_shifted_track (snd (skip_loop n again p r)) = gp_shifted_track p"
  "gp_loop_mode (snd (skip_loop n again p r)) = gp_loop_mode p"
  "gp_current_track (snd (skip_loop n again p r)) = gp_current_track p"
  by (induction n again p r rule: skip_loop.induct)
    (auto simp: Let_def queue_add_def split: list.splits)

lemma skip_loop_drop:
  "fst (skip_loop n False p r) = r @ take n (gp_queue p)
    \<and> gp_queue (snd (skip_loop n False p r)) = drop n (gp_queue p)"
proof (induction n arbitrary: p r)
  case (Suc n)
  then show ?case by (cases "gp_queue p") (auto simp: Let_def)
qed simp

lemma skip_loop_again:
  "map norep (gp_queue (snd (skip_loop n True p r))) = rotate n (map norep (gp_queue p))
    \<and> length (fst (skip_loop n True p r)) = length r + (if gp_queue p = [] then 0 else n)"
proof (induction n arbitrary: p r)
  case (Suc n)
  show ?case
  proof (cases "gp_queue p")
    case (Cons l q)
    let ?p = "queue_add (l\<lparr>tr_repeat := 0\<rparr>) (p\<lparr>gp_queue := q\<rparr>)"
    have "map norep (gp_queue ?p) = rotate1 (map norep (gp_queue p))"
      using Cons by (simp add: queue_add_def norep_def)
    moreover have "gp_queue ?p \<noteq> []" by (simp add: queue_add_def)
    ultimately show ?thesis
      using Suc [of ?p "r @ [l]"] Cons by (simp add: Let_def rotate1_rotate_swap)
  qed simp
qed simp

lemma clear_repeats_simps:
  "gp_queue (clear_repeats p) = (case gp_queue p of [] \<Rightarrow> [] | t # q \<Rightarrow> norep t # q)"
  "gp_loop_mode (clear_repeats p) = gp_loop_mode p"
  "gp_shifted_track (clear_repeats p) = gp_shifted_track p"
  by (auto simp: clear_repeats_def norep_def Let_def split: list.splits)

definition skip_count :: "int \<Rightarrow> bool \<Rightarrow> loop_mode_t \<Rightarrow> nat" where
  "skip_count amount pop_current m =
    nat (skip_amount amount - (if pop_current \<or> m = l_song \<or> m = l_song_queue then 0 else 1))"

lemma skip_queue_eq:
  assumes "player_ok p"
  shows "skip_queue amount remove pop_current push_back p = Some
    (skip_loop (skip_count amount pop_current (gp_loop_mode p))
      (\<not> remove \<and> (push_back \<or> gp_loop_mode p = l_song_queue \<or> gp_loop_mode p = l_queue))
      (clear_repeats (p\<lparr>gp_queue := play_order p, gp_shifted_track := 0\<rparr>)) [])"
  by (simp add: skip_queue_def reset_shifted_ok [OF assms] Let_def skip_count_def)

subsection \<open>Removing\<close>

lemma erase_loop_eq: "erase_loop b n q = take b q @ drop (b + n) q"
proof (induction n arbitrary: q)
  case (Suc n)
  show ?case
  proof (cases "b < length q")
    case True
    then have "erase_loop b (Suc n) q = erase_loop b n (take b q @ drop (Suc b) q)"
      by (simp add: erase_at_def)
    also have "\<dots> = take b q @ drop (b + Suc n) q"
      using True unfolding Suc by (simp add: add.commute)
    finally show ?thesis .
  qed (simp add: erase_at_def)
qed simp

lemma remove_track_range:
  assumes "player_ok p" "0 < pos" "pos < length (gp_queue p)" "length (gp_queue p) < 2 ^ 63"
    and "0 < amount" "amount < 2 ^ 63"
  shows "remove_track (of_nat pos) (of_nat amount) (- 1) p =
    Some (of_nat (min amount (length (gp_queue p) - pos)),
      p\<lparr>gp_queue := take pos (play_order p) @ drop (pos + amount) (play_order p), gp_shifted_track := 0\<rparr>)"
proof -
  let ?l = "length (gp_queue p)"
  have u: "unat (of_nat k :: 64 word) = k" if "k < 2 ^ 64" for k
    using that by (simp add: unat_of_nat take_bit_nat_eq_self)
  have up: "unat (of_nat pos :: 64 word) = pos" "unat (of_nat amount :: 64 word) = amount"
      "unat (of_nat ?l :: 64 word) = ?l"
    using assms by (auto intro!: u)
  have nz: "(of_nat pos :: 64 word) \<noteq> 0" "(of_nat amount :: 64 word) \<noteq> 0"
    using up assms(2,5) by auto
  have ps: "unat (of_nat pos + 1 :: 64 word) = pos + 1"
    using up assms(3,4) by (subst unat_Suc_word) auto
  have le: "\<not> of_nat pos + 1 > (of_nat ?l :: 64 word)"
    using ps up assms(3) by (simp add: word_less_nat_alt)
  have mx: "unat (of_nat ?l - of_nat pos :: 64 word) = ?l - pos"
    using up assms(3) by (subst unat_sub) (auto simp: word_le_nat_alt)
  have ol: "of_nat ?l - of_nat pos = (of_nat (?l - pos) :: 64 word)"
    using assms(3) by (simp add: of_nat_diff)
  have am: "(if of_nat amount > (of_nat ?l - of_nat pos :: 64 word) then of_nat ?l - of_nat pos
      else of_nat amount) = (of_nat (min amount (?l - pos)) :: 64 word)"
    using mx up ol by (simp add: word_less_nat_alt min_def)
  have um: "unat (of_nat (min amount (?l - pos)) :: 64 word) = min amount (?l - pos)"
    using assms(6) by (intro u) auto
  have dr: "drop (pos + min amount (?l - pos)) (play_order p) = drop (pos + amount) (play_order p)"
    using length_play_order [OF assms(1)] by (simp add: min_def)
  show ?thesis
    using nz le assms(3) unfolding remove_track_def reset_shifted_ok [OF assms(1)]
    by (simp add: Let_def length_play_order [OF assms(1)] am um up erase_loop_eq dr)
qed

lemma remove_by_user_loop_eq:
  "remove_by_user_loop u i q =
    (let q' = (if i = 0 then take 1 q @ filter (\<lambda>t. tr_user_id t \<noteq> u) (drop 1 q)
               else filter (\<lambda>t. tr_user_id t \<noteq> u) q)
     in (q', length q - length q'))"
proof (induction u i q rule: remove_by_user_loop.induct)
  case (2 u i t q)
  have l: "length (filter (\<lambda>t. tr_user_id t \<noteq> u) q) \<le> length q" by simp
  show ?case using 2 l by (auto simp: Let_def Suc_diff_le split: prod.splits)
qed simp

subsection \<open>Shuffling\<close>

lemma nth_all_perm:
  assumes "mset b = mset [0..<length q]"
  shows "\<exists>q'. nth_all q b = Some q' \<and> mset q' = mset q"
proof -
  have "set b = {0..<length q}" using assms by (metis set_mset_mset set_upt)
  then have "nth_all q b = Some (map (\<lambda>i. q ! i) b)" by (simp add: nth_all_def)
  moreover have "mset (map (\<lambda>i. q ! i) b) = mset q"
    using assms by (metis map_nth mset_map)
  ultimately show ?thesis by blast
qed

lemma shuffle_ok:
  assumes "player_ok p" "3 \<le> length (gp_queue p)" "length (gp_queue p) \<le> 2 ^ 31"
    and "length (gp_queue p) - 1 \<le> length rs"
  shows "\<exists>p' eff. shuffle rs upd p = Some (True, p', eff) \<and> gp_shifted_track p' = 0
    \<and> hd (gp_queue p') = hd (play_order p) \<and> mset (gp_queue p') = mset (play_order p)"
proof -
  have l: "length (play_order p) = length (gp_queue p)" by (rule length_play_order [OF assms(1)])
  obtain t q where q: "play_order p = t # q" using l assms(2) by (cases "play_order p") auto
  have lq: "length q = length (gp_queue p) - 1" using l q by simp
  obtain b where b: "shuffle_indexes rs (length (gp_queue p) - 1) = Some b" "mset b = mset [0..<length q]"
  proof -
    have lt: "length (gp_queue p) - 1 < 2 ^ 31" using assms(2,3) by linarith
    show thesis using that shuffle_indexes_mset [OF lt assms(4)] lq by auto
  qed
  obtain q' where q': "nth_all q b = Some q'" "mset q' = mset q"
    using nth_all_perm [OF b(2)] by blast
  show ?thesis
    using assms(2) b(1) q'
    by (auto simp: shuffle_def reset_shifted_ok [OF assms(1)] q queue_defs Let_def)
qed

section \<open>Properties\<close>

text \<open>C2: Adding a track implements the order of play: with information at hand and a slip
  position behind the tracks pushed in front, the call succeeds, keeps \<open>shifted_track\<close>
  inside the queue, and the order of play gains the track right behind the playing one (front
  or slip 1), at the slip position, or at the end.\<close>

theorem add_track_refines:
  assumes "player_ok p" and "tr_info_raw t \<noteq> JNull \<or> fetched \<noteq> None"
    and "to_front \<or> arg_slip \<le> 1 \<or> int (gp_shifted_track p) < arg_slip"
  shows "\<exists>t1 p1 eff. add_track fetched to_front guild_id upd arg_slip t p = Some (t1, p1, eff)
    \<and> player_ok p1 \<and> play_order p1 =
      (if arg_slip = 1 \<or> to_front then take 1 (play_order p) @ t1 # drop 1 (play_order p)
       else if arg_slip > 1 \<and> length (play_order p) > nat arg_slip then
         take (nat arg_slip) (play_order p) @ t1 # drop (nat arg_slip) (play_order p)
       else play_order p @ [t1])"
  using add_track_order [OF assms, of guild_id upd] unfolding order_add_def by blast

definition trk :: "nat \<Rightarrow> MCTrack" where
  "trk n = MCTrack_default\<lparr>tr_filename := nat_str n, tr_info_raw := JObj [], tr_user_id := of_nat n\<rparr>"

definition player3 :: guild_player_t where
  "player3 = (guild_player_new 7 0)\<lparr>gp_queue := [trk 1, trk 2, trk 3], gp_shifted_track := 1\<rparr>"

theorem add_track_refines_witness:
  "\<exists>t1 p1 eff. add_track None False 7 True 2 (trk 4) player3 = Some (t1, p1, eff)
    \<and> player_ok p1 \<and> play_order p1 =
      (if (2::int) = 1 \<or> False then take 1 (play_order player3) @ t1 # drop 1 (play_order player3)
       else if (2::int) > 1 \<and> length (play_order player3) > nat 2 then
         take (nat 2) (play_order player3) @ t1 # drop (nat 2) (play_order player3)
       else play_order player3 @ [t1])"
  by (rule add_track_refines)
    (simp_all add: player3_def trk_def player_ok_def guild_player_new_def player_init_def)

text \<open>Tracks pushed to the front play most recent first, right after the playing
  track: after any number of front additions \<open>reset_shifted\<close> finds the playing track and
  yields it, then the additions in reverse, then the old rest.\<close>

theorem front_additions_play_next:
  assumes "player_ok p" and "gp_queue p \<noteq> []" and "\<forall>t \<in> set ts. tr_info_raw t \<noteq> JNull"
  shows "\<exists>b p'. reset_shifted
      (fold (\<lambda>t p. case add_track None True g upd slip t p of Some (_, p1, _) \<Rightarrow> p1 | None \<Rightarrow> p) ts p)
        = Some (b, p')
    \<and> gp_queue p' = hd (play_order p) # rev ts @ tl (play_order p)"
proof -
  let ?add = "\<lambda>t p. case add_track None True g upd slip t p of Some (_, p1, _) \<Rightarrow> p1 | None \<Rightarrow> p"
  have "player_ok p \<Longrightarrow> gp_queue p \<noteq> [] \<Longrightarrow> player_ok (fold ?add ts p)
    \<and> play_order (fold ?add ts p) = hd (play_order p) # rev ts @ tl (play_order p)"
    using assms(3)
  proof (induction ts arbitrary: p)
    case Nil
    then have "play_order p \<noteq> []" using length_play_order [of p] by auto
    then show ?case using Nil by simp
  next
    case (Cons t ts)
    obtain t1 p1 eff where a: "add_track None True g upd slip t p = Some (t1, p1, eff)" "player_ok p1"
        "play_order p1 = take 1 (play_order p) @ t # drop 1 (play_order p)"
      using add_track_order [of p t None True slip g upd] Cons.prems by (auto simp: order_add_def)
    have ne: "play_order p \<noteq> []" using length_play_order [of p] Cons.prems by auto
    then have o: "play_order p1 = hd (play_order p) # t # tl (play_order p)"
      using a(3) by (cases "play_order p") auto
    then have "gp_queue p1 \<noteq> []" using length_play_order [OF a(2)] by auto
    then show ?case using Cons.IH [OF a(2)] Cons.prems a(1) o by simp
  qed
  with assms show ?thesis using reset_shifted_ok by auto
qed

theorem front_additions_play_next_witness:
  "\<exists>b p'. reset_shifted
      (fold (\<lambda>t p. case add_track None True 7 True 0 t p of Some (_, p1, _) \<Rightarrow> p1 | None \<Rightarrow> p)
        [trk 4, trk 5] player3) = Some (b, p')
    \<and> gp_queue p' = hd (play_order player3) # rev [trk 4, trk 5] @ tl (play_order player3)"
  by (rule front_additions_play_next)
    (simp_all add: player3_def trk_def player_ok_def guild_player_new_def player_init_def)

text \<open>C3: Skipping takes from the order of play. Between 1 and 1000 entries are asked for,
  the playing one included only when it is popped or a song loop is on; without a queue loop they
  are removed from the front, with one the queue is rotated and loses no track.\<close>

theorem skip_queue_spec:
  assumes "player_ok p"
  shows "\<exists>removed p'. skip_queue amount remove pop_current push_back p = Some (removed, p')
    \<and> gp_shifted_track p' = 0
    \<and> (let n = nat (max 1 (min 1000 amount)) - (if pop_current \<or> gp_loop_mode p \<in> {l_song, l_song_queue} then 0 else 1);
           q = (case play_order p of [] \<Rightarrow> [] | t # q \<Rightarrow> norep t # q)
       in (if \<not> remove \<and> (push_back \<or> gp_loop_mode p \<in> {l_song_queue, l_queue})
          then map norep (gp_queue p') = rotate n (map norep q) \<and> length removed = (if q = [] then 0 else n)
          else removed = take n q \<and> gp_queue p' = drop n q))"
proof -
  let ?n = "skip_count amount pop_current (gp_loop_mode p)"
  let ?again = "\<not> remove \<and> (push_back \<or> gp_loop_mode p = l_song_queue \<or> gp_loop_mode p = l_queue)"
  let ?p = "clear_repeats (p\<lparr>gp_queue := play_order p, gp_shifted_track := 0\<rparr>)"
  have q: "gp_queue ?p = (case play_order p of [] \<Rightarrow> [] | t # q \<Rightarrow> norep t # q)"
    by (simp add: clear_repeats_simps)
  have "nat (max 1 (min 1000 amount)) - (if pop_current \<or> gp_loop_mode p \<in> {l_song, l_song_queue} then 0 else 1) = ?n"
    by (auto simp: skip_count_def skip_amount_def Let_def)
  moreover have "gp_shifted_track (snd (skip_loop ?n ?again ?p [])) = 0"
    by (simp add: skip_loop_frame clear_repeats_simps)
  ultimately show ?thesis
    using skip_loop_drop [of ?n ?p "[]"] skip_loop_again [of ?n ?p "[]"]
    unfolding skip_queue_eq [OF assms] q
    by (cases ?again) (auto simp: Let_def prod_eq_iff intro!: exI)
qed

theorem skip_queue_spec_witness:
  "\<exists>removed p'. skip_queue 2 False False False player3 = Some (removed, p')
    \<and> gp_shifted_track p' = 0
    \<and> (let n = nat (max 1 (min 1000 2)) - (if False \<or> gp_loop_mode player3 \<in> {l_song, l_song_queue} then 0 else 1);
           q = (case play_order player3 of [] \<Rightarrow> [] | t # q \<Rightarrow> norep t # q)
       in (if \<not> False \<and> (False \<or> gp_loop_mode player3 \<in> {l_song_queue, l_queue})
          then map norep (gp_queue p') = rotate n (map norep q) \<and> length removed = (if q = [] then 0 else n)
          else removed = take n q \<and> gp_queue p' = drop n q))"
  by (rule skip_queue_spec) (simp add: player3_def player_ok_def)

text \<open>Removing a range never touches the playing track: for a position behind it,
  exactly the entries from that position on are removed, at most as many as asked for and as
  there are, and the count is returned.\<close>

theorem remove_track_spec:
  assumes "player_ok p" "0 < pos" "pos < length (gp_queue p)" "length (gp_queue p) < 2 ^ 63"
    and "0 < amount" "amount < 2 ^ 63"
  shows "\<exists>p'. remove_track (of_nat pos) (of_nat amount) (- 1) p
      = Some (of_nat (min amount (length (gp_queue p) - pos)), p')
    \<and> hd (gp_queue p') = hd (play_order p)
    \<and> gp_queue p' = take pos (play_order p) @ drop (pos + amount) (play_order p)
    \<and> length (gp_queue p') + min amount (length (gp_queue p) - pos) = length (gp_queue p)"
  unfolding remove_track_range [OF assms]
  using assms(2,3) length_play_order [OF assms(1)]
  by (cases "play_order p"; cases pos) (auto simp: min_def)

theorem remove_track_spec_witness:
  "\<exists>p'. remove_track (of_nat 1) (of_nat 5) (- 1) player3
      = Some (of_nat (min 5 (length (gp_queue player3) - 1)), p')
    \<and> hd (gp_queue p') = hd (play_order player3)
    \<and> gp_queue p' = take 1 (play_order player3) @ drop (1 + 5) (play_order player3)
    \<and> length (gp_queue p') + min 5 (length (gp_queue player3) - 1) = length (gp_queue player3)"
  by (rule remove_track_spec) (simp_all add: player3_def player_ok_def)

text \<open>Shuffling keeps the playing track first and permutes the others: nothing is
  lost, whatever numbers the generator draws.\<close>

theorem shuffle_permutes:
  assumes "player_ok p" "3 \<le> length (gp_queue p)" "length (gp_queue p) \<le> 2 ^ 31"
    and "length (gp_queue p) - 1 \<le> length rs"
  shows "\<exists>p' eff. shuffle rs upd p = Some (True, p', eff) \<and> player_ok p'
    \<and> hd (gp_queue p') = hd (play_order p) \<and> mset (gp_queue p') = mset (gp_queue p)"
  using shuffle_ok [OF assms, of upd] mset_play_order [OF assms(1)] by auto

theorem shuffle_permutes_witness:
  "\<exists>p' eff. shuffle [5, 9] False player3 = Some (True, p', eff) \<and> player_ok p'
    \<and> hd (gp_queue p') = hd (play_order player3) \<and> mset (gp_queue p') = mset (gp_queue player3)"
  by (rule shuffle_permutes) (simp_all add: player3_def player_ok_def)

text \<open>A slip position inside the tracks pushed in front of the playing one breaks the
  order of play: the insertion moves the playing track, \<open>shifted_track\<close> stays, and the
  track it now points to, which \<open>reset_shifted\<close> will put first, is the one that stood before
  the playing track.\<close>

theorem add_track_slip_misplaces:
  assumes "gp_shifted_track p < length (gp_queue p)" and "1 < slip" and "slip \<le> gp_shifted_track p"
    and "tr_info_raw t \<noteq> JNull"
  shows "\<exists>p' eff. add_track None False g upd (int slip) t p = Some (t, p', eff)
    \<and> hd (play_order p') = (if slip = gp_shifted_track p then t else gp_queue p ! (gp_shifted_track p - 1))
    \<and> play_order p' ! Suc (gp_shifted_track p) = hd (play_order p)"
proof -
  let ?s = "gp_shifted_track p" and ?q = "gp_queue p"
  let ?q' = "take slip ?q @ t # drop slip ?q"
  let ?p' = "p\<lparr>gp_queue := ?q'\<rparr>"
  have a: "\<exists>eff. add_track None False g upd (int slip) t p = Some (t, ?p', eff)"
    using assms by (simp add: add_track_def queue_insert_def insert_at_def Let_def)
  have h: "hd (play_order ?p') = ?q' ! ?s" using assms by (simp add: play_order_def)
  have "?q' ! ?s = (if slip = ?s then t else ?q ! (?s - 1))"
    using assms by (auto simp: nth_append nth_Cons')
  moreover have "play_order ?p' ! Suc ?s = ?q' ! Suc ?s"
    using assms by (simp add: play_order_def nth_append)
  moreover have "?q' ! Suc ?s = ?q ! ?s" using assms by (simp add: nth_append Suc_diff_le)
  moreover have "hd (play_order p) = ?q ! ?s" using assms by (simp add: play_order_def)
  ultimately show ?thesis using a h by auto
qed

theorem add_track_slip_misplaces_witness:
  "\<exists>p' eff. add_track None False 7 True (int 2) (trk 4) (player3\<lparr>gp_shifted_track := 2\<rparr>) = Some (trk 4, p', eff)
    \<and> hd (play_order p') = (if 2 = gp_shifted_track (player3\<lparr>gp_shifted_track := 2\<rparr>) then trk 4
        else gp_queue (player3\<lparr>gp_shifted_track := 2\<rparr>) ! (gp_shifted_track (player3\<lparr>gp_shifted_track := 2\<rparr>) - 1))
    \<and> play_order p' ! Suc (gp_shifted_track (player3\<lparr>gp_shifted_track := 2\<rparr>))
      = hd (play_order (player3\<lparr>gp_shifted_track := 2\<rparr>))"
  by (rule add_track_slip_misplaces) (simp_all add: player3_def trk_def)

lemma find_band_none:
  assumes "band_range vol"
  shows "search_value ('',volume='' @ band_val vol) (band_label j) = None"
proof -
  have "CHR ''b'' \<notin> set (band_val vol)" by (rule value_chars_free [OF band_val_chars [OF assms]]) auto
  then have "find_sub (band_label j) ('',volume='' @ band_val vol) = None"
    by (intro find_sub_none [of "CHR ''b''"] band_label_free) auto
  then show ?thesis by (simp add: search_value_def str_find_def)
qed

lemma af_args_only_volume:
  assumes "band_range vol"
  shows "af_args_to_equalizer_fx_t ('',volume='' @ band_val vol)
    = Inr (create_equalizer_fx_t\<lparr>eq_volume := drift vol\<rparr>)"
proof -
  have "af_args_loop ('',volume='' @ band_val vol) (map band_label js) idx r = Inr r" for js idx r
    by (induction js arbitrary: idx r) (simp_all only: list.map af_args_loop.simps find_band_none [OF assms] option.case)
  moreover have "search_value ('',volume='' @ band_val vol) ''volume='' = Some (Inr (drift vol))"
    using search_volume [of "[]" vol] assms by simp
  ultimately show ?thesis
    unfolding af_args_to_equalizer_fx_t_def searches_eq
    by (simp only: af_args_loop.simps option.case bind_result.simps) simp
qed

text \<open>Saving the filter settings and loading them into a player restores tempo, pitch,
  sampling rate, vibrato, tremolo and earwax exactly; the volume and the bands come back up to the
  loss of one percent of the text form. A player without an equalizer does not come back without
  one: all eighteen bands are then active at half gain.\<close>

theorem fx_states_roundtrip:
  assumes "1 \<le> gp_volume p" "gp_volume p \<le> 200"
    and "gp_equalizer p = [] \<or> (length bands = 18 \<and> (\<forall>b \<in> set bands. 1 \<le> b \<and> b \<le> 200)
      \<and> gp_equalizer p = equalizer_fx_t_to_af_args \<lparr>eq_volume = 100, eq_bands = bands\<rparr> False)"
    and "\<forall>i \<in> {gp_pitch p, gp_vibrato_d p, gp_tremolo_d p, gp_sampling_rate p}. - (2 ^ 31) \<le> i \<and> i < 2 ^ 31"
  shows "load_fx_states (fx_states_to_json p) p0 = Inr (0, p0\<lparr>
      gp_tempo := gp_tempo p, gp_pitch := gp_pitch p, gp_volume := drift (gp_volume p),
      gp_equalizer := equalizer_fx_t_to_af_args
        \<lparr>eq_volume = 100, eq_bands = (if gp_equalizer p = [] then replicate 18 50 else map drift bands)\<rparr> False,
      gp_sampling_rate := gp_sampling_rate p, gp_vibrato_f := gp_vibrato_f p,
      gp_vibrato_d := gp_vibrato_d p, gp_tremolo_f := gp_tremolo_f p,
      gp_tremolo_d := gp_tremolo_d p, gp_earwax := gp_earwax p\<rparr>)"
proof -
  let ?v = "gp_volume p"
  have br: "band_range ?v" using assms(1,2) by (simp add: band_range_def)
  have dv: "wrap32 (drift ?v) = drift ?v" using assms(1,2) by (intro wrap32_id) (auto simp: drift_def)
  have w: "wrap32 (gp_pitch p) = gp_pitch p" "wrap32 (gp_vibrato_d p) = gp_vibrato_d p"
      "wrap32 (gp_tremolo_d p) = gp_tremolo_d p" "wrap32 (gp_sampling_rate p) = gp_sampling_rate p"
      "signed_take_bit 63 (gp_sampling_rate p) = gp_sampling_rate p"
    using assms(4) by (auto intro!: wrap32_id signed_take_bit_int_eq_self)
  have vs: "'',volume='' @ fl_str (fl_div_int 24 (fl_of_int 24 ?v) 100) = '',volume='' @ band_val ?v"
    by (simp add: band_to_str_def percent_to_dec_base_def)
  have eq: "\<exists>e. af_args_to_equalizer_fx_t (gp_equalizer p @ '',volume='' @ band_val ?v) = Inr e
      \<and> eq_volume e = drift ?v
      \<and> eq_bands e = (if gp_equalizer p = [] then replicate 18 50 else map drift bands)"
  proof (cases "gp_equalizer p = []")
    case True
    then show ?thesis using af_args_only_volume [OF br] by (simp add: create_equalizer_fx_t_def)
  next
    case False
    then have b: "length bands = 18" "\<forall>b \<in> set bands. 1 \<le> b \<and> b \<le> 200"
        "gp_equalizer p = equalizer_fx_t_to_af_args \<lparr>eq_volume = 100, eq_bands = bands\<rparr> False"
      using assms(3) by auto
    have "gp_equalizer p @ '',volume='' @ band_val ?v
        = equalizer_fx_t_to_af_args \<lparr>eq_volume = ?v, eq_bands = bands\<rparr> True"
      by (simp add: b(3) equalizer_fx_t_to_af_args_def vol_to_str_def band_to_str_def)
    then show ?thesis
      using equalizer_drift [of "\<lparr>eq_volume = ?v, eq_bands = bands\<rparr>"] assms(1,2) b(1,2) False by auto
  qed
  then obtain e where e: "af_args_to_equalizer_fx_t (gp_equalizer p @ '',volume='' @ band_val ?v) = Inr e"
      "eq_volume e = drift ?v" "eq_bands e = (if gp_equalizer p = [] then replicate 18 50 else map drift bands)"
    by blast
  have "equalizer_fx_t_to_af_args e False = equalizer_fx_t_to_af_args
      \<lparr>eq_volume = 100, eq_bands = (if gp_equalizer p = [] then replicate 18 50 else map drift bands)\<rparr> False"
    by (simp add: equalizer_fx_t_to_af_args_def e(3))
  moreover define str where "str = gp_equalizer p @ '',volume='' @ band_val ?v"
  ultimately have le: "load_equalizer (JStr str) q = Inr (q\<lparr>gp_volume := drift ?v, gp_equalizer :=
      equalizer_fx_t_to_af_args
        \<lparr>eq_volume = 100, eq_bands = (if gp_equalizer p = [] then replicate 18 50 else map drift bands)\<rparr> False\<rparr>)"
    for q using e(1) by (simp only: load_equalizer_def get_string.simps bind_result.simps e(2) dv)
  have js: "fx_states_to_json p = JObj [(''tempo'', JFloat (gp_tempo p)), (''pitch'', JInt (gp_pitch p)),
      (''equalizer'', JStr str), (''sampling_rate'', JInt (gp_sampling_rate p)),
      (''vibrato_f'', JFloat (gp_vibrato_f p)), (''vibrato_d'', JInt (gp_vibrato_d p)),
      (''tremolo_f'', JFloat (gp_tremolo_f p)), (''tremolo_d'', JInt (gp_tremolo_d p)),
      (''earwax'', JBool (gp_earwax p))]"
    unfolding fx_states_to_json_def vs str_def by (rule refl)
  show ?thesis
    unfolding load_fx_states_def js by (simp add: load_member_def le w)
qed

theorem fx_states_roundtrip_witness:
  "load_fx_states (fx_states_to_json player3) player3 = Inr (0, player3\<lparr>
      gp_tempo := gp_tempo player3, gp_pitch := gp_pitch player3, gp_volume := drift (gp_volume player3),
      gp_equalizer := equalizer_fx_t_to_af_args
        \<lparr>eq_volume = 100, eq_bands = (if gp_equalizer player3 = [] then replicate 18 50 else map drift [])\<rparr> False,
      gp_sampling_rate := gp_sampling_rate player3, gp_vibrato_f := gp_vibrato_f player3,
      gp_vibrato_d := gp_vibrato_d player3, gp_tremolo_f := gp_tremolo_f player3,
      gp_tremolo_d := gp_tremolo_d player3, gp_earwax := gp_earwax player3\<rparr>)"
  by (rule fx_states_roundtrip) (simp_all add: player3_def guild_player_new_def player_init_def)

end
