(* ===== verification/Discord.thy ===== *)
theory Discord
  imports Prelude Floats
begin

text \<open>
  What the program sees of Discord through the dpp library: its caches of guilds,
  channels and users, the shards and their voice connections. They are the
  parameter \<open>dv\<close>, a record of the answers that the library gives at one moment. On
  it: the voice and permission queries of \<open>src/musicat/musicat.cpp\<close>, and the table
  of connected voice channels that \<open>src/musicat/run.cpp\<close> keeps.
\<close>

section \<open>The caches of the library\<close>

record voicestate =
  vst_user_id :: snowflake
  vst_channel_id :: snowflake
  vst_mute :: bool
  vst_suppressed :: bool

record channel =
  ch_id :: snowflake
  ch_type :: nat

record guild =
  gd_id :: snowflake
  gd_shard_id :: "32 word"
  gd_voice_members :: "snowflake \<rightharpoonup> voicestate"
  gd_members :: "snowflake \<Rightarrow> bool"

record voice_client =
  vc_channel_id :: snowflake
  vc_ready :: bool
  vc_paused :: bool
  vc_playing :: bool
  vc_terminating :: bool
  vc_secs_remaining :: fl

record voiceconn =
  vn_channel_id :: snowflake
  vn_client :: "voice_client option"
  vn_is_active :: bool
  vn_is_ready :: bool

record dpp_view =
  dv_cluster :: bool
  dv_sha_id :: snowflake
  dv_bypass_listener :: bool
  dv_guild :: "snowflake \<rightharpoonup> guild"
  dv_channel :: "snowflake \<rightharpoonup> channel"
  dv_user_is_bot :: "snowflake \<rightharpoonup> bool"
  dv_voice_members :: "snowflake \<Rightarrow> (snowflake \<times> voicestate) list"
  dv_permissions :: "snowflake \<Rightarrow> snowflake \<Rightarrow> snowflake \<Rightarrow> 64 word"
  dv_shard :: "32 word \<Rightarrow> bool"
  dv_voice :: "32 word \<Rightarrow> snowflake \<rightharpoonup> voiceconn"

text \<open>Constants of the library: channel types and permission bits.\<close>

definition CHANNEL_VOICE :: nat where "CHANNEL_VOICE = 2"
definition CHANNEL_STAGE :: nat where "CHANNEL_STAGE = 13"
definition p_view_channel :: "64 word" where "p_view_channel = 0x400"
definition p_send_messages :: "64 word" where "p_send_messages = 0x800"
definition p_embed_links :: "64 word" where "p_embed_links = 0x4000"
definition p_connect :: "64 word" where "p_connect = 0x100000"

definition is_voice_channel :: "nat \<Rightarrow> bool" where
  "is_voice_channel t \<longleftrightarrow> t = CHANNEL_VOICE \<or> t = CHANNEL_STAGE"

section \<open>Queries\<close>

text \<open>The voice channel a user is in, with its members. The outer option is undefined
  behaviour: a voice state whose channel is not cached dereferences a null pointer.\<close>

type_synonym voice_info = "(channel \<times> (snowflake \<times> voicestate) list) option"

definition get_voice :: "dpp_view \<Rightarrow> guild \<Rightarrow> snowflake \<Rightarrow> voice_info option" where
  "get_voice dv g user_id =
    (case gd_voice_members g user_id of
       None \<Rightarrow> Some None
     | Some i \<Rightarrow>
         if vst_channel_id i = 0 then Some None
         else case dv_channel dv (vst_channel_id i) of
           None \<Rightarrow> None
         | Some gc \<Rightarrow> Some (Some (gc, dv_voice_members dv (ch_id gc))))"

definition get_voice_from_gid :: "dpp_view \<Rightarrow> snowflake \<Rightarrow> snowflake \<Rightarrow> voice_info option" where
  "get_voice_from_gid dv guild_id user_id =
    (case dv_guild dv guild_id of None \<Rightarrow> Some None | Some g \<Rightarrow> get_voice dv g user_id)"

fun has_listener_loop :: "dpp_view \<Rightarrow> (snowflake \<times> voicestate) list \<Rightarrow> bool" where
  "has_listener_loop dv [] = False"
| "has_listener_loop dv ((k, r) # rs) =
    (if vst_user_id r = 0 then has_listener_loop dv rs
     else case dv_user_is_bot dv (vst_user_id r) of
       None \<Rightarrow> has_listener_loop dv rs
     | Some is_bot \<Rightarrow> if is_bot then has_listener_loop dv rs else True)"

definition has_listener :: "dpp_view \<Rightarrow> (snowflake \<times> voicestate) list \<Rightarrow> bool" where
  "has_listener dv vstate_map =
    (if dv_bypass_listener dv then True
     else if length vstate_map \<le> 1 then False
     else has_listener_loop dv vstate_map)"

text \<open>The members of the channel of an answer of \<open>get_voice_from_gid\<close>; none without a channel.\<close>

definition members_of :: "voice_info \<Rightarrow> (snowflake \<times> voicestate) list" where
  "members_of v = (case v of None \<Rightarrow> [] | Some (_, ms) \<Rightarrow> ms)"

definition has_permissions ::
  "dpp_view \<Rightarrow> guild option \<Rightarrow> snowflake option \<Rightarrow> channel option \<Rightarrow> 64 word list \<Rightarrow> bool" where
  "has_permissions dv g user c permissions =
    (case (g, user, c) of
       (Some g, Some u, Some c) \<Rightarrow>
         if u = dv_sha_id dv \<and> \<not> gd_members g u then True
         else let p = dv_permissions dv (gd_id g) u (ch_id c)
              in list_all (\<lambda>i. and p i \<noteq> 0) permissions
     | _ \<Rightarrow> False)"

definition has_permissions_from_ids ::
  "dpp_view \<Rightarrow> snowflake \<Rightarrow> snowflake \<Rightarrow> snowflake \<Rightarrow> 64 word list \<Rightarrow> bool" where
  "has_permissions_from_ids dv guild_id user_id channel_id permissions =
    (if guild_id = 0 \<or> user_id = 0 \<or> channel_id = 0 then False
     else if user_id = dv_sha_id dv \<and> dv_user_is_bot dv user_id = None then True
     else has_permissions dv (dv_guild dv guild_id)
       (if dv_user_is_bot dv user_id = None then None else Some user_id)
       (dv_channel dv channel_id) permissions)"

lemma has_listener_loop_iff:
  "has_listener_loop dv rs \<longleftrightarrow>
    (\<exists>(k, r) \<in> set rs. vst_user_id r \<noteq> 0 \<and> dv_user_is_bot dv (vst_user_id r) = Some False)"
  by (induction dv rs rule: has_listener_loop.induct) (auto split: option.splits)

section \<open>Connected voice channels\<close>

type_synonym vcs_setting = "snowflake \<rightharpoonup> channel \<times> voicestate"

definition vcs_setting_handle_connected ::
  "channel option \<Rightarrow> voicestate option \<Rightarrow> vcs_setting \<Rightarrow> int \<times> vcs_setting" where
  "vcs_setting_handle_connected c state m =
    (case (c, state) of
       (Some c, Some st) \<Rightarrow>
         if is_voice_channel (ch_type c) then (0, m(ch_id c \<mapsto> (c, st))) else (- 1, m)
     | _ \<Rightarrow> (- 1, m))"

definition voicestate_default :: voicestate where
  "voicestate_default = \<lparr>vst_user_id = 0, vst_channel_id = 0, vst_mute = False, vst_suppressed = False\<rparr>"

definition vcs_setting_handle_updated ::
  "channel option \<Rightarrow> voicestate option \<Rightarrow> vcs_setting \<Rightarrow> int \<times> vcs_setting" where
  "vcs_setting_handle_updated updated state m =
    (case updated of
       None \<Rightarrow> (- 1, m)
     | Some c \<Rightarrow>
         if \<not> is_voice_channel (ch_type c) then (- 1, m)
         else
           let st = (case state of
                 Some st \<Rightarrow> st
               | None \<Rightarrow> (case m (ch_id c) of Some (_, st) \<Rightarrow> st | None \<Rightarrow> voicestate_default))
           in (0, m(ch_id c \<mapsto> (c, st))))"

definition vcs_setting_handle_disconnected :: "channel option \<Rightarrow> vcs_setting \<Rightarrow> int \<times> vcs_setting" where
  "vcs_setting_handle_disconnected c m =
    (case c of
       None \<Rightarrow> (- 1, m)
     | Some c \<Rightarrow>
         if \<not> is_voice_channel (ch_type c) then (- 1, m)
         else if m (ch_id c) \<noteq> None then (0, m(ch_id c := None)) else (1, m))"

definition vcs_setting_get_cache :: "snowflake \<Rightarrow> vcs_setting \<Rightarrow> (channel \<times> voicestate) option" where
  "vcs_setting_get_cache channel_id m = m channel_id"

section \<open>An example\<close>

text \<open>Guild 1 on shard 2, with the bot (9) and a user (8) in voice channel 3, connected.\<close>

definition sample_client :: voice_client where
  "sample_client = \<lparr>vc_channel_id = 3, vc_ready = True, vc_paused = False, vc_playing = True,
    vc_terminating = False, vc_secs_remaining = fl_zero\<rparr>"

definition sample_conn :: voiceconn where
  "sample_conn = \<lparr>vn_channel_id = 3, vn_client = Some sample_client, vn_is_active = True, vn_is_ready = True\<rparr>"

definition in_channel :: "snowflake \<Rightarrow> snowflake \<Rightarrow> voicestate" where
  "in_channel u c = \<lparr>vst_user_id = u, vst_channel_id = c, vst_mute = False, vst_suppressed = False\<rparr>"

definition sample_guild :: guild where
  "sample_guild = \<lparr>gd_id = 1, gd_shard_id = 2,
    gd_voice_members = [9 \<mapsto> in_channel 9 3, 8 \<mapsto> in_channel 8 3], gd_members = (\<lambda>u. u \<in> {8, 9})\<rparr>"

definition sample_view :: dpp_view where
  "sample_view = \<lparr>dv_cluster = True, dv_sha_id = 9, dv_bypass_listener = False,
    dv_guild = [1 \<mapsto> sample_guild], dv_channel = [3 \<mapsto> \<lparr>ch_id = 3, ch_type = CHANNEL_VOICE\<rparr>],
    dv_user_is_bot = [9 \<mapsto> True, 8 \<mapsto> False],
    dv_voice_members = (\<lambda>c. if c = 3 then [(8, in_channel 8 3), (9, in_channel 9 3)] else []),
    dv_permissions = (\<lambda>g u c. - 1), dv_shard = (\<lambda>s. s = 2),
    dv_voice = (\<lambda>s. if s = 2 then [1 \<mapsto> sample_conn] else Map.empty)\<rparr>"

lemmas sample_defs = sample_view_def sample_guild_def sample_conn_def sample_client_def in_channel_def

lemma sample_voice [simp]:
  "get_voice_from_gid sample_view 1 8
    = Some (Some (\<lparr>ch_id = 3, ch_type = CHANNEL_VOICE\<rparr>, [(8, in_channel 8 3), (9, in_channel 9 3)]))"
  "get_voice_from_gid sample_view 1 9
    = Some (Some (\<lparr>ch_id = 3, ch_type = CHANNEL_VOICE\<rparr>, [(8, in_channel 8 3), (9, in_channel 9 3)]))"
  by (simp_all add: get_voice_from_gid_def get_voice_def sample_defs)

lemma sample_listener [simp]:
  "has_listener sample_view [(8, in_channel 8 3), (9, in_channel 9 3)]"
  by (simp add: has_listener_def sample_defs)

end
