(* ===== verification/Manager.thy ===== *)
theory Manager
  imports Player Discord Interfaces
begin

text \<open>
  The player manager: \<open>src/musicat/player_manager.cpp\<close> and the \<open>manager\<close> namespace of
  \<open>player_manager_util.cpp\<close>. It owns the players of all guilds and four tables about
  voice connections (being connected, being disconnected, waiting for the voice client,
  paused by hand).

  Calls that leave the manager are effects, in the order they are made; deferred jobs are
  the effect \<open>E_timer\<close> with the job and its delay in seconds.
\<close>

section \<open>State\<close>

record resume_timer_t =
  rt_ts :: int
  rt_uid :: snowflake
  rt_svid :: snowflake
  rt_vcid :: snowflake
  rt_svcid :: snowflake
  rt_min_delay :: int

record manager =
  mg_players :: "snowflake \<rightharpoonup> guild_player_t"
  mg_connecting :: "snowflake \<rightharpoonup> snowflake"
  mg_disconnecting :: "snowflake \<rightharpoonup> snowflake"
  mg_waiting_vc_ready :: "snowflake \<rightharpoonup> string"
  mg_manually_paused :: "snowflake list"
  mg_resume_timers :: "resume_timer_t list"
  mg_vcs_setting :: vcs_setting

datatype job =
    J_clear_disconnecting snowflake
  | J_clear_connecting snowflake
  | J_clear_wait_vc_ready snowflake
  | J_vc_ready_timeout snowflake
  | J_voice_ready snowflake "32 word"

datatype effect =
    E_player snowflake player_effect
  | E_timer nat job
  | E_disconnect_voice snowflake
  | E_connect_voice "32 word" snowflake snowflake
  | E_reconnect "32 word" snowflake
  | E_publish_queue snowflake
  | E_publish_play snowflake
  | E_send_leave snowflake
  | E_message snowflake string
  | E_insert_marker snowflake string
  | E_stop_audio snowflake
  | E_marker_worker snowflake string
  | E_db_delete_queue snowflake
  | E_db_update_queue snowflake "MCTrack list"
  | E_set_voice_state snowflake snowflake bool bool
  | E_send_silence snowflake nat
  | E_autoplay string "32 word" snowflake
  | E_play snowflake
  | E_delete_info_embed snowflake
  | E_send_info_embed snowflake bool bool
  | E_redownload snowflake string MCTrack
  | E_send_join snowflake
  | E_stream_unsubscribe snowflake
  | E_reply string
  | E_show_queue "MCTrack list"
  | E_publish_seek snowflake "64 word"
  | E_ws_send int json
  | E_ws_register string
  | E_ws_text string
  | E_ws_close
  | E_voice_connect snowflake

definition manager_init :: manager where
  "manager_init = \<lparr>mg_players = Map.empty, mg_connecting = Map.empty, mg_disconnecting = Map.empty,
    mg_waiting_vc_ready = Map.empty, mg_manually_paused = [], mg_resume_timers = [],
    mg_vcs_setting = Map.empty\<rparr>"

section \<open>Players\<close>

definition get_player :: "snowflake \<Rightarrow> manager \<Rightarrow> guild_player_t option" where
  "get_player guild_id m = mg_players m guild_id"

text \<open>A player is shared: updating it is updating the entry.\<close>

definition put_player :: "snowflake \<Rightarrow> guild_player_t \<Rightarrow> manager \<Rightarrow> manager" where
  "put_player guild_id p m = m\<lparr>mg_players := (mg_players m)(guild_id \<mapsto> p)\<rparr>"

definition create_player :: "dpp_view \<Rightarrow> snowflake \<Rightarrow> manager \<Rightarrow> guild_player_t option \<times> manager" where
  "create_player dv guild_id m =
    (case dv_guild dv guild_id of
       None \<Rightarrow> (None, m)
     | Some g \<Rightarrow>
         (case mg_players m guild_id of
            Some p \<Rightarrow> (Some p, m)
          | None \<Rightarrow> let v = guild_player_new guild_id (gd_shard_id g) in (Some v, put_player guild_id v m)))"

definition delete_player :: "snowflake \<Rightarrow> manager \<Rightarrow> bool \<times> manager" where
  "delete_player guild_id m =
    (case mg_players m guild_id of
       None \<Rightarrow> (False, m)
     | Some _ \<Rightarrow> (True, m\<lparr>mg_players := (mg_players m)(guild_id := None)\<rparr>))"

definition handle_guild_delete :: "snowflake \<Rightarrow> manager \<Rightarrow> manager" where
  "handle_guild_delete guild_id m =
    (if guild_id = 0 then m
     else if mg_players m guild_id = None then m
     else m\<lparr>mg_players := (mg_players m)(guild_id := None)\<rparr>)"

definition get_client :: "dpp_view \<Rightarrow> guild_player_t \<Rightarrow> bool" where
  "get_client dv p \<longleftrightarrow> gp_shard_id p \<noteq> INVALID_SHARD_ID \<and> dv_cluster dv \<and> dv_shard dv (gp_shard_id p)"

definition get_voice_conn :: "dpp_view \<Rightarrow> guild_player_t \<Rightarrow> voiceconn option" where
  "get_voice_conn dv p = (if get_client dv p then dv_voice dv (gp_shard_id p) (gp_guild_id p) else None)"

definition get_voice_client :: "dpp_view \<Rightarrow> guild_player_t \<Rightarrow> voice_client option" where
  "get_voice_client dv p = Option.bind (get_voice_conn dv p) vn_client"

text \<open>\<open>get_queue\<close> puts the playing track first; undefined as \<open>reset_shifted\<close> is.\<close>

definition get_queue :: "snowflake \<Rightarrow> manager \<Rightarrow> (MCTrack list \<times> manager) option" where
  "get_queue guild_id m =
    (case mg_players m guild_id of
       None \<Rightarrow> Some ([], m)
     | Some p \<Rightarrow> map_option (\<lambda>(_, p1). (gp_queue p1, put_player guild_id p1 m)) (reset_shifted p))"

section \<open>Voice connection tables\<close>

definition is_disconnecting :: "snowflake \<Rightarrow> manager \<Rightarrow> bool" where
  "is_disconnecting guild_id m \<longleftrightarrow> mg_disconnecting m guild_id \<noteq> None"

definition is_connecting :: "snowflake \<Rightarrow> manager \<Rightarrow> bool" where
  "is_connecting guild_id m \<longleftrightarrow> mg_connecting m guild_id \<noteq> None"

definition is_waiting_vc_ready :: "snowflake \<Rightarrow> manager \<Rightarrow> bool" where
  "is_waiting_vc_ready guild_id m \<longleftrightarrow> mg_waiting_vc_ready m guild_id \<noteq> None"

definition is_manually_paused :: "snowflake \<Rightarrow> manager \<Rightarrow> bool" where
  "is_manually_paused guild_id m \<longleftrightarrow> guild_id \<in> set (mg_manually_paused m)"

definition guild_voice :: "dpp_view \<Rightarrow> snowflake \<Rightarrow> voiceconn option" where
  "guild_voice dv guild_id =
    (case dv_guild dv guild_id of
       None \<Rightarrow> None
     | Some g \<Rightarrow> if dv_cluster dv \<and> dv_shard dv (gd_shard_id g) then dv_voice dv (gd_shard_id g) guild_id else None)"

definition set_disconnecting :: "dpp_view \<Rightarrow> snowflake \<Rightarrow> snowflake \<Rightarrow> manager \<Rightarrow> manager" where
  "set_disconnecting dv guild_id voice_channel_id m =
    (if guild_voice dv guild_id = None then m
     else m\<lparr>mg_disconnecting := (mg_disconnecting m)(guild_id \<mapsto> voice_channel_id)\<rparr>)"

definition clear_disconnecting :: "snowflake \<Rightarrow> manager \<Rightarrow> manager" where
  "clear_disconnecting guild_id m = m\<lparr>mg_disconnecting := (mg_disconnecting m)(guild_id := None)\<rparr>"

definition set_connecting :: "snowflake \<Rightarrow> snowflake \<Rightarrow> manager \<Rightarrow> manager" where
  "set_connecting guild_id voice_channel_id m =
    m\<lparr>mg_connecting := (mg_connecting m)(guild_id \<mapsto> voice_channel_id)\<rparr>"

definition clear_connecting :: "snowflake \<Rightarrow> manager \<Rightarrow> int \<times> manager" where
  "clear_connecting guild_id m =
    (case mg_connecting m guild_id of
       Some _ \<Rightarrow> (1, m\<lparr>mg_connecting := (mg_connecting m)(guild_id := None)\<rparr>)
     | None \<Rightarrow> (0, m))"

definition set_waiting_vc_ready ::
  "dpp_view \<Rightarrow> snowflake \<Rightarrow> string \<Rightarrow> manager \<Rightarrow> manager \<times> effect list" where
  "set_waiting_vc_ready dv guild_id second m =
    (if (case guild_voice dv guild_id of
           Some v \<Rightarrow> (case vn_client v of Some c \<Rightarrow> vc_ready c | None \<Rightarrow> False)
         | None \<Rightarrow> False)
     then (m, [])
     else (m\<lparr>mg_waiting_vc_ready := (mg_waiting_vc_ready m)(guild_id \<mapsto> second)\<rparr>,
           [E_timer 10 (J_vc_ready_timeout guild_id)]))"

definition clear_wait_vc_ready :: "snowflake \<Rightarrow> manager \<Rightarrow> int \<times> manager" where
  "clear_wait_vc_ready guild_id m =
    (case clear_connecting guild_id m of
       (err, m1) \<Rightarrow>
         (case mg_waiting_vc_ready m1 guild_id of
            Some _ \<Rightarrow> (2, m1\<lparr>mg_waiting_vc_ready := (mg_waiting_vc_ready m1)(guild_id := None)\<rparr>)
          | None \<Rightarrow> (err, m1)))"

definition set_manually_paused :: "snowflake \<Rightarrow> manager \<Rightarrow> manager" where
  "set_manually_paused guild_id m =
    (if guild_id \<in> set (mg_manually_paused m) then m
     else m\<lparr>mg_manually_paused := mg_manually_paused m @ [guild_id]\<rparr>)"

definition clear_manually_paused :: "snowflake \<Rightarrow> manager \<Rightarrow> manager" where
  "clear_manually_paused guild_id m =
    m\<lparr>mg_manually_paused := erase_first (\<lambda>i. i = guild_id) (mg_manually_paused m)\<rparr>"

definition disconnect_voice :: "bool \<Rightarrow> snowflake \<Rightarrow> effect list" where
  "disconnect_voice has_client guild_id = (if has_client then [E_disconnect_voice guild_id] else [])"

text \<open>Whether commands may run; \<open>INVALID_SHARD_ID\<close> is the default shard.\<close>

definition voice_ready :: "snowflake \<Rightarrow> 32 word \<Rightarrow> manager \<Rightarrow> bool" where
  "voice_ready guild_id shard_id m =
    (let re = is_connecting guild_id m in
     if \<not> is_disconnecting guild_id m \<and> \<not> re \<and> \<not> is_waiting_vc_ready guild_id m then True
     else if \<not> re \<or> shard_id = INVALID_SHARD_ID then False
     else True)"

definition set_reconnect ::
  "dpp_view \<Rightarrow> snowflake \<Rightarrow> snowflake \<Rightarrow> snowflake \<Rightarrow> manager \<Rightarrow> int \<times> manager \<times> effect list" where
  "set_reconnect dv guild_id disconnect_channel_id connect_channel_id m =
    (if guild_id = 0 then (- 1, m, [])
     else
       let m1 = (if disconnect_channel_id \<noteq> 0
                 then set_disconnecting dv guild_id disconnect_channel_id m else m)
       in if connect_channel_id \<noteq> 0 then
            (case set_waiting_vc_ready dv guild_id ''0'' (set_connecting guild_id connect_channel_id m1) of
               (m2, eff) \<Rightarrow> (0, m2, eff))
          else (1, m1, []))"

text \<open>\<open>full_reconnect\<close> up to the blocking \<open>reconnect\<close>, which is an effect here and a
  step relation of its own below. The outer option is the undefined behaviour of
  \<open>get_voice_from_gid\<close>.\<close>

definition full_reconnect ::
  "dpp_view \<Rightarrow> 32 word \<Rightarrow> snowflake \<Rightarrow> snowflake \<Rightarrow> snowflake \<Rightarrow> bool \<Rightarrow> manager
    \<Rightarrow> (int \<times> manager \<times> effect list) option" where
  "full_reconnect dv shard_id guild_id disconnect_channel_id connect_channel_id for_listener m =
    (let go = (case set_reconnect dv guild_id disconnect_channel_id connect_channel_id m of
           (status, m1, eff) \<Rightarrow>
             (status, m1, eff @ disconnect_voice True guild_id @ [E_reconnect shard_id guild_id]))
     in if for_listener then
          (case get_voice_from_gid dv guild_id (dv_sha_id dv) of
             None \<Rightarrow> None
           | Some v \<Rightarrow>
               if v = None \<or> \<not> has_listener dv (members_of v) then Some (0, m, []) else Some go)
        else Some go)"

text \<open>The job of \<open>set_vc_ready_timeout\<close>, run when the timer fires.\<close>

definition vc_ready_timeout_job :: "dpp_view \<Rightarrow> snowflake \<Rightarrow> manager \<Rightarrow> manager \<times> effect list" where
  "vc_ready_timeout_job dv guild_id m =
    (if \<not> dv_cluster dv then (m, [])
     else case clear_wait_vc_ready guild_id m of
       (status, m1) \<Rightarrow>
         if status = 0 then (m1, [])
         else
           (case mg_players m1 guild_id of
              None \<Rightarrow> (m1, [])
            | Some p \<Rightarrow>
                if gp_text_channel_id p = 0 then (m1, [])
                else if gp_guild_id p \<noteq> 0
                  \<and> has_permissions_from_ids dv (gp_guild_id p) (dv_sha_id dv) (gp_text_channel_id p)
                      [p_view_channel, p_send_messages]
                then (m1, [E_message (gp_text_channel_id p)
                  ''Seems like the voice server isn't responding, try changing your voice region in the voice channel setting''])
                else (m1, [])))"

text \<open>What is done to heal the voice connection of a guild.\<close>

datatype health = H_nothing | H_connect | H_full_reconnect

definition check_health ::
  "dpp_view \<Rightarrow> snowflake \<Rightarrow> manager \<Rightarrow> (health \<times> manager \<times> effect list) option" where
  "check_health dv guild_id m =
    (case dv_guild dv guild_id of
       None \<Rightarrow> Some (H_nothing, m, [])
     | Some g \<Rightarrow>
         (case guild_voice dv guild_id of
            None \<Rightarrow> Some (H_nothing, m, [])
          | Some v \<Rightarrow>
              if vn_is_active v then Some (H_nothing, m, [])
              else if vn_is_ready v then Some (H_connect, m, [])
              else map_option (\<lambda>(_, m1, eff). (H_full_reconnect, m1, eff))
                (full_reconnect dv (gd_shard_id g) guild_id (vn_channel_id v) (vn_channel_id v) False m)))"

text \<open>The shard on which \<open>reconnect (guild_id)\<close> reconnects.\<close>

definition reconnect_shard :: "dpp_view \<Rightarrow> snowflake \<Rightarrow> manager \<Rightarrow> 32 word option" where
  "reconnect_shard dv guild_id m =
    (let shard_id = (case mg_players m guild_id of Some p \<Rightarrow> gp_shard_id p | None \<Rightarrow> 0)
     in if shard_id = 0 then map_option gd_shard_id (dv_guild dv guild_id) else Some shard_id)"

section \<open>Operations on the queue\<close>

text \<open>\<open>None\<close> is undefined behaviour. Whether the bot is in a cached voice channel is
  asked by \<open>stop\<close> only while audio is processed.\<close>

definition bot_in_voice :: "dpp_view \<Rightarrow> guild_player_t \<Rightarrow> bool option" where
  "bot_in_voice dv p =
    (if gp_processing_audio p
     then map_option (\<lambda>v. v \<noteq> None) (get_voice_from_gid dv (gp_guild_id p) (dv_sha_id dv))
     else Some False)"

definition player_skip_playback ::
  "dpp_view \<Rightarrow> voiceconn option \<Rightarrow> guild_player_t
    \<Rightarrow> ((MCTrack list \<times> int) \<times> guild_player_t \<times> player_effect list) option" where
  "player_skip_playback dv v p =
    (case Option.bind v vn_client of
       None \<Rightarrow> Some (skip_playback False False p)
     | Some _ \<Rightarrow> map_option (\<lambda>b. skip_playback True b p) (bot_in_voice dv p))"

definition stop_stream :: "dpp_view \<Rightarrow> snowflake \<Rightarrow> manager \<Rightarrow> (int \<times> manager) option" where
  "stop_stream dv guild_id m =
    (case get_player guild_id m of
       None \<Rightarrow> Some (- 1, m)
     | Some p \<Rightarrow> map_option (\<lambda>b. (0, put_player guild_id (stop b p) m)) (bot_in_voice dv p))"

definition mgr_pause :: "dpp_view \<Rightarrow> snowflake \<Rightarrow> bool \<Rightarrow> manager \<Rightarrow> bool \<times> manager \<times> effect list" where
  "mgr_pause dv guild_id update_embed m =
    (case get_player guild_id m of
       None \<Rightarrow> (False, m, [])
     | Some p \<Rightarrow>
         (case pause (map_option vc_paused (get_voice_client dv p)) p of
            (a, eff) \<Rightarrow>
              if \<not> a then (a, m, map (E_player guild_id) eff)
              else (a, set_manually_paused guild_id m, map (E_player guild_id) eff
                @ (if update_embed then [E_player guild_id (Update_info_embed guild_id)] else []))))"

definition mgr_unpause :: "bool \<Rightarrow> snowflake \<Rightarrow> bool \<Rightarrow> manager \<Rightarrow> manager \<times> effect list" where
  "mgr_unpause has_voiceclient guild_id update_embed m =
    (clear_manually_paused guild_id m,
     (if has_voiceclient then [E_player guild_id (Pause_audio False), E_publish_play guild_id] else [])
     @ (if update_embed then [E_player guild_id (Update_info_embed guild_id)] else []))"

text \<open>\<open>skip\<close> throws (left) when the user is in no voice channel or in another one.\<close>

definition mgr_skip ::
  "dpp_view \<Rightarrow> voiceconn option \<Rightarrow> snowflake \<Rightarrow> snowflake \<Rightarrow> int \<Rightarrow> bool \<Rightarrow> manager
    \<Rightarrow> ((string \<times> int + MCTrack list \<times> int) \<times> manager \<times> effect list) option" where
  "mgr_skip dv v guild_id user_id amount remove m =
    (case v of
       None \<Rightarrow> Some (Inr ([], - 1), m, [])
     | Some conn \<Rightarrow>
         (case get_player guild_id m of
            None \<Rightarrow> Some (Inr ([], - 1), m, [])
          | Some p0 \<Rightarrow>
              (case reset_shifted p0 of
                 None \<Rightarrow> None
               | Some (_, p) \<Rightarrow>
                   (case get_voice_from_gid dv guild_id user_id of
                      None \<Rightarrow> None
                    | Some None \<Rightarrow>
                        Some (Inl (''You're not in a voice channel'', 1), put_player guild_id p m, [])
                    | Some (Some (c, _)) \<Rightarrow>
                        if ch_id c \<noteq> vn_channel_id conn
                        then Some (Inl (''You're not in my voice channel'', 0), put_player guild_id p m, [])
                        else
                          (case skip_queue amount remove False False p of
                             None \<Rightarrow> None
                           | Some (removed_tracks, p1) \<Rightarrow>
                               (case player_skip_playback dv v p1 of
                                  None \<Rightarrow> None
                                | Some ((_, status), p2, eff) \<Rightarrow>
                                    Some (Inr (removed_tracks, status), put_player guild_id p2 m,
                                      map (E_player guild_id) eff)))))))"

definition mgr_remove_track ::
  "snowflake \<Rightarrow> 64 word \<Rightarrow> 64 word \<Rightarrow> 64 word \<Rightarrow> manager \<Rightarrow> (64 word \<times> manager) option" where
  "mgr_remove_track guild_id pos amount to m =
    (case get_player guild_id m of
       None \<Rightarrow> Some (0, m)
     | Some p \<Rightarrow> map_option (\<lambda>(n, p1). (n, put_player guild_id p1 m)) (remove_track pos amount to p))"

definition mgr_shuffle_queue ::
  "64 word list \<Rightarrow> snowflake \<Rightarrow> bool \<Rightarrow> manager \<Rightarrow> (bool \<times> manager \<times> effect list) option" where
  "mgr_shuffle_queue rs guild_id update_embed m =
    (case get_player guild_id m of
       None \<Rightarrow> Some (False, m, [])
     | Some p \<Rightarrow> map_option (\<lambda>(b, p1, eff). (b, put_player guild_id p1 m, map (E_player guild_id) eff))
         (shuffle rs update_embed p))"

section \<open>Starting to stream\<close>

text \<open>The job of \<open>play\<close>. The outcome of \<open>submit_stream_ctx\<close>
  (\<open>Some e\<close> when it throws \<open>e\<close>) is a parameter.\<close>

definition play_message :: "int \<Rightarrow> string" where
  "play_message e =
    (if e = 2 then ''`[ERROR]` Error while streaming, can't start playback''
     else if e = 1 then ''`[ERROR]` No connection'' else [])"

definition play_job ::
  "dpp_view \<Rightarrow> int option \<Rightarrow> snowflake \<Rightarrow> manager \<Rightarrow> manager \<times> effect list" where
  "play_job dv submit guild_id m =
    (if \<not> dv_cluster dv then (m, [])
     else case get_player guild_id m of
       None \<Rightarrow> (m, [])
     | Some p \<Rightarrow>
         (case get_voice_conn dv p of
            None \<Rightarrow> (m, [])
          | Some conn \<Rightarrow>
              if vn_client conn = None then (m, [])
              else
                (case init_for_stream p of
                   (status, p1) \<Rightarrow>
                     if status \<noteq> 0 then (put_player guild_id p1 m, [])
                     else
                       (case submit of
                          None \<Rightarrow> (put_player guild_id p1 m, [])
                        | Some e \<Rightarrow> (put_player guild_id p1 m,
                            if guild_id \<noteq> 0
                              \<and> (case vn_client conn of Some c \<Rightarrow> vc_channel_id c \<noteq> 0 | None \<Rightarrow> False)
                              \<and> has_permissions_from_ids dv guild_id (dv_sha_id dv) (gp_text_channel_id p)
                                  [p_view_channel, p_send_messages]
                              \<and> play_message e \<noteq> []
                            then [E_message (gp_text_channel_id p) (play_message e)] else [])))))"

section \<open>Resume timers\<close>

text \<open>\<open>player_manager_timer.cpp\<close>: one pending timer per guild, user channel and bot
  channel.\<close>

definition rt_key :: "resume_timer_t \<Rightarrow> snowflake \<times> snowflake \<times> snowflake" where
  "rt_key rt = (rt_svid rt, rt_svcid rt, rt_vcid rt)"

fun is_rt_duplicate :: "resume_timer_t \<Rightarrow> resume_timer_t list \<Rightarrow> bool" where
  "is_rt_duplicate rt [] = False"
| "is_rt_duplicate rt (i # rest) =
    (if rt_svid i \<noteq> rt_svid rt \<or> rt_svcid i \<noteq> rt_svcid rt \<or> rt_vcid i \<noteq> rt_vcid rt
     then is_rt_duplicate rt rest else True)"

definition create_resume_timer ::
  "int \<Rightarrow> snowflake \<Rightarrow> snowflake \<Rightarrow> (snowflake \<times> snowflake) option \<Rightarrow> int \<Rightarrow> manager \<Rightarrow> int \<times> manager" where
  "create_resume_timer now user_id user_voice_channel_id vc min_delay m =
    (case vc of
       None \<Rightarrow> (1, m)
     | Some (server_id, channel_id) \<Rightarrow>
         if is_manually_paused server_id m then (2, m)
         else
           let rt = \<lparr>rt_ts = now, rt_uid = user_id, rt_svid = server_id, rt_vcid = channel_id,
                     rt_svcid = user_voice_channel_id, rt_min_delay = min_delay\<rparr>
           in if is_rt_duplicate rt (mg_resume_timers m) then (2, m)
              else (0, m\<lparr>mg_resume_timers := mg_resume_timers m @ [rt]\<rparr>))"

text \<open>One pass over the timers: the entries kept, and the state.\<close>

fun resume_loop ::
  "dpp_view \<Rightarrow> bool \<Rightarrow> int \<Rightarrow> resume_timer_t list \<Rightarrow> manager
    \<Rightarrow> (resume_timer_t list \<times> manager \<times> effect list) option" where
  "resume_loop dv exiting now [] m = Some ([], m, [])"
| "resume_loop dv exiting now (i # rest) m =
    (if exiting then resume_loop dv exiting now rest m
     else if now - rt_ts i < rt_min_delay i then
       map_option (\<lambda>(kept, m1, eff). (i # kept, m1, eff)) (resume_loop dv exiting now rest m)
     else
       (case get_voice_from_gid dv (rt_svid i) (rt_uid i) of
          None \<Rightarrow> None
        | Some v \<Rightarrow>
            if (case v of None \<Rightarrow> True | Some (c, _) \<Rightarrow> ch_id c \<noteq> rt_svcid i)
            then resume_loop dv exiting now rest m
            else
              (case get_player (rt_svid i) m of
                 None \<Rightarrow> resume_loop dv exiting now rest m
               | Some p \<Rightarrow>
                   (case mgr_unpause (get_voice_client dv p \<noteq> None) (rt_svid i) True m of
                      (m1, eff1) \<Rightarrow>
                        map_option (\<lambda>(kept, m2, eff). (kept, m2, eff1 @ eff))
                          (resume_loop dv exiting now rest m1)))))"

definition check_resume_timers ::
  "dpp_view \<Rightarrow> bool \<Rightarrow> int \<Rightarrow> manager \<Rightarrow> (manager \<times> effect list) option" where
  "check_resume_timers dv running now m =
    map_option (\<lambda>(kept, m1, eff). (m1\<lparr>mg_resume_timers := kept\<rparr>, eff))
      (resume_loop dv (\<not> running) now (mg_resume_timers m) m)"

section \<open>Automatic pause\<close>

fun user_listens :: "dpp_view \<Rightarrow> (snowflake \<times> voicestate) list \<Rightarrow> bool" where
  "user_listens dv [] = False"
| "user_listens dv ((uid, st) # rest) =
    (case dv_user_is_bot dv uid of
       None \<Rightarrow> user_listens dv rest
     | Some is_b \<Rightarrow> if is_b then user_listens dv rest else True)"

definition set_autopause ::
  "dpp_view \<Rightarrow> voiceconn option \<Rightarrow> snowflake \<Rightarrow> bool \<Rightarrow> manager \<Rightarrow> (int \<times> effect list) option" where
  "set_autopause dv v guild_id check_listening_user m =
    (if Option.bind v vn_client = None then Some (1, [])
     else if is_manually_paused guild_id m then Some (- 1, [])
     else
       let pause_audio = (0, [E_player guild_id (Pause_audio True), E_player guild_id (Publish_pause guild_id),
                              E_player guild_id (Update_info_embed guild_id)])
       in if \<not> check_listening_user then Some pause_audio
          else
            (case get_voice_from_gid dv guild_id (dv_sha_id dv) of
               None \<Rightarrow> None
             | Some None \<Rightarrow> Some pause_audio
             | Some (Some (_, ms)) \<Rightarrow> if user_listens dv ms then Some (- 1, []) else Some pause_audio))"

text \<open>Pausing when the bot is muted by the server, resuming when it is unmuted: the old
  state is the table of connected voice channels, the new one the library's cache.\<close>

definition check_autopause ::
  "dpp_view \<Rightarrow> int \<Rightarrow> snowflake \<Rightarrow> snowflake \<Rightarrow> manager \<Rightarrow> (manager \<times> effect list) option" where
  "check_autopause dv now e_guild_id e_voice_channel_id m =
    (let did_manually_paused = is_manually_paused e_guild_id m;
         v = Option.bind (get_player e_guild_id m) (\<lambda>p.
           if get_client dv p then dv_voice dv (gp_shard_id p) e_guild_id else None);
         g = (if get_player e_guild_id m = None then None else dv_guild dv e_guild_id)
     in case v of
          None \<Rightarrow> Some (m, [])
        | Some conn \<Rightarrow>
            (case vn_client conn of
               None \<Rightarrow> Some (m, [])
             | Some vc \<Rightarrow>
                 if did_manually_paused then Some (m, [])
                 else
                   let cached = vcs_setting_get_cache (vn_channel_id conn) (mg_vcs_setting m);
                       vstate = Option.bind g (\<lambda>g. gd_voice_members g (dv_sha_id dv));
                       new_state_muted = (case vstate of Some s \<Rightarrow> vst_mute s | None \<Rightarrow> False);
                       old_state_muted = (case cached of Some (_, s) \<Rightarrow> vst_mute s | None \<Rightarrow> False);
                       is_paused = vc_paused vc
                   in if cached = None then Some (m, [])
                      else if \<not> (is_paused \<or> \<not> new_state_muted \<or> old_state_muted) then
                        map_option (\<lambda>(_, eff). (m, eff)) (set_autopause dv (Some conn) e_guild_id False m)
                      else if \<not> is_paused \<or> new_state_muted \<or> \<not> old_state_muted then Some (m, [])
                      else Some (snd (create_resume_timer now (dv_sha_id dv) e_voice_channel_id
                             (Some (e_guild_id, vc_channel_id vc)) 0 m), [])))"

section \<open>Saved state\<close>

text \<open>The database is a parameter: whether it is connected, and the saved queue or
  configuration with its status. A guild that is not cached dereferences a null player.\<close>

fun load_tracks ::
  "(MCTrack \<Rightarrow> json option) \<Rightarrow> snowflake option \<Rightarrow> MCTrack list \<Rightarrow> guild_player_t \<Rightarrow> guild_player_t option" where
  "load_tracks fetch user [] p = Some p"
| "load_tracks fetch user (t # ts) p =
    (let t1 = (case user of None \<Rightarrow> t | Some u \<Rightarrow> t\<lparr>tr_user_id := u\<rparr>)
     in case add_track (fetch t1) False 0 True 0 t1 p of
          None \<Rightarrow> None
        | Some (_, p1, _) \<Rightarrow> load_tracks fetch user ts p1)"

definition load_guild_current_queue ::
  "dpp_view \<Rightarrow> (MCTrack \<Rightarrow> json option) \<Rightarrow> bool \<Rightarrow> MCTrack list \<times> int \<Rightarrow> snowflake \<Rightarrow> snowflake option
    \<Rightarrow> manager \<Rightarrow> (int \<times> manager \<times> effect list) option" where
  "load_guild_current_queue dv fetch db_ok saved guild_id user_id m =
    (case create_player dv guild_id m of
       (None, m1) \<Rightarrow> None
     | (Some p, m1) \<Rightarrow>
         if gp_saved_queue_loaded p then Some (0, m1, [])
         else if \<not> db_ok then Some (- 1, m1, [])
         else
           let p1 = p\<lparr>gp_saved_queue_loaded := True\<rparr>
           in if snd saved \<noteq> 0 then Some (snd saved, put_player guild_id p1 m1, [])
              else
                (case load_tracks fetch user_id (fst saved) p1 of
                   None \<Rightarrow> None
                 | Some p2 \<Rightarrow> Some (snd saved, put_player guild_id p2 m1,
                     if fst saved \<noteq> [] then [E_publish_queue guild_id] else [])))"

record player_config =
  pc_loop_mode :: loop_mode_t
  pc_autoplay_threshold :: int
  pc_autoplay_state :: bool
  pc_fx_states :: json

text \<open>An exception of \<open>load_fx_states\<close> leaves the function (left); the player it leaves
  behind, with some fields already set, is not modelled.\<close>

definition load_guild_player_config ::
  "dpp_view \<Rightarrow> player_config \<times> int \<Rightarrow> snowflake \<Rightarrow> manager \<Rightarrow> (int \<times> manager) result" where
  "load_guild_player_config dv conf guild_id m =
    (case create_player dv guild_id m of
       (None, m1) \<Rightarrow> Inl Undefined
     | (Some p, m1) \<Rightarrow>
         if gp_saved_config_loaded p then Inr (0, m1)
         else
           let p1 = p\<lparr>gp_saved_config_loaded := True\<rparr>
           in if snd conf \<noteq> 0 then Inr (snd conf, put_player guild_id p1 m1)
              else bind_result
                (load_fx_states (pc_fx_states (fst conf))
                  (p1\<lparr>gp_loop_mode := pc_loop_mode (fst conf),
                      gp_max_history_size := unat (word_of_int (pc_autoplay_threshold (fst conf)) :: 64 word),
                      gp_auto_play := pc_autoplay_state (fst conf)\<rparr>))
                (\<lambda>(_, p2). Inr (snd conf, put_player guild_id p2 m1)))"

text \<open>The id of a stored message is read by the library (\<open>message_id_of\<close>).\<close>

definition m_source_message_deleted :: int where "m_source_message_deleted = 8"

definition get_uint16 :: "json \<Rightarrow> int result" where
  "get_uint16 j = (case j of
     JInt i \<Rightarrow> Inr (i mod 2 ^ 16)
   | JBool b \<Rightarrow> Inr (if b then 1 else 0)
   | JFloat r \<Rightarrow> fl_to_int 0 (2 ^ 16 - 1) r
   | _ \<Rightarrow> Inl Type_error)"

definition set_info_message_as_deleted ::
  "(json \<Rightarrow> snowflake) \<Rightarrow> snowflake \<Rightarrow> snowflake \<Rightarrow> manager \<Rightarrow> (bool \<times> manager) result" where
  "set_info_message_as_deleted message_id_of guild_id message_id m =
    (case get_player guild_id m of
       None \<Rightarrow> Inr (False, m)
     | Some p \<Rightarrow>
         (case get_info_message p of
            None \<Rightarrow> Inr (False, m)
          | Some pim \<Rightarrow>
              if message_id_of pim \<noteq> message_id then Inr (False, m)
              else
                bind_result (get_uint16 (case jfind pim ''flags'' of Some f \<Rightarrow> f | None \<Rightarrow> JNull)) (\<lambda>f.
                bind_result (jset ''flags'' (JInt (and f m_source_message_deleted)) pim) (\<lambda>im.
                Inr (True, put_player guild_id (p\<lparr>gp_info_message := im\<rparr>) m)))))"

definition is_source_message_deleted :: "json \<Rightarrow> bool" where
  "is_source_message_deleted pim \<longleftrightarrow>
    (case jfind pim ''flags'' of Some (JInt f) \<Rightarrow> and f m_source_message_deleted \<noteq> 0 | _ \<Rightarrow> False)"

section \<open>Reconnecting\<close>

text \<open>
  \<open>reconnect (shard_id, guild_id)\<close> blocks twice: until the guild is no longer being
  disconnected, and, after the request to connect, until it is no longer being connected.
  Each thread that executes it has a program counter; the main thread's timers and the
  events of the library run in between. A timer that was set by \<open>run_once\<close> fires at some
  later step.
\<close>

datatype rc_pc = R_start | R_wait_disconnect | R_connect | R_wait_connect | R_done

record rc_sys =
  rc_disconnecting :: "snowflake \<rightharpoonup> snowflake"
  rc_connecting :: "snowflake \<rightharpoonup> snowflake"
  rc_timers :: "job list"
  rc_threads :: "(snowflake \<times> rc_pc) list"
  rc_again_disconnecting :: "snowflake set"
  rc_again_connecting :: "snowflake set"

text \<open>One step of a thread on guild \<open>g\<close>; \<open>has_client\<close> is whether the shard's client is
  there. \<open>None\<close>: the thread waits.\<close>

fun rc_next :: "bool \<Rightarrow> snowflake \<Rightarrow> rc_pc \<Rightarrow> rc_sys \<Rightarrow> (rc_pc \<times> rc_sys) option" where
  "rc_next has_client g R_start s =
    (if rc_disconnecting s g \<noteq> None
     then Some (R_wait_disconnect, s\<lparr>rc_timers := J_clear_disconnecting g # rc_timers s\<rparr>)
     else Some (R_connect, s))"
| "rc_next has_client g R_wait_disconnect s =
    (if rc_disconnecting s g = None then Some (R_connect, s) else None)"
| "rc_next has_client g R_connect s =
    (if rc_connecting s g \<noteq> None \<and> has_client
     then Some (R_wait_connect, s\<lparr>rc_timers := J_clear_connecting g # rc_timers s\<rparr>)
     else Some (R_done, s))"
| "rc_next has_client g R_wait_connect s =
    (if rc_connecting s g = None then Some (R_done, s) else None)"
| "rc_next has_client g R_done s = None"

fun rc_fire :: "job \<Rightarrow> rc_sys \<Rightarrow> rc_sys" where
  "rc_fire (J_clear_disconnecting g) s =
    s\<lparr>rc_disconnecting := (rc_disconnecting s)(g := None), rc_again_disconnecting := rc_again_disconnecting s - {g}\<rparr>"
| "rc_fire (J_clear_connecting g) s =
    s\<lparr>rc_connecting := (rc_connecting s)(g := None), rc_again_connecting := rc_again_connecting s - {g}\<rparr>"
| "rc_fire _ s = s"

text \<open>The steps that complete a wait, and those of the rest of the program, which may mark a guild at
  any time. The two last fields are a history: the guilds that were marked while a thread waited on that
  mark, until the mark is cleared.\<close>

inductive rc_progress :: "rc_sys \<Rightarrow> rc_sys \<Rightarrow> bool" where
  thread: "rc_threads s = xs @ (g, pc) # ys \<Longrightarrow> rc_next has_client g pc s = Some (pc', s') \<Longrightarrow>
    rc_progress s (s'\<lparr>rc_threads := xs @ (g, pc') # ys\<rparr>)"
| timer: "rc_timers s = xs @ j # ys \<Longrightarrow> rc_progress s (rc_fire j (s\<lparr>rc_timers := xs @ ys\<rparr>))"

inductive rc_step :: "rc_sys \<Rightarrow> rc_sys \<Rightarrow> bool" where
  progress: "rc_progress s s' \<Longrightarrow> rc_step s s'"
| call: "rc_step s (s\<lparr>rc_threads := (g, R_start) # rc_threads s\<rparr>)"
| disconnected: "rc_step s (s\<lparr>rc_disconnecting := (rc_disconnecting s)(g := None),
    rc_again_disconnecting := rc_again_disconnecting s - {g}\<rparr>)"
| connected: "rc_step s (s\<lparr>rc_connecting := (rc_connecting s)(g := None),
    rc_again_connecting := rc_again_connecting s - {g}\<rparr>)"
| set_disconnecting: "rc_step s (s\<lparr>rc_disconnecting := (rc_disconnecting s)(g \<mapsto> c),
    rc_again_disconnecting := rc_again_disconnecting s \<union> (if (g, R_wait_disconnect) \<in> set (rc_threads s) then {g} else {})\<rparr>)"
| set_connecting: "rc_step s (s\<lparr>rc_connecting := (rc_connecting s)(g \<mapsto> c),
    rc_again_connecting := rc_again_connecting s \<union> (if (g, R_wait_connect) \<in> set (rc_threads s) then {g} else {})\<rparr>)"

definition rc_init :: rc_sys where
  "rc_init = \<lparr>rc_disconnecting = Map.empty, rc_connecting = Map.empty, rc_timers = [], rc_threads = [],
    rc_again_disconnecting = {}, rc_again_connecting = {}\<rparr>"

text \<open>Whoever waits has a timer that will end the wait, or the mark was set again meanwhile.\<close>

definition rc_ok :: "rc_sys \<Rightarrow> bool" where
  "rc_ok s \<longleftrightarrow>
    (\<forall>g. (g, R_wait_disconnect) \<in> set (rc_threads s) \<and> rc_disconnecting s g \<noteq> None
      \<longrightarrow> J_clear_disconnecting g \<in> set (rc_timers s) \<or> g \<in> rc_again_disconnecting s)
    \<and> (\<forall>g. (g, R_wait_connect) \<in> set (rc_threads s) \<and> rc_connecting s g \<noteq> None
      \<longrightarrow> J_clear_connecting g \<in> set (rc_timers s) \<or> g \<in> rc_again_connecting s)"

lemma rc_next_frame:
  "rc_next hc g pc s = Some (pc', s') \<Longrightarrow> rc_threads s' = rc_threads s
    \<and> rc_disconnecting s' = rc_disconnecting s \<and> rc_connecting s' = rc_connecting s
    \<and> rc_again_disconnecting s' = rc_again_disconnecting s \<and> rc_again_connecting s' = rc_again_connecting s
    \<and> set (rc_timers s) \<subseteq> set (rc_timers s')"
  by (cases pc) (auto split: if_splits)

lemma rc_next_waits:
  "rc_next hc g pc s = Some (pc', s') \<Longrightarrow>
    (pc' = R_wait_disconnect \<longrightarrow> J_clear_disconnecting g \<in> set (rc_timers s'))
    \<and> (pc' = R_wait_connect \<longrightarrow> J_clear_connecting g \<in> set (rc_timers s'))"
  by (cases pc) (auto split: if_splits)

lemma rc_fire_frame: "rc_threads (rc_fire j s) = rc_threads s" "rc_timers (rc_fire j s) = rc_timers s"
  by (cases j; simp)+

lemma rc_thread_ok:
  assumes "rc_ok s" and "rc_threads s = xs @ (g, pc) # ys" and "rc_next hc g pc s = Some (pc', s')"
  shows "rc_ok (s'\<lparr>rc_threads := xs @ (g, pc') # ys\<rparr>)"
  using assms(1,2) rc_next_frame [OF assms(3)] rc_next_waits [OF assms(3)] unfolding rc_ok_def by auto

lemma rc_timer_ok:
  assumes "rc_ok s" and "rc_timers s = xs @ j # ys"
  shows "rc_ok (rc_fire j (s\<lparr>rc_timers := xs @ ys\<rparr>))"
  using assms unfolding rc_ok_def rc_fire_frame by (cases j) auto

lemma rc_progress_ok: "rc_progress s s' \<Longrightarrow> rc_ok s \<Longrightarrow> rc_ok s'"
  by (induction rule: rc_progress.induct) (auto intro: rc_thread_ok rc_timer_ok)

lemma rc_step_ok: "rc_step s s' \<Longrightarrow> rc_ok s \<Longrightarrow> rc_ok s'"
proof (induction rule: rc_step.induct)
  case (progress s s')
  then show ?case using rc_progress_ok by blast
qed (simp_all add: rc_ok_def)

lemma rc_reachable_ok: "rc_step\<^sup>*\<^sup>* rc_init s \<Longrightarrow> rc_ok s"
proof (induction rule: rtranclp_induct)
  case base
  show ?case by (simp add: rc_ok_def rc_init_def)
next
  case (step y z)
  then show ?case using rc_step_ok by blast
qed

text \<open>Whether a thread at \<open>pc\<close> can step now or after a timer that is already pending.\<close>

definition rc_can_proceed :: "bool \<Rightarrow> snowflake \<Rightarrow> rc_pc \<Rightarrow> rc_sys \<Rightarrow> bool" where
  "rc_can_proceed hc g pc s =
    (case rc_next hc g pc s of
       Some _ \<Rightarrow> True
     | None \<Rightarrow> list_ex (\<lambda>j. rc_next hc g pc (rc_fire j s) \<noteq> None) (rc_timers s))"

text \<open>A bot that joins channel 7 of guild 5 and waits for the connection.\<close>

definition rc_example :: rc_sys where
  "rc_example = \<lparr>rc_disconnecting = Map.empty, rc_connecting = [5 \<mapsto> 7],
    rc_timers = [J_clear_connecting 5], rc_threads = [(5, R_wait_connect)],
    rc_again_disconnecting = {}, rc_again_connecting = {}\<rparr>"

lemma rc_example_reachable: "rc_step\<^sup>*\<^sup>* rc_init rc_example"
proof -
  define s1 where "s1 = rc_init\<lparr>rc_threads := [(5, R_start)]\<rparr>"
  define s2 where "s2 = s1\<lparr>rc_connecting := [5 \<mapsto> 7]\<rparr>"
  define s3 where "s3 = s2\<lparr>rc_threads := [(5, R_connect)]\<rparr>"
  have 1: "rc_step rc_init s1"
    using rc_step.call [of rc_init 5] by (simp add: s1_def rc_init_def)
  have 2: "rc_step s1 s2"
    using rc_step.set_connecting [of s1 5 7] by (simp add: s1_def s2_def rc_init_def)
  have 3: "rc_step s2 s3"
    using rc_progress.thread [of s2 "[]" 5 R_start "[]" True R_connect s2]
    by (intro rc_step.progress) (simp add: s3_def s2_def s1_def rc_init_def)
  have 4: "rc_step s3 rc_example"
    using rc_progress.thread [of s3 "[]" 5 R_connect "[]" True R_wait_connect
        "s3\<lparr>rc_timers := [J_clear_connecting 5]\<rparr>"]
    by (intro rc_step.progress) (simp add: rc_example_def s3_def s2_def s1_def rc_init_def)
  show ?thesis using 1 2 3 4 by (meson converse_rtranclp_into_rtranclp rtranclp.rtrancl_refl)
qed

text \<open>The race that the timers do not cover: the timer clears the mark, another thread marks the guild
  before the waiting thread has looked, and no timer is left.\<close>

lemma marked_again_is_stuck:
  "\<exists>s. rc_step\<^sup>*\<^sup>* rc_init s \<and> (5, R_wait_connect) \<in> set (rc_threads s) \<and> \<not> rc_can_proceed True 5 R_wait_connect s"
proof -
  define s1 where "s1 = rc_example\<lparr>rc_connecting := Map.empty, rc_timers := []\<rparr>"
  define s2 where "s2 = s1\<lparr>rc_connecting := [5 \<mapsto> 8], rc_again_connecting := {5}\<rparr>"
  have "rc_step rc_example s1"
    using rc_progress.timer [of rc_example "[]" "J_clear_connecting 5" "[]"]
    by (intro rc_step.progress) (simp add: rc_example_def s1_def)
  moreover have "rc_step s1 s2"
    using rc_step.set_connecting [of s1 5 8] by (simp add: s1_def s2_def rc_example_def)
  ultimately have "rc_step\<^sup>*\<^sup>* rc_init s2"
    using rc_example_reachable by (meson rtranclp.rtrancl_into_rtrancl)
  then show ?thesis
    by (intro exI [of _ s2]) (simp add: s2_def s1_def rc_example_def rc_can_proceed_def)
qed

text \<open>C28: A thread that reconnects a guild is left waiting in one case only. In every state the program
  can reach, as long as the thread is not done, it can step, or a timer is pending whose firing
  ends its wait even if the library never reports a connection or a disconnection, or the guild was marked
  again while the thread waited; then, as in the other cases, clearing the mark ends the wait, which
  the library's next report of the guild does.\<close>

theorem reconnect_never_stuck:
  assumes "rc_step\<^sup>*\<^sup>* rc_init s" and "(g, pc) \<in> set (rc_threads s)" and "pc \<noteq> R_done"
  shows "(rc_can_proceed hc g pc s \<or> pc = R_wait_disconnect \<and> g \<in> rc_again_disconnecting s
      \<or> pc = R_wait_connect \<and> g \<in> rc_again_connecting s)
    \<and> rc_next hc g pc (s\<lparr>rc_disconnecting := (rc_disconnecting s)(g := None), rc_connecting := (rc_connecting s)(g := None)\<rparr>) \<noteq> None"
proof -
  have "rc_ok s" using assms(1) by (rule rc_reachable_ok)
  then have w: "(pc = R_wait_disconnect \<and> rc_disconnecting s g \<noteq> None
      \<longrightarrow> J_clear_disconnecting g \<in> set (rc_timers s) \<or> g \<in> rc_again_disconnecting s)
    \<and> (pc = R_wait_connect \<and> rc_connecting s g \<noteq> None
      \<longrightarrow> J_clear_connecting g \<in> set (rc_timers s) \<or> g \<in> rc_again_connecting s)"
    using assms(2) unfolding rc_ok_def by auto
  have "rc_can_proceed hc g pc s \<or> pc = R_wait_disconnect \<and> g \<in> rc_again_disconnecting s
      \<or> pc = R_wait_connect \<and> g \<in> rc_again_connecting s"
  proof (cases pc)
    case R_wait_disconnect
    then show ?thesis using w unfolding rc_can_proceed_def list_ex_iff
      by (cases "rc_disconnecting s g") (auto intro!: bexI [of _ "J_clear_disconnecting g"])
  next
    case R_wait_connect
    then show ?thesis using w unfolding rc_can_proceed_def list_ex_iff
      by (cases "rc_connecting s g") (auto intro!: bexI [of _ "J_clear_connecting g"])
  qed (use assms(3) in \<open>auto simp: rc_can_proceed_def\<close>)
  moreover have "rc_next hc g pc (s\<lparr>rc_disconnecting := (rc_disconnecting s)(g := None), rc_connecting := (rc_connecting s)(g := None)\<rparr>) \<noteq> None"
    using assms(3) by (cases pc) simp_all
  ultimately show ?thesis by blast
qed

theorem reconnect_never_stuck_witness:
  "rc_can_proceed True 5 R_wait_connect rc_example \<and> rc_next True 5 R_wait_connect rc_example = None"
proof
  have "(5, R_wait_connect) \<in> set (rc_threads rc_example)" "R_wait_connect \<noteq> R_done" by (simp_all add: rc_example_def)
  note reconnect_never_stuck [OF rc_example_reachable this, of True]
  moreover have "5 \<notin> rc_again_connecting rc_example" by (simp add: rc_example_def)
  ultimately show "rc_can_proceed True 5 R_wait_connect rc_example" by simp
qed (simp add: rc_example_def)

section \<open>Contracts\<close>

interpretation connecting: kv_store "mg_connecting :: manager \<Rightarrow> _" set_connecting "\<lambda>g m. snd (clear_connecting g m)"
  by unfold_locales (auto simp: set_connecting_def clear_connecting_def split: option.splits)

interpretation paused: id_set "\<lambda>m :: manager. distinct (mg_manually_paused m)" "\<lambda>m g. is_manually_paused g m"
  set_manually_paused clear_manually_paused
proof
  fix m :: manager and i j
  assume d: "distinct (mg_manually_paused m)"
  show "is_manually_paused j (set_manually_paused i m) \<longleftrightarrow> j = i \<or> is_manually_paused j m"
    by (auto simp: is_manually_paused_def set_manually_paused_def)
  have "erase_first (\<lambda>x. x = i) (mg_manually_paused m) = erase_if (\<lambda>x. x = i) (mg_manually_paused m)"
    using erase_first_eq_erase_if [of "\<lambda>x. x" _ i] d by simp
  then show "is_manually_paused j (clear_manually_paused i m) \<longleftrightarrow> j \<noteq> i \<and> is_manually_paused j m"
    by (auto simp: is_manually_paused_def clear_manually_paused_def erase_if_def)
  show "distinct (mg_manually_paused (set_manually_paused i m))"
    using d by (simp add: set_manually_paused_def)
  show "distinct (mg_manually_paused (clear_manually_paused i m))"
    using d distinct_erase_first [of "\<lambda>x. x" "mg_manually_paused m"] by (simp add: clear_manually_paused_def)
qed

section \<open>Properties\<close>

lemma is_rt_duplicate_iff: "is_rt_duplicate rt ts \<longleftrightarrow> rt_key rt \<in> rt_key ` set ts"
  by (induction rt ts rule: is_rt_duplicate.induct) (auto simp: rt_key_def)

text \<open>What a timer does when it is due: whether the user is still in the channel.\<close>

definition rt_stays :: "dpp_view \<Rightarrow> resume_timer_t \<Rightarrow> bool" where
  "rt_stays dv i \<longleftrightarrow> (\<exists>c ms. get_voice_from_gid dv (rt_svid i) (rt_uid i) = Some (Some (c, ms)) \<and> ch_id c = rt_svcid i)"

definition rt_due :: "int \<Rightarrow> resume_timer_t \<Rightarrow> bool" where
  "rt_due now i \<longleftrightarrow> rt_min_delay i \<le> now - rt_ts i"

lemma mgr_unpause_frame:
  "mgr_unpause b g u m = (m1, eff) \<Longrightarrow> mg_players m1 = mg_players m
    \<and> mg_manually_paused m1 = erase_first (\<lambda>i. i = g) (mg_manually_paused m)
    \<and> mg_resume_timers m1 = mg_resume_timers m"
  by (auto simp: mgr_unpause_def clear_manually_paused_def)

lemma resume_loop_kept:
  "resume_loop dv False now ts m = Some (kept, m1, eff) \<Longrightarrow> kept = filter (\<lambda>i. \<not> rt_due now i) ts
    \<and> mg_players m1 = mg_players m"
proof (induction ts arbitrary: m kept m1 eff)
  case (Cons i ts)
  show ?case
  proof (cases "rt_due now i")
    case False
    then show ?thesis using Cons by (auto simp: rt_due_def)
  next
    case True
    then show ?thesis using Cons
      by (auto simp: rt_due_def split: option.splits if_splits prod.splits dest!: mgr_unpause_frame)
  qed
qed simp

lemma resume_loop_paused:
  assumes "resume_loop dv False now ts m = Some (kept, m1, eff)" "distinct (mg_manually_paused m)"
  shows "distinct (mg_manually_paused m1) \<and> (is_manually_paused g m1 \<longleftrightarrow> is_manually_paused g m
    \<and> \<not> (mg_players m g \<noteq> None \<and> (\<exists>i \<in> set ts. rt_svid i = g \<and> rt_due now i \<and> rt_stays dv i)))"
  using assms
proof (induction ts arbitrary: m kept m1 eff)
  case (Cons i ts)
  let ?P = "\<lambda>ts. \<exists>i \<in> set ts. rt_svid i = g \<and> rt_due now i \<and> rt_stays dv i"
  show ?case
  proof (cases "rt_due now i \<and> rt_stays dv i \<and> mg_players m (rt_svid i) \<noteq> None")
    case True
    then obtain c ms p where v: "get_voice_from_gid dv (rt_svid i) (rt_uid i) = Some (Some (c, ms))"
        "ch_id c = rt_svcid i" and p: "mg_players m (rt_svid i) = Some p"
      by (auto simp: rt_stays_def)
    obtain m2 eff2 where u: "mgr_unpause (get_voice_client dv p \<noteq> None) (rt_svid i) True m = (m2, eff2)"
      by fastforce
    then have m2: "m2 = clear_manually_paused (rt_svid i) m" by (auto simp: mgr_unpause_def)
    obtain k e where l: "resume_loop dv False now ts m2 = Some (k, m1, e)"
      using Cons.prems(1) True v p u by (auto simp: rt_due_def get_player_def)
    have d2: "distinct (mg_manually_paused m2)" using paused.ok_unmark Cons.prems(2) m2 by simp
    have pl: "mg_players m2 = mg_players m" by (simp add: m2 clear_manually_paused_def)
    show ?thesis
      using Cons.IH [OF l d2] paused.member_unmark [OF Cons.prems(2), where i = "rt_svid i" and j = g] True pl
      by (auto simp: m2)
  next
    case False
    have "\<exists>k e. resume_loop dv False now ts m = Some (k, m1, e)"
      using Cons.prems(1) False
      by (auto simp: rt_due_def rt_stays_def get_player_def split: option.splits if_splits prod.splits)
    then obtain k e where l: "resume_loop dv False now ts m = Some (k, m1, e)" by blast
    show ?thesis using Cons.IH [OF l Cons.prems(2)] False by auto
  qed
qed simp

text \<open>One pass over the resume timers of a running bot drops exactly the timers that are
  due, and clears the manual pause of exactly the guilds with a player for which a due timer's
  user is still in the channel the timer was made for.\<close>

theorem resume_timers_exact:
  assumes "check_resume_timers dv True now m = Some (m1, eff)" and "distinct (mg_manually_paused m)"
  shows "mg_resume_timers m1 = filter (\<lambda>i. \<not> rt_due now i) (mg_resume_timers m)
    \<and> mg_players m1 = mg_players m
    \<and> (is_manually_paused g m1 \<longleftrightarrow> is_manually_paused g m \<and> \<not> (mg_players m g \<noteq> None
        \<and> (\<exists>i \<in> set (mg_resume_timers m). rt_svid i = g \<and> rt_due now i \<and> rt_stays dv i)))"
proof -
  obtain kept m2 where l: "resume_loop dv False now (mg_resume_timers m) m = Some (kept, m2, eff)"
    and m1: "m1 = m2\<lparr>mg_resume_timers := kept\<rparr>"
    using assms(1) by (auto simp: check_resume_timers_def)
  show ?thesis using resume_loop_kept [OF l] resume_loop_paused [OF l assms(2), of g]
    by (simp add: m1 is_manually_paused_def)
qed

definition rt_example :: manager where
  "rt_example = manager_init\<lparr>mg_players := [1 \<mapsto> guild_player_new 1 2], mg_manually_paused := [1],
    mg_resume_timers := [\<lparr>rt_ts = 10, rt_uid = 8, rt_svid = 1, rt_vcid = 3, rt_svcid = 3, rt_min_delay = 5\<rparr>]\<rparr>"

theorem resume_timers_exact_witness:
  "\<exists>m1 eff. check_resume_timers sample_view True 20 rt_example = Some (m1, eff)
    \<and> mg_resume_timers m1 = [] \<and> \<not> is_manually_paused 1 m1"
proof -
  obtain m1 eff where c: "check_resume_timers sample_view True 20 rt_example = Some (m1, eff)"
    by (simp add: check_resume_timers_def rt_example_def manager_init_def get_player_def mgr_unpause_def)
  have r: "rt_stays sample_view i" if "i \<in> set (mg_resume_timers rt_example)" for i
    using that by (auto simp: rt_stays_def rt_example_def)
  show ?thesis using resume_timers_exact [OF c, of 1] c r
    by (auto simp: rt_example_def manager_init_def rt_due_def)
qed

text \<open>Marking the info message as deleted marks nothing. The flag is combined with
  \<open>and\<close> instead of \<open>or\<close>: after a successful call the message counts as deleted exactly
  when it did before.\<close>

theorem deleted_flag_lost:
  assumes "set_info_message_as_deleted idf g mid m = Inr (True, m')"
    and "mg_players m g = Some p" and "jfind (gp_info_message p) ''flags'' = Some (JInt i)"
  shows "\<exists>p'. mg_players m' g = Some p' \<and>
    (is_source_message_deleted (gp_info_message p') \<longleftrightarrow> is_source_message_deleted (gp_info_message p))"
proof -
  obtain im where im: "jset ''flags'' (JInt (and (i mod 2 ^ 16) m_source_message_deleted)) (gp_info_message p) = Inr im"
    and m': "m' = put_player g (p\<lparr>gp_info_message := im\<rparr>) m"
    using assms
    by (auto simp: set_info_message_as_deleted_def get_player_def get_info_message_def get_uint16_def
        bind_result_Inr_iff split: option.splits if_splits)
  have b8: "bit (8::int) n \<longleftrightarrow> n = 3" for n
    using bit_exp_iff [of 3 n, where 'a = int] by auto
  have "and (and (take_bit 16 i) 8) 8 = and i (8::int)"
    by (rule bit_eqI) (auto simp: bit_and_iff bit_take_bit_iff b8)
  then have "and (and (i mod 2 ^ 16) 8) 8 = and i (8::int)"
    by (simp only: take_bit_eq_mod)
  then show ?thesis using assms(3) jfind_jset [OF im, of "''flags''"]
    by (simp add: m' put_player_def is_source_message_deleted_def m_source_message_deleted_def)
qed

definition info_example :: manager where
  "info_example = manager_init\<lparr>mg_players :=
    [1 \<mapsto> (guild_player_new 1 2)\<lparr>gp_info_message := JObj [(''id'', JStr ''4''), (''flags'', JInt 0)]\<rparr>]\<rparr>"

theorem deleted_flag_lost_witness:
  "\<exists>m' p'. set_info_message_as_deleted (\<lambda>j. 4) 1 4 info_example = Inr (True, m')
    \<and> mg_players m' 1 = Some p' \<and> \<not> is_source_message_deleted (gp_info_message p')"
proof -
  obtain m' where c: "set_info_message_as_deleted (\<lambda>j. 4) 1 4 info_example = Inr (True, m')"
    by (simp add: set_info_message_as_deleted_def info_example_def get_player_def get_info_message_def
        get_uint16_def)
  have p: "mg_players info_example 1 =
      Some ((guild_player_new 1 2)\<lparr>gp_info_message := JObj [(''id'', JStr ''4''), (''flags'', JInt 0)]\<rparr>)"
    by (simp add: info_example_def)
  show ?thesis using deleted_flag_lost [OF c p, of 0] c by (auto simp: is_source_message_deleted_def)
qed

end
