(* ===== verification/Seek.thy ===== *)
theory Seek
  imports Manager Util
begin

text \<open>
  Seeking: \<open>src/musicat/cmds/seek.cpp\<close>, with the progress of a track of
  \<open>player_manager_util.cpp\<close>. A position is a string \<open>[[hour:]minute:]second[.ms]\<close> of at
  most 14 characters; \<open>parse_arg_to\<close> reads it in up to four segments. Theorems: exactly
  the strings of that form are accepted, with their values, and the buttons that
  seek by a step of 15 seconds land where they should, through printing and parsing.
\<close>

section \<open>Parsing a position\<close>

definition valid_tokens :: string where
  "valid_tokens = ''0123456789:.''"

definition is_valid_char :: "char \<Rightarrow> bool" where
  "is_valid_char c \<longleftrightarrow> c \<in> set valid_tokens"

record arg_to_t =
  at_hour :: int
  at_minute :: int
  at_second :: int
  at_ms :: int
  at_valid :: bool

definition arg_to_init :: arg_to_t where
  "arg_to_init = \<lparr>at_hour = 0, at_minute = 0, at_second = 0, at_ms = 0, at_valid = False\<rparr>"

text \<open>One segment: its characters, the rest behind its delimiter, and the counts of
  colons and dots; \<open>None\<close> when the string is refused.\<close>

fun scan_seg :: "string \<Rightarrow> nat \<Rightarrow> nat \<Rightarrow> string \<Rightarrow> (string \<times> string \<times> nat \<times> nat) option" where
  "scan_seg [] sc dot temp = Some (temp, [], sc, dot)"
| "scan_seg (c # cs) sc dot temp =
    (if \<not> is_valid_char c then None
     else if c = CHR '':'' then (if dot \<noteq> 0 then None else Some (temp, cs, Suc sc, dot))
     else if c = CHR ''.'' then Some (temp, cs, sc, Suc dot)
     else scan_seg cs sc dot (temp @ [c]))"

text \<open>The loop over at most \<open>k\<close> more segments; it stops at an empty one.\<close>

fun scan_list :: "nat \<Rightarrow> string \<Rightarrow> nat \<Rightarrow> nat \<Rightarrow> string list \<Rightarrow> (string list \<times> nat \<times> nat) option" where
  "scan_list 0 s sc dot l = Some (l, sc, dot)"
| "scan_list (Suc k) s sc dot l =
    (case scan_seg s sc dot [] of
       None \<Rightarrow> None
     | Some (temp, rest, sc1, dot1) \<Rightarrow>
         if temp = [] then Some (l, sc1, dot1) else scan_list k rest sc1 dot1 (l @ [temp]))"

definition list_item :: "string list \<Rightarrow> nat \<Rightarrow> string" where
  "list_item l j = (if j < length l then l ! j else [])"

text \<open>One field: an empty item ends the parse with what was read so far (\<open>Inl\<close>).\<close>

definition read_field ::
  "string list \<Rightarrow> nat \<Rightarrow> (int \<Rightarrow> arg_to_t \<Rightarrow> arg_to_t) \<Rightarrow> arg_to_t \<Rightarrow> (arg_to_t + arg_to_t) result" where
  "read_field l j upd r =
    (if list_item l j = [] then Inr (Inl r)
     else bind_result (stoll (list_item l j)) (\<lambda>v. Inr (Inr (upd v r))))"

fun then_field ::
  "(arg_to_t + arg_to_t) result \<Rightarrow> (arg_to_t \<Rightarrow> (arg_to_t + arg_to_t) result) \<Rightarrow> (arg_to_t + arg_to_t) result" where
  "then_field (Inr (Inr r)) f = f r"
| "then_field x f = x"

definition parse_arg_to :: "string \<Rightarrow> arg_to_t result" where
  "parse_arg_to str =
    (if length str < 1 \<or> length str > 14 then Inr arg_to_init
     else case scan_list 4 str 0 0 [] of
       None \<Rightarrow> Inr arg_to_init
     | Some (l, sc_count, dot_count) \<Rightarrow>
         if \<not> (l \<noteq> [] \<and> sc_count < 3 \<and> dot_count < 2) then Inr arg_to_init
         else
           let subt = (if sc_count = 2 then 0 else if sc_count > 0 then 1 else 2)
           in bind_result
             (then_field
               (then_field
                 (then_field
                   (if sc_count = 2 then read_field l 0 (\<lambda>v r. r\<lparr>at_hour := v\<rparr>) arg_to_init
                    else Inr (Inr arg_to_init))
                   (\<lambda>r. if sc_count > 0 then read_field l (1 - subt) (\<lambda>v r. r\<lparr>at_minute := v\<rparr>) r else Inr (Inr r)))
                 (read_field l (2 - subt) (\<lambda>v r. r\<lparr>at_second := v\<rparr>)))
               (\<lambda>r. if dot_count = 1 then read_field l (3 - subt) (\<lambda>v r. r\<lparr>at_ms := v\<rparr>) r else Inr (Inr r)))
             (\<lambda>r. case r of Inl r1 \<Rightarrow> Inr r1 | Inr r1 \<Rightarrow> Inr (r1\<lparr>at_valid := True\<rparr>)))"

section \<open>Seeking\<close>

definition player_has_current_track :: "guild_player_t option \<Rightarrow> bool" where
  "player_has_current_track p \<longleftrightarrow>
    (case p of None \<Rightarrow> False | Some p \<Rightarrow> tr_raw (gp_current_track p) \<noteq> JNull \<and> gp_queue p \<noteq> [])"

record track_progress =
  tp_current_ms :: int
  tp_duration :: int
  tp_status :: int

definition progress_ms :: "int \<Rightarrow> int" where
  "progress_ms current_byte =
    (if current_byte \<noteq> 0 then fl_trunc (fl_div_int 24 (fl_of_int 24 current_byte) opus_byte_per_ms) else 0)"

definition get_track_progress :: "yt_api \<Rightarrow> MCTrack \<Rightarrow> track_progress result" where
  "get_track_progress yt track =
    bind_result (get_duration yt track) (\<lambda>d.
      Inr \<lparr>tp_current_ms = progress_ms (tr_current_byte track), tp_duration = sint d, tp_status = 0\<rparr>)"

text \<open>The position in milliseconds, in the unsigned arithmetic of the code.\<close>

definition total_ms_of :: "arg_to_t \<Rightarrow> 64 word" where
  "total_ms_of a = word_of_int (at_hour a) * 3600000 + word_of_int (at_minute a) * 60000
    + word_of_int (at_second a) * 1000 + word_of_int (at_ms a)"

definition byte_of_ms :: "64 word \<Rightarrow> int" where
  "byte_of_ms total_ms = sint (word_of_int opus_byte_per_ms * total_ms)"

definition seek_usage :: string where
  "seek_usage = ''Invalid format, seek format should be `[[hour:]minute:]second[.ms]`, Timestamp exceeding duration implies skip.''
    @ CHR 0x0A # ''Examples:'' @ CHR 0x0A # ''`360` -> second'' @ CHR 0x0A # ''`270.629` -> second.ms''
    @ CHR 0x0A # ''`3:24` -> minute:second'' @ CHR 0x0A # ''`2:15:37.899` -> hour:minute:second.ms''"

definition seek_run :: "snowflake \<Rightarrow> string \<Rightarrow> manager \<Rightarrow> (string \<times> manager \<times> effect list) result" where
  "seek_run guild_id arg_to m =
    bind_result (parse_arg_to arg_to) (\<lambda>parsed.
      if \<not> at_valid parsed then Inr (seek_usage, m, [])
      else if \<not> player_has_current_track (get_player guild_id m) then Inr (''I'm not playing anything'', m, [])
      else case get_player guild_id m of
        None \<Rightarrow> Inl Undefined
      | Some p \<Rightarrow>
          let ms = total_ms_of parsed;
              track = (gp_current_track p)\<lparr>tr_current_byte := byte_of_ms ms, tr_seek_to := arg_to\<rparr>
          in Inr (''Seeking to '' @ arg_to, put_player guild_id (p\<lparr>gp_current_track := track\<rparr>) m,
               [E_publish_seek guild_id ms]))"

definition second_seek_step :: int where
  "second_seek_step = 15 * 1000"

definition get_to_ms_rewind :: "track_progress \<Rightarrow> string \<times> int" where
  "get_to_ms_rewind pr =
    (if tp_current_ms pr < second_seek_step then (''0'', 0)
     else (format_duration (word_of_int (tp_current_ms pr) - word_of_int second_seek_step), 0))"

definition get_to_ms_zero_less_seek_step_err :: "track_progress \<Rightarrow> string \<times> int" where
  "get_to_ms_zero_less_seek_step_err pr =
    (if tp_current_ms pr < second_seek_step then ([], 128) else (''0'', 0))"

definition get_to_ms_forward :: "track_progress \<Rightarrow> string \<times> int" where
  "get_to_ms_forward pr = (format_duration (word_of_int (tp_current_ms pr) + word_of_int second_seek_step), 0)"

text \<open>A button: the status, the state and the effects; the message is not shown.\<close>

definition seek_button_run ::
  "yt_api \<Rightarrow> (track_progress \<Rightarrow> string \<times> int) \<Rightarrow> snowflake \<Rightarrow> manager \<Rightarrow> (int \<times> manager \<times> effect list) result" where
  "seek_button_run yt get_to_ms guild_id m =
    (if \<not> voice_ready guild_id INVALID_SHARD_ID m then Inr (1, m, [])
     else
       let embed = [E_player guild_id (Update_info_embed guild_id)]
       in case get_player guild_id m of
            None \<Rightarrow> Inr (- 2, m, embed)
          | Some p \<Rightarrow>
              if \<not> gp_processing_audio p then Inr (- 2, m, embed)
              else bind_result (get_track_progress yt (gp_current_track p)) (\<lambda>prog.
                case get_to_ms prog of (to_ms, status) \<Rightarrow>
                  if status \<noteq> 0 then Inr (status, m, [])
                  else bind_result (seek_run guild_id to_ms m) (\<lambda>(out, m1, eff). Inr (0, m1, eff @ embed))))"

section \<open>The accepted format\<close>

definition digit_run :: "string \<Rightarrow> bool" where
  "digit_run d \<longleftrightarrow> d \<noteq> [] \<and> (\<forall>c \<in> set d. is_digit c)"

fun seek_text :: "string list \<Rightarrow> string option \<Rightarrow> string" where
  "seek_text [] f = (case f of None \<Rightarrow> [] | Some x \<Rightarrow> CHR ''.'' # x)"
| "seek_text [d] f = d @ (case f of None \<Rightarrow> [] | Some x \<Rightarrow> CHR ''.'' # x)"
| "seek_text (d # e # ds) f = d @ CHR '':'' # seek_text (e # ds) f"

lemma digit_valid: "is_digit c \<Longrightarrow> is_valid_char c \<and> c \<noteq> CHR '':'' \<and> c \<noteq> CHR ''.''"
proof -
  assume d: "is_digit c"
  have u: "[48..<58] = map ord ''0123456789''" by code_simp
  have "ord c \<in> set [48..<58]" using d unfolding set_upt atLeastLessThan_iff is_digit_def by linarith
  then have "ord c \<in> ord ` set ''0123456789''" unfolding u list.set_map .
  then have "c \<in> set ''0123456789''" by (rule imageE) (simp only: ord_inject)
  moreover have "ord (CHR '':'') = 58" "ord (CHR ''.'') = 46" by (simp_all add: ord_def)
  ultimately show ?thesis using d by (auto simp: is_valid_char_def valid_tokens_def is_digit_def)
qed

lemma valid_digit: "is_valid_char c \<Longrightarrow> c = CHR '':'' \<or> c = CHR ''.'' \<or> is_digit c"
  by (auto simp: is_valid_char_def valid_tokens_def is_digit_def ord_def)

lemma scan_seg_digits:
  "\<forall>c \<in> set d. is_digit c \<Longrightarrow> scan_seg (d @ s) sc dot temp = scan_seg s sc dot (temp @ d)"
  by (induction d arbitrary: temp) (auto dest: digit_valid)

lemma delimiters_valid [simp]: "is_valid_char (CHR '':'')" "is_valid_char (CHR ''.'')"
  by (simp_all add: is_valid_char_def valid_tokens_def)

lemma scan_seg_cases:
  "scan_seg s sc dot temp = Some (t, r, sc1, dot1) \<Longrightarrow>
    \<exists>d. t = temp @ d \<and> (\<forall>c \<in> set d. is_digit c)
      \<and> ((s = d \<and> r = [] \<and> sc1 = sc \<and> dot1 = dot)
        \<or> (s = d @ CHR '':'' # r \<and> dot = 0 \<and> sc1 = Suc sc \<and> dot1 = dot)
        \<or> (s = d @ CHR ''.'' # r \<and> sc1 = sc \<and> dot1 = Suc dot))"
proof (induction s sc dot temp rule: scan_seg.induct)
  case (2 c cs sc dot temp)
  show ?case
  proof (cases "c = CHR '':'' \<or> c = CHR ''.''")
    case True
    then show ?thesis using 2(2) by (auto split: if_splits intro: exI [of _ "[]"])
  next
    case False
    then have c: "is_valid_char c" "is_digit c" using 2(2) valid_digit by (auto split: if_splits)
    then obtain d where "t = (temp @ [c]) @ d" "\<forall>c \<in> set d. is_digit c"
      "(cs = d \<and> r = [] \<and> sc1 = sc \<and> dot1 = dot)
        \<or> (cs = d @ CHR '':'' # r \<and> dot = 0 \<and> sc1 = Suc sc \<and> dot1 = dot)
        \<or> (cs = d @ CHR ''.'' # r \<and> sc1 = sc \<and> dot1 = Suc dot)"
      using 2 False by auto
    then show ?thesis using c(2) by (intro exI [of _ "c # d"]) auto
  qed
qed auto

lemma scan_list_Nil: "scan_list k [] sc dot l = Some (l, sc, dot)"
  by (cases k) auto

lemma scan_list_mono:
  "scan_list k s sc dot l = Some (l1, sc1, dot1) \<Longrightarrow> sc \<le> sc1 \<and> dot \<le> dot1"
proof (induction k s sc dot l rule: scan_list.induct)
  case (2 k s sc dot l)
  obtain t r sc2 dot2 where s: "scan_seg s sc dot [] = Some (t, r, sc2, dot2)"
    using 2(2) by (auto split: option.splits)
  have "sc \<le> sc2" "dot \<le> dot2" using scan_seg_cases [OF s] by auto
  then show ?case using 2(1) [OF s refl refl refl] 2(2) s by (cases "t = []") auto
qed auto

text \<open>Behind a dot.\<close>

lemma scan_list_fraction:
  assumes "scan_list (Suc k) s sc (Suc 0) l = Some (l1, sc1, dot1)" and "dot1 < 2"
  shows "sc1 = sc \<and> dot1 = 1 \<and> (l1 = l \<or> (digit_run s \<and> l1 = l @ [s]))"
proof -
  obtain t r sc2 dot2 where s: "scan_seg s sc (Suc 0) [] = Some (t, r, sc2, dot2)"
    using assms(1) by (auto split: option.splits)
  have "dot2 < 2" using assms s scan_list_mono by (fastforce split: if_splits)
  then have "s = t" "r = []" "sc2 = sc" "dot2 = 1" "\<forall>c \<in> set t. is_digit c"
    using scan_seg_cases [OF s] by auto
  then show ?thesis using assms(1) s by (auto simp: scan_list_Nil digit_run_def split: if_splits)
qed

lemma list_item_append: "list_item (l @ [x]) (length l) = x" "list_item l (length l) = []"
  by (simp_all add: list_item_def)

lemma scan_list_sound:
  assumes "scan_list k s (length l) 0 l = Some (l1, sc1, dot1)" and "sc1 < 3" and "dot1 < 2"
    and "k + length l = 4" and "list_item l1 sc1 \<noteq> []" and "dot1 = 1 \<Longrightarrow> list_item l1 (Suc sc1) \<noteq> []"
  shows "\<exists>ds f. ds \<noteq> [] \<and> (\<forall>d \<in> set ds. digit_run d) \<and> pred_option digit_run f
    \<and> s = seek_text ds f \<and> sc1 + 1 = length l + length ds
    \<and> dot1 = (if f = None then 0 else 1) \<and> l1 = l @ ds @ (case f of None \<Rightarrow> [] | Some x \<Rightarrow> [x])"
  using assms
proof (induction k arbitrary: s l)
  case 0
  then show ?case by simp
next
  case (Suc k)
  obtain t r sc2 dot2 where s: "scan_seg s (length l) 0 [] = Some (t, r, sc2, dot2)"
    using Suc.prems(1) by (auto split: option.splits)
  have ge: "length l \<le> sc1" using scan_list_mono [OF Suc.prems(1)] by simp
  have t: "t \<noteq> []"
  proof
    assume "t = []"
    then have "l1 = l" using Suc.prems(1) s by simp
    then show False using Suc.prems(5) ge by (simp add: list_item_def)
  qed
  then have rec: "scan_list k r sc2 dot2 (l @ [t]) = Some (l1, sc1, dot1)" using Suc.prems(1) s by simp
  have d: "digit_run t" using scan_seg_cases [OF s] t by (auto simp: digit_run_def)
  from scan_seg_cases [OF s] consider
      (last) "s = t" "r = []" "sc2 = length l" "dot2 = 0"
    | (colon) "s = t @ CHR '':'' # r" "sc2 = Suc (length l)" "dot2 = 0"
    | (dot) "s = t @ CHR ''.'' # r" "sc2 = length l" "dot2 = Suc 0" by auto
  then show ?case
  proof cases
    case last
    then show ?thesis using rec d by (intro exI [of _ "[t]"] exI [of _ None]) (auto simp: scan_list_Nil)
  next
    case colon
    then obtain ds f where "ds \<noteq> []" "\<forall>d \<in> set ds. digit_run d" "pred_option digit_run f"
      "r = seek_text ds f" "sc1 + 1 = Suc (length l) + length ds" "dot1 = (if f = None then 0 else 1)"
      "l1 = (l @ [t]) @ ds @ (case f of None \<Rightarrow> [] | Some x \<Rightarrow> [x])"
      using Suc.IH [of r "l @ [t]"] rec Suc.prems by auto
    then show ?thesis using colon d
      by (intro exI [of _ "t # ds"] exI [of _ f]) (cases ds, auto)
  next
    case dot
    obtain k1 where k: "k = Suc k1" using Suc.prems(2,4) ge by (cases k) auto
    have "sc1 = length l \<and> dot1 = 1 \<and> (l1 = l @ [t] \<or> (digit_run r \<and> l1 = (l @ [t]) @ [r]))"
      using scan_list_fraction [of k1 r "length l" "l @ [t]"] rec dot Suc.prems(3) unfolding k by blast
    moreover have "l1 \<noteq> l @ [t]" if "sc1 = length l" "dot1 = 1"
      using Suc.prems(6) that by (auto simp: list_item_def)
    ultimately show ?thesis using dot d
      by (intro exI [of _ "[t]"] exI [of _ "Some r"]) auto
  qed
qed


lemma seek_text_not_Nil: "ds \<noteq> [] \<Longrightarrow> \<forall>d \<in> set ds. digit_run d \<Longrightarrow> seek_text ds f \<noteq> []"
  by (induction ds f rule: seek_text.induct) (auto simp: digit_run_def)

lemma scan_seg_run:
  assumes "digit_run d"
  shows "scan_seg d sc dot [] = Some (d, [], sc, dot)"
    and "scan_seg (d @ CHR '':'' # r) sc 0 [] = Some (d, r, Suc sc, 0)"
    and "scan_seg (d @ CHR ''.'' # r) sc dot [] = Some (d, r, sc, Suc dot)"
proof -
  have d: "\<forall>c \<in> set d. is_digit c" using assms by (simp add: digit_run_def)
  show "scan_seg d sc dot [] = Some (d, [], sc, dot)"
    using scan_seg_digits [OF d, of "[]" sc dot "[]"] by simp
  show "scan_seg (d @ CHR '':'' # r) sc 0 [] = Some (d, r, Suc sc, 0)"
    using scan_seg_digits [OF d, of "CHR '':'' # r" sc 0 "[]"] by simp
  show "scan_seg (d @ CHR ''.'' # r) sc dot [] = Some (d, r, sc, Suc dot)"
    using scan_seg_digits [OF d, of "CHR ''.'' # r" sc dot "[]"] by simp
qed

lemma scan_list_complete:
  "ds \<noteq> [] \<Longrightarrow> \<forall>d \<in> set ds. digit_run d \<Longrightarrow> pred_option digit_run f \<Longrightarrow> length ds + (if f = None then 0 else 1) \<le> k \<Longrightarrow>
    scan_list k (seek_text ds f) sc 0 l = Some (l @ ds @ (case f of None \<Rightarrow> [] | Some x \<Rightarrow> [x]),
      sc + length ds - 1, if f = None then 0 else 1)"
proof (induction ds f arbitrary: k sc l rule: seek_text.induct)
  case (2 d f)
  have d: "digit_run d" "d \<noteq> []" using 2 by (auto simp: digit_run_def)
  show ?case
  proof (cases f)
    case None
    then obtain k1 where "k = Suc k1" using 2 by (cases k) auto
    then show ?thesis using d None by (simp add: scan_seg_run scan_list_Nil)
  next
    case (Some x)
    have x: "digit_run x" "x \<noteq> []" using 2 Some by (auto simp: digit_run_def)
    obtain k1 where "k = Suc (Suc k1)" using 2 Some by (cases k; cases "k - 1") auto
    then show ?thesis using d x Some by (simp add: scan_seg_run scan_list_Nil)
  qed
next
  case (3 d e ds f)
  have d: "digit_run d" "d \<noteq> []" using 3 by (auto simp: digit_run_def)
  obtain k1 where k: "k = Suc k1" using 3 by (cases k) auto
  show ?case using 3 d unfolding k by (simp add: scan_seg_run)
qed simp

lemma stoll_run: "digit_run d \<Longrightarrow> length d \<le> 14 \<Longrightarrow> stoll d = Inr (digits_val d)"
proof -
  assume d: "digit_run d" "length d \<le> 14"
  have b: "0 \<le> digits_val d \<and> digits_val d < 10 ^ length d" if "\<forall>c \<in> set d. is_digit c" for d
    using that
  proof (induction d rule: rev_induct)
    case (snoc c d)
    have "digit_val c < 10" using snoc.prems digit_val_less by simp
    then show ?case using snoc by (simp add: digits_val_snoc)
  qed (simp add: digits_val_def)
  have "digits_val d < 10 ^ length d" "0 \<le> digits_val d" using b d(1) by (auto simp: digit_run_def)
  moreover have "(10 :: int) ^ length d \<le> 10 ^ 14" using d(2) by (intro power_increasing) auto
  ultimately have "digits_val d \<le> 2 ^ 63 - 1" "- (2 ^ 63) \<le> digits_val d" by auto
  then show ?thesis
    using parse_dec_digits [of d "[]"] d(1) by (simp add: stoll_def sto_range_def digit_run_def)
qed

text \<open>The value of a position: hour, minute, second (the missing ones are 0) and the number
  behind the dot.\<close>

definition hms_value :: "string list \<Rightarrow> string option \<Rightarrow> arg_to_t" where
  "hms_value ds f =
    (let v = (\<lambda>j. if j < length ds then digits_val (rev ds ! j) else 0)
     in \<lparr>at_hour = v 2, at_minute = v 1, at_second = v 0,
         at_ms = (case f of None \<Rightarrow> 0 | Some x \<Rightarrow> digits_val x), at_valid = True\<rparr>)"

lemma length_seek_text: "d \<in> set ds \<Longrightarrow> length d \<le> length (seek_text ds f)"
  by (induction ds f rule: seek_text.induct) (auto split: option.splits)

lemma length_seek_fraction: "length x \<le> length (seek_text ds (Some x))"
  by (induction ds "Some x" rule: seek_text.induct) auto

lemma parse_seek_text:
  assumes "ds \<noteq> []" and "length ds \<le> 3" and "\<forall>d \<in> set ds. digit_run d" and "pred_option digit_run f"
    and "length (seek_text ds f) \<le> 14"
  shows "parse_arg_to (seek_text ds f) = Inr (hms_value ds f)"
proof -
  have l: "0 < length (seek_text ds f)" using seek_text_not_Nil [OF assms(1,3)] by simp
  have st: "\<forall>d \<in> set ds. stoll d = Inr (digits_val d) \<and> d \<noteq> []"
    using assms(3,5) stoll_run length_seek_text [of _ ds f] by (fastforce simp: digit_run_def)
  have sf: "f = Some x \<Longrightarrow> stoll x = Inr (digits_val x) \<and> x \<noteq> []" for x
    using assms(4,5) stoll_run [of x] length_seek_fraction [of x ds] by (auto simp: digit_run_def)
  have sc: "scan_list 4 (seek_text ds f) 0 0 [] = Some (ds @ (case f of None \<Rightarrow> [] | Some x \<Rightarrow> [x]), length ds - 1, if f = None then 0 else 1)"
    using scan_list_complete [of ds f 4 0 "[]"] assms by auto
  consider s where "ds = [s]" | m s where "ds = [m, s]" | h m s where "ds = [h, m, s]"
    using assms(1,2) by (cases ds; cases "tl ds"; cases "tl (tl ds)") auto
  then show ?thesis
    using l st sf sc assms(5)
    by cases (cases f; simp add: parse_arg_to_def read_field_def list_item_def hms_value_def arg_to_init_def)+
qed


lemma then_field_iff:
  "then_field x f = Inr (Inr r) \<longleftrightarrow> (\<exists>r0. x = Inr (Inr r0) \<and> f r0 = Inr (Inr r))"
  "then_field x f = Inr (Inl r) \<longleftrightarrow> x = Inr (Inl r) \<or> (\<exists>r0. x = Inr (Inr r0) \<and> f r0 = Inr (Inl r))"
  by (cases "(x, f)" rule: then_field.cases; auto)+

lemma read_field_iff:
  "read_field l j upd r = Inr (Inr r1) \<longleftrightarrow> list_item l j \<noteq> [] \<and> (\<exists>v. stoll (list_item l j) = Inr v \<and> r1 = upd v r)"
  "read_field l j upd r = Inr (Inl r1) \<longleftrightarrow> list_item l j = [] \<and> r1 = r"
  by (auto simp: read_field_def bind_result_Inr_iff)

lemma case_field_iff:
  "(case r of Inl r1 \<Rightarrow> Inr r1 | Inr r1 \<Rightarrow> Inr (upd r1)) = Inr a \<longleftrightarrow> r = Inl a \<or> (\<exists>r1. r = Inr r1 \<and> a = upd r1)"
  by (cases r) auto

lemma parse_valid_items:
  assumes "parse_arg_to str = Inr a" and "at_valid a"
  obtains l sc dot where "scan_list 4 str 0 0 [] = Some (l, sc, dot)" and "sc < 3" and "dot < 2"
    and "list_item l sc \<noteq> []" and "dot = 1 \<Longrightarrow> list_item l (Suc sc) \<noteq> []" and "length str \<le> 14"
proof -
  have init: "\<not> at_valid arg_to_init" by (simp add: arg_to_init_def)
  have len: "\<not> (length str < 1 \<or> length str > 14)"
    using assms init by (auto simp: parse_arg_to_def split: if_splits)
  obtain l sc dot where s: "scan_list 4 str 0 0 [] = Some (l, sc, dot)"
    using assms init len by (cases "scan_list 4 str 0 0 []") (auto simp: parse_arg_to_def)
  have c: "l \<noteq> [] \<and> sc < 3 \<and> dot < 2"
    using assms init len s by (auto simp: parse_arg_to_def split: if_splits)
  have "list_item l sc \<noteq> [] \<and> (dot = 1 \<longrightarrow> list_item l (Suc sc) \<noteq> [])"
  proof -
    from c consider "sc = 0" | "sc = 1" | "sc = 2" by linarith
    then show ?thesis
      using assms init len s c
      by cases (auto simp: parse_arg_to_def Let_def numeral_2_eq_2 numeral_3_eq_3 bind_result_Inr_iff
          then_field_iff read_field_iff case_field_iff arg_to_init_def split: if_splits)
  qed
  then show thesis using that s c len by auto
qed

text \<open>C32: The seek command accepts exactly the strings of the documented form: one to three runs
  of digits joined by colons, with an optional dot and run of digits behind, at most 14
  characters in all; and it reads them as hours, minutes, seconds and the number behind the dot.\<close>

theorem seek_format_exact:
  "parse_arg_to str = Inr a \<and> at_valid a \<longleftrightarrow>
    (\<exists>ds f. ds \<noteq> [] \<and> length ds \<le> 3 \<and> list_all digit_run ds \<and> pred_option digit_run f
      \<and> str = seek_text ds f \<and> length str \<le> 14 \<and> a = hms_value ds f)"
proof
  assume v: "parse_arg_to str = Inr a \<and> at_valid a"
  then obtain l sc dot where s: "scan_list 4 str (length ([] :: string list)) 0 [] = Some (l, sc, dot)"
    "sc < 3" "dot < 2" "list_item l sc \<noteq> []" "dot = 1 \<Longrightarrow> list_item l (Suc sc) \<noteq> []" "length str \<le> 14"
    using parse_valid_items by (metis list.size(3))
  obtain ds f where d: "ds \<noteq> []" "\<forall>d \<in> set ds. digit_run d" "pred_option digit_run f" "str = seek_text ds f"
    "sc + 1 = length ds"
    using scan_list_sound [OF s(1-3) _ s(4,5)] by auto
  then have "a = hms_value ds f" using v parse_seek_text [OF d(1) _ d(2,3)] s(2,6) by auto
  then show "\<exists>ds f. ds \<noteq> [] \<and> length ds \<le> 3 \<and> list_all digit_run ds \<and> pred_option digit_run f
      \<and> str = seek_text ds f \<and> length str \<le> 14 \<and> a = hms_value ds f"
    using d s(2,6) by (intro exI [of _ ds] exI [of _ f]) (auto simp: list_all_iff)
next
  assume "\<exists>ds f. ds \<noteq> [] \<and> length ds \<le> 3 \<and> list_all digit_run ds \<and> pred_option digit_run f
      \<and> str = seek_text ds f \<and> length str \<le> 14 \<and> a = hms_value ds f"
  then show "parse_arg_to str = Inr a \<and> at_valid a"
    using parse_seek_text by (auto simp: list_all_iff hms_value_def Let_def)
qed

section \<open>The seek buttons\<close>

lemma pad2_run: "digit_run (pad2 n)" "digits_val (pad2 n) = int n"
proof -
  have z: "is_digit (CHR ''0'')" by (simp add: is_digit_def ord_def)
  show "digit_run (pad2 n)" using nat_str_digits [of n] z by (auto simp: digit_run_def pad2_def Let_def)
  have "digits_val (CHR ''0'' # s) = digits_val s" for s
    by (simp add: digits_val_def digit_val_def ord_def)
  then show "digits_val (pad2 n) = int n" by (simp add: pad2_def Let_def)
qed

lemma length_pad2: "n < 100 \<Longrightarrow> length (pad2 n) = 2" "0 < k \<Longrightarrow> n < 10 ^ k \<Longrightarrow> length (pad2 n) \<le> max 2 k"
proof -
  show "n < 100 \<Longrightarrow> length (pad2 n) = 2"
    using length_nat_str_le [of 2 n] length_nat_str_1 [of n] length_nat_str_ge2 [of n]
    by (cases "n < 10") (auto simp: pad2_def Let_def)
  show "0 < k \<Longrightarrow> n < 10 ^ k \<Longrightarrow> length (pad2 n) \<le> max 2 k"
    using length_nat_str_le [of k n] length_nat_str_1 [of n] by (auto simp: pad2_def Let_def)
qed

text \<open>A printed duration is parsed back, less the part below a second.\<close>

lemma parse_format_duration:
  assumes "unat x < 360000000000000"
  shows "\<exists>a. parse_arg_to (format_duration x) = Inr a \<and> at_valid a
    \<and> total_ms_of a = word_of_int (1000 * (uint x div 1000))"
proof -
  define s where "s = unat x div 1000"
  define h mi se where "h = s div 60 div 60" and "mi = s div 60 mod 60" and "se = s mod 60"
  have b: "mi < 60" "se < 60" "h < 10 ^ 8" using assms by (auto simp: h_def mi_def se_def s_def)
  have eq: "s = h * 3600 + mi * 60 + se"
    using div_mult_mod_eq [of s 60] div_mult_mod_eq [of "s div 60" 60] unfolding h_def mi_def se_def by linarith
  let ?ds = "(if h \<noteq> 0 then [pad2 h] else []) @ [pad2 mi, pad2 se]"
  have f: "format_duration x = seek_text ?ds None"
    using b by (simp add: format_duration_def Let_def s_def [symmetric] h_def [symmetric] mi_def [symmetric] se_def [symmetric])
  have l: "length (seek_text ?ds None) \<le> 14"
    using length_pad2(1) [of mi] length_pad2(1) [of se] length_pad2(2) [of 8 h] b by auto
  have "parse_arg_to (format_duration x) = Inr (hms_value ?ds None)"
    unfolding f using parse_seek_text [OF _ _ _ _ l] pad2_run by auto
  moreover have "total_ms_of (hms_value ?ds None) = word_of_int (1000 * int s)"
    by (simp add: total_ms_of_def hms_value_def Let_def pad2_run eq numeral_2_eq_2 algebra_simps)
  moreover have "int s = uint x div 1000" by (simp add: s_def zdiv_int)
  ultimately show ?thesis by (auto simp: hms_value_def Let_def)
qed


lemma byte_of_ms_small:
  assumes "0 \<le> i" and "i < 2 ^ 50"
  shows "byte_of_ms (word_of_int i) = 192 * i"
proof -
  have "byte_of_ms (word_of_int i) = sint (word_of_int (192 * i) :: 64 word)"
    by (simp add: byte_of_ms_def opus_byte_per_ms_def)
  also have "\<dots> = signed_take_bit 63 (192 * i)" by (simp only: sint_sbintrunc') simp
  finally show ?thesis using assms by (subst (asm) signed_take_bit_int_eq_self) auto
qed


text \<open>A button that asks for a printed position.\<close>

lemma seek_button_lands:
  assumes "get_player g m = Some p" and "gp_processing_audio p" and "tr_raw (gp_current_track p) \<noteq> JNull"
    and "gp_queue p \<noteq> []" and "voice_ready g INVALID_SHARD_ID m"
    and "get_track_progress yt (gp_current_track p) = Inr prog" and "get_to_ms prog = (s, 0)"
    and "parse_arg_to s = Inr a" and "at_valid a"
  shows "\<exists>m1 eff. seek_button_run yt get_to_ms g m = Inr (0, m1, eff)
    \<and> get_player g m1 = Some (p\<lparr>gp_current_track :=
        (gp_current_track p)\<lparr>tr_current_byte := byte_of_ms (total_ms_of a), tr_seek_to := s\<rparr>\<rparr>)"
  using assms
  by (simp add: seek_button_run_def seek_run_def player_has_current_track_def Let_def)
    (simp add: get_player_def put_player_def)

text \<open>The forward and rewind buttons land where they should: on a playing track the position
  becomes the one shown, plus or minus 15 seconds (never below the start), in whole seconds. The
  button prints the position and the seek command parses it again; both together lose only
  the part below a second.\<close>

theorem seek_buttons_land:
  assumes "get_player g m = Some p" and "gp_processing_audio p" and "tr_raw (gp_current_track p) \<noteq> JNull"
    and "gp_queue p \<noteq> []" and "voice_ready g INVALID_SHARD_ID m"
    and "get_duration yt (gp_current_track p) = Inr d"
    and "cur = progress_ms (tr_current_byte (gp_current_track p))" and "0 \<le> cur" and "cur < 300000000000000"
  shows "(\<exists>m1 p1 eff. seek_button_run yt get_to_ms_forward g m = Inr (0, m1, eff) \<and> get_player g m1 = Some p1
      \<and> tr_current_byte (gp_current_track p1) = opus_byte_per_ms * (1000 * ((cur + 15000) div 1000)))
    \<and> (\<exists>m2 p2 eff. seek_button_run yt get_to_ms_rewind g m = Inr (0, m2, eff) \<and> get_player g m2 = Some p2
      \<and> tr_current_byte (gp_current_track p2) = opus_byte_per_ms * (1000 * (max 0 (cur - 15000) div 1000)))"
proof -
  let ?prog = "\<lparr>tp_current_ms = cur, tp_duration = sint d, tp_status = 0\<rparr>"
  have pr: "get_track_progress yt (gp_current_track p) = Inr ?prog" using assms(6,7) by (simp add: get_track_progress_def)
  note land = seek_button_lands [OF assms(1-5) pr]
  have go: "\<exists>m1 p1 eff. seek_button_run yt f g m = Inr (0, m1, eff) \<and> get_player g m1 = Some p1
      \<and> tr_current_byte (gp_current_track p1) = opus_byte_per_ms * (1000 * (i div 1000))"
    if f: "f ?prog = (format_duration (word_of_int i), 0)" and i: "0 \<le> i" "i < 360000000000000" for f i
  proof -
    have u: "uint (word_of_int i :: 64 word) = i" using i by (simp add: uint_word_of_int)
    then have "unat (word_of_int i :: 64 word) < 360000000000000" using i(2) by (simp add: unat_eq_nat_uint)
    then obtain a where a: "parse_arg_to (format_duration (word_of_int i)) = Inr a" "at_valid a"
      "total_ms_of a = word_of_int (1000 * (i div 1000))"
      using parse_format_duration [of "word_of_int i"] u by auto
    have "0 \<le> 1000 * (i div 1000)" "1000 * (i div 1000) < 2 ^ 50" using i by auto
    then have "byte_of_ms (total_ms_of a) = opus_byte_per_ms * (1000 * (i div 1000))"
      unfolding a(3) by (subst byte_of_ms_small) (auto simp: opus_byte_per_ms_def)
    then show ?thesis using land [where get_to_ms = f, OF f a(1,2)] by fastforce
  qed
  have fw: "get_to_ms_forward ?prog = (format_duration (word_of_int (cur + 15000)), 0)"
    by (simp add: get_to_ms_forward_def second_seek_step_def)
  have "\<exists>m2 p2 eff. seek_button_run yt get_to_ms_rewind g m = Inr (0, m2, eff) \<and> get_player g m2 = Some p2
      \<and> tr_current_byte (gp_current_track p2) = opus_byte_per_ms * (1000 * (max 0 (cur - 15000) div 1000))"
  proof (cases "cur < 15000")
    case True
    then have rw: "get_to_ms_rewind ?prog = (''0'', 0)" by (simp add: get_to_ms_rewind_def second_seek_step_def)
    have "parse_arg_to (seek_text [''0''] None) = Inr (hms_value [''0''] None)"
      by (rule parse_seek_text) (auto simp: digit_run_def is_digit_def ord_def)
    then have z: "parse_arg_to ''0'' = Inr (hms_value [''0''] None)" by simp
    have "byte_of_ms (total_ms_of (hms_value [''0''] None)) = 0" by code_simp
    then show ?thesis using land [where get_to_ms = get_to_ms_rewind, OF rw z] True by (force simp: hms_value_def Let_def)
  next
    case False
    then have rw: "get_to_ms_rewind ?prog = (format_duration (word_of_int (cur - 15000)), 0)"
      by (simp add: get_to_ms_rewind_def second_seek_step_def)
    show ?thesis using go [of get_to_ms_rewind, OF rw] False assms(9) by simp
  qed
  then show ?thesis using go [of get_to_ms_forward, OF fw] assms(8,9) by simp
qed


definition seek_player :: guild_player_t where
  "seek_player = (let t = MCTrack_default\<lparr>tr_raw := JBool True, tr_current_byte := 11520000\<rparr>
    in (guild_player_new 1 2)\<lparr>gp_queue := [t], gp_current_track := t, gp_processing_audio := True\<rparr>)"

definition seek_yt :: yt_api where
  "seek_yt = \<lparr>yt_title = (\<lambda>j. []), yt_url = (\<lambda>j. []), yt_id = (\<lambda>j. []), yt_length = (\<lambda>j. []),
    yt_thumbnail = (\<lambda>j. []), yt_snippet = (\<lambda>j. []), yt_channel = (\<lambda>j. []), yt_duration = (\<lambda>j. 180000)\<rparr>"

theorem seek_buttons_land_witness:
  "\<exists>m1 p1 eff m2 p2 eff2.
    seek_button_run seek_yt get_to_ms_forward 1 (put_player 1 seek_player manager_init) = Inr (0, m1, eff)
    \<and> get_player 1 m1 = Some p1 \<and> tr_current_byte (gp_current_track p1) = 192 * 75000
    \<and> seek_button_run seek_yt get_to_ms_rewind 1 (put_player 1 seek_player manager_init) = Inr (0, m2, eff2)
    \<and> get_player 1 m2 = Some p2 \<and> tr_current_byte (gp_current_track p2) = 192 * 45000"
proof -
  have g: "get_player 1 (put_player 1 seek_player manager_init) = Some seek_player"
    by (simp add: get_player_def put_player_def)
  have v: "voice_ready 1 INVALID_SHARD_ID (put_player 1 seek_player manager_init)"
    by (simp add: voice_ready_def is_connecting_def is_disconnecting_def is_waiting_vc_ready_def put_player_def manager_init_def)
  have d: "get_duration seek_yt (gp_current_track seek_player) = Inr 180000" by code_simp
  have c: "60000 = progress_ms (tr_current_byte (gp_current_track seek_player))" by code_simp
  have q: "gp_processing_audio seek_player" "tr_raw (gp_current_track seek_player) \<noteq> JNull" "gp_queue seek_player \<noteq> []"
    by (simp_all add: seek_player_def Let_def)
  show ?thesis
    using seek_buttons_land [OF g q v d c] by (auto simp: opus_byte_per_ms_def)
qed


end
