(* ===== verification/MusicCache.thy ===== *)
theory MusicCache
  imports Player ChildCommand Interfaces
begin

text \<open>
  The music folder, its cache and the downloads: the first half of
  \<open>src/musicat/player_manager_util.cpp\<close> and the fetching of \<open>src/musicat/mctrack.cpp\<close>.
  The file system, the clock and the replies of the worker's children are parameters.
  Sizes are natural numbers: the files of one disk do not overflow a \<open>size_t\<close>.
\<close>

section \<open>The tracks in the music folder\<close>

record dirent =
  de_regular :: bool
  de_name :: string
  de_stat :: "(nat \<times> int) option"

record gat_t =
  gat_name :: string
  gat_fullname :: string
  gat_fullpath :: string
  gat_size :: nat
  gat_last_access :: int

text \<open>\<open>s.find (".opus")\<close> is the first occurrence, which must be the extension.\<close>

definition is_opus_name :: "string \<Rightarrow> bool" where
  "is_opus_name s \<longleftrightarrow> length s > 5 \<and> str_find s ''.opus'' 0 = Some (length s - 5)"

definition gat_of :: "string \<Rightarrow> bool \<Rightarrow> dirent \<Rightarrow> gat_t" where
  "gat_of musicdir with_stat d =
    (let st = (if with_stat then (case de_stat d of Some st \<Rightarrow> st | None \<Rightarrow> (0, 0)) else (0, 0))
     in \<lparr>gat_name = take (length (de_name d) - 5) (de_name d), gat_fullname = de_name d,
         gat_fullpath = musicdir @ de_name d, gat_size = fst st, gat_last_access = snd st\<rparr>)"

text \<open>\<open>room\<close> is how many more tracks are asked for; \<open>None\<close> is no limit.\<close>

fun gat_loop :: "string \<Rightarrow> bool \<Rightarrow> nat option \<Rightarrow> dirent list \<Rightarrow> gat_t list" where
  "gat_loop musicdir with_stat room [] = []"
| "gat_loop musicdir with_stat room (d # ds) =
    (if \<not> de_regular d \<or> \<not> is_opus_name (de_name d) then gat_loop musicdir with_stat room ds
     else gat_of musicdir with_stat d #
       (case room of
          None \<Rightarrow> gat_loop musicdir with_stat None ds
        | Some n \<Rightarrow> if n \<le> 1 then [] else gat_loop musicdir with_stat (Some (n - 1)) ds))"

definition GATCC_ZERO_AMOUNT :: int where "GATCC_ZERO_AMOUNT = 1"
definition GATCC_HAS_STAT :: int where "GATCC_HAS_STAT = 2"

record gat_cache =
  gc_ret :: "gat_t list"
  gc_last_uc :: int
  gc_completeness :: int

definition gatcc_rnot :: "gat_cache \<Rightarrow> int \<Rightarrow> int \<Rightarrow> bool" where
  "gatcc_rnot c rc flag \<longleftrightarrow> and rc flag = flag \<and> and (gc_completeness c) flag \<noteq> flag"

definition gatcc_is_complete :: "gat_cache \<Rightarrow> bool" where
  "gatcc_is_complete c \<longleftrightarrow>
    and (gc_completeness c) (or GATCC_ZERO_AMOUNT GATCC_HAS_STAT) = or GATCC_ZERO_AMOUNT GATCC_HAS_STAT"

definition gatcc_rnot_zero_amount :: "gat_cache \<Rightarrow> int \<Rightarrow> bool" where
  "gatcc_rnot_zero_amount c rc = gatcc_rnot c rc GATCC_ZERO_AMOUNT"

definition gatcc_rnot_has_stat :: "gat_cache \<Rightarrow> int \<Rightarrow> bool" where
  "gatcc_rnot_has_stat c rc = gatcc_rnot c rc GATCC_HAS_STAT"

definition required_completeness :: "nat \<Rightarrow> bool \<Rightarrow> int" where
  "required_completeness amount with_stat =
    or (if amount = 0 then GATCC_ZERO_AMOUNT else 0) (if with_stat then GATCC_HAS_STAT else 0)"

definition invalidate_track_list_cache :: "gat_cache \<Rightarrow> gat_cache" where
  "invalidate_track_list_cache c = c\<lparr>gc_last_uc := 0\<rparr>"

definition get_available_tracks ::
  "string \<Rightarrow> dirent list option \<Rightarrow> int \<Rightarrow> nat \<Rightarrow> bool \<Rightarrow> gat_cache \<Rightarrow> gat_t list \<times> gat_cache" where
  "get_available_tracks musicdir dir cur_t amount with_stat c =
    (let rc = required_completeness amount with_stat in
     if cur_t - gc_last_uc c < 11
       \<and> (gatcc_is_complete c \<or> \<not> gatcc_rnot_zero_amount c rc \<and> \<not> gatcc_rnot_has_stat c rc)
     then (gc_ret c, c)
     else case dir of
       None \<Rightarrow> ([], c)
     | Some ds \<Rightarrow>
         let ret = gat_loop musicdir with_stat (if amount = 0 then None else Some amount) ds
         in (ret, \<lparr>gc_ret = ret, gc_last_uc = cur_t, gc_completeness = rc\<rparr>))"

section \<open>Keeping the folder within its limit\<close>

text \<open>\<open>removable\<close> is which files \<open>unlink\<close> can remove. Files with the same access time may
  come in any order; here they keep that of the folder.\<close>

fun evict_loop :: "(string \<Rightarrow> bool) \<Rightarrow> nat \<Rightarrow> nat \<Rightarrow> gat_t list \<Rightarrow> string list" where
  "evict_loop removable size_limit cur [] = []"
| "evict_loop removable size_limit cur (g # gs) =
    (if cur < size_limit then []
     else if removable (gat_fullpath g)
       then gat_fullpath g # evict_loop removable size_limit (cur - gat_size g) gs
     else evict_loop removable size_limit cur gs)"

definition control_music_cache ::
  "string \<Rightarrow> dirent list option \<Rightarrow> int \<Rightarrow> (string \<Rightarrow> bool) \<Rightarrow> nat \<Rightarrow> gat_cache \<Rightarrow> string list \<times> gat_cache" where
  "control_music_cache musicdir dir cur_t removable size_limit c =
    (if size_limit = 0 then ([], c)
     else case get_available_tracks musicdir dir cur_t 0 True c of
       (ats, c1) \<Rightarrow>
         let cur = sum_list (map gat_size ats)
         in if cur \<le> size_limit then ([], c1)
            else (evict_loop removable size_limit cur (sort_key gat_last_access ats),
                  invalidate_track_list_cache c1))"

section \<open>Failed playbacks\<close>

type_synonym failed_counts = "string \<rightharpoonup> int"

definition get_track_failed_playback_count :: "string \<Rightarrow> failed_counts \<Rightarrow> int" where
  "get_track_failed_playback_count filename m =
    (if filename = [] then - 1 else case m filename of None \<Rightarrow> 0 | Some c \<Rightarrow> c)"

definition set_track_failed_playback_count :: "string \<Rightarrow> int \<Rightarrow> failed_counts \<Rightarrow> int \<times> failed_counts" where
  "set_track_failed_playback_count filename c m =
    (if filename = [] then (- 1, m)
     else if c < 0 then (- 2, m)
     else (0, if c = 0 then m(filename := None) else m(filename \<mapsto> c)))"

record fprt_t =
  fp_ts :: int
  fp_filename :: string

fun is_fprt_duplicate :: "fprt_t \<Rightarrow> fprt_t list \<Rightarrow> bool" where
  "is_fprt_duplicate rt [] = False"
| "is_fprt_duplicate rt (i # rest) =
    (if fp_filename i \<noteq> fp_filename rt then is_fprt_duplicate rt rest else True)"

text \<open>The part of \<open>create_failed_playback_reset_timer\<close> behind its check of the name.\<close>

definition fprt_register :: "fprt_t \<Rightarrow> fprt_t list \<Rightarrow> bool \<times> fprt_t list" where
  "fprt_register rt ts = (if is_fprt_duplicate rt ts then (False, ts) else (True, ts @ [rt]))"

definition create_failed_playback_reset_timer :: "int \<Rightarrow> string \<Rightarrow> fprt_t list \<Rightarrow> int \<times> fprt_t list" where
  "create_failed_playback_reset_timer now filename ts =
    (if filename = [] then (1, ts)
     else case fprt_register \<lparr>fp_ts = now, fp_filename = filename\<rparr> ts of
       (ok, ts1) \<Rightarrow> (if ok then 0 else 2, ts1))"

definition remove_failed_playback_reset_timer :: "string \<Rightarrow> fprt_t list \<Rightarrow> int \<times> fprt_t list" where
  "remove_failed_playback_reset_timer filename ts =
    (if filename = [] then (1, ts) else (0, erase_first (\<lambda>i. fp_filename i = filename) ts))"

text \<open>Ten minutes, in the nanoseconds of the clock.\<close>

definition m10 :: int where
  "m10 = 60 * 10000 * 1000000"

fun fprt_loop :: "bool \<Rightarrow> int \<Rightarrow> fprt_t list \<Rightarrow> failed_counts \<Rightarrow> fprt_t list \<times> failed_counts" where
  "fprt_loop exiting now [] m = ([], m)"
| "fprt_loop exiting now (i # rest) m =
    (if exiting then fprt_loop exiting now rest m
     else if now - fp_ts i < m10 then
       (case fprt_loop exiting now rest m of (ts, m1) \<Rightarrow> (i # ts, m1))
     else fprt_loop exiting now rest (snd (set_track_failed_playback_count (fp_filename i) 0 m)))"

definition check_failed_playback_reset_timers ::
  "bool \<Rightarrow> int \<Rightarrow> fprt_t list \<Rightarrow> failed_counts \<Rightarrow> fprt_t list \<times> failed_counts" where
  "check_failed_playback_reset_timers running now ts m = fprt_loop (\<not> running) now ts m"

section \<open>Fetching with yt-dlp\<close>

text \<open>The child process answers through a FIFO with a command that names a result file.\<close>

datatype fifo_reply = F_open_failed | F_read_error | F_data string

datatype file_content = File_missing | File_malformed | File_json json

record fetch_env =
  fe_base64 :: "string \<Rightarrow> string"
  fe_util_exe :: string
  fe_lib_path :: string
  fe_debug :: bool
  fe_status :: "string \<Rightarrow> int"
  fe_fifo :: "string \<Rightarrow> fifo_reply"
  fe_file :: "string \<Rightarrow> file_content"

definition fetch_query :: "string \<Rightarrow> int \<Rightarrow> bool \<Rightarrow> string" where
  "fetch_query q max_entries is_url =
    (if is_url then q else ''ytsearch'' @ int_str max_entries @ '':'' @ q)"

definition fetch_id :: "fetch_env \<Rightarrow> string \<Rightarrow> string" where
  "fetch_id fe q = max_len (fe_base64 fe q) 40 True"

definition fetch_command :: "fetch_env \<Rightarrow> string \<Rightarrow> int \<Rightarrow> string" where
  "fetch_command fe q max_entries =
    create_arg key_command cmd_call_ytdlp
    @ create_arg_sanitize_value key_id (fetch_id fe q)
    @ create_arg_sanitize_value key_ytdlp_util_exe (fe_util_exe fe)
    @ create_arg_sanitize_value key_ytdlp_lib_path (fe_lib_path fe)
    @ create_arg_sanitize_value key_ytdlp_query q
    @ (if max_entries \<ge> 1 then create_arg key_ytdlp_max_entries (int_str max_entries) else [])"

text \<open>The result, the commands sent to the worker and the files removed. \<open>Inl\<close>: the reply
  holds a number that does not parse. This is the build without \<open>MUSICAT_WITH_PYTHON\<close>: the
  interpreter runs in a child of the worker. The options \<open>USE_YTSEARCH_H\<close> and
  \<open>USE_SEARCH_CACHE\<close> are off in the repository, and the code under them is left out.\<close>

definition do_fetch ::
  "fetch_env \<Rightarrow> string \<Rightarrow> int \<Rightarrow> bool \<Rightarrow> (json \<times> string list \<times> string list) result" where
  "do_fetch fe query max_entries is_url =
    (if query = [] then Inr (JNull, [], [])
     else
       let q = fetch_query query max_entries is_url;
           qid = fetch_id fe q;
           ytdlp_cmd = fetch_command fe q max_entries;
           exit_cmd = get_exit_command qid
       in if fe_status fe qid \<noteq> 0 then Inr (JNull, [ytdlp_cmd], [])
          else case fe_fifo fe qid of
            F_open_failed \<Rightarrow> Inr (JNull, [ytdlp_cmd, exit_cmd], [])
          | F_read_error \<Rightarrow> Inr (JNull, [ytdlp_cmd, exit_cmd], [])
          | F_data buf \<Rightarrow>
              bind_result (parse_command_to_options (c_str buf) (create_command_options, fe_debug fe)) (\<lambda>(opt, _).
                if op_file_path opt = [] then Inr (JNull, [ytdlp_cmd, exit_cmd], [])
                else case fe_file fe (op_file_path opt) of
                  File_missing \<Rightarrow> Inr (JNull, [ytdlp_cmd, exit_cmd], [])
                | File_malformed \<Rightarrow> Inr (JNull, [ytdlp_cmd, exit_cmd], [op_file_path opt])
                | File_json j \<Rightarrow> Inr (j, [ytdlp_cmd, exit_cmd], [])))"

section \<open>Choosing a track\<close>

definition YDLP_DEFAULT_MAX_ENTRIES :: int where
  "YDLP_DEFAULT_MAX_ENTRIES = 20"

text \<open>The first result that is neither in the queue nor in the history.\<close>

fun first_unplayed :: "yt_api \<Rightarrow> MCTrack list \<Rightarrow> string list \<Rightarrow> MCTrack list \<Rightarrow> MCTrack" where
  "first_unplayed yt queue history [] = MCTrack_default"
| "first_unplayed yt queue history (i # rest) =
    (if get_id yt i \<in> get_id yt ` set queue \<or> get_id yt i \<in> set history
     then first_unplayed yt queue history rest else i)"

text \<open>\<open>fetch\<close> is \<open>mctrack::fetch\<close>; the status is 0 for a track, 1 for none that may be
  played, 2 for a failed search and -1 for an empty one.\<close>

definition find_track ::
  "yt_api \<Rightarrow> (string \<Rightarrow> int \<Rightarrow> bool \<Rightarrow> json) \<Rightarrow> guild_player_t option \<Rightarrow> bool \<Rightarrow> string \<Rightarrow> bool
    \<Rightarrow> MCTrack \<times> int" where
  "find_track yt fetch player playlist arg_query no_check_history =
    (let trimmed_query = trim_str arg_query;
         check = (playlist \<and> \<not> no_check_history)
     in if check \<and> (case player of None \<Rightarrow> True | Some p \<Rightarrow> gp_queue p = []) then (MCTrack_default, 1)
        else
          let res = fetch trimmed_query YDLP_DEFAULT_MAX_ENTRIES playlist
          in if res = JNull then (MCTrack_default, 2)
             else case get_playlist_entries res of
               [] \<Rightarrow> (MCTrack_default, - 1)
             | s # found \<Rightarrow>
                 if \<not> check then (s, 0)
                 else case player of
                   None \<Rightarrow> (MCTrack_default, 1)
                 | Some p \<Rightarrow>
                     let result = first_unplayed yt (gp_queue p) (gp_history p) (s # found)
                     in if tr_raw result = JNull then (MCTrack_default, 1) else (result, 0))"

text \<open>\<open>regex_replace\<close> deletes every slash.\<close>

definition get_filename_from_result :: "yt_api \<Rightarrow> MCTrack \<Rightarrow> string" where
  "get_filename_from_result yt result =
    (let sid = get_id yt result; st = get_title yt result
     in if sid = [] then []
        else filter (\<lambda>c. c \<noteq> CHR ''/'') (st @ ''-'' @ sid @ ''.opus''))"

section \<open>Downloads\<close>

record downloads =
  dl_waiting :: "string \<rightharpoonup> snowflake"
  dl_queue :: "(string \<times> string) list"
  dl_running :: int
  dl_tasks :: "(string \<times> string) list"

definition is_waiting_file_download :: "string \<Rightarrow> downloads \<Rightarrow> bool" where
  "is_waiting_file_download fname d \<longleftrightarrow> dl_waiting d fname \<noteq> None"

text \<open>\<open>download\<close> marks the file, then queues it, under two locks.\<close>

definition download_mark :: "string \<Rightarrow> snowflake \<Rightarrow> downloads \<Rightarrow> downloads" where
  "download_mark fname guild_id d = d\<lparr>dl_waiting := (dl_waiting d)(fname \<mapsto> guild_id)\<rparr>"

definition download_push :: "string \<Rightarrow> string \<Rightarrow> downloads \<Rightarrow> downloads" where
  "download_push fname url d = d\<lparr>dl_queue := dl_queue d @ [(fname, url)]\<rparr>"

definition download :: "string \<Rightarrow> string \<Rightarrow> snowflake \<Rightarrow> downloads \<Rightarrow> downloads" where
  "download fname url guild_id d = download_push fname url (download_mark fname guild_id d)"

definition check_download_queue :: "int \<Rightarrow> downloads \<Rightarrow> downloads" where
  "check_download_queue max_concurrent d =
    (if dl_running d \<ge> max_concurrent then d
     else case dl_queue d of
       [] \<Rightarrow> d
     | params # q \<Rightarrow> d\<lparr>dl_running := dl_running d + 1, dl_queue := q, dl_tasks := params # dl_tasks d\<rparr>)"

text \<open>The end of a download task: the file is unmarked, and the counter goes down.\<close>

definition download_unmark :: "string \<Rightarrow> downloads \<Rightarrow> downloads" where
  "download_unmark fname d = d\<lparr>dl_waiting := (dl_waiting d)(fname := None)\<rparr>"

definition download_end :: "downloads \<Rightarrow> downloads" where
  "download_end d = d\<lparr>dl_running := dl_running d - 1\<rparr>"

definition track_exist ::
  "(string \<Rightarrow> bool) \<Rightarrow> string \<Rightarrow> string \<Rightarrow> bool \<Rightarrow> snowflake \<Rightarrow> bool \<Rightarrow> downloads
    \<Rightarrow> (bool \<times> int) \<times> downloads" where
  "track_exist on_disk fname url from_interaction guild_id no_download d =
    (if fname = [] then ((False, 2), d)
     else
       let status = (if from_interaction then 1 else 0)
       in if on_disk fname then ((False, status), d)
          else ((True, status),
            if \<not> no_download \<and> \<not> is_waiting_file_download fname d then download fname url guild_id d else d))"

definition run_download_thread_will_block :: "throttler \<Rightarrow> MCTrack \<Rightarrow> string \<Rightarrow> downloads \<Rightarrow> bool" where
  "run_download_thread_will_block th result fname d \<longleftrightarrow>
    add_track_will_block th result \<or> is_waiting_file_download fname d"

text \<open>The command with which \<open>do_download\<close> asks the worker for a download.\<close>

definition download_id :: "(string \<Rightarrow> string) \<Rightarrow> string \<Rightarrow> string" where
  "download_id base64 fname = max_len (base64 fname) 32 False"

definition download_command ::
  "(string \<Rightarrow> string) \<Rightarrow> string \<Rightarrow> bool \<Rightarrow> string \<Rightarrow> string \<Rightarrow> string \<Rightarrow> string" where
  "download_command base64 yt_dlp debug fname url filepath =
    create_arg_sanitize_value key_id (download_id base64 fname)
    @ create_arg key_command cmd_dl_music
    @ create_arg_sanitize_value key_file_path filepath
    @ create_arg_sanitize_value key_ytdlp_query url
    @ create_arg_sanitize_value key_ytdlp_util_exe yt_dlp
    @ create_arg key_debug (if debug then ''1'' else ''0'')"

definition do_download ::
  "(string \<Rightarrow> string) \<Rightarrow> string \<Rightarrow> bool \<Rightarrow> int \<Rightarrow> string \<Rightarrow> string \<Rightarrow> string \<Rightarrow> string list" where
  "do_download base64 yt_dlp debug status fname url filepath =
    download_command base64 yt_dlp debug fname url filepath
    # (if status \<noteq> 0 then [] else [get_exit_command (download_id base64 fname)])"

section \<open>The cache stays within its limit\<close>

lemma evict_loop_spec:
  assumes "\<forall>g \<in> set gs. removable (gat_fullpath g)" and "cur = sum_list (map gat_size gs)"
  shows "\<exists>n. evict_loop removable size_limit cur gs = map gat_fullpath (take n gs) \<and> n \<le> length gs
    \<and> (n = length gs \<or> sum_list (map gat_size (drop n gs)) < size_limit)
    \<and> (0 < n \<longrightarrow> size_limit \<le> sum_list (map gat_size (drop (n - 1) gs)))"
  using assms
proof (induction gs arbitrary: cur)
  case (Cons g gs)
  show ?case
  proof (cases "cur < size_limit")
    case True
    then show ?thesis using Cons.prems by (intro exI [of _ 0]) simp
  next
    case False
    obtain n where n: "evict_loop removable size_limit (cur - gat_size g) gs = map gat_fullpath (take n gs)"
        "n \<le> length gs" "n = length gs \<or> sum_list (map gat_size (drop n gs)) < size_limit"
        "0 < n \<longrightarrow> size_limit \<le> sum_list (map gat_size (drop (n - 1) gs))"
      using Cons.IH [of "cur - gat_size g"] Cons.prems by auto
    show ?thesis using n False Cons.prems
      by (intro exI [of _ "Suc n"]) (cases n; auto)
  qed
qed simp

text \<open>C29: Keeping the music folder within its limit deletes the least recently used tracks,
  as few as possible. When every file can be removed, the deleted ones are the first in order of
  access time, what is left is below the limit, and one deletion less would not have been enough;
  below the limit nothing is deleted.\<close>

theorem music_cache_lru:
  assumes "get_available_tracks musicdir dir now 0 True c = (ats, c1)"
    and "\<forall>g \<in> set ats. removable (gat_fullpath g)" and "0 < size_limit"
    and "control_music_cache musicdir dir now removable size_limit c = (removed, c2)"
  shows "let byage = sort_key gat_last_access ats; n = length removed in
    removed = map gat_fullpath (take n byage)
    \<and> sum_list (map gat_size (drop n byage)) \<le> size_limit
    \<and> (0 < n \<longrightarrow> sum_list (map gat_size (drop n byage)) < size_limit
        \<and> size_limit \<le> sum_list (map gat_size (drop (n - 1) byage)))"
proof -
  let ?s = "sort_key gat_last_access ats"
  have sum: "sum_list (map gat_size ?s) = sum_list (map gat_size ats)"
    by (metis mset_map mset_sort sum_mset_sum_list)
  show ?thesis
  proof (cases "sum_list (map gat_size ats) \<le> size_limit")
    case True
    then show ?thesis using assms sum by (simp add: control_music_cache_def Let_def)
  next
    case False
    have "\<forall>g \<in> set ?s. removable (gat_fullpath g)" using assms(2) by simp
    from evict_loop_spec [OF this sum [symmetric], of size_limit] obtain n
      where n: "removed = map gat_fullpath (take n ?s)" "n \<le> length ?s"
        "n = length ?s \<or> sum_list (map gat_size (drop n ?s)) < size_limit"
        "0 < n \<longrightarrow> size_limit \<le> sum_list (map gat_size (drop (n - 1) ?s))"
      using assms(1,3,4) False by (auto simp: control_music_cache_def)
    have "length removed = n" using n(1,2) by simp
    moreover have "sum_list (map gat_size (drop n ?s)) < size_limit" using n(3) assms(3) by auto
    ultimately show ?thesis using n by (simp add: Let_def)
  qed
qed

definition sample_dir :: "dirent list" where
  "sample_dir = [\<lparr>de_regular = True, de_name = ''a-1.opus'', de_stat = Some (60, 5)\<rparr>,
    \<lparr>de_regular = True, de_name = ''b-2.opus'', de_stat = Some (50, 3)\<rparr>,
    \<lparr>de_regular = True, de_name = ''notes.txt'', de_stat = Some (500, 1)\<rparr>]"

definition empty_gat_cache :: gat_cache where
  "empty_gat_cache = \<lparr>gc_ret = [], gc_last_uc = 0, gc_completeness = 0\<rparr>"

lemma sample_tracks:
  "get_available_tracks ''m/'' (Some sample_dir) 100 0 True empty_gat_cache =
    ([\<lparr>gat_name = ''a-1'', gat_fullname = ''a-1.opus'', gat_fullpath = ''m/a-1.opus'', gat_size = 60, gat_last_access = 5\<rparr>,
      \<lparr>gat_name = ''b-2'', gat_fullname = ''b-2.opus'', gat_fullpath = ''m/b-2.opus'', gat_size = 50, gat_last_access = 3\<rparr>],
     \<lparr>gc_ret = [\<lparr>gat_name = ''a-1'', gat_fullname = ''a-1.opus'', gat_fullpath = ''m/a-1.opus'', gat_size = 60, gat_last_access = 5\<rparr>,
        \<lparr>gat_name = ''b-2'', gat_fullname = ''b-2.opus'', gat_fullpath = ''m/b-2.opus'', gat_size = 50, gat_last_access = 3\<rparr>],
      gc_last_uc = 100, gc_completeness = 3\<rparr>)"
  by code_simp

theorem music_cache_lru_witness:
  "\<exists>c2. control_music_cache ''m/'' (Some sample_dir) 100 (\<lambda>f. True) 70 empty_gat_cache = ([''m/b-2.opus''], c2)
    \<and> 60 \<le> (70::nat)"
proof -
  obtain c2 where c: "control_music_cache ''m/'' (Some sample_dir) 100 (\<lambda>f. True) 70 empty_gat_cache
      = ([''m/b-2.opus''], c2)"
    unfolding control_music_cache_def sample_tracks by (simp add: sort_key_def)
  show ?thesis using music_cache_lru [OF sample_tracks _ _ c] c by (simp add: Let_def)
qed

section \<open>The list of tracks\<close>

lemma completeness_bits [simp]:
  "and (required_completeness a w) 1 = (if a = 0 then 1 else 0)"
  "and (required_completeness a w) 2 = (if w then 2 else 0)"
  "and (required_completeness a w) 3 = (if a = 0 then 1 else 0) + (if w then 2 else 0)"
  by (simp_all add: required_completeness_def GATCC_ZERO_AMOUNT_def GATCC_HAS_STAT_def)

text \<open>The cached list of tracks answers a request for all tracks only with all of them,
  and a request for file sizes only with sizes. After a listing that was not cached, a request
  for everything gets that listing when it is less than eleven seconds old, was complete and had
  what is asked for, and else reads the folder again.\<close>

theorem track_list_sound:
  assumes "get_available_tracks musicdir (Some ds) t a w c = (r, c1)" and "11 \<le> t - gc_last_uc c"
  shows "fst (get_available_tracks musicdir (Some ds') t' 0 s c1) =
    (if t' - t < 11 \<and> a = 0 \<and> (s \<longrightarrow> w) then gat_loop musicdir w None ds
     else gat_loop musicdir s None ds')"
proof -
  have c1: "c1 = \<lparr>gc_ret = gat_loop musicdir w (if a = 0 then None else Some a) ds,
      gc_last_uc = t, gc_completeness = required_completeness a w\<rparr>"
    using assms by (auto simp: get_available_tracks_def Let_def)
  show ?thesis
    by (simp add: get_available_tracks_def c1 gatcc_is_complete_def gatcc_rnot_zero_amount_def
        gatcc_rnot_has_stat_def gatcc_rnot_def GATCC_ZERO_AMOUNT_def GATCC_HAS_STAT_def Let_def)
qed

theorem track_list_sound_witness:
  "fst (get_available_tracks ''m/'' (Some []) 105 0 False
      (snd (get_available_tracks ''m/'' (Some sample_dir) 100 0 True empty_gat_cache)))
    = gat_loop ''m/'' True None sample_dir"
proof -
  have "fst (get_available_tracks ''m/'' (Some []) 105 0 False
      (snd (get_available_tracks ''m/'' (Some sample_dir) 100 0 True empty_gat_cache)))
    = (if (105::int) - 100 < 11 \<and> (0::nat) = 0 \<and> (False \<longrightarrow> True) then gat_loop ''m/'' True None sample_dir
       else gat_loop ''m/'' False None [])"
    by (rule track_list_sound [OF prod.collapse [symmetric]]) (simp add: empty_gat_cache_def)
  then show ?thesis by simp
qed

section \<open>Choosing and naming tracks\<close>

lemma first_unplayed_spec:
  "tr_raw (first_unplayed yt q h es) \<noteq> JNull \<Longrightarrow>
    \<exists>xs ys. es = xs @ first_unplayed yt q h es # ys
      \<and> get_id yt (first_unplayed yt q h es) \<notin> get_id yt ` set q
      \<and> get_id yt (first_unplayed yt q h es) \<notin> set h
      \<and> (\<forall>x \<in> set xs. get_id yt x \<in> get_id yt ` set q \<or> get_id yt x \<in> set h)"
proof (induction es)
  case Nil
  then show ?case by (simp add: MCTrack_default_def track_init_def)
next
  case (Cons e es)
  show ?case
  proof (cases "get_id yt e \<in> get_id yt ` set q \<or> get_id yt e \<in> set h")
    case True
    then have f: "first_unplayed yt q h (e # es) = first_unplayed yt q h es" by simp
    obtain xs ys where x: "es = xs @ first_unplayed yt q h es # ys"
        "get_id yt (first_unplayed yt q h es) \<notin> get_id yt ` set q"
        "get_id yt (first_unplayed yt q h es) \<notin> set h"
        "\<forall>x \<in> set xs. get_id yt x \<in> get_id yt ` set q \<or> get_id yt x \<in> set h"
      using Cons f by auto
    have "e # es = (e # xs) @ first_unplayed yt q h es # ys" using x(1) by simp
    then show ?thesis unfolding f using x(2-4) True
      by (intro exI [of _ "e # xs"] exI [of _ ys] conjI) auto
  next
    case False
    then have f: "first_unplayed yt q h (e # es) = e" by simp
    show ?thesis unfolding f using False by (intro exI [of _ "[]"] exI [of _ es]) simp
  qed
qed

text \<open>Autoplay picks the first track of the playlist that is neither in the queue nor in
  the history: every entry before it has been played or is queued, and the picked one carries
  data.\<close>

theorem autoplay_picks_unplayed:
  assumes "find_track yt fetch (Some p) True query False = (t, 0)"
  shows "\<exists>xs ys. get_playlist_entries (fetch (trim_str query) 20 True) = xs @ t # ys \<and> tr_raw t \<noteq> JNull
    \<and> get_id yt t \<notin> get_id yt ` set (gp_queue p) \<and> get_id yt t \<notin> set (gp_history p)
    \<and> (\<forall>x \<in> set xs. get_id yt x \<in> get_id yt ` set (gp_queue p) \<or> get_id yt x \<in> set (gp_history p))"
proof -
  let ?es = "get_playlist_entries (fetch (trim_str query) 20 True)"
  have t: "t = first_unplayed yt (gp_queue p) (gp_history p) ?es" and n: "tr_raw t \<noteq> JNull"
    using assms by (auto simp: find_track_def YDLP_DEFAULT_MAX_ENTRIES_def Let_def split: if_splits list.splits)
  show ?thesis using first_unplayed_spec [of yt "gp_queue p" "gp_history p" ?es] n unfolding t by blast
qed

definition sample_entry :: "string \<Rightarrow> json" where
  "sample_entry i = JObj [(''id'', JStr i), (''title'', JStr (''song/'' @ i)), (''ie_key'', JStr ''Youtube'')]"

definition sample_playlist :: json where
  "sample_playlist = JObj [(''entries'', JArr [sample_entry ''a'', sample_entry ''b''])]"

definition sample_track :: "string \<Rightarrow> MCTrack" where
  "sample_track i = MCTrack_default\<lparr>tr_raw := sample_entry i\<rparr>"

definition sample_yt :: yt_api where
  "sample_yt = \<lparr>yt_title = (\<lambda>j. []), yt_url = (\<lambda>j. []), yt_id = (\<lambda>j. []), yt_length = (\<lambda>j. []),
    yt_thumbnail = (\<lambda>j. []), yt_snippet = (\<lambda>j. []), yt_channel = (\<lambda>j. []), yt_duration = (\<lambda>j. 0)\<rparr>"

definition sample_player :: guild_player_t where
  "sample_player = (guild_player_new 1 2)\<lparr>gp_queue := [sample_track ''a''], gp_history := [''a'']\<rparr>"

theorem autoplay_picks_unplayed_witness:
  "find_track sample_yt (\<lambda>q n u. sample_playlist) (Some sample_player) True ''x'' False = (sample_track ''b'', 0)
    \<and> tr_raw (sample_track ''b'') \<noteq> JNull"
proof -
  have f: "find_track sample_yt (\<lambda>q n u. sample_playlist) (Some sample_player) True ''x'' False
      = (sample_track ''b'', 0)" by code_simp
  show ?thesis using autoplay_picks_unplayed [OF f] f by blast
qed

text \<open>The file name made from a track stays in the music folder: it holds no slash,
  whatever the title is, and a name that is not empty ends with the extension.\<close>

theorem filename_stays_in_folder:
  "CHR ''/'' \<notin> set (get_filename_from_result yt t)
    \<and> (get_filename_from_result yt t = [] \<or> suffix ''.opus'' (get_filename_from_result yt t))"
  by (auto simp: get_filename_from_result_def Let_def suffix_def)

section \<open>Downloads are bounded and never lost\<close>

text \<open>Threads that have marked a file and not queued it yet, and tasks that have unmarked
  theirs and not left the counter.\<close>

record dl_sys =
  ds_d :: downloads
  ds_pending :: "(string \<times> string) list"
  ds_ending :: nat

inductive dl_step :: "int \<Rightarrow> dl_sys \<Rightarrow> dl_sys \<Rightarrow> bool" for max_concurrent where
  mark: "dl_step max_concurrent s (s\<lparr>ds_d := download_mark f g (ds_d s), ds_pending := (f, u) # ds_pending s\<rparr>)"
| push: "ds_pending s = xs @ (f, u) # ys \<Longrightarrow>
    dl_step max_concurrent s (s\<lparr>ds_d := download_push f u (ds_d s), ds_pending := xs @ ys\<rparr>)"
| check: "dl_step max_concurrent s (s\<lparr>ds_d := check_download_queue max_concurrent (ds_d s)\<rparr>)"
| unmark: "dl_tasks (ds_d s) = xs @ (f, u) # ys \<Longrightarrow>
    dl_step max_concurrent s (s\<lparr>ds_d := download_unmark f ((ds_d s)\<lparr>dl_tasks := xs @ ys\<rparr>), ds_ending := Suc (ds_ending s)\<rparr>)"
| ending: "ds_ending s = Suc n \<Longrightarrow>
    dl_step max_concurrent s (s\<lparr>ds_d := download_end (ds_d s), ds_ending := n\<rparr>)"

inductive_cases dl_stepE: "dl_step m s s'"

definition dl_init :: dl_sys where
  "dl_init = \<lparr>ds_d = \<lparr>dl_waiting = Map.empty, dl_queue = [], dl_running = 0, dl_tasks = []\<rparr>,
    ds_pending = [], ds_ending = 0\<rparr>"

definition dl_ok :: "int \<Rightarrow> dl_sys \<Rightarrow> bool" where
  "dl_ok max_concurrent s \<longleftrightarrow>
    dl_running (ds_d s) = int (length (dl_tasks (ds_d s)) + ds_ending s)
    \<and> dl_running (ds_d s) \<le> max_concurrent
    \<and> dom (dl_waiting (ds_d s)) \<subseteq> fst ` (set (ds_pending s) \<union> set (dl_queue (ds_d s)) \<union> set (dl_tasks (ds_d s)))"

lemmas dl_defs = download_mark_def download_push_def check_download_queue_def download_unmark_def download_end_def

lemma dl_step_ok: "dl_step m s s' \<Longrightarrow> dl_ok m s \<Longrightarrow> dl_ok m s'"
proof (induction rule: dl_step.induct)
  case (check s)
  then show ?case by (cases "dl_queue (ds_d s)") (auto simp: dl_ok_def dl_defs)
qed (auto simp: dl_ok_def dl_defs subset_iff)

text \<open>C30: In every run of the download queue, at most the configured number of downloads run
  at once, and no waiting file is forgotten: whoever waits for a file waits for a download that
  is about to be queued, is queued or is running.\<close>

theorem downloads_bounded_live:
  assumes "(dl_step m)\<^sup>*\<^sup>* dl_init s" and "0 \<le> m"
  shows "int (length (dl_tasks (ds_d s))) \<le> m
    \<and> (is_waiting_file_download f (ds_d s) \<longrightarrow>
        f \<in> fst ` (set (ds_pending s) \<union> set (dl_queue (ds_d s)) \<union> set (dl_tasks (ds_d s))))"
proof -
  have "dl_ok m s" using assms(1)
  proof (induction rule: rtranclp_induct)
    case base
    show ?case using assms(2) by (simp add: dl_ok_def dl_init_def)
  next
    case (step y z)
    then show ?case using dl_step_ok by blast
  qed
  then show ?thesis by (auto simp: dl_ok_def is_waiting_file_download_def)
qed

definition dl_example :: dl_sys where
  "dl_example = dl_init\<lparr>ds_d := download_mark ''f'' 1 (ds_d dl_init), ds_pending := [(''f'', ''u'')]\<rparr>"

theorem downloads_bounded_live_witness:
  "int (length (dl_tasks (ds_d dl_example))) \<le> 2
    \<and> is_waiting_file_download ''f'' (ds_d dl_example)
    \<and> ''f'' \<in> fst ` (set (ds_pending dl_example) \<union> set (dl_queue (ds_d dl_example)) \<union> set (dl_tasks (ds_d dl_example)))"
proof -
  have "dl_step 2 dl_init (dl_init\<lparr>ds_d := download_mark ''f'' 1 (ds_d dl_init),
      ds_pending := (''f'', ''u'') # ds_pending dl_init\<rparr>)" by (rule dl_step.mark)
  then have r: "(dl_step 2)\<^sup>*\<^sup>* dl_init dl_example" by (simp add: dl_example_def dl_init_def)
  have w: "is_waiting_file_download ''f'' (ds_d dl_example)"
    by (simp add: dl_example_def dl_init_def is_waiting_file_download_def download_mark_def)
  show ?thesis using downloads_bounded_live [OF r, of "''f''"] w by simp
qed

section \<open>Timers of failed tracks\<close>

lemma is_fprt_duplicate_iff: "is_fprt_duplicate rt ts \<longleftrightarrow> fp_filename rt \<in> fp_filename ` set ts"
  by (induction rt ts rule: is_fprt_duplicate.induct) auto

definition fprt_entry :: "fprt_t list \<Rightarrow> string \<Rightarrow> fprt_t option" where
  "fprt_entry ts k = find (\<lambda>i. fp_filename i = k) ts"

definition fprt_unregister :: "string \<Rightarrow> fprt_t list \<Rightarrow> bool \<times> fprt_t list" where
  "fprt_unregister k ts = (k \<in> fp_filename ` set ts, erase_first (\<lambda>i. fp_filename i = k) ts)"

lemma fprt_entry_None: "fprt_entry ts k = None \<longleftrightarrow> k \<notin> fp_filename ` set ts"
  by (auto simp: fprt_entry_def find_None_iff)

lemma fprt_entry_append: "fprt_entry (ts @ us) k = (case fprt_entry ts k of None \<Rightarrow> fprt_entry us k | Some x \<Rightarrow> Some x)"
  unfolding fprt_entry_def by (induction ts) auto

lemma fprt_entry_single: "fprt_entry [v] k = (if fp_filename v = k then Some v else None)"
  by (simp add: fprt_entry_def)

lemma fprt_entry_erase:
  "distinct (map fp_filename ts) \<Longrightarrow>
    fprt_entry (erase_first (\<lambda>i. fp_filename i = k) ts) = (fprt_entry ts)(k := None)"
proof (induction ts)
  case (Cons t ts)
  show ?case
  proof (cases "fp_filename t = k")
    case True
    then have "fprt_entry ts k = None" using Cons.prems by (auto simp: fprt_entry_None)
    then show ?thesis using True by (auto simp: fprt_entry_def fun_eq_iff)
  next
    case False
    then show ?thesis using Cons by (auto simp: fprt_entry_def fun_eq_iff)
  qed
qed (auto simp: fprt_entry_def)

interpretation failed_timers: registry fprt_entry fp_filename fprt_register fprt_unregister
  "\<lambda>ts. distinct (map fp_filename ts)"
proof
  fix ts :: "fprt_t list" and v v' :: fprt_t and k
  assume d: "distinct (map fp_filename ts)"
  {
    assume e: "fprt_entry ts (fp_filename v) = None"
    then have n: "fp_filename v \<notin> fp_filename ` set ts" by (simp add: fprt_entry_None)
    have "fprt_entry (ts @ [v]) = (fprt_entry ts)(fp_filename v \<mapsto> v)"
      using e by (auto simp: fprt_entry_append fprt_entry_single fun_eq_iff split: option.splits)
    then show "fst (fprt_register v ts) \<and> distinct (map fp_filename (snd (fprt_register v ts)))
        \<and> fprt_entry (snd (fprt_register v ts)) = (fprt_entry ts)(fp_filename v \<mapsto> v)"
      using d n by (simp add: fprt_register_def is_fprt_duplicate_iff)
  }
  show "fprt_entry ts (fp_filename v) = Some v' \<Longrightarrow> fprt_register v ts = (False, ts)"
    using fprt_entry_None [of ts "fp_filename v"] by (auto simp: fprt_register_def is_fprt_duplicate_iff)
  show "distinct (map fp_filename (snd (fprt_unregister k ts)))
      \<and> fprt_entry (snd (fprt_unregister k ts)) = (fprt_entry ts)(k := None)
      \<and> (fst (fprt_unregister k ts) \<longleftrightarrow> fprt_entry ts k \<noteq> None)"
    using fprt_entry_erase [OF d] distinct_erase_first [OF d] fprt_entry_None [of ts k]
    by (auto simp: fprt_unregister_def)
qed

lemma fprt_loop_spec:
  "fprt_loop False now ts m = (kept, m1) \<Longrightarrow> kept = filter (\<lambda>i. now - fp_ts i < m10) ts
    \<and> m1 = (\<lambda>f. if f \<noteq> [] \<and> (\<exists>i \<in> set ts. fp_filename i = f \<and> m10 \<le> now - fp_ts i) then None else m f)"
proof (induction ts arbitrary: m kept m1)
  case (Cons i ts)
  show ?case
  proof (cases "now - fp_ts i < m10")
    case True
    obtain k m' where l: "fprt_loop False now ts m = (k, m')" by fastforce
    then have "kept = i # k" "m1 = m'" using Cons.prems True by auto
    then show ?thesis using Cons.IH [OF l] True by auto
  next
    case False
    let ?m = "snd (set_track_failed_playback_count (fp_filename i) 0 m)"
    have l: "fprt_loop False now ts ?m = (kept, m1)" using Cons.prems False by simp
    have m: "?m = (if fp_filename i = [] then m else m(fp_filename i := None))"
      by (simp add: set_track_failed_playback_count_def)
    show ?thesis using Cons.IH [OF l] False unfolding m by (auto simp: fun_eq_iff)
  qed
qed (auto simp: fun_eq_iff)

text \<open>A track that failed to play is given another chance after ten minutes and not
  before: one pass over the timers clears the failure count of exactly the files with a timer of
  that age, drops those timers and keeps the younger ones.\<close>

theorem failed_playbacks_expire:
  assumes "check_failed_playback_reset_timers True now ts m = (ts1, m1)" and "f \<noteq> []"
  shows "ts1 = filter (\<lambda>i. now - fp_ts i < 600 * 1000000000) ts
    \<and> get_track_failed_playback_count f m1 =
      (if \<exists>i \<in> set ts. fp_filename i = f \<and> 600 * 1000000000 \<le> now - fp_ts i then 0
       else get_track_failed_playback_count f m)"
  using assms fprt_loop_spec [of now ts m ts1 m1]
  by (auto simp: check_failed_playback_reset_timers_def get_track_failed_playback_count_def m10_def)

theorem failed_playbacks_expire_witness:
  "\<exists>m1. check_failed_playback_reset_timers True 700000000000 [\<lparr>fp_ts = 1, fp_filename = ''f''\<rparr>] [''f'' \<mapsto> 3]
      = ([], m1) \<and> get_track_failed_playback_count ''f'' m1 = 0"
proof -
  obtain m1 where c: "check_failed_playback_reset_timers True 700000000000
      [\<lparr>fp_ts = 1, fp_filename = ''f''\<rparr>] [''f'' \<mapsto> 3] = ([], m1)"
    by (simp add: check_failed_playback_reset_timers_def m10_def)
  show ?thesis using failed_playbacks_expire [OF c, of "''f''"] c by simp
qed

section \<open>Commands to the worker\<close>

lemma clean_cmds: "clean_key cmd_call_ytdlp" "clean_key cmd_dl_music" "clean_key cmd_shutdown"
  "clean_key ''0''" "clean_key ''1''"
  by code_simp+

lemma keys_no_NUL:
  "NUL \<notin> set key_id" "NUL \<notin> set key_command" "NUL \<notin> set key_file_path" "NUL \<notin> set key_debug"
  "NUL \<notin> set key_ytdlp_util_exe" "NUL \<notin> set key_ytdlp_query" "NUL \<notin> set key_ytdlp_lib_path"
  "NUL \<notin> set key_ytdlp_max_entries" "NUL \<notin> set cmd_dl_music" "NUL \<notin> set cmd_call_ytdlp"
  "NUL \<noteq> CHR ''0''" "NUL \<noteq> CHR ''1''"
  by code_simp+

lemmas key_defs = key_id_def key_command_def key_file_path_def key_debug_def key_guild_id_def
  key_ready_def key_seek_def key_volume_def key_helper_chain_def key_force_def
  key_ytdlp_util_exe_def key_ytdlp_query_def key_ytdlp_lib_path_def key_ytdlp_max_entries_def

lemma download_command_args:
  "download_command b64 exe debug fname url filepath = command_of
    [(key_id, download_id b64 fname), (key_command, cmd_dl_music), (key_file_path, filepath),
     (key_ytdlp_query, url), (key_ytdlp_util_exe, exe), (key_debug, if debug then ''1'' else ''0'')]"
  by (simp add: download_command_def command_of_def create_arg_clean clean_cmds)

text \<open>The worker understands a download: the options it parses from the command that
  \<open>do_download\<close> writes to it name the download command, the id, the file, the url and the
  program that were meant, whatever characters those hold, and the exit command that follows
  names the same id.\<close>

theorem download_command_understood:
  assumes "length (download_command b64 exe debug fname url filepath) \<le> CMD_BUFSIZE" and "0 \<le> fd"
    and "NUL \<notin> set (b64 fname) \<union> set filepath \<union> set url \<union> set exe"
  shows "\<exists>rec. write_command (download_command b64 exe debug fname url filepath) fd = Some rec
    \<and> parse_command_to_options (c_str rec) (create_command_options, dbg)
      = Inr (create_command_options\<lparr>op_id := download_id b64 fname, op_command := cmd_dl_music,
          op_file_path := filepath, op_ytdlp_query := url, op_ytdlp_util_exe := exe,
          op_debug := debug\<rparr>, debug)
    \<and> parse_command_to_options (get_exit_command (download_id b64 fname)) (create_command_options, dbg)
      = Inr (create_command_options\<lparr>op_id := download_id b64 fname, op_command := cmd_shutdown\<rparr>, dbg)"
proof -
  let ?kvs = "[(key_id, download_id b64 fname), (key_command, cmd_dl_music), (key_file_path, filepath),
     (key_ytdlp_query, url), (key_ytdlp_util_exe, exe), (key_debug, if debug then ''1'' else ''0'')]"
  let ?exit = "[(key_id, download_id b64 fname), (key_command, cmd_shutdown)]"
  have "set (download_id b64 fname) \<subseteq> set (b64 fname)"
    by (auto simp: download_id_def max_len_def dest: in_set_dropD in_set_takeD)
  then have n: "NUL \<notin> set (download_id b64 fname)" using assms(3) by blast
  have kvs: "\<forall>(k, v) \<in> set ?kvs. clean_key k \<and> NUL \<notin> set k \<and> NUL \<notin> set v"
    using assms(3) n by (simp add: clean_keys keys_no_NUL)
  have dl: "assign_all ?kvs (create_command_options, dbg)
      = Inr (create_command_options\<lparr>op_id := download_id b64 fname, op_command := cmd_dl_music,
          op_file_path := filepath, op_ytdlp_query := url, op_ytdlp_util_exe := exe,
          op_debug := debug\<rparr>, debug)"
    by (simp add: assign_command_option_key_value_def key_defs)
  have ex: "get_exit_command (download_id b64 fname) = command_of ?exit"
    by (simp add: get_exit_command_def command_of_def create_arg_clean clean_cmds)
  have "parse_command_to_options (command_of ?exit) (create_command_options, dbg)
      = assign_all ?exit (create_command_options, dbg)"
    by (rule parse_command_of) (simp add: clean_keys)
  then have ep: "parse_command_to_options (get_exit_command (download_id b64 fname)) (create_command_options, dbg)
      = Inr (create_command_options\<lparr>op_id := download_id b64 fname, op_command := cmd_shutdown\<rparr>, dbg)"
    unfolding ex by (simp add: assign_command_option_key_value_def key_defs)
  show ?thesis
    using write_parse_command_of [OF kvs, of fd "(create_command_options, dbg)"] assms(1,2)
    unfolding download_command_args dl ep by blast
qed

theorem download_command_understood_witness:
  "\<exists>rec. write_command (download_command (\<lambda>s. ''aWQ'') ''yt-dlp'' False ''a=1.opus'' ''u;v'' ''/m/a=1.opus'') 3 = Some rec
    \<and> parse_command_to_options (c_str rec) (create_command_options, True)
      = Inr (create_command_options\<lparr>op_id := download_id (\<lambda>s. ''aWQ'') ''a=1.opus'', op_command := cmd_dl_music,
          op_file_path := ''/m/a=1.opus'', op_ytdlp_query := ''u;v'', op_ytdlp_util_exe := ''yt-dlp'',
          op_debug := False\<rparr>, False)
    \<and> parse_command_to_options (get_exit_command (download_id (\<lambda>s. ''aWQ'') ''a=1.opus'')) (create_command_options, True)
      = Inr (create_command_options\<lparr>op_id := download_id (\<lambda>s. ''aWQ'') ''a=1.opus'', op_command := cmd_shutdown\<rparr>, True)"
proof (rule download_command_understood)
  show "length (download_command (\<lambda>s. ''aWQ'') ''yt-dlp'' False ''a=1.opus'' ''u;v'' ''/m/a=1.opus'') \<le> CMD_BUFSIZE"
    by code_simp
qed (simp_all add: NUL_def)

end
