(* ===== verification/TrackMarker.thy ===== *)
theory TrackMarker
  imports Manager MusicCache
begin

text \<open>
  The voice events of \<open>src/musicat/player_manager_events.cpp\<close>: the track marker that
  chooses the next track when playback ends, the job that starts it (or gives up on a
  missing file), the end of a download, a voice client that becomes ready, the voice state
  of users and of the bot, and deleted messages. The voice client of an event is the
  parameter \<open>vc\<close> (\<open>None\<close> is a null pointer), its guild \<open>g\<close>.
\<close>

section \<open>Environment\<close>

definition p_mute_members :: "64 word" where "p_mute_members = 0x400000"
definition p_request_to_speak :: "64 word" where "p_request_to_speak = 0x100000000"

text \<open>The float literal \<open>0.05f\<close>.\<close>

definition f_0_05 :: fl where "f_0_05 = rnd_frac 24 1 20"

text \<open>What the handlers ask from the rest of the process: whether it is running, whether
  the client has its cluster, the database (connected, saved queue, saved configuration),
  the information of a track, the clock, and the last message of a text channel.\<close>

record event_env =
  ev_running :: bool
  ev_creator :: bool
  ev_fetch :: "MCTrack \<Rightarrow> json option"
  ev_db_ok :: bool
  ev_saved_queue :: "MCTrack list \<times> int"
  ev_saved_config :: "player_config \<times> int"
  ev_now :: int
  ev_file_exists :: "string \<Rightarrow> bool"
  ev_last_message :: "snowflake \<Rightarrow> snowflake"
  ev_message_id :: "json \<Rightarrow> snowflake"

section \<open>Stage channels\<close>

definition prepare_play_stage_channel_routine ::
  "dpp_view \<Rightarrow> event_env \<Rightarrow> voice_client option \<Rightarrow> guild option \<Rightarrow> effect list" where
  "prepare_play_stage_channel_routine dv ev vc gd =
    (case (gd, vc) of
       (Some guild, Some client) \<Rightarrow>
         if \<not> ev_creator ev then []
         else
           (case dv_channel dv (vc_channel_id client) of
              None \<Rightarrow> []
            | Some c \<Rightarrow>
                if ch_type c \<noteq> CHANNEL_STAGE then []
                else
                  (case gd_voice_members guild (dv_sha_id dv) of
                     None \<Rightarrow> []
                   | Some i \<Rightarrow>
                       if \<not> vst_suppressed i then []
                       else
                         let stay_suppress = (\<not> has_permissions dv (Some guild) (Some (dv_sha_id dv)) (Some c) [p_mute_members]);
                             request = (stay_suppress
                               \<and> has_permissions dv (Some guild) (Some (dv_sha_id dv)) (Some c) [p_request_to_speak])
                         in if request \<or> stay_suppress \<noteq> vst_suppressed i
                            then [E_set_voice_state (gd_id guild) (vst_channel_id i) stay_suppress request] else []))
     | _ \<Rightarrow> [])"

section \<open>Choosing the next track\<close>

text \<open>What the end of a track does to the queue, by repeat count and loop mode; the
  flag is whether the dashboard is told.\<close>

definition marker_advance :: "string \<Rightarrow> guild_player_t \<Rightarrow> guild_player_t \<times> bool" where
  "marker_advance track_meta p =
    (if track_meta = ''e'' \<and> \<not> gp_stopped p \<and> current_track_is_first_track p then
       (case gp_queue p of
          [] \<Rightarrow> (p, False)
        | t # q \<Rightarrow>
            let rpt = tr_repeat (gp_current_track p)
            in if rpt > 0 \<and> tr_repeat t > 0 then
                 (p\<lparr>gp_current_track := (gp_current_track p)\<lparr>tr_repeat := rpt - 1\<rparr>,
                    gp_queue := t\<lparr>tr_repeat := rpt - 1\<rparr> # q\<rparr>, False)
               else (case gp_loop_mode p of
                 l_none \<Rightarrow> (p\<lparr>gp_queue := q\<rparr>, True)
               | l_queue \<Rightarrow> (p\<lparr>gp_queue := q @ [t]\<rparr>, True)
               | _ \<Rightarrow> (p, False)))
     else (p, False))"

text \<open>The front of the queue becomes the playing track.\<close>

definition marker_take_first :: "guild_player_t \<Rightarrow> guild_player_t" where
  "marker_take_first p =
    (case gp_queue p of
       [] \<Rightarrow> p
     | t # q \<Rightarrow>
         let t1 = t\<lparr>tr_skip_vote := []\<rparr>
         in p\<lparr>gp_current_track := t1, gp_queue := t1\<lparr>tr_seek_to := []\<rparr> # q, gp_stopped := False\<rparr>)"

text \<open>The queue and the configuration saved in the database, loaded once per player; the
  flag is whether the queue was loaded now.\<close>

definition marker_load ::
  "dpp_view \<Rightarrow> event_env \<Rightarrow> snowflake \<Rightarrow> guild_player_t \<Rightarrow> manager \<Rightarrow> (bool \<times> manager \<times> effect list) result" where
  "marker_load dv ev g p m =
    bind_result
      (if gp_saved_queue_loaded p then Inr (False, m, [])
       else case load_guild_current_queue dv (ev_fetch ev) (ev_db_ok ev) (ev_saved_queue ev) g (Some (dv_sha_id dv)) m of
         None \<Rightarrow> Inl Undefined
       | Some (_, m1, eff) \<Rightarrow> Inr (True, m1, eff))
      (\<lambda>(just_loaded_queue, m1, eff).
        if gp_saved_config_loaded p then Inr (just_loaded_queue, m1, eff)
        else bind_result (load_guild_player_config dv (ev_saved_config ev) g m1)
          (\<lambda>(_, m2). Inr (just_loaded_queue, m2, eff)))"

text \<open>The part of the handler behind the loading, on the guild's player.\<close>

definition marker_player ::
  "dpp_view \<Rightarrow> voice_client \<Rightarrow> snowflake \<Rightarrow> string \<Rightarrow> bool \<Rightarrow> guild_player_t
    \<Rightarrow> (bool \<times> guild_player_t \<times> effect list) result" where
  "marker_player dv vc g track_meta just_loaded_queue p =
    (if gp_queue p = [] then Inr (False, p, [])
     else case reset_shifted p of
       None \<Rightarrow> Inl Undefined
     | Some (_, p1) \<Rightarrow>
         (case marker_advance track_meta p1 of
            (p2, publish) \<Rightarrow>
              let eff = (if publish then [E_publish_queue g] else [])
              in if gp_queue p2 = [] then
                   Inr (False, p2\<lparr>gp_current_track := MCTrack_default\<rparr>,
                     eff @ (if just_loaded_queue then [] else [E_db_delete_queue g])
                     @ (if tr_current_byte (gp_current_track p2) \<noteq> 0
                          \<and> has_permissions dv (dv_guild dv g) (Some (dv_sha_id dv)) (dv_channel dv (gp_text_channel_id p2))
                              [p_view_channel, p_send_messages, p_embed_links]
                        then [E_message (gp_text_channel_id p2) ''End of playback. No more track in the queue''] else []))
                 else
                   let p3 = marker_take_first p2;
                       eff1 = eff @ (if just_loaded_queue then [] else [E_db_update_queue g (gp_queue p3)])
                   in case get_voice_from_gid dv g (dv_sha_id dv) of
                        None \<Rightarrow> Inl Undefined
                      | Some None \<Rightarrow> Inr (False, p3, eff1)
                      | Some (Some (_, ms)) \<Rightarrow>
                          if \<not> has_listener dv ms then Inr (False, p3, eff1)
                          else if \<not> fl_less (vc_secs_remaining vc) f_0_05 then Inr (False, p3, eff1)
                          else Inr (True, p3, eff1 @ [E_marker_worker g track_meta])))"

text \<open>Left: undefined behaviour, or an exception while the configuration is loaded.\<close>

definition handle_on_track_marker ::
  "dpp_view \<Rightarrow> event_env \<Rightarrow> voice_client option \<Rightarrow> snowflake \<Rightarrow> string \<Rightarrow> manager
    \<Rightarrow> (bool \<times> manager \<times> effect list) result" where
  "handle_on_track_marker dv ev voice_client g track_meta m =
    (if \<not> dv_cluster dv then Inr (False, m, [])
     else case voice_client of
       None \<Rightarrow> Inr (False, m, [])
     | Some vc \<Rightarrow>
         if vc_terminating vc \<or> \<not> ev_running ev then Inr (False, m, [])
         else
           let eff0 = prepare_play_stage_channel_routine dv ev (Some vc) (dv_guild dv g)
           in case get_player g m of
                None \<Rightarrow> Inr (False, m, eff0)
              | Some p0 \<Rightarrow>
                  if gp_processing_audio p0 then Inr (False, m, eff0)
                  else
                    let m1 = clear_manually_paused g m
                    in if is_disconnecting g m1 then Inr (False, m1, eff0)
                       else bind_result (marker_load dv ev g p0 m1) (\<lambda>(just_loaded_queue, m2, eff1).
                         case get_player g m2 of
                           None \<Rightarrow> Inl Undefined
                         | Some p \<Rightarrow> bind_result (marker_player dv vc g track_meta just_loaded_queue p)
                             (\<lambda>(ok, p1, eff2). Inr (ok, put_player g p1 m2, eff0 @ eff1 @ eff2))))"

section \<open>Starting to play\<close>

text \<open>The state the job of a marker works on: the manager, the failed playbacks with their
  timers, and the downloads.\<close>

record world =
  w_mgr :: manager
  w_failed :: failed_counts
  w_fprt :: "fprt_t list"
  w_dl :: downloads

definition push_history :: "string \<Rightarrow> guild_player_t \<Rightarrow> guild_player_t" where
  "push_history track_id p =
    (if gp_max_history_size p > 0 then
       let h = gp_history p @ [track_id]
       in p\<lparr>gp_history := (if length h > gp_max_history_size p
            then drop (length h - gp_max_history_size p) h else h)\<rparr>
     else p)"

definition track_info_m :: "yt_api \<Rightarrow> bool \<Rightarrow> MCTrack \<Rightarrow> string" where
  "track_info_m yt embed_perms track =
    (if embed_perms then ''`'' @ get_title yt track @ ''` (added by <@'' @ nat_str (unat (tr_user_id track)) @ ''>)''
     else [])"

definition missing_file_message :: "string \<Rightarrow> bool \<Rightarrow> bool \<Rightarrow> string" where
  "missing_file_message info dont_retry is_downloading =
    (if dont_retry then ''Track '' @ info
       @ '' failed to play for too many times, I shall stop trying to play it for a while. Sorry''
     else (if is_downloading then ''Missing audio file, awaiting download: '' else ''Missing audio file: '')
       @ info
       @ (if is_downloading then []
          else CHR 0x0A # ''Trying to redownload...'' @ CHR 0x0A #
            ''I will add this track to the top of the queue once it's done downloading''))"

text \<open>The branch of a missing file. The player's mutex is held, so the whole job runs as one
  step once its waits (for the voice client and for the file) are over.\<close>

definition worker_missing ::
  "yt_api \<Rightarrow> dpp_view \<Rightarrow> event_env \<Rightarrow> voice_client \<Rightarrow> snowflake \<Rightarrow> bool \<Rightarrow> guild_player_t \<Rightarrow> world
    \<Rightarrow> (world \<times> effect list) option" where
  "worker_missing yt dv ev vc g embed_perms p w =
    (let track = gp_current_track p;
         fname = tr_filename track;
         is_downloading = is_waiting_file_download fname (w_dl w);
         failed_playback = get_track_failed_playback_count fname (w_failed w);
         dont_retry = (failed_playback \<ge> 3);
         fprt1 = (if dont_retry then snd (create_failed_playback_reset_timer (ev_now ev) fname (w_fprt w)) else w_fprt w);
         eff1 = (if embed_perms then [E_message (gp_text_channel_id p)
                   (missing_file_message (track_info_m yt embed_perms track) dont_retry is_downloading)] else [])
     in case (if vc_terminating vc then Some (p, w_failed w, [])
              else case skip_queue 1 True True False p of
                None \<Rightarrow> None
              | Some (_, p1) \<Rightarrow>
                  if dont_retry then Some (p1, w_failed w, [E_publish_queue g])
                  else Some (p1\<lparr>gp_stopped := True\<rparr>,
                         snd (set_track_failed_playback_count fname (failed_playback + 1) (w_failed w)),
                         [E_publish_queue g, E_insert_marker g ''e'']))
        of None \<Rightarrow> None
         | Some (p1, failed1, eff2) \<Rightarrow>
             let redo = (\<not> is_downloading \<and> \<not> dont_retry);
                 track1 = gp_current_track p1
             in Some (w\<lparr>w_mgr := put_player g p1 (w_mgr w), w_failed := failed1, w_fprt := fprt1,
                        w_dl := (if redo then download fname (get_url yt track1) g (w_dl w) else w_dl w)\<rparr>,
                      eff1 @ eff2 @ (if redo then [E_redownload g fname track1] else [])))"

text \<open>The branch of a file that opens; \<open>play\<close> is a job of its own.\<close>

definition worker_has_file ::
  "dpp_view \<Rightarrow> event_env \<Rightarrow> voice_client \<Rightarrow> snowflake \<Rightarrow> string \<Rightarrow> bool \<Rightarrow> string \<Rightarrow> guild_player_t \<Rightarrow> world
    \<Rightarrow> world \<times> effect list" where
  "worker_has_file dv ev vc g meta embed_perms track_id p w =
    (let track = gp_current_track p;
         fname = tr_filename track;
         embed =
           (if \<not> gp_notification p then []
            else if \<not> embed_perms then []
            else if (case (dv_channel dv (gp_text_channel_id p), get_info_message p) of
                       (Some c, Some pim) \<Rightarrow> ev_last_message ev (ch_id c) \<noteq> 0
                         \<and> ev_last_message ev (ch_id c) = ev_message_id ev pim
                     | _ \<Rightarrow> False)
            then (if gp_loop_mode p \<noteq> l_song \<and> gp_loop_mode p \<noteq> l_song_queue
                  then [E_player g (Update_info_embed g)] else [])
            else [E_delete_info_embed g, E_send_info_embed g False True])
     in (w\<lparr>w_mgr := put_player g p (w_mgr w),
           w_failed := snd (set_track_failed_playback_count fname 0 (w_failed w)),
           w_fprt := snd (remove_failed_playback_reset_timer fname (w_fprt w))\<rparr>,
         (if meta = ''r'' then [E_send_silence g 60] else [])
         @ (if gp_auto_play p \<and> tr_current_byte track = 0 then [E_autoplay track_id (gp_shard_id p) g] else [])
         @ [E_play g] @ embed))"

definition track_marker_worker ::
  "yt_api \<Rightarrow> dpp_view \<Rightarrow> event_env \<Rightarrow> voice_client \<Rightarrow> snowflake \<Rightarrow> string \<Rightarrow> world \<Rightarrow> (world \<times> effect list) option" where
  "track_marker_worker yt dv ev vc g meta w =
    (if \<not> dv_cluster dv \<or> vc_terminating vc then Some (w, [])
     else case get_player g (w_mgr w) of
       None \<Rightarrow> Some (w, [])
     | Some p0 \<Rightarrow>
         let track_id = get_id yt (gp_current_track p0);
             p = push_history track_id p0;
             embed_perms = has_permissions dv (dv_guild dv g) (Some (dv_sha_id dv))
               (dv_channel dv (gp_text_channel_id p)) [p_view_channel, p_send_messages, p_embed_links]
         in if ev_file_exists ev (tr_filename (gp_current_track p))
            then Some (worker_has_file dv ev vc g meta embed_perms track_id p w)
            else worker_missing yt dv ev vc g embed_perms p w)"

text \<open>Whether playback is started now; \<open>from\<close> is the shard of the client.\<close>

definition decide_play ::
  "dpp_view \<Rightarrow> bool \<Rightarrow> 32 word option \<Rightarrow> snowflake \<Rightarrow> bool \<Rightarrow> effect list option" where
  "decide_play dv running from guild_id continued =
    (case from of
       None \<Rightarrow> Some []
     | Some shard \<Rightarrow>
         if \<not> running then Some []
         else
           (case get_voice_from_gid dv guild_id (dv_sha_id dv) of
              None \<Rightarrow> None
            | Some vu \<Rightarrow>
                if vu = None \<or> continued \<or> \<not> has_listener dv (members_of vu) then Some []
                else
                  (case Option.bind (dv_voice dv shard guild_id) vn_client of
                     None \<Rightarrow> Some []
                   | Some vc \<Rightarrow>
                       if \<not> vc_ready vc then Some []
                       else if (\<not> vc_paused vc \<and> \<not> vc_playing vc) \<or> fl_less (vc_secs_remaining vc) f_0_05
                       then Some [E_insert_marker guild_id ''s''] else Some [])))"

text \<open>The job behind the download of a missing file: the track returns to the front.\<close>

definition redownload_job ::
  "dpp_view \<Rightarrow> event_env \<Rightarrow> voice_client \<Rightarrow> snowflake \<Rightarrow> MCTrack \<Rightarrow> manager \<Rightarrow> (manager \<times> effect list) option" where
  "redownload_job dv ev vc guild_id track m =
    (case get_player guild_id m of
       None \<Rightarrow> None
     | Some p \<Rightarrow>
         (case add_track (ev_fetch ev track) True guild_id True 0 track p of
            None \<Rightarrow> None
          | Some (_, p1, eff) \<Rightarrow>
              map_option (\<lambda>d. (put_player guild_id p1 m, map (E_player guild_id) eff @ [E_publish_queue guild_id] @ d))
                (if \<not> vc_terminating vc \<and> get_client dv p1
                 then decide_play dv (ev_running ev) (Some (gp_shard_id p1)) guild_id False else Some [])))"


section \<open>Voice events\<close>

text \<open>The third argument of \<open>handle_on_voice_ready\<close> as the code has it: the client to
  disconnect is looked up under the guild's id, where a shard number is expected.\<close>

definition handle_on_voice_ready ::
  "dpp_view \<Rightarrow> event_env \<Rightarrow> voice_client \<Rightarrow> snowflake \<Rightarrow> manager \<Rightarrow> (manager \<times> effect list) option" where
  "handle_on_voice_ready dv ev vc g m =
    (let m1 = snd (clear_wait_vc_ready g m)
     in if is_disconnecting g m1
        then Some (m1, disconnect_voice (dv_cluster dv \<and> dv_shard dv (ucast g)) g)
        else map_option (\<lambda>(m2, eff). (m2, eff @ (if fl_less (vc_secs_remaining vc) f_0_05 then [E_insert_marker g ''r''] else [])))
          (check_autopause dv (ev_now ev) g (vc_channel_id vc) m1))"

record voice_event =
  ve_user_id :: snowflake
  ve_channel_id :: snowflake
  ve_guild_id :: snowflake
  ve_shard :: "32 word"
  ve_state :: voicestate

definition resume_min_delay :: int where
  "resume_min_delay = 1500000000"

definition handle_non_sha_voice_state_update ::
  "dpp_view \<Rightarrow> event_env \<Rightarrow> voice_event \<Rightarrow> manager \<Rightarrow> (manager \<times> effect list) option" where
  "handle_non_sha_voice_state_update dv ev e m =
    (let g = ve_guild_id e;
         did_manually_paused = is_manually_paused g m
     in case dv_voice dv (ve_shard e) g of
          None \<Rightarrow> Some (m, [])
        | Some v \<Rightarrow>
            if vn_channel_id v = 0 then Some (m, [])
            else
              let has_voice_session = (vn_channel_id v = ve_channel_id e);
                  note = [if has_voice_session then E_send_join (ve_user_id e) else E_send_leave (ve_user_id e)]
              in case vn_client v of
                   None \<Rightarrow> Some (m, note)
                 | Some vc \<Rightarrow>
                     if vc_terminating vc \<or> \<not> fl_less f_0_05 (vc_secs_remaining vc) then Some (m, note)
                     else
                       let should_pause = (\<not> has_voice_session \<and> \<not> vc_paused vc);
                           should_unpause = (has_voice_session \<and> (vc_paused vc \<or> \<not> vc_playing vc))
                       in if \<not> should_pause \<and> \<not> should_unpause then
                            (if ve_channel_id e = 0 \<or> has_voice_session then Some (m, note)
                             else map_option (\<lambda>(_, m1, eff). (m1, note @ eff))
                               (full_reconnect dv (ve_shard e) g (vn_channel_id v) (ve_channel_id e) True m))
                          else if did_manually_paused then Some (m, note)
                          else if should_pause then
                            map_option (\<lambda>(_, eff). (m, note @ eff)) (set_autopause dv (Some v) g True m)
                          else Some (snd (create_resume_timer (ev_now ev) (ve_user_id e) (ve_channel_id e)
                            (Some (g, vc_channel_id vc)) resume_min_delay m), note))"

text \<open>The bot left its channel: the table of connected channels is asked for channel 0.\<close>

definition sha_left_vc :: "dpp_view \<Rightarrow> voice_event \<Rightarrow> manager \<Rightarrow> manager \<times> effect list" where
  "sha_left_vc dv e m =
    (let g = ve_guild_id e;
         m1 = clear_disconnecting g m;
         m2 = m1\<lparr>mg_vcs_setting := snd (vcs_setting_handle_disconnected (dv_channel dv (ve_channel_id e)) (mg_vcs_setting m1))\<rparr>
     in (case get_player g m2 of
           None \<Rightarrow> m2
         | Some p \<Rightarrow> put_player g (p\<lparr>gp_voice_channel_id := 0, gp_dashboard_control_requests := []\<rparr>) m2,
         [E_stream_unsubscribe g]))"

text \<open>The bot is in another channel than its connection: stop, disconnect, and mark the
  guild as connecting again when somebody listens.\<close>

definition sha_move ::
  "dpp_view \<Rightarrow> voice_event \<Rightarrow> voiceconn \<Rightarrow> channel \<Rightarrow> (snowflake \<times> voicestate) list \<Rightarrow> manager
    \<Rightarrow> (manager \<times> effect list) option" where
  "sha_move dv e v c members m =
    (let g = ve_guild_id e
     in case stop_stream dv g m of
          None \<Rightarrow> None
        | Some (_, m1) \<Rightarrow>
            let skip = (case vn_client v of
                  Some vc \<Rightarrow> if vc_terminating vc then []
                             else [E_player g (Pause_audio False), E_player g Skip_to_next_marker]
                | None \<Rightarrow> []);
                m2 = set_disconnecting dv g (vn_channel_id v) m1;
                (m3, wait) = (if has_listener dv members
                  then set_waiting_vc_ready dv g ''0'' (set_connecting g (ch_id c) m2) else (m2, []))
            in Some (m3, skip @ disconnect_voice True g @ wait @ [E_timer 2 (J_voice_ready g (ve_shard e))]))"

definition handle_sha_voice_state_update ::
  "dpp_view \<Rightarrow> event_env \<Rightarrow> voice_event \<Rightarrow> manager \<Rightarrow> (manager \<times> effect list) option" where
  "handle_sha_voice_state_update dv ev e m =
    (if ve_channel_id e = 0 then Some (sha_left_vc dv e m)
     else
       let g = ve_guild_id e;
           m1 = (case get_player g m of
                   None \<Rightarrow> m | Some p \<Rightarrow> put_player g (p\<lparr>gp_voice_channel_id := ve_channel_id e\<rparr>) m);
           m2 = snd (clear_connecting g m1);
           finish = (\<lambda>(m' :: manager, eff). (m'\<lparr>mg_vcs_setting :=
             snd (vcs_setting_handle_connected (dv_channel dv (ve_channel_id e)) (Some (ve_state e)) (mg_vcs_setting m'))\<rparr>, eff))
       in map_option finish
         (case dv_voice dv (ve_shard e) g of
            None \<Rightarrow> Some (m2, [])
          | Some v \<Rightarrow>
              (case get_voice_from_gid dv g (ve_user_id e) of
                 None \<Rightarrow> None
               | Some a \<Rightarrow>
                   let m3 = (if (case vn_client v of Some vc \<Rightarrow> vc_ready vc | None \<Rightarrow> False)
                             then snd (clear_wait_vc_ready g m2) else m2)
                   in case a of
                        None \<Rightarrow> Some (m3, [])
                      | Some (c, members) \<Rightarrow>
                          if vn_channel_id v = 0 then Some (m3, [])
                          else if vn_channel_id v = ch_id c
                          then check_autopause dv (ev_now ev) g (ve_channel_id e) m3
                          else sha_move dv e v c members m3)))"

definition handle_on_voice_state_update ::
  "dpp_view \<Rightarrow> event_env \<Rightarrow> voice_event \<Rightarrow> manager \<Rightarrow> (manager \<times> effect list) option" where
  "handle_on_voice_state_update dv ev e m =
    (if ve_user_id e \<noteq> dv_sha_id dv then handle_non_sha_voice_state_update dv ev e m
     else handle_sha_voice_state_update dv ev e m)"

section \<open>Deleted messages\<close>

definition handle_on_message_delete ::
  "(json \<Rightarrow> snowflake) \<Rightarrow> snowflake \<Rightarrow> snowflake \<Rightarrow> manager \<Rightarrow> manager result" where
  "handle_on_message_delete message_id_of guild_id message_id m =
    bind_result (set_info_message_as_deleted message_id_of guild_id message_id m) (\<lambda>(_, m1). Inr m1)"

fun handle_on_message_delete_bulk ::
  "(json \<Rightarrow> snowflake) \<Rightarrow> snowflake \<Rightarrow> snowflake list \<Rightarrow> manager \<Rightarrow> manager result" where
  "handle_on_message_delete_bulk message_id_of guild_id [] m = Inr m"
| "handle_on_message_delete_bulk message_id_of guild_id (i # deleted) m =
    bind_result (set_info_message_as_deleted message_id_of guild_id i m)
      (\<lambda>(_, m1). handle_on_message_delete_bulk message_id_of guild_id deleted m1)"


section \<open>The marker and the order of play\<close>

abbreviation names :: "MCTrack list \<Rightarrow> string list" where
  "names q \<equiv> map tr_filename q"

text \<open>Whether a marker ends the playing track, and whether that track is to be repeated.\<close>

definition track_ended :: "string \<Rightarrow> guild_player_t \<Rightarrow> bool" where
  "track_ended meta p \<longleftrightarrow> meta = ''e'' \<and> \<not> gp_stopped p \<and> play_order p \<noteq> []
    \<and> tr_filename (gp_current_track p) = tr_filename (hd (play_order p))"

definition track_repeats :: "guild_player_t \<Rightarrow> bool" where
  "track_repeats p \<longleftrightarrow> tr_repeat (gp_current_track p) > 0 \<and> tr_repeat (hd (play_order p)) > 0"

definition next_names :: "string \<Rightarrow> guild_player_t \<Rightarrow> string list" where
  "next_names meta p =
    (let q = names (play_order p)
     in if track_ended meta p \<and> \<not> track_repeats p then
          (case gp_loop_mode p of l_none \<Rightarrow> tl q | l_queue \<Rightarrow> rotate1 q | _ \<Rightarrow> q)
        else q)"

lemma marker_advance_names:
  assumes "gp_shifted_track p = 0"
  shows "names (gp_queue (fst (marker_advance meta p))) = next_names meta p"
    and "gp_shifted_track (fst (marker_advance meta p)) = 0"
    and "gp_stopped (fst (marker_advance meta p)) = gp_stopped p"
    and "gp_loop_mode (fst (marker_advance meta p)) = gp_loop_mode p"
  using assms
  by (auto simp: marker_advance_def next_names_def track_ended_def track_repeats_def Let_def
      current_track_is_first_track_def split: list.splits loop_mode_t.splits)

lemma marker_take_first_simps:
  "names (gp_queue (marker_take_first p)) = names (gp_queue p)"
  "gp_shifted_track (marker_take_first p) = gp_shifted_track p"
  "gp_queue p \<noteq> [] \<Longrightarrow> \<not> gp_stopped (marker_take_first p)
    \<and> tr_filename (gp_current_track (marker_take_first p)) = hd (names (gp_queue p))"
  by (auto simp: marker_take_first_def Let_def split: list.splits)

text \<open>A player whose playing track was moved back to the front.\<close>

lemma next_names_reset:
  "next_names meta (p\<lparr>gp_queue := play_order p, gp_shifted_track := 0\<rparr>) = next_names meta p"
proof -
  have "play_order (p\<lparr>gp_queue := play_order p, gp_shifted_track := 0\<rparr>) = play_order p"
    by (simp add: play_order_def [of "p\<lparr>gp_queue := q, gp_shifted_track := 0\<rparr>" for q])
  then show ?thesis by (auto simp: next_names_def track_ended_def track_repeats_def Let_def)
qed

lemma marker_player_cases:
  assumes "marker_player dv vc g meta jl p = Inr (ok, p', eff)" and "player_ok p"
  shows "player_ok p'" and "gp_queue p \<noteq> [] \<Longrightarrow> names (gp_queue p') = next_names meta p \<and> gp_shifted_track p' = 0"
    and "ok \<Longrightarrow> gp_queue p' \<noteq> [] \<and> \<not> gp_stopped p' \<and> eff \<noteq> [] \<and> last eff = E_marker_worker g meta
      \<and> tr_filename (gp_current_track p') = hd (next_names meta p)"
proof -
  let ?p1 = "p\<lparr>gp_queue := play_order p, gp_shifted_track := 0\<rparr>"
  obtain p2 pub where a: "marker_advance meta ?p1 = (p2, pub)" by (metis surj_pair)
  have r: "reset_shifted p = Some (gp_shifted_track p \<noteq> 0, ?p1)" using assms(2) by (rule reset_shifted_ok)
  have z: "gp_shifted_track ?p1 = 0" by simp
  note n = marker_advance_names [OF z, unfolded next_names_reset, of meta, unfolded a fst_conv]
  have "player_ok p' \<and> (gp_queue p \<noteq> [] \<longrightarrow> names (gp_queue p') = next_names meta p \<and> gp_shifted_track p' = 0)
    \<and> (ok \<longrightarrow> gp_queue p' \<noteq> [] \<and> \<not> gp_stopped p' \<and> eff \<noteq> [] \<and> last eff = E_marker_worker g meta
      \<and> tr_filename (gp_current_track p') = hd (next_names meta p))"
  proof (cases "gp_queue p = []")
    case True
    then show ?thesis using assms by (simp add: marker_player_def)
  next
    case False
    show ?thesis
    proof (cases "gp_queue p2 = []")
      case True
      then have "\<not> ok \<and> p' = p2\<lparr>gp_current_track := MCTrack_default\<rparr>"
        using assms(1) False by (simp add: marker_player_def r a Let_def)
      then show ?thesis using n True by (simp add: player_ok_def)
    next
      case ne: False
      have "p' = marker_take_first p2 \<and> (ok \<longrightarrow> eff \<noteq> [] \<and> last eff = E_marker_worker g meta)"
        using assms(1) False ne
        by (auto simp: marker_player_def r a Let_def split: option.splits if_splits prod.splits)
      then show ?thesis
        using n marker_take_first_simps [of p2] ne by (auto simp: player_ok_def)
    qed
  qed
  then show "player_ok p'" "gp_queue p \<noteq> [] \<Longrightarrow> names (gp_queue p') = next_names meta p \<and> gp_shifted_track p' = 0"
    "ok \<Longrightarrow> gp_queue p' \<noteq> [] \<and> \<not> gp_stopped p' \<and> eff \<noteq> [] \<and> last eff = E_marker_worker g meta
      \<and> tr_filename (gp_current_track p') = hd (next_names meta p)"
    by auto
qed


lemma get_put_player [simp]: "get_player g (put_player g' p m) = (if g = g' then Some p else get_player g m)"
  by (simp add: get_player_def put_player_def)

lemma get_player_clear_paused [simp]: "get_player g (clear_manually_paused g' m) = get_player g m"
  by (simp add: get_player_def clear_manually_paused_def)

text \<open>What a marker does to a player whose saved state is loaded.\<close>

lemma handle_marker_player:
  assumes "handle_on_track_marker dv ev (Some vc) g meta m = Inr (True, m', eff)"
    and "get_player g m = Some p" and "gp_saved_queue_loaded p" "gp_saved_config_loaded p"
  obtains p' eff0 eff2 where "marker_player dv vc g meta False p = Inr (True, p', eff2)"
    and "m' = put_player g p' (clear_manually_paused g m)" and "eff = eff0 @ eff2"
    and "\<not> gp_processing_audio p"
  using assms
  by (auto simp: handle_on_track_marker_def Let_def marker_load_def bind_result_Inr_iff split: if_splits)

text \<open>C31: A track marker that starts a track starts the right one. The names in the queue
  become the order of play, advanced by the loop mode when the marker ends the playing track and
  that track has no repetitions left (dropped without a loop, moved to the back in a queue loop, kept
  in a song loop); the first of them is the playing track, and the job that starts it is the last
  effect.\<close>

theorem marker_starts_next:
  assumes "handle_on_track_marker dv ev (Some vc) g meta m = Inr (True, m', eff)"
    and "get_player g m = Some p" and "player_ok p"
    and "gp_saved_queue_loaded p" and "gp_saved_config_loaded p"
  shows "\<exists>p'. get_player g m' = Some p' \<and> player_ok p' \<and> gp_queue p' \<noteq> [] \<and> \<not> gp_stopped p'
    \<and> names (gp_queue p') = next_names meta p
    \<and> tr_filename (gp_current_track p') = hd (next_names meta p)
    \<and> last eff = E_marker_worker g meta"
proof -
  obtain p' eff0 eff2 where *: "marker_player dv vc g meta False p = Inr (True, p', eff2)"
    "m' = put_player g p' (clear_manually_paused g m)" "eff = eff0 @ eff2"
    using handle_marker_player [OF assms(1,2,4,5)] by blast
  have "gp_queue p \<noteq> []" using *(1) by (auto simp: marker_player_def)
  then show ?thesis using marker_player_cases [OF *(1) assms(3)] *(2,3) by auto
qed

definition marker_env :: event_env where
  "marker_env = \<lparr>ev_running = True, ev_creator = True, ev_fetch = (\<lambda>t. None), ev_db_ok = True,
    ev_saved_queue = ([], 1), ev_saved_config =
      (\<lparr>pc_loop_mode = l_none, pc_autoplay_threshold = 0, pc_autoplay_state = False, pc_fx_states = JNull\<rparr>, 1),
    ev_now = 0, ev_file_exists = (\<lambda>f. f = ''2''), ev_last_message = (\<lambda>c. 0), ev_message_id = (\<lambda>j. 0)\<rparr>"

definition named :: "string \<Rightarrow> MCTrack" where
  "named f = MCTrack_default\<lparr>tr_filename := f\<rparr>"

definition playing_player :: "string list \<Rightarrow> loop_mode_t \<Rightarrow> guild_player_t" where
  "playing_player fs lm = (guild_player_new 1 2)\<lparr>gp_queue := map named fs, gp_current_track := named (hd fs),
    gp_loop_mode := lm, gp_saved_queue_loaded := True, gp_saved_config_loaded := True\<rparr>"

lemma playing_player_simps [simp]:
  "gp_queue (playing_player fs lm) = map named fs"
  "gp_current_track (playing_player fs lm) = named (hd fs)"
  "gp_loop_mode (playing_player fs lm) = lm"
  "gp_saved_queue_loaded (playing_player fs lm)" "gp_saved_config_loaded (playing_player fs lm)"
  "gp_shifted_track (playing_player fs lm) = 0" "\<not> gp_stopped (playing_player fs lm)"
  "\<not> gp_processing_audio (playing_player fs lm)" "gp_text_channel_id (playing_player fs lm) = 0"
  "gp_guild_id (playing_player fs lm) = 1" "gp_shard_id (playing_player fs lm) = 2"
  by (simp_all add: playing_player_def guild_player_new_def player_init_def)

lemma named_simps [simp]:
  "tr_filename (named f) = f" "tr_repeat (named f) = 0" "tr_current_byte (named f) = 0"
  "tr_skip_vote (named f) = []" "tr_seek_to (named f) = []"
  by (simp_all add: named_def MCTrack_default_def track_init_def)

definition marker_manager :: "guild_player_t \<Rightarrow> manager" where
  "marker_manager p = put_player 1 p manager_init"

lemma sample_marker_fires:
  assumes "gp_queue p \<noteq> []" and "player_ok p" and "next_names ''e'' p \<noteq> []"
    and "gp_saved_queue_loaded p" "gp_saved_config_loaded p" "\<not> gp_processing_audio p"
    and "get_player 1 m = Some p" and "\<not> is_disconnecting 1 (clear_manually_paused 1 m)"
  shows "\<exists>m' eff. handle_on_track_marker sample_view marker_env (Some sample_client) 1 ''e'' m = Inr (True, m', eff)"
proof -
  let ?p1 = "p\<lparr>gp_queue := play_order p, gp_shifted_track := 0\<rparr>"
  obtain p2 pub where a: "marker_advance ''e'' ?p1 = (p2, pub)" by (metis surj_pair)
  have z: "gp_shifted_track ?p1 = 0" by simp
  have "gp_queue p2 \<noteq> []"
    using marker_advance_names(1) [OF z, of "''e''", unfolded next_names_reset a] assms(3) by auto
  moreover have "fl_less fl_zero f_0_05" by code_simp
  ultimately obtain p' eff2 where "marker_player sample_view sample_client 1 ''e'' False p = Inr (True, p', eff2)"
    using assms(1) by (simp add: marker_player_def reset_shifted_ok [OF assms(2)] a Let_def
        sample_client_def sample_view_def [THEN arg_cong [of _ _ dv_sha_id], simplified])
  then show ?thesis using assms(4-8)
    by (simp add: handle_on_track_marker_def marker_load_def Let_def sample_client_def sample_view_def marker_env_def)
qed


theorem marker_starts_next_witness:
  "\<exists>m' p' eff. handle_on_track_marker sample_view marker_env (Some sample_client) 1 ''e''
      (marker_manager (playing_player [''1'', ''2'', ''3''] l_queue)) = Inr (True, m', eff)
    \<and> get_player 1 m' = Some p' \<and> names (gp_queue p') = [''2'', ''3'', ''1'']
    \<and> tr_filename (gp_current_track p') = ''2''"
proof -
  let ?p = "playing_player [''1'', ''2'', ''3''] l_queue"
  have n: "next_names ''e'' ?p = [''2'', ''3'', ''1'']"
    by (simp add: next_names_def track_ended_def track_repeats_def)
  have g: "get_player 1 (marker_manager ?p) = Some ?p" by (simp add: marker_manager_def)
  obtain m' eff where h: "handle_on_track_marker sample_view marker_env (Some sample_client) 1 ''e'' (marker_manager ?p)
      = Inr (True, m', eff)"
    using sample_marker_fires [of ?p "marker_manager ?p"] n g
    by (auto simp: marker_manager_def manager_init_def is_disconnecting_def clear_manually_paused_def put_player_def)
  show ?thesis using marker_starts_next [OF h g] h n by auto
qed

section \<open>Skipping\<close>

lemma skip_loop_state: "\<exists>q. snd (skip_loop n again p r) = p\<lparr>gp_queue := q\<rparr>"
proof (induction n arbitrary: p r)
  case 0
  show ?case by (auto intro: exI [of _ "gp_queue p"])
next
  case (Suc n)
  show ?case
  proof (cases "gp_queue p")
    case Nil
    then show ?thesis by (auto intro: exI [of _ "gp_queue p"])
  next
    case (Cons l q)
    then show ?thesis
      using Suc [of "p\<lparr>gp_queue := q @ [l\<lparr>tr_repeat := 0\<rparr>]\<rparr>"] Suc [of "p\<lparr>gp_queue := q\<rparr>"]
      by (auto simp: queue_add_def Let_def)
  qed
qed

text \<open>The fields of a player that neither skipping nor the end of a stream touches.\<close>

definition same_mode :: "guild_player_t \<Rightarrow> guild_player_t \<Rightarrow> bool" where
  "same_mode p p' \<longleftrightarrow> gp_loop_mode p' = gp_loop_mode p \<and> gp_stopped p' = gp_stopped p
    \<and> gp_saved_queue_loaded p' = gp_saved_queue_loaded p \<and> gp_saved_config_loaded p' = gp_saved_config_loaded p
    \<and> tr_filename (gp_current_track p') = tr_filename (gp_current_track p)"

lemma clear_repeats_mode: "same_mode p (clear_repeats p)"
  by (auto simp: same_mode_def clear_repeats_def Let_def split: list.splits)

lemma stop_mode:
  "same_mode p (stop b p)" "names (gp_queue (stop b p)) = names (gp_queue p)"
  "gp_shifted_track (stop b p) = gp_shifted_track p"
  "map tr_repeat (gp_queue (stop b p)) = map tr_repeat (gp_queue p)"
  by (auto simp: same_mode_def stop_def reset_first_track_current_byte_def split: list.splits)

lemma skip_queue_mode:
  assumes "player_ok p" and "skip_queue amount False False False p = Some (removed, p1)" and "gp_loop_mode p = l_none"
  shows "same_mode p p1" and "gp_shifted_track p1 = 0"
    and "names (gp_queue p1) = drop (nat (skip_amount amount - 1)) (names (play_order p))"
    and "skip_amount amount = 1 \<Longrightarrow> gp_queue p1 = [] \<or> tr_repeat (hd (gp_queue p1)) = 0"
proof -
  let ?n = "nat (skip_amount amount - 1)"
  let ?c = "clear_repeats (p\<lparr>gp_queue := play_order p, gp_shifted_track := 0\<rparr>)"
  have p1: "p1 = snd (skip_loop ?n False ?c [])"
    using assms(2) unfolding skip_queue_eq [OF assms(1)] by (simp add: skip_count_def assms(3))
  obtain q where q: "p1 = ?c\<lparr>gp_queue := q\<rparr>" using skip_loop_state p1 by metis
  have "same_mode p ?c"
    using clear_repeats_mode [of "p\<lparr>gp_queue := play_order p, gp_shifted_track := 0\<rparr>"] by (simp add: same_mode_def)
  then show "same_mode p p1" using q by (simp add: same_mode_def)
  show "gp_shifted_track p1 = 0" using q by (simp add: clear_repeats_simps)
  have d: "gp_queue p1 = drop ?n (case play_order p of [] \<Rightarrow> [] | t # q \<Rightarrow> norep t # q)"
    unfolding p1 using skip_loop_drop [of ?n ?c "[]"] by (simp add: clear_repeats_simps)
  have "names (case play_order p of [] \<Rightarrow> [] | t # q \<Rightarrow> norep t # q) = names (play_order p)"
    by (auto simp: norep_def split: list.splits)
  then show "names (gp_queue p1) = drop ?n (names (play_order p))" using d by (metis drop_map)
  show "skip_amount amount = 1 \<Longrightarrow> gp_queue p1 = [] \<or> tr_repeat (hd (gp_queue p1)) = 0"
    using d by (auto simp: norep_def split: list.splits)
qed

lemma mgr_skip_mode:
  assumes "mgr_skip dv (Some conn) g u amount False m = Some (Inr (removed, 0), m1, eff)"
    and "get_player g m = Some p" and "player_ok p" and "gp_loop_mode p = l_none"
  obtains p1 where "m1 = put_player g p1 m" and "same_mode p p1" and "gp_shifted_track p1 = 0"
    and "names (gp_queue p1) = drop (nat (skip_amount amount - 1)) (names (play_order p))"
    and "skip_amount amount = 1 \<Longrightarrow> gp_queue p1 = [] \<or> tr_repeat (hd (gp_queue p1)) = 0"
proof -
  let ?p = "p\<lparr>gp_queue := play_order p, gp_shifted_track := 0\<rparr>"
  have o: "play_order ?p = play_order p" by (simp add: play_order_def [of ?p])
  obtain pq where s: "skip_queue amount False False False ?p = Some (removed, pq)"
    and pb: "\<exists>s eff1 p2. player_skip_playback dv (Some conn) pq = Some (s, p2, eff1) \<and> m1 = put_player g p2 m"
    using assms(1) by (auto simp: mgr_skip_def assms(2) reset_shifted_ok [OF assms(3)] split: option.splits if_splits prod.splits)
  obtain b p2 where p2: "m1 = put_player g p2 m" "p2 = pq \<or> p2 = stop b pq"
    using pb by (auto simp: player_skip_playback_def skip_playback_def split: option.splits)
  note q = skip_queue_mode [OF _ s, unfolded o]
  have "same_mode p pq" using q(1) assms(4) by (simp add: same_mode_def)
  then have "same_mode p p2" using p2(2) stop_mode(1) [of pq b] by (auto simp: same_mode_def)
  moreover have "gp_shifted_track p2 = 0" using p2(2) q(2) assms(4) by (auto simp: stop_mode)
  moreover have "names (gp_queue p2) = drop (nat (skip_amount amount - 1)) (names (play_order p))"
    using p2(2) q(3) assms(4) by (auto simp: stop_mode)
  moreover have "gp_queue p2 = [] \<or> tr_repeat (hd (gp_queue p2)) = 0" if "skip_amount amount = 1"
    using p2(2) q(4) assms(4) that stop_mode(4) [of b pq] by (cases "gp_queue pq"; cases "gp_queue p2") auto
  ultimately show thesis using p2(1) that by blast
qed


text \<open>In a queue that does not loop, skipping \<open>n\<close> tracks and the end marker that follows
  play the track at position \<open>n - 1\<close>, and at position 1 for \<open>n = 1\<close>: \<open>/skip 2\<close> does what
  \<open>/skip 1\<close> does. \<open>skip_queue\<close> counts the playing track among the skipped ones although the marker
  removes it only when nothing was removed before.\<close>

theorem skip_two_is_skip_one:
  assumes "mgr_skip dv (Some conn) g u amount False m = Some (Inr (removed, 0), m1, eff1)"
    and "get_player g m = Some p" and "player_ok p" and "gp_loop_mode p = l_none" and "\<not> gp_stopped p"
    and "gp_saved_queue_loaded p" and "gp_saved_config_loaded p"
    and "distinct (names (play_order p))" and "tr_filename (gp_current_track p) = hd (names (play_order p))"
    and "get_player g m1 = Some p1"
    and "handle_on_track_marker dv ev (Some vc) g ''e'' (put_player g (fst (done_streaming p1)) m1) = Inr (True, m2, eff2)"
    and "1 \<le> amount" and "amount \<le> 1000"
  shows "\<exists>p2. get_player g m2 = Some p2
    \<and> tr_filename (gp_current_track p2) = names (play_order p) ! (if amount = 1 then 1 else nat amount - 1)"
proof -
  let ?p1 = "fst (done_streaming p1)" and ?q = "names (play_order p)"
  have sa: "skip_amount amount = amount" using assms(12,13) by (simp add: skip_amount_def)
  obtain p1' where m1: "m1 = put_player g p1' m" "same_mode p p1'" "gp_shifted_track p1' = 0"
    "names (gp_queue p1') = drop (nat (amount - 1)) ?q"
    "amount = 1 \<Longrightarrow> gp_queue p1' = [] \<or> tr_repeat (hd (gp_queue p1')) = 0"
    using mgr_skip_mode [OF assms(1-4)] unfolding sa by blast
  have p1: "p1 = p1'" using m1(1) assms(10) by simp
  have d: "gp_queue ?p1 = gp_queue p1" "gp_shifted_track ?p1 = 0" "same_mode p ?p1"
    using m1 p1 by (auto simp: done_streaming_def destroy_encoder_def same_mode_def)
  then have o: "play_order ?p1 = gp_queue p1" by simp
  obtain p2 where p2: "get_player g m2 = Some p2" "gp_queue p2 \<noteq> []" "names (gp_queue p2) = next_names ''e'' ?p1"
    "tr_filename (gp_current_track p2) = hd (next_names ''e'' ?p1)"
    using marker_starts_next [OF assms(11), of ?p1] d assms(6,7) by (auto simp: same_mode_def)
  show ?thesis
  proof (cases "amount = 1")
    case True
    then have q: "names (gp_queue p1) = ?q" using m1(4) p1 by simp
    have "gp_queue p1 \<noteq> []" using p2(2,3) o by (auto simp: next_names_def track_ended_def)
    then have "next_names ''e'' ?p1 = tl ?q"
      using d o q m1(5) [OF True] p1 assms(4,5,9) hd_map [of "gp_queue p1" tr_filename]
      by (auto simp: next_names_def track_ended_def track_repeats_def same_mode_def Let_def)
    moreover have "next_names ''e'' ?p1 \<noteq> []" using p2(2,3) by (metis map_is_Nil_conv)
    ultimately show ?thesis using p2(1,4) True by (cases ?q) (auto simp: hd_conv_nth)
  next
    case False
    let ?n = "nat (amount - 1)"
    have n: "0 < ?n" using False assms(12) by simp
    have q: "names (gp_queue p1) = drop ?n ?q" using m1(4) p1 by simp
    have nn: "gp_queue p1 \<noteq> []" using p2(2,3) o by (auto simp: next_names_def track_ended_def)
    then have ne: "?n < length ?q" using q by (cases "?n < length ?q") auto
    then have h: "hd (names (gp_queue p1)) = ?q ! ?n" using q by (simp add: hd_drop_conv_nth)
    have "hd ?q = ?q ! 0" using ne by (intro hd_conv_nth) auto
    then have "?q ! ?n \<noteq> hd ?q"
      using assms(8) n ne nth_eq_iff_index_eq [of ?q ?n 0] by (metis gr_implies_not0 length_greater_0_conv list.size(3))
    then have "\<not> track_ended ''e'' ?p1"
      using d(3) o h nn assms(9) by (auto simp: track_ended_def same_mode_def hd_map)
    then have "next_names ''e'' ?p1 = drop ?n ?q" using o q by (simp add: next_names_def Let_def)
    then show ?thesis using p2(1,4) False ne assms(12) by (simp add: hd_drop_conv_nth nat_diff_distrib)
  qed
qed


theorem skip_two_is_skip_one_witness:
  "\<exists>r m1 e1 p1 m2 e2 p2. mgr_skip sample_view (Some sample_conn) 1 8 2 False
        (marker_manager (playing_player [''1'', ''2'', ''3''] l_none)) = Some (Inr (r, 0), m1, e1)
    \<and> get_player 1 m1 = Some p1
    \<and> handle_on_track_marker sample_view marker_env (Some sample_client) 1 ''e''
        (put_player 1 (fst (done_streaming p1)) m1) = Inr (True, m2, e2)
    \<and> get_player 1 m2 = Some p2 \<and> tr_filename (gp_current_track p2) = ''2''"
proof -
  let ?p = "playing_player [''1'', ''2'', ''3''] l_none"
  have g: "get_player 1 (marker_manager ?p) = Some ?p" by (simp add: marker_manager_def)
  obtain r m1 e1 where s: "mgr_skip sample_view (Some sample_conn) 1 8 2 False (marker_manager ?p) = Some (Inr (r, 0), m1, e1)"
    by (simp add: mgr_skip_def g reset_shifted_def sample_conn_def skip_queue_def player_skip_playback_def
        skip_playback_def bot_in_voice_def clear_repeats_def skip_amount_def is_empty_def Let_def numeral_2_eq_2
        split: option.splits prod.splits)
  obtain p1 where p1: "m1 = put_player 1 p1 (marker_manager ?p)" "same_mode ?p p1" "gp_shifted_track p1 = 0"
    "names (gp_queue p1) = [''2'', ''3'']"
    using mgr_skip_mode [OF s g] by (auto simp: skip_amount_def)
  let ?d = "fst (done_streaming p1)"
  have d: "names (gp_queue ?d) = [''2'', ''3'']" "gp_shifted_track ?d = 0" "same_mode ?p ?d" "\<not> gp_processing_audio ?d"
    using p1 by (auto simp: done_streaming_def destroy_encoder_def same_mode_def)
  then have q: "gp_queue ?d \<noteq> []" "next_names ''e'' ?d \<noteq> []"
    by (auto simp: next_names_def same_mode_def Let_def)
  have nd: "\<not> is_disconnecting 1 (clear_manually_paused 1 (put_player 1 ?d m1))"
    by (simp add: p1(1) marker_manager_def manager_init_def is_disconnecting_def clear_manually_paused_def put_player_def)
  obtain m2 e2 where h: "handle_on_track_marker sample_view marker_env (Some sample_client) 1 ''e''
      (put_player 1 ?d m1) = Inr (True, m2, e2)"
    using sample_marker_fires [OF q(1) _ q(2) _ _ d(4), of "put_player 1 ?d m1"] nd d by (auto simp: same_mode_def)
  show ?thesis
    using skip_two_is_skip_one [OF s g _ _ _ _ _ _ _ _ h] s h p1(1) by auto
qed


section \<open>Missing files and failed playback\<close>

lemma skip_current:
  assumes "player_ok p"
  shows "\<exists>r p1. skip_queue 1 True True False p = Some (r, p1) \<and> same_mode p p1
    \<and> gp_shifted_track p1 = 0 \<and> names (gp_queue p1) = tl (names (play_order p))
    \<and> gp_history p1 = gp_history p \<and> gp_max_history_size p1 = gp_max_history_size p"
proof -
  let ?c = "clear_repeats (p\<lparr>gp_queue := play_order p, gp_shifted_track := 0\<rparr>)"
  have n: "skip_count 1 True (gp_loop_mode p) = 1" by (simp add: skip_count_def skip_amount_def)
  obtain q where q: "snd (skip_loop 1 False ?c []) = ?c\<lparr>gp_queue := q\<rparr>" using skip_loop_state by blast
  have "same_mode p ?c"
    using clear_repeats_mode [of "p\<lparr>gp_queue := play_order p, gp_shifted_track := 0\<rparr>"] by (simp add: same_mode_def)
  moreover have "gp_history ?c = gp_history p \<and> gp_max_history_size ?c = gp_max_history_size p"
    by (auto simp: clear_repeats_def Let_def split: list.splits)
  moreover have "names q = tl (names (play_order p))"
    using skip_loop_drop [of 1 ?c "[]"] q by (auto simp: clear_repeats_simps norep_def split: list.splits)
  ultimately show ?thesis
    using q by (simp add: skip_queue_eq [OF assms] n prod_eq_iff same_mode_def clear_repeats_simps)
qed

lemma push_history_simps:
  "play_order (push_history i p) = play_order p" "gp_current_track (push_history i p) = gp_current_track p"
  "player_ok (push_history i p) = player_ok p"
  "gp_max_history_size (push_history i p) = gp_max_history_size p"
  "gp_max_history_size p > 0 \<Longrightarrow> length (gp_history (push_history i p)) \<le> gp_max_history_size p"
  by (auto simp: push_history_def Let_def play_order_def player_ok_def)

definition file_timer :: "string \<Rightarrow> fprt_t list \<Rightarrow> bool" where
  "file_timer f ts \<longleftrightarrow> (\<exists>t \<in> set ts. fp_filename t = f)"

lemma create_failed_timer: "f \<noteq> [] \<Longrightarrow> file_timer f (snd (create_failed_playback_reset_timer now f ts))"
  by (auto simp: create_failed_playback_reset_timer_def fprt_register_def is_fprt_duplicate_iff file_timer_def)

text \<open>A track whose file is missing leaves the queue, and is given up after three
  failures. The first three times its failures are counted, the next track is started by a marker
  that must not pop (the player is marked stopped) and the file is downloaded again unless it already is;
  from then on no marker is inserted, nothing is downloaded, and a timer is pending that
  allows the track again. The history keeps to its bound.\<close>

theorem missing_file_gives_up:
  assumes "get_player g (w_mgr w) = Some p" and "player_ok p" and "dv_cluster dv" and "\<not> vc_terminating vc"
    and "fname = tr_filename (gp_current_track p)" and "fname \<noteq> []" and "\<not> ev_file_exists ev fname"
  shows "\<exists>w' p' eff. track_marker_worker yt dv ev vc g meta w = Some (w', eff)
    \<and> get_player g (w_mgr w') = Some p' \<and> names (gp_queue p') = tl (names (play_order p))
    \<and> (gp_max_history_size p > 0 \<longrightarrow> length (gp_history p') \<le> gp_max_history_size p)
    \<and> (let c = get_track_failed_playback_count fname (w_failed w)
       in if c < 3 then
            (0 \<le> c \<longrightarrow> get_track_failed_playback_count fname (w_failed w') = c + 1)
            \<and> E_insert_marker g ''e'' \<in> set eff \<and> gp_stopped p'
            \<and> is_waiting_file_download fname (w_dl w')
          else w_failed w' = w_failed w \<and> E_insert_marker g ''e'' \<notin> set eff
            \<and> w_dl w' = w_dl w \<and> file_timer fname (w_fprt w'))"
proof -
  let ?p = "push_history (get_id yt (gp_current_track p)) p"
  let ?c = "get_track_failed_playback_count fname (w_failed w)"
  have ok: "player_ok ?p" using assms(2) by (simp add: push_history_simps)
  obtain r p1 where s: "skip_queue 1 True True False ?p = Some (r, p1)" "same_mode ?p p1"
    "names (gp_queue p1) = tl (names (play_order p))"
    "gp_history p1 = gp_history ?p" "gp_max_history_size p1 = gp_max_history_size p"
    using skip_current [OF ok] by (auto simp: push_history_simps)
  have h: "gp_max_history_size p > 0 \<longrightarrow> length (gp_history p1) \<le> gp_max_history_size p"
    using s(4) push_history_simps(5) by simp
  have f: "tr_filename (gp_current_track ?p) = fname" using assms(5) by (simp add: push_history_simps)
  have cnt: "0 \<le> ?c \<Longrightarrow> get_track_failed_playback_count fname
      (snd (set_track_failed_playback_count fname (?c + 1) (w_failed w))) = ?c + 1"
    using assms(6) by (simp add: set_track_failed_playback_count_def get_track_failed_playback_count_def [of _ "f(x \<mapsto> y)" for f x y])
  have run: "track_marker_worker yt dv ev vc g meta w = worker_missing yt dv ev vc g
      (has_permissions dv (dv_guild dv g) (Some (dv_sha_id dv)) (dv_channel dv (gp_text_channel_id ?p))
        [p_view_channel, p_send_messages, p_embed_links]) ?p w"
    using assms(1,3,4,7) f by (simp add: track_marker_worker_def Let_def)
  show ?thesis
    unfolding run worker_missing_def using assms(4,6) s h f cnt create_failed_timer [of fname "ev_now ev" "w_fprt w"]
    by (auto simp: Let_def download_def download_push_def download_mark_def is_waiting_file_download_def)
qed


definition marker_world :: "guild_player_t \<Rightarrow> int \<Rightarrow> world" where
  "marker_world p c = \<lparr>w_mgr = marker_manager p, w_failed = [''1'' \<mapsto> c], w_fprt = [],
    w_dl = \<lparr>dl_waiting = Map.empty, dl_queue = [], dl_running = 0, dl_tasks = []\<rparr>\<rparr>"

theorem missing_file_gives_up_witness:
  "(\<exists>w' p' eff. track_marker_worker sample_yt sample_view marker_env sample_client 1 ''e''
      (marker_world (playing_player [''1'', ''2''] l_none) 2) = Some (w', eff)
    \<and> get_player 1 (w_mgr w') = Some p' \<and> names (gp_queue p') = [''2'']
    \<and> get_track_failed_playback_count ''1'' (w_failed w') = 3
    \<and> is_waiting_file_download ''1'' (w_dl w'))"
  using missing_file_gives_up
    [of 1 "marker_world (playing_player [''1'', ''2''] l_none) 2" "playing_player [''1'', ''2''] l_none"
      sample_view sample_client "''1''" marker_env sample_yt "''e''"]
  by (auto simp: marker_world_def marker_manager_def marker_env_def sample_defs get_track_failed_playback_count_def Let_def)

text \<open>When submitting a stream fails, the player stays marked as processing audio (\<open>init_for_stream\<close>
  has set the flag, and the error path never calls \<open>done_streaming\<close>), and from then on every
  track marker of the guild is refused, whatever its kind and the state of Discord.\<close>

theorem play_failure_blocks_guild:
  assumes "get_player g m = Some p" and "get_voice_conn dv p = Some conn" and "vn_client conn \<noteq> None"
    and "dv_cluster dv" and "play_job dv (Some e) g m = (m1, eff)"
  shows "\<exists>p1. get_player g m1 = Some p1 \<and> gp_processing_audio p1
    \<and> (\<exists>eff1. handle_on_track_marker dv1 ev vc g meta m1 = Inr (False, m1, eff1))"
  using assms
  by (auto simp: play_job_def init_for_stream_def setup_encoder_def handle_on_track_marker_def Let_def
      reset_first_track_current_byte_def split: option.splits list.splits)

theorem play_failure_blocks_guild_witness:
  "\<exists>m1 p1 eff eff1. play_job sample_view (Some 2) 1 (marker_manager (playing_player [''1''] l_none)) = (m1, eff)
    \<and> get_player 1 m1 = Some p1 \<and> gp_processing_audio p1
    \<and> handle_on_track_marker sample_view marker_env (Some sample_client) 1 ''s'' m1 = Inr (False, m1, eff1)"
proof -
  let ?m = "marker_manager (playing_player [''1''] l_none)"
  obtain m1 eff where j: "play_job sample_view (Some 2) 1 ?m = (m1, eff)" by (metis surj_pair)
  have "get_player 1 ?m = Some (playing_player [''1''] l_none)" by (simp add: marker_manager_def)
  moreover have "get_voice_conn sample_view (playing_player [''1''] l_none) = Some sample_conn"
    by (simp add: get_voice_conn_def get_client_def INVALID_SHARD_ID_def sample_view_def)
  ultimately show ?thesis
    using play_failure_blocks_guild [OF _ _ _ _ j, of _ sample_conn sample_view marker_env "Some sample_client" "''s''"] j
    by (force simp: sample_conn_def sample_view_def)
qed


end
