(* ===== verification/Commands.thy ===== *)
theory Commands
  imports Seek TrackMarker
begin

text \<open>
  The commands that work on a player: \<open>src/musicat/cmds/\<close> queue, move, remove, skip
  (with the previous and next buttons), loop, stop, pause, volume and autoplay. An
  optional argument of a command is an \<open>option\<close>; the result is the new state and the
  effects, with the answer to the user as \<open>E_reply\<close>.
\<close>

type_synonym command_result = "(manager \<times> effect list) result"

fun of_option :: "'a option \<Rightarrow> 'a result" where
  "of_option None = Inl Undefined"
| "of_option (Some x) = Inr x"

definition reply :: "string \<Rightarrow> manager \<Rightarrow> command_result" where
  "reply s m = Inr (m, [E_reply s])"

definition update_info_embed :: "snowflake \<Rightarrow> effect" where
  "update_info_embed g = E_player g (Update_info_embed g)"

text \<open>The player as it is after \<open>get_player\<close>, which must not be null here.\<close>

definition with_player :: "snowflake \<Rightarrow> manager \<Rightarrow> (guild_player_t \<Rightarrow> 'a result) \<Rightarrow> 'a result" where
  "with_player g m f = (case get_player g m of None \<Rightarrow> Inl Undefined | Some p \<Rightarrow> f p)"

definition plural :: "nat \<Rightarrow> string" where
  "plural n = (if n \<noteq> 1 then ''s'' else [])"

section \<open>Readiness\<close>

definition cmd_pre_get_player_manager_ready_werr :: "snowflake \<Rightarrow> manager \<Rightarrow> int" where
  "cmd_pre_get_player_manager_ready_werr g m = (if \<not> voice_ready g INVALID_SHARD_ID m then 1 else 0)"

definition not_ready_reply :: string where
  "not_ready_reply = ''Please wait while I'm getting ready to stream''"

definition is_player_not_playing :: "guild_player_t option \<Rightarrow> voiceconn option \<Rightarrow> bool" where
  "is_player_not_playing p v \<longleftrightarrow>
    (case (p, Option.bind v vn_client) of
       (Some p, Some c) \<Rightarrow> \<not> vc_ready c \<or> (fl_less (vc_secs_remaining c) f_0_05 \<and> gp_queue p = [])
     | _ \<Rightarrow> True)"

section \<open>queue\<close>

datatype queue_modify_t = m_shuffle | m_reverse | m_clear_left | m_clear | m_clear_musicat | m_other

text \<open>The users of tracks who are not in the channel, each once, in queue order.\<close>

fun left_users :: "snowflake set \<Rightarrow> snowflake list \<Rightarrow> MCTrack list \<Rightarrow> snowflake list" where
  "left_users present seen [] = []"
| "left_users present seen (t # ts) =
    (if tr_user_id t \<in> set seen then left_users present seen ts
     else if tr_user_id t \<in> present then left_users present (tr_user_id t # seen) ts
     else tr_user_id t # left_users present (tr_user_id t # seen) ts)"

fun remove_users :: "snowflake list \<Rightarrow> guild_player_t \<Rightarrow> nat \<times> guild_player_t" where
  "remove_users [] p = (0, p)"
| "remove_users (u # us) p =
    (case remove_track_by_user u p of (n, p1) \<Rightarrow>
       (case remove_users us p1 of (k, p2) \<Rightarrow> (n + k, p2)))"

text \<open>\<open>queue\<close> is the copy taken before; the work is on the player's own queue.\<close>

definition queue_clear_all :: "snowflake \<Rightarrow> MCTrack list \<Rightarrow> guild_player_t \<Rightarrow> manager \<Rightarrow> command_result" where
  "queue_clear_all g queue p m =
    (if length queue < 2 then reply ''No track to clear, skip the current track to clear the queue completely'' (put_player g p m)
     else case gp_queue p of
       [] \<Rightarrow> Inl Out_of_range
     | t # q \<Rightarrow> Inr (put_player g (queue_add t (queue_clear p)) m,
         [E_publish_queue g, update_info_embed g, E_reply ''Cleared'']))"

definition queue_shuffle :: "64 word list \<Rightarrow> snowflake \<Rightarrow> MCTrack list \<Rightarrow> guild_player_t \<Rightarrow> manager \<Rightarrow> command_result" where
  "queue_shuffle rs g queue p m =
    bind_result (of_option (mgr_shuffle_queue rs g True (put_player g p m))) (\<lambda>(ok, m1, eff).
      if ok then Inr (m1, eff @ [E_publish_queue g, E_reply (''Shuffled'' @ (if length queue < 5
        then '', I suggest the `/move` command if you do think my shuffling skill isn't very much satisfying'' else []))])
      else Inr (m1, eff @ [E_reply ''Doesn't seem like shuffleable'']))"

definition queue_reverse :: "snowflake \<Rightarrow> MCTrack list \<Rightarrow> guild_player_t \<Rightarrow> manager \<Rightarrow> command_result" where
  "queue_reverse g queue p m =
    (let siz = length queue
     in if siz < 3 then reply ''Reversed. Not that you can tell the difference'' (put_player g p m)
        else if length (gp_queue p) < siz then Inl Out_of_range
        else
          let t = gp_queue p ! 0;
              n_queue = map (\<lambda>i. gp_queue p ! i) (rev [1..<siz])
          in Inr (put_player g (queue_add_front t (set_queue n_queue (queue_clear p))) m,
               [E_publish_queue g, update_info_embed g, E_reply ''Reversed'']))"

definition queue_clear_left ::
  "dpp_view \<Rightarrow> 32 word \<Rightarrow> snowflake \<Rightarrow> guild_player_t \<Rightarrow> manager \<Rightarrow> command_result" where
  "queue_clear_left dv shard g p m =
    (let m0 = put_player g p m
     in if \<not> voice_ready g shard m0 then reply ''Establishing connection. Please wait...'' m0
        else case get_voice_from_gid dv g (dv_sha_id dv) of
          None \<Rightarrow> Inl Undefined
        | Some None \<Rightarrow> reply ''`[ERROR]` Can't get current voice connection'' m0
        | Some (Some (_, members)) \<Rightarrow>
            let l_user = left_users (vst_user_id ` snd ` set members) [] (gp_queue p);
                (rmed, p1) = remove_users l_user p;
                usiz = length l_user
            in if usiz = 0 then reply ''No user left this session yet'' (put_player g p1 m)
               else Inr (put_player g p1 m,
                 (if rmed \<noteq> 0 then [E_publish_queue g] else [])
                 @ [update_info_embed g,
                    E_reply (nat_str usiz @ '' user'' @ plural usiz @ '' left this session. Removed ''
                      @ nat_str rmed @ '' track'' @ plural rmed)]))"

definition queue_clear_musicat :: "dpp_view \<Rightarrow> snowflake \<Rightarrow> guild_player_t \<Rightarrow> manager \<Rightarrow> command_result" where
  "queue_clear_musicat dv g p m =
    (case remove_track_by_user (dv_sha_id dv) p of (rmed, p1) \<Rightarrow>
       Inr (put_player g p1 m, (if rmed \<noteq> 0 then [E_publish_queue g] else [])
         @ [E_reply (''Removed '' @ nat_str rmed @ '' track'' @ plural rmed @ '' from queue'')]))"

definition handle_option ::
  "dpp_view \<Rightarrow> 64 word list \<Rightarrow> 32 word \<Rightarrow> snowflake \<Rightarrow> queue_modify_t \<Rightarrow> MCTrack list \<Rightarrow> manager \<Rightarrow> command_result" where
  "handle_option dv rs shard g qarg queue m =
    with_player g m (\<lambda>p0. bind_result (of_option (reset_shifted p0)) (\<lambda>(_, p).
      case qarg of
        m_clear \<Rightarrow> queue_clear_all g queue p m
      | m_shuffle \<Rightarrow> queue_shuffle rs g queue p m
      | m_reverse \<Rightarrow> queue_reverse g queue p m
      | m_clear_left \<Rightarrow> queue_clear_left dv shard g p m
      | m_clear_musicat \<Rightarrow> queue_clear_musicat dv g p m
      | m_other \<Rightarrow> reply ''Option not yet supported and is still in development'' (put_player g p m)))"

definition queue_slash_run ::
  "dpp_view \<Rightarrow> event_env \<Rightarrow> 64 word list \<Rightarrow> 32 word \<Rightarrow> snowflake \<Rightarrow> queue_modify_t option \<Rightarrow> manager \<Rightarrow> command_result" where
  "queue_slash_run dv ev rs shard g qarg m =
    bind_result (of_option (load_guild_current_queue dv (ev_fetch ev) (ev_db_ok ev) (ev_saved_queue ev) g (Some (dv_sha_id dv)) m))
      (\<lambda>(_, m1, eff). bind_result (of_option (get_queue g m1)) (\<lambda>(queue, m2).
        if queue = [] then Inr (m2, eff @ [E_reply ''No track''])
        else case qarg of
          None \<Rightarrow> Inr (m2, eff @ [E_show_queue queue])
        | Some q \<Rightarrow> bind_result (handle_option dv rs shard g q queue m2) (\<lambda>(m3, eff1). Inr (m3, eff @ eff1))))"

section \<open>move\<close>

definition clamp_pos :: "int \<Rightarrow> int \<Rightarrow> int" where
  "clamp_pos max_to x = (let y = (if x < 1 then 1 else x) in if y > max_to then max_to else y)"

definition move_track :: "nat \<Rightarrow> nat \<Rightarrow> guild_player_t \<Rightarrow> guild_player_t option" where
  "move_track fr to p =
    Option.bind (queue_erase fr p) (\<lambda>p1. queue_insert (gp_queue p ! fr) to p1)"

definition move_slash_run :: "yt_api \<Rightarrow> snowflake \<Rightarrow> int option \<Rightarrow> int option \<Rightarrow> manager \<Rightarrow> command_result" where
  "move_slash_run yt g arg_track arg_to m =
    (case get_player g m of
       None \<Rightarrow> reply ''No track'' m
     | Some p \<Rightarrow>
         let max_to = int (length (gp_queue p)) - 1
         in if 2 > max_to then reply ''No moveable track in the queue'' m
            else
              let fr = clamp_pos max_to (case arg_track of None \<Rightarrow> 0 | Some x \<Rightarrow> x);
                  to = clamp_pos max_to (case arg_to of None \<Rightarrow> 0 | Some x \<Rightarrow> x);
                  track = gp_queue p ! nat fr;
                  answer = E_reply (''Moved '' @ get_title yt track @ '' to position '' @ int_str to)
              in if fr = to then Inr (m, [answer])
                 else bind_result (of_option (move_track (nat fr) (nat to) p)) (\<lambda>p1.
                   Inr (put_player g p1 m,
                     [E_publish_queue g]
                     @ (if get_title yt (gp_queue p ! 1) \<noteq> get_title yt (gp_queue p1 ! 1)
                          \<or> get_title yt (last (gp_queue p)) \<noteq> get_title yt (last (gp_queue p1))
                        then [update_info_embed g] else [])
                     @ [answer])))"

section \<open>remove\<close>

definition remove_slash_run ::
  "yt_api \<Rightarrow> snowflake \<Rightarrow> int option \<Rightarrow> int option \<Rightarrow> int option \<Rightarrow> manager \<Rightarrow> command_result" where
  "remove_slash_run yt g arg_track arg_amount arg_to m =
    (let fr = (case arg_track of None \<Rightarrow> 1 | Some x \<Rightarrow> x);
         amount0 = (case arg_amount of None \<Rightarrow> 1 | Some x \<Rightarrow> x);
         to = (case arg_to of None \<Rightarrow> - 1 | Some x \<Rightarrow> x)
     in bind_result (of_option (get_queue g m)) (\<lambda>(queue, m1).
       if fr < 1 \<or> fr + 1 > int (length queue) then reply (''No track in position '' @ int_str fr) m1
       else if to \<noteq> - 1 \<and> to < fr then reply ''Invalid `to` argument. Must be larger than `track`'' m1
       else
         let amount = (if amount0 < 1 then 1 else amount0)
         in bind_result (of_option (mgr_remove_track g (word_of_int fr) (word_of_int amount) (word_of_int to) m1))
           (\<lambda>(ret, m2).
             if ret = 0 then reply ''No track was removed'' m2
             else bind_result (of_option (get_queue g m2)) (\<lambda>(queue2, m3).
               Inr (m3, [E_publish_queue g, E_reply (''Removed '' @ nat_str (unat ret) @ '' track'' @ plural (unat ret))]
                 @ (if length queue2 < 2 \<or> get_title yt (queue2 ! 1) \<noteq> get_title yt (queue ! 1)
                      \<or> get_title yt (last queue2) \<noteq> get_title yt (last queue)
                    then [update_info_embed g] else []))))))"

section \<open>skip\<close>

definition reply_skipped_track :: "yt_api \<Rightarrow> MCTrack list \<Rightarrow> string" where
  "reply_skipped_track yt removed =
    ''Skipped'' @ (case removed of
        [] \<Rightarrow> []
      | [a] \<Rightarrow> '' `'' @ get_title yt a @ ''`''
      | [a, b] \<Rightarrow> '' `'' @ get_title yt a @ ''` and `'' @ get_title yt b @ ''`''
      | a # b # rest \<Rightarrow> '' `'' @ get_title yt a @ ''`, `'' @ get_title yt b @ ''` and ''
          @ nat_str (length rest) @ '' other track'' @ (if length rest > 1 then ''s'' else []))"

definition skip_run ::
  "yt_api \<Rightarrow> dpp_view \<Rightarrow> 32 word \<Rightarrow> snowflake \<Rightarrow> snowflake \<Rightarrow> int \<Rightarrow> int \<Rightarrow> manager
    \<Rightarrow> (string \<times> manager \<times> effect list) result" where
  "skip_run yt dv shard user_id g amount remove m =
    (if cmd_pre_get_player_manager_ready_werr g m = 1 then Inr (not_ready_reply, m, [])
     else bind_result (of_option (mgr_skip dv (dv_voice dv shard g) g user_id amount (remove \<noteq> 0) m))
       (\<lambda>(res, m1, eff). case res of
          Inl (what, code) \<Rightarrow> Inr (what, m1, eff)
        | Inr (removed, status) \<Rightarrow>
            if status = 0 then Inr (reply_skipped_track yt removed, m1, eff @ [E_publish_queue g])
            else if status = - 1 then Inr (''I'm not playing anything'', m1, eff)
            else Inr (int_str status @ '' member'' @ (if status \<noteq> 1 then ''s'' else [])
              @ '' voted to skip, add more vote to skip current track'', m1, eff)))"

definition skip_slash_run ::
  "yt_api \<Rightarrow> dpp_view \<Rightarrow> 32 word \<Rightarrow> snowflake \<Rightarrow> snowflake \<Rightarrow> int option \<Rightarrow> int option \<Rightarrow> manager \<Rightarrow> command_result" where
  "skip_slash_run yt dv shard user_id g arg_amount arg_remove m =
    bind_result (skip_run yt dv shard user_id g (case arg_amount of None \<Rightarrow> 1 | Some x \<Rightarrow> x)
        (case arg_remove of None \<Rightarrow> 0 | Some x \<Rightarrow> x) m)
      (\<lambda>(out, m1, eff). Inr (m1, eff @ [E_reply out]))"

definition button_run_next :: "yt_api \<Rightarrow> dpp_view \<Rightarrow> 32 word \<Rightarrow> snowflake \<Rightarrow> snowflake \<Rightarrow> manager \<Rightarrow> command_result" where
  "button_run_next yt dv shard user_id g m =
    bind_result (skip_run yt dv shard user_id g 1 0 m) (\<lambda>(out, m1, eff). Inr (m1, eff @ [update_info_embed g]))"

text \<open>The last track goes to the front. \<open>None\<close>: undefined behaviour.\<close>

definition rotate_back :: "guild_player_t \<Rightarrow> guild_player_t option" where
  "rotate_back p = queue_pop (queue_add_front (last (gp_queue p)) p)"

definition previous_track ::
  "dpp_view \<Rightarrow> voiceconn option \<Rightarrow> snowflake \<Rightarrow> guild_player_t \<Rightarrow> (guild_player_t \<times> effect list) option" where
  "previous_track dv v g p0 =
    Option.bind (reset_shifted p0) (\<lambda>(_, p).
      let p1 = clear_repeats p
      in if gp_queue p1 = [] then Some (p1, [])
         else Option.bind (rotate_back p1) (\<lambda>p2.
           map_option (\<lambda>(_, p3, eff). (p3, E_publish_queue g # map (E_player g) eff)) (player_skip_playback dv v p2)))"

definition button_run_prev :: "yt_api \<Rightarrow> dpp_view \<Rightarrow> 32 word \<Rightarrow> snowflake \<Rightarrow> manager \<Rightarrow> command_result" where
  "button_run_prev yt dv shard g m =
    bind_result (seek_button_run yt get_to_ms_zero_less_seek_step_err g m) (\<lambda>(status, m1, eff).
      if status = 0 \<or> status \<noteq> 128 then Inr (m1, eff)
      else with_player g m1 (\<lambda>p.
        bind_result (of_option (previous_track dv (dv_voice dv shard g) g p)) (\<lambda>(p1, eff1).
          Inr (put_player g p1 m1, eff @ eff1 @ [update_info_embed g]))))"


section \<open>loop\<close>

fun loop_mode_int :: "loop_mode_t \<Rightarrow> int" where
  "loop_mode_int l_none = 0"
| "loop_mode_int l_song = 1"
| "loop_mode_int l_queue = 2"
| "loop_mode_int l_song_queue = 3"

definition loop_message :: "int \<Rightarrow> string" where
  "loop_message a =
    (if a = 0 then ''Turned off repeat mode'' else if a = 1 then ''Set to repeat a song''
     else if a = 2 then ''Set to repeat queue'' else ''Set to repeat a song and not to remove skipped song'')"

text \<open>The number of times the playing track is repeated.\<close>

definition set_loop_amount :: "yt_api \<Rightarrow> int \<Rightarrow> guild_player_t \<Rightarrow> guild_player_t \<times> bool \<times> string" where
  "set_loop_amount yt l_amount p =
    (let track = (gp_current_track p)\<lparr>tr_repeat := l_amount\<rparr>;
         p1 = p\<lparr>gp_current_track := track\<rparr>;
         (p2, publish) = (case gp_queue p1 of
             t # q \<Rightarrow> (p1\<lparr>gp_queue := t\<lparr>tr_repeat := l_amount\<rparr> # q\<rparr>, False)
           | [] \<Rightarrow> (p1\<lparr>gp_queue := [track]\<rparr>, True))
     in (p2, publish, (if l_amount = 0 then ''Won't'' else ''Will'') @ '' repeat `'' @ get_title yt track @ ''` ''
          @ (if l_amount = 0 then ''anymore''
             else ''for '' @ int_str l_amount @ '' more time'' @ (if l_amount \<noteq> 1 then ''s'' else []))))"

text \<open>\<open>mode\<close> chooses the new mode from the old one; the amount is \<open>-1\<close> when it is not given.\<close>

definition loop_player ::
  "yt_api \<Rightarrow> snowflake \<Rightarrow> (int \<Rightarrow> int) \<Rightarrow> int \<Rightarrow> guild_player_t \<Rightarrow> (string \<times> bool \<times> guild_player_t \<times> effect list) option" where
  "loop_player yt g mode l_amount p0 =
    (let a_l = mode (loop_mode_int (gp_loop_mode p0))
     in if a_l < 0 \<or> a_l > 3 then Some (''Invalid mode'', False, p0, [])
        else map_option (\<lambda>(_, p).
          if \<not> is_empty (gp_current_track p) \<and> l_amount \<ge> 0 \<and> a_l = 1 then
            (case set_loop_amount yt l_amount p of
               (p1, publish, out) \<Rightarrow> (out, True, p1, if publish then [E_publish_queue g] else []))
          else if loop_mode_int (gp_loop_mode p) = a_l then (''Already set to that mode'', False, p, [])
          else (case set_loop_mode a_l p of (p1, eff) \<Rightarrow> (loop_message a_l, True, p1, map (E_player g) eff)))
          (reset_shifted p0))"

definition loop_run ::
  "yt_api \<Rightarrow> dpp_view \<Rightarrow> event_env \<Rightarrow> snowflake \<Rightarrow> snowflake \<Rightarrow> (int \<Rightarrow> int) \<Rightarrow> int \<Rightarrow> bool \<Rightarrow> manager
    \<Rightarrow> (string \<times> manager \<times> effect list) result" where
  "loop_run yt dv ev g user_id mode l_amount update_embed m =
    (if cmd_pre_get_player_manager_ready_werr g m = 1 then Inr (not_ready_reply, m, [])
     else
      bind_result (of_option (get_voice_from_gid dv g user_id)) (\<lambda>uvc. case uvc of
        None \<Rightarrow> Inr (''You're not in a voice channel'', m, [])
      | Some (uc, _) \<Rightarrow>
          bind_result (of_option (get_voice_from_gid dv g (dv_sha_id dv))) (\<lambda>cvc. case cvc of
            None \<Rightarrow> Inr (''I'm not playing anything right now'', m, [])
          | Some (cc, _) \<Rightarrow>
              if ch_id uc \<noteq> ch_id cc then Inr (''You're not in my voice channel'', m, [])
              else case create_player dv g m of
                (None, m1) \<Rightarrow> Inr (''`[ERROR]` Failed creating guild player'', m1, [])
              | (Some p, m1) \<Rightarrow>
                  bind_result (if gp_saved_config_loaded p then Inr (0, m1)
                               else load_guild_player_config dv (ev_saved_config ev) g m1) (\<lambda>(_, m2).
                  with_player g m2 (\<lambda>p2.
                  bind_result (of_option (loop_player yt g mode l_amount p2)) (\<lambda>(out, done, p3, eff).
                    Inr (out, put_player g p3 m2,
                      eff @ (if done \<and> update_embed then [update_info_embed g] else []))))))))"

definition loop_slash_run ::
  "yt_api \<Rightarrow> dpp_view \<Rightarrow> event_env \<Rightarrow> snowflake \<Rightarrow> snowflake \<Rightarrow> int option \<Rightarrow> int option \<Rightarrow> manager \<Rightarrow> command_result" where
  "loop_slash_run yt dv ev g user_id arg_mode arg_amount m =
    bind_result (loop_run yt dv ev g user_id (\<lambda>_. case arg_mode of None \<Rightarrow> 0 | Some x \<Rightarrow> x)
        (case arg_amount of None \<Rightarrow> - 1 | Some x \<Rightarrow> x) True m)
      (\<lambda>(out, m1, eff). Inr (m1, eff @ (if out \<noteq> [] then [E_reply out] else [])))"

text \<open>The loop button goes to the next mode.\<close>

definition next_mode :: "int \<Rightarrow> int" where
  "next_mode current_val = (if current_val \<ge> 3 then 0 else current_val + 1)"

definition handle_button_modal_dialog ::
  "yt_api \<Rightarrow> dpp_view \<Rightarrow> event_env \<Rightarrow> snowflake \<Rightarrow> snowflake \<Rightarrow> manager \<Rightarrow> command_result" where
  "handle_button_modal_dialog yt dv ev g user_id m =
    bind_result (loop_run yt dv ev g user_id next_mode (- 1) False m) (\<lambda>(out, m1, eff).
      Inr (m1, eff @ [update_info_embed g]))"

section \<open>stop, pause, volume and autoplay\<close>

text \<open>Stopping the playback of a player whose voice client is \<open>v\<close>'s; shared with the
  dashboard.\<close>

definition stop_player ::
  "dpp_view \<Rightarrow> voiceconn option \<Rightarrow> snowflake \<Rightarrow> guild_player_t \<Rightarrow> manager \<Rightarrow> (manager \<times> effect list) option" where
  "stop_player dv v g p m =
    map_option (\<lambda>(_, p1, eff). (set_manually_paused g (put_player g (p1\<lparr>gp_stopped := True\<rparr>) m),
        map (E_player g) eff @ [E_player g (Pause_audio True)]))
      (player_skip_playback dv v p)"

definition stop_slash_run :: "dpp_view \<Rightarrow> 32 word \<Rightarrow> snowflake \<Rightarrow> snowflake \<Rightarrow> manager \<Rightarrow> command_result" where
  "stop_slash_run dv shard g user_id m =
    (let v = dv_voice dv shard g
     in if is_player_not_playing (get_player g m) v then reply ''I'm not playing anything'' m
        else if \<not> voice_ready g shard m then reply not_ready_reply m
        else bind_result (of_option (get_voice_from_gid dv g user_id)) (\<lambda>vcu. case vcu of
          None \<Rightarrow> reply ''You're not in a voice channel!'' m
        | Some (c, _) \<Rightarrow>
            if map_option vn_channel_id v \<noteq> Some (ch_id c) then reply ''You're not in my voice channel!'' m
            else with_player g m (\<lambda>p. bind_result (of_option (stop_player dv v g p m)) (\<lambda>(m1, eff).
              Inr (m1, eff @ [E_reply ''Stopped'', update_info_embed g])))))"

definition pause_run ::
  "dpp_view \<Rightarrow> snowflake \<Rightarrow> snowflake \<Rightarrow> bool \<Rightarrow> manager \<Rightarrow> (string \<times> manager \<times> effect list) result" where
  "pause_run dv user_id g update_embed m =
    (if cmd_pre_get_player_manager_ready_werr g m = 1 then Inr (not_ready_reply, m, [])
     else bind_result
       (case get_player g m of
          None \<Rightarrow> Inr True
        | Some p \<Rightarrow> bind_result (of_option (get_voice_from_gid dv g user_id)) (\<lambda>v.
            Inr (user_in_the_same_vc (\<lambda>_. map_option (\<lambda>(c, _). ch_id c) v) user_id p)))
       (\<lambda>same. if \<not> same then Inr (''You're not in my voice channel!'', m, [])
         else case mgr_pause dv g update_embed m of
           (ok, m1, eff) \<Rightarrow> Inr (if ok then ''Paused'' else ''I'm not playing anything'', m1, eff)))"

definition pause_slash_run :: "dpp_view \<Rightarrow> snowflake \<Rightarrow> snowflake \<Rightarrow> manager \<Rightarrow> command_result" where
  "pause_slash_run dv user_id g m =
    bind_result (pause_run dv user_id g True m) (\<lambda>(out, m1, eff). Inr (m1, eff @ [E_reply out]))"

definition pause_button_run :: "dpp_view \<Rightarrow> snowflake \<Rightarrow> snowflake \<Rightarrow> manager \<Rightarrow> command_result" where
  "pause_button_run dv user_id g m =
    bind_result (pause_run dv user_id g False m) (\<lambda>(out, m1, eff). Inr (m1, eff @ [update_info_embed g]))"

definition volume_slash_run :: "snowflake \<Rightarrow> int option \<Rightarrow> manager \<Rightarrow> command_result" where
  "volume_slash_run g arg m =
    (if cmd_pre_get_player_manager_ready_werr g m = 1 then reply not_ready_reply m
     else case get_player g m of
       None \<Rightarrow> reply ''No active player in this guild'' m
     | Some p \<Rightarrow>
         let v_arg = (case arg of None \<Rightarrow> - 1 | Some x \<Rightarrow> x)
         in if v_arg < 1 \<or> v_arg > 500
            then reply ''Invalid `percentage` argument. Must be between 1% and 500% inclusive'' m
            else Inr (put_player g (p\<lparr>gp_volume := v_arg\<rparr>) m,
              [E_reply (''Setting volume to '' @ int_str v_arg @ ''%'')]))"

definition autoplay_player ::
  "snowflake \<Rightarrow> int \<Rightarrow> int \<Rightarrow> guild_player_t \<Rightarrow> guild_player_t \<times> effect list" where
  "autoplay_player g arg_state threshold0 p =
    (let (p1, eff1) = (if arg_state > - 1 then set_auto_play (arg_state \<noteq> 0) p else (p, []));
         reply1 = (if arg_state > - 1
           then ''Autoplay '' @ (if gp_auto_play p1 then ''enabled, add a track to initialize autoplay playlist'' else ''disabled'')
           else ''Autoplay is currently '' @ (if gp_auto_play p then ''enabled'' else ''disabled'')) @ [CHR 0x0A];
         threshold = (if threshold0 > 1000 then 1000 else threshold0);
         (p2, eff2) = (if threshold0 > - 1 then set_max_history_size (word_of_int threshold) p1 else (p1, []));
         reply2 = (if threshold0 > - 1 then ''Set No-Duplicate Threshold to '' @ int_str threshold
           else ''No-Duplicate Threshold is '' @ nat_str (gp_max_history_size p))
     in (p2, map (E_player g) (eff1 @ eff2) @ [E_reply (reply1 @ reply2)]
          @ (if gp_auto_play p \<noteq> gp_auto_play p2
                \<or> (gp_auto_play p2 \<and> gp_max_history_size p \<noteq> gp_max_history_size p2)
             then [update_info_embed g] else [])))"

definition autoplay_slash_run ::
  "dpp_view \<Rightarrow> event_env \<Rightarrow> snowflake \<Rightarrow> int option \<Rightarrow> int option \<Rightarrow> manager \<Rightarrow> command_result" where
  "autoplay_slash_run dv ev g arg_state arg_threshold m =
    (case create_player dv g m of
       (None, m1) \<Rightarrow> reply ''`[ERROR]` Failed creating guild player'' m1
     | (Some p, m1) \<Rightarrow>
         bind_result (if gp_saved_config_loaded p then Inr (0, m1)
                      else load_guild_player_config dv (ev_saved_config ev) g m1) (\<lambda>(_, m2).
         with_player g m2 (\<lambda>p2.
           case autoplay_player g (case arg_state of None \<Rightarrow> - 1 | Some x \<Rightarrow> x)
               (case arg_threshold of None \<Rightarrow> - 1 | Some x \<Rightarrow> x) p2 of
             (p3, eff) \<Rightarrow> Inr (put_player g p3 m2, eff))))"


end
