(* ===== verification/Dashboard.thy ===== *)
theory Dashboard
  imports Commands
begin

text \<open>
  The web socket of the dashboard: \<open>src/musicat/server/ws/player/message.cpp\<close>. A
  connection carries the user and the guild it is registered for; every handler first
  checks that the user may control the player. A status other than 0 closes the socket.
\<close>

section \<open>Connections\<close>

record ws_data =
  ws_user_id :: snowflake
  ws_server_id :: snowflake
  ws_waved :: bool

datatype socket_event_e =
    SOCKET_EVENT_ERROR | SOCKET_EVENT_PAUSE | SOCKET_EVENT_PLAYBACK_INFO | SOCKET_EVENT_PLAY
  | SOCKET_EVENT_SEEK | SOCKET_EVENT_STOP | SOCKET_EVENT_FX | SOCKET_EVENT_QUEUE
  | SOCKET_EVENT_REGISTER | SOCKET_EVENT_NEXT | SOCKET_EVENT_PREV | SOCKET_EVENT_JOINVC
  | SOCKET_EVENT_LEAVEVC | SOCKET_EVENT_PROGRESS | SOCKET_EVENT_OTHER

definition socket_event_of :: "int \<Rightarrow> socket_event_e" where
  "socket_event_of i =
    (if 0 \<le> i \<and> i \<le> 13
     then [SOCKET_EVENT_ERROR, SOCKET_EVENT_PAUSE, SOCKET_EVENT_PLAYBACK_INFO, SOCKET_EVENT_PLAY,
           SOCKET_EVENT_SEEK, SOCKET_EVENT_STOP, SOCKET_EVENT_FX, SOCKET_EVENT_QUEUE,
           SOCKET_EVENT_REGISTER, SOCKET_EVENT_NEXT, SOCKET_EVENT_PREV,
           SOCKET_EVENT_JOINVC, SOCKET_EVENT_LEAVEVC, SOCKET_EVENT_PROGRESS] ! nat i
     else SOCKET_EVENT_OTHER)"

type_synonym ws_result = "(int \<times> manager \<times> effect list) result"

text \<open>The player of the connection's guild: \<open>Inr\<close> when the user may control it, otherwise
  the status and what is sent.\<close>

definition check_user_voicestate ::
  "dpp_view \<Rightarrow> ws_data \<Rightarrow> manager \<Rightarrow> (int \<times> effect list + guild_player_t) result" where
  "check_user_voicestate dv ws m =
    (if ws_user_id ws = 0 then Inr (Inl (- 1, []))
     else case get_player (ws_server_id ws) m of
       None \<Rightarrow> Inr (Inl (- 1, []))
     | Some p \<Rightarrow>
         bind_result
           (if ws_user_id ws \<in> set (gp_dashboard_control_requests p) then Inr True
            else bind_result (of_option (get_voice_from_gid dv (gp_guild_id p) (ws_user_id ws))) (\<lambda>v.
              Inr (can_control_dashboard (\<lambda>_. map_option (\<lambda>(c, _). ch_id c) v) (ws_user_id ws) p)))
           (\<lambda>ok. if ok then Inr (Inr p)
              else Inr (Inl (1, [E_ws_send 0 (JStr ''You're not in my voice channel'')]))))"

text \<open>Every handler starts with that check; status 1 is not an error.\<close>

definition ws_checked :: "dpp_view \<Rightarrow> ws_data \<Rightarrow> manager \<Rightarrow> (guild_player_t \<Rightarrow> ws_result) \<Rightarrow> ws_result" where
  "ws_checked dv ws m f =
    bind_result (check_user_voicestate dv ws m) (\<lambda>r. case r of
      Inl (status, eff) \<Rightarrow> Inr (if status = 1 then 0 else status, m, eff)
    | Inr p \<Rightarrow> f p)"

definition ws_check_health :: "dpp_view \<Rightarrow> snowflake \<Rightarrow> manager \<Rightarrow> (manager \<times> effect list) result" where
  "ws_check_health dv g m =
    bind_result (of_option (check_health dv g m)) (\<lambda>(h, m1, eff).
      Inr (m1, eff @ (if h = H_connect then [E_voice_connect g] else [])))"

section \<open>Handlers\<close>

definition handle_register :: "json \<Rightarrow> manager \<Rightarrow> ws_result" where
  "handle_register data m =
    (if \<not> is_object data then Inr (1, m, [])
     else case jfind data ''uid'' of
       Some (JStr uid) \<Rightarrow> Inr (0, m, [E_ws_register uid])
     | _ \<Rightarrow> Inr (1, m, []))"

definition handle_pause :: "dpp_view \<Rightarrow> ws_data \<Rightarrow> manager \<Rightarrow> ws_result" where
  "handle_pause dv ws m =
    ws_checked dv ws m (\<lambda>p.
      case mgr_pause dv (ws_server_id ws) True m of
        (ok, m1, eff) \<Rightarrow> Inr (0, m1, eff @ (if ok then [] else [E_ws_send 1 JNull])))"

definition handle_play :: "dpp_view \<Rightarrow> ws_data \<Rightarrow> manager \<Rightarrow> ws_result" where
  "handle_play dv ws m =
    ws_checked dv ws m (\<lambda>p.
      let g = ws_server_id ws
      in case get_voice_client dv p of
           None \<Rightarrow> bind_result (ws_check_health dv g m) (\<lambda>(m1, eff). Inr (0, m1, eff @ [E_ws_send 3 JNull]))
         | Some vc \<Rightarrow>
             if vc_paused vc then
               (case mgr_unpause True g True m of
                  (m1, eff) \<Rightarrow> Inr (0, m1, eff @ [update_info_embed g]))
             else if \<not> gp_processing_audio p \<and> gp_queue p \<noteq> [] then
               Inr (0, m, [E_stop_audio g, E_insert_marker g ''c'', update_info_embed g])
             else Inr (0, m, [E_ws_send 3 JNull]))"

definition seek_player_to :: "snowflake \<Rightarrow> int \<Rightarrow> guild_player_t \<Rightarrow> manager \<Rightarrow> manager \<times> effect list" where
  "seek_player_to g total_ms p m =
    (put_player g (p\<lparr>gp_current_track := (gp_current_track p)
        \<lparr>tr_current_byte := byte_of_ms (word_of_int total_ms), tr_seek_to := ''y''\<rparr>\<rparr>) m,
     [E_publish_seek g (word_of_int total_ms), update_info_embed g])"

definition handle_seek :: "dpp_view \<Rightarrow> json \<Rightarrow> ws_data \<Rightarrow> manager \<Rightarrow> ws_result" where
  "handle_seek dv data ws m =
    ws_checked dv ws m (\<lambda>p.
      if \<not> gp_processing_audio p then Inr (0, m, [E_ws_send 4 data])
      else case data of
        JInt total_ms \<Rightarrow>
          if total_ms < 0 then Inr (- 1, m, [])
          else (case seek_player_to (ws_server_id ws) total_ms p m of (m1, eff) \<Rightarrow> Inr (0, m1, eff))
      | _ \<Rightarrow> Inr (- 1, m, []))"

definition handle_stop :: "dpp_view \<Rightarrow> ws_data \<Rightarrow> manager \<Rightarrow> ws_result" where
  "handle_stop dv ws m =
    ws_checked dv ws m (\<lambda>p.
      let g = ws_server_id ws
      in if get_voice_client dv p = None then
           bind_result (ws_check_health dv g m) (\<lambda>(m1, eff). Inr (0, m1, eff @ [E_ws_send 5 JNull]))
         else bind_result (of_option (stop_player dv (get_voice_conn dv p) g p m)) (\<lambda>(m1, eff).
           Inr (0, m1, eff @ [update_info_embed g])))"

text \<open>\<open>queue_payload\<close> is the JSON of the queue.\<close>

definition handle_next :: "dpp_view \<Rightarrow> json \<Rightarrow> ws_data \<Rightarrow> manager \<Rightarrow> ws_result" where
  "handle_next dv queue_payload ws m =
    ws_checked dv ws m (\<lambda>p.
      let g = ws_server_id ws
      in if get_voice_client dv p = None then
           bind_result (ws_check_health dv g m) (\<lambda>(m1, eff). Inr (0, m1, eff @ [E_ws_send 7 queue_payload]))
         else bind_result (of_option (skip_queue 1 False False False p)) (\<lambda>(_, p1).
           bind_result (of_option (player_skip_playback dv (get_voice_conn dv p) p1)) (\<lambda>(_, p2, eff).
             Inr (0, put_player g p2 m, E_publish_queue g # map (E_player g) eff @ [update_info_embed g]))))"

definition handle_prev :: "yt_api \<Rightarrow> dpp_view \<Rightarrow> json \<Rightarrow> ws_data \<Rightarrow> manager \<Rightarrow> ws_result" where
  "handle_prev yt dv queue_payload ws m =
    ws_checked dv ws m (\<lambda>p.
      let g = ws_server_id ws
      in if get_voice_client dv p = None then
           bind_result (ws_check_health dv g m) (\<lambda>(m1, eff). Inr (0, m1, eff @ [E_ws_send 7 queue_payload]))
         else bind_result (get_track_progress yt (gp_current_track p)) (\<lambda>prog.
           if tp_current_ms prog \<ge> second_seek_step then handle_seek dv (JInt 0) ws m
           else bind_result (of_option (previous_track dv (get_voice_conn dv p) g p)) (\<lambda>(p1, eff).
             Inr (0, put_player g p1 m,
               eff @ (if gp_queue p1 = [] then [E_ws_send 3 JNull] else []) @ [update_info_embed g]))))"

section \<open>Messages\<close>

definition handle_message ::
  "yt_api \<Rightarrow> dpp_view \<Rightarrow> json \<Rightarrow> socket_event_e \<Rightarrow> json \<Rightarrow> ws_data \<Rightarrow> manager \<Rightarrow> ws_result" where
  "handle_message yt dv queue_payload e payload ws m =
    (let data = (case jfind payload ''d'' of Some d \<Rightarrow> d | None \<Rightarrow> JNull)
     in case e of
          SOCKET_EVENT_PAUSE \<Rightarrow> handle_pause dv ws m
        | SOCKET_EVENT_PLAY \<Rightarrow> handle_play dv ws m
        | SOCKET_EVENT_SEEK \<Rightarrow> handle_seek dv data ws m
        | SOCKET_EVENT_STOP \<Rightarrow> handle_stop dv ws m
        | SOCKET_EVENT_REGISTER \<Rightarrow> handle_register data m
        | SOCKET_EVENT_NEXT \<Rightarrow> handle_next dv queue_payload ws m
        | SOCKET_EVENT_PREV \<Rightarrow> handle_prev yt dv queue_payload ws m
        | _ \<Rightarrow> Inr (0, m, []))"

text \<open>What a message makes of the outcome of its handler: an exception of the JSON
  library closes the socket, as a status does.\<close>

fun ws_finish :: "ws_data \<Rightarrow> manager \<Rightarrow> ws_result \<Rightarrow> (ws_data \<times> manager \<times> effect list) result" where
  "ws_finish ws m (Inl Type_error) = Inr (ws, m, [E_ws_close])"
| "ws_finish ws m (Inl e) = Inl e"
| "ws_finish ws m (Inr (status, m1, eff)) = Inr (ws, m1, eff @ (if status \<noteq> 0 then [E_ws_close] else []))"

text \<open>\<open>parsed\<close> is the JSON of the message, \<open>None\<close> when it does not parse. The two plain
  texts are answered before. Event numbers outside the enumeration are handled by nobody.\<close>

definition ws_message ::
  "yt_api \<Rightarrow> dpp_view \<Rightarrow> json \<Rightarrow> string \<Rightarrow> json option \<Rightarrow> ws_data \<Rightarrow> manager
    \<Rightarrow> (ws_data \<times> manager \<times> effect list) result" where
  "ws_message yt dv queue_payload msg parsed ws m =
    (if msg = [] then Inr (ws, m, [])
     else if msg = ''meow!'' then Inr (ws\<lparr>ws_waved := True\<rparr>, m, [E_ws_text ''(^v^)''])
     else if msg = ''0'' then Inr (ws, m, [E_ws_text ''0''])
     else case parsed of
       None \<Rightarrow> Inr (ws, m, [E_ws_close])
     | Some payload \<Rightarrow>
         (case (if is_object payload then jfind payload ''e'' else None) of
            Some (JInt e) \<Rightarrow>
              ws_finish ws m (handle_message yt dv queue_payload (socket_event_of e) payload ws m)
          | Some (JFloat r) \<Rightarrow>
              bind_result (get_int64 (JFloat r)) (\<lambda>e.
                ws_finish ws m (handle_message yt dv queue_payload (socket_event_of e) payload ws m))
          | _ \<Rightarrow> Inr (ws, m, [E_ws_close])))"

end
