(* ===== verification/Play.thy ===== *)
theory Play
  imports Dashboard
begin

text \<open>
  Adding tracks: \<open>src/musicat/cmds/play.cpp\<close>, \<open>join.cpp\<close>, \<open>playlist.cpp\<close>, \<open>progress.cpp\<close>, and
  \<open>add_track\<close>, \<open>run_add_track_thread\<close>, \<open>run_download_thread\<close> of \<open>player_manager_util.cpp\<close>. The play
  command hands a job to the task queue, which searches the track and hands on a second one, which
  waits for the download and puts the track into the queue; the jobs are values here, and each of
  the three parts runs on the state it finds. Discord's caches are \<open>dpp_view\<close>, the searches, the
  files and the database are arguments.
\<close>

section \<open>Jobs\<close>

record add_job =
  aj_playlist :: bool
  aj_guild :: snowflake
  aj_query :: string
  aj_top :: int
  aj_vcclient_cont :: bool
  aj_has_v :: bool
  aj_channel :: snowflake
  aj_from_interaction :: bool
  aj_shard :: "32 word"
  aj_user :: snowflake
  aj_text_channel :: snowflake
  aj_continued :: bool
  aj_slip :: int

record download_job =
  dj_shard :: "32 word"
  dj_dling :: bool
  dj_fname :: string
  dj_top :: bool
  dj_from_interaction :: bool
  dj_guild :: snowflake
  dj_user :: snowflake
  dj_text_channel :: snowflake
  dj_continued :: bool
  dj_slip :: int
  dj_result :: MCTrack
  dj_response :: string

definition str_queue_position :: "int \<Rightarrow> string" where
  "str_queue_position position =
    (if position = 1 then ''the top of the queue''
     else if position > 1 then ''position '' @ int_str position
     else ''the end of the queue'')"

definition reply_downloading_track :: "string \<Rightarrow> string" where
  "reply_downloading_track title = ''Downloading `'' @ title @ ''`... Gimme 10 sec ight''"

definition reply_added_track :: "string \<Rightarrow> int \<Rightarrow> string" where
  "reply_added_track title position = ''Added `'' @ title @ ''` to '' @ str_queue_position position"

definition reply_added_playlist :: "string \<Rightarrow> int \<Rightarrow> int \<Rightarrow> string" where
  "reply_added_playlist name position n =
    ''Added '' @ int_str n @ '' track'' @ (if n > 1 then ''s'' else []) @ '' from playlist `'' @ name @ ''` to ''
      @ str_queue_position position"

section \<open>The play command\<close>

text \<open>Where the user and the bot are. \<open>conn_after\<close> is what the library reports for the connection
  once the command has disconnected a stale one. The left side of the sum is a refusal.\<close>

record play_place =
  pp_user_channel :: snowflake
  pp_bot_channel :: "snowflake option"
  pp_cont :: bool
  pp_conn :: "voiceconn option"
  pp_reconnecting :: bool

definition play_permitted :: "dpp_view \<Rightarrow> snowflake \<Rightarrow> channel \<Rightarrow> bool" where
  "play_permitted dv g c =
    (if dv_user_is_bot dv (dv_sha_id dv) = None then True
     else let cperm = dv_permissions dv g (dv_sha_id dv) (ch_id c)
       in and cperm p_view_channel \<noteq> 0 \<and> and cperm p_connect \<noteq> 0)"

definition play_enter ::
  "dpp_view \<Rightarrow> voiceconn option \<Rightarrow> 32 word \<Rightarrow> snowflake \<Rightarrow> snowflake \<Rightarrow> manager
    \<Rightarrow> (string + play_place \<times> manager \<times> effect list) result" where
  "play_enter dv conn_after shard user_id g m =
    (if cmd_pre_get_player_manager_ready_werr g m = 1 then Inr (Inl not_ready_reply)
     else bind_result (of_option (get_voice_from_gid dv g user_id)) (\<lambda>vcuser.
       case vcuser of
         None \<Rightarrow> Inr (Inl ''Join a voice channel first you dummy'')
       | Some (uc, _) \<Rightarrow>
           if \<not> play_permitted dv g uc then Inr (Inl ''I have no permission to join your voice channel'')
           else bind_result (of_option (get_voice_from_gid dv g (dv_sha_id dv))) (\<lambda>vcclient.
             let stale = (vcclient = None \<and> dv_voice dv shard g \<noteq> None);
                 v = (if stale then conn_after else dv_voice dv shard g);
                 eff1 = (if stale then [E_disconnect_voice g] else []);
                 bot = map_option (\<lambda>(c, _). ch_id c) vcclient;
                 moved = (case (bot, v) of (Some b, Some conn) \<Rightarrow> vn_channel_id conn \<noteq> b | _ \<Rightarrow> False);
                 m1 = (if moved then set_disconnecting dv g (the bot) m else m);
                 eff2 = eff1 @ (if moved then [E_disconnect_voice g] else []);
                 cont = (bot \<noteq> None \<and> \<not> moved);
                 place = \<lparr>pp_user_channel = ch_id uc, pp_bot_channel = bot, pp_cont = cont, pp_conn = v, pp_reconnecting = False\<rparr>
             in if cont \<and> bot \<noteq> Some (ch_id uc)
                then if has_listener dv (members_of vcclient)
                  then Inr (Inl ''Sorry but I'm already in another voice channel'')
                  else bind_result (of_option (full_reconnect dv shard g (the bot) (ch_id uc) False m1)) (\<lambda>(_, m2, eff).
                    Inr (Inr (place\<lparr>pp_cont := False, pp_reconnecting := True\<rparr>, m2, eff2 @ eff)))
                else Inr (Inr (place, m1, eff2)))))"

text \<open>Resuming a paused playback and nudging one that stopped: resumed, continued.\<close>

definition play_resume ::
  "dpp_view \<Rightarrow> bool \<Rightarrow> bool \<Rightarrow> snowflake \<Rightarrow> play_place \<Rightarrow> manager \<Rightarrow> ((bool \<times> bool) \<times> manager \<times> effect list) result" where
  "play_resume dv no_query update_info g place m =
    (let vc = Option.bind (pp_conn place) vn_client;
         paused = (case (vc, pp_conn place) of
             (Some c, Some conn) \<Rightarrow> vc_paused c \<and> vn_channel_id conn = pp_user_channel place | _ \<Rightarrow> False);
         (m1, eff1) = (if paused then mgr_unpause True g update_info m else (m, []));
         resumed = (paused \<and> no_query)
     in case get_player g m1 of
          None \<Rightarrow> Inr ((resumed, False), m1, eff1)
        | Some p \<Rightarrow>
            let should_continue = (case vc of None \<Rightarrow> False
                  | Some c \<Rightarrow> gp_queue p \<noteq> [] \<and> \<not> (vc_paused c \<and> \<not> paused) \<and> fl_less (vc_secs_remaining c) f_0_05)
            in bind_result (if should_continue then Inr (m1, [E_stop_audio g, E_insert_marker g ''c'']) else ws_check_health dv g m1)
              (\<lambda>(m2, eff2). case get_player g m2 of None \<Rightarrow> Inl Undefined
                 | Some p2 \<Rightarrow> Inr ((resumed, should_continue),
                     (if resumed then put_player g (p2\<lparr>gp_tried_continuing := True\<rparr>) m2 else m2), eff1 @ eff2)))"

definition play_run ::
  "dpp_view \<Rightarrow> voiceconn option \<Rightarrow> 32 word \<Rightarrow> snowflake \<Rightarrow> snowflake \<Rightarrow> snowflake \<Rightarrow> string \<Rightarrow> int \<Rightarrow> int \<Rightarrow> bool \<Rightarrow> bool
    \<Rightarrow> manager \<Rightarrow> ((int \<times> string) \<times> manager \<times> effect list \<times> add_job option) result" where
  "play_run dv conn_after shard user_id text_channel g arg_query arg_top arg_slip button_run update_info m =
    bind_result (play_enter dv conn_after shard user_id g m) (\<lambda>r. case r of
      Inl out \<Rightarrow> Inr ((1, out), m, [], None)
    | Inr (place, m1, eff1) \<Rightarrow>
        let no_query = (arg_query = [])
        in bind_result (play_resume dv no_query update_info g place m1) (\<lambda>((resumed, continued), m2, eff2).
          let eff = eff1 @ eff2
          in if resumed then Inr ((1, ''Resumed''), m2, eff, None)
             else if no_query then
               if \<not> continued
               then Inr ((1, ''Provide song query if you wanna add a song, may be URL or song name''), m2, eff, None)
               else with_player g m2 (\<lambda>p.
                 if \<not> gp_tried_continuing p \<or> pp_reconnecting place
                 then Inr ((1, ''`[SUS]` Something's fishy going on with my mixer''),
                   put_player g (p\<lparr>gp_tried_continuing := True\<rparr>) m2, eff, None)
                 else case pp_bot_channel place of None \<Rightarrow> Inl Undefined
                   | Some b \<Rightarrow>
                       bind_result (of_option (full_reconnect dv shard g b (pp_user_channel place) False m2)) (\<lambda>(_, m3, eff3).
                         Inr ((1, ''`[CRAP]` Seems like I'm broken, lemme fix myself brb''), m3, eff @ eff3, None)))
             else if button_run then Inr ((- 2, []), m2, eff, None)
             else Inr ((0, []), m2, eff, Some
               \<lparr>aj_playlist = False, aj_guild = g, aj_query = arg_query, aj_top = arg_top, aj_vcclient_cont = pp_cont place,
                aj_has_v = (pp_conn place \<noteq> None), aj_channel = pp_user_channel place, aj_from_interaction = True,
                aj_shard = shard, aj_user = user_id, aj_text_channel = text_channel, aj_continued = continued, aj_slip = arg_slip\<rparr>)))"

definition play_slash_run ::
  "dpp_view \<Rightarrow> voiceconn option \<Rightarrow> 32 word \<Rightarrow> snowflake \<Rightarrow> snowflake \<Rightarrow> snowflake \<Rightarrow> string \<Rightarrow> int \<Rightarrow> int
    \<Rightarrow> manager \<Rightarrow> (manager \<times> effect list \<times> add_job option) result" where
  "play_slash_run dv conn_after shard user_id text_channel g arg_query arg_top arg_slip m =
    bind_result (play_run dv conn_after shard user_id text_channel g arg_query arg_top arg_slip False True m)
      (\<lambda>((status, out), m1, eff, job). Inr (m1, eff @ (if status = 1 then [E_reply out] else []), job))"

definition play_button_run ::
  "dpp_view \<Rightarrow> voiceconn option \<Rightarrow> 32 word \<Rightarrow> snowflake \<Rightarrow> snowflake \<Rightarrow> snowflake \<Rightarrow> manager
    \<Rightarrow> (manager \<times> effect list \<times> add_job option) result" where
  "play_button_run dv conn_after shard user_id text_channel g m =
    bind_result (play_run dv conn_after shard user_id text_channel g [] 0 0 True False m)
      (\<lambda>(_, m1, eff, job). Inr (m1, eff @ [update_info_embed g], job))"

section \<open>Searching and queueing\<close>

definition client_of :: "dpp_view \<Rightarrow> 32 word \<Rightarrow> 32 word option" where
  "client_of dv shard = (if dv_cluster dv \<and> dv_shard dv shard then Some shard else None)"

text \<open>The first job. The search, the files on disk and the clock of the library are arguments; the
  second job is returned when the first gets that far.\<close>

definition run_add_track_thread ::
  "yt_api \<Rightarrow> dpp_view \<Rightarrow> (string \<Rightarrow> int \<Rightarrow> bool \<Rightarrow> json) \<Rightarrow> (string \<Rightarrow> bool) \<Rightarrow> add_job \<Rightarrow> manager \<Rightarrow> downloads
    \<Rightarrow> manager \<times> downloads \<times> effect list \<times> download_job option" where
  "run_add_track_thread yt dv fetch on_disk j m d =
    (let g = aj_guild j;
         inter = aj_from_interaction j;
         respond = (\<lambda>s. if inter then [E_reply s] else [])
     in case find_track yt fetch (get_player g m) (aj_playlist j) (aj_query j) False of
          (result, status) \<Rightarrow>
            if status = - 1 \<and> inter then (m, d, [E_reply ''Can't find anything''], None)
            else if status = 1 then (m, d, [], None)
            else if status = 2 \<and> inter then (m, d, [E_reply ''Error while searching, try again''], None)
            else
              let fname = get_filename_from_result yt result;
                  (m1, eff1) = (if inter \<and> (\<not> aj_vcclient_cont j \<or> \<not> aj_has_v j)
                    then set_waiting_vc_ready dv g fname (set_connecting g (aj_channel j) m) else (m, []))
              in case track_exist on_disk fname (get_url yt result) inter g False d of
                   ((dling, ex), d1) \<Rightarrow>
                     if ex = 2 then (m1, d1, eff1 @ respond ''`[ERROR]` Unable to find track'', None)
                     else
                       let added = reply_added_track (get_title yt result) (if aj_top j \<noteq> 0 then aj_top j else aj_slip j);
                           eff2 = (if ex = 1 then [E_reply (if dling then reply_downloading_track (get_title yt result) else added)] else []);
                           shard = (case client_of dv (aj_shard j) of None \<Rightarrow> 0 | Some s \<Rightarrow> s)
                       in (m1, d1, eff1 @ eff2 @ [E_reconnect shard g], Some
                            \<lparr>dj_shard = aj_shard j, dj_dling = dling, dj_fname = fname, dj_top = (aj_top j \<noteq> 0),
                             dj_from_interaction = inter, dj_guild = g,
                             dj_user = (if inter then aj_user j else dv_sha_id dv), dj_text_channel = aj_text_channel j,
                             dj_continued = aj_continued j, dj_slip = aj_slip j, dj_result = result, dj_response = added\<rparr>))"

text \<open>The second job, once the file is no longer waited for. \<open>None\<close>: undefined.\<close>

definition run_download_thread ::
  "dpp_view \<Rightarrow> event_env \<Rightarrow> download_job \<Rightarrow> manager \<Rightarrow> (manager \<times> effect list) option" where
  "run_download_thread dv ev j m =
    (let g = dj_guild j
     in case create_player dv g m of
          (None, m1) \<Rightarrow> Some (m1, [])
        | (Some p, m1) \<Rightarrow>
            let p1 = (if dj_from_interaction j then set_channel (dj_text_channel j) p else p);
                eff1 = (if dj_dling j \<and> dj_from_interaction j then [E_reply (dj_response j)] else []);
                t = (dj_result j)\<lparr>tr_filename := dj_fname j, tr_user_id := dj_user j\<rparr>
            in Option.bind (add_track (ev_fetch ev t) (dj_top j) g (dj_from_interaction j \<or> dj_dling j) (dj_slip j) t p1)
                 (\<lambda>(_, p2, eff2). map_option (\<lambda>eff3.
                    (put_player g p2 m1, eff1 @ map (E_player g) eff2 @ [E_publish_queue g] @ eff3))
                    (decide_play dv (ev_running ev) (client_of dv (dj_shard j)) g (dj_continued j))))"

text \<open>When the tasks may start.\<close>

definition download_job_ready :: "throttler \<Rightarrow> download_job \<Rightarrow> downloads \<Rightarrow> bool" where
  "download_job_ready th j d \<longleftrightarrow> \<not> run_download_thread_will_block th (dj_result j) (dj_fname j) d"

section \<open>Joining and leaving\<close>

definition join_voice ::
  "dpp_view \<Rightarrow> 32 word \<Rightarrow> snowflake \<Rightarrow> snowflake \<Rightarrow> manager \<Rightarrow> (int \<times> manager \<times> effect list) result" where
  "join_voice dv shard g user_id m =
    bind_result (of_option (get_voice_from_gid dv g user_id)) (\<lambda>c. case c of
      None \<Rightarrow> Inr (1, m, [])
    | Some (uc, _) \<Rightarrow>
        if ch_id uc = 0 then Inr (3, m, [])
        else bind_result (of_option (get_voice_from_gid dv g (dv_sha_id dv))) (\<lambda>c2.
          if has_listener dv (members_of c2) then Inr (2, m, [])
          else if \<not> has_permissions_from_ids dv g (dv_sha_id dv) (ch_id uc) [p_view_channel, p_connect] then Inr (4, m, [])
          else bind_result (of_option (full_reconnect dv shard g (case c2 of None \<Rightarrow> 0 | Some (bc, _) \<Rightarrow> ch_id bc) (ch_id uc) False m))
            (\<lambda>(_, m1, eff). Inr (0, m1, eff))))"

definition join_reply :: "int \<Rightarrow> string" where
  "join_reply res =
    (if res = 0 then ''Joining...''
     else if res = 1 then ''Join a voice channel first you dummy''
     else if res = 2 then ''I'm already in a voice channel''
     else if res = 3 then ''`[ERROR]` No channel to join''
     else if res = 4 then ''I have no permission to join your voice channel''
     else ''`[ERROR]` Unknown status code: '' @ int_str res)"

definition join_slash_run ::
  "dpp_view \<Rightarrow> 32 word \<Rightarrow> snowflake \<Rightarrow> snowflake \<Rightarrow> snowflake \<Rightarrow> manager \<Rightarrow> command_result" where
  "join_slash_run dv shard g user_id text_channel m =
    (case create_player dv g m of
       (None, m1) \<Rightarrow> reply ''`[ERROR]` Failed creating guild player'' m1
     | (Some p, m1) \<Rightarrow>
         let m2 = (if gp_text_channel_id p = 0 then put_player g (set_channel text_channel p) m1 else m1)
         in bind_result (join_voice dv shard g user_id m2) (\<lambda>(res, m3, eff).
              with_player g m3 (\<lambda>p1.
                Inr (if res = 0 then put_player g (set_channel text_channel p1) m3 else m3, eff @ [E_reply (join_reply res)]))))"

definition leave_slash_run :: "dpp_view \<Rightarrow> snowflake \<Rightarrow> snowflake \<Rightarrow> manager \<Rightarrow> command_result" where
  "leave_slash_run dv g user_id m =
    bind_result (of_option (get_voice_from_gid dv g user_id)) (\<lambda>usc. case usc of
      None \<Rightarrow> reply ''You're not in a voice channel'' m
    | Some (uc, _) \<Rightarrow>
        bind_result (of_option (get_voice_from_gid dv g (dv_sha_id dv))) (\<lambda>vcc. case vcc of
          None \<Rightarrow> reply ''I'm not in a voice channel'' m
        | Some (bc, _) \<Rightarrow>
            if ch_id bc \<noteq> 0 \<and> ch_id uc \<noteq> ch_id bc then reply ''You're not in my voice channel'' m
            else Inr (set_disconnecting dv g (ch_id uc) m, [E_disconnect_voice g, E_reply ''Leaving...''])))"

section \<open>Playlists\<close>

datatype playlist_db = Save_playlist snowflake string "MCTrack list" | Delete_playlist snowflake string

definition playlist_save ::
  "bool \<Rightarrow> snowflake \<Rightarrow> snowflake \<Rightarrow> string \<Rightarrow> manager \<Rightarrow> (manager \<times> effect list \<times> playlist_db list) result" where
  "playlist_save command_ok g user_id p_id m =
    bind_result (of_option (get_queue g m)) (\<lambda>(q, m1).
      if q = [] then Inr (m1, [E_reply ''Not a single track currently waiting in the queue''], [])
      else Inr (m1, [E_reply (if command_ok
          then ''Saved playlist containing '' @ nat_str (length q) @ '' track'' @ (if length q > 1 then ''s'' else [])
            @ '' with Id: '' @ p_id
          else ''Somethin went wrong, can't save playlist'')], [Save_playlist user_id p_id q]))"

text \<open>What the database returns for a playlist: the tracks with the status of reading them, and
  the status of the query with whether it has a result.\<close>

record playlist_reply =
  pr_tracks :: "MCTrack list"
  pr_status :: int
  pr_has_result :: bool
  pr_code :: int

definition playlist_error :: "playlist_reply \<Rightarrow> string option" where
  "playlist_error r =
    (if pr_status r = - 2
     then Some (if \<not> pr_has_result r
       then if pr_code r = - 3 then ''Invalid `id` format!''
         else ''`[ERROR]` Unexpected error getting user playlist with code: '' @ int_str (pr_code r)
       else ''Unknown playlist'')
     else if pr_status r = - 1 then Some ''This playlist is empty, save a new one with the same Id to overwrite it''
     else None)"

fun add_tracks :: "(MCTrack \<Rightarrow> json option) \<Rightarrow> bool \<Rightarrow> snowflake \<Rightarrow> MCTrack list \<Rightarrow> guild_player_t \<Rightarrow> guild_player_t option" where
  "add_tracks fetched to_front g [] p = Some p"
| "add_tracks fetched to_front g (t # ts) p =
    Option.bind (add_track (fetched t) to_front g False 0 t p) (\<lambda>(_, p1, _). add_tracks fetched to_front g ts p1)"

definition playlist_load ::
  "dpp_view \<Rightarrow> event_env \<Rightarrow> 32 word \<Rightarrow> snowflake \<Rightarrow> snowflake \<Rightarrow> string \<Rightarrow> int \<Rightarrow> bool \<Rightarrow> playlist_reply \<Rightarrow> manager
    \<Rightarrow> command_result" where
  "playlist_load dv ev shard g user_id p_id arg_top view r m =
    (case playlist_error r of
       Some e \<Rightarrow> reply e m
     | None \<Rightarrow>
         let add_to_top = (arg_top \<noteq> 0);
             to_iter = map (\<lambda>t. t\<lparr>tr_user_id := user_id\<rparr>) (if add_to_top then rev (pr_tracks r) else pr_tracks r)
         in if view then Inr (m, [E_show_queue to_iter])
            else case create_player dv g m of
              (None, m1) \<Rightarrow> reply ''`[ERROR]` Failed creating guild player'' m1
            | (Some p, m1) \<Rightarrow>
                bind_result (of_option (add_tracks (ev_fetch ev) add_to_top g to_iter p)) (\<lambda>p1.
                  bind_result (join_voice dv shard g user_id (put_player g p1 m1)) (\<lambda>(_, m2, eff).
                    Inr (m2, (if to_iter \<noteq> [] then [E_publish_queue g, update_info_embed g] else [])
                      @ [E_reply (reply_added_playlist p_id arg_top (int (length to_iter)))] @ eff))))"

definition playlist_delete :: "bool \<Rightarrow> snowflake \<Rightarrow> string \<Rightarrow> manager \<Rightarrow> manager \<times> effect list \<times> playlist_db list" where
  "playlist_delete tuples_ok user_id p_id m =
    (m, [E_reply (if tuples_ok then ''Deleted playlist '' @ p_id else ''Unknown playlist'')], [Delete_playlist user_id p_id])"

definition playlist_slash_run ::
  "dpp_view \<Rightarrow> event_env \<Rightarrow> 32 word \<Rightarrow> snowflake \<Rightarrow> snowflake \<Rightarrow> string option \<Rightarrow> string \<Rightarrow> int \<Rightarrow> bool \<Rightarrow> playlist_reply \<Rightarrow> manager
    \<Rightarrow> (manager \<times> effect list \<times> playlist_db list) result" where
  "playlist_slash_run dv ev shard g user_id cmd p_id arg_top db_ok r m =
    (let none = (\<lambda>c. bind_result c (\<lambda>(m1, eff). Inr (m1, eff, [])))
     in case cmd of
          None \<Rightarrow> none (reply ''I don't have that command, how'd you get that?? Please report this to my developer'' m)
        | Some c \<Rightarrow>
            if c = ''save'' then playlist_save db_ok g user_id p_id m
            else if c = ''load'' \<or> c = ''view''
            then none (playlist_load dv ev shard g user_id p_id arg_top (c = ''view'') r m)
            else if c = ''delete'' then Inr (playlist_delete db_ok user_id p_id m)
            else none (reply ''Somethin went horribly wrong.... Please quickly report this to my developer'' m))"

section \<open>Progress\<close>

definition process_progress :: "yt_api \<Rightarrow> snowflake \<Rightarrow> manager \<Rightarrow> (string + MCTrack \<times> track_progress) result" where
  "process_progress yt g m =
    (case get_player g m of
       None \<Rightarrow> Inr (Inl ''I'm not playing anything'')
     | Some p \<Rightarrow>
         if \<not> player_has_current_track (Some p) then Inr (Inl ''Not playing anything'')
         else bind_result (get_track_progress yt (gp_current_track p)) (\<lambda>prog.
           if tp_status prog \<noteq> 0 then Inr (Inl ''`[ERROR]` Missing metadata'')
           else Inr (Inr (gp_current_track p, prog))))"

text \<open>What the command answers: a text, or an embed of title, url and description.\<close>

datatype progress_answer = Progress_text string | Progress_embed string string string

definition reply_embed :: "yt_api \<Rightarrow> MCTrack \<Rightarrow> int \<Rightarrow> int \<Rightarrow> progress_answer" where
  "reply_embed yt t current_ms duration = Progress_embed (get_title yt t) (get_url yt t)
    (''['' @ format_duration (word_of_int current_ms) @ ''/'' @ format_duration (word_of_int duration) @ '']'')"

definition update_progress :: "yt_api \<Rightarrow> snowflake \<Rightarrow> manager \<Rightarrow> progress_answer result" where
  "update_progress yt g m = bind_result (process_progress yt g m) (\<lambda>r. case r of
     Inl e \<Rightarrow> Inr (Progress_text e)
   | Inr (t, prog) \<Rightarrow> Inr (reply_embed yt t (tp_current_ms prog) (tp_duration prog)))"

definition progress_slash_run :: "yt_api \<Rightarrow> snowflake \<Rightarrow> manager \<Rightarrow> progress_answer result" where
  "progress_slash_run yt g m =
    (if cmd_pre_get_player_manager_ready_werr g m = 1 then Inr (Progress_text not_ready_reply)
     else update_progress yt g m)"

section \<open>Where added tracks are played\<close>

lemma with_player_iff: "with_player g m f = Inr r \<longleftrightarrow> (\<exists>p. get_player g m = Some p \<and> f p = Inr r)"
  by (auto simp: with_player_def split: option.splits)

lemma of_option_iff: "of_option x = Inr y \<longleftrightarrow> x = Some y"
  by (cases x) auto

lemmas command_iff = with_player_iff of_option_iff bind_result_Inr_iff reply_def

lemma with_playerE:
  assumes "with_player g m f = Inr r" obtains p where "get_player g m = Some p" and "f p = Inr r"
  using assms by (auto simp: with_player_iff)

lemma play_run_job:
  assumes "play_run dv conn_after shard u tc g q tp slip btn upd m = Inr ((s, out), m1, eff, Some j)"
  shows "aj_guild j = g \<and> aj_user j = u \<and> aj_top j = tp \<and> aj_slip j = slip \<and> aj_query j = q \<and> q \<noteq> []
    \<and> aj_from_interaction j \<and> aj_text_channel j = tc \<and> \<not> aj_playlist j \<and> s = 0 \<and> \<not> btn"
  using assms unfolding play_run_def Let_def
  by (auto elim!: bind_resultE with_playerE split: sum.split_asm if_split_asm option.split_asm)

lemma run_add_track_job:
  assumes "run_add_track_thread yt dv fetch on_disk j m d = (m1, d1, eff, Some dj)"
  shows "dj_guild dj = aj_guild j \<and> (aj_from_interaction j \<longrightarrow> dj_user dj = aj_user j) \<and> dj_top dj = (aj_top j \<noteq> 0)
    \<and> dj_slip dj = aj_slip j \<and> dj_from_interaction dj = aj_from_interaction j \<and> dj_text_channel dj = aj_text_channel j
    \<and> dj_result dj = fst (find_track yt fetch (get_player (aj_guild j) m) (aj_playlist j) (aj_query j) False)
    \<and> dj_fname dj = get_filename_from_result yt (dj_result dj) \<and> dj_fname dj \<noteq> []
    \<and> dj_response dj = reply_added_track (get_title yt (dj_result dj)) (if aj_top j \<noteq> 0 then aj_top j else aj_slip j)"
proof -
  obtain r st where f: "find_track yt fetch (get_player (aj_guild j) m) (aj_playlist j) (aj_query j) False = (r, st)"
    by (metis surj_pair)
  obtain dl ex d2 where t: "track_exist on_disk (get_filename_from_result yt r) (get_url yt r) (aj_from_interaction j)
      (aj_guild j) False d = ((dl, ex), d2)"
    by (metis surj_pair)
  have n: "ex \<noteq> 2 \<Longrightarrow> get_filename_from_result yt r \<noteq> []"
    using t by (auto simp: track_exist_def)
  have s: "\<not> (st = - 1 \<and> aj_from_interaction j)" "st \<noteq> 1" "\<not> (st = 2 \<and> aj_from_interaction j)" "ex \<noteq> 2"
    using assms unfolding run_add_track_thread_def Let_def f prod.case t by (auto split: if_split_asm prod.split_asm)
  show ?thesis
    using assms n [OF s(4)] unfolding run_add_track_thread_def Let_def f prod.case t
    by (simp only: s if_False fst_conv split: prod.split_asm) (auto simp del: split_paired_All)
qed

lemma add_track_channel:
  assumes "add_track fetched tf g upd slip t p = Some (t1, p1, eff)"
  shows "gp_text_channel_id p1 = gp_text_channel_id p"
  using assms unfolding add_track_def Let_def
  by (auto simp: queue_defs queue_insert_def split: option.split_asm if_split_asm)

lemma run_download_job:
  assumes "run_download_thread dv ev j m = Some (m1, eff)" and "get_player (dj_guild j) m = Some p" and "player_ok p"
    and "dv_guild dv (dj_guild j) \<noteq> None" and "tr_info_raw (dj_result j) \<noteq> JNull \<or> (\<forall>t. ev_fetch ev t \<noteq> None)"
    and "dj_top j \<or> dj_slip j \<le> 1 \<or> int (gp_shifted_track p) < dj_slip j"
  obtains p' i where "get_player (dj_guild j) m1 = Some p'" "player_ok p'"
    "gp_text_channel_id p' = (if dj_from_interaction j then dj_text_channel j else gp_text_channel_id p)"
    "play_order p' = order_add (dj_top j) (dj_slip j)
      ((dj_result j)\<lparr>tr_filename := dj_fname j, tr_user_id := dj_user j, tr_info_raw := i\<rparr>) (play_order p)"
proof -
  let ?g = "dj_guild j"
  let ?t = "(dj_result j)\<lparr>tr_filename := dj_fname j, tr_user_id := dj_user j\<rparr>"
  let ?p1 = "if dj_from_interaction j then set_channel (dj_text_channel j) p else p"
  have c: "create_player dv ?g m = (Some p, m)"
    using assms(2,4) by (auto simp: create_player_def get_player_def)
  have s: "gp_shifted_track ?p1 = gp_shifted_track p" "gp_queue ?p1 = gp_queue p"
    by (simp_all add: set_channel_def)
  have ok: "player_ok ?p1" and po: "play_order ?p1 = play_order p"
    using assms(3) s by (simp_all add: player_ok_def play_order_def)
  have ad: "tr_info_raw ?t \<noteq> JNull \<or> ev_fetch ev ?t \<noteq> None"
    "dj_top j \<or> dj_slip j \<le> 1 \<or> int (gp_shifted_track ?p1) < dj_slip j"
    using assms(5,6) unfolding s by auto
  obtain t1 p2 e2 where p2: "add_track (ev_fetch ev ?t) (dj_top j) ?g (dj_from_interaction j \<or> dj_dling j) (dj_slip j) ?t ?p1
      = Some (t1, p2, e2)"
    and r: "player_ok p2" "play_order p2 = order_add (dj_top j) (dj_slip j) t1 (play_order ?p1)"
      "t1 = (if tr_info_raw ?t = JNull then ?t\<lparr>tr_info_raw := the (ev_fetch ev ?t)\<rparr> else ?t)"
    using add_track_order [OF ok ad] by blast
  have i: "t1 = ?t\<lparr>tr_info_raw := tr_info_raw t1\<rparr>"
    unfolding r(3) by simp
  have "get_player ?g m1 = Some p2"
    using assms(1) unfolding run_download_thread_def Let_def c prod.case option.case p2 bind.bind_lunit
    by (cases "decide_play dv (ev_running ev) (client_of dv (dj_shard j)) ?g (dj_continued j)")
      (auto simp: put_player_def get_player_def)
  moreover note r(1)
  moreover have "gp_text_channel_id p2 = (if dj_from_interaction j then dj_text_channel j else gp_text_channel_id p)"
    using add_track_channel [OF p2] by (simp add: set_channel_def)
  moreover have "play_order p2 = order_add (dj_top j) (dj_slip j)
      ((dj_result j)\<lparr>tr_filename := dj_fname j, tr_user_id := dj_user j, tr_info_raw := tr_info_raw t1\<rparr>) (play_order p)"
    using r(2) i unfolding po by simp
  ultimately show ?thesis by (rule that)
qed

text \<open>C4: A track that a user adds with the play command ends up in the queue where the user
  asked for it. The command, the search and the wait for the download are three tasks that may run
  at any time, on whatever state the manager has then; when the third one runs, the track that the
  search found, with the requesting user and its file name, comes right behind the playing track
  when the top was asked for, at the position of the slip when the queue is long enough, and at the
  end of the queue otherwise. The text channel of the player is that of the command from then on. This
  holds when the guild is known and has a player, the information of the track is there or can be fetched, and
  a slip lies behind the tracks that were pushed to the front before (for the others see the findings).\<close>

theorem played_track_is_queued:
  assumes "play_run dv conn_after shard u tc g q tp slip btn upd m0 = Inr ((s, out), m1, eff1, Some j)"
    and "run_add_track_thread yt dv2 fetch on_disk j m2 d = (m3, d3, eff3, Some dj)"
    and "run_download_thread dv4 ev dj m4 = Some (m5, eff5)"
    and "get_player g m4 = Some p" and "player_ok p" and "dv_guild dv4 g \<noteq> None"
    and "tr_info_raw (dj_result dj) \<noteq> JNull \<or> (\<forall>t. ev_fetch ev t \<noteq> None)"
    and "tp \<noteq> 0 \<or> slip \<le> 1 \<or> int (gp_shifted_track p) < slip"
  shows "\<exists>p' t i. get_player g m5 = Some p' \<and> player_ok p' \<and> gp_text_channel_id p' = tc
    \<and> t = (fst (find_track yt fetch (get_player g m2) False q False))
        \<lparr>tr_filename := get_filename_from_result yt (dj_result dj), tr_user_id := u, tr_info_raw := i\<rparr>
    \<and> play_order p' =
        (if slip = 1 \<or> tp \<noteq> 0 then take 1 (play_order p) @ t # drop 1 (play_order p)
         else if slip > 1 \<and> length (play_order p) > nat slip then
           take (nat slip) (play_order p) @ t # drop (nat slip) (play_order p)
         else play_order p @ [t])"
proof -
  note a = play_run_job [OF assms(1)]
  note b = run_add_track_job [OF assms(2)]
  have dj: "dj_guild dj = g" "dj_user dj = u" "dj_top dj = (tp \<noteq> 0)" "dj_slip dj = slip"
    "dj_fname dj = get_filename_from_result yt (dj_result dj)" "dj_from_interaction dj" "dj_text_channel dj = tc"
    "dj_result dj = fst (find_track yt fetch (get_player g m2) False q False)"
    using a b by simp_all
  obtain p' i where "get_player g m5 = Some p'" "player_ok p'" "gp_text_channel_id p' = tc"
      "play_order p' = order_add (tp \<noteq> 0) slip
      ((dj_result dj)\<lparr>tr_filename := get_filename_from_result yt (dj_result dj), tr_user_id := u, tr_info_raw := i\<rparr>)
      (play_order p)"
    using run_download_job [OF assms(3), of p] assms(4-8) dj(6) unfolding dj(1-5,7) by (simp only: if_True) blast
  then show ?thesis unfolding order_add_def dj(8) by blast
qed

definition fetching_env :: event_env where
  "fetching_env = marker_env\<lparr>ev_fetch := (\<lambda>t. Some (JInt 0))\<rparr>"

theorem played_track_is_queued_witness:
  "\<exists>m1 eff1 j m3 d3 eff3 dj m5 eff5 p' t.
    play_run sample_view None 2 8 6 1 ''song'' 1 0 False True (put_player 1 sample_player manager_init)
      = Inr ((0, []), m1, eff1, Some j)
    \<and> run_add_track_thread sample_yt sample_view (\<lambda>q n u. sample_playlist) (\<lambda>f. True) j manager_init
        \<lparr>dl_waiting = Map.empty, dl_queue = [], dl_running = 0, dl_tasks = []\<rparr> = (m3, d3, eff3, Some dj)
    \<and> run_download_thread sample_view fetching_env dj (put_player 1 sample_player manager_init) = Some (m5, eff5)
    \<and> get_player 1 m5 = Some p' \<and> play_order p' = [sample_track ''a'', t] \<and> tr_user_id t = 8"
proof -
  let ?m = "put_player 1 sample_player manager_init"
  let ?d = "\<lparr>dl_waiting = Map.empty, dl_queue = [], dl_running = 0, dl_tasks = []\<rparr>"
  define Q where "Q j \<longleftrightarrow> (case run_add_track_thread sample_yt sample_view (\<lambda>q n u. sample_playlist) (\<lambda>f. True) j manager_init ?d of
      (m3, d3, e3, Some dj) \<Rightarrow> run_download_thread sample_view fetching_env dj ?m \<noteq> None | _ \<Rightarrow> False)" for j
  have "case play_run sample_view None 2 8 6 1 ''song'' 1 0 False True ?m of
      Inr ((s, out), m1, e1, Some j) \<Rightarrow> s = 0 \<and> out = [] \<and> Q j | _ \<Rightarrow> False"
    unfolding Q_def by code_simp
  then obtain m1 e1 j where r1: "play_run sample_view None 2 8 6 1 ''song'' 1 0 False True ?m = Inr ((0, []), m1, e1, Some j)"
    and "Q j" by (auto split: sum.split_asm prod.split_asm option.split_asm)
  then obtain m3 d3 e3 dj m5 e5 where r2:
    "run_add_track_thread sample_yt sample_view (\<lambda>q n u. sample_playlist) (\<lambda>f. True) j manager_init ?d = (m3, d3, e3, Some dj)"
    "run_download_thread sample_view fetching_env dj ?m = Some (m5, e5)"
    unfolding Q_def by (cases "run_add_track_thread sample_yt sample_view (\<lambda>q n u. sample_playlist) (\<lambda>f. True) j manager_init ?d")
      (auto split: option.split_asm)
  have p: "get_player 1 ?m = Some sample_player" "player_ok sample_player" "play_order sample_player = [sample_track ''a'']"
    by (simp_all add: sample_player_def player_ok_def play_order_def guild_player_new_def player_init_def)
  have e: "dv_guild sample_view 1 \<noteq> None" "\<forall>t. ev_fetch fetching_env t \<noteq> None"
    by (simp_all add: sample_defs fetching_env_def)
  obtain p' t i where "get_player 1 m5 = Some p'" "play_order p' = [sample_track ''a'', t]" "tr_user_id t = 8"
    using played_track_is_queued [OF r1 r2 p(1,2) e(1)] e(2) p(3) by fastforce
  then show ?thesis using r1 r2 by blast
qed

section \<open>Where the tracks of a playlist are put\<close>

definition with_info :: "(MCTrack \<Rightarrow> json option) \<Rightarrow> MCTrack \<Rightarrow> MCTrack" where
  "with_info fetched t = (if tr_info_raw t = JNull then t\<lparr>tr_info_raw := the (fetched t)\<rparr> else t)"

lemma add_tracks_order:
  assumes "player_ok p" and "\<forall>t\<in>set ts. tr_info_raw t \<noteq> JNull \<or> fetched t \<noteq> None"
  shows "\<exists>p'. add_tracks fetched tf g ts p = Some p' \<and> player_ok p'
    \<and> play_order p' = fold (order_add tf 0) (map (with_info fetched) ts) (play_order p)"
  using assms
proof (induction ts arbitrary: p)
  case (Cons t ts)
  then have "tr_info_raw t \<noteq> JNull \<or> fetched t \<noteq> None" by simp
  from add_track_order [OF Cons.prems(1) this, of tf 0 g False] obtain p1 e where
    a: "add_track (fetched t) tf g False 0 t p = Some (with_info fetched t, p1, e)" "player_ok p1"
      "play_order p1 = order_add tf 0 (with_info fetched t) (play_order p)"
    unfolding with_info_def by auto
  then show ?case using Cons.IH [OF a(2)] Cons.prems(2) by simp
qed simp

lemma fold_order_back: "fold (order_add False 0) ts q = q @ ts"
  by (induction ts arbitrary: q) (simp_all add: order_add_def)

lemma fold_order_front: "fold (order_add True 0) ts (x # q) = x # rev ts @ q"
  by (induction ts arbitrary: q) (simp_all add: order_add_def)

lemma fold_order_top:
  "fold (order_add True 0) (rev ts) q
    = (if q = [] then if ts = [] then [] else last ts # butlast ts else hd q # ts @ tl q)"
proof (cases q)
  case Nil
  show ?thesis
  proof (cases ts rule: rev_cases)
    case (snoc us u)
    have "order_add True 0 u [] = [u]" by (simp add: order_add_def)
    then show ?thesis using fold_order_front [of "rev us" u "[]"] Nil snoc by simp
  qed (simp add: Nil)
qed (simp add: fold_order_front)

lemma join_voice_players: "join_voice dv shard g u m = Inr (s, m', eff) \<Longrightarrow> get_player g' m' = get_player g' m"
  by (auto simp: join_voice_def of_option_iff full_reconnect_def set_reconnect_def set_waiting_vc_ready_def
      set_disconnecting_def set_connecting_def get_player_def Let_def elim!: bind_resultE
      split: option.split_asm if_split_asm prod.split_asm)

text \<open>C24: Loading a saved playlist puts its tracks, in the order in which they were saved and all
  under the loading user, behind the queue, or right behind the playing track when the top was asked
  for: the list is turned around first because each track is put in front of the ones before. When
  the queue is empty the first track of the turned list becomes the playing one, so a playlist
  loaded to the top of an empty queue starts with its last track.\<close>

theorem playlist_load_order:
  assumes "playlist_load dv ev shard g u pid tp False r m = Inr (m', eff)" and "playlist_error r = None"
    and "get_player g m = Some p" and "player_ok p" and "dv_guild dv g \<noteq> None"
    and "\<forall>t. ev_fetch ev t \<noteq> None"
  shows "\<exists>p'. get_player g m' = Some p' \<and> player_ok p' \<and> (let old = play_order p;
      new = map (\<lambda>t. with_info (ev_fetch ev) (t\<lparr>tr_user_id := u\<rparr>)) (pr_tracks r)
    in play_order p' =
      (if tp = 0 then old @ new
       else if old \<noteq> [] then hd old # new @ tl old
       else if new = [] then [] else last new # butlast new))"
proof -
  let ?new = "map (\<lambda>t. with_info (ev_fetch ev) (t\<lparr>tr_user_id := u\<rparr>)) (pr_tracks r)"
  let ?it = "map (\<lambda>t. t\<lparr>tr_user_id := u\<rparr>) (if tp \<noteq> 0 then rev (pr_tracks r) else pr_tracks r)"
  have it: "map (with_info (ev_fetch ev)) ?it = (if tp \<noteq> 0 then rev ?new else ?new)"
    by (simp add: rev_map comp_def)
  obtain p1 where p1: "add_tracks (ev_fetch ev) (tp \<noteq> 0) g ?it p = Some p1" "player_ok p1"
    "play_order p1 = fold (order_add (tp \<noteq> 0) 0) (map (with_info (ev_fetch ev)) ?it) (play_order p)"
    using add_tracks_order [OF assms(4), of ?it "ev_fetch ev" "tp \<noteq> 0" g] assms(6) by blast
  have c: "create_player dv g m = (Some p, m)"
    using assms(3,5) by (auto simp: create_player_def get_player_def)
  obtain s e where "join_voice dv shard g u (put_player g p1 m) = Inr (s, m', e)"
    using assms(1,2) unfolding playlist_load_def Let_def c
    by (auto simp: p1(1) elim!: bind_resultE)
  then have g: "get_player g m' = Some p1"
    using join_voice_players by simp
  have "play_order p1 = (if tp = 0 then play_order p @ ?new
      else if play_order p \<noteq> [] then hd (play_order p) # ?new @ tl (play_order p)
      else if ?new = [] then [] else last ?new # butlast ?new)"
    unfolding p1(3) it by (cases "tp = 0") (simp_all add: fold_order_back fold_order_top)
  then show ?thesis using g p1(2) by (auto simp: Let_def)
qed

theorem playlist_load_order_witness:
  "\<exists>m' eff p'. playlist_load sample_view fetching_env 2 1 8 ''mix'' 1 False
      \<lparr>pr_tracks = [named ''1'', named ''2'', named ''3''], pr_status = 0, pr_has_result = True, pr_code = 2\<rparr>
      (put_player 1 (guild_player_new 1 2) manager_init) = Inr (m', eff)
    \<and> get_player 1 m' = Some p' \<and> names (play_order p') = [''3'', ''1'', ''2'']"
proof -
  let ?r = "\<lparr>pr_tracks = [named ''1'', named ''2'', named ''3''], pr_status = 0, pr_has_result = True, pr_code = 2\<rparr>"
  let ?m = "put_player 1 (guild_player_new 1 2) manager_init"
  have "case playlist_load sample_view fetching_env 2 1 8 ''mix'' 1 False ?r ?m of Inr _ \<Rightarrow> True | _ \<Rightarrow> False"
    by code_simp
  then obtain m' eff where l: "playlist_load sample_view fetching_env 2 1 8 ''mix'' 1 False ?r ?m = Inr (m', eff)"
    by (auto split: sum.split_asm)
  have p: "playlist_error ?r = None" "get_player 1 ?m = Some (guild_player_new 1 2)" "player_ok (guild_player_new 1 2)"
    "dv_guild sample_view 1 \<noteq> None" "\<forall>t. ev_fetch fetching_env t \<noteq> None" "play_order (guild_player_new 1 2) = []"
    by (simp_all add: playlist_error_def player_ok_def play_order_def guild_player_new_def player_init_def
        sample_defs fetching_env_def)
  obtain p' where "get_player 1 m' = Some p'" "names (play_order p') = [''3'', ''1'', ''2'']"
    using playlist_load_order [OF l p(1-5)] by (auto simp: p(6) with_info_def named_def)
  with l show ?thesis by (intro exI conjI)
qed

section \<open>A track without an id\<close>

text \<open>When a search finds a track that has no id, its file name is empty and the play command
  gives up with an error, but only after it has marked the guild as connecting. When the voice client
  is ready no time-out is set that would take the mark away: from then on every play command in the
  guild, of any user and with any query, is refused as not ready, until some other event of the
  guild removes the mark.\<close>

theorem nameless_track_blocks_guild:
  assumes "run_add_track_thread yt dv fetch on_disk j m d = (m', d', eff, dj)"
    and "find_track yt fetch (get_player (aj_guild j) m) (aj_playlist j) (aj_query j) False = (r, 0)"
    and "get_id yt r = []" and "aj_from_interaction j" and "\<not> aj_vcclient_cont j"
    and "guild_voice dv (aj_guild j) = Some conn" and "vn_client conn = Some c" and "vc_ready c"
  shows "dj = None \<and> eff = [E_reply ''`[ERROR]` Unable to find track'']
    \<and> play_run dv2 conn_after shard u tc (aj_guild j) q tp slip btn upd m' = Inr ((1, not_ready_reply), m', [], None)"
proof -
  let ?m1 = "set_connecting (aj_guild j) (aj_channel j) m"
  have f: "get_filename_from_result yt r = []" using assms(3) by (simp add: get_filename_from_result_def)
  have w: "set_waiting_vc_ready dv (aj_guild j) [] ?m1 = (?m1, [])"
    using assms(6-8) by (simp add: set_waiting_vc_ready_def)
  have r: "m' = ?m1" "dj = None" "eff = [E_reply ''`[ERROR]` Unable to find track'']"
    using assms(1) unfolding run_add_track_thread_def Let_def assms(2) prod.case f
    by (simp_all add: assms(4,5) w track_exist_def)
  have "cmd_pre_get_player_manager_ready_werr (aj_guild j) ?m1 = 1"
    by (simp add: cmd_pre_get_player_manager_ready_werr_def voice_ready_def is_connecting_def set_connecting_def Let_def)
  then show ?thesis using r by (simp add: play_run_def play_enter_def)
qed

definition nameless_entry :: json where
  "nameless_entry = JObj [(''entries'', JArr [JObj [(''title'', JStr ''song'')]])]"

definition sample_add_job :: add_job where
  "sample_add_job = \<lparr>aj_playlist = False, aj_guild = 1, aj_query = ''song'', aj_top = 0, aj_vcclient_cont = False,
    aj_has_v = True, aj_channel = 3, aj_from_interaction = True, aj_shard = 2, aj_user = 8, aj_text_channel = 6,
    aj_continued = False, aj_slip = 0\<rparr>"

theorem nameless_track_blocks_guild_witness:
  "\<exists>m' d' eff. run_add_track_thread sample_yt sample_view (\<lambda>q n u. nameless_entry) (\<lambda>f. True) sample_add_job manager_init
      \<lparr>dl_waiting = Map.empty, dl_queue = [], dl_running = 0, dl_tasks = []\<rparr> = (m', d', eff, None)
    \<and> play_run sample_view None 2 8 6 1 ''other'' 0 0 False True m' = Inr ((1, not_ready_reply), m', [], None)"
proof -
  let ?d = "\<lparr>dl_waiting = Map.empty, dl_queue = [], dl_running = 0, dl_tasks = []\<rparr>"
  obtain m' d' eff dj where r: "run_add_track_thread sample_yt sample_view (\<lambda>q n u. nameless_entry) (\<lambda>f. True)
      sample_add_job manager_init ?d = (m', d', eff, dj)" by (metis surj_pair)
  obtain t where t: "find_track sample_yt (\<lambda>q n u. nameless_entry) (get_player (aj_guild sample_add_job) manager_init)
      (aj_playlist sample_add_job) (aj_query sample_add_job) False = (t, 0)" "get_id sample_yt t = []"
  proof -
    have "case find_track sample_yt (\<lambda>q n u. nameless_entry) (get_player (aj_guild sample_add_job) manager_init)
      (aj_playlist sample_add_job) (aj_query sample_add_job) False of (t, s) \<Rightarrow> s = 0 \<and> get_id sample_yt t = []"
      by code_simp
    then show ?thesis using that by (auto split: prod.split_asm)
  qed
  have g: "guild_voice sample_view (aj_guild sample_add_job) = Some sample_conn" "aj_from_interaction sample_add_job"
    "\<not> aj_vcclient_cont sample_add_job" "vn_client sample_conn = Some sample_client" "vc_ready sample_client"
    "aj_guild sample_add_job = 1"
    by (simp_all add: guild_voice_def sample_defs sample_add_job_def)
  show ?thesis
    using nameless_track_blocks_guild [OF r t g(2,3,1,4,5), of sample_view None 2 8 6 "''other''" 0 0 False True] r
    unfolding g(6) by blast
qed


end
