(* ===== verification/Embed.thy ===== *)
theory Embed
  imports Play
begin

text \<open>
  The message that shows what is playing: \<open>src/musicat/player_manager_embed.cpp\<close>. Requests to send
  or to update it are put into a queue, which the main loop works off; the message is composed when
  its request is carried out. What Discord's library knows of users, and how it reads and writes
  messages as JSON, is the record \<open>embed_env\<close>.
\<close>

section \<open>Messages\<close>

record button =
  bn_id :: string
  bn_emoji :: string
  bn_label :: string
  bn_primary :: bool
  bn_disabled :: bool

record embed =
  em_title :: string
  em_url :: string
  em_description :: string
  em_author :: string
  em_author_icon :: string
  em_fields :: "(string \<times> string \<times> bool) list"
  em_footer :: string
  em_colour :: "32 word"
  em_image :: string

record dmessage =
  dm_id :: snowflake
  dm_channel_id :: snowflake
  dm_embeds :: "embed list"
  dm_rows :: "button list list"

record interaction =
  in_token :: nat
  in_user :: snowflake
  in_message :: dmessage

record embed_env =
  ee_yt :: yt_api
  ee_bitrate :: "json \<Rightarrow> int"
  ee_member :: "snowflake \<Rightarrow> snowflake \<Rightarrow> (string \<times> string) option"
  ee_user :: "snowflake \<Rightarrow> (string \<times> string) option"
  ee_highest_role :: "snowflake \<Rightarrow> snowflake \<Rightarrow> role option"
  ee_message_of :: "json \<Rightarrow> dmessage"
  ee_json_of :: "dmessage \<Rightarrow> json"

definition no_message :: dmessage where
  "no_message = \<lparr>dm_id = 0, dm_channel_id = 0, dm_embeds = [], dm_rows = []\<rparr>"

datatype embed_send =
    S_reply nat string
  | S_reply_message nat dmessage
  | S_create dmessage
  | S_edit dmessage
  | S_update nat dmessage
  | S_delete snowflake snowflake

definition str_mention_user :: "snowflake \<Rightarrow> string" where
  "str_mention_user u = ''<@'' @ nat_str (unat u) @ ''> ''"

text \<open>Emoji are UTF-8.\<close>

definition em_pause :: string where "em_pause = [CHR 0xE2, CHR 0x8F, CHR 0xB8, CHR 0xEF, CHR 0xB8, CHR 0x8F]"
definition em_play :: string where "em_play = [CHR 0xE2, CHR 0x96, CHR 0xB6, CHR 0xEF, CHR 0xB8, CHR 0x8F]"
definition em_stop :: string where "em_stop = [CHR 0xE2, CHR 0x8F, CHR 0xB9]"
definition em_loop :: string where "em_loop = [CHR 0xF0, CHR 0x9F, CHR 0x94, CHR 0x83]"
definition em_shuffle :: string where "em_shuffle = [CHR 0xF0, CHR 0x9F, CHR 0x94, CHR 0x80]"
definition em_unexpand :: string where "em_unexpand = [CHR 0xE2, CHR 0xA4, CHR 0xB4, CHR 0xEF, CHR 0xB8, CHR 0x8F]"
definition em_expand :: string where "em_expand = [CHR 0xE2, CHR 0xA4, CHR 0xB5, CHR 0xEF, CHR 0xB8, CHR 0x8F]"
definition em_prev :: string where "em_prev = [CHR 0xE2, CHR 0x8F, CHR 0xAE, CHR 0xEF, CHR 0xB8, CHR 0x8F]"
definition em_rewind :: string where "em_rewind = [CHR 0xE2, CHR 0x8F, CHR 0xAA]"
definition em_infinity :: string where "em_infinity = [CHR 0xE2, CHR 0x99, CHR 0xBE, CHR 0xEF, CHR 0xB8, CHR 0x8F]"
definition em_forward :: string where "em_forward = [CHR 0xE2, CHR 0x8F, CHR 0xA9]"
definition em_next :: string where "em_next = [CHR 0xE2, CHR 0x8F, CHR 0xAD, CHR 0xEF, CHR 0xB8, CHR 0x8F]"
definition em_bell :: string where "em_bell = [CHR 0xF0, CHR 0x9F, CHR 0x94, CHR 0x94]"
definition em_no_bell :: string where "em_no_bell = [CHR 0xF0, CHR 0x9F, CHR 0x94, CHR 0x95]"
definition em_repeat_one :: string where "em_repeat_one = [CHR 0xF0, CHR 0x9F, CHR 0x94, CHR 0x82]"
definition em_repeat :: string where "em_repeat = [CHR 0xF0, CHR 0x9F, CHR 0x94, CHR 0x81]"

section \<open>The embed\<close>

record playback_info =
  pi_icon :: "string option"
  pi_playing :: bool
  pi_notification :: bool
  pi_stopped :: bool

text \<open>The tracks shown: the current one, the previous, the next one and the one a skip leads to.\<close>

definition embed_tracks :: "guild_player_t \<Rightarrow> MCTrack \<times> MCTrack \<times> MCTrack \<times> MCTrack" where
  "embed_tracks p =
    (let q = gp_queue p; siz = length q;
         track = (if player_has_current_track (Some p) then gp_current_track p else hd q);
         prev = q ! (siz - 1)
     in case gp_loop_mode p of
          l_queue \<Rightarrow> (track, prev, (if siz = 1 then track else q ! 1), MCTrack_default)
        | l_none \<Rightarrow> (track, prev, (if siz > 1 then q ! 1 else MCTrack_default), MCTrack_default)
        | _ \<Rightarrow> (track, prev, track, (if siz > 1 then q ! 1 else MCTrack_default)))"

definition author_of :: "embed_env \<Rightarrow> snowflake \<Rightarrow> snowflake \<Rightarrow> string \<times> string" where
  "author_of env g u =
    (let nick = (case ee_member env g u of Some (n, _) \<Rightarrow> n | None \<Rightarrow> []);
         name = (if nick \<noteq> [] then nick
                 else case ee_user env u of Some (n, _) \<Rightarrow> n | None \<Rightarrow> ''`[ERROR]` User not found'');
         ua = (case ee_member env g u of Some (_, a) \<Rightarrow> a | None \<Rightarrow> [])
     in (name, if ua = [] then case ee_user env u of Some (_, a) \<Rightarrow> a | None \<Rightarrow> [] else ua))"

definition link_field :: "yt_api \<Rightarrow> string \<Rightarrow> bool \<Rightarrow> MCTrack \<Rightarrow> (string \<times> string \<times> bool) list" where
  "link_field yt name inline t =
    (if tr_raw t = JNull then [] else [(name, ''['' @ get_title yt t @ '']('' @ get_url yt t @ '')'', inline)])"

definition sep :: "string \<Rightarrow> string \<Rightarrow> string" where
  "sep s ft = (if ft = [] then [] else ft @ s)"

definition player_voice :: "dpp_view \<Rightarrow> guild_player_t \<Rightarrow> voiceconn option" where
  "player_voice dv p =
    (if gp_shard_id p = INVALID_SHARD_ID then None
     else case client_of dv (gp_shard_id p) of None \<Rightarrow> None | Some s \<Rightarrow> dv_voice dv s (gp_guild_id p))"

text \<open>Whether the voice client has something left to play, with the paused state.\<close>

definition voice_progress :: "dpp_view \<Rightarrow> guild_player_t \<Rightarrow> bool option" where
  "voice_progress dv p =
    (case Option.bind (player_voice dv p) vn_client of
       None \<Rightarrow> None
     | Some c \<Rightarrow> if fl_less f_0_05 (vc_secs_remaining c) then Some (vc_paused c) else None)"

definition play_mode :: "dpp_view \<Rightarrow> bool \<Rightarrow> guild_player_t \<Rightarrow> playback_info \<Rightarrow> string \<Rightarrow> string \<times> playback_info" where
  "play_mode dv force_playing_status p info ft =
    (case voice_progress dv p of
       Some True \<Rightarrow> (sep '' '' ft @ em_pause, info\<lparr>pi_icon := Some em_play, pi_playing := False\<rparr>)
     | Some False \<Rightarrow> (sep '' '' ft @ em_play, info\<lparr>pi_icon := Some em_pause, pi_playing := True\<rparr>)
     | None \<Rightarrow> if force_playing_status
         then (sep '' '' ft @ em_play, info\<lparr>pi_icon := Some em_pause, pi_playing := True\<rparr>)
         else (ft, info))"

definition loop_icon :: "loop_mode_t \<Rightarrow> string" where
  "loop_icon m = (case m of l_none \<Rightarrow> [] | l_song \<Rightarrow> em_repeat_one | l_queue \<Rightarrow> em_repeat | l_song_queue \<Rightarrow> em_repeat_one @ em_repeat)"

definition footer_tail :: "embed_env \<Rightarrow> guild_player_t \<Rightarrow> MCTrack \<Rightarrow> string \<Rightarrow> string" where
  "footer_tail env p track ft0 =
    (let ft1 = (if gp_loop_mode p \<noteq> l_none then sep '' | '' ft0 @ loop_icon (gp_loop_mode p) else ft0);
         ft2 = (if gp_auto_play p then sep '' | '' ft1 @ em_infinity
                  @ (if gp_max_history_size p \<noteq> 0 then '' ('' @ nat_str (gp_max_history_size p) @ '')'' else [])
                else ft1);
         ft3 = (if tr_info_raw track \<noteq> JNull then sep '' | '' ft2 @ ''['' @ int_str (ee_bitrate env (tr_info_raw track)) @ '']'' else ft2);
         rpt = tr_repeat (gp_current_track p);
         ft4 = (if rpt > 0 then sep '' | '' ft3 @ ''R '' @ int_str rpt else ft3);
         fx = fx_get_active_count p
     in if fx > 0 then sep '' | '' ft4 @ ''FX'' @ (if fx > 1 then '' ('' @ int_str fx @ '')'' else []) else ft4)"

definition info_init :: playback_info where
  "info_init = \<lparr>pi_icon = None, pi_playing = False, pi_notification = True, pi_stopped = False\<rparr>"

text \<open>The embed with the state of the playback, or the status; an exception is what the code does not
  catch. The queue is put in order, so the player changes.\<close>

definition playing_embed ::
  "embed_env \<Rightarrow> dpp_view \<Rightarrow> bool \<Rightarrow> snowflake \<Rightarrow> guild_player_t \<Rightarrow> (embed \<times> playback_info) result" where
  "playing_embed env dv force g p =
    (let yt = ee_yt env;
         info = info_init\<lparr>pi_notification := gp_notification p, pi_stopped := gp_stopped p\<rparr>
     in case embed_tracks p of (track, prev, next, skip) \<Rightarrow>
       bind_result (get_track_progress yt track) (\<lambda>prog.
         let ft0 = (if tp_status prog = 0 then ''['' @ format_duration (word_of_int (tp_current_ms prog)) @ ''/''
                      @ format_duration (word_of_int (tp_duration prog)) @ '']'' else []);
             (ft1, info1) = play_mode dv force p info ft0;
             (name, icon) = author_of env g (tr_user_id track)
         in Inr (\<lparr>em_title = get_title yt track, em_url = get_url yt track, em_description = get_description yt track,
              em_author = name, em_author_icon = icon,
              em_fields = link_field yt ''PREVIOUS'' True prev @ link_field yt ''NEXT'' True next @ link_field yt ''SKIP'' False skip,
              em_footer = footer_tail env p track ft1,
              em_colour = (case ee_highest_role env g (dv_sha_id dv) of Some r \<Rightarrow> r_colour r | None \<Rightarrow> 0),
              em_image = get_thumbnail yt track\<rparr>, info1)))"

definition get_playing_info_embed ::
  "embed_env \<Rightarrow> dpp_view \<Rightarrow> snowflake \<Rightarrow> bool \<Rightarrow> manager \<Rightarrow> (((embed \<times> playback_info) + int) \<times> manager) result" where
  "get_playing_info_embed env dv g force m =
    (case get_player g m of
       None \<Rightarrow> Inr (Inr 1, m)
     | Some p0 \<Rightarrow>
         (case reset_shifted p0 of
            None \<Rightarrow> Inl Undefined
          | Some (_, p) \<Rightarrow>
              let m1 = put_player g p m
              in if gp_queue p = [] then Inr (Inr 2, m1)
                 else case playing_embed env dv force g p of
                   Inr r \<Rightarrow> Inr (Inl r, m1)
                 | Inl e \<Rightarrow> if e = Invalid_argument \<or> e = Out_of_range then Inr (Inr (- 1), m1) else Inl e))"

section \<open>The buttons\<close>

text \<open>The ids, as in \<open>include/musicat/player.h\<close>.\<close>

definition id_pause :: string where "id_pause = ''playnow/p''"
definition id_resume :: string where "id_resume = ''playnow/r''"
definition id_stop :: string where "id_stop = ''playnow/s''"
definition id_loop :: string where "id_loop = ''playnow/l''"
definition id_shuffle :: string where "id_shuffle = ''playnow/h''"
definition id_expand :: string where "id_expand = ''playnow/e''"
definition id_unexpand :: string where "id_unexpand = ''playnow/x''"
definition id_prev :: string where "id_prev = ''playnow/v''"
definition id_rewind :: string where "id_rewind = ''playnow/w''"
definition id_autoplay :: string where "id_autoplay = ''playnow/a''"
definition id_forward :: string where "id_forward = ''playnow/f''"
definition id_next :: string where "id_next = ''playnow/n''"
definition id_disable_notif :: string where "id_disable_notif = ''playnow/d''"
definition id_enable_notif :: string where "id_enable_notif = ''playnow/b''"
definition id_update :: string where "id_update = ''playnow/u''"

definition emoji_button :: "string \<Rightarrow> string \<Rightarrow> button" where
  "emoji_button i e = \<lparr>bn_id = i, bn_emoji = e, bn_label = [], bn_primary = True, bn_disabled = False\<rparr>"

definition play_pause_button :: "playback_info \<Rightarrow> button" where
  "play_pause_button info =
    (let i = (if pi_playing info then id_pause else id_resume)
     in case pi_icon info of
          Some e \<Rightarrow> emoji_button i e
        | None \<Rightarrow> \<lparr>bn_id = i, bn_emoji = [], bn_label = em_play @ ''/'' @ em_pause, bn_primary = False, bn_disabled = False\<rparr>)"

definition stop_button :: "playback_info \<Rightarrow> button" where
  "stop_button info = (emoji_button id_stop em_stop)\<lparr>bn_disabled := pi_stopped info\<rparr>"

definition expand_unexpand_button :: "bool \<Rightarrow> button" where
  "expand_unexpand_button expanded =
    (if expanded then emoji_button id_unexpand em_unexpand else emoji_button id_expand em_expand)"

definition notif_button :: "bool \<Rightarrow> button" where
  "notif_button is_enabled =
    (if is_enabled then emoji_button id_disable_notif em_no_bell else emoji_button id_enable_notif em_bell)"

definition update_button :: button where
  "update_button = \<lparr>bn_id = id_update, bn_emoji = [], bn_label = ''Update'', bn_primary = True, bn_disabled = False\<rparr>"

text \<open>A row takes five buttons.\<close>

definition add_to_row :: "button \<Rightarrow> button list \<Rightarrow> button list" where
  "add_to_row c row = (if length row \<ge> 5 then row else row @ [c])"

definition compile_row :: "button list \<Rightarrow> button list" where
  "compile_row cs = fold add_to_row cs []"

definition is_button_expanded :: "dmessage \<Rightarrow> bool" where
  "is_button_expanded msg =
    (case dm_rows msg of
       [] \<Rightarrow> False
     | row # _ \<Rightarrow> length row = 5 \<and> bn_id (last row) = id_unexpand)"

definition playing_rows :: "playback_info \<Rightarrow> bool \<Rightarrow> button list list" where
  "playing_rows info expanded =
    [compile_row [play_pause_button info, stop_button info, emoji_button id_loop em_loop,
       emoji_button id_shuffle em_shuffle, expand_unexpand_button expanded]]
    @ (if expanded then [compile_row [emoji_button id_prev em_prev, emoji_button id_rewind em_rewind,
         emoji_button id_autoplay em_infinity, emoji_button id_forward em_forward, emoji_button id_next em_next]] else [])
    @ [compile_row [notif_button (pi_notification info), update_button]]"

text \<open>The message, or the status of the embed. The rest of \<open>msg\<close> is kept.\<close>

definition get_playing_info_message ::
  "embed_env \<Rightarrow> dpp_view \<Rightarrow> dmessage \<Rightarrow> snowflake \<Rightarrow> bool \<Rightarrow> bool \<Rightarrow> manager \<Rightarrow> ((dmessage + int) \<times> manager) result" where
  "get_playing_info_message env dv msg g force expanded m =
    bind_result (get_playing_info_embed env dv g force m) (\<lambda>(r, m1). case r of
      Inr status \<Rightarrow> Inr (Inr status, m1)
    | Inl (e, info) \<Rightarrow> Inr (Inl (msg\<lparr>dm_embeds := [e], dm_rows := playing_rows info expanded\<rparr>), m1))"

section \<open>The queue of requests\<close>

record embed_op =
  eo_update :: bool
  eo_force :: bool
  eo_event :: "interaction option"
  eo_delete_original :: bool
  eo_guild :: snowflake
  eo_channel :: snowflake
  eo_prev :: dmessage

definition is_embed_op_duplicate :: "embed_op \<Rightarrow> embed_op \<Rightarrow> bool" where
  "is_embed_op_duplicate a b \<longleftrightarrow> eo_guild a = eo_guild b \<and> eo_channel a = eo_channel b"

fun erase_duplicate :: "embed_op \<Rightarrow> embed_op list \<Rightarrow> embed_op list" where
  "erase_duplicate x [] = []"
| "erase_duplicate x (i # q) = (if \<not> is_embed_op_duplicate i x then i # erase_duplicate x q else q)"

definition queue_embed_op :: "embed_op \<Rightarrow> embed_op list \<Rightarrow> embed_op list" where
  "queue_embed_op x q = erase_duplicate x q @ [x]"

definition get_embed_werr ::
  "embed_env \<Rightarrow> dpp_view \<Rightarrow> interaction option \<Rightarrow> snowflake \<Rightarrow> bool \<Rightarrow> bool \<Rightarrow> dmessage \<Rightarrow> manager
    \<Rightarrow> (dmessage option \<times> manager \<times> embed_send list) result" where
  "get_embed_werr env dv event g force expanded msg m =
    bind_result (get_playing_info_message env dv msg g force expanded m) (\<lambda>(r, m1). case r of
      Inl msg1 \<Rightarrow> Inr (Some msg1, m1, [])
    | Inr status \<Rightarrow> Inr (None, m1, (case event of None \<Rightarrow> []
        | Some e \<Rightarrow> [S_reply (in_token e) (str_mention_user (in_user e)
            @ (if status < 0 then ''`[ERROR]` Something went wrong when getting playback info''
               else ''Nothing is currently playing''))])))"

definition run_embed_op ::
  "embed_env \<Rightarrow> dpp_view \<Rightarrow> embed_op \<Rightarrow> manager \<Rightarrow> (manager \<times> embed_send list) result" where
  "run_embed_op env dv x m =
    (if \<not> dv_cluster dv then Inr (m, [])
     else bind_result (get_embed_werr env dv (eo_event x) (eo_guild x) (eo_force x)
         (eo_update x \<and> is_button_expanded (eo_prev x)) (if eo_update x then eo_prev x else no_message) m)
       (\<lambda>(r, m1, snd1). case r of
          None \<Rightarrow> Inr (m1, snd1)
        | Some msg \<Rightarrow>
            Inr (m1, snd1 @ [if \<not> eo_update x
              then (let msg1 = msg\<lparr>dm_channel_id := eo_channel x\<rparr>
                    in case eo_event x of
                         Some e \<Rightarrow> if eo_delete_original x then S_create msg1 else S_reply_message (in_token e) msg1
                       | None \<Rightarrow> S_create msg1)
              else (case eo_event x of None \<Rightarrow> S_edit msg | Some e \<Rightarrow> S_update (in_token e) msg)])))"

fun check_embed_op_queue ::
  "embed_env \<Rightarrow> dpp_view \<Rightarrow> embed_op list \<Rightarrow> manager \<Rightarrow> (manager \<times> embed_send list) result" where
  "check_embed_op_queue env dv [] m = Inr (m, [])"
| "check_embed_op_queue env dv (x # q) m =
    bind_result (run_embed_op env dv x m) (\<lambda>(m1, snd1).
      bind_result (check_embed_op_queue env dv q m1) (\<lambda>(m2, snd2). Inr (m2, snd1 @ snd2)))"

text \<open>The answer to a request: \<open>None\<close> stands for an error or an answer without a message.\<close>

definition send_info_embed_cb :: "embed_env \<Rightarrow> dmessage option \<Rightarrow> snowflake \<Rightarrow> manager \<Rightarrow> manager" where
  "send_info_embed_cb env r g m =
    (case (r, get_player g m) of
       (Some msg, Some p) \<Rightarrow> put_player g (set_info_message (ee_json_of env msg) p) m
     | _ \<Rightarrow> m)"

section \<open>Sending, updating and deleting\<close>

definition p_read_message_history :: "64 word" where "p_read_message_history = 0x10000"

definition delete_info_embed :: "embed_env \<Rightarrow> dpp_view \<Rightarrow> snowflake \<Rightarrow> manager \<Rightarrow> bool \<times> embed_send list" where
  "delete_info_embed env dv g m =
    (if \<not> dv_cluster dv then (False, [])
     else case Option.bind (get_player g m) get_info_message of
       None \<Rightarrow> (False, [])
     | Some j \<Rightarrow> if is_source_message_deleted j then (False, [])
         else (True, [S_delete (dm_id (ee_message_of env j)) (dm_channel_id (ee_message_of env j))]))"

text \<open>The message that an update works on, with the player whose stored message the event replaces.\<close>

definition message_to_update ::
  "embed_env \<Rightarrow> json option \<Rightarrow> interaction option \<Rightarrow> guild_player_t \<Rightarrow> dmessage option \<times> guild_player_t" where
  "message_to_update env pim event p =
    (case event of
       Some e \<Rightarrow> (Some (in_message e),
         if map_option (\<lambda>j. dm_id (ee_message_of env j)) pim = Some (dm_id (in_message e))
         then set_info_message (ee_json_of env (in_message e)) p else p)
     | None \<Rightarrow> (map_option (ee_message_of env) pim, p))"

definition send_info_embed ::
  "embed_env \<Rightarrow> dpp_view \<Rightarrow> snowflake \<Rightarrow> bool \<Rightarrow> bool \<Rightarrow> interaction option \<Rightarrow> manager \<Rightarrow> embed_op list
    \<Rightarrow> int \<times> manager \<times> embed_op list \<times> embed_send list" where
  "send_info_embed env dv g update force event m q =
    (if \<not> dv_cluster dv then (- 1, m, q, [])
     else case get_player g m of
       None \<Rightarrow> (1, m, q, [])
     | Some p \<Rightarrow>
         let pim = get_info_message p;
             chan = gp_text_channel_id p;
             perm = has_permissions dv (dv_guild dv g) (Some (dv_sha_id dv)) (dv_channel dv chan);
             lost = (pim = None \<or> is_source_message_deleted (the pim) \<or> \<not> perm [p_read_message_history]);
             op = \<lparr>eo_update = False, eo_force = force, eo_event = event, eo_delete_original = update,
               eo_guild = g, eo_channel = chan, eo_prev = no_message\<rparr>
         in if update \<and> event = None \<and> pim = None then (0, m, q, [])
            else if \<not> update \<and> \<not> perm [p_view_channel, p_send_messages, p_embed_links] then (2, m, q, [])
            else if \<not> update then (0, m, queue_embed_op op q, [])
            else if lost then (0, m, queue_embed_op op q, snd (delete_info_embed env dv g m))
            else case message_to_update env pim event p of
              (None, _) \<Rightarrow> (0, m, q, [])
            | (Some mn, p1) \<Rightarrow>
                let m1 = put_player g p1 m
                in if dm_channel_id mn = 0 \<and> dm_id mn = 0
                   then (0, m1, queue_embed_op (op\<lparr>eo_delete_original := False\<rparr>) q, [])
                   else (0, m1, queue_embed_op (op\<lparr>eo_update := True, eo_delete_original := False, eo_prev := mn\<rparr>) q, []))"

definition reply_info_embed ::
  "embed_env \<Rightarrow> dpp_view \<Rightarrow> snowflake \<Rightarrow> interaction \<Rightarrow> bool \<Rightarrow> bool \<Rightarrow> manager \<Rightarrow> (manager \<times> embed_send list) result" where
  "reply_info_embed env dv g e expand reply_update_message m =
    bind_result (get_embed_werr env dv (Some e) g False expand no_message m) (\<lambda>(r, m1, snd1).
      Inr (m1, case r of
        None \<Rightarrow> snd1
      | Some msg \<Rightarrow> [if reply_update_message then S_update (in_token e) msg else S_reply_message (in_token e) msg]))"


section \<open>At most one request for a channel\<close>

text \<open>Of the requests for the same guild and channel only the newest is left, at its place.\<close>

fun newest :: "embed_op list \<Rightarrow> embed_op list" where
  "newest [] = []"
| "newest (x # xs) = (if \<exists>y\<in>set xs. is_embed_op_duplicate x y then newest xs else x # newest xs)"

lemma duplicate_equiv:
  "is_embed_op_duplicate x x" "is_embed_op_duplicate x y \<Longrightarrow> is_embed_op_duplicate y x"
  "is_embed_op_duplicate x y \<Longrightarrow> is_embed_op_duplicate y z \<Longrightarrow> is_embed_op_duplicate x z"
  by (simp_all add: is_embed_op_duplicate_def)

definition one_each :: "embed_op list \<Rightarrow> bool" where
  "one_each q \<longleftrightarrow> distinct (map (\<lambda>x. (eo_guild x, eo_channel x)) q)"

lemma erase_duplicate_filter: "one_each q \<Longrightarrow> erase_duplicate x q = filter (\<lambda>i. \<not> is_embed_op_duplicate i x) q"
proof (induction q)
  case (Cons i q)
  have "filter (\<lambda>j. \<not> is_embed_op_duplicate j x) q = q" if "is_embed_op_duplicate i x"
    using Cons.prems that by (intro filter_True) (auto simp: one_each_def is_embed_op_duplicate_def image_iff)
  then show ?case using Cons by (simp add: one_each_def)
qed simp

lemma newest_subset: "set (newest xs) \<subseteq> set xs"
  by (induction xs) auto

lemma one_each_newest: "one_each (newest xs)"
proof (induction xs)
  case (Cons x xs)
  then show ?case using newest_subset [of xs]
    by (auto simp: one_each_def is_embed_op_duplicate_def image_iff)
qed (simp add: one_each_def)

lemma newest_snoc: "newest (xs @ [x]) = filter (\<lambda>i. \<not> is_embed_op_duplicate i x) (newest xs) @ [x]"
proof (induction xs)
  case (Cons y ys)
  have "\<exists>z\<in>set ys. is_embed_op_duplicate y z \<Longrightarrow> is_embed_op_duplicate y x \<Longrightarrow> True" by simp
  then show ?case using Cons by auto
qed simp

text \<open>C18: The queue of requests for the info message holds, after any sequence of requests, exactly
  those that no later request for the same guild and channel has replaced, in the order in which they
  were made: at most one for each channel, so a burst of updates edits the message once. A request
  that answers a user's click is replaced like any other, and its click is then never answered.\<close>

theorem embed_queue_newest:
  "foldl (\<lambda>q x. queue_embed_op x q) [] xs = newest xs
    \<and> distinct (map (\<lambda>x. (eo_guild x, eo_channel x)) (newest xs))"
proof -
  have "foldl (\<lambda>q x. queue_embed_op x q) [] xs = newest xs"
    by (induction xs rule: rev_induct)
      (simp_all add: queue_embed_op_def erase_duplicate_filter [OF one_each_newest] newest_snoc)
  then show ?thesis using one_each_newest [of xs] by (simp add: one_each_def)
qed

section \<open>What the message shows\<close>

lemma compile_row: "length cs \<le> 5 \<Longrightarrow> compile_row cs = cs"
proof -
  have "length row + length cs \<le> 5 \<Longrightarrow> fold add_to_row cs row = row @ cs" for row
    by (induction cs arbitrary: row) (auto simp: add_to_row_def)
  then show "length cs \<le> 5 \<Longrightarrow> compile_row cs = cs" by (simp add: compile_row_def)
qed

lemma playing_rows_simps:
  "playing_rows info expanded =
    [play_pause_button info, stop_button info, emoji_button id_loop em_loop,
       emoji_button id_shuffle em_shuffle, expand_unexpand_button expanded]
    # (if expanded then [[emoji_button id_prev em_prev, emoji_button id_rewind em_rewind,
         emoji_button id_autoplay em_infinity, emoji_button id_forward em_forward, emoji_button id_next em_next]] else [])
    @ [[notif_button (pi_notification info), update_button]]"
  by (simp add: playing_rows_def compile_row)

text \<open>C10: The track that the info message announces as the next one is the one that is played when
  the current one ends. For a player whose queue is in order, whose playing track is the first of
  the queue and is not to be repeated: after the track marker has moved the queue on, the front of
  the queue is the announced track, in every loop mode, and the queue is empty when none was
  announced.\<close>

theorem announced_track_is_next:
  assumes "gp_queue p \<noteq> []" and "gp_shifted_track p = 0" and "\<not> gp_stopped p"
    and "tr_filename (gp_current_track p) = tr_filename (hd (gp_queue p))" and "\<not> track_repeats p"
    and "embed_tracks p = (track, prev, nxt, skip)"
  shows "tr_filename track = tr_filename (hd (gp_queue p))
    \<and> (case gp_queue (fst (marker_advance ''e'' p)) of
         [] \<Rightarrow> nxt = MCTrack_default
       | t # _ \<Rightarrow> tr_filename nxt = tr_filename t)"
proof -
  obtain t ts where q: "gp_queue p = t # ts" using assms(1) by (cases "gp_queue p") auto
  have po: "play_order p = t # ts" using assms(2) q by (simp add: play_order_def)
  have cur: "current_track_is_first_track p" using assms(4) q by (simp add: current_track_is_first_track_def)
  have rep: "\<not> (tr_repeat (gp_current_track p) > 0 \<and> tr_repeat t > 0)"
    using assms(5) po by (simp add: track_repeats_def)
  have trk: "tr_filename (if player_has_current_track (Some p) then gp_current_track p else t) = tr_filename t"
    using assms(4) q by simp
  show ?thesis
  proof (cases "gp_loop_mode p")
    case l_none
    then show ?thesis using assms(3,6) q cur rep trk
      by (cases ts) (auto simp: embed_tracks_def marker_advance_def Let_def)
  next
    case l_queue
    then show ?thesis using assms(3,6) q cur rep trk
      by (cases ts) (auto simp: embed_tracks_def marker_advance_def Let_def)
  qed (use assms(3,6) q cur rep trk in \<open>auto simp: embed_tracks_def marker_advance_def Let_def\<close>)
qed

theorem announced_track_is_next_witness:
  "\<exists>track prev nxt skip. embed_tracks (playing_player [''1'', ''2'', ''3''] l_queue) = (track, prev, nxt, skip)
    \<and> tr_filename nxt = ''2'' \<and> tr_filename prev = ''3''
    \<and> (case gp_queue (fst (marker_advance ''e'' (playing_player [''1'', ''2'', ''3''] l_queue))) of
         [] \<Rightarrow> nxt = MCTrack_default | t # _ \<Rightarrow> tr_filename nxt = tr_filename t)"
proof -
  let ?p = "playing_player [''1'', ''2'', ''3''] l_queue"
  obtain track prev nxt skip where e: "embed_tracks ?p = (track, prev, nxt, skip)" by (metis prod_cases4)
  have h: "gp_queue ?p \<noteq> []" "gp_shifted_track ?p = 0" "\<not> gp_stopped ?p"
    "tr_filename (gp_current_track ?p) = tr_filename (hd (gp_queue ?p))" "\<not> track_repeats ?p"
    by (simp_all add: track_repeats_def named_def MCTrack_default_def track_init_def)
  have "tr_filename nxt = ''2''" "tr_filename prev = ''3''"
    using e by (auto simp: embed_tracks_def Let_def named_def)
  then show ?thesis using announced_track_is_next [OF h e] e by blast
qed


end
