(* ===== verification/Buttons.thy ===== *)
theory Buttons
  imports Embed
begin

text \<open>
  Clicks on buttons: \<open>get_button_cmd\<close> and \<open>handle_button\<close> of \<open>src/musicat/command.cpp\<close>, and
  \<open>src/musicat/events/on_button_click.cpp\<close>. The id of a button is a command and a parameter; tables
  lead from them to handlers. The handlers of the info message that are not those of a slash
  command (pause, play, loop, seek, skip) are defined here.
\<close>

section \<open>Finding the handler\<close>

record button_command_t =
  bc_separator :: "nat option"
  bc_command :: string
  bc_param :: string

definition get_button_cmd :: "string \<Rightarrow> button_command_t \<times> int" where
  "get_button_cmd custom_id =
    (let fsub = str_find custom_id ''/'' 0;
         cmd = substr custom_id 0 fsub;
         param = (case fsub of None \<Rightarrow> [] | Some i \<Rightarrow> substr custom_id (i + 1) None)
     in (\<lparr>bc_separator = fsub, bc_command = cmd, bc_param = param\<rparr>, if cmd = [] then 1 else 0))"

fun handle_generic_cmd :: "string \<Rightarrow> (string \<times> 'h) list \<Rightarrow> 'h option" where
  "handle_generic_cmd name [] = None"
| "handle_generic_cmd name ((n, h) # hs) = (if n \<noteq> name then handle_generic_cmd name hs else Some h)"

datatype playnow_cmd =
    Pn_update | Pn_pause | Pn_resume | Pn_stop | Pn_shuffle | Pn_expand | Pn_unexpand | Pn_notif_off
  | Pn_notif_on | Pn_loop | Pn_autoplay | Pn_rewind | Pn_forward | Pn_prev | Pn_next

definition playnow_commands :: "(string \<times> playnow_cmd) list" where
  "playnow_commands = [(''u'', Pn_update), (''p'', Pn_pause), (''r'', Pn_resume), (''s'', Pn_stop), (''h'', Pn_shuffle),
    (''e'', Pn_expand), (''x'', Pn_unexpand), (''d'', Pn_notif_off), (''b'', Pn_notif_on), (''l'', Pn_loop),
    (''a'', Pn_autoplay), (''w'', Pn_rewind), (''f'', Pn_forward), (''v'', Pn_prev), (''n'', Pn_next)]"

datatype modal = Modal_top | Modal_slip | Modal_plain

datatype click =
    Click_page string
  | Click_modal modal
  | Click_progress
  | Click_playnow playnow_cmd
  | Click_delete_message

text \<open>A handler gets the parameter; nothing is done for a parameter it does not know.\<close>

definition page_queue_click :: "string \<Rightarrow> click option" where
  "page_queue_click param = Some (Click_page param)"

definition modal_p :: "string \<Rightarrow> click option" where
  "modal_p param =
    (if param = [] then None
     else if str_find param ''que_s_track'' 0 = None then None
     else Some (Click_modal (if str_find param ''top'' 0 \<noteq> None then Modal_top
       else if str_find param ''slip'' 0 \<noteq> None then Modal_slip else Modal_plain)))"

definition progress_click :: "string \<Rightarrow> click option" where
  "progress_click param = (if param = [] then None else handle_generic_cmd param [(''u'', Click_progress)])"

definition playnow :: "string \<Rightarrow> click option" where
  "playnow param = (if param = [] then None else map_option Click_playnow (handle_generic_cmd param playnow_commands))"

definition message_click :: "string \<Rightarrow> click option" where
  "message_click param = (if param = [] then None else if param = ''d'' then Some Click_delete_message else None)"

definition button_handlers :: "(string \<times> (string \<Rightarrow> click option)) list" where
  "button_handlers = [(''page_queue'', page_queue_click), (''modal_p'', modal_p), (''progress'', progress_click),
    (''playnow'', playnow), (''message'', message_click)]"

definition handle_button :: "string \<Rightarrow> click option" where
  "handle_button custom_id =
    (case get_button_cmd custom_id of
       (cmd, err) \<Rightarrow> if err \<noteq> 0 then None
         else case handle_generic_cmd (bc_command cmd) button_handlers of
           None \<Rightarrow> None | Some h \<Rightarrow> h (bc_param cmd))"

section \<open>The handlers of the info message\<close>

type_synonym click_result = "(manager \<times> embed_op list \<times> effect list \<times> embed_send list) result"

text \<open>The message is updated; the user is told when that fails.\<close>

definition update_answer ::
  "embed_env \<Rightarrow> dpp_view \<Rightarrow> snowflake \<Rightarrow> interaction \<Rightarrow> manager \<Rightarrow> embed_op list \<Rightarrow> effect list \<Rightarrow> click_result" where
  "update_answer env dv g e m q eff =
    (case send_info_embed env dv g True False (Some e) m q of
       (ret, m1, q1, snd1) \<Rightarrow> Inr (m1, q1, eff, snd1 @ (if ret > 0 then [S_reply (in_token e) (str_mention_user (in_user e)
         @ (if ret = 1 then ''Nothing is playing right now'' else ''No permission to send/update message''))] else [])))"

definition u_playnow :: "embed_env \<Rightarrow> dpp_view \<Rightarrow> snowflake \<Rightarrow> interaction \<Rightarrow> manager \<Rightarrow> embed_op list \<Rightarrow> click_result" where
  "u_playnow env dv g e m q = update_answer env dv g e m q []"

definition s_playnow ::
  "embed_env \<Rightarrow> dpp_view \<Rightarrow> 32 word \<Rightarrow> snowflake \<Rightarrow> interaction \<Rightarrow> manager \<Rightarrow> embed_op list \<Rightarrow> click_result" where
  "s_playnow env dv shard g e m q =
    (let v = dv_voice dv shard g
     in bind_result (of_option (get_voice_from_gid dv g (in_user e))) (\<lambda>vcuser.
       case create_player dv g m of
         (None, m1) \<Rightarrow> update_answer env dv g e m1 q []
       | (Some p, m1) \<Rightarrow>
           (case (vcuser, v) of
              (Some (c, _), Some conn) \<Rightarrow>
                if vn_client conn \<noteq> None \<and> vn_channel_id conn = ch_id c \<and> voice_ready g shard m1 \<and> \<not> gp_stopped p
                then bind_result (of_option (stop_player dv v g p m1)) (\<lambda>(m2, eff). update_answer env dv g e m2 q eff)
                else update_answer env dv g e m1 q []
            | _ \<Rightarrow> update_answer env dv g e m1 q [])))"

definition h_playnow ::
  "embed_env \<Rightarrow> dpp_view \<Rightarrow> 64 word list \<Rightarrow> 32 word \<Rightarrow> snowflake \<Rightarrow> interaction \<Rightarrow> manager \<Rightarrow> embed_op list \<Rightarrow> click_result" where
  "h_playnow env dv rs shard g e m q =
    bind_result (of_option (get_voice_from_gid dv g (in_user e))) (\<lambda>vcuser.
      case (vcuser, dv_voice dv shard g) of
        (Some (c, _), Some conn) \<Rightarrow>
          if vn_channel_id conn \<noteq> ch_id c then Inr (m, q, [], [])
          else bind_result (of_option (mgr_shuffle_queue rs g False m)) (\<lambda>(ok, m1, eff).
            if ok then update_answer env dv g e m1 q (eff @ [E_publish_queue g]) else Inr (m1, q, eff, []))
      | _ \<Rightarrow> Inr (m, q, [], []))"

text \<open>\<open>expand\<close> is whether the whole set of buttons is to be shown: the handlers e and x.\<close>

definition ex_playnow ::
  "embed_env \<Rightarrow> dpp_view \<Rightarrow> bool \<Rightarrow> snowflake \<Rightarrow> interaction \<Rightarrow> manager \<Rightarrow> embed_op list \<Rightarrow> click_result" where
  "ex_playnow env dv expand g e m q =
    bind_result (reply_info_embed env dv g e expand True m) (\<lambda>(m1, snd1). Inr (m1, q, [], snd1))"

definition on_created :: "dpp_view \<Rightarrow> snowflake \<Rightarrow> (guild_player_t \<Rightarrow> guild_player_t) \<Rightarrow> manager \<Rightarrow> manager" where
  "on_created dv g f m = (case create_player dv g m of (None, m1) \<Rightarrow> m1 | (Some p, m1) \<Rightarrow> put_player g (f p) m1)"

definition notif_playnow ::
  "embed_env \<Rightarrow> dpp_view \<Rightarrow> bool \<Rightarrow> snowflake \<Rightarrow> interaction \<Rightarrow> manager \<Rightarrow> embed_op list \<Rightarrow> click_result" where
  "notif_playnow env dv on g e m q =
    update_answer env dv g e (on_created dv g (\<lambda>p. p\<lparr>gp_notification := on\<rparr>) m) q []"

definition a_playnow :: "embed_env \<Rightarrow> dpp_view \<Rightarrow> snowflake \<Rightarrow> interaction \<Rightarrow> manager \<Rightarrow> embed_op list \<Rightarrow> click_result" where
  "a_playnow env dv g e m q =
    (case create_player dv g m of
       (None, m1) \<Rightarrow> update_answer env dv g e m1 q []
     | (Some p, m1) \<Rightarrow>
         (case set_auto_play (\<not> gp_auto_play p) p of
            (p1, eff) \<Rightarrow> update_answer env dv g e (put_player g p1 m1) q (map (E_player g) eff)))"

section \<open>Every button has its handler\<close>

lemmas button_ids = id_pause_def id_resume_def id_stop_def id_loop_def id_shuffle_def id_expand_def id_unexpand_def
  id_prev_def id_rewind_def id_autoplay_def id_forward_def id_next_def id_disable_notif_def id_enable_notif_def id_update_def

lemma handle_playnow_ids:
  "handle_button id_pause = Some (Click_playnow Pn_pause)" "handle_button id_resume = Some (Click_playnow Pn_resume)"
  "handle_button id_stop = Some (Click_playnow Pn_stop)" "handle_button id_loop = Some (Click_playnow Pn_loop)"
  "handle_button id_shuffle = Some (Click_playnow Pn_shuffle)" "handle_button id_expand = Some (Click_playnow Pn_expand)"
  "handle_button id_unexpand = Some (Click_playnow Pn_unexpand)" "handle_button id_prev = Some (Click_playnow Pn_prev)"
  "handle_button id_rewind = Some (Click_playnow Pn_rewind)" "handle_button id_autoplay = Some (Click_playnow Pn_autoplay)"
  "handle_button id_forward = Some (Click_playnow Pn_forward)" "handle_button id_next = Some (Click_playnow Pn_next)"
  "handle_button id_disable_notif = Some (Click_playnow Pn_notif_off)"
  "handle_button id_enable_notif = Some (Click_playnow Pn_notif_on)"
  "handle_button id_update = Some (Click_playnow Pn_update)"
  by code_simp+

text \<open>The handlers of this file by their place in \<open>playnow_commands\<close>; those of the slash commands pause,
  play, loop, seek and skip are in their theories.\<close>

definition own_handler ::
  "playnow_cmd \<Rightarrow> embed_env \<Rightarrow> dpp_view \<Rightarrow> 64 word list \<Rightarrow> 32 word \<Rightarrow> snowflake \<Rightarrow> interaction \<Rightarrow> manager \<Rightarrow> embed_op list
    \<Rightarrow> click_result option" where
  "own_handler c env dv rs shard g e m q =
    (case c of
       Pn_update \<Rightarrow> Some (u_playnow env dv g e m q)
     | Pn_stop \<Rightarrow> Some (s_playnow env dv shard g e m q)
     | Pn_shuffle \<Rightarrow> Some (h_playnow env dv rs shard g e m q)
     | Pn_expand \<Rightarrow> Some (ex_playnow env dv True g e m q)
     | Pn_unexpand \<Rightarrow> Some (ex_playnow env dv False g e m q)
     | Pn_notif_off \<Rightarrow> Some (notif_playnow env dv False g e m q)
     | Pn_notif_on \<Rightarrow> Some (notif_playnow env dv True g e m q)
     | Pn_autoplay \<Rightarrow> Some (a_playnow env dv g e m q)
     | _ \<Rightarrow> None)"

text \<open>An update changes nothing of the player but the stored message.\<close>

lemma update_answer_player:
  assumes "update_answer env dv g e m q eff = Inr (m', q', eff', snd')" and "get_player g m = Some p"
  shows "\<exists>im. get_player g m' = Some (p\<lparr>gp_info_message := im\<rparr>)"
proof -
  obtain ret q1 s1 where "send_info_embed env dv g True False (Some e) m q = (ret, m', q1, s1)"
    using assms(1) by (auto simp: update_answer_def split: prod.split_asm)
  moreover have "(\<exists>im. p = p\<lparr>gp_info_message := im\<rparr>) = True"
    using exI [of "\<lambda>im. p = p\<lparr>gp_info_message := im\<rparr>" "gp_info_message p"] by simp
  ultimately show ?thesis using assms(2)
    unfolding send_info_embed_def message_to_update_def
    by (auto simp: Let_def put_player_def get_player_def set_info_message_def split: if_split_asm option.split_asm prod.split_asm)
qed

lemma notif_player:
  assumes "notif_playnow env dv on g e m q = Inr (m', q', eff, snd')" and "get_player g m = Some p" and "dv_guild dv g \<noteq> None"
  shows "\<exists>im. get_player g m' = Some (p\<lparr>gp_notification := on, gp_info_message := im\<rparr>)"
proof -
  have "get_player g (on_created dv g (\<lambda>p. p\<lparr>gp_notification := on\<rparr>) m) = Some (p\<lparr>gp_notification := on\<rparr>)"
    using assms(2,3) by (auto simp: on_created_def create_player_def get_player_def put_player_def)
  then show ?thesis using update_answer_player assms(1) by (fastforce simp: notif_playnow_def)
qed

lemma autoplay_player:
  assumes "a_playnow env dv g e m q = Inr (m', q', eff, snd')" and "get_player g m = Some p" and "dv_guild dv g \<noteq> None"
  shows "\<exists>im. get_player g m' = Some (p\<lparr>gp_auto_play := \<not> gp_auto_play p, gp_info_message := im\<rparr>)"
proof -
  have c: "create_player dv g m = (Some p, m)" using assms(2,3) by (auto simp: create_player_def get_player_def)
  have "get_player g (put_player g (p\<lparr>gp_auto_play := \<not> gp_auto_play p\<rparr>) m) = Some (p\<lparr>gp_auto_play := \<not> gp_auto_play p\<rparr>)"
    by (simp add: get_player_def put_player_def)
  then show ?thesis using update_answer_player assms(1) by (fastforce simp: a_playnow_def c set_auto_play_def)
qed

lemma button_place_ids:
  "bn_id (play_pause_button info) = (if pi_playing info then id_pause else id_resume)"
  "bn_id (stop_button info) = id_stop"
  "bn_id (expand_unexpand_button expanded) = (if expanded then id_unexpand else id_expand)"
  "bn_id (notif_button (pi_notification info)) = (if pi_notification info then id_disable_notif else id_enable_notif)"
  "bn_id update_button = id_update" "bn_id (emoji_button i x) = i"
  by (simp_all add: play_pause_button_def stop_button_def expand_unexpand_button_def notif_button_def
      update_button_def emoji_button_def Let_def split: option.split)

lemma expanded_shown: "is_button_expanded (msg\<lparr>dm_embeds := es, dm_rows := playing_rows info expanded\<rparr>) = expanded"
  by (simp add: is_button_expanded_def playing_rows_simps button_place_ids id_expand_def id_unexpand_def)

lemma notif_handler:
  assumes "own_handler (if shown then Pn_notif_off else Pn_notif_on) env dv rs shard g e m q = Some (Inr (m', q', eff, snd'))"
    and "get_player g m = Some p" and "dv_guild dv g \<noteq> None"
  shows "\<exists>im. get_player g m' = Some (p\<lparr>gp_notification := \<not> shown, gp_info_message := im\<rparr>)"
  using notif_player [OF _ assms(2,3)] assms(1) by (cases shown) (simp_all add: own_handler_def)

lemma autoplay_handler:
  assumes "own_handler Pn_autoplay env dv rs shard g e m q = Some (Inr (m', q', eff, snd'))"
    and "get_player g m = Some p" and "dv_guild dv g \<noteq> None"
  shows "\<exists>im. get_player g m' = Some (p\<lparr>gp_auto_play := \<not> gp_auto_play p, gp_info_message := im\<rparr>)"
  using autoplay_player [OF _ assms(2,3)] assms(1) by (simp add: own_handler_def)

lemma expand_shows:
  assumes "ex_playnow env dv expand g e m q = Inr (m', q', eff, snd')" and "S_update t msg \<in> set snd'"
  shows "is_button_expanded msg = expand"
  using assms unfolding ex_playnow_def reply_info_embed_def get_embed_werr_def get_playing_info_message_def
  by (auto simp: expanded_shown elim!: bind_resultE split: sum.split_asm)

lemma expand_handler:
  assumes "own_handler (if expanded then Pn_unexpand else Pn_expand) env dv rs shard g e m q = Some (Inr (m', q', eff, snd'))"
    and "S_update t msg \<in> set snd'"
  shows "is_button_expanded msg = (\<not> expanded)"
  using expand_shows [of env dv _ g e m q, OF _ assms(2)] assms(1) by (cases expanded) (simp_all add: own_handler_def)

lemmas switching_buttons = notif_handler autoplay_handler expand_handler

text \<open>C23: Every button of the info message leads, through the two tables of handlers, to the handler
  that belongs to its place: the first one to pause when the message says that it plays and to resume
  otherwise. The message remembers in its buttons whether all of them are shown, and no row has more
  than five. And the buttons that switch something switch it, on any later state of a guild that is known and has a
  player: the bell sets the notifications to the opposite of what the message shows and changes nothing else of the
  player but its stored message, the infinity sign inverts autoplay likewise, and the message sent for the
  arrow shows all buttons exactly when this one does not.\<close>

theorem buttons_handled:
  assumes "get_playing_info_message env dv msg0 g force expanded m = Inr (Inl msg, m1)"
  shows "is_button_expanded msg = expanded \<and> (\<forall>row\<in>set (dm_rows msg). length row \<le> 5)
    \<and> (\<exists>info. get_playing_info_embed env dv g force m = Inr (Inl (hd (dm_embeds msg), info), m1)
      \<and> map (map (handle_button \<circ> bn_id)) (dm_rows msg) = map (map (Some \<circ> Click_playnow))
          ([[if pi_playing info then Pn_pause else Pn_resume, Pn_stop, Pn_loop, Pn_shuffle,
             if expanded then Pn_unexpand else Pn_expand]]
           @ (if expanded then [[Pn_prev, Pn_rewind, Pn_autoplay, Pn_forward, Pn_next]] else [])
           @ [[if pi_notification info then Pn_notif_off else Pn_notif_on, Pn_update]])
      \<and> (\<forall>env' dv' rs shard e mb q mc q' eff sends p. get_player g mb = Some p \<longrightarrow> dv_guild dv' g \<noteq> None \<longrightarrow>
          (own_handler (if pi_notification info then Pn_notif_off else Pn_notif_on) env' dv' rs shard g e mb q
             = Some (Inr (mc, q', eff, sends))
           \<longrightarrow> (\<exists>im. get_player g mc = Some (p\<lparr>gp_notification := \<not> pi_notification info, gp_info_message := im\<rparr>)))
          \<and> (own_handler Pn_autoplay env' dv' rs shard g e mb q = Some (Inr (mc, q', eff, sends))
           \<longrightarrow> (\<exists>im. get_player g mc = Some (p\<lparr>gp_auto_play := \<not> gp_auto_play p, gp_info_message := im\<rparr>)))
          \<and> (own_handler (if expanded then Pn_unexpand else Pn_expand) env' dv' rs shard g e mb q
             = Some (Inr (mc, q', eff, sends))
           \<longrightarrow> (\<forall>t msg'. S_update t msg' \<in> set sends \<longrightarrow> is_button_expanded msg' = (\<not> expanded)))))"
proof -
  obtain e info where e: "get_playing_info_embed env dv g force m = Inr (Inl (e, info), m1)"
    and msg: "msg = msg0\<lparr>dm_embeds := [e], dm_rows := playing_rows info expanded\<rparr>"
    using assms unfolding get_playing_info_message_def by (auto elim!: bind_resultE split: sum.split_asm)
  have "is_button_expanded msg = expanded"
    by (simp only: msg expanded_shown)
  moreover have "\<forall>row\<in>set (dm_rows msg). length row \<le> 5"
    by (simp add: msg playing_rows_simps)
  moreover have "map (map (handle_button \<circ> bn_id)) (dm_rows msg) = map (map (Some \<circ> Click_playnow))
      ([[if pi_playing info then Pn_pause else Pn_resume, Pn_stop, Pn_loop, Pn_shuffle,
         if expanded then Pn_unexpand else Pn_expand]]
       @ (if expanded then [[Pn_prev, Pn_rewind, Pn_autoplay, Pn_forward, Pn_next]] else [])
       @ [[if pi_notification info then Pn_notif_off else Pn_notif_on, Pn_update]])"
    by (simp add: msg playing_rows_simps button_place_ids handle_playnow_ids)
  moreover have "get_playing_info_embed env dv g force m = Inr (Inl (hd (dm_embeds msg), info), m1)"
    using e by (simp add: msg)
  ultimately show ?thesis
    by (intro conjI exI [of _ info] allI impI switching_buttons) assumption+
qed

definition sample_embed_env :: embed_env where
  "sample_embed_env = \<lparr>ee_yt = sample_yt, ee_bitrate = (\<lambda>j. 128), ee_member = (\<lambda>g u. None), ee_user = (\<lambda>u. None),
    ee_highest_role = (\<lambda>g u. None), ee_message_of = (\<lambda>j. no_message), ee_json_of = (\<lambda>m. JNull)\<rparr>"

theorem buttons_handled_witness:
  "\<exists>msg m1. get_playing_info_message sample_embed_env sample_view no_message 1 True True
      (put_player 1 (playing_player [''1'', ''2''] l_none) manager_init) = Inr (Inl msg, m1)
    \<and> is_button_expanded msg \<and> (\<forall>row\<in>set (dm_rows msg). length row \<le> 5)"
proof -
  let ?m = "put_player 1 (playing_player [''1'', ''2''] l_none) manager_init"
  have "case get_playing_info_message sample_embed_env sample_view no_message 1 True True ?m of
      Inr (Inl msg, m1) \<Rightarrow> True | _ \<Rightarrow> False" by code_simp
  then obtain msg m1 where g: "get_playing_info_message sample_embed_env sample_view no_message 1 True True ?m = Inr (Inl msg, m1)"
    by (auto split: sum.split_asm)
  show ?thesis using buttons_handled [OF g] g by blast
qed

end
