(* ===== verification/Bot.thy ===== *)
theory Bot
  imports Buttons
begin

text \<open>
  The bot as a whole: the state of the manager under every command, button, dashboard
  message, track marker, job, timer and voice event, as one step relation. Its
  invariant says that the iterator into the queue that \<open>reset_shifted\<close> uses is always
  inside the queue, that every player is filed under its own guild, and that the lists
  of paused guilds and of resume timers hold no duplicates.
\<close>

section \<open>Operations keep players well formed\<close>

definition player_keeps :: "guild_player_t \<Rightarrow> guild_player_t \<Rightarrow> bool" where
  "player_keeps p p' \<longleftrightarrow> (player_ok p \<longrightarrow> player_ok p') \<and> gp_guild_id p' = gp_guild_id p"

lemma player_keeps_refl [simp]: "player_keeps p p"
  by (simp add: player_keeps_def)

lemma player_keeps_trans: "player_keeps p q \<Longrightarrow> player_keeps q r \<Longrightarrow> player_keeps p r"
  by (simp add: player_keeps_def)

text \<open>An operation that keeps the guild and the shift, and does not shorten the queue.\<close>

lemma player_keepsI:
  "gp_guild_id p' = gp_guild_id p \<Longrightarrow> gp_shifted_track p' = gp_shifted_track p
    \<Longrightarrow> length (gp_queue p) \<le> length (gp_queue p') \<Longrightarrow> player_keeps p p'"
  by (auto simp: player_keeps_def player_ok_def)

lemma player_keeps_zero:
  "gp_guild_id p' = gp_guild_id p \<Longrightarrow> gp_shifted_track p' = 0 \<Longrightarrow> player_keeps p p'"
  by (simp add: player_keeps_def)

lemma reset_shifted_frame:
  "reset_shifted p = Some (b, p') \<Longrightarrow> gp_guild_id p' = gp_guild_id p \<and> gp_shifted_track p' = 0"
  by (auto simp: reset_shifted_def queue_erase_def queue_add_front_def split: if_splits option.splits)

lemma reset_shifted_keeps: "reset_shifted p = Some (b, p') \<Longrightarrow> player_keeps p p'"
  using reset_shifted_frame player_keeps_zero by blast

lemma queue_insert_frame:
  "queue_insert t n p = Some p' \<Longrightarrow> gp_guild_id p' = gp_guild_id p \<and> gp_shifted_track p' = gp_shifted_track p
    \<and> length (gp_queue p') = Suc (length (gp_queue p))"
  by (auto simp: queue_insert_def insert_at_def split: if_splits)

lemma queue_add_front_keeps:
  "player_keeps p (let p1 = queue_add_front t p
    in if gp_shifted_track p1 < length (gp_queue p1) - 1 then p1\<lparr>gp_shifted_track := gp_shifted_track p1 + 1\<rparr> else p1)"
  by (auto simp: player_keeps_def player_ok_def queue_add_front_def Let_def)

lemma add_track_keeps:
  assumes "add_track f tf g u slip t p = Some (t1, p', eff)"
  shows "player_keeps p p'"
proof (cases "if tr_info_raw t = JNull then map_option (\<lambda>r. t\<lparr>tr_info_raw := r\<rparr>) f else Some t")
  case None
  then show ?thesis using assms unfolding add_track_def by simp
next
  case (Some t2)
  have ins: "queue_insert t2 n p = Some q \<Longrightarrow> player_keeps p q" for n q
    using queue_insert_frame by (fastforce intro: player_keepsI)
  have app: "player_keeps p (queue_add t2 p)" by (rule player_keepsI) (simp_all add: queue_add_def)
  show ?thesis
    using assms ins app queue_add_front_keeps [of p t2] unfolding add_track_def Some option.case Let_def
    by (cases "slip = 1 \<or> tf"; cases "slip > 1 \<and> length (gp_queue p) > nat slip") auto
qed

lemma clear_repeats_frame:
  "gp_guild_id (clear_repeats p) = gp_guild_id p" "gp_shifted_track (clear_repeats p) = gp_shifted_track p"
  "length (gp_queue (clear_repeats p)) = length (gp_queue p)"
  by (auto simp: clear_repeats_def Let_def split: list.splits)

lemma skip_queue_keeps: "skip_queue a r pc pb p = Some (rs, p') \<Longrightarrow> player_keeps p p' \<and> gp_shifted_track p' = 0"
proof -
  assume s: "skip_queue a r pc pb p = Some (rs, p')"
  then obtain b p1 n again where p1: "reset_shifted p = Some (b, p1)"
    and l: "skip_loop n again (clear_repeats p1) [] = (rs, p')"
    by (auto simp: skip_queue_def Let_def split: option.splits)
  obtain q where "p' = (clear_repeats p1)\<lparr>gp_queue := q\<rparr>"
    using skip_loop_state [of n again "clear_repeats p1" "[]"] l by auto
  then have "gp_guild_id p' = gp_guild_id p \<and> gp_shifted_track p' = 0"
    using reset_shifted_frame [OF p1] by (simp add: clear_repeats_frame)
  then show ?thesis by (auto intro: player_keeps_zero)
qed

lemma stop_keeps: "player_keeps p (stop b p)"
  by (rule player_keepsI) (auto simp: stop_def reset_first_track_current_byte_def split: list.splits)

lemma player_skip_playback_keeps: "player_skip_playback dv v p = Some (s, p', eff) \<Longrightarrow> player_keeps p p'"
  using stop_keeps by (auto simp: player_skip_playback_def skip_playback_def split: option.splits)

lemma remove_track_keeps: "remove_track pos a t p = Some (n, p') \<Longrightarrow> player_keeps p p'"
  by (auto simp: remove_track_def Let_def dest!: reset_shifted_frame intro!: player_keeps_zero split: if_splits option.splits)

lemma remove_track_by_user_frame:
  "gp_guild_id (snd (remove_track_by_user u p)) = gp_guild_id p"
  "gp_shifted_track (snd (remove_track_by_user u p)) = gp_shifted_track p"
  by (simp_all add: remove_track_by_user_def split: prod.split)

lemma remove_users_frame:
  "gp_guild_id (snd (remove_users us p)) = gp_guild_id p
    \<and> gp_shifted_track (snd (remove_users us p)) = gp_shifted_track p"
  by (induction us arbitrary: p) (simp_all add: split_beta remove_track_by_user_frame)

lemma shuffle_keeps: "shuffle rs u p = Some (b, p', eff) \<Longrightarrow> player_keeps p p'"
  by (auto simp: shuffle_def Let_def queue_pop_front_def queue_add_front_def set_queue_def queue_clear_def
      dest!: reset_shifted_frame intro!: player_keeps_zero split: if_splits option.splits list.splits)

lemma marker_player_keeps:
  assumes "marker_player dv vc g meta jl p = Inr (ok, p', eff)" and "player_ok p"
  shows "player_keeps p p'"
proof (cases "gp_queue p = []")
  case True
  then show ?thesis using assms by (simp add: marker_player_def)
next
  case False
  obtain b p1 where p1: "reset_shifted p = Some (b, p1)" using reset_shifted_ok [OF assms(2)] by blast
  obtain p2 pub where p2: "marker_advance meta p1 = (p2, pub)" by (metis surj_pair)
  have "gp_guild_id p1 = gp_guild_id p" using reset_shifted_frame [OF p1] by simp
  moreover have "gp_guild_id p2 = gp_guild_id p1"
    using p2 by (auto simp: marker_advance_def Let_def split: list.splits loop_mode_t.splits if_splits)
  moreover have "gp_guild_id (marker_take_first p2) = gp_guild_id p2"
    by (auto simp: marker_take_first_def Let_def split: list.splits)
  moreover have "p' = p2\<lparr>gp_current_track := MCTrack_default\<rparr> \<or> p' = marker_take_first p2"
    using assms(1) False by (auto simp: marker_player_def p1 p2 Let_def split: option.splits if_splits)
  ultimately have "gp_guild_id p' = gp_guild_id p" by auto
  then show ?thesis using marker_player_cases(1) [OF assms] by (simp add: player_keeps_def)
qed

section \<open>The invariant of the manager\<close>

definition mg_ok :: "manager \<Rightarrow> bool" where
  "mg_ok m \<longleftrightarrow> (\<forall>g p. mg_players m g = Some p \<longrightarrow> player_ok p \<and> gp_guild_id p = g)
    \<and> distinct (mg_manually_paused m) \<and> distinct (map rt_key (mg_resume_timers m))"

lemma mg_ok_init: "mg_ok manager_init"
  by (simp add: mg_ok_def manager_init_def)

lemma mg_ok_player: "mg_ok m \<Longrightarrow> get_player g m = Some p \<Longrightarrow> player_ok p \<and> gp_guild_id p = g"
  by (simp add: mg_ok_def get_player_def)

lemma mg_ok_put: "mg_ok m \<Longrightarrow> player_ok p \<Longrightarrow> gp_guild_id p = g \<Longrightarrow> mg_ok (put_player g p m)"
  by (auto simp: mg_ok_def put_player_def)

lemma mg_ok_put_keeps:
  "mg_ok m \<Longrightarrow> get_player g m = Some p \<Longrightarrow> player_keeps p p' \<Longrightarrow> mg_ok (put_player g p' m)"
  using mg_ok_player mg_ok_put by (fastforce simp: player_keeps_def)

text \<open>Operations on the other tables.\<close>

lemma mg_ok_cong:
  "mg_players m' = mg_players m \<Longrightarrow> mg_manually_paused m' = mg_manually_paused m
    \<Longrightarrow> mg_resume_timers m' = mg_resume_timers m \<Longrightarrow> mg_ok m' = mg_ok m"
  by (simp add: mg_ok_def)

lemma mg_ok_tables [simp]:
  "mg_ok (clear_disconnecting g m) = mg_ok m"
  "mg_ok (set_disconnecting dv g c m) = mg_ok m"
  "mg_ok (set_connecting g c m) = mg_ok m"
  "mg_ok (snd (clear_connecting g m)) = mg_ok m"
  "mg_ok (fst (set_waiting_vc_ready dv g s m)) = mg_ok m"
  "mg_ok (snd (clear_wait_vc_ready g m)) = mg_ok m"
  "mg_ok (m\<lparr>mg_vcs_setting := v\<rparr>) = mg_ok m"
  by (simp_all add: mg_ok_def clear_disconnecting_def set_disconnecting_def set_connecting_def
      clear_connecting_def set_waiting_vc_ready_def clear_wait_vc_ready_def split: option.split)

lemma mg_ok_paused: "mg_ok m \<Longrightarrow> mg_ok (set_manually_paused g m)" "mg_ok m \<Longrightarrow> mg_ok (clear_manually_paused g m)"
  using paused.ok_mark [of m g] paused.ok_unmark [of m g]
  by (auto simp: mg_ok_def set_manually_paused_def clear_manually_paused_def)

lemma mg_ok_create: "mg_ok m \<Longrightarrow> create_player dv g m = (r, m1) \<Longrightarrow> mg_ok m1"
  by (auto simp: create_player_def Let_def guild_player_new_def player_init_def
      intro!: mg_ok_put split: option.splits)

lemma create_player_get: "create_player dv g m = (Some p, m1) \<Longrightarrow> get_player g m1 = Some p"
  by (auto simp: create_player_def Let_def get_player_def put_player_def split: option.splits)

lemma mg_ok_delete: "mg_ok m \<Longrightarrow> mg_ok (snd (delete_player g m))" "mg_ok m \<Longrightarrow> mg_ok (handle_guild_delete g m)"
  by (auto simp: mg_ok_def delete_player_def handle_guild_delete_def split: option.splits)

lemma mg_ok_resume_timer: "mg_ok m \<Longrightarrow> mg_ok (snd (create_resume_timer now u c vc d m))"
  by (auto simp: create_resume_timer_def Let_def mg_ok_def is_rt_duplicate_iff split: option.splits)

lemma load_tracks_keeps: "load_tracks f u ts p = Some p' \<Longrightarrow> player_keeps p p'"
proof (induction ts arbitrary: p)
  case (Cons t ts)
  then show ?case
    by (auto simp: Let_def split: option.splits intro: player_keeps_trans add_track_keeps)
qed simp

lemma mg_ok_load_queue:
  assumes "load_guild_current_queue dv f db s g u m = Some (st, m1, eff)" and "mg_ok m"
  shows "mg_ok m1"
proof -
  obtain p m0 where c: "create_player dv g m = (Some p, m0)"
    using assms(1) by (auto simp: load_guild_current_queue_def split: prod.splits option.splits)
  note ok = mg_ok_create [OF assms(2) c] create_player_get [OF c]
  let ?p1 = "p\<lparr>gp_saved_queue_loaded := True\<rparr>"
  have k: "player_keeps p ?p1" by (rule player_keepsI) simp_all
  consider "m1 = m0" | "m1 = put_player g ?p1 m0"
    | p2 where "load_tracks f u (fst s) ?p1 = Some p2" "m1 = put_player g p2 m0"
    using assms(1) unfolding load_guild_current_queue_def c prod.case option.case
    by (auto simp: Let_def split: if_splits option.splits)
  then show ?thesis
    using mg_ok_put_keeps [OF ok k] mg_ok_put_keeps [OF ok] load_tracks_keeps player_keeps_trans [OF k] ok(1)
    by cases blast+
qed

lemma load_member_keeps:
  "load_member j k f p = Inr p' \<Longrightarrow> (\<And>v q q'. f v q = Inr q' \<Longrightarrow> player_keeps q q') \<Longrightarrow> player_keeps p p'"
  by (auto simp: load_member_def split: option.splits)


lemma load_equalizer_keeps: "load_equalizer v p = Inr p' \<Longrightarrow> player_keeps p p'"
  by (auto simp: load_equalizer_def bind_result_Inr_iff intro!: player_keepsI)

lemma load_field_keeps:
  assumes "load_member j k (\<lambda>v p. bind_result (rd v) (\<lambda>d. Inr (upd d p))) p = Inr p'"
    and "\<And>d q. player_keeps q (upd d q)"
  shows "player_keeps p p'"
  using assms by (auto simp: load_member_def bind_result_Inr_iff split: option.splits)

lemma load_fx_keeps: "load_fx_states j p0 = Inr (r, p') \<Longrightarrow> player_keeps p0 p'"
proof -
  assume l: "load_fx_states j p0 = Inr (r, p')"
  show ?thesis
  proof (cases "is_object j")
    case True
    then obtain p1 p2 p3 p4 p5 p6 p7 p8 where s:
      "load_member j ''tempo'' (\<lambda>v p. bind_result (get_double v) (\<lambda>d. Inr (p\<lparr>gp_tempo := d\<rparr>))) p0 = Inr p1"
      "load_member j ''pitch'' (\<lambda>v p. bind_result (get_int v) (\<lambda>i. Inr (p\<lparr>gp_pitch := i\<rparr>))) p1 = Inr p2"
      "load_member j ''equalizer'' load_equalizer p2 = Inr p3"
      "load_member j ''sampling_rate'' (\<lambda>v p. bind_result (get_int64 v) (\<lambda>i. Inr (p\<lparr>gp_sampling_rate := wrap32 i\<rparr>))) p3 = Inr p4"
      "load_member j ''vibrato_f'' (\<lambda>v p. bind_result (get_double v) (\<lambda>d. Inr (p\<lparr>gp_vibrato_f := d\<rparr>))) p4 = Inr p5"
      "load_member j ''vibrato_d'' (\<lambda>v p. bind_result (get_int v) (\<lambda>i. Inr (p\<lparr>gp_vibrato_d := i\<rparr>))) p5 = Inr p6"
      "load_member j ''tremolo_f'' (\<lambda>v p. bind_result (get_double v) (\<lambda>d. Inr (p\<lparr>gp_tremolo_f := d\<rparr>))) p6 = Inr p7"
      "load_member j ''tremolo_d'' (\<lambda>v p. bind_result (get_int v) (\<lambda>i. Inr (p\<lparr>gp_tremolo_d := i\<rparr>))) p7 = Inr p8"
      "load_member j ''earwax'' (\<lambda>v p. bind_result (get_bool v) (\<lambda>b. Inr (p\<lparr>gp_earwax := b\<rparr>))) p8 = Inr p'"
      using l by (auto simp: load_fx_states_def bind_result_Inr_iff)
    have "player_keeps p0 p1" by (rule load_field_keeps [OF s(1)]) (simp add: player_keepsI)
    moreover have "player_keeps p1 p2" by (rule load_field_keeps [OF s(2)]) (simp add: player_keepsI)
    moreover have "player_keeps p2 p3" using s(3) load_equalizer_keeps by (rule load_member_keeps)
    moreover have "player_keeps p3 p4" by (rule load_field_keeps [OF s(4)]) (simp add: player_keepsI)
    moreover have "player_keeps p4 p5" by (rule load_field_keeps [OF s(5)]) (simp add: player_keepsI)
    moreover have "player_keeps p5 p6" by (rule load_field_keeps [OF s(6)]) (simp add: player_keepsI)
    moreover have "player_keeps p6 p7" by (rule load_field_keeps [OF s(7)]) (simp add: player_keepsI)
    moreover have "player_keeps p7 p8" by (rule load_field_keeps [OF s(8)]) (simp add: player_keepsI)
    moreover have "player_keeps p8 p'" by (rule load_field_keeps [OF s(9)]) (simp add: player_keepsI)
    ultimately show ?thesis using player_keeps_trans by metis
  next
    case False
    then show ?thesis using l by (simp add: load_fx_states_def)
  qed
qed

lemma mg_ok_load_config:
  assumes "load_guild_player_config dv conf g m = Inr (st, m1)" and "mg_ok m"
  shows "mg_ok m1"
proof -
  obtain p m0 where c: "create_player dv g m = (Some p, m0)"
    using assms(1) by (auto simp: load_guild_player_config_def split: prod.splits option.splits)
  note ok = mg_ok_create [OF assms(2) c] create_player_get [OF c]
  let ?p1 = "p\<lparr>gp_saved_config_loaded := True\<rparr>"
  let ?p2 = "?p1\<lparr>gp_loop_mode := pc_loop_mode (fst conf),
    gp_max_history_size := unat (word_of_int (pc_autoplay_threshold (fst conf)) :: 64 word),
    gp_auto_play := pc_autoplay_state (fst conf)\<rparr>"
  have k: "player_keeps p ?p1" "player_keeps p ?p2" by (rule player_keepsI; simp)+
  show ?thesis
  proof (cases "gp_saved_config_loaded p \<or> snd conf \<noteq> 0")
    case True
    then show ?thesis using assms(1) ok(1) mg_ok_put_keeps [OF ok k(1)]
      by (auto simp: load_guild_player_config_def c Let_def split: if_splits)
  next
    case False
    then obtain r p3 where "load_fx_states (pc_fx_states (fst conf)) ?p2 = Inr (r, p3)" "m1 = put_player g p3 m0"
      using assms(1) by (auto simp: load_guild_player_config_def c Let_def bind_result_Inr_iff)
    then show ?thesis using mg_ok_put_keeps [OF ok] load_fx_keeps k(2) player_keeps_trans by blast
  qed
qed


section \<open>Every handler keeps the invariant\<close>

lemma mg_ok_mgr_shuffle: "mgr_shuffle_queue rs g u m = Some (b, m1, eff) \<Longrightarrow> mg_ok m \<Longrightarrow> mg_ok m1"
  by (auto simp: mgr_shuffle_queue_def split: option.splits intro: mg_ok_put_keeps shuffle_keeps)

lemma mg_ok_get_queue: "get_queue g m = Some (q, m1) \<Longrightarrow> mg_ok m \<Longrightarrow> mg_ok m1"
  using mg_ok_put_keeps reset_shifted_keeps
  by (fastforce simp: get_queue_def get_player_def split: option.splits)

lemma mg_ok_handle_option:
  assumes "handle_option dv rs shard g q queue m = Inr (m', eff)" and "mg_ok m"
  shows "mg_ok m'"
proof -
  obtain p0 b p where p: "get_player g m = Some p0" "reset_shifted p0 = Some (b, p)"
    using assms(1) by (auto simp: handle_option_def command_iff)
  have z: "gp_shifted_track p = 0" "gp_guild_id p = g"
    using reset_shifted_frame [OF p(2)] mg_ok_player [OF assms(2) p(1)] by auto
  have put: "mg_ok (put_player g p' m)" if "gp_guild_id p' = g" "gp_shifted_track p' = 0" for p'
    using mg_ok_put [OF assms(2)] that by simp
  have shuf: "mgr_shuffle_queue rs g True (put_player g p m) = Some (b, m1, eff1) \<Longrightarrow> mg_ok m1" for b m1 eff1
    using mg_ok_mgr_shuffle put z by blast
  note defs = queue_clear_all_def queue_shuffle_def queue_reverse_def queue_clear_musicat_def queue_defs
  have cl: "queue_clear_left dv shard g p m = Inr (m', eff) \<Longrightarrow> mg_ok m'"
    using put remove_users_frame [of _ p] z
    by (fastforce simp: queue_clear_left_def command_iff Let_def split_beta split: if_splits option.splits)
  show ?thesis
    using assms(1) put z shuf cl remove_track_by_user_frame [of "dv_sha_id dv" p]
    unfolding handle_option_def
    by (cases q) (auto simp: p defs command_iff Let_def split_beta split: if_splits list.splits)
qed

lemma mg_ok_queue_slash:
  "queue_slash_run dv ev rs shard g q m = Inr (m', eff) \<Longrightarrow> mg_ok m \<Longrightarrow> mg_ok m'"
  by (auto simp: queue_slash_run_def command_iff split: if_splits option.splits
      dest!: mg_ok_load_queue mg_ok_get_queue mg_ok_handle_option)

lemma move_track_keeps: "move_track fr to p = Some p' \<Longrightarrow> player_keeps p p'"
  by (auto simp: move_track_def bind_Some_iff queue_erase_def erase_at_def intro!: player_keepsI
      dest!: queue_insert_frame split: if_splits)

lemma mg_ok_move: "move_slash_run yt g a b m = Inr (m', eff) \<Longrightarrow> mg_ok m \<Longrightarrow> mg_ok m'"
  by (auto simp: move_slash_run_def command_iff Let_def split: if_splits option.splits
      intro: mg_ok_put_keeps dest!: move_track_keeps)

lemma mg_ok_mgr_remove: "mgr_remove_track g pos a t m = Some (n, m1) \<Longrightarrow> mg_ok m \<Longrightarrow> mg_ok m1"
  by (auto simp: mgr_remove_track_def split: option.splits intro: mg_ok_put_keeps dest!: remove_track_keeps)

lemma mg_ok_remove: "remove_slash_run yt g a b c m = Inr (m', eff) \<Longrightarrow> mg_ok m \<Longrightarrow> mg_ok m'"
  by (auto simp: remove_slash_run_def command_iff Let_def split: if_splits
      dest!: mg_ok_get_queue mg_ok_mgr_remove)


lemma mg_ok_mgr_skip:
  assumes "mgr_skip dv v g u a rm m = Some (r, m1, eff)" and "mg_ok m"
  shows "mg_ok m1"
proof (cases v)
  case None
  then show ?thesis using assms by (simp add: mgr_skip_def)
next
  case (Some conn)
  show ?thesis
  proof (cases "get_player g m")
    case None
    then show ?thesis using assms Some by (simp add: mgr_skip_def)
  next
    case p0: (Some p0)
    obtain b p where p: "reset_shifted p0 = Some (b, p)"
      using assms(1) Some p0 by (auto simp: mgr_skip_def split: option.splits)
    have k: "player_keeps p0 p" using p by (rule reset_shifted_keeps)
    have "m1 = put_player g p m \<or> (\<exists>rs p1 s p2 eff1. skip_queue a rm False False p = Some (rs, p1)
        \<and> player_skip_playback dv v p1 = Some (s, p2, eff1) \<and> m1 = put_player g p2 m)"
      using assms(1) unfolding mgr_skip_def Some p0 option.case p prod.case
      by (auto split: option.splits if_splits prod.splits)
    then show ?thesis
      using mg_ok_put_keeps [OF assms(2) p0] k skip_queue_keeps player_skip_playback_keeps player_keeps_trans by metis
  qed
qed

lemma mg_ok_skip_run: "skip_run yt dv shard u g a r m = Inr (out, m1, eff) \<Longrightarrow> mg_ok m \<Longrightarrow> mg_ok m1"
  by (auto simp: skip_run_def of_option_iff elim!: bind_resultE split: if_splits sum.splits prod.splits
      dest!: mg_ok_mgr_skip)

lemma mg_ok_skip: "skip_slash_run yt dv shard u g a r m = Inr (m1, eff) \<Longrightarrow> mg_ok m \<Longrightarrow> mg_ok m1"
  "button_run_next yt dv shard u g m = Inr (m1, eff) \<Longrightarrow> mg_ok m \<Longrightarrow> mg_ok m1"
  by (auto simp: skip_slash_run_def button_run_next_def command_iff dest!: mg_ok_skip_run)

lemma previous_track_keeps: "previous_track dv v g p = Some (p', eff) \<Longrightarrow> player_keeps p p'"
proof -
  assume "previous_track dv v g p = Some (p', eff)"
  then obtain b p1 where p1: "reset_shifted p = Some (b, p1)"
    and r: "p' = clear_repeats p1 \<or> (\<exists>p2 s eff1. rotate_back (clear_repeats p1) = Some p2
      \<and> player_skip_playback dv v p2 = Some (s, p', eff1))"
    by (auto simp: previous_track_def bind_Some_iff Let_def split: if_splits)
  have k1: "player_keeps p p1" using p1 by (rule reset_shifted_keeps)
  have k2: "player_keeps p1 (clear_repeats p1)" by (rule player_keepsI) (simp_all add: clear_repeats_frame)
  have k3: "rotate_back q = Some p2 \<Longrightarrow> player_keeps q p2" for q p2
    by (auto simp: rotate_back_def queue_pop_def queue_add_front_def split: if_splits intro!: player_keepsI)
  show ?thesis using r k1 k2 k3 player_skip_playback_keeps player_keeps_trans by metis
qed

lemma mg_ok_seek_run: "seek_run g s m = Inr (out, m1, eff) \<Longrightarrow> mg_ok m \<Longrightarrow> mg_ok m1"
  by (auto simp: seek_run_def command_iff Let_def split: if_splits option.splits
      intro!: mg_ok_put_keeps player_keepsI)

lemma mg_ok_seek_button: "seek_button_run yt f g m = Inr (st, m1, eff) \<Longrightarrow> mg_ok m \<Longrightarrow> mg_ok m1"
  by (auto simp: seek_button_run_def Let_def elim!: bind_resultE split: if_splits option.splits prod.splits
      dest!: mg_ok_seek_run)

lemma mg_ok_prev: "button_run_prev yt dv shard g m = Inr (m1, eff) \<Longrightarrow> mg_ok m \<Longrightarrow> mg_ok m1"
  by (auto simp: button_run_prev_def command_iff split: if_splits
      intro: mg_ok_put_keeps dest!: mg_ok_seek_button previous_track_keeps)

lemma loop_player_keeps: "loop_player yt g mode a p = Some (out, d, p', eff) \<Longrightarrow> player_keeps p p'"
proof -
  assume l: "loop_player yt g mode a p = Some (out, d, p', eff)"
  have k: "player_keeps q (fst (set_loop_amount yt a q))" "player_keeps q (fst (set_loop_mode i q))" for q i
    by (auto intro!: player_keepsI simp: set_loop_amount_def set_loop_mode_def Let_def split: list.splits)
  let ?i = "mode (loop_mode_int (gp_loop_mode p))"
  show ?thesis
  proof (cases "?i < 0 \<or> ?i > 3")
    case True
    then show ?thesis using l by (auto simp: loop_player_def Let_def)
  next
    case False
    then obtain b q where q: "reset_shifted p = Some (b, q)" using l by (auto simp: loop_player_def Let_def)
    obtain pa pub oa where sa: "set_loop_amount yt a q = (pa, pub, oa)" by (metis prod_cases3)
    obtain pm em where sm: "set_loop_mode ?i q = (pm, em)" by (metis surj_pair)
    have "p' = q \<or> p' = pa \<or> p' = pm"
      using l False unfolding loop_player_def Let_def q by (auto simp: sa sm split: if_splits)
    then show ?thesis
      using k [of q] sa sm reset_shifted_keeps [OF q] player_keeps_trans by (metis fst_conv)
  qed
qed

lemma mg_ok_loop_run:
  assumes "loop_run yt dv ev g u mode a upd m = Inr (out, m1, eff)" and "mg_ok m"
  shows "mg_ok m1"
proof -
  have fin: "get_player g m2 = Some p2 \<Longrightarrow> loop_player yt g mode a p2 = Some (o2, d, p3, e2) \<Longrightarrow> mg_ok m2
    \<Longrightarrow> mg_ok (put_player g p3 m2)" for m2 p2 o2 d p3 e2
    using mg_ok_put_keeps loop_player_keeps by blast
  show ?thesis
    using assms unfolding loop_run_def
    by (auto elim!: bind_resultE simp: of_option_iff with_player_iff
        split: if_split_asm option.split_asm prod.split_asm
        dest!: mg_ok_create [OF assms(2)] dest: mg_ok_load_config) (metis fin mg_ok_load_config)+
qed

lemma mg_ok_loop: "loop_slash_run yt dv ev g u a b m = Inr (m1, eff) \<Longrightarrow> mg_ok m \<Longrightarrow> mg_ok m1"
  "handle_button_modal_dialog yt dv ev g u m = Inr (m1, eff) \<Longrightarrow> mg_ok m \<Longrightarrow> mg_ok m1"
  by (auto simp: loop_slash_run_def handle_button_modal_dialog_def command_iff dest!: mg_ok_loop_run)

lemma mg_ok_stop_player:
  assumes "stop_player dv v g p m = Some (m1, eff)" and "get_player g m = Some p" and "mg_ok m"
  shows "mg_ok m1"
proof -
  obtain s p1 e where p1: "player_skip_playback dv v p = Some (s, p1, e)"
    and m1: "m1 = set_manually_paused g (put_player g (p1\<lparr>gp_stopped := True\<rparr>) m)"
    using assms(1) by (auto simp: stop_player_def)
  have "player_keeps p1 (p1\<lparr>gp_stopped := True\<rparr>)" by (rule player_keepsI) simp_all
  then show ?thesis unfolding m1
    using mg_ok_paused(1) mg_ok_put_keeps [OF assms(3,2)] player_skip_playback_keeps [OF p1] player_keeps_trans by blast
qed

lemma mg_ok_stop: "stop_slash_run dv shard g u m = Inr (m1, eff) \<Longrightarrow> mg_ok m \<Longrightarrow> mg_ok m1"
  by (auto simp: stop_slash_run_def Let_def of_option_iff with_player_iff reply_def elim!: bind_resultE
      split: if_split_asm option.split_asm) (metis mg_ok_stop_player)+

lemma mg_ok_mgr_pause: "mgr_pause dv g u m = (b, m1, eff) \<Longrightarrow> mg_ok m \<Longrightarrow> mg_ok m1"
  by (auto simp: mgr_pause_def split: option.splits prod.splits if_splits intro: mg_ok_paused)

lemma mg_ok_pause_run: "pause_run dv u g upd m = Inr (out, m1, eff) \<Longrightarrow> mg_ok m \<Longrightarrow> mg_ok m1"
  by (auto simp: pause_run_def elim!: bind_resultE split: if_split_asm prod.split_asm dest!: mg_ok_mgr_pause)

lemma mg_ok_pause: "pause_slash_run dv u g m = Inr (m1, eff) \<Longrightarrow> mg_ok m \<Longrightarrow> mg_ok m1"
  "pause_button_run dv u g m = Inr (m1, eff) \<Longrightarrow> mg_ok m \<Longrightarrow> mg_ok m1"
  by (auto simp: pause_slash_run_def pause_button_run_def command_iff dest!: mg_ok_pause_run)

lemma mg_ok_volume: "volume_slash_run g a m = Inr (m1, eff) \<Longrightarrow> mg_ok m \<Longrightarrow> mg_ok m1"
  by (auto simp: volume_slash_run_def reply_def Let_def split: if_splits option.splits
      intro!: mg_ok_put_keeps player_keepsI)

lemma autoplay_player_keeps: "player_keeps p (fst (autoplay_player g a t p))"
  by (rule player_keepsI) (auto simp: autoplay_player_def set_auto_play_def set_max_history_size_def Let_def split_beta)

lemma mg_ok_autoplay:
  assumes "autoplay_slash_run dv ev g a t m = Inr (m1, eff)" and "mg_ok m"
  shows "mg_ok m1"
proof -
  have fin: "get_player g m2 = Some p2 \<Longrightarrow> autoplay_player g x y p2 = (p3, e) \<Longrightarrow> mg_ok m2 \<Longrightarrow> mg_ok (put_player g p3 m2)"
    for m2 p2 x y p3 e
    using mg_ok_put_keeps autoplay_player_keeps by (metis fst_conv)
  show ?thesis
    using assms unfolding autoplay_slash_run_def
    by (auto simp: reply_def elim!: bind_resultE with_playerE split: if_split_asm option.split_asm prod.split_asm
        dest!: mg_ok_create [OF assms(2)] dest: mg_ok_load_config) (metis fin mg_ok_load_config)+
qed


section \<open>The dashboard\<close>

lemma check_user_voicestate_player:
  "check_user_voicestate dv ws m = Inr (Inr p) \<Longrightarrow> get_player (ws_server_id ws) m = Some p"
  by (auto simp: check_user_voicestate_def elim!: bind_resultE split: if_splits option.splits)

lemma ws_checkedE:
  assumes "ws_checked dv ws m f = Inr (s, m1, eff)"
  obtains "m1 = m" | p where "get_player (ws_server_id ws) m = Some p" and "f p = Inr (s, m1, eff)"
  using assms by (auto simp: ws_checked_def elim!: bind_resultE split: sum.split_asm prod.split_asm
      dest!: check_user_voicestate_player)

lemma mg_ok_set_reconnect: "set_reconnect dv g d c m = (s, m1, eff) \<Longrightarrow> mg_ok m \<Longrightarrow> mg_ok m1"
proof -
  have w: "set_waiting_vc_ready dv g s' (set_connecting g c m') = (m2, eff2) \<Longrightarrow> mg_ok m2 = mg_ok m'" for s' m' m2 eff2
    using mg_ok_tables(5) [of dv g s' "set_connecting g c m'"] mg_ok_tables(3) by (metis fst_conv)
  show "set_reconnect dv g d c m = (s, m1, eff) \<Longrightarrow> mg_ok m \<Longrightarrow> mg_ok m1"
    by (auto simp: set_reconnect_def Let_def split: if_splits prod.splits dest!: w)
qed

lemma mg_ok_full_reconnect: "full_reconnect dv sh g d c b m = Some (s, m1, eff) \<Longrightarrow> mg_ok m \<Longrightarrow> mg_ok m1"
  by (auto simp: full_reconnect_def Let_def split: if_splits prod.splits option.splits dest!: mg_ok_set_reconnect)

lemma mg_ok_ws_check_health: "ws_check_health dv g m = Inr (m1, eff) \<Longrightarrow> mg_ok m \<Longrightarrow> mg_ok m1"
  by (auto simp: ws_check_health_def check_health_def of_option_iff elim!: bind_resultE
      split: if_splits prod.splits option.splits dest!: mg_ok_full_reconnect)

lemma mg_ok_mgr_unpause: "mgr_unpause b g u m = (m1, eff) \<Longrightarrow> mg_ok m \<Longrightarrow> mg_ok m1"
  by (auto simp: mgr_unpause_def intro: mg_ok_paused)

lemma mg_ok_handle_seek: "handle_seek dv data ws m = Inr (s, m1, eff) \<Longrightarrow> mg_ok m \<Longrightarrow> mg_ok m1"
  by (auto simp: handle_seek_def seek_player_to_def elim!: ws_checkedE split: if_splits json.splits
      intro!: mg_ok_put_keeps player_keepsI)

lemma mg_ok_handle_next: "handle_next dv q ws m = Inr (s, m1, eff) \<Longrightarrow> mg_ok m \<Longrightarrow> mg_ok m1"
  by (auto simp: handle_next_def Let_def of_option_iff elim!: ws_checkedE bind_resultE
      split: if_split_asm prod.split_asm dest!: mg_ok_ws_check_health)
    (metis mg_ok_put_keeps skip_queue_keeps player_skip_playback_keeps player_keeps_trans)+

lemma mg_ok_handle_prev: "handle_prev yt dv q ws m = Inr (s, m1, eff) \<Longrightarrow> mg_ok m \<Longrightarrow> mg_ok m1"
  by (auto simp: handle_prev_def Let_def of_option_iff elim!: ws_checkedE bind_resultE
      split: if_split_asm prod.split_asm dest!: mg_ok_ws_check_health mg_ok_handle_seek)
    (metis mg_ok_put_keeps previous_track_keeps)+

lemma mg_ok_handle_stop: "handle_stop dv ws m = Inr (s, m1, eff) \<Longrightarrow> mg_ok m \<Longrightarrow> mg_ok m1"
  by (auto simp: handle_stop_def Let_def of_option_iff elim!: ws_checkedE bind_resultE
      split: if_split_asm prod.split_asm dest!: mg_ok_ws_check_health mg_ok_stop_player)

lemma mg_ok_handle_play: "handle_play dv ws m = Inr (s, m1, eff) \<Longrightarrow> mg_ok m \<Longrightarrow> mg_ok m1"
  by (auto simp: handle_play_def Let_def elim!: ws_checkedE bind_resultE
      split: if_split_asm prod.split_asm option.split_asm dest!: mg_ok_ws_check_health mg_ok_mgr_unpause)

lemma mg_ok_handle_pause: "handle_pause dv ws m = Inr (s, m1, eff) \<Longrightarrow> mg_ok m \<Longrightarrow> mg_ok m1"
  by (auto simp: handle_pause_def elim!: ws_checkedE split: prod.split_asm dest!: mg_ok_mgr_pause)

lemma mg_ok_handle_message: "handle_message yt dv q e pl ws m = Inr (s, m1, eff) \<Longrightarrow> mg_ok m \<Longrightarrow> mg_ok m1"
  by (cases e) (auto simp: handle_message_def Let_def handle_register_def mg_ok_handle_seek mg_ok_handle_next
      mg_ok_handle_prev mg_ok_handle_stop mg_ok_handle_play mg_ok_handle_pause
      split: if_split_asm option.split_asm json.split_asm)

lemma mg_ok_ws_finish:
  "ws_finish ws m r = Inr (ws1, m1, eff) \<Longrightarrow> mg_ok m \<Longrightarrow> (\<And>s m2 e. r = Inr (s, m2, e) \<Longrightarrow> mg_ok m2) \<Longrightarrow> mg_ok m1"
  by (cases "(ws, m, r)" rule: ws_finish.cases) auto

lemma mg_ok_ws_message: "ws_message yt dv q msg parsed ws m = Inr (ws1, m1, eff) \<Longrightarrow> mg_ok m \<Longrightarrow> mg_ok m1"
  by (auto simp: ws_message_def elim!: bind_resultE split: if_split_asm option.split_asm json.split_asm
      dest!: mg_ok_ws_finish intro: mg_ok_handle_message)


section \<open>Markers, jobs and timers\<close>

lemma mg_ok_marker_load: "marker_load dv ev g p m = Inr (b, m1, eff) \<Longrightarrow> mg_ok m \<Longrightarrow> mg_ok m1"
  by (auto simp: marker_load_def elim!: bind_resultE split: if_split_asm option.split_asm prod.split_asm
      dest!: mg_ok_load_queue mg_ok_load_config)

lemma mg_ok_track_marker:
  assumes "handle_on_track_marker dv ev vc g meta m = Inr (ok, m', eff)" and "mg_ok m"
  shows "mg_ok m'"
proof -
  consider "m' = m" | "m' = clear_manually_paused g m"
    | v p0 jl m2 e1 p p1 e2 where "marker_load dv ev g p0 (clear_manually_paused g m) = Inr (jl, m2, e1)"
        "get_player g m2 = Some p" "marker_player dv v g meta jl p = Inr (ok, p1, e2)" "m' = put_player g p1 m2"
    using assms(1) unfolding handle_on_track_marker_def Let_def
    by (auto elim!: bind_resultE split: if_split_asm option.split_asm prod.split_asm)
  then show ?thesis
  proof cases
    case 3
    then have "mg_ok m2" using mg_ok_marker_load mg_ok_paused(2) [OF assms(2)] by blast
    then show ?thesis using 3 mg_ok_put_keeps marker_player_keeps mg_ok_player by blast
  qed (use assms(2) mg_ok_paused in simp_all)
qed

lemma push_history_keeps: "player_keeps p (push_history i p)"
  by (rule player_keepsI) (auto simp: push_history_def Let_def)

lemma worker_missing_keeps:
  assumes "worker_missing yt dv ev vc g b p w = Some (w', eff)"
  shows "\<exists>p'. w_mgr w' = put_player g p' (w_mgr w) \<and> player_keeps p p'"
proof -
  have s: "skip_queue 1 True True False p = Some (rs, p1) \<Longrightarrow> player_keeps p p1 \<and> player_keeps p (p1\<lparr>gp_stopped := True\<rparr>)"
    for rs p1
    using skip_queue_keeps [of 1 True True False p rs p1] by (auto simp: player_keeps_def player_ok_def)
  show ?thesis
    using assms unfolding worker_missing_def Let_def
    by (auto split: option.split_asm if_split_asm prod.split_asm dest!: s intro: exI [of _ p])
qed

lemma worker_has_file_keeps: "w_mgr (fst (worker_has_file dv ev vc g meta b i p w)) = put_player g p (w_mgr w)"
  by (simp add: worker_has_file_def Let_def)

lemma mg_ok_marker_worker:
  assumes "track_marker_worker yt dv ev vc g meta w = Some (w', eff)" and "mg_ok (w_mgr w)"
  shows "mg_ok (w_mgr w')"
proof (cases "\<not> dv_cluster dv \<or> vc_terminating vc \<or> get_player g (w_mgr w) = None")
  case True
  then show ?thesis using assms by (auto simp: track_marker_worker_def split: if_split_asm)
next
  case False
  then obtain p0 where p0: "get_player g (w_mgr w) = Some p0" by blast
  let ?p = "push_history (get_id yt (gp_current_track p0)) p0"
  have "\<exists>p'. w_mgr w' = put_player g p' (w_mgr w) \<and> player_keeps ?p p'"
    using assms(1) worker_missing_keeps worker_has_file_keeps False p0
    by (auto simp: track_marker_worker_def Let_def split: if_split_asm)
      (metis fst_conv player_keeps_refl)
  then show ?thesis
    using mg_ok_put_keeps [OF assms(2) p0] push_history_keeps player_keeps_trans by metis
qed

lemma mg_ok_redownload: "redownload_job dv ev vc g t m = Some (m', eff) \<Longrightarrow> mg_ok m \<Longrightarrow> mg_ok m'"
  by (auto simp: redownload_job_def split: option.split_asm prod.split_asm if_split_asm
      intro: mg_ok_put_keeps add_track_keeps)

lemma init_for_stream_keeps: "init_for_stream p = (s, p') \<Longrightarrow> player_keeps p p'"
  by (auto simp: init_for_stream_def setup_encoder_def reset_first_track_current_byte_def
      intro!: player_keepsI split: list.split_asm)

lemma mg_ok_play_job: "play_job dv sub g m = (m', eff) \<Longrightarrow> mg_ok m \<Longrightarrow> mg_ok m'"
  by (auto simp: play_job_def split: if_split_asm option.split_asm prod.split_asm
      dest!: init_for_stream_keeps intro: mg_ok_put_keeps)

lemma done_streaming_keeps: "player_keeps p (fst (done_streaming p))"
  by (rule player_keepsI) (simp_all add: done_streaming_def destroy_encoder_def)

lemma mg_ok_vc_ready_timeout: "vc_ready_timeout_job dv g m = (m', eff) \<Longrightarrow> mg_ok m \<Longrightarrow> mg_ok m'"
proof -
  have c: "clear_wait_vc_ready g m = (s, m1) \<Longrightarrow> mg_ok m \<Longrightarrow> mg_ok m1" for s m1
    using mg_ok_tables(6) [of g m] by simp
  show "vc_ready_timeout_job dv g m = (m', eff) \<Longrightarrow> mg_ok m \<Longrightarrow> mg_ok m'"
    by (auto simp: vc_ready_timeout_job_def split: if_split_asm option.split_asm prod.split_asm dest!: c)
qed

lemma subseq_distinct: "subseq xs ys \<Longrightarrow> distinct ys \<Longrightarrow> distinct xs"
  by (induction rule: list_emb.induct) (auto dest: list_emb_set)

lemma subseq_distinct_map: "subseq xs ys \<Longrightarrow> distinct (map f ys) \<Longrightarrow> distinct (map f xs)"
  using subseq_distinct subseq_map by blast

lemma resume_loop_subseq: "resume_loop dv ex now ts m = Some (kept, m1, eff) \<Longrightarrow> subseq kept ts"
  by (induction ts arbitrary: kept m m1 eff)
    (auto simp: mgr_unpause_def split: if_split_asm option.split_asm)

lemma resume_loop_state:
  "resume_loop dv ex now ts m = Some (kept, m1, eff) \<Longrightarrow> mg_ok m \<Longrightarrow> mg_ok m1"
  by (induction ts arbitrary: kept m eff)
    (auto simp: mgr_unpause_def split: if_split_asm option.split_asm intro: mg_ok_paused)

lemma mg_ok_resume_timers: 
  assumes "check_resume_timers dv run now m = Some (m', eff)" and "mg_ok m"
  shows "mg_ok m'"
proof -
  obtain kept m1 where r: "resume_loop dv (\<not> run) now (mg_resume_timers m) m = Some (kept, m1, eff)"
    and m': "m' = m1\<lparr>mg_resume_timers := kept\<rparr>"
    using assms(1) by (auto simp: check_resume_timers_def)
  have "distinct (map rt_key kept)"
    using subseq_distinct_map [OF resume_loop_subseq [OF r], of rt_key] assms(2) by (simp add: mg_ok_def)
  then show ?thesis using resume_loop_state [OF r assms(2)] by (simp add: m' mg_ok_def)
qed

section \<open>Voice events and messages\<close>

lemma mg_ok_check_autopause: "check_autopause dv now g c m = Some (m', eff) \<Longrightarrow> mg_ok m \<Longrightarrow> mg_ok m'"
  by (auto simp: check_autopause_def Let_def split: option.split_asm if_split_asm intro: mg_ok_resume_timer)

lemma mg_ok_voice_ready: "handle_on_voice_ready dv ev vc g m = Some (m', eff) \<Longrightarrow> mg_ok m \<Longrightarrow> mg_ok m'"
  by (auto simp: handle_on_voice_ready_def Let_def split: if_split_asm dest!: mg_ok_check_autopause)

lemma mg_ok_voice_field:
  "mg_ok m \<Longrightarrow> get_player g m = Some p \<Longrightarrow> mg_ok (put_player g (p\<lparr>gp_voice_channel_id := c\<rparr>) m)"
  "mg_ok m \<Longrightarrow> get_player g m = Some p
    \<Longrightarrow> mg_ok (put_player g (p\<lparr>gp_voice_channel_id := c, gp_dashboard_control_requests := l\<rparr>) m)"
  by (auto intro!: mg_ok_put_keeps player_keepsI)

lemma mg_ok_sha_left: "mg_ok m \<Longrightarrow> mg_ok (fst (sha_left_vc dv e m))"
  by (auto simp: sha_left_vc_def Let_def split: option.split intro: mg_ok_voice_field)

lemma mg_ok_stop_stream: "stop_stream dv g m = Some (s, m') \<Longrightarrow> mg_ok m \<Longrightarrow> mg_ok m'"
  by (auto simp: stop_stream_def split: option.split_asm intro!: mg_ok_put_keeps stop_keeps)

lemma mg_ok_sha_move: "sha_move dv e v c ms m = Some (m', eff) \<Longrightarrow> mg_ok m \<Longrightarrow> mg_ok m'"
proof -
  have w: "mg_ok m3" if "set_waiting_vc_ready dv g s (set_connecting g c' m2) = (m3, e')" "mg_ok m2" for g s c' m2 m3 e'
    using mg_ok_tables(5) [of dv g s "set_connecting g c' m2"] that by simp
  show "sha_move dv e v c ms m = Some (m', eff) \<Longrightarrow> mg_ok m \<Longrightarrow> mg_ok m'"
    by (auto simp: sha_move_def Let_def split: option.split_asm prod.split_asm if_split_asm
        dest!: mg_ok_stop_stream intro: w)
qed

lemma mg_ok_sha_update:
  assumes "handle_sha_voice_state_update dv ev e m = Some (m', eff)" and "mg_ok m"
  shows "mg_ok m'"
proof (cases "ve_channel_id e = 0")
  case True
  then show ?thesis using assms mg_ok_sha_left [of m dv e]
    by (simp add: handle_sha_voice_state_update_def)
next
  case False
  define m1 where "m1 = (case get_player (ve_guild_id e) m of None \<Rightarrow> m
    | Some p \<Rightarrow> put_player (ve_guild_id e) (p\<lparr>gp_voice_channel_id := ve_channel_id e\<rparr>) m)"
  define m2 where "m2 = snd (clear_connecting (ve_guild_id e) m1)"
  have "mg_ok m1" using assms(2) by (auto simp: m1_def split: option.split intro: mg_ok_voice_field)
  then have m2: "mg_ok m2" by (simp add: m2_def)
  show ?thesis
    using assms(1) False m2 unfolding handle_sha_voice_state_update_def m1_def [symmetric] Let_def m2_def [symmetric]
    by (auto split: if_split_asm option.split_asm dest!: mg_ok_check_autopause mg_ok_sha_move)
qed

lemma mg_ok_voice_update: "handle_on_voice_state_update dv ev e m = Some (m', eff) \<Longrightarrow> mg_ok m \<Longrightarrow> mg_ok m'"
  by (auto simp: handle_on_voice_state_update_def handle_non_sha_voice_state_update_def Let_def
      split: if_split_asm option.split_asm
      dest!: mg_ok_sha_update mg_ok_full_reconnect intro: mg_ok_resume_timer)

lemma mg_ok_message_deleted: "set_info_message_as_deleted f g i m = Inr (b, m') \<Longrightarrow> mg_ok m \<Longrightarrow> mg_ok m'"
  by (auto simp: set_info_message_as_deleted_def elim!: bind_resultE split: if_split_asm option.split_asm
      intro!: mg_ok_put_keeps player_keepsI)

lemma mg_ok_message_delete:
  "handle_on_message_delete f g i m = Inr m' \<Longrightarrow> mg_ok m \<Longrightarrow> mg_ok m'"
  "handle_on_message_delete_bulk f g is m = Inr m' \<Longrightarrow> mg_ok m \<Longrightarrow> mg_ok m'"
  subgoal by (auto simp: handle_on_message_delete_def elim!: bind_resultE dest!: mg_ok_message_deleted)
  subgoal by (induction "is" arbitrary: m) (auto elim!: bind_resultE dest!: mg_ok_message_deleted)
  done


section \<open>Adding tracks\<close>

lemma mg_ok_play_enter:
  "play_enter dv ca shard u g m = Inr (Inr (place, m1, eff)) \<Longrightarrow> mg_ok m \<Longrightarrow> mg_ok m1"
  by (auto simp: play_enter_def Let_def of_option_iff elim!: bind_resultE
      split: if_split_asm option.split_asm prod.split_asm dest!: mg_ok_full_reconnect)

lemma mg_ok_play_resume:
  assumes "play_resume dv nq upd g place m = Inr (rc, m1, eff)" and "mg_ok m"
  shows "mg_ok m1"
proof -
  have put: "get_player g m2 = Some p \<Longrightarrow> mg_ok m2 \<Longrightarrow> mg_ok (put_player g (p\<lparr>gp_tried_continuing := True\<rparr>) m2)" for m2 p
    by (auto intro!: mg_ok_put_keeps player_keepsI)
  show ?thesis
    using assms unfolding play_resume_def Let_def
    by (auto elim!: bind_resultE split: if_split_asm option.split_asm prod.split_asm
        dest!: mg_ok_ws_check_health dest: mg_ok_mgr_unpause intro!: put)
qed

lemma mg_ok_play_run:
  assumes "play_run dv ca shard u tc g q tp slip btn upd m = Inr (so, m1, eff, job)" and "mg_ok m"
  shows "mg_ok m1"
proof -
  have put: "get_player g m2 = Some p \<Longrightarrow> mg_ok m2 \<Longrightarrow> mg_ok (put_player g (p\<lparr>gp_tried_continuing := True\<rparr>) m2)" for m2 p
    by (auto intro!: mg_ok_put_keeps player_keepsI)
  show ?thesis
    using assms unfolding play_run_def Let_def
    by (auto simp: of_option_iff elim!: bind_resultE with_playerE
        split: sum.split_asm if_split_asm option.split_asm
        dest!: mg_ok_full_reconnect mg_ok_play_resume mg_ok_play_enter intro!: put)
qed

lemma mg_ok_play_command:
  "play_slash_run dv ca shard u tc g q tp slip m = Inr (m1, eff, job) \<Longrightarrow> mg_ok m \<Longrightarrow> mg_ok m1"
  "play_button_run dv ca shard u tc g m = Inr (m1, eff, job) \<Longrightarrow> mg_ok m \<Longrightarrow> mg_ok m1"
  by (auto simp: play_slash_run_def play_button_run_def elim!: bind_resultE dest: mg_ok_play_run)

lemma mg_ok_add_job:
  assumes "run_add_track_thread yt dv fetch on_disk j m d = (m1, d1, eff, dj)" and "mg_ok m"
  shows "mg_ok m1"
proof -
  obtain r st where f: "find_track yt fetch (get_player (aj_guild j) m) (aj_playlist j) (aj_query j) False = (r, st)"
    by (metis surj_pair)
  let ?w = "set_waiting_vc_ready dv (aj_guild j) (get_filename_from_result yt r) (set_connecting (aj_guild j) (aj_channel j) m)"
  have "m1 = m \<or> m1 = fst ?w"
    using assms(1) unfolding run_add_track_thread_def Let_def f prod.case
    by (simp split: if_split_asm prod.split_asm)
  then show ?thesis using assms(2) by (elim disjE) simp_all
qed

lemma set_channel_keeps: "player_keeps p (set_channel c p)"
  by (rule player_keepsI) (simp_all add: set_channel_def)

lemma mg_ok_download_job:
  assumes "run_download_thread dv ev j m = Some (m1, eff)" and "mg_ok m"
  shows "mg_ok m1"
proof -
  obtain r m0 where c: "create_player dv (dj_guild j) m = (r, m0)" by (metis surj_pair)
  note ok = mg_ok_create [OF assms(2) c]
  show ?thesis
  proof (cases r)
    case None
    then show ?thesis using assms(1) ok by (simp add: run_download_thread_def c)
  next
    case (Some p)
    define p1 where "p1 = (if dj_from_interaction j then set_channel (dj_text_channel j) p else p)"
    define t where "t = (dj_result j)\<lparr>tr_filename := dj_fname j, tr_user_id := dj_user j\<rparr>"
    obtain t1 p2 e2 where a: "add_track (ev_fetch ev t) (dj_top j) (dj_guild j) (dj_from_interaction j \<or> dj_dling j)
        (dj_slip j) t p1 = Some (t1, p2, e2)" and m1: "m1 = put_player (dj_guild j) p2 m0"
      using assms(1) unfolding run_download_thread_def Let_def c prod.case Some option.case p1_def [symmetric] t_def [symmetric]
      by (auto simp: bind_Some_iff)
    have "player_keeps p p1" by (simp add: p1_def set_channel_keeps)
    then have "player_keeps p p2" using add_track_keeps [OF a] player_keeps_trans by blast
    then show ?thesis unfolding m1 using mg_ok_put_keeps [OF ok create_player_get] c Some by blast
  qed
qed

lemma mg_ok_join_voice: "join_voice dv shard g u m = Inr (s, m1, eff) \<Longrightarrow> mg_ok m \<Longrightarrow> mg_ok m1"
  by (auto simp: join_voice_def of_option_iff elim!: bind_resultE split: if_split_asm option.split_asm
      dest!: mg_ok_full_reconnect)

lemma mg_ok_join: "join_slash_run dv shard g u tc m = Inr (m1, eff) \<Longrightarrow> mg_ok m \<Longrightarrow> mg_ok m1"
proof -
  assume j: "join_slash_run dv shard g u tc m = Inr (m1, eff)" and m: "mg_ok m"
  obtain r m0 where c: "create_player dv g m = (r, m0)" by (metis surj_pair)
  note ok = mg_ok_create [OF m c]
  show ?thesis
  proof (cases r)
    case None
    then show ?thesis using j ok by (simp add: join_slash_run_def c reply_def)
  next
    case (Some p)
    have ok2: "mg_ok (put_player g (set_channel tc p) m0)"
      using mg_ok_put_keeps [OF ok create_player_get set_channel_keeps] c Some by blast
    show ?thesis
      using j ok ok2 unfolding join_slash_run_def Let_def c prod.case Some option.case
      by (auto elim!: bind_resultE with_playerE split: if_split_asm
          dest!: mg_ok_join_voice intro: mg_ok_put_keeps [OF _ _ set_channel_keeps])
  qed
qed

lemma mg_ok_leave: "leave_slash_run dv g u m = Inr (m1, eff) \<Longrightarrow> mg_ok m \<Longrightarrow> mg_ok m1"
  by (auto simp: leave_slash_run_def of_option_iff reply_def elim!: bind_resultE
      split: if_split_asm option.split_asm prod.split_asm)

lemma add_tracks_keeps: "add_tracks f tf g ts p = Some p' \<Longrightarrow> player_keeps p p'"
proof (induction ts arbitrary: p)
  case (Cons t ts)
  then obtain t1 p1 e where "add_track (f t) tf g False 0 t p = Some (t1, p1, e)" "add_tracks f tf g ts p1 = Some p'"
    by (auto simp: bind_Some_iff)
  then show ?case using Cons.IH add_track_keeps player_keeps_trans by blast
qed simp

lemma mg_ok_playlist_load:
  assumes "playlist_load dv ev shard g u pid tp view r m = Inr (m1, eff)" and "mg_ok m"
  shows "mg_ok m1"
proof -
  obtain rp m0 where c: "create_player dv g m = (rp, m0)" by (metis surj_pair)
  have put: "mg_ok (put_player g p1 m0)" if "rp = Some p" "add_tracks f tf g ts p = Some p1" for p p1 f tf ts
    using mg_ok_put_keeps [OF mg_ok_create [OF assms(2) c] create_player_get add_tracks_keeps] c that by blast
  have put0: "mg_ok (put_player g p m0)" if "rp = Some p" for p
    using mg_ok_put_keeps [OF mg_ok_create [OF assms(2) c] create_player_get] c that by simp
  show ?thesis
    using assms mg_ok_create [OF assms(2) c] unfolding playlist_load_def Let_def c
    by (auto simp: of_option_iff reply_def elim!: bind_resultE split: if_split_asm option.split_asm
        dest!: mg_ok_join_voice intro: put put0)
qed

lemma mg_ok_playlist: "playlist_slash_run dv ev shard g u c pid tp ok r m = Inr (m1, eff, db) \<Longrightarrow> mg_ok m \<Longrightarrow> mg_ok m1"
  by (auto simp: playlist_slash_run_def playlist_save_def playlist_delete_def Let_def of_option_iff reply_def
      elim!: bind_resultE split: if_split_asm option.split_asm dest!: mg_ok_get_queue mg_ok_playlist_load)


section \<open>The info message and its buttons\<close>

lemma mg_ok_playing_embed:
  assumes "get_playing_info_embed env dv g f m = Inr (r, m1)" and "mg_ok m"
  shows "mg_ok m1"
  using assms mg_ok_put_keeps [OF assms(2) _ reset_shifted_keeps]
  by (auto simp: get_playing_info_embed_def Let_def split: option.split_asm sum.split_asm if_split_asm)

lemma mg_ok_embed_werr: "get_embed_werr env dv ev g f x msg m = Inr (r, m1, snd1) \<Longrightarrow> mg_ok m \<Longrightarrow> mg_ok m1"
  by (auto simp: get_embed_werr_def get_playing_info_message_def elim!: bind_resultE split: sum.split_asm
      dest!: mg_ok_playing_embed)

lemma mg_ok_run_embed_op: "run_embed_op env dv x m = Inr (m1, snd1) \<Longrightarrow> mg_ok m \<Longrightarrow> mg_ok m1"
  by (auto simp: run_embed_op_def elim!: bind_resultE split: option.split_asm if_split_asm dest!: mg_ok_embed_werr)

lemma mg_ok_embed_queue: "check_embed_op_queue env dv q m = Inr (m1, snd1) \<Longrightarrow> mg_ok m \<Longrightarrow> mg_ok m1"
  by (induction q arbitrary: m m1 snd1) (auto elim!: bind_resultE dest: mg_ok_run_embed_op)

lemma set_info_message_keeps: "player_keeps p (set_info_message j p)"
  by (rule player_keepsI) (simp_all add: set_info_message_def)

lemma mg_ok_embed_cb: "mg_ok m \<Longrightarrow> mg_ok (send_info_embed_cb env r g m)"
  by (auto simp: send_info_embed_cb_def split: option.split intro: mg_ok_put_keeps set_info_message_keeps)

lemma mg_ok_send_embed:
  assumes "send_info_embed env dv g u f ev m q = (s, m1, q1, snd1)" and "mg_ok m"
  shows "mg_ok m1"
proof -
  have k: "message_to_update env j ev p = (mn, p1) \<Longrightarrow> player_keeps p p1" for j p mn p1
    using set_info_message_keeps by (auto simp: message_to_update_def split: option.split_asm if_split_asm)
  show ?thesis
    using assms unfolding send_info_embed_def Let_def
    by (auto split: if_split_asm option.split_asm prod.split_asm intro: mg_ok_put_keeps dest: k)
qed

lemma mg_ok_update_answer: "update_answer env dv g e m q eff = Inr (m1, r) \<Longrightarrow> mg_ok m \<Longrightarrow> mg_ok m1"
  by (auto simp: update_answer_def split: prod.split_asm dest: mg_ok_send_embed)

lemma mg_ok_s_playnow:
  assumes "s_playnow env dv shard g e m q = Inr (m1, r)" and "mg_ok m"
  shows "mg_ok m1"
proof -
  obtain pl m0 where c: "create_player dv g m = (pl, m0)" by (metis surj_pair)
  note ok = mg_ok_create [OF assms(2) c]
  have st: "stop_player dv v g p m0 = Some (m2, eff) \<Longrightarrow> pl = Some p \<Longrightarrow> mg_ok m2" for v p m2 eff
    using mg_ok_stop_player create_player_get c ok by blast
  show ?thesis
    using assms(1) ok unfolding s_playnow_def Let_def c
    by (auto simp: of_option_iff elim!: bind_resultE split: option.split_asm if_split_asm prod.split_asm
        dest!: mg_ok_update_answer st)
qed

lemma mg_ok_h_playnow: "h_playnow env dv rs shard g e m q = Inr (m1, r) \<Longrightarrow> mg_ok m \<Longrightarrow> mg_ok m1"
  by (auto simp: h_playnow_def of_option_iff elim!: bind_resultE split: option.split_asm if_split_asm prod.split_asm
      dest!: mg_ok_update_answer mg_ok_mgr_shuffle)

lemma mg_ok_ex_playnow: "ex_playnow env dv x g e m q = Inr (m1, r) \<Longrightarrow> mg_ok m \<Longrightarrow> mg_ok m1"
  by (auto simp: ex_playnow_def reply_info_embed_def elim!: bind_resultE dest: mg_ok_embed_werr)

lemma mg_ok_on_created: "(\<And>p. player_keeps p (f p)) \<Longrightarrow> mg_ok m \<Longrightarrow> mg_ok (on_created dv g f m)"
  by (auto simp: on_created_def split: prod.split option.split
      dest: mg_ok_create create_player_get intro!: mg_ok_put_keeps)

lemma mg_ok_notif_playnow:
  assumes "notif_playnow env dv on g e m q = Inr (m1, r)" and "mg_ok m"
  shows "mg_ok m1"
proof -
  have "mg_ok (on_created dv g (\<lambda>p. p\<lparr>gp_notification := on\<rparr>) m)"
    using assms(2) by (intro mg_ok_on_created player_keepsI) simp_all
  then show ?thesis using assms(1) mg_ok_update_answer by (auto simp: notif_playnow_def)
qed

lemma mg_ok_a_playnow:
  assumes "a_playnow env dv g e m q = Inr (m1, r)" and "mg_ok m"
  shows "mg_ok m1"
proof -
  obtain pl m0 where c: "create_player dv g m = (pl, m0)" by (metis surj_pair)
  note ok = mg_ok_create [OF assms(2) c]
  have p: "mg_ok (put_player g p1 m0)" if "pl = Some p" "set_auto_play b p = (p1, eff)" for b p p1 eff
    using that create_player_get c ok
    by (auto simp: set_auto_play_def intro!: mg_ok_put_keeps player_keepsI)
  show ?thesis
    using assms(1) ok unfolding a_playnow_def c
    by (auto split: option.split_asm prod.split_asm dest!: mg_ok_update_answer p)
qed


section \<open>Runs of the bot\<close>

text \<open>
  One step is one handler, run to its end under the lock of the player, with an arbitrary
  view of the library's caches and an arbitrary environment at each step. A handler that
  throws, or whose behaviour is undefined, makes no step. \<open>yt\<close> are the accessors of the
  track formats.
\<close>

inductive bot_step :: "yt_api \<Rightarrow> world \<Rightarrow> world \<Rightarrow> bool" for yt where
  queue_command: "queue_slash_run dv ev rs shard g q (w_mgr w) = Inr (m, eff) \<Longrightarrow> bot_step yt w (w\<lparr>w_mgr := m\<rparr>)"
| move_command: "move_slash_run yt g a b (w_mgr w) = Inr (m, eff) \<Longrightarrow> bot_step yt w (w\<lparr>w_mgr := m\<rparr>)"
| remove_command: "remove_slash_run yt g a b c (w_mgr w) = Inr (m, eff) \<Longrightarrow> bot_step yt w (w\<lparr>w_mgr := m\<rparr>)"
| skip_command: "skip_slash_run yt dv shard u g a r (w_mgr w) = Inr (m, eff) \<Longrightarrow> bot_step yt w (w\<lparr>w_mgr := m\<rparr>)"
| next_button: "button_run_next yt dv shard u g (w_mgr w) = Inr (m, eff) \<Longrightarrow> bot_step yt w (w\<lparr>w_mgr := m\<rparr>)"
| prev_button: "button_run_prev yt dv u g (w_mgr w) = Inr (m, eff) \<Longrightarrow> bot_step yt w (w\<lparr>w_mgr := m\<rparr>)"
| seek_command: "seek_run g arg (w_mgr w) = Inr (out, m, eff) \<Longrightarrow> bot_step yt w (w\<lparr>w_mgr := m\<rparr>)"
| seek_button: "seek_button_run yt get_to_ms g (w_mgr w) = Inr (s, m, eff) \<Longrightarrow> bot_step yt w (w\<lparr>w_mgr := m\<rparr>)"
| loop_command: "loop_slash_run yt dv ev g u a b (w_mgr w) = Inr (m, eff) \<Longrightarrow> bot_step yt w (w\<lparr>w_mgr := m\<rparr>)"
| loop_button: "handle_button_modal_dialog yt dv ev g u (w_mgr w) = Inr (m, eff) \<Longrightarrow> bot_step yt w (w\<lparr>w_mgr := m\<rparr>)"
| stop_command: "stop_slash_run dv shard g u (w_mgr w) = Inr (m, eff) \<Longrightarrow> bot_step yt w (w\<lparr>w_mgr := m\<rparr>)"
| pause_command: "pause_slash_run dv u g (w_mgr w) = Inr (m, eff) \<Longrightarrow> bot_step yt w (w\<lparr>w_mgr := m\<rparr>)"
| pause_button: "pause_button_run dv u g (w_mgr w) = Inr (m, eff) \<Longrightarrow> bot_step yt w (w\<lparr>w_mgr := m\<rparr>)"
| volume_command: "volume_slash_run g v (w_mgr w) = Inr (m, eff) \<Longrightarrow> bot_step yt w (w\<lparr>w_mgr := m\<rparr>)"
| autoplay_command: "autoplay_slash_run dv ev g a t (w_mgr w) = Inr (m, eff) \<Longrightarrow> bot_step yt w (w\<lparr>w_mgr := m\<rparr>)"
| play_command: "play_slash_run dv conn_after shard u tc g q tp slip (w_mgr w) = Inr (m, eff, job) \<Longrightarrow> bot_step yt w (w\<lparr>w_mgr := m\<rparr>)"
| play_button: "play_button_run dv conn_after shard u tc g (w_mgr w) = Inr (m, eff, job) \<Longrightarrow> bot_step yt w (w\<lparr>w_mgr := m\<rparr>)"
| add_task: "run_add_track_thread yt dv fetch on_disk aj (w_mgr w) (w_dl w) = (m, d, eff, dj)
    \<Longrightarrow> bot_step yt w (w\<lparr>w_mgr := m, w_dl := d\<rparr>)"
| download_task: "run_download_thread dv ev dj (w_mgr w) = Some (m, eff) \<Longrightarrow> bot_step yt w (w\<lparr>w_mgr := m\<rparr>)"
| join_command: "join_slash_run dv shard g u tc (w_mgr w) = Inr (m, eff) \<Longrightarrow> bot_step yt w (w\<lparr>w_mgr := m\<rparr>)"
| leave_command: "leave_slash_run dv g u (w_mgr w) = Inr (m, eff) \<Longrightarrow> bot_step yt w (w\<lparr>w_mgr := m\<rparr>)"
| playlist_command: "playlist_slash_run dv ev shard g u c pid tp db_ok r (w_mgr w) = Inr (m, eff, db)
    \<Longrightarrow> bot_step yt w (w\<lparr>w_mgr := m\<rparr>)"
| update_button: "u_playnow env dv g e (w_mgr w) q = Inr (m, r) \<Longrightarrow> bot_step yt w (w\<lparr>w_mgr := m\<rparr>)"
| stop_button: "s_playnow env dv shard g e (w_mgr w) q = Inr (m, r) \<Longrightarrow> bot_step yt w (w\<lparr>w_mgr := m\<rparr>)"
| shuffle_button: "h_playnow env dv rs shard g e (w_mgr w) q = Inr (m, r) \<Longrightarrow> bot_step yt w (w\<lparr>w_mgr := m\<rparr>)"
| expand_button: "ex_playnow env dv x g e (w_mgr w) q = Inr (m, r) \<Longrightarrow> bot_step yt w (w\<lparr>w_mgr := m\<rparr>)"
| notif_button: "notif_playnow env dv on g e (w_mgr w) q = Inr (m, r) \<Longrightarrow> bot_step yt w (w\<lparr>w_mgr := m\<rparr>)"
| autoplay_button: "a_playnow env dv g e (w_mgr w) q = Inr (m, r) \<Longrightarrow> bot_step yt w (w\<lparr>w_mgr := m\<rparr>)"
| embed_queue: "check_embed_op_queue env dv q (w_mgr w) = Inr (m, sends) \<Longrightarrow> bot_step yt w (w\<lparr>w_mgr := m\<rparr>)"
| embed_answer: "bot_step yt w (w\<lparr>w_mgr := send_info_embed_cb env r g (w_mgr w)\<rparr>)"
| dashboard: "ws_message yt dv payload msg parsed ws (w_mgr w) = Inr (ws1, m, eff) \<Longrightarrow> bot_step yt w (w\<lparr>w_mgr := m\<rparr>)"
| marker: "handle_on_track_marker dv ev vc g meta (w_mgr w) = Inr (ok, m, eff) \<Longrightarrow> bot_step yt w (w\<lparr>w_mgr := m\<rparr>)"
| marker_worker: "track_marker_worker yt dv ev client g meta w = Some (w1, eff) \<Longrightarrow> bot_step yt w w1"
| redownload: "redownload_job dv ev client g t (w_mgr w) = Some (m, eff) \<Longrightarrow> bot_step yt w (w\<lparr>w_mgr := m\<rparr>)"
| play: "play_job dv submit g (w_mgr w) = (m, eff) \<Longrightarrow> bot_step yt w (w\<lparr>w_mgr := m\<rparr>)"
| stream_ends: "get_player g (w_mgr w) = Some p
    \<Longrightarrow> bot_step yt w (w\<lparr>w_mgr := put_player g (fst (done_streaming p)) (w_mgr w)\<rparr>)"
| resume_timers: "check_resume_timers dv running now (w_mgr w) = Some (m, eff) \<Longrightarrow> bot_step yt w (w\<lparr>w_mgr := m\<rparr>)"
| vc_ready_timeout: "vc_ready_timeout_job dv g (w_mgr w) = (m, eff) \<Longrightarrow> bot_step yt w (w\<lparr>w_mgr := m\<rparr>)"
| voice_ready: "handle_on_voice_ready dv ev client g (w_mgr w) = Some (m, eff) \<Longrightarrow> bot_step yt w (w\<lparr>w_mgr := m\<rparr>)"
| voice_update: "handle_on_voice_state_update dv ev e (w_mgr w) = Some (m, eff) \<Longrightarrow> bot_step yt w (w\<lparr>w_mgr := m\<rparr>)"
| message_delete: "handle_on_message_delete_bulk idf g is (w_mgr w) = Inr m \<Longrightarrow> bot_step yt w (w\<lparr>w_mgr := m\<rparr>)"
| guild_delete: "bot_step yt w (w\<lparr>w_mgr := handle_guild_delete g (w_mgr w)\<rparr>)"
| failed_timers: "check_failed_playback_reset_timers running now (w_fprt w) (w_failed w) = (ts, failed)
    \<Longrightarrow> bot_step yt w (w\<lparr>w_fprt := ts, w_failed := failed\<rparr>)"
| download_starts: "bot_step yt w (w\<lparr>w_dl := check_download_queue n (w_dl w)\<rparr>)"

text \<open>The counts of failed playbacks stay between 1 and 3, and each file has one timer.\<close>

definition failed_ok :: "failed_counts \<Rightarrow> fprt_t list \<Rightarrow> bool" where
  "failed_ok failed ts \<longleftrightarrow> (\<forall>f c. failed f = Some c \<longrightarrow> 1 \<le> c \<and> c \<le> 3) \<and> distinct (map fp_filename ts)"

lemma failed_ok_set:
  "failed_ok failed ts \<Longrightarrow> c \<le> 3 \<Longrightarrow> failed_ok (snd (set_track_failed_playback_count f c failed)) ts"
  by (auto simp: failed_ok_def set_track_failed_playback_count_def)

lemma failed_ok_create: "failed_ok failed ts \<Longrightarrow> failed_ok failed (snd (create_failed_playback_reset_timer now f ts))"
  by (auto simp: failed_ok_def create_failed_playback_reset_timer_def fprt_register_def is_fprt_duplicate_iff)

lemma failed_ok_remove: "failed_ok failed ts \<Longrightarrow> failed_ok failed (snd (remove_failed_playback_reset_timer f ts))"
proof -
  have "subseq (erase_first q xs) xs" for q and xs :: "fprt_t list"
    by (induction xs) auto
  then show "failed_ok failed ts \<Longrightarrow> failed_ok failed (snd (remove_failed_playback_reset_timer f ts))"
    by (auto simp: failed_ok_def remove_failed_playback_reset_timer_def intro: subseq_distinct_map)
qed

lemma fprt_loop_ok:
  "fprt_loop ex now ts m = (ts1, m1) \<Longrightarrow> subseq ts1 ts \<and> (\<forall>f c. m1 f = Some c \<longrightarrow> m f = Some c)"
proof (induction ts arbitrary: ts1 m m1)
  case (Cons i ts)
  have "snd (set_track_failed_playback_count f 0 m) g = Some c \<Longrightarrow> m g = Some c" for f g c and m :: failed_counts
    by (auto simp: set_track_failed_playback_count_def split: if_splits)
  then show ?case using Cons.prems Cons.IH
    by (auto split: if_split_asm prod.split_asm) (blast | fastforce)+
qed simp

lemma failed_ok_worker:
  assumes "track_marker_worker yt dv ev vc g meta w = Some (w', eff)" and "failed_ok (w_failed w) (w_fprt w)"
  shows "failed_ok (w_failed w') (w_fprt w')"
proof -
  note fo = failed_ok_create failed_ok_remove failed_ok_set
  have miss: "worker_missing yt dv ev vc g b p w = Some (w', eff) \<Longrightarrow> failed_ok (w_failed w') (w_fprt w')" for b p
    using assms(2) by (auto simp: worker_missing_def Let_def fo split: if_split_asm option.split_asm prod.split_asm)
  have "worker_has_file dv ev vc g meta b i p w = (w', eff) \<Longrightarrow> failed_ok (w_failed w') (w_fprt w')" for b i p
    using assms(2) by (auto simp: worker_has_file_def Let_def fo)
  then show ?thesis using assms miss
    by (auto simp: track_marker_worker_def Let_def split: if_split_asm option.split_asm)
qed

definition world_ok :: "world \<Rightarrow> bool" where
  "world_ok w \<longleftrightarrow> mg_ok (w_mgr w) \<and> failed_ok (w_failed w) (w_fprt w)"

lemmas mg_ok_handlers = mg_ok_queue_slash mg_ok_move mg_ok_remove mg_ok_skip mg_ok_prev mg_ok_seek_run
  mg_ok_seek_button mg_ok_loop mg_ok_stop mg_ok_pause mg_ok_volume mg_ok_autoplay mg_ok_ws_message
  mg_ok_track_marker mg_ok_redownload mg_ok_play_job mg_ok_resume_timers mg_ok_vc_ready_timeout
  mg_ok_voice_ready mg_ok_voice_update mg_ok_message_delete mg_ok_delete mg_ok_play_command mg_ok_add_job
  mg_ok_download_job mg_ok_join mg_ok_leave mg_ok_playlist mg_ok_s_playnow mg_ok_h_playnow mg_ok_ex_playnow
  mg_ok_notif_playnow mg_ok_a_playnow mg_ok_embed_queue mg_ok_embed_cb

lemma bot_step_ok: "bot_step yt w w' \<Longrightarrow> world_ok w \<Longrightarrow> world_ok w'"
proof (induction rule: bot_step.induct)
  case (stream_ends g w p)
  then show ?case using mg_ok_put_keeps [OF _ _ done_streaming_keeps] by (simp add: world_ok_def)
next
  case (marker_worker dv ev client g meta w w1 eff)
  then show ?case using mg_ok_marker_worker failed_ok_worker by (simp add: world_ok_def)
next
  case (failed_timers running now w ts failed)
  then have "subseq ts (w_fprt w)" "\<forall>f c. failed f = Some c \<longrightarrow> w_failed w f = Some c"
    using fprt_loop_ok by (auto simp: check_failed_playback_reset_timers_def)
  then show ?case using failed_timers.prems
    by (auto simp: world_ok_def failed_ok_def intro: subseq_distinct_map)
qed (auto simp: world_ok_def u_playnow_def intro: mg_ok_handlers mg_ok_update_answer)

definition world_start :: world where
  "world_start = \<lparr>w_mgr = manager_init, w_failed = Map.empty, w_fprt = [], w_dl = \<lparr>dl_waiting = Map.empty,
    dl_queue = [], dl_running = 0, dl_tasks = []\<rparr>\<rparr>"

inductive reachable :: "yt_api \<Rightarrow> world \<Rightarrow> bool" for yt where
  start: "reachable yt world_start"
| step: "reachable yt w \<Longrightarrow> bot_step yt w w' \<Longrightarrow> reachable yt w'"

lemma world_ok_start: "world_ok world_start"
  by (simp add: world_ok_def failed_ok_def world_start_def mg_ok_init)

lemma reachable_ok: "reachable yt w \<Longrightarrow> world_ok w"
  by (induction rule: reachable.induct) (blast intro: world_ok_start bot_step_ok)+

text \<open>C5: Whatever commands, buttons, dashboard messages, markers, jobs, timers and voice
  events a running bot handles, in any order: the place in the queue from which the playing
  track is taken back to the front lies inside the queue for every player, so that asking for
  a queue is never undefined; every player stays filed under its own guild; no guild is in the
  list of paused guilds twice; no two resume timers wait for the same guild and channels; no
  file has two timers for its failed playbacks, and no failure count leaves 0 to 3.\<close>

theorem bot_invariant:
  assumes "reachable yt w"
  shows "(\<exists>q m. get_queue g (w_mgr w) = Some (q, m) \<and> (\<forall>p. get_player g (w_mgr w) = Some p
      \<longrightarrow> q = play_order p \<and> (gp_shifted_track p \<noteq> 0 \<longrightarrow> gp_shifted_track p < length (gp_queue p))
        \<and> gp_guild_id p = g))
    \<and> distinct (mg_manually_paused (w_mgr w)) \<and> distinct (map rt_key (mg_resume_timers (w_mgr w)))
    \<and> distinct (map fp_filename (w_fprt w)) \<and> (f \<noteq> [] \<longrightarrow> get_track_failed_playback_count f (w_failed w) \<in> {0..3})"
proof -
  have ok: "mg_ok (w_mgr w)" and f: "failed_ok (w_failed w) (w_fprt w)"
    using reachable_ok [OF assms] by (simp_all add: world_ok_def)
  have "\<exists>q m. get_queue g (w_mgr w) = Some (q, m) \<and> (\<forall>p. get_player g (w_mgr w) = Some p
      \<longrightarrow> q = play_order p \<and> (gp_shifted_track p \<noteq> 0 \<longrightarrow> gp_shifted_track p < length (gp_queue p)) \<and> gp_guild_id p = g)"
  proof (cases "get_player g (w_mgr w)")
    case None
    then show ?thesis by (simp add: get_queue_def get_player_def)
  next
    case (Some p)
    then have "player_ok p" "gp_guild_id p = g" using mg_ok_player [OF ok] by auto
    then show ?thesis using Some reset_shifted_ok [of p]
      by (auto simp add: get_queue_def get_player_def player_ok_def)
  qed
  moreover have "f \<noteq> [] \<Longrightarrow> get_track_failed_playback_count f (w_failed w) \<in> {0..3}"
    using f by (fastforce simp: failed_ok_def get_track_failed_playback_count_def split: option.split)
  ultimately show ?thesis using ok f by (simp add: mg_ok_def failed_ok_def)
qed


definition saved_env :: event_env where
  "saved_env = marker_env\<lparr>ev_db_ok := True, ev_saved_queue := ([named ''1'', named ''2''], 0),
    ev_fetch := (\<lambda>t. Some (JInt 0))\<rparr>"

lemma add_track_appends:
  "tr_info_raw t = JNull \<Longrightarrow> add_track (Some r) False 0 True 0 t p
    = Some (t\<lparr>tr_info_raw := r\<rparr>, p\<lparr>gp_queue := gp_queue p @ [t\<lparr>tr_info_raw := r\<rparr>]\<rparr>, [])"
  by (simp add: add_track_def queue_add_def)

theorem bot_invariant_witness:
  "\<exists>w p q m. reachable sample_yt w \<and> get_player 1 (w_mgr w) = Some p \<and> names (gp_queue p) = [''1'', ''2'']
    \<and> get_queue 1 (w_mgr w) = Some (q, m) \<and> q = play_order p"
proof -
  let ?t = "\<lambda>f. (named f)\<lparr>tr_user_id := 9, tr_info_raw := JInt 0\<rparr>"
  let ?p = "(guild_player_new 1 2)\<lparr>gp_saved_queue_loaded := True, gp_queue := [?t ''1'', ?t ''2'']\<rparr>"
  have n: "tr_info_raw (named f) = JNull" for f by (simp add: named_def MCTrack_default_def track_init_def)
  have g: "gp_queue (guild_player_new 1 2) = []" "gp_shifted_track (guild_player_new 1 2) = 0"
    "\<not> gp_saved_queue_loaded (guild_player_new 1 2)" by (simp_all add: guild_player_new_def player_init_def)
  have "create_player sample_view 1 manager_init = (Some (guild_player_new 1 2), put_player 1 (guild_player_new 1 2) manager_init)"
    by (simp add: create_player_def sample_defs manager_init_def Let_def)
  then have l: "load_guild_current_queue sample_view (ev_fetch saved_env) (ev_db_ok saved_env) (ev_saved_queue saved_env) 1 (Some 9) manager_init
      = Some (0, put_player 1 ?p (put_player 1 (guild_player_new 1 2) manager_init), [E_publish_queue 1])"
    by (simp add: load_guild_current_queue_def saved_env_def g n add_track_appends)
  obtain m eff where c: "queue_slash_run sample_view saved_env [] 2 1 None manager_init = Inr (m, eff)"
    and p: "get_player 1 m = Some ?p"
    using l by (simp add: queue_slash_run_def sample_view_def get_queue_def put_player_def get_player_def
        reset_shifted_def g)
  have "queue_slash_run sample_view saved_env [] 2 1 None (w_mgr world_start) = Inr (m, eff)"
    using c by (simp add: world_start_def)
  then have r: "reachable sample_yt (world_start\<lparr>w_mgr := m\<rparr>)"
    by (rule reachable.step [OF reachable.start bot_step.queue_command])
  show ?thesis using bot_invariant [OF r, of 1] r p by auto
qed

end
