(* ===== verification/Decoder.thy ===== *)
theory Decoder
  imports CppStd
begin

text \<open>
  \<open>src/musicat/decoder.cpp\<close>: a decoder opens a music file, decodes it packet by packet
  through a filter graph, and hands out frames of \<open>FRAME_SIZE\<close> samples. The FFmpeg
  libraries are the parameter \<open>av\<close>, a record of the calls that the file makes, over a
  state \<open>'s\<close> of their own in which the open file, the packet, the decoded frame and the
  filter graph live. Statuses are the libraries' integers.
\<close>

section \<open>The libraries\<close>

definition AVERROR_EOF :: int where "AVERROR_EOF = - 541478725"
definition AVERROR_EAGAIN :: int where "AVERROR_EAGAIN = - 11"
definition AVERROR_ENOMEM :: int where "AVERROR_ENOMEM = - 12"

lemma averror_simps [simp]:
  "AVERROR_EOF < 0" "AVERROR_EAGAIN < 0" "AVERROR_ENOMEM < 0" "AVERROR_EOF \<noteq> AVERROR_EAGAIN"
  "AVERROR_EAGAIN \<noteq> AVERROR_EOF" "AVERROR_EOF \<noteq> 0" "AVERROR_EAGAIN \<noteq> 0" "0 \<noteq> AVERROR_EOF" "0 \<noteq> AVERROR_EAGAIN"
  "\<not> 0 \<le> AVERROR_EOF" "\<not> 0 \<le> AVERROR_EAGAIN"
  by (simp_all add: AVERROR_EOF_def AVERROR_EAGAIN_def AVERROR_ENOMEM_def)

definition FRAME_DURATION :: nat where "FRAME_DURATION = 60"
definition FRAME_SIZE :: nat where "FRAME_SIZE = FRAME_DURATION * 48"

lemma FRAME_SIZE_pos [simp]: "0 < FRAME_SIZE" "FRAME_SIZE \<noteq> 0"
  by (simp_all add: FRAME_SIZE_def FRAME_DURATION_def)

text \<open>A frame of signed 16 bit stereo samples.\<close>

type_synonym av_frame = "(16 word \<times> 16 word) list"

text \<open>What the sources of the filter graph are described by: time base, sample rate, names
  of the sample format and of the channel layout.\<close>

record source_params =
  sp_num :: int
  sp_den :: int
  sp_rate :: int
  sp_fmt :: string
  sp_layout :: string

record 's av_api =
  av_alloc :: "'s \<Rightarrow> bool \<times> 's"
  av_open_input :: "string \<Rightarrow> 's \<Rightarrow> int \<times> 's"
  av_find_stream_info :: "'s \<Rightarrow> int \<times> 's"
  av_find_best_stream :: "'s \<Rightarrow> int"
  av_alloc_context :: "'s \<Rightarrow> bool \<times> 's"
  av_codec_open :: "'s \<Rightarrow> int \<times> 's"
  av_read_packet :: "'s \<Rightarrow> int \<times> int \<times> 's"
  av_send_packet :: "'s \<Rightarrow> int \<times> 's"
  av_receive_frame :: "'s \<Rightarrow> int \<times> 's"
  av_add_frame :: "bool \<Rightarrow> 's \<Rightarrow> int \<times> 's"
  av_get_samples :: "nat \<Rightarrow> av_frame \<Rightarrow> 's \<Rightarrow> int \<times> av_frame \<times> 's"
  av_graph_alloc :: "'s \<Rightarrow> bool \<times> 's"
  av_source_params :: "'s \<Rightarrow> source_params"
  av_create_source :: "string \<Rightarrow> 's \<Rightarrow> int \<times> 's"
  av_alloc_sink :: "'s \<Rightarrow> bool \<times> 's"
  av_sink_opt :: "string \<Rightarrow> string \<Rightarrow> 's \<Rightarrow> int \<times> 's"
  av_init_sink :: "'s \<Rightarrow> int \<times> 's"
  av_parse_graph :: "string \<Rightarrow> 's \<Rightarrow> int \<times> 's"
  av_config_graph :: "'s \<Rightarrow> int \<times> 's"
  av_free_graph :: "'s \<Rightarrow> 's"
  av_unseekable :: "'s \<Rightarrow> bool"
  av_start_time :: "'s \<Rightarrow> int option"
  av_seek_file :: "int \<Rightarrow> 's \<Rightarrow> int \<times> 's"

text \<open>Calls one after the other, until one fails.\<close>

fun until_error :: "('s \<Rightarrow> int \<times> 's) list \<Rightarrow> int \<Rightarrow> 's \<Rightarrow> int \<times> 's" where
  "until_error [] ret s = (ret, s)"
| "until_error (f # fs) ret s = (case f s of (r, s1) \<Rightarrow> if r < 0 then (r, s1) else until_error fs r s1)"

section \<open>The decoder\<close>

record 's decoder_t =
  dec_filter_descr :: string
  dec_stream :: int
  dec_valid :: bool
  dec_got_eof :: bool
  dec_graph :: bool
  dec_out :: av_frame
  dec_lib :: 's

definition decoder_new :: "'s av_api \<Rightarrow> 's \<Rightarrow> 's decoder_t" where
  "decoder_new av s =
    (case av_alloc av s of
       (ok, s1) \<Rightarrow> \<lparr>dec_filter_descr = ''anull'', dec_stream = - 1, dec_valid = ok, dec_got_eof = False,
         dec_graph = False, dec_out = [], dec_lib = s1\<rparr>)"

definition is_valid :: "'s decoder_t \<Rightarrow> bool" where
  "is_valid d = dec_valid d"

definition open_input_file :: "'s av_api \<Rightarrow> string \<Rightarrow> 's decoder_t \<Rightarrow> int \<times> 's decoder_t" where
  "open_input_file av filename d =
    (case until_error [av_open_input av filename, av_find_stream_info av] 0 (dec_lib d) of
       (ret, s) \<Rightarrow>
         if ret < 0 then (ret, d\<lparr>dec_lib := s\<rparr>)
         else
           let i = av_find_best_stream av s
           in if i < 0 then (i, d\<lparr>dec_lib := s\<rparr>)
              else
                (case av_alloc_context av s of
                   (ok, s1) \<Rightarrow>
                     if \<not> ok then (AVERROR_ENOMEM, d\<lparr>dec_stream := i, dec_lib := s1\<rparr>)
                     else
                       (case av_codec_open av s1 of
                          (r, s2) \<Rightarrow> (if r < 0 then r else 0, d\<lparr>dec_stream := i, dec_lib := s2\<rparr>))))"

definition open_file :: "'s av_api \<Rightarrow> string \<Rightarrow> 's decoder_t \<Rightarrow> int \<times> 's decoder_t" where
  "open_file av fname d = open_input_file av fname d"

text \<open>\<open>snprintf\<close> into 512 bytes, which the format names of the library do not fill.\<close>

definition source_args :: "source_params \<Rightarrow> string" where
  "source_args p = ''time_base='' @ int_str (sp_num p) @ ''/'' @ int_str (sp_den p)
    @ '':sample_rate='' @ int_str (sp_rate p) @ '':sample_fmt='' @ sp_fmt p @ '':channel_layout='' @ sp_layout p"

definition build_graph :: "'s av_api \<Rightarrow> string \<Rightarrow> 's \<Rightarrow> int \<times> 's" where
  "build_graph av filters_descr s =
    (case av_graph_alloc av s of
       (ok, s1) \<Rightarrow>
         if \<not> ok then (AVERROR_ENOMEM, s1)
         else until_error
           [av_create_source av (source_args (av_source_params av s1)),
            (\<lambda>s. case av_alloc_sink av s of (b, s') \<Rightarrow> (if b then 0 else AVERROR_ENOMEM, s')),
            av_sink_opt av ''sample_formats'' ''s16'',
            av_sink_opt av ''channel_layouts'' ''stereo'',
            av_init_sink av,
            av_parse_graph av filters_descr,
            av_config_graph av] 0 s1)"

definition reset_filters :: "'s av_api \<Rightarrow> 's decoder_t \<Rightarrow> 's decoder_t" where
  "reset_filters av d =
    d\<lparr>dec_lib := (if dec_graph d then av_free_graph av (dec_lib d) else dec_lib d), dec_graph := False\<rparr>"

text \<open>The build is configured with the exciter by default.\<close>

definition init_filters :: "'s av_api \<Rightarrow> 's decoder_t \<Rightarrow> int \<times> 's decoder_t" where
  "init_filters av d =
    (let d1 = reset_filters av d
     in case build_graph av (''aexciter,'' @ dec_filter_descr d1) (dec_lib d1) of
          (ret, s) \<Rightarrow> (ret, d1\<lparr>dec_lib := s, dec_graph := True\<rparr>))"

definition set_filter_descr :: "string \<Rightarrow> 's decoder_t \<Rightarrow> 's decoder_t" where
  "set_filter_descr filters d = d\<lparr>dec_filter_descr := filters\<rparr>"

section \<open>Decoding\<close>

definition read_frame :: "'s av_api \<Rightarrow> 's decoder_t \<Rightarrow> int \<times> 's decoder_t" where
  "read_frame av d =
    (if dec_got_eof d then (0, d)
     else case av_read_packet av (dec_lib d) of
       (ret, i, s) \<Rightarrow>
         if ret < 0 then (ret, d\<lparr>dec_lib := s\<rparr>)
         else if i = dec_stream d then (case av_send_packet av s of (r, s1) \<Rightarrow> (r, d\<lparr>dec_lib := s1\<rparr>))
         else (ret, d\<lparr>dec_lib := s\<rparr>))"

text \<open>The two loops may not end: then the result is \<open>None\<close>.\<close>

partial_function (option) receive_loop :: "'s av_api \<Rightarrow> 's decoder_t \<Rightarrow> (int \<times> 's decoder_t) option" where
  "receive_loop av d =
    (case av_receive_frame av (dec_lib d) of
       (ret, s) \<Rightarrow>
         let d1 = d\<lparr>dec_lib := s\<rparr>
         in if ret = AVERROR_EOF then Some (ret, d1)
            else if ret \<noteq> AVERROR_EAGAIN \<and> ret \<ge> 0 then
              (case av_add_frame av True s of (r, s1) \<Rightarrow> Some (r, d1\<lparr>dec_lib := s1\<rparr>))
            else
              (case (if ret = AVERROR_EAGAIN then read_frame av d1 else (ret, d1)) of
                 (r, d2) \<Rightarrow> if r = AVERROR_EOF then Some (r, d2) else if r < 0 then Some (r, d2)
                            else receive_loop av d2))"

definition receive_frame :: "'s av_api \<Rightarrow> 's decoder_t \<Rightarrow> (int \<times> 's decoder_t) option" where
  "receive_frame av d = (if dec_got_eof d then Some (0, d) else receive_loop av d)"

text \<open>The head of an iteration: the end of the file is signalled to the graph once.\<close>

definition signal_eof :: "'s av_api \<Rightarrow> int \<Rightarrow> 's decoder_t \<Rightarrow> int option \<times> 's decoder_t" where
  "signal_eof av ret d =
    (if ret = AVERROR_EOF \<and> \<not> dec_got_eof d then
       (case av_add_frame av False (dec_lib d) of
          (r, s) \<Rightarrow> (if r < 0 then Some r else None, d\<lparr>dec_got_eof := True, dec_lib := s\<rparr>))
     else (None, d))"

partial_function (option) process_loop :: "'s av_api \<Rightarrow> int \<Rightarrow> 's decoder_t \<Rightarrow> (int \<times> 's decoder_t) option" where
  "process_loop av ret d =
    (case signal_eof av ret d of
       (Some r, d1) \<Rightarrow> Some (r, d1)
     | (None, d1) \<Rightarrow>
         (case av_get_samples av FRAME_SIZE (dec_out d1) (dec_lib d1) of
            (r, out, s) \<Rightarrow>
              let d2 = d1\<lparr>dec_out := out, dec_lib := s\<rparr>
              in if r = AVERROR_EOF then (if out = [] then Some (r, d2) else process_loop av r d2)
                 else if r = AVERROR_EAGAIN then
                   Option.bind (receive_frame av d2) (\<lambda>(r1, d3).
                     if r1 \<noteq> AVERROR_EOF \<and> r1 < 0 then Some (r1, d3) else process_loop av r1 d3)
                 else Some (r, d2)))"

text \<open>The status and the frame in \<open>dec_out\<close>.\<close>

definition process_frame :: "'s av_api \<Rightarrow> 's decoder_t \<Rightarrow> (int \<times> 's decoder_t) option" where
  "process_frame av d =
    (if dec_got_eof d then Some (AVERROR_EOF, d) else process_loop av 0 (d\<lparr>dec_out := []\<rparr>))"

text \<open>\<open>None\<close> is an overflow of the 64 bit product.\<close>

definition decoder_seek :: "'s av_api \<Rightarrow> int \<Rightarrow> 's decoder_t \<Rightarrow> (int \<times> 's decoder_t) option" where
  "decoder_seek av timestamp d =
    (if av_unseekable av (dec_lib d) then Some (0, d)
     else
       let p = av_source_params av (dec_lib d);
           t1 = timestamp * sp_num p;
           t2 = t1 * sp_den p;
           t = (if t2 < 0 then - (- t2 div 1000) else t2 div 1000);
           st = (case av_start_time av (dec_lib d) of None \<Rightarrow> t | Some x \<Rightarrow> t + x)
       in if (\<forall>x \<in> set [t1, t2, st]. - (2 ^ 63) \<le> x \<and> x < 2 ^ 63)
          then (case av_seek_file av st (dec_lib d) of (ret, s) \<Rightarrow> Some (ret, d\<lparr>dec_lib := s\<rparr>))
          else None)"

text \<open>Decoding a whole file: what the caller does until the status is negative.\<close>

partial_function (option) decode_all ::
  "'s av_api \<Rightarrow> 's decoder_t \<Rightarrow> (av_frame list \<times> int \<times> 's decoder_t) option" where
  "decode_all av d =
    Option.bind (process_frame av d) (\<lambda>(r, d1).
      if r < 0 then Some ([], r, d1)
      else Option.bind (decode_all av d1) (\<lambda>(fs, e, d2). Some (dec_out d1 # fs, e, d2)))"

section \<open>Decoding ends\<close>

text \<open>
  What termination rests on, as the libraries document it. Every call that succeeds in
  reading a packet, in taking a frame from the decoder, or in taking samples from the graph
  uses up something of a finite file, and the other calls create nothing. A failed call leaves
  the frame as it was, and a graph that was told the end of its input does not ask for more.
\<close>

definition consumes :: "('s \<Rightarrow> nat) \<Rightarrow> int \<Rightarrow> 's \<Rightarrow> 's \<Rightarrow> bool" where
  "consumes sz r s s' \<longleftrightarrow> sz s' \<le> sz s \<and> (0 \<le> r \<longrightarrow> sz s' < sz s)"

definition av_progress :: "'s av_api \<Rightarrow> ('s \<Rightarrow> nat) \<Rightarrow> ('s \<Rightarrow> bool) \<Rightarrow> bool" where
  "av_progress av sz closed \<longleftrightarrow>
    (\<forall>s r i s'. av_read_packet av s = (r, i, s') \<longrightarrow> consumes sz r s s')
    \<and> (\<forall>s r s'. av_receive_frame av s = (r, s') \<longrightarrow> consumes sz r s s')
    \<and> (\<forall>s r s'. av_send_packet av s = (r, s') \<longrightarrow> sz s' \<le> sz s)
    \<and> (\<forall>s b r s'. av_add_frame av b s = (r, s') \<longrightarrow> sz s' \<le> sz s \<and> (\<not> b \<longrightarrow> 0 \<le> r \<longrightarrow> closed s'))
    \<and> (\<forall>f s r f' s'. av_get_samples av FRAME_SIZE f s = (r, f', s') \<longrightarrow>
        consumes sz r s s' \<and> (r < 0 \<longrightarrow> f' = f) \<and> (closed s \<longrightarrow> r \<noteq> AVERROR_EAGAIN))"

lemma av_progressD:
  assumes "av_progress av sz closed"
  shows "av_read_packet av s = (r, i, s') \<Longrightarrow> consumes sz r s s'"
    and "av_receive_frame av s = (r, s') \<Longrightarrow> consumes sz r s s'"
    and "av_send_packet av s = (r, s') \<Longrightarrow> sz s' \<le> sz s"
    and "av_add_frame av b s = (r, s') \<Longrightarrow> sz s' \<le> sz s"
    and "av_add_frame av False s = (r, s') \<Longrightarrow> 0 \<le> r \<Longrightarrow> closed s'"
    and "av_get_samples av FRAME_SIZE f s = (r, f', s') \<Longrightarrow> consumes sz r s s'"
    and "av_get_samples av FRAME_SIZE f s = (r, f', s') \<Longrightarrow> r < 0 \<Longrightarrow> f' = f"
    and "av_get_samples av FRAME_SIZE f s = (r, f', s') \<Longrightarrow> closed s \<Longrightarrow> r \<noteq> AVERROR_EAGAIN"
proof -
  note laws = assms [unfolded av_progress_def, THEN conjunct1] assms [unfolded av_progress_def, THEN conjunct2]
  note adds = laws(2) [THEN conjunct2, THEN conjunct2, THEN conjunct1]
  note gets = laws(2) [THEN conjunct2, THEN conjunct2, THEN conjunct2]
  show "av_read_packet av s = (r, i, s') \<Longrightarrow> consumes sz r s s'" using laws(1) by blast
  show "av_receive_frame av s = (r, s') \<Longrightarrow> consumes sz r s s'" using laws(2) [THEN conjunct1] by blast
  show "av_send_packet av s = (r, s') \<Longrightarrow> sz s' \<le> sz s"
    using laws(2) [THEN conjunct2, THEN conjunct1] by blast
  show "av_add_frame av b s = (r, s') \<Longrightarrow> sz s' \<le> sz s" using adds by blast
  show "av_add_frame av False s = (r, s') \<Longrightarrow> 0 \<le> r \<Longrightarrow> closed s'" using adds by blast
  show "av_get_samples av FRAME_SIZE f s = (r, f', s') \<Longrightarrow> consumes sz r s s'" using gets by blast
  show "av_get_samples av FRAME_SIZE f s = (r, f', s') \<Longrightarrow> r < 0 \<Longrightarrow> f' = f" using gets by blast
  show "av_get_samples av FRAME_SIZE f s = (r, f', s') \<Longrightarrow> closed s \<Longrightarrow> r \<noteq> AVERROR_EAGAIN" using gets by blast
qed

lemma read_frame_consumes:
  assumes "av_progress av sz closed" and "read_frame av d = (r, d')" and "\<not> dec_got_eof d"
  shows "consumes sz r (dec_lib d) (dec_lib d')" and "dec_got_eof d' = dec_got_eof d" and "dec_out d' = dec_out d"
proof -
  obtain r1 i s1 where r: "av_read_packet av (dec_lib d) = (r1, i, s1)" by (metis surj_pair)
  obtain r2 s2 where s: "av_send_packet av s1 = (r2, s2)" by (metis surj_pair)
  note c = av_progressD(1) [OF assms(1) r] av_progressD(3) [OF assms(1) s]
  show "consumes sz r (dec_lib d) (dec_lib d')" "dec_got_eof d' = dec_got_eof d" "dec_out d' = dec_out d"
    using assms(2,3) c by (auto simp: read_frame_def r s consumes_def split: if_splits)
qed

lemma receive_loop_ends:
  assumes "av_progress av sz closed" and "\<not> dec_got_eof d"
  shows "\<exists>r d'. receive_loop av d = Some (r, d') \<and> consumes sz r (dec_lib d) (dec_lib d')
    \<and> \<not> dec_got_eof d' \<and> dec_out d' = dec_out d"
  using assms(2)
proof (induction "sz (dec_lib d)" arbitrary: d rule: less_induct)
  case less
  obtain r s where r: "av_receive_frame av (dec_lib d) = (r, s)" by (metis surj_pair)
  note c = av_progressD(2) [OF assms(1) r]
  obtain r1 d1 where rf: "read_frame av (d\<lparr>dec_lib := s\<rparr>) = (r1, d1)" by (metis surj_pair)
  obtain r2 s2 where a: "av_add_frame av True s = (r2, s2)" by (metis surj_pair)
  consider "r = AVERROR_EOF" | "0 \<le> r" | "r = AVERROR_EAGAIN" "r1 < 0" | "r = AVERROR_EAGAIN" "0 \<le> r1"
    | "r < 0" "r \<noteq> AVERROR_EOF" "r \<noteq> AVERROR_EAGAIN"
    by linarith
  then show ?case
  proof cases
    case 4
    have rd: "consumes sz r1 s (dec_lib d1)" "\<not> dec_got_eof d1" "dec_out d1 = dec_out d"
      using read_frame_consumes [OF assms(1) rf] less.prems by simp_all
    have "sz (dec_lib d1) < sz (dec_lib d)" using rd(1) c 4 by (auto simp: consumes_def)
    then obtain r' d' where "receive_loop av d1 = Some (r', d')" "consumes sz r' (dec_lib d1) (dec_lib d')"
      "\<not> dec_got_eof d'" "dec_out d' = dec_out d1"
      using less.hyps rd(2) by blast
    then show ?thesis using 4 rd c
      by (subst receive_loop.simps) (auto simp: r rf Let_def consumes_def)
  next
    case 3
    then show ?thesis using read_frame_consumes [OF assms(1) rf] less.prems c
      by (subst receive_loop.simps) (auto simp: r rf Let_def consumes_def)
  qed (use c less.prems av_progressD(4) [OF assms(1) a] in
      \<open>subst receive_loop.simps, auto simp: r a Let_def consumes_def\<close>)+
qed

text \<open>The iteration behind the end of the file, and the iterations before it.\<close>

lemma process_loop_at_eof:
  assumes "av_progress av sz closed" and "\<not> dec_got_eof d" and "dec_out d = []"
  shows "\<exists>r d'. process_loop av AVERROR_EOF d = Some (r, d') \<and> consumes sz r (dec_lib d) (dec_lib d')"
proof -
  obtain r s where a: "av_add_frame av False (dec_lib d) = (r, s)" by (metis surj_pair)
  obtain r1 f s1 where g: "av_get_samples av FRAME_SIZE [] s = (r1, f, s1)" by (metis surj_pair)
  note laws = av_progressD(4,5) [OF assms(1) a] av_progressD(6-8) [OF assms(1) g]
  show ?thesis
    using laws assms(2,3)
    by (subst process_loop.simps) (auto simp: signal_eof_def a g Let_def consumes_def)
qed

lemma process_loop_ends:
  assumes "av_progress av sz closed" and "ret \<noteq> AVERROR_EOF" and "\<not> dec_got_eof d" and "dec_out d = []"
  shows "\<exists>r d'. process_loop av ret d = Some (r, d') \<and> consumes sz r (dec_lib d) (dec_lib d')"
  using assms(2-4)
proof (induction "sz (dec_lib d)" arbitrary: d ret rule: less_induct)
  case less
  obtain r f s where g: "av_get_samples av FRAME_SIZE [] (dec_lib d) = (r, f, s)" by (metis surj_pair)
  note laws = av_progressD(6,7) [OF assms(1) g]
  obtain r1 d1 where rf: "receive_loop av (d\<lparr>dec_out := f, dec_lib := s\<rparr>) = Some (r1, d1)"
    "consumes sz r1 s (dec_lib d1)" "\<not> dec_got_eof d1" "dec_out d1 = f"
    using receive_loop_ends [OF assms(1), of "d\<lparr>dec_out := f, dec_lib := s\<rparr>"] less.prems by auto
  have step: "process_loop av ret d =
    (if r = AVERROR_EOF then (if f = [] then Some (r, d\<lparr>dec_out := f, dec_lib := s\<rparr>)
       else process_loop av r (d\<lparr>dec_out := f, dec_lib := s\<rparr>))
     else if r = AVERROR_EAGAIN then
       (if r1 \<noteq> AVERROR_EOF \<and> r1 < 0 then Some (r1, d1) else process_loop av r1 d1)
     else Some (r, d\<lparr>dec_out := f, dec_lib := s\<rparr>))"
    using less.prems rf(1) by (subst process_loop.simps) (simp add: signal_eof_def g Let_def receive_frame_def)
  consider "r = AVERROR_EOF" | "r = AVERROR_EAGAIN" "r1 = AVERROR_EOF" | "r = AVERROR_EAGAIN" "0 \<le> r1"
    | "r = AVERROR_EAGAIN" "r1 \<noteq> AVERROR_EOF" "r1 < 0" | "r \<noteq> AVERROR_EOF" "r \<noteq> AVERROR_EAGAIN"
    by linarith
  then show ?case
  proof cases
    case 2
    then have "dec_out d1 = []" using laws rf(4) by simp
    then show ?thesis using process_loop_at_eof [OF assms(1) rf(3)] 2 laws rf(2) by (auto simp: step consumes_def)
  next
    case 3
    then have "dec_out d1 = []" "sz (dec_lib d1) < sz (dec_lib d)" "r1 \<noteq> AVERROR_EOF"
      using laws rf(2,4) by (auto simp: consumes_def)
    then obtain r' d' where "process_loop av r1 d1 = Some (r', d')" "consumes sz r' (dec_lib d1) (dec_lib d')"
      using less.hyps rf(3) by blast
    then show ?thesis using 3 laws rf(2) by (auto simp: step consumes_def)
  qed (use laws rf(2) in \<open>auto simp: step consumes_def\<close>)
qed

lemma process_frame_ends:
  assumes "av_progress av sz closed"
  shows "\<exists>r d'. process_frame av d = Some (r, d') \<and> consumes sz r (dec_lib d) (dec_lib d')"
proof (cases "dec_got_eof d")
  case True
  then show ?thesis by (simp add: process_frame_def consumes_def)
next
  case False
  then show ?thesis using process_loop_ends [OF assms, of 0 "d\<lparr>dec_out := []\<rparr>"]
    by (simp add: process_frame_def)
qed

lemma decode_all_ends:
  assumes "av_progress av sz closed"
  shows "\<exists>fs r d'. decode_all av d = Some (fs, r, d') \<and> r < 0 \<and> length fs \<le> sz (dec_lib d)"
proof (induction "sz (dec_lib d)" arbitrary: d rule: less_induct)
  case less
  obtain r d1 where p: "process_frame av d = Some (r, d1)" "consumes sz r (dec_lib d) (dec_lib d1)"
    using process_frame_ends [OF assms] by blast
  show ?case
  proof (cases "r < 0")
    case True
    then show ?thesis using p by (subst decode_all.simps) simp
  next
    case False
    then have "sz (dec_lib d1) < sz (dec_lib d)" using p(2) by (simp add: consumes_def)
    moreover from this obtain fs e d2 where "decode_all av d1 = Some (fs, e, d2)" "e < 0" "length fs \<le> sz (dec_lib d1)"
      using less.hyps by blast
    ultimately show ?thesis using p False by (subst decode_all.simps) auto
  qed
qed

section \<open>Decoding delivers\<close>

text \<open>
  What a healthy file and graph hold, as the samples the graph makes of them: samples ready
  at the end of the graph, samples that its filters hold back, the frame just decoded, and
  what is still in the decoder and in the file. A graph passes samples in order; it holds back at most
  \<open>delay\<close> of them, and releases those when it is told the end of its input.
\<close>

record media =
  md_graph :: av_frame
  md_held :: av_frame
  md_slot :: av_frame
  md_coded :: av_frame
  md_rest :: av_frame
  md_closed :: bool

definition md_all :: "media \<Rightarrow> av_frame" where
  "md_all m = md_graph m @ md_held m @ md_slot m @ md_coded m @ md_rest m"

text \<open>Samples move from the file into the decoder.\<close>

definition fed :: "media \<Rightarrow> media \<Rightarrow> bool" where
  "fed m m' \<longleftrightarrow> (\<exists>c r. c @ r = md_coded m @ md_rest m \<and> m' = m\<lparr>md_coded := c, md_rest := r\<rparr>)"

lemma fed_trans: "fed m m1 \<Longrightarrow> fed m1 m2 \<Longrightarrow> fed m m2"
  unfolding fed_def by (elim exE conjE) (intro exI conjI, auto)

lemma fed_refl: "fed m m"
  unfolding fed_def by (intro exI [of _ "md_coded m"] exI [of _ "md_rest m"]) simp

lemma fedD:
  assumes "fed m m'"
  shows "md_graph m' = md_graph m" "md_held m' = md_held m" "md_slot m' = md_slot m" "md_closed m' = md_closed m"
    and "md_all m' = md_all m"
  using assms by (auto simp: fed_def md_all_def)

definition takes_samples :: "nat \<Rightarrow> av_frame \<Rightarrow> media \<Rightarrow> int \<Rightarrow> av_frame \<Rightarrow> media \<Rightarrow> bool" where
  "takes_samples n f m r f' m' \<longleftrightarrow>
    (if n \<le> length (md_graph m) \<or> (md_closed m \<and> md_graph m \<noteq> [])
     then 0 \<le> r \<and> f' = take n (md_graph m) \<and> m' = m\<lparr>md_graph := drop n (md_graph m)\<rparr>
     else r = (if md_closed m then AVERROR_EOF else AVERROR_EAGAIN) \<and> f' = f \<and> m' = m)"

definition av_delivers :: "'s av_api \<Rightarrow> ('s \<Rightarrow> media) \<Rightarrow> nat \<Rightarrow> bool" where
  "av_delivers av v delay \<longleftrightarrow>
    (\<forall>s r s'. av_receive_frame av s = (r, s') \<longrightarrow>
      (if 0 \<le> r then \<exists>f c. md_coded (v s) = f @ c \<and> v s' = (v s)\<lparr>md_slot := f, md_coded := c\<rparr>
       else r = AVERROR_EAGAIN \<and> v s' = v s \<and> md_coded (v s) = []))
    \<and> (\<forall>s r i s'. av_read_packet av s = (r, i, s') \<longrightarrow>
      fed (v s) (v s') \<and> (r < 0 \<longrightarrow> r = AVERROR_EOF \<and> v s' = v s \<and> md_rest (v s) = []))
    \<and> (\<forall>s r s'. av_send_packet av s = (r, s') \<longrightarrow> 0 \<le> r \<and> fed (v s) (v s'))
    \<and> (\<forall>s r s'. av_add_frame av True s = (r, s') \<longrightarrow> 0 \<le> r
      \<and> (\<exists>out held. md_held (v s) @ md_slot (v s) = out @ held \<and> length held \<le> delay
        \<and> v s' = (v s)\<lparr>md_graph := md_graph (v s) @ out, md_held := held, md_slot := []\<rparr>))
    \<and> (\<forall>s r s'. av_add_frame av False s = (r, s') \<longrightarrow> 0 \<le> r
      \<and> v s' = (v s)\<lparr>md_graph := md_graph (v s) @ md_held (v s), md_held := [], md_closed := True\<rparr>)
    \<and> (\<forall>f s r f' s'. av_get_samples av FRAME_SIZE f s = (r, f', s') \<longrightarrow> takes_samples FRAME_SIZE f (v s) r f' (v s'))"

lemma av_deliversD:
  assumes "av_delivers av v delay"
  shows "av_receive_frame av s = (r, s') \<Longrightarrow>
      (if 0 \<le> r then \<exists>f c. md_coded (v s) = f @ c \<and> v s' = (v s)\<lparr>md_slot := f, md_coded := c\<rparr>
       else r = AVERROR_EAGAIN \<and> v s' = v s \<and> md_coded (v s) = [])"
    and "av_read_packet av s = (r, i, s') \<Longrightarrow> fed (v s) (v s') \<and> (r < 0 \<longrightarrow> r = AVERROR_EOF \<and> v s' = v s \<and> md_rest (v s) = [])"
    and "av_send_packet av s = (r, s') \<Longrightarrow> 0 \<le> r \<and> fed (v s) (v s')"
    and "av_add_frame av True s = (r, s') \<Longrightarrow> 0 \<le> r
      \<and> (\<exists>out held. md_held (v s) @ md_slot (v s) = out @ held \<and> length held \<le> delay
        \<and> v s' = (v s)\<lparr>md_graph := md_graph (v s) @ out, md_held := held, md_slot := []\<rparr>)"
    and "av_add_frame av False s = (r, s') \<Longrightarrow> 0 \<le> r
      \<and> v s' = (v s)\<lparr>md_graph := md_graph (v s) @ md_held (v s), md_held := [], md_closed := True\<rparr>"
    and "av_get_samples av FRAME_SIZE f s = (r, f', s') \<Longrightarrow> takes_samples FRAME_SIZE f (v s) r f' (v s')"
proof -
  note l1 = assms [unfolded av_delivers_def, THEN conjunct1]
  note r1 = assms [unfolded av_delivers_def, THEN conjunct2]
  note r2 = r1 [THEN conjunct2] note r3 = r2 [THEN conjunct2]
  note r4 = r3 [THEN conjunct2] note r5 = r4 [THEN conjunct2]
  show "av_receive_frame av s = (r, s') \<Longrightarrow>
      (if 0 \<le> r then \<exists>f c. md_coded (v s) = f @ c \<and> v s' = (v s)\<lparr>md_slot := f, md_coded := c\<rparr>
       else r = AVERROR_EAGAIN \<and> v s' = v s \<and> md_coded (v s) = [])" using l1 [rule_format] .
  show "av_read_packet av s = (r, i, s') \<Longrightarrow> fed (v s) (v s') \<and> (r < 0 \<longrightarrow> r = AVERROR_EOF \<and> v s' = v s \<and> md_rest (v s) = [])"
    by (rule r1 [THEN conjunct1, THEN spec, THEN spec, THEN spec, THEN spec, THEN mp])
  show "av_send_packet av s = (r, s') \<Longrightarrow> 0 \<le> r \<and> fed (v s) (v s')"
    by (rule r2 [THEN conjunct1, THEN spec, THEN spec, THEN spec, THEN mp])
  show "av_add_frame av True s = (r, s') \<Longrightarrow> 0 \<le> r
      \<and> (\<exists>out held. md_held (v s) @ md_slot (v s) = out @ held \<and> length held \<le> delay
        \<and> v s' = (v s)\<lparr>md_graph := md_graph (v s) @ out, md_held := held, md_slot := []\<rparr>)"
    by (rule r3 [THEN conjunct1, THEN spec, THEN spec, THEN spec, THEN mp])
  show "av_add_frame av False s = (r, s') \<Longrightarrow> 0 \<le> r
      \<and> v s' = (v s)\<lparr>md_graph := md_graph (v s) @ md_held (v s), md_held := [], md_closed := True\<rparr>"
    by (rule r4 [THEN conjunct1, THEN spec, THEN spec, THEN spec, THEN mp])
  show "av_get_samples av FRAME_SIZE f s = (r, f', s') \<Longrightarrow> takes_samples FRAME_SIZE f (v s) r f' (v s')"
    using r5 by blast
qed

text \<open>A decoder between two frames, before the end of the file.\<close>

definition between :: "('s \<Rightarrow> media) \<Rightarrow> nat \<Rightarrow> 's decoder_t \<Rightarrow> bool" where
  "between v delay d \<longleftrightarrow> \<not> dec_got_eof d \<and> md_slot (v (dec_lib d)) = [] \<and> \<not> md_closed (v (dec_lib d))
    \<and> length (md_held (v (dec_lib d))) \<le> delay"

abbreviation samples :: "('s \<Rightarrow> media) \<Rightarrow> 's decoder_t \<Rightarrow> av_frame" where
  "samples v d \<equiv> md_all (v (dec_lib d))"

lemma receive_loop_delivers:
  assumes "av_progress av sz closed" and "av_delivers av v delay" and "between v delay d"
  shows "\<exists>r d'. receive_loop av d = Some (r, d') \<and> between v delay d' \<and> samples v d' = samples v d
    \<and> (0 \<le> r \<or> r = AVERROR_EOF \<and> md_coded (v (dec_lib d')) = [] \<and> md_rest (v (dec_lib d')) = [] \<and> fed (v (dec_lib d)) (v (dec_lib d')))"
  using assms(3)
proof (induction "sz (dec_lib d)" arbitrary: d rule: less_induct)
  case less
  obtain r s where r: "av_receive_frame av (dec_lib d) = (r, s)" by (metis surj_pair)
  obtain r1 s1 where a: "av_add_frame av True s = (r1, s1)" by (metis surj_pair)
  obtain r2 d2 where rf: "read_frame av (d\<lparr>dec_lib := s\<rparr>) = (r2, d2)" by (metis surj_pair)
  note lr = av_deliversD(1) [OF assms(2) r] and la = av_deliversD(4) [OF assms(2) a]
  show ?case
  proof (cases "0 \<le> r")
    case True
    then obtain f c where f: "md_coded (v (dec_lib d)) = f @ c" "v s = (v (dec_lib d))\<lparr>md_slot := f, md_coded := c\<rparr>"
      using lr by auto
    then obtain out held where "0 \<le> r1" "md_held (v (dec_lib d)) @ f = out @ held" "length held \<le> delay"
      "v s1 = (v s)\<lparr>md_graph := md_graph (v s) @ out, md_held := held, md_slot := []\<rparr>" using la by auto
    then show ?thesis using True f less.prems
      by (subst receive_loop.simps) (auto simp: r a Let_def between_def md_all_def)
  next
    case False
    then have again: "r = AVERROR_EAGAIN" "v s = v (dec_lib d)" "md_coded (v s) = []" using lr by auto
    have rd: "fed (v s) (v (dec_lib d2))" "dec_got_eof d2 = dec_got_eof d"
      "0 \<le> r2 \<or> r2 = AVERROR_EOF \<and> md_rest (v s) = [] \<and> v (dec_lib d2) = v s"
    proof -
      obtain r3 i s3 where p: "av_read_packet av s = (r3, i, s3)" by (metis surj_pair)
      obtain r4 s4 where q: "av_send_packet av s3 = (r4, s4)" by (metis surj_pair)
      show "fed (v s) (v (dec_lib d2))" "dec_got_eof d2 = dec_got_eof d"
        "0 \<le> r2 \<or> r2 = AVERROR_EOF \<and> md_rest (v s) = [] \<and> v (dec_lib d2) = v s"
        using rf less.prems av_deliversD(2) [OF assms(2) p] av_deliversD(3) [OF assms(2) q]
        by (auto simp: read_frame_def p q between_def intro: fed_trans split: if_splits)
    qed
    note fd = fedD [OF rd(1)]
    have b: "between v delay d2" using less.prems again rd(2) fd by (simp add: between_def)
    show ?thesis
    proof (cases "0 \<le> r2")
      case True
      have "sz (dec_lib d2) < sz (dec_lib d)"
        using read_frame_consumes(1) [OF assms(1) rf] av_progressD(2) [OF assms(1) r] less.prems True
        by (simp add: consumes_def between_def)
      then obtain r' d' where *: "receive_loop av d2 = Some (r', d')" "between v delay d'" "samples v d' = samples v d2"
        "0 \<le> r' \<or> r' = AVERROR_EOF \<and> md_coded (v (dec_lib d')) = [] \<and> md_rest (v (dec_lib d')) = [] \<and> fed (v (dec_lib d2)) (v (dec_lib d'))"
        using less.hyps b by blast
      have "receive_loop av d = receive_loop av d2"
        using True again by (subst receive_loop.simps) (auto simp: r rf Let_def)
      then show ?thesis using * fd(5) again(2) rd(1) fed_trans [OF rd(1)] by auto
    next
      case False
      then show ?thesis using again rd b fed_refl
        by (subst receive_loop.simps) (auto simp: r rf Let_def)
    qed
  qed
qed

text \<open>What one call of \<open>process_frame\<close> does with the samples \<open>xs\<close> that are left: a full frame,
  or, at the end of the file, at most one more frame.\<close>

definition frame_taken :: "('s \<Rightarrow> media) \<Rightarrow> nat \<Rightarrow> av_frame \<Rightarrow> int \<Rightarrow> 's decoder_t \<Rightarrow> bool" where
  "frame_taken v delay xs r d \<longleftrightarrow>
    (if dec_got_eof d then length xs < FRAME_SIZE + delay
       \<and> (if xs = [] then r = AVERROR_EOF else 0 \<le> r \<and> dec_out d = take FRAME_SIZE xs)
     else 0 \<le> r \<and> between v delay d \<and> dec_out d = take FRAME_SIZE xs \<and> FRAME_SIZE \<le> length xs
       \<and> samples v d = drop FRAME_SIZE xs)"

lemma process_loop_delivers_eof:
  assumes "av_delivers av v delay" and "between v delay d" and "dec_out d = []"
    and "md_coded (v (dec_lib d)) = []" and "md_rest (v (dec_lib d)) = []" and "length (md_graph (v (dec_lib d))) < FRAME_SIZE"
    and "process_loop av AVERROR_EOF d = Some (r, d')"
  shows "frame_taken v delay (samples v d) r d'"
proof -
  obtain r0 s where a: "av_add_frame av False (dec_lib d) = (r0, s)" by (metis surj_pair)
  obtain r1 f s1 where g: "av_get_samples av FRAME_SIZE [] s = (r1, f, s1)" by (metis surj_pair)
  note add = av_deliversD(5) [OF assms(1) a] and get = av_deliversD(6) [OF assms(1) g]
  have all: "samples v d = md_graph (v s)" using assms(2,4,5) add by (simp add: md_all_def between_def)
  have len: "length (samples v d) < FRAME_SIZE + delay"
    using assms(2,4-6) by (simp add: md_all_def between_def)
  have "r = r1 \<and> d' = d\<lparr>dec_got_eof := True, dec_lib := s1, dec_out := f\<rparr>"
    using assms(2,3,7) add get
    by (subst (asm) process_loop.simps)
      (auto simp: signal_eof_def a g Let_def between_def takes_samples_def split: if_splits)
  moreover have "if md_graph (v s) = [] then r1 = AVERROR_EOF else 0 \<le> r1 \<and> f = take FRAME_SIZE (md_graph (v s))"
    using get add by (auto simp: takes_samples_def split: if_splits)
  ultimately show ?thesis using len by (simp add: frame_taken_def all)
qed

lemma process_loop_delivers:
  assumes "av_progress av sz closed" and "av_delivers av v delay"
    and "ret \<noteq> AVERROR_EOF" and "between v delay d" and "dec_out d = []" and "process_loop av ret d = Some (r, d')"
  shows "frame_taken v delay (samples v d) r d'"
  using assms(3-6)
proof (induction "sz (dec_lib d)" arbitrary: d ret rule: less_induct)
  case less
  obtain r1 f s where g: "av_get_samples av FRAME_SIZE [] (dec_lib d) = (r1, f, s)" by (metis surj_pair)
  note get = av_deliversD(6) [OF assms(2) g] and cg = av_progressD(6) [OF assms(1) g]
  have sig: "signal_eof av ret d = (None, d)" using less.prems by (simp add: signal_eof_def)
  have open_: "\<not> md_closed (v (dec_lib d))" "\<not> dec_got_eof d" using less.prems by (simp_all add: between_def)
  show ?case
  proof (cases "FRAME_SIZE \<le> length (md_graph (v (dec_lib d)))")
    case True
    then have t: "0 \<le> r1" "f = take FRAME_SIZE (md_graph (v (dec_lib d)))"
      "v s = (v (dec_lib d))\<lparr>md_graph := drop FRAME_SIZE (md_graph (v (dec_lib d)))\<rparr>"
      using get by (auto simp: takes_samples_def)
    moreover have "r1 \<noteq> AVERROR_EOF" "r1 \<noteq> AVERROR_EAGAIN" using t(1) by auto
    ultimately have "r = r1 \<and> d' = d\<lparr>dec_out := f, dec_lib := s\<rparr>"
      using less.prems(2-4) by (subst (asm) process_loop.simps) (auto simp: sig g Let_def)
    then show ?thesis using t True less.prems(2)
      by (auto simp: frame_taken_def between_def md_all_def)
  next
    case False
    then have t: "r1 = AVERROR_EAGAIN" "f = []" "v s = v (dec_lib d)"
      using get open_ by (auto simp: takes_samples_def)
    let ?d = "d\<lparr>dec_out := [], dec_lib := s\<rparr>"
    have b: "between v delay ?d" using less.prems(2) t by (simp add: between_def)
    obtain r2 d2 where rl: "receive_loop av ?d = Some (r2, d2)" "between v delay d2" "samples v d2 = samples v ?d"
      "0 \<le> r2 \<or> r2 = AVERROR_EOF \<and> md_coded (v (dec_lib d2)) = [] \<and> md_rest (v (dec_lib d2)) = []
        \<and> fed (v (dec_lib ?d)) (v (dec_lib d2))"
      using receive_loop_delivers [OF assms(1,2) b] by blast
    have c2: "consumes sz r2 s (dec_lib d2)" "dec_out d2 = []"
      using receive_loop_ends [OF assms(1), of ?d] open_ rl(1) by auto
    have again: "process_loop av r2 d2 = Some (r, d')"
      using less.prems(3,4) rl(1,4) open_ t
      by (subst (asm) process_loop.simps) (auto simp: sig g Let_def receive_frame_def)
    show ?thesis
    proof (cases "0 \<le> r2")
      case True
      then have "sz (dec_lib d2) < sz (dec_lib d)" using c2 cg by (simp add: consumes_def)
      moreover have "r2 \<noteq> AVERROR_EOF" using True by auto
      ultimately have "frame_taken v delay (samples v d2) r d'" using less.hyps rl(2) c2(2) again by blast
      then show ?thesis using rl(3) t by simp
    next
      case eof: False
      then have "frame_taken v delay (samples v d2) r d'"
        using process_loop_delivers_eof [OF assms(2) rl(2) c2(2)] rl(4) again t False fedD(1) [of "v (dec_lib ?d)" "v (dec_lib d2)"] by auto
      then show ?thesis using rl(3) t by simp
    qed
  qed
qed

lemma process_frame_delivers:
  assumes "av_progress av sz closed" and "av_delivers av v delay" and "between v delay d"
  shows "\<exists>r d'. process_frame av d = Some (r, d') \<and> consumes sz r (dec_lib d) (dec_lib d')
    \<and> frame_taken v delay (samples v d) r d'"
proof -
  obtain r d' where p: "process_frame av d = Some (r, d')" "consumes sz r (dec_lib d) (dec_lib d')"
    using process_frame_ends [OF assms(1)] by blast
  moreover have "frame_taken v delay (samples v (d\<lparr>dec_out := []\<rparr>)) r d'"
    using p(1) assms(3) process_loop_delivers [OF assms(1,2), of 0 "d\<lparr>dec_out := []\<rparr>"]
    by (simp add: process_frame_def between_def)
  ultimately show ?thesis by simp
qed

lemma decode_all_delivers:
  assumes "av_progress av sz closed" and "av_delivers av v delay" and "between v delay d"
  shows "\<exists>fs d' lost. decode_all av d = Some (fs, AVERROR_EOF, d') \<and> samples v d = concat fs @ lost
    \<and> length lost \<le> delay \<and> list_all (\<lambda>f. length f = FRAME_SIZE) (butlast fs)
    \<and> list_all (\<lambda>f. f \<noteq> [] \<and> length f \<le> FRAME_SIZE) fs"
  using assms(3)
proof (induction "sz (dec_lib d)" arbitrary: d rule: less_induct)
  case less
  obtain r d1 where p: "process_frame av d = Some (r, d1)" "consumes sz r (dec_lib d) (dec_lib d1)"
    "frame_taken v delay (samples v d) r d1"
    using process_frame_delivers [OF assms(1,2) less.prems] by blast
  show ?case
  proof (cases "dec_got_eof d1")
    case eof: True
    then have stop: "decode_all av d1 = Some ([], AVERROR_EOF, d1)"
      by (subst decode_all.simps) (simp add: process_frame_def)
    show ?thesis
    proof (cases "samples v d = []")
      case True
      then have "r = AVERROR_EOF" using p(3) eof by (auto simp: frame_taken_def)
      then show ?thesis using p(1) True by (subst decode_all.simps) simp
    next
      case False
      let ?f = "take FRAME_SIZE (samples v d)" and ?l = "drop FRAME_SIZE (samples v d)"
      have "0 \<le> r" "dec_out d1 = ?f" "length ?l \<le> delay"
        using p(3) eof False by (auto simp: frame_taken_def)
      moreover from this have "decode_all av d = Some ([?f], AVERROR_EOF, d1)"
        using p(1) stop by (subst decode_all.simps) simp
      moreover have "?f \<noteq> []" using False by simp
      ultimately show ?thesis
        by (intro exI [of _ "[?f]"] exI [of _ d1] exI [of _ ?l]) simp
    qed
  next
    case False
    then have t: "0 \<le> r" "between v delay d1" "dec_out d1 = take FRAME_SIZE (samples v d)"
      "FRAME_SIZE \<le> length (samples v d)" "samples v d1 = drop FRAME_SIZE (samples v d)"
      using p(3) by (auto simp: frame_taken_def)
    have "sz (dec_lib d1) < sz (dec_lib d)" using p(2) t(1) by (simp add: consumes_def)
    then obtain fs d' lost where i: "decode_all av d1 = Some (fs, AVERROR_EOF, d')" "samples v d1 = concat fs @ lost"
      "length lost \<le> delay" "list_all (\<lambda>f. length f = FRAME_SIZE) (butlast fs)"
      "list_all (\<lambda>f. f \<noteq> [] \<and> length f \<le> FRAME_SIZE) fs"
      using less.hyps t(2) by blast
    have "decode_all av d = Some (dec_out d1 # fs, AVERROR_EOF, d')"
      using p(1) t(1) i(1) by (subst decode_all.simps) simp
    moreover have "samples v d = concat (dec_out d1 # fs) @ lost"
      using t(3,5) i(2) by (metis append_assoc append_take_drop_id concat.simps(2))
    moreover have "length (dec_out d1) = FRAME_SIZE" "dec_out d1 \<noteq> []" using t(3,4) by auto
    ultimately show ?thesis using i(3-5)
      by (intro exI [of _ "dec_out d1 # fs"] exI [of _ d'] exI [of _ lost]) auto
  qed
qed

section \<open>A library that keeps these laws\<close>

text \<open>A file is a list of packets of one frame each, and the graph passes every sample,
  holding back the last \<open>delay\<close> until the end of its input.\<close>

record demo =
  dm_packets :: "av_frame list"
  dm_coded :: "av_frame list"
  dm_frame :: av_frame
  dm_held :: av_frame
  dm_graph :: av_frame
  dm_closed :: bool

definition demo_add :: "nat \<Rightarrow> bool \<Rightarrow> demo \<Rightarrow> int \<times> demo" where
  "demo_add delay frame s =
    (if frame then
       let q = dm_held s @ dm_frame s; k = length q - delay
       in (0, s\<lparr>dm_graph := dm_graph s @ take k q, dm_held := drop k q, dm_frame := []\<rparr>)
     else (0, s\<lparr>dm_graph := dm_graph s @ dm_held s, dm_held := [], dm_closed := True\<rparr>))"

definition demo_get :: "nat \<Rightarrow> av_frame \<Rightarrow> demo \<Rightarrow> int \<times> av_frame \<times> demo" where
  "demo_get n f s =
    (if n \<le> length (dm_graph s) \<or> dm_closed s \<and> dm_graph s \<noteq> []
     then (0, take n (dm_graph s), s\<lparr>dm_graph := drop n (dm_graph s)\<rparr>)
     else (if dm_closed s then AVERROR_EOF else AVERROR_EAGAIN, f, s))"

definition demo_read :: "demo \<Rightarrow> int \<times> int \<times> demo" where
  "demo_read s =
    (case dm_packets s of [] \<Rightarrow> (AVERROR_EOF, 0, s)
     | p # ps \<Rightarrow> (0, 0, s\<lparr>dm_packets := ps, dm_coded := dm_coded s @ [p]\<rparr>))"

definition demo_receive :: "demo \<Rightarrow> int \<times> demo" where
  "demo_receive s =
    (case dm_coded s of [] \<Rightarrow> (AVERROR_EAGAIN, s) | f # fs \<Rightarrow> (0, s\<lparr>dm_coded := fs, dm_frame := f\<rparr>))"

definition demo_api :: "nat \<Rightarrow> demo av_api" where
  "demo_api delay = \<lparr>av_alloc = (\<lambda>s. (True, s)), av_open_input = (\<lambda>f s. (0, s)), av_find_stream_info = (\<lambda>s. (0, s)),
    av_find_best_stream = (\<lambda>s. 0), av_alloc_context = (\<lambda>s. (True, s)), av_codec_open = (\<lambda>s. (0, s)),
    av_read_packet = demo_read, av_send_packet = (\<lambda>s. (0, s)), av_receive_frame = demo_receive,
    av_add_frame = demo_add delay, av_get_samples = demo_get, av_graph_alloc = (\<lambda>s. (True, s)),
    av_source_params = (\<lambda>s. \<lparr>sp_num = 1, sp_den = 48000, sp_rate = 48000, sp_fmt = ''fltp'', sp_layout = ''stereo''\<rparr>),
    av_create_source = (\<lambda>a s. (0, s)), av_alloc_sink = (\<lambda>s. (True, s)), av_sink_opt = (\<lambda>k v s. (0, s)),
    av_init_sink = (\<lambda>s. (0, s)), av_parse_graph = (\<lambda>d s. (0, s)), av_config_graph = (\<lambda>s. (0, s)),
    av_free_graph = (\<lambda>s. s), av_unseekable = (\<lambda>s. False), av_start_time = (\<lambda>s. None),
    av_seek_file = (\<lambda>t s. (0, s))\<rparr>"

definition demo_size :: "demo \<Rightarrow> nat" where
  "demo_size s = 2 * length (dm_packets s) + length (dm_coded s)
    + length (concat (dm_packets s)) + length (concat (dm_coded s)) + length (dm_frame s)
    + length (dm_held s) + length (dm_graph s)"

definition demo_view :: "demo \<Rightarrow> media" where
  "demo_view s = \<lparr>md_graph = dm_graph s, md_held = dm_held s, md_slot = dm_frame s,
    md_coded = concat (dm_coded s), md_rest = concat (dm_packets s), md_closed = dm_closed s\<rparr>"

definition demo_decoder :: "av_frame list \<Rightarrow> demo decoder_t" where
  "demo_decoder ps = \<lparr>dec_filter_descr = [], dec_stream = 0, dec_valid = True, dec_got_eof = False,
    dec_graph = True, dec_out = [],
    dec_lib = \<lparr>dm_packets = ps, dm_coded = [], dm_frame = [], dm_held = [], dm_graph = [], dm_closed = False\<rparr>\<rparr>"

lemmas demo_defs = demo_api_def demo_read_def demo_receive_def demo_add_def demo_get_def

lemma demo_progress: "av_progress (demo_api delay) demo_size dm_closed"
  unfolding av_progress_def
  by (intro conjI allI impI)
    (use FRAME_SIZE_pos(1) in \<open>auto simp: demo_defs consumes_def demo_size_def Let_def intro!: diff_less
      split: list.splits if_splits\<close>)

lemma demo_delivers: "av_delivers (demo_api delay) demo_view delay"
  unfolding av_delivers_def
proof (intro conjI allI impI)
  fix s s' r
  assume a: "av_add_frame (demo_api delay) True s = (r, s')"
  define q where "q = dm_held s @ dm_frame s"
  have "s' = s\<lparr>dm_graph := dm_graph s @ take (length q - delay) q, dm_held := drop (length q - delay) q, dm_frame := []\<rparr>"
    using a by (simp add: demo_defs Let_def q_def)
  moreover have "md_held (demo_view s) @ md_slot (demo_view s) = q" by (simp add: demo_view_def q_def)
  ultimately show "\<exists>out held. md_held (demo_view s) @ md_slot (demo_view s) = out @ held \<and> length held \<le> delay
    \<and> demo_view s' = (demo_view s)\<lparr>md_graph := md_graph (demo_view s) @ out, md_held := held, md_slot := []\<rparr>"
    by (intro exI [of _ "take (length q - delay) q"] exI [of _ "drop (length q - delay) q"])
      (simp add: demo_view_def)
qed (auto simp: demo_defs demo_view_def fed_def takes_samples_def Let_def split: list.splits if_splits)

lemma demo_between: "between demo_view delay (demo_decoder ps)"
  by (simp add: between_def demo_decoder_def demo_view_def)

lemma demo_samples: "samples demo_view (demo_decoder ps) = concat ps"
  by (simp add: md_all_def demo_decoder_def demo_view_def)

section \<open>Properties\<close>

text \<open>C12: Decoding a file ends. Whatever the libraries answer, errors included, as long as
  every packet read, frame decoded and batch of samples taken uses up part of a finite
  file and a closed graph does not ask for more: each call of \<open>process_frame\<close> returns, and
  after at most as many frames as the file has parts the status is negative.\<close>

theorem decoding_terminates:
  assumes "av_progress av sz closed"
  shows "(\<exists>r d'. process_frame av d = Some (r, d'))
    \<and> (\<exists>fs r d'. decode_all av d = Some (fs, r, d') \<and> r < 0 \<and> length fs \<le> sz (dec_lib d))"
  using process_frame_ends [OF assms] decode_all_ends [OF assms] by blast

theorem decoding_terminates_witness:
  "\<exists>fs r d'. decode_all (demo_api 0) (demo_decoder [[(1, 2), (3, 4)], [(5, 6)]]) = Some (fs, r, d') \<and> r < 0
    \<and> length fs \<le> 7"
  using decoding_terminates [OF demo_progress, of 0 "demo_decoder [[(1, 2), (3, 4)], [(5, 6)]]"]
  by (simp add: demo_decoder_def demo_size_def)

text \<open>C11: A healthy file is delivered once and in order. The frames handed out hold exactly
  \<open>FRAME_SIZE\<close> samples each, the last one at least one, and put together they are the samples
  that the filter graph makes of the file, except for samples \<open>lost\<close> at the very end: none when
  no filter holds samples back, and never more than the filters hold back. (They are lost
  because after the end of the file one more frame is taken and no second one.)\<close>

theorem decoder_delivers:
  assumes "av_progress av sz closed" and "av_delivers av v delay" and "between v delay d"
  shows "\<exists>fs d' lost. decode_all av d = Some (fs, AVERROR_EOF, d')
    \<and> md_all (v (dec_lib d)) = concat fs @ lost \<and> length lost \<le> delay
    \<and> list_all (\<lambda>f. length f = FRAME_SIZE) (butlast fs)
    \<and> list_all (\<lambda>f. f \<noteq> [] \<and> length f \<le> FRAME_SIZE) fs"
  using decode_all_delivers [OF assms] .

theorem decoder_delivers_witness:
  "\<exists>fs d'. decode_all (demo_api 0) (demo_decoder [replicate 3000 (1, 2), replicate 2000 (3, 4)]) = Some (fs, AVERROR_EOF, d')
    \<and> concat fs = replicate 3000 (1, 2) @ replicate 2000 (3, 4)"
proof -
  obtain fs d' lost where
    "decode_all (demo_api 0) (demo_decoder [replicate 3000 (1, 2), replicate 2000 (3, 4)]) = Some (fs, AVERROR_EOF, d')"
    "samples demo_view (demo_decoder [replicate 3000 (1, 2), replicate 2000 (3, 4)]) = concat fs @ lost"
    "length lost \<le> 0"
    using decoder_delivers [OF demo_progress demo_delivers demo_between] by blast
  then show ?thesis by (simp add: demo_samples)
qed

end
