(* ===== verification/StreamCodec.thy ===== *)
theory StreamCodec
  imports Decoder
begin

text \<open>
  \<open>src/musicat/stream_codec.cpp\<close>: the encoder behind a stream. Frames of samples go in,
  Opus packets come out, and every packet is also written to an Ogg stream for listeners over
  HTTP. The FFmpeg calls of this file are the record \<open>en\<close> over a state \<open>'t\<close> of their own.
\<close>

type_synonym av_packet = "8 word list"

record 't en_api =
  en_alloc_output :: "'t \<Rightarrow> bool \<times> 't"
  en_has_audio_codec :: "'t \<Rightarrow> bool"
  en_find_encoder :: "'t \<Rightarrow> bool"
  en_alloc_packet :: "'t \<Rightarrow> bool \<times> 't"
  en_new_stream :: "'t \<Rightarrow> bool \<times> 't"
  en_alloc_context :: "'t \<Rightarrow> bool \<times> 't"
  en_sample_formats :: "'t \<Rightarrow> int \<times> 't"
  en_set_params :: "int \<Rightarrow> int \<Rightarrow> 't \<Rightarrow> 't"
  en_set_option :: "string \<Rightarrow> string \<Rightarrow> 't \<Rightarrow> 't"
  en_open :: "'t \<Rightarrow> int \<times> 't"
  en_variable_frame_size :: "'t \<Rightarrow> bool"
  en_frame_size :: "'t \<Rightarrow> int"
  en_alloc_frame :: "int \<Rightarrow> 't \<Rightarrow> bool \<times> 't"
  en_copy_params :: "'t \<Rightarrow> int \<times> 't"
  en_alloc_resampler :: "'t \<Rightarrow> bool \<times> 't"
  en_init_resampler :: "'t \<Rightarrow> int \<times> 't"
  en_alloc_buffer :: "nat \<Rightarrow> 't \<Rightarrow> bool \<times> 't"
  en_alloc_io :: "'t \<Rightarrow> bool \<times> 't"
  en_receive_packet :: "'t \<Rightarrow> int \<times> av_packet \<times> 't"
  en_write_header :: "'t \<Rightarrow> int \<times> 't"
  en_delay :: "'t \<Rightarrow> int"
  en_make_writable :: "'t \<Rightarrow> int \<times> 't"
  en_convert :: "av_frame \<Rightarrow> int \<Rightarrow> 't \<Rightarrow> int \<times> 't"
  en_send_frame :: "int option \<Rightarrow> 't \<Rightarrow> int \<times> 't"
  en_write_frame :: "av_packet option \<Rightarrow> 't \<Rightarrow> int \<times> 't"
  en_write_trailer :: "'t \<Rightarrow> 't"
  en_destroy :: "'t \<Rightarrow> 't"

record 't stream_codec_t =
  sc_oc :: bool
  sc_opt :: bool
  sc_wrote_header :: bool
  sc_ended :: bool
  sc_samples_count :: int
  sc_lib :: 't

definition stream_codec_new :: "'t \<Rightarrow> 't stream_codec_t" where
  "stream_codec_new s = \<lparr>sc_oc = False, sc_opt = False, sc_wrote_header = False, sc_ended = True,
    sc_samples_count = 0, sc_lib = s\<rparr>"

section \<open>Opening\<close>

text \<open>Calls that report success by a non-null pointer.\<close>

definition or_fail :: "int \<Rightarrow> ('t \<Rightarrow> bool \<times> 't) \<Rightarrow> 't \<Rightarrow> int \<times> 't" where
  "or_fail e f s = (case f s of (ok, s1) \<Rightarrow> (if ok then 0 else e, s1))"

definition add_stream :: "'t en_api \<Rightarrow> 't \<Rightarrow> int \<times> 't" where
  "add_stream en s =
    (if \<not> en_find_encoder en s then (- 1, s)
     else case until_error [or_fail (- 1) (en_alloc_packet en), or_fail (- 1) (en_new_stream en),
         or_fail (- 1) (en_alloc_context en), en_sample_formats en] 0 s of
       (r, s1) \<Rightarrow> if r < 0 then (r, s1) else (0, en_set_params en 128000 48000 s1))"

text \<open>A resampler that is not allocated is reported with the status of the last call, 0 or more.\<close>

definition open_audio :: "'t en_api \<Rightarrow> 't \<Rightarrow> int \<times> 't" where
  "open_audio en s =
    (case en_open en s of
       (r, s1) \<Rightarrow>
         if r < 0 then (r, s1)
         else
           let nb_samples = (if en_variable_frame_size en s1 then 10000 else en_frame_size en s1)
           in case en_alloc_frame en nb_samples s1 of
                (ok, s2) \<Rightarrow>
                  if \<not> ok then (- 1, s2)
                  else
                    (case en_copy_params en s2 of
                       (r1, s3) \<Rightarrow>
                         if r1 < 0 then (r1, s3)
                         else
                           (case en_alloc_resampler en s3 of
                              (ok1, s4) \<Rightarrow>
                                if \<not> ok1 then (r1, s4)
                                else (case en_init_resampler en s4 of (r2, s5) \<Rightarrow> (if r2 < 0 then r2 else 0, s5)))))"

definition setup_io_context :: "'t en_api \<Rightarrow> 't \<Rightarrow> int \<times> 't" where
  "setup_io_context en s =
    until_error [or_fail AVERROR_ENOMEM (en_alloc_buffer en 4096), or_fail AVERROR_ENOMEM (en_alloc_io en)] 0 s"

text \<open>A format without an audio codec would open a codec that was never looked up (\<open>None\<close>).\<close>

definition codec_init :: "'t en_api \<Rightarrow> 't stream_codec_t \<Rightarrow> (int \<times> 't stream_codec_t) option" where
  "codec_init en c =
    (case en_alloc_output en (sc_lib c) of
       (ok, s) \<Rightarrow>
         let c1 = c\<lparr>sc_oc := ok, sc_lib := s\<rparr>
         in if \<not> ok then Some (1, c1)
            else if \<not> en_has_audio_codec en s then None
            else
              (case add_stream en s of
                 (r, s1) \<Rightarrow>
                   if r \<noteq> 0 then Some (r, c1\<lparr>sc_lib := s1\<rparr>)
                   else
                     (case open_audio en (en_set_option en ''frame_duration'' ''60.0''
                         (en_set_option en ''application'' ''audio'' s1)) of
                        (r1, s2) \<Rightarrow>
                          if r1 \<noteq> 0 then Some (r1, c1\<lparr>sc_opt := True, sc_lib := s2\<rparr>)
                          else
                            (case setup_io_context en s2 of
                               (r2, s3) \<Rightarrow>
                                 if r2 \<noteq> 0 then Some (r2, c1\<lparr>sc_opt := True, sc_lib := s3\<rparr>)
                                 else Some (0, c1\<lparr>sc_opt := True, sc_ended := False, sc_lib := s3\<rparr>)))))"

section \<open>Encoding\<close>

definition get_packet :: "'t en_api \<Rightarrow> 't stream_codec_t \<Rightarrow> int \<times> av_packet option \<times> 't stream_codec_t" where
  "get_packet en c =
    (case en_receive_packet en (sc_lib c) of
       (ret, pkt, s) \<Rightarrow>
         let c1 = c\<lparr>sc_lib := s\<rparr>
         in if ret = AVERROR_EAGAIN \<or> ret = AVERROR_EOF then (ret, None, c1)
            else if ret < 0 then (ret, None, c1)
            else (if ret = AVERROR_EOF then AVERROR_EOF else 0, Some pkt, c1))"

definition write_frame :: "'t en_api \<Rightarrow> int option \<Rightarrow> 't stream_codec_t \<Rightarrow> int \<times> 't stream_codec_t" where
  "write_frame en pts c =
    (case en_send_frame en pts (sc_lib c) of (ret, s) \<Rightarrow> (if ret < 0 then ret else 0, c\<lparr>sc_lib := s\<rparr>))"

text \<open>A frame carries the number of the samples before it. \<open>None\<close> is an abort: the number
  of samples that the resampler gives must be that of the frame (an assertion), and the count
  of samples is a signed 32 bit integer, whose overflow is undefined.\<close>

definition write_pcm_frame ::
  "'t en_api \<Rightarrow> av_frame option \<Rightarrow> 't stream_codec_t \<Rightarrow> (int \<times> 't stream_codec_t) option" where
  "write_pcm_frame en frame c =
    (case (if sc_wrote_header c then (0 :: int, c)
           else case en_write_header en (sc_lib c) of
             (r, s) \<Rightarrow> if r < 0 then (1, c\<lparr>sc_lib := s\<rparr>) else (0, c\<lparr>sc_wrote_header := True, sc_lib := s\<rparr>)) of
       (e, c1) \<Rightarrow>
         if e \<noteq> 0 then Some (1, c1)
         else case frame of
           None \<Rightarrow> Some (write_frame en None c1)
         | Some f \<Rightarrow>
             let n = int (length f)
             in if en_delay en (sc_lib c1) + n \<noteq> n then None
                else
                  (case until_error [en_make_writable en, en_convert en f n] 0 (sc_lib c1) of
                     (r, s) \<Rightarrow>
                       if r < 0 then Some (r, c1\<lparr>sc_lib := s\<rparr>)
                       else if sc_samples_count c1 + n \<ge> 2 ^ 31 then None
                       else Some (write_frame en (Some (sc_samples_count c1))
                         (c1\<lparr>sc_samples_count := sc_samples_count c1 + n, sc_lib := s\<rparr>))))"

definition write_packet :: "'t en_api \<Rightarrow> av_packet option \<Rightarrow> 't stream_codec_t \<Rightarrow> int \<times> 't stream_codec_t" where
  "write_packet en pkt c =
    (case en_write_frame en pkt (sc_lib c) of
       (ret, s) \<Rightarrow> (if ret < 0 then ret else 0, c\<lparr>sc_lib := s\<rparr>))"

definition codec_end :: "'t en_api \<Rightarrow> 't stream_codec_t \<Rightarrow> int \<times> 't stream_codec_t" where
  "codec_end en c =
    (if sc_ended c then (- 1, c)
     else (0, c\<lparr>sc_ended := True, sc_lib := en_write_trailer en (sc_lib c)\<rparr>))"

definition codec_destroy :: "'t en_api \<Rightarrow> 't stream_codec_t \<Rightarrow> int \<times> 't stream_codec_t" where
  "codec_destroy en c =
    (let c1 = c\<lparr>sc_opt := False\<rparr>
     in if \<not> sc_oc c1 then (- 1, c1)
        else (0, c1\<lparr>sc_oc := False, sc_lib := en_destroy en (sc_lib c1)\<rparr>))"

section \<open>Facts\<close>

text \<open>A frame that is accepted moves the count by its length, and is numbered by the count
  before: consecutive frames tile the time line of the stream.\<close>

lemma write_pcm_frame_count:
  assumes "write_pcm_frame en (Some f) c = Some (r, c')"
  shows "sc_samples_count c' = sc_samples_count c \<or> sc_samples_count c' = sc_samples_count c + int (length f)"
    and "sc_samples_count c' < 2 ^ 31 \<or> sc_samples_count c' = sc_samples_count c"
    and "r = 0 \<Longrightarrow> sc_samples_count c' = sc_samples_count c + int (length f)"
    and "r = 0 \<Longrightarrow> sc_wrote_header c'"
  using assms
  by (auto simp: write_pcm_frame_def write_frame_def Let_def split: if_splits prod.splits)

text \<open>The twelfth hour: a stream whose count is near the limit cannot take one more frame.\<close>

lemma write_pcm_frame_overflow:
  assumes "sc_wrote_header c" and "2 ^ 31 - int FRAME_SIZE \<le> sc_samples_count c" and "length f = FRAME_SIZE"
    and "write_pcm_frame en (Some f) c = Some (r, c')"
  shows "r < 0"
  using assms by (auto simp: write_pcm_frame_def Let_def split: if_splits prod.splits)

end
