(* ===== verification/Stream.thy ===== *)
theory Stream
  imports Bot StreamCodec
begin

text \<open>
  \<open>src/musicat/player_manager_stream.cpp\<close>: the streams. A context plays the current track
  of one guild; it is decoded, encoded and sent piece by piece by one of a fixed number of
  threads, which the main loop gives contexts to whenever the audio buffer of the guild's
  voice connection runs low. First the operations of a context, then the threads as a step
  relation.
\<close>

section \<open>Progress\<close>

definition fl_div :: "nat \<Rightarrow> fl \<Rightarrow> fl \<Rightarrow> fl" where
  "fl_div p x y =
    (let s = (if fl_man y < 0 then - 1 else 1); n = s * fl_man x; d = s * fl_man y; e = fl_exp x - fl_exp y
     in if 0 \<le> e then rnd_frac p (push_bit (nat e) n) d else rnd_frac p n (push_bit (nat (- e)) d))"

text \<open>The bytes of 48 kHz stereo that a buffer of \<open>len\<close> bytes stands for, in floats as the
  code computes them. \<open>None\<close>: a sampling rate of 3900 under the earwax filter divides by
  zero, and the infinite result has no integer.\<close>

definition progress_of :: "int \<Rightarrow> guild_player_t \<Rightarrow> int option" where
  "progress_of len p =
    (let samp = (if gp_sampling_rate p = - 1 then 48000 else gp_sampling_rate p) - (if gp_earwax p then 3900 else 0)
     in if samp = 0 then None
        else
          let q = fl_mul 24 (fl_div 24 (fl_of_int 24 len) (fl_of_int 24 (samp * 2 * 2))) (fl_of_int 24 1000);
              add = fl_trunc (fl_mul 53 (fl_mul 24 q (fl_of_int 24 opus_byte_per_ms)) (gp_tempo p))
          in if - (2 ^ 63) \<le> add \<and> add < 2 ^ 63 then Some add else None)"

definition calculate_track_progress :: "int \<Rightarrow> guild_player_t \<Rightarrow> guild_player_t option" where
  "calculate_track_progress len p =
    (case progress_of len p of
       None \<Rightarrow> None
     | Some add \<Rightarrow>
         let b = tr_current_byte (gp_current_track p) + add
         in if - (2 ^ 63) \<le> b \<and> b < 2 ^ 63
            then Some (p\<lparr>gp_current_track := (gp_current_track p)\<lparr>tr_current_byte := b\<rparr>\<rparr>) else None)"

section \<open>Contexts\<close>

text \<open>How a call ends other than by returning: with an exception, or with undefined
  behaviour, an assertion or an exception that nobody catches.\<close>

datatype stream_exn = Throw int | Abort

record ('s, 't) stream_ctx =
  sx_guild_id :: snowflake
  sx_handled :: bool
  sx_ended :: bool
  sx_running_state :: bool
  sx_is_stopping :: bool
  sx_buffer_length :: fl
  sx_read_size :: int
  sx_total_read :: int
  sx_dec :: "'s decoder_t"
  sx_codec :: "'t stream_codec_t"

datatype stream_effect =
    SE_player snowflake player_effect
  | SE_config snowflake json
  | SE_publish_fx snowflake
  | SE_publish_playback_info snowflake
  | SE_publish_seek snowflake int
  | SE_publish_play snowflake
  | SE_publish_progress snowflake int
  | SE_publish_stop snowflake
  | SE_stop_audio snowflake
  | SE_send_audio snowflake av_packet
  | SE_insert_marker snowflake string

text \<open>What a context finds around it: the media libraries, the accessors of the track
  formats, the caches, whether the bot runs, the configured buffer, which files open, and
  whether the voice client is there when a packet is sent. Two values stand for memory that
  the code reads without having written it: \<open>se_ret\<close> for the local \<open>ret\<close> of \<open>run\<close>, and
  \<open>se_high\<close> for the four bytes behind the local \<open>n\<close>, of which the code reads eight.\<close>

record ('s, 't) stream_env =
  se_av :: "'s av_api"
  se_en :: "'t en_api"
  se_yt :: yt_api
  se_dv :: dpp_view
  se_running :: bool
  se_buffer_size :: fl
  se_file_opens :: "string \<Rightarrow> bool"
  se_can_send :: bool
  se_ret :: int
  se_high :: int

definition stream_ctx_new :: "('s, 't) stream_env \<Rightarrow> snowflake \<Rightarrow> 's \<Rightarrow> 't \<Rightarrow> ('s, 't) stream_ctx" where
  "stream_ctx_new env guild_id s t = \<lparr>sx_guild_id = guild_id, sx_handled = False, sx_ended = True,
    sx_running_state = False, sx_is_stopping = False, sx_buffer_length = fl_zero, sx_read_size = 0,
    sx_total_read = 0, sx_dec = decoder_new (se_av env) s, sx_codec = stream_codec_new t\<rparr>"

definition clear_seek :: "guild_player_t \<Rightarrow> guild_player_t" where
  "clear_seek p = reset_first_track_current_byte
    (p\<lparr>gp_current_track := (gp_current_track p)\<lparr>tr_seek_to := []\<rparr>\<rparr>)"

text \<open>Seeking to the position of the track: the milliseconds, and the decoder.\<close>

definition seek_to_progress ::
  "('s, 't) stream_env \<Rightarrow> guild_player_t \<Rightarrow> 's decoder_t \<Rightarrow> (int \<times> 's decoder_t) result" where
  "seek_to_progress env p d =
    bind_result (get_track_progress (se_yt env) (gp_current_track p)) (\<lambda>tp.
      case decoder_seek (se_av env) (tp_current_ms tp) d of
        None \<Rightarrow> Inl Undefined
      | Some (_, d1) \<Rightarrow> Inr (tp_current_ms tp, d1))"

text \<open>\<open>init\<close>: the file is opened and the filters and the encoder set up, or 2 is thrown.
  The first component of the result is the thrown number. \<open>None\<close> is undefined behaviour.\<close>

definition ctx_init ::
  "('s, 't) stream_env \<Rightarrow> ('s, 't) stream_ctx \<Rightarrow> manager
    \<Rightarrow> (int option \<times> ('s, 't) stream_ctx \<times> manager \<times> stream_effect list) option" where
  "ctx_init env x0 m0 =
    (let x = x0\<lparr>sx_handled := False\<rparr>; g = sx_guild_id x
     in case get_player g m0 of
          None \<Rightarrow> Some (Some 2, x, m0, [])
        | Some p0 \<Rightarrow>
            let p = p0\<lparr>gp_tried_continuing := False\<rparr>; m = put_player g p m0; av = se_av env;
                fname = tr_filename (gp_current_track p)
            in if \<not> se_file_opens env fname \<or> \<not> is_valid (sx_dec x) then Some (Some 2, x, m, [])
               else case open_file av fname (sx_dec x) of
                 (r, d1) \<Rightarrow>
                   if r < 0 then Some (Some 2, x\<lparr>sx_dec := d1\<rparr>, m, [])
                   else case init_filters av (set_filter_descr (get_filter_descr p) d1) of
                     (r1, d2) \<Rightarrow>
                       if r1 < 0 then Some (Some 2, x\<lparr>sx_dec := d2\<rparr>, m, [])
                       else case codec_init (se_en env) (sx_codec x) of
                         None \<Rightarrow> None
                       | Some (r2, c1) \<Rightarrow>
                           let x1 = x\<lparr>sx_dec := d2, sx_codec := c1\<rparr>
                           in if r2 \<noteq> 0 then Some (Some 2, x1, m, [])
                              else
                                let eff = [SE_publish_playback_info g, SE_publish_fx g];
                                    p1 = p\<lparr>gp_current_track := track_check_for_seek_to (gp_current_track p)\<rparr>;
                                    start = (\<lambda>d q e. Some (None, x1\<lparr>sx_dec := d, sx_buffer_length := se_buffer_size env,
                                      sx_running_state := False, sx_is_stopping := False, sx_read_size := 0,
                                      sx_total_read := 0, sx_ended := False\<rparr>, put_player g q m,
                                      eff @ e @ [SE_publish_play g]))
                                in if tr_seek_to (gp_current_track p1) = [] then start d2 p1 []
                                   else case seek_to_progress env p1 d2 of
                                     Inl Undefined \<Rightarrow> None
                                   | Inl _ \<Rightarrow> Some (Some 2, x1, put_player g p1 m, eff)
                                   | Inr (ms, d3) \<Rightarrow> start d3 (clear_seek p1) [SE_publish_seek g ms])"

text \<open>\<open>send_audio_routine\<close>: 1 when the bot stops or the voice client is gone.\<close>

definition send_audio_routine ::
  "('s, 't) stream_env \<Rightarrow> av_packet \<Rightarrow> ('s, 't) stream_ctx \<Rightarrow> int \<times> ('s, 't) stream_ctx \<times> stream_effect list" where
  "send_audio_routine env pkt x =
    (if \<not> se_running env \<or> \<not> se_can_send env then (1, x, [])
     else (0, x\<lparr>sx_read_size := 0\<rparr>, [SE_send_audio (sx_guild_id x) pkt]))"

definition client_usable :: "dpp_view \<Rightarrow> guild_player_t \<Rightarrow> bool" where
  "client_usable dv p \<longleftrightarrow> (case get_voice_client dv p of None \<Rightarrow> False | Some c \<Rightarrow> \<not> vc_terminating c)"

text \<open>Filters that were changed, and a seek that was asked for, while the track plays. An
  exception here leaves the thread, which ends the process.\<close>

definition handle_effect_chain_change ::
  "('s, 't) stream_env \<Rightarrow> guild_player_t \<Rightarrow> 's decoder_t
    \<Rightarrow> stream_exn + (guild_player_t \<times> 's decoder_t \<times> stream_effect list)" where
  "handle_effect_chain_change env p d =
    (let new_descr = get_filter_descr p; g = gp_guild_id p;
         seek = (\<lambda>d1 eff. if tr_seek_to (gp_current_track p) = [] then Inr (p, d1, eff)
           else case seek_to_progress env p d1 of
             Inl _ \<Rightarrow> Inl Abort
           | Inr (_, d2) \<Rightarrow> Inr (clear_seek p, d2, eff))
     in if new_descr = dec_filter_descr d then seek d []
        else case init_filters (se_av env) (set_filter_descr new_descr d) of
          (r, d1) \<Rightarrow> if r < 0 then Inl (Throw 2)
                     else seek d1 [SE_config g (fx_states_to_json p), SE_publish_fx g])"

section \<open>Running a context\<close>

type_synonym ('s, 't) pump_result =
  "stream_exn + int \<times> av_packet option \<times> 's decoder_t \<times> 't stream_codec_t \<times> guild_player_t"

text \<open>The two nested loops that decode until the encoder has a packet. \<open>None\<close>: no end.\<close>

partial_function (option) feed_loop ::
  "('s, 't) stream_env \<Rightarrow> 's decoder_t \<Rightarrow> 't stream_codec_t \<Rightarrow> guild_player_t \<Rightarrow> ('s, 't) pump_result option" where
  "feed_loop env d c p =
    (case get_packet (se_en env) c of
       (ret, pkt, c1) \<Rightarrow>
         if ret \<noteq> AVERROR_EAGAIN then Some (Inr (ret, pkt, d, c1, p))
         else
           Option.bind (process_frame (se_av env) d) (\<lambda>(r, d1).
             if r = AVERROR_EOF \<or> r < 0 then
               (case write_pcm_frame (se_en env) None c1 of
                  None \<Rightarrow> Some (Inl Abort)
                | Some (_, c2) \<Rightarrow> Some (Inr (r, None, d1, c2, p)))
             else
               (case calculate_track_progress (int (length (dec_out d1)) * 2 * 2 + se_high env * 2 ^ 32) p of
                  None \<Rightarrow> Some (Inl Abort)
                | Some p1 \<Rightarrow>
                    (case write_pcm_frame (se_en env) (Some (dec_out d1)) c1 of
                       None \<Rightarrow> Some (Inl Abort)
                     | Some (w, c2) \<Rightarrow>
                         if w = AVERROR_EOF then Some (Inr (r, None, d1, c2, p1))
                         else feed_loop env d1 c2 p1))))"

partial_function (option) packet_loop ::
  "('s, 't) stream_env \<Rightarrow> int \<Rightarrow> av_packet option \<Rightarrow> 's decoder_t \<Rightarrow> 't stream_codec_t \<Rightarrow> guild_player_t
    \<Rightarrow> ('s, 't) pump_result option" where
  "packet_loop env ret pkt d c p =
    (if pkt = None \<and> ret \<noteq> AVERROR_EOF \<and> ret \<ge> 0 then
       Option.bind (feed_loop env d c p) (\<lambda>r.
         case r of
           Inl e \<Rightarrow> Some (Inl e)
         | Inr (ret1, pkt1, d1, c1, p1) \<Rightarrow> packet_loop env ret1 pkt1 d1 c1 p1)
     else Some (Inr (ret, pkt, d, c, p)))"

definition cquot :: "int \<Rightarrow> int \<Rightarrow> int" where
  "cquot a b = (if a < 0 then - (- a div b) else a div b)"

type_synonym ('s, 't) run_result = "stream_exn + int \<times> ('s, 't) stream_ctx \<times> manager \<times> stream_effect list"

text \<open>The end of \<open>run\<close>: what the pump gave is sent and written to the listeners.\<close>

definition send_packet ::
  "('s, 't) stream_env \<Rightarrow> av_packet \<Rightarrow> guild_player_t \<Rightarrow> ('s, 't) stream_ctx \<Rightarrow> int \<times> ('s, 't) stream_ctx \<times> stream_effect list" where
  "send_packet env b p x =
    (let n = int (length b); x1 = x\<lparr>sx_read_size := sx_read_size x + n, sx_total_read := sx_total_read x + n\<rparr>
     in case send_audio_routine env b x1 of
          (e, x2, eff) \<Rightarrow>
            if e \<noteq> 0 then (- 1, x2, eff)
            else (0, x2\<lparr>sx_codec := snd (write_packet (se_en env) (Some b) (sx_codec x2))\<rparr>,
              eff @ [SE_publish_progress (gp_guild_id p) (cquot (tr_current_byte (gp_current_track p)) opus_byte_per_ms)]))"

definition ctx_run ::
  "('s, 't) stream_env \<Rightarrow> manager \<Rightarrow> ('s, 't) stream_ctx \<Rightarrow> ('s, 't) run_result option" where
  "ctx_run env m x =
    (let g = sx_guild_id x; stop = (\<lambda>x'. Some (Inr (- 1, x', m, [])))
     in if sx_ended x then stop x
        else case get_player g m of
          None \<Rightarrow> stop x
        | Some p \<Rightarrow>
            let x1 = x\<lparr>sx_running_state := se_running env, sx_is_stopping := gp_stopping p\<rparr>
            in if \<not> se_running env \<or> gp_stopping p then stop x1
               else if is_waiting_vc_ready g m then Some (Inr (0, x1, m, []))
               else if \<not> client_usable (se_dv env) p then stop x1
               else case handle_effect_chain_change env p (sx_dec x1) of
                 Inl e \<Rightarrow> Some (Inl e)
               | Inr (p1, d1, eff) \<Rightarrow>
                   Option.bind (packet_loop env (se_ret env) None d1 (sx_codec x1) p1) (\<lambda>r.
                     case r of
                       Inl e \<Rightarrow> Some (Inl e)
                     | Inr (ret, pkt, d2, c2, p2) \<Rightarrow>
                         let x2 = x1\<lparr>sx_dec := d2, sx_codec := c2\<rparr>; m2 = put_player g p2 m
                         in if ret = AVERROR_EOF \<or> ret < 0 then
                              Some (Inr (- 1, x2\<lparr>sx_codec := snd (write_packet (se_en env) None c2)\<rparr>, m2, eff))
                            else case pkt of
                              None \<Rightarrow> Some (Inl Abort)
                            | Some b \<Rightarrow>
                                (case send_packet env b p2 x2 of (e, x3, eff1) \<Rightarrow> Some (Inr (e, x3, m2, eff @ eff1)))))"

definition need_handler :: "('s, 't) stream_env \<Rightarrow> manager \<Rightarrow> ('s, 't) stream_ctx \<Rightarrow> int" where
  "need_handler env m x =
    (if sx_ended x then - 1
     else case get_player (sx_guild_id x) m of
       None \<Rightarrow> - 1
     | Some p \<Rightarrow>
         if is_waiting_vc_ready (sx_guild_id x) m then 0
         else case get_voice_client (se_dv env) p of
           None \<Rightarrow> - 1
         | Some vc \<Rightarrow>
             if vc_terminating vc then - 1
             else if fl_less (sx_buffer_length x) (vc_secs_remaining vc) then 0 else 1)"

text \<open>\<open>end\<close>. What is left unsent is sent again, from a vector that this build never fills:
  a voice client that is there again by then makes it read through a null pointer (\<open>None\<close>).\<close>

definition ctx_end ::
  "('s, 't) stream_env \<Rightarrow> manager \<Rightarrow> ('s, 't) stream_ctx
    \<Rightarrow> (int \<times> ('s, 't) stream_ctx \<times> manager \<times> stream_effect list) option" where
  "ctx_end env m x0 =
    (if sx_ended x0 then Some (- 1, x0, m, [])
     else
       let x = x0\<lparr>sx_ended := True\<rparr>; g = sx_guild_id x
       in case get_player g m of
            None \<Rightarrow> Some (- 1, x, m, [])
          | Some p \<Rightarrow>
              if sx_read_size x > 0 \<and> sx_running_state x \<and> \<not> sx_is_stopping x \<and> se_running env \<and> se_can_send env
              then None
              else
                let x1 = x\<lparr>sx_codec := snd (codec_end (se_en env) (sx_codec x))\<rparr>;
                    client = (get_voice_client (se_dv env) p \<noteq> None);
                    (p1, eff) =
                      (if \<not> sx_running_state x \<or> sx_is_stopping x
                       then (p, (if client then [SE_stop_audio g] else []) @ [SE_publish_stop g])
                       else if \<not> client then
                         (case gp_queue p of
                            [] \<Rightarrow> (p, [])
                          | t # q \<Rightarrow> (p\<lparr>gp_queue := t\<lparr>tr_current_byte := tr_current_byte (gp_current_track p)\<rparr> # q\<rparr>, []))
                       else (p, []))
                in case done_streaming p1 of
                     (p2, eff1) \<Rightarrow> Some (0, x1, put_player g p2 m, eff @ map (SE_player g) eff1))"

section \<open>The table of contexts\<close>

text \<open>A context is known by its address, a number here, which no later context gets.\<close>

type_synonym ('s, 't) ctx_table = "(nat \<times> ('s, 't) stream_ctx) list"

fun find_ctx :: "nat \<Rightarrow> ('s, 't) ctx_table \<Rightarrow> ('s, 't) stream_ctx option" where
  "find_ctx a [] = None"
| "find_ctx a ((b, x) # cs) = (if a = b then Some x else find_ctx a cs)"

definition set_ctx :: "nat \<Rightarrow> ('s, 't) stream_ctx \<Rightarrow> ('s, 't) ctx_table \<Rightarrow> ('s, 't) ctx_table" where
  "set_ctx a x cs = map (\<lambda>(b, y). (b, if a = b then x else y)) cs"

text \<open>The first context of the guild is destroyed, which ends it, and taken out.\<close>

fun erase_ctx ::
  "('s, 't) stream_env \<Rightarrow> snowflake \<Rightarrow> manager \<Rightarrow> ('s, 't) ctx_table
    \<Rightarrow> (('s, 't) ctx_table \<times> manager \<times> stream_effect list) option" where
  "erase_ctx env g m [] = Some ([], m, [])"
| "erase_ctx env g m ((a, x) # cs) =
    (if sx_guild_id x = g then map_option (\<lambda>(_, _, m1, eff). (cs, m1, eff)) (ctx_end env m x)
     else map_option (\<lambda>(cs1, m1, eff). ((a, x) # cs1, m1, eff)) (erase_ctx env g m cs))"

text \<open>The number thrown, if any. A context that fails to start is destroyed, which does
  nothing, as it has not begun.\<close>

definition submit_stream_ctx ::
  "('s, 't) stream_env \<Rightarrow> 's \<Rightarrow> 't \<Rightarrow> nat \<Rightarrow> snowflake \<Rightarrow> manager \<Rightarrow> ('s, 't) ctx_table
    \<Rightarrow> (int option \<times> ('s, 't) ctx_table \<times> manager \<times> stream_effect list) option" where
  "submit_stream_ctx env s t a g m cs =
    (if list_ex (\<lambda>(_, x). sx_guild_id x = g) cs then Some (Some 3, cs, m, [])
     else case ctx_init env (stream_ctx_new env g s t) m of
       None \<Rightarrow> None
     | Some (Some e, _, m1, eff) \<Rightarrow> Some (Some e, cs, m1, eff)
     | Some (None, x, m1, eff) \<Rightarrow> Some (None, cs @ [(a, x)], m1, eff))"

section \<open>Threads\<close>

text \<open>
  A thread holds addresses: those it is processing, whose first one is current, and those
  queued for it. Its program counter says what it does next with the current one. The main
  loop checks the contexts under the lock of the table; a thread takes that lock only to
  destroy a context or to mark it as not handled, so these two steps wait for the check to end.
  The queue and the size of a thread have a lock of their own, taken for one step.
\<close>

datatype thread_pc = T_top | T_run | T_need | T_erase | T_release | T_dead

record stream_thread_t =
  th_processing :: "nat list"
  th_ctxs :: "nat list"
  th_size :: nat
  th_pc :: thread_pc

definition thread_new :: stream_thread_t where
  "thread_new = \<lparr>th_processing = [], th_ctxs = [], th_size = 0, th_pc = T_top\<rparr>"

text \<open>What the main loop is doing: nothing, checking these contexts, or looking for a thread
  for one of them, first an idle one, then one that is less busy than the busiest.\<close>

datatype checker =
    S_idle
  | S_check "nat list"
  | S_find nat "nat list" nat nat nat
  | S_slow nat "nat list" nat nat

record ('s, 't) streams =
  ss_ctxs :: "('s, 't) ctx_table"
  ss_next :: nat
  ss_threads :: "stream_thread_t list"
  ss_checker :: checker
  ss_mgr :: manager

definition size_max :: nat where
  "size_max = 2 ^ 64 - 1"

definition set_handled :: "bool \<Rightarrow> nat \<Rightarrow> ('s, 't) ctx_table \<Rightarrow> ('s, 't) ctx_table" where
  "set_handled b a cs = map (\<lambda>(c, x). (c, if a = c then x\<lparr>sx_handled := b\<rparr> else x)) cs"

definition push_ctx :: "nat \<Rightarrow> stream_thread_t \<Rightarrow> stream_thread_t" where
  "push_ctx a th = th\<lparr>th_ctxs := th_ctxs th @ [a]\<rparr>"

text \<open>The head of the loop of a thread, under its lock; an empty queue waits there.\<close>

definition thread_pick :: "bool \<Rightarrow> stream_thread_t \<Rightarrow> stream_thread_t" where
  "thread_pick running th =
    (if \<not> running then th\<lparr>th_pc := T_dead\<rparr>
     else th\<lparr>th_processing := th_ctxs th, th_ctxs := [], th_size := length (th_ctxs th),
       th_pc := (if th_ctxs th = [] then T_top else T_run)\<rparr>)"

definition thread_next :: "stream_thread_t \<Rightarrow> stream_thread_t" where
  "thread_next th =
    (let rest = tl (th_processing th)
     in th\<lparr>th_processing := rest, th_pc := (if rest = [] then T_top else T_run)\<rparr>)"

text \<open>One step of the search in \<open>notify_work\<close>, under the lock of the thread it looks at.
  Either way the context counts as handled afterwards.\<close>

definition notify_find :: "('s, 't) streams \<Rightarrow> nat \<Rightarrow> nat list \<Rightarrow> nat \<Rightarrow> nat \<Rightarrow> nat \<Rightarrow> ('s, 't) streams" where
  "notify_find st a cs k mx mn =
    (if k < length (ss_threads st) then
       let th = ss_threads st ! k; n = th_size th
       in if n \<noteq> 0 then st\<lparr>ss_checker := S_find a cs (k + 1) (if mx < n then n else mx) (if mn > n then n else mn)\<rparr>
          else st\<lparr>ss_threads := (ss_threads st)[k := push_ctx a th], ss_ctxs := set_handled True a (ss_ctxs st),
                  ss_checker := S_check cs\<rparr>
     else st\<lparr>ss_checker := S_slow a cs 0 (if mx = mn then mx + 1 else mx)\<rparr>)"

definition notify_slow :: "('s, 't) streams \<Rightarrow> nat \<Rightarrow> nat list \<Rightarrow> nat \<Rightarrow> nat \<Rightarrow> ('s, 't) streams" where
  "notify_slow st a cs k mx =
    (if k < length (ss_threads st) then
       let th = ss_threads st ! k
       in if th_size th = mx then st\<lparr>ss_checker := S_slow a cs (k + 1) mx\<rparr>
          else st\<lparr>ss_threads := (ss_threads st)[k := push_ctx a th], ss_ctxs := set_handled True a (ss_ctxs st),
                  ss_checker := S_check cs\<rparr>
     else st\<lparr>ss_ctxs := set_handled True a (ss_ctxs st), ss_checker := S_check cs\<rparr>)"

text \<open>\<open>check_stream_contexts\<close> looks at one context.\<close>

definition check_ctx :: "('s, 't) stream_env \<Rightarrow> ('s, 't) streams \<Rightarrow> nat \<Rightarrow> nat list \<Rightarrow> ('s, 't) streams" where
  "check_ctx env st a cs =
    (case find_ctx a (ss_ctxs st) of
       None \<Rightarrow> st\<lparr>ss_checker := S_check cs\<rparr>
     | Some x \<Rightarrow>
         if sx_handled x \<or> need_handler env (ss_mgr st) x = 0 then st\<lparr>ss_checker := S_check cs\<rparr>
         else st\<lparr>ss_checker := S_find a cs 0 0 size_max\<rparr>)"

definition put_thread :: "nat \<Rightarrow> stream_thread_t \<Rightarrow> ('s, 't) streams \<Rightarrow> ('s, 't) streams" where
  "put_thread i th st = st\<lparr>ss_threads := (ss_threads st)[i := th]\<rparr>"

text \<open>Every step may find another environment, and the rest of the bot may change the
  manager in between. A step whose current context is gone would use freed memory: there is
  no rule for it, and it is shown below that it cannot happen.\<close>

inductive stream_step :: "('s, 't) streams \<Rightarrow> ('s, 't) streams \<Rightarrow> bool" where
  pick: "i < length (ss_threads st) \<Longrightarrow> ss_threads st ! i = th \<Longrightarrow> th_pc th = T_top
    \<Longrightarrow> stream_step st (put_thread i (thread_pick running th) st)"
| run: "i < length (ss_threads st) \<Longrightarrow> ss_threads st ! i = th \<Longrightarrow> th_pc th = T_run
    \<Longrightarrow> find_ctx (hd (th_processing th)) (ss_ctxs st) = Some x
    \<Longrightarrow> ctx_run env (ss_mgr st) x = Some (Inr (r, x', m', eff))
    \<Longrightarrow> stream_step st (put_thread i (th\<lparr>th_pc := (if r = 0 then T_need else T_erase)\<rparr>)
      (st\<lparr>ss_ctxs := set_ctx (hd (th_processing th)) x' (ss_ctxs st), ss_mgr := m'\<rparr>))"
| need: "i < length (ss_threads st) \<Longrightarrow> ss_threads st ! i = th \<Longrightarrow> th_pc th = T_need
    \<Longrightarrow> find_ctx (hd (th_processing th)) (ss_ctxs st) = Some x
    \<Longrightarrow> stream_step st (put_thread i
      (th\<lparr>th_pc := (if need_handler env (ss_mgr st) x = 0 then T_release else T_run)\<rparr>) st)"
| erase: "i < length (ss_threads st) \<Longrightarrow> ss_threads st ! i = th \<Longrightarrow> th_pc th = T_erase \<Longrightarrow> ss_checker st = S_idle
    \<Longrightarrow> find_ctx (hd (th_processing th)) (ss_ctxs st) = Some x
    \<Longrightarrow> erase_ctx env (sx_guild_id x) (ss_mgr st) (ss_ctxs st) = Some (cs, m', eff)
    \<Longrightarrow> stream_step st (put_thread i (thread_next th) (st\<lparr>ss_ctxs := cs, ss_mgr := m'\<rparr>))"
| release: "i < length (ss_threads st) \<Longrightarrow> ss_threads st ! i = th \<Longrightarrow> th_pc th = T_release \<Longrightarrow> ss_checker st = S_idle
    \<Longrightarrow> stream_step st (put_thread i (thread_next th)
      (st\<lparr>ss_ctxs := set_handled False (hd (th_processing th)) (ss_ctxs st)\<rparr>))"
| check_begin: "ss_checker st = S_idle \<Longrightarrow> stream_step st (st\<lparr>ss_checker := S_check (map fst (ss_ctxs st))\<rparr>)"
| check: "ss_checker st = S_check (a # cs) \<Longrightarrow> stream_step st (check_ctx env st a cs)"
| find: "ss_checker st = S_find a cs k mx mn \<Longrightarrow> stream_step st (notify_find st a cs k mx mn)"
| slow: "ss_checker st = S_slow a cs k mx \<Longrightarrow> stream_step st (notify_slow st a cs k mx)"
| check_end: "ss_checker st = S_check [] \<Longrightarrow> stream_step st (st\<lparr>ss_checker := S_idle\<rparr>)"
| submit: "ss_checker st = S_idle
    \<Longrightarrow> submit_stream_ctx env s t (ss_next st) g (ss_mgr st) (ss_ctxs st) = Some (e, cs, m', eff)
    \<Longrightarrow> stream_step st (st\<lparr>ss_ctxs := cs, ss_mgr := m', ss_next := ss_next st + 1\<rparr>)"
| other: "stream_step st (st\<lparr>ss_mgr := m'\<rparr>)"

definition streams_start :: "nat \<Rightarrow> manager \<Rightarrow> ('s, 't) streams" where
  "streams_start n m = \<lparr>ss_ctxs = [], ss_next = 0, ss_threads = replicate n thread_new,
    ss_checker = S_idle, ss_mgr = m\<rparr>"

inductive streams_reachable :: "nat \<Rightarrow> ('s, 't) streams \<Rightarrow> bool" for n where
  start: "streams_reachable n (streams_start n m)"
| step: "streams_reachable n st \<Longrightarrow> stream_step st st' \<Longrightarrow> streams_reachable n st'"

section \<open>Facts of the table\<close>

lemma find_ctx_iff: "distinct (map fst cs) \<Longrightarrow> find_ctx a cs = Some x \<longleftrightarrow> (a, x) \<in> set cs"
  by (induction cs) (auto simp: rev_image_eqI split: if_splits)

lemma find_ctx_None: "find_ctx a cs = None \<longleftrightarrow> a \<notin> fst ` set cs"
  by (induction cs) (auto split: if_splits)

lemma find_set_ctx: "find_ctx b (set_ctx a x cs) = (if b = a then map_option (\<lambda>_. x) (find_ctx b cs) else find_ctx b cs)"
  by (induction cs) (auto simp: set_ctx_def)

lemma find_set_handled:
  "find_ctx b (set_handled h a cs) = map_option (\<lambda>x. if b = a then x\<lparr>sx_handled := h\<rparr> else x) (find_ctx b cs)"
  by (induction cs) (auto simp: set_handled_def)

lemma fst_set_ctx [simp]: "map fst (set_ctx a x cs) = map fst cs" "map fst (set_handled h a cs) = map fst cs"
  by (auto simp: set_ctx_def set_handled_def)

abbreviation guilds :: "('s, 't) ctx_table \<Rightarrow> snowflake list" where
  "guilds cs \<equiv> map (\<lambda>(a, x). sx_guild_id x) cs"

lemma guilds_set_handled [simp]: "guilds (set_handled h a cs) = guilds cs"
  by (auto simp: set_handled_def)

lemma guilds_set_ctx:
  "(\<And>y. (a, y) \<in> set cs \<Longrightarrow> sx_guild_id y = sx_guild_id x) \<Longrightarrow> guilds (set_ctx a x cs) = guilds cs"
  by (auto simp: set_ctx_def)

lemma find_ctx_append: "find_ctx a (cs @ ds) = (case find_ctx a cs of None \<Rightarrow> find_ctx a ds | Some x \<Rightarrow> Some x)"
  by (induction cs) auto

lemma find_ctx_filter: "find_ctx b (filter (\<lambda>p. fst p \<noteq> a) cs) = (if b = a then None else find_ctx b cs)"
  by (induction cs) auto

lemma erase_ctx_filter:
  assumes "erase_ctx env (sx_guild_id x) m cs = Some (cs', m', eff)" and "(a, x) \<in> set cs"
    and "distinct (map fst cs)" and "distinct (guilds cs)"
  shows "cs' = filter (\<lambda>p. fst p \<noteq> a) cs"
  using assms
proof (induction cs arbitrary: cs' m' eff)
  case (Cons c cs)
  obtain b y where c: "c = (b, y)" by (metis surj_pair)
  show ?case
  proof (cases "sx_guild_id y = sx_guild_id x")
    case True
    have "b = a"
    proof (rule ccontr)
      assume "b \<noteq> a"
      then have "sx_guild_id x \<in> set (guilds cs)" using Cons.prems(2) c by force
      then show False using Cons.prems(4) c True by simp
    qed
    then show ?thesis using Cons.prems True c by (auto intro!: filter_True [symmetric])
  next
    case False
    then obtain cs1 m1 eff1 where "erase_ctx env (sx_guild_id x) m cs = Some (cs1, m1, eff1)" "cs' = (b, y) # cs1"
      using Cons.prems(1) c by auto
    then show ?thesis using Cons.IH Cons.prems(2-4) c False by (auto simp: image_iff)
  qed
qed simp

lemma bind_SomeE:
  assumes "Option.bind x f = Some b" obtains a where "x = Some a" and "f a = Some b"
  using assms by (cases x) auto

lemma send_packet_frame:
  "send_packet env b p x = (e, x', eff) \<Longrightarrow> sx_guild_id x' = sx_guild_id x \<and> sx_handled x' = sx_handled x"
  by (auto simp: send_packet_def send_audio_routine_def Let_def split: if_split_asm)

lemma ctx_run_frame:
  "ctx_run env m x = Some (Inr (r, x', m', eff)) \<Longrightarrow> sx_guild_id x' = sx_guild_id x \<and> sx_handled x' = sx_handled x"
  by (auto simp: ctx_run_def Let_def elim!: bind_SomeE dest!: send_packet_frame
      split: if_split_asm option.split_asm sum.split_asm prod.split_asm)

lemma ctx_init_frame:
  "ctx_init env x m = Some (e, x', m', eff) \<Longrightarrow> sx_guild_id x' = sx_guild_id x \<and> \<not> sx_handled x'"
  by (auto simp: ctx_init_def Let_def split: if_split_asm option.split_asm sum.split_asm prod.split_asm cpp_error.split_asm)

lemma submit_stream_ctx_cases:
  assumes "submit_stream_ctx env s t a g m cs = Some (e, cs', m', eff)"
  obtains "cs' = cs" | x where "cs' = cs @ [(a, x)]" and "sx_guild_id x = g" and "\<not> sx_handled x" and "g \<notin> set (guilds cs)"
proof -
  consider "cs' = cs" | x where "cs' = cs @ [(a, x)]" "ctx_init env (stream_ctx_new env g s t) m = Some (None, x, m', eff)"
      "\<not> list_ex (\<lambda>(_, x). sx_guild_id x = g) cs"
    using assms by (auto simp: submit_stream_ctx_def split: if_split_asm option.split_asm prod.split_asm)
  then show ?thesis
  proof cases
    case (2 x)
    then show ?thesis using that(2) ctx_init_frame [OF 2(2)]
      by (force simp: stream_ctx_new_def list_ex_iff)
  qed (use that in blast)
qed

section \<open>Who holds a context\<close>

abbreviation items :: "stream_thread_t \<Rightarrow> nat list" where
  "items th \<equiv> th_processing th @ th_ctxs th"

definition held :: "stream_thread_t list \<Rightarrow> nat list" where
  "held ths = concat (map items ths)"

lemma held_at:
  assumes "i < length ths"
  obtains l r where "\<And>th. held (ths[i := th]) = l @ items th @ r" and "held ths = l @ items (ths ! i) @ r"
proof -
  have u: "held (ths[i := th]) = held (take i ths) @ items th @ held (drop (Suc i) ths)" for th
    using assms by (simp add: upd_conv_take_nth_drop held_def)
  moreover have "held ths = held (take i ths) @ items (ths ! i) @ held (drop (Suc i) ths)"
    using u [of "ths ! i"] by simp
  ultimately show thesis by (rule that)
qed

lemma hd_held:
  assumes "i < length ths" and "ths ! i = th" and "th_processing th \<noteq> []"
  shows "hd (th_processing th) \<in> set (held ths)"
proof -
  obtain l r where "held ths = l @ items th @ r" using held_at [OF assms(1)] assms(2) by metis
  then show ?thesis using assms(3) by simp
qed

definition thread_ok :: "stream_thread_t \<Rightarrow> bool" where
  "thread_ok th \<longleftrightarrow> (th_processing th = [] \<longleftrightarrow> th_pc th \<in> {T_top, T_dead})"

fun checker_ok :: "('s, 't) ctx_table \<Rightarrow> checker \<Rightarrow> bool" where
  "checker_ok cs S_idle = True"
| "checker_ok cs (S_check as) = True"
| "checker_ok cs (S_find a as k mx mn) = (\<exists>x. find_ctx a cs = Some x \<and> \<not> sx_handled x)"
| "checker_ok cs (S_slow a as k mx) = (\<exists>x. find_ctx a cs = Some x \<and> \<not> sx_handled x)"

definition handled_in :: "('s, 't) ctx_table \<Rightarrow> nat \<Rightarrow> bool" where
  "handled_in cs a \<longleftrightarrow> (\<exists>x. find_ctx a cs = Some x \<and> sx_handled x)"

definition streams_ok :: "('s, 't) streams \<Rightarrow> bool" where
  "streams_ok st \<longleftrightarrow> distinct (map fst (ss_ctxs st)) \<and> list_all (\<lambda>(a, _). a < ss_next st) (ss_ctxs st)
    \<and> distinct (guilds (ss_ctxs st)) \<and> distinct (held (ss_threads st))
    \<and> list_all (handled_in (ss_ctxs st)) (held (ss_threads st))
    \<and> list_all thread_ok (ss_threads st) \<and> checker_ok (ss_ctxs st) (ss_checker st)"

section \<open>Every step keeps the invariant\<close>

lemma put_thread_ok:
  assumes "streams_ok st" and "i < length (ss_threads st)" and "thread_ok th" and "items th = items (ss_threads st ! i)"
  shows "streams_ok (put_thread i th st)"
proof -
  obtain l r where h: "\<And>th. held ((ss_threads st)[i := th]) = l @ items th @ r"
    "held (ss_threads st) = l @ items (ss_threads st ! i) @ r" using held_at [OF assms(2)] by metis
  have "held ((ss_threads st)[i := th]) = held (ss_threads st)" using h assms(4) by simp
  moreover have "list_all thread_ok ((ss_threads st)[i := th])"
    using assms(1,3) set_update_subset_insert [of "ss_threads st" i th] by (auto simp: streams_ok_def list_all_iff)
  ultimately show ?thesis using assms(1) by (simp add: streams_ok_def put_thread_def)
qed

lemma streams_ok_mgr: "streams_ok (st\<lparr>ss_mgr := m\<rparr>) = streams_ok st"
  by (simp add: streams_ok_def)

lemma streams_ok_set_ctx:
  assumes "streams_ok st" and "find_ctx a (ss_ctxs st) = Some x"
    and "sx_guild_id x' = sx_guild_id x" and "sx_handled x' = sx_handled x"
  shows "streams_ok (st\<lparr>ss_ctxs := set_ctx a x' (ss_ctxs st)\<rparr>)"
proof -
  let ?cs = "set_ctx a x' (ss_ctxs st)"
  have d: "distinct (map fst (ss_ctxs st))" using assms(1) by (simp add: streams_ok_def)
  have same: "\<exists>y'. find_ctx b ?cs = Some y' \<and> sx_handled y' = sx_handled y" if "find_ctx b (ss_ctxs st) = Some y" for b y
    using that assms by (auto simp: find_set_ctx)
  have "handled_in (ss_ctxs st) b \<Longrightarrow> handled_in ?cs b" for b using same by (fastforce simp: handled_in_def)
  then have "list_all (handled_in ?cs) (held (ss_threads st))" using assms(1) by (auto simp: streams_ok_def list_all_iff)
  moreover have "checker_ok ?cs (ss_checker st)"
    using assms(1) same by (cases "ss_checker st") (fastforce simp: streams_ok_def)+
  moreover have "guilds ?cs = guilds (ss_ctxs st)"
  proof (rule guilds_set_ctx)
    fix y assume "(a, y) \<in> set (ss_ctxs st)"
    then have "y = x" using assms(2) find_ctx_iff [OF d] by (metis option.inject)
    then show "sx_guild_id y = sx_guild_id x'" using assms(3) by simp
  qed
  moreover have "list_all (\<lambda>(a, _). a < ss_next st) ?cs"
    using assms(1) by (auto simp: streams_ok_def list_all_iff set_ctx_def)
  ultimately show ?thesis using assms(1) by (simp add: streams_ok_def)
qed

text \<open>A thread that is done with its current context: only that entry of the table changed.\<close>

lemma thread_next_ok:
  assumes "streams_ok st" and "i < length (ss_threads st)" and "ss_threads st ! i = th" and "th_processing th \<noteq> []"
    and "ss_checker st = S_idle" and "\<And>b. b \<noteq> hd (th_processing th) \<Longrightarrow> find_ctx b cs = find_ctx b (ss_ctxs st)"
    and "distinct (map fst cs)" and "distinct (guilds cs)" and "list_all (\<lambda>(a, _). a < ss_next st) cs"
  shows "streams_ok (put_thread i (thread_next th) (st\<lparr>ss_ctxs := cs, ss_mgr := m\<rparr>))"
proof -
  obtain l r where h: "\<And>th. held ((ss_threads st)[i := th]) = l @ items th @ r"
    "held (ss_threads st) = l @ items th @ r" using held_at [OF assms(2)] assms(3) by metis
  obtain a ps where ps: "th_processing th = a # ps" using assms(4) by (cases "th_processing th") auto
  have new: "held ((ss_threads st)[i := thread_next th]) = l @ ps @ th_ctxs th @ r"
    using h(1) [of "thread_next th"] ps by (simp add: thread_next_def Let_def)
  have "distinct (held (ss_threads st))" "list_all (handled_in (ss_ctxs st)) (held (ss_threads st))"
    using assms(1) by (simp_all add: streams_ok_def)
  then have "distinct (l @ ps @ th_ctxs th @ r) \<and> a \<notin> set (l @ ps @ th_ctxs th @ r)
    \<and> list_all (handled_in (ss_ctxs st)) (l @ ps @ th_ctxs th @ r)"
    unfolding h(2) ps by auto
  moreover from this have "list_all (handled_in cs) (l @ ps @ th_ctxs th @ r)"
    using assms(6) ps unfolding list_all_iff handled_in_def by (metis list.sel(1))
  moreover have "thread_ok (thread_next th)" by (simp add: thread_ok_def thread_next_def Let_def)
  then have "list_all thread_ok ((ss_threads st)[i := thread_next th])"
    using assms(1) set_update_subset_insert [of "ss_threads st" i "thread_next th"]
    by (auto simp: streams_ok_def list_all_iff)
  ultimately show ?thesis using assms(5,7-9) new by (simp add: streams_ok_def put_thread_def)
qed

text \<open>Giving an unhandled context to a thread.\<close>

lemma handled_in_set_handled: "handled_in (set_handled True a cs) b \<longleftrightarrow> handled_in cs b \<or> b = a \<and> find_ctx a cs \<noteq> None"
  by (cases "find_ctx b cs") (auto simp: handled_in_def find_set_handled)

lemma push_ok:
  assumes "streams_ok st" and "find_ctx a (ss_ctxs st) = Some x" and "\<not> sx_handled x"
    and "ths = ss_threads st \<or> (\<exists>k < length (ss_threads st). ths = (ss_threads st)[k := push_ctx a (ss_threads st ! k)])"
  shows "streams_ok (st\<lparr>ss_threads := ths, ss_ctxs := set_handled True a (ss_ctxs st), ss_checker := S_check cs\<rparr>)"
proof -
  let ?h = "held (ss_threads st)" and ?cs = "set_handled True a (ss_ctxs st)"
  have ok: "distinct ?h" "list_all (handled_in (ss_ctxs st)) ?h" "list_all thread_ok (ss_threads st)"
    "list_all (\<lambda>(a, _). a < ss_next st) (ss_ctxs st)"
    using assms(1) by (simp_all add: streams_ok_def)
  have a: "a \<notin> set ?h" using ok(2) assms(2,3) by (auto simp: list_all_iff handled_in_def)
  have "distinct (held ths) \<and> list_all (handled_in ?cs) (held ths) \<and> list_all thread_ok ths"
    using assms(4)
  proof (elim disjE exE conjE)
    assume "ths = ss_threads st"
    then show ?thesis using ok by (auto simp: list_all_iff handled_in_set_handled)
  next
    fix k assume k: "k < length (ss_threads st)" "ths = (ss_threads st)[k := push_ctx a (ss_threads st ! k)]"
    obtain l r where h: "\<And>th. held ((ss_threads st)[k := th]) = l @ items th @ r"
      "?h = l @ items (ss_threads st ! k) @ r" using held_at [OF k(1)] by metis
    have n: "held ths = l @ items (ss_threads st ! k) @ a # r" using h(1) k(2) by (simp add: push_ctx_def)
    have "thread_ok (push_ctx a (ss_threads st ! k))"
      using ok(3) k(1) by (simp add: thread_ok_def push_ctx_def list_all_length)
    then have "list_all thread_ok ths"
      using ok(3) set_update_subset_insert [of "ss_threads st" k] k(2) by (fastforce simp: list_all_iff)
    moreover have "distinct (held ths)" using ok(1) a unfolding n h(2) by auto
    moreover have "list_all (handled_in ?cs) (held ths)"
      using ok(2) assms(2) unfolding n h(2) by (auto simp: list_all_iff handled_in_set_handled)
    ultimately show ?thesis by simp
  qed
  moreover have "list_all (\<lambda>(a, _). a < ss_next st) ?cs" using ok(4) by (auto simp: list_all_iff set_handled_def)
  ultimately show ?thesis using assms(1) by (simp add: streams_ok_def)
qed

lemma notify_find_ok:
  assumes "streams_ok st" and "ss_checker st = S_find a cs k mx mn"
  shows "streams_ok (notify_find st a cs k mx mn)"
proof -
  obtain x where "find_ctx a (ss_ctxs st) = Some x" "\<not> sx_handled x" using assms by (auto simp: streams_ok_def)
  then show ?thesis using assms(1) push_ok [OF assms(1), of a x "(ss_threads st)[k := push_ctx a (ss_threads st ! k)]"]
    by (auto simp: notify_find_def Let_def) (auto simp: streams_ok_def)
qed

lemma notify_slow_ok:
  assumes "streams_ok st" and "ss_checker st = S_slow a cs k mx"
  shows "streams_ok (notify_slow st a cs k mx)"
proof -
  obtain x where "find_ctx a (ss_ctxs st) = Some x" "\<not> sx_handled x" using assms by (auto simp: streams_ok_def)
  then show ?thesis using assms(1) push_ok [OF assms(1), of a x "(ss_threads st)[k := push_ctx a (ss_threads st ! k)]"]
      push_ok [OF assms(1), of a x "ss_threads st"]
    by (auto simp: notify_slow_def Let_def) (auto simp: streams_ok_def)
qed

lemma streams_ok_start: "streams_ok (streams_start n m)"
proof -
  have "held (replicate n thread_new) = []" by (induction n) (simp_all add: held_def thread_new_def)
  then show ?thesis by (simp add: streams_ok_def streams_start_def thread_ok_def thread_new_def list_all_iff)
qed

lemma thread_okD: "streams_ok st \<Longrightarrow> i < length (ss_threads st) \<Longrightarrow> thread_ok (ss_threads st ! i)"
  by (simp add: streams_ok_def list_all_length)

lemma submit_ok:
  assumes "streams_ok st" and "ss_checker st = S_idle"
    and "submit_stream_ctx env s t (ss_next st) g (ss_mgr st) (ss_ctxs st) = Some (e, cs, m', eff)"
  shows "streams_ok (st\<lparr>ss_ctxs := cs, ss_mgr := m', ss_next := ss_next st + 1\<rparr>)"
  using assms(3)
proof (cases rule: submit_stream_ctx_cases)
  case 1
  then show ?thesis using assms(1,2) by (auto simp: streams_ok_def list_all_iff)
next
  case (2 x)
  have new: "ss_next st \<notin> fst ` set (ss_ctxs st)" using assms(1) by (force simp: streams_ok_def list_all_iff)
  have "handled_in (ss_ctxs st) a \<Longrightarrow> handled_in cs a" for a by (auto simp: handled_in_def 2(1) find_ctx_append)
  then show ?thesis using assms(1,2) 2 new
    by (auto simp: streams_ok_def list_all_iff less_SucI)
qed

lemma stream_step_ok: "stream_step st st' \<Longrightarrow> streams_ok st \<Longrightarrow> streams_ok st'"
proof (induction rule: stream_step.induct)
  case (pick i st th running)
  have "th_processing th = []" using thread_okD [OF pick.prems pick.hyps(1)] pick.hyps by (simp add: thread_ok_def)
  then show ?case using pick put_thread_ok [OF pick.prems pick.hyps(1), of "thread_pick running th"]
    by (simp add: thread_pick_def thread_ok_def)
next
  case (run i st th x env r x' m' eff)
  let ?st = "st\<lparr>ss_ctxs := set_ctx (hd (th_processing th)) x' (ss_ctxs st)\<rparr>"
  have "streams_ok ?st" using streams_ok_set_ctx [OF run.prems run.hyps(4)] ctx_run_frame [OF run.hyps(5)] by simp
  then have ok: "streams_ok (?st\<lparr>ss_mgr := m'\<rparr>)" by (simp add: streams_ok_mgr)
  have "th_processing th \<noteq> []" using thread_okD [OF run.prems run.hyps(1)] run.hyps(2,3) by (simp add: thread_ok_def)
  then show ?case using put_thread_ok [OF ok, of i "th\<lparr>th_pc := (if r = 0 then T_need else T_erase)\<rparr>"] run.hyps(1,2)
    by (simp add: thread_ok_def)
next
  case (need i st th x env)
  have "th_processing th \<noteq> []" using thread_okD [OF need.prems need.hyps(1)] need.hyps(2,3) by (simp add: thread_ok_def)
  then show ?case
    using put_thread_ok [OF need.prems need.hyps(1),
        of "th\<lparr>th_pc := (if need_handler env (ss_mgr st) x = 0 then T_release else T_run)\<rparr>"] need.hyps(2)
    by (simp add: thread_ok_def)
next
  case (erase i st th x env cs m' eff)
  let ?a = "hd (th_processing th)"
  have ne: "th_processing th \<noteq> []" using thread_okD [OF erase.prems erase.hyps(1)] erase.hyps(2,3) by (simp add: thread_ok_def)
  have ok: "distinct (map fst (ss_ctxs st))" "distinct (guilds (ss_ctxs st))" "list_all (\<lambda>(a, _). a < ss_next st) (ss_ctxs st)"
    using erase.prems by (simp_all add: streams_ok_def)
  have cs: "cs = filter (\<lambda>p. fst p \<noteq> ?a) (ss_ctxs st)"
    using erase_ctx_filter [OF erase.hyps(6) _ ok(1,2)] find_ctx_iff [OF ok(1)] erase.hyps(5) by blast
  have "distinct (map fst cs)" "distinct (guilds cs)" "list_all (\<lambda>(a, _). a < ss_next st) cs"
    using ok unfolding cs by (auto simp: distinct_map_filter list_all_iff)
  moreover have "find_ctx b cs = find_ctx b (ss_ctxs st)" if "b \<noteq> ?a" for b using that by (simp add: cs find_ctx_filter)
  ultimately show ?case using thread_next_ok [OF erase.prems erase.hyps(1,2) ne erase.hyps(4)] by blast
next
  case (release i st th)
  have ne: "th_processing th \<noteq> []" using thread_okD [OF release.prems release.hyps(1)] release.hyps(2,3) by (simp add: thread_ok_def)
  let ?cs = "set_handled False (hd (th_processing th)) (ss_ctxs st)"
  have "find_ctx b ?cs = find_ctx b (ss_ctxs st)" if "b \<noteq> hd (th_processing th)" for b
    using that by (cases "find_ctx b (ss_ctxs st)") (simp_all add: find_set_handled)
  moreover have "list_all (\<lambda>(a, _). a < ss_next st) ?cs"
    using release.prems by (auto simp: streams_ok_def list_all_iff set_handled_def)
  moreover have "distinct (map fst ?cs)" "distinct (guilds ?cs)"
    using release.prems by (simp_all add: streams_ok_def)
  ultimately show ?case
    using thread_next_ok [OF release.prems release.hyps(1,2) ne release.hyps(4), of ?cs "ss_mgr st"] by simp
next
  case (check st a cs env)
  then show ?case by (auto simp: check_ctx_def streams_ok_def split: option.split)
next
  case (submit st env s t g e cs m' eff)
  show ?case by (rule submit_ok [OF submit.prems submit.hyps])
qed (auto simp: notify_find_ok notify_slow_ok streams_ok_mgr, auto simp: streams_ok_def)

lemma streams_reachable_ok: "streams_reachable n st \<Longrightarrow> streams_ok st"
  by (induction rule: streams_reachable.induct) (blast intro: streams_ok_start stream_step_ok)+

section \<open>Properties\<close>

text \<open>C7: Streaming threads never share a context and never touch a destroyed one. In every
  interleaving of the threads, the main loop that hands out contexts, new and ending
  streams, and anything the rest of the bot does: a thread that is about to run, query or
  destroy a context has a live one, which counts as handled; no context is queued or processed
  twice, by one thread or by two; a context that does not count as handled is held by no thread;
  and each guild has one context at most.\<close>

theorem stream_contexts_owned:
  assumes "streams_reachable n st"
  shows "list_all (\<lambda>th. th_pc th \<in> {T_run, T_need, T_erase, T_release}
      \<longrightarrow> (\<exists>x. find_ctx (hd (th_processing th)) (ss_ctxs st) = Some x \<and> sx_handled x)) (ss_threads st)
    \<and> distinct (concat (map (\<lambda>th. th_processing th @ th_ctxs th) (ss_threads st)))
    \<and> distinct (map (\<lambda>(a, x). sx_guild_id x) (ss_ctxs st))
    \<and> list_all (\<lambda>(a, x). \<not> sx_handled x
      \<longrightarrow> a \<notin> set (concat (map (\<lambda>th. th_processing th @ th_ctxs th) (ss_threads st)))) (ss_ctxs st)"
proof -
  have ok: "streams_ok st" using streams_reachable_ok [OF assms] .
  then have h: "list_all (handled_in (ss_ctxs st)) (held (ss_threads st))" and d: "distinct (map fst (ss_ctxs st))"
    by (simp_all add: streams_ok_def)
  have "\<exists>x. find_ctx (hd (th_processing th)) (ss_ctxs st) = Some x \<and> sx_handled x"
    if "th \<in> set (ss_threads st)" "th_pc th \<in> {T_run, T_need, T_erase, T_release}" for th
  proof -
    have "th_processing th \<noteq> []" using ok that by (auto simp: streams_ok_def list_all_iff thread_ok_def)
    then have "hd (th_processing th) \<in> set (items th)" by simp
    then have "hd (th_processing th) \<in> set (held (ss_threads st))" using that(1) unfolding held_def by auto
    then show ?thesis using h by (auto simp: list_all_iff handled_in_def)
  qed
  moreover have "a \<notin> set (held (ss_threads st))" if "(a, x) \<in> set (ss_ctxs st)" "\<not> sx_handled x" for a x
  proof
    assume "a \<in> set (held (ss_threads st))"
    then obtain y where "find_ctx a (ss_ctxs st) = Some y" "sx_handled y" using h by (auto simp: list_all_iff handled_in_def)
    then show False using that find_ctx_iff [OF d] by (metis option.inject)
  qed
  ultimately show ?thesis using ok by (auto simp: streams_ok_def held_def [symmetric] list_all_iff)
qed

text \<open>A context that counts as handled while no thread holds it.\<close>

definition lost_ctx :: "nat \<Rightarrow> ('s, 't) streams \<Rightarrow> bool" where
  "lost_ctx a st \<longleftrightarrow> handled_in (ss_ctxs st) a \<and> a \<notin> set (held (ss_threads st))"

lemma lost_ctx_thread:
  assumes "i < length (ss_threads st)" and "set (items th) \<subseteq> set (items (ss_threads st ! i))" and "lost_ctx a st"
    and "handled_in cs a"
  shows "lost_ctx a (put_thread i th (st\<lparr>ss_ctxs := cs, ss_mgr := m\<rparr>))"
proof -
  obtain l r where "\<And>th. held ((ss_threads st)[i := th]) = l @ items th @ r"
    "held (ss_threads st) = l @ items (ss_threads st ! i) @ r" using held_at [OF assms(1)] by metis
  then show ?thesis using assms(2-4) by (auto simp: lost_ctx_def put_thread_def)
qed

lemma lost_ctx_push:
  assumes "lost_ctx a st" and "b \<noteq> a"
    and "ths = ss_threads st \<or> (\<exists>k < length (ss_threads st). ths = (ss_threads st)[k := push_ctx b (ss_threads st ! k)])"
  shows "lost_ctx a (st\<lparr>ss_threads := ths, ss_ctxs := set_handled True b (ss_ctxs st), ss_checker := ck\<rparr>)"
proof -
  have "a \<notin> set (held ths)" using assms(3)
  proof (elim disjE exE conjE)
    fix k assume k: "k < length (ss_threads st)" "ths = (ss_threads st)[k := push_ctx b (ss_threads st ! k)]"
    obtain l r where "\<And>th. held ((ss_threads st)[k := th]) = l @ items th @ r"
      "held (ss_threads st) = l @ items (ss_threads st ! k) @ r" using held_at [OF k(1)] by metis
    then show ?thesis using assms(1,2) k(2) by (auto simp: lost_ctx_def push_ctx_def)
  qed (use assms(1) in \<open>simp add: lost_ctx_def\<close>)
  then show ?thesis using assms(1) by (simp add: lost_ctx_def handled_in_set_handled)
qed

lemma lost_ctx_step:
  assumes "stream_step st st'" and "streams_ok st" and "lost_ctx a st"
  shows "lost_ctx a st'"
  using assms
proof (induction rule: stream_step.induct)
  case (pick i st th running)
  have "th_processing th = []" using thread_okD [OF pick.prems(1) pick.hyps(1)] pick.hyps by (simp add: thread_ok_def)
  then have "lost_ctx a (put_thread i (thread_pick running th) (st\<lparr>ss_ctxs := ss_ctxs st, ss_mgr := ss_mgr st\<rparr>))"
    using pick by (intro lost_ctx_thread) (auto simp: thread_pick_def lost_ctx_def)
  then show ?case by simp
next
  case (run i st th x env r x' m' eff)
  have "handled_in (set_ctx (hd (th_processing th)) x' (ss_ctxs st)) a"
    using run.prems(2) run.hyps(4) ctx_run_frame [OF run.hyps(5)] by (auto simp: lost_ctx_def handled_in_def find_set_ctx)
  then show ?case using run.hyps run.prems by (intro lost_ctx_thread) auto
next
  case (need i st th x env)
  then have "lost_ctx a (put_thread i (th\<lparr>th_pc := (if need_handler env (ss_mgr st) x = 0 then T_release else T_run)\<rparr>)
      (st\<lparr>ss_ctxs := ss_ctxs st, ss_mgr := ss_mgr st\<rparr>))"
    by (intro lost_ctx_thread) (auto simp: lost_ctx_def)
  then show ?case by simp
next
  case (erase i st th x env cs m' eff)
  let ?b = "hd (th_processing th)"
  have ne: "th_processing th \<noteq> []"
    using thread_okD [OF erase.prems(1) erase.hyps(1)] erase.hyps(2,3) by (simp add: thread_ok_def)
  have "?b \<in> set (held (ss_threads st))" using hd_held [OF erase.hyps(1,2) ne] .
  then have "?b \<noteq> a" using erase.prems(2) by (auto simp: lost_ctx_def)
  have ok: "distinct (map fst (ss_ctxs st))" "distinct (guilds (ss_ctxs st))" using erase.prems(1) by (simp_all add: streams_ok_def)
  have "cs = filter (\<lambda>p. fst p \<noteq> ?b) (ss_ctxs st)"
    using erase_ctx_filter [OF erase.hyps(6) _ ok] find_ctx_iff [OF ok(1)] erase.hyps(5) by blast
  then have "handled_in cs a" using erase.prems(2) \<open>?b \<noteq> a\<close> by (auto simp: lost_ctx_def handled_in_def find_ctx_filter)
  then show ?case using erase.hyps(1,2) erase.prems(2) ne
    by (intro lost_ctx_thread) (auto simp: thread_next_def Let_def dest: list.set_sel(2))
next
  case (release i st th)
  let ?b = "hd (th_processing th)"
  have ne: "th_processing th \<noteq> []"
    using thread_okD [OF release.prems(1) release.hyps(1)] release.hyps(2,3) by (simp add: thread_ok_def)
  have "?b \<in> set (held (ss_threads st))" using hd_held [OF release.hyps(1,2) ne] .
  then have "?b \<noteq> a" using release.prems(2) by (auto simp: lost_ctx_def)
  then have "handled_in (set_handled False ?b (ss_ctxs st)) a"
    using release.prems(2) by (auto simp: lost_ctx_def handled_in_def find_set_handled)
  then have "lost_ctx a (put_thread i (thread_next th)
      (st\<lparr>ss_ctxs := set_handled False ?b (ss_ctxs st), ss_mgr := ss_mgr st\<rparr>))"
    using release.hyps(1,2) release.prems(2) ne
    by (intro lost_ctx_thread) (auto simp: thread_next_def Let_def dest: list.set_sel(2))
  then show ?case by simp
next
  case (find st b cs k mx mn)
  then have "b \<noteq> a" by (auto simp: streams_ok_def lost_ctx_def handled_in_def)
  then show ?case
    using find.prems(2) lost_ctx_push [OF find.prems(2), of b "(ss_threads st)[k := push_ctx b (ss_threads st ! k)]"]
    by (auto simp: notify_find_def Let_def) (auto simp: lost_ctx_def)
next
  case (slow st b cs k mx)
  then have "b \<noteq> a" by (auto simp: streams_ok_def lost_ctx_def handled_in_def)
  then show ?case
    using slow.prems(2) lost_ctx_push [OF slow.prems(2), of b "(ss_threads st)[k := push_ctx b (ss_threads st ! k)]"]
      lost_ctx_push [OF slow.prems(2), of b "ss_threads st"]
    by (auto simp: notify_slow_def Let_def) (auto simp: lost_ctx_def)
next
  case (submit st env s t g e cs m' eff)
  from submit.hyps(2) show ?case
    by (cases rule: submit_stream_ctx_cases)
      (use submit.prems(2) in \<open>auto simp: lost_ctx_def handled_in_def find_ctx_append\<close>)
qed (auto simp: lost_ctx_def check_ctx_def split: option.split)

lemma lost_ctx_forever:
  assumes "stream_step\<^sup>*\<^sup>* st st'" and "streams_ok st" and "lost_ctx a st"
  shows "lost_ctx a st'"
  using assms
proof (induction rule: rtranclp_induct)
  case (step y z)
  have "streams_ok y" using step.hyps(1) assms(2) by (induction rule: rtranclp_induct) (auto intro: stream_step_ok)
  then show ?case using lost_ctx_step step by blast
qed

section \<open>A run that loses a context\<close>

text \<open>Encoder calls that all succeed, and a bot without voice connections where every guild
  has a player.\<close>

definition demo_encoder :: "unit en_api" where
  "demo_encoder = \<lparr>en_alloc_output = (\<lambda>s. (True, s)), en_has_audio_codec = (\<lambda>s. True), en_find_encoder = (\<lambda>s. True),
    en_alloc_packet = (\<lambda>s. (True, s)), en_new_stream = (\<lambda>s. (True, s)), en_alloc_context = (\<lambda>s. (True, s)),
    en_sample_formats = (\<lambda>s. (0, s)), en_set_params = (\<lambda>b r s. s), en_set_option = (\<lambda>k v s. s),
    en_open = (\<lambda>s. (0, s)), en_variable_frame_size = (\<lambda>s. False), en_frame_size = (\<lambda>s. 2880),
    en_alloc_frame = (\<lambda>n s. (True, s)), en_copy_params = (\<lambda>s. (0, s)), en_alloc_resampler = (\<lambda>s. (True, s)),
    en_init_resampler = (\<lambda>s. (0, s)), en_alloc_buffer = (\<lambda>n s. (True, s)), en_alloc_io = (\<lambda>s. (True, s)),
    en_receive_packet = (\<lambda>s. (0, [1], s)), en_write_header = (\<lambda>s. (0, s)), en_delay = (\<lambda>s. 0),
    en_make_writable = (\<lambda>s. (0, s)), en_convert = (\<lambda>f n s. (n, s)), en_send_frame = (\<lambda>p s. (0, s)),
    en_write_frame = (\<lambda>p s. (0, s)), en_write_trailer = (\<lambda>s. s), en_destroy = (\<lambda>s. s)\<rparr>"

definition demo_env :: "(demo, unit) stream_env" where
  "demo_env = \<lparr>se_av = demo_api 0, se_en = demo_encoder, se_yt = sample_yt,
    se_dv = sample_view\<lparr>dv_voice := (\<lambda>s. Map.empty)\<rparr>, se_running = True, se_buffer_size = fl_1,
    se_file_opens = (\<lambda>f. True), se_can_send = False, se_ret = 0, se_high = 0\<rparr>"

definition all_players :: manager where
  "all_players = manager_init\<lparr>mg_players := (\<lambda>g. Some (guild_player_new g 2))\<rparr>"

abbreviation demo_lib :: demo where
  "demo_lib \<equiv> dec_lib (demo_decoder [])"

lemma all_players_simps [simp]:
  "get_player g all_players = Some (guild_player_new g 2)" "\<not> is_waiting_vc_ready g all_players"
  by (simp_all add: all_players_def get_player_def manager_init_def is_waiting_vc_ready_def)

lemma demo_no_client [simp]: "get_voice_client (se_dv demo_env) p = None"
  by (simp add: demo_env_def get_voice_client_def get_voice_conn_def)

lemma demo_init:
  "\<exists>x m eff. ctx_init demo_env (stream_ctx_new demo_env g demo_lib ()) all_players = Some (None, x, m, eff)"
  by (simp add: ctx_init_def stream_ctx_new_def demo_env_def decoder_new_def demo_api_def is_valid_def Let_def
      open_file_def open_input_file_def init_filters_def reset_filters_def set_filter_descr_def build_graph_def
      codec_init_def stream_codec_new_def demo_encoder_def add_stream_def or_fail_def open_audio_def setup_io_context_def
      track_check_for_seek_to_def guild_player_new_def player_init_def MCTrack_default_def track_init_def)

lemma demo_need: "need_handler demo_env all_players x = - 1"
  by (simp add: need_handler_def)

lemma demo_run: "\<exists>x'. ctx_run demo_env all_players x = Some (Inr (- 1, x', all_players, []))"
  by (simp add: ctx_run_def client_usable_def Let_def)

lemma demo_end: "\<exists>r x' m eff. ctx_end demo_env all_players x = Some (r, x', m, eff)"
  by (simp add: ctx_end_def Let_def demo_env_def [THEN arg_cong [of _ _ se_can_send], simplified] done_streaming_def
      split: prod.split)

type_synonym demo_table = "(demo, unit) ctx_table"

abbreviation demo_state :: "demo_table \<Rightarrow> nat \<Rightarrow> stream_thread_t \<Rightarrow> checker \<Rightarrow> (demo, unit) streams" where
  "demo_state cs n th ck \<equiv> \<lparr>ss_ctxs = cs, ss_next = n, ss_threads = [th], ss_checker = ck, ss_mgr = all_players\<rparr>"

abbreviation demo_thread where
  "demo_thread ps qs n pc \<equiv> \<lparr>th_processing = ps, th_ctxs = qs, th_size = n, th_pc = pc\<rparr>"

text \<open>Steps of a bot with one thread; the manager is put back after each.\<close>

lemma mgr_back:
  assumes "stream_step st st'" and "st'\<lparr>ss_mgr := m\<rparr> = st''"
  shows "stream_step\<^sup>*\<^sup>* st st''"
  using assms stream_step.other [of st' m] by (metis converse_rtranclp_into_rtranclp rtranclp.rtrancl_refl)

lemma demo_submit:
  assumes "g \<notin> set (guilds cs)"
  shows "\<exists>x. sx_guild_id x = g \<and> \<not> sx_handled x
    \<and> stream_step\<^sup>*\<^sup>* (demo_state cs n th S_idle) (demo_state (cs @ [(n, x)]) (n + 1) th S_idle)"
proof -
  obtain x m eff where i: "ctx_init demo_env (stream_ctx_new demo_env g demo_lib ()) all_players = Some (None, x, m, eff)"
    using demo_init by blast
  have "\<not> list_ex (\<lambda>(_, x). sx_guild_id x = g) cs" using assms by (force simp: list_ex_iff)
  then have sub: "submit_stream_ctx demo_env demo_lib () n g all_players cs = Some (None, cs @ [(n, x)], m, eff)"
    by (simp add: submit_stream_ctx_def i)
  have "stream_step\<^sup>*\<^sup>* (demo_state cs n th S_idle) (demo_state (cs @ [(n, x)]) (n + 1) th S_idle)"
    by (rule mgr_back [OF stream_step.submit [where env = demo_env and s = demo_lib and t = "()" and g = g], of _ None "cs @ [(n, x)]" m eff])
      (simp_all add: sub)
  then show ?thesis using ctx_init_frame [OF i] by (auto simp: stream_ctx_new_def)
qed

lemma demo_steps:
  "stream_step (demo_state cs n th S_idle) (demo_state cs n th (S_check (map fst cs)))"
  "stream_step (demo_state cs n th (S_check [])) (demo_state cs n th S_idle)"
  "find_ctx a cs = Some x \<Longrightarrow> \<not> sx_handled x
    \<Longrightarrow> stream_step (demo_state cs n th (S_check (a # as))) (demo_state cs n th (S_find a as 0 0 size_max))"
  "th_size th = 0 \<Longrightarrow> stream_step (demo_state cs n th (S_find a as 0 mx mn))
    (demo_state (set_handled True a cs) n (push_ctx a th) (S_check as))"
  "th_size th = 1 \<Longrightarrow> stream_step (demo_state cs n th (S_find a as 0 0 size_max)) (demo_state cs n th (S_find a as 1 1 1))"
  "stream_step (demo_state cs n th (S_find a as 1 1 1)) (demo_state cs n th (S_slow a as 0 2))"
  "th_size th = 1 \<Longrightarrow> stream_step (demo_state cs n th (S_slow a as 0 2))
    (demo_state (set_handled True a cs) n (push_ctx a th) (S_check as))"
  "th_size th = 2 \<Longrightarrow> stream_step (demo_state cs n th (S_slow a as 0 2)) (demo_state cs n th (S_slow a as 1 2))"
  "stream_step (demo_state cs n th (S_slow a as 1 2)) (demo_state (set_handled True a cs) n th (S_check as))"
  "th_pc th = T_top \<Longrightarrow> stream_step (demo_state cs n th ck) (demo_state cs n (thread_pick True th) ck)"
  subgoal using stream_step.check_begin [of "demo_state cs n th S_idle"] by simp
  subgoal using stream_step.check_end [of "demo_state cs n th (S_check [])"] by simp
  subgoal using stream_step.check [of "demo_state cs n th (S_check (a # as))" a as demo_env]
    by (simp add: check_ctx_def demo_need)
  subgoal using stream_step.find [of "demo_state cs n th (S_find a as 0 mx mn)" a as 0 mx mn]
    by (simp add: notify_find_def)
  subgoal using stream_step.find [of "demo_state cs n th (S_find a as 0 0 size_max)" a as 0 0 size_max]
    by (simp add: notify_find_def size_max_def)
  subgoal using stream_step.find [of "demo_state cs n th (S_find a as 1 1 1)" a as 1 1 1]
    by (simp add: notify_find_def numeral_2_eq_2)
  subgoal using stream_step.slow [of "demo_state cs n th (S_slow a as 0 2)" a as 0 2]
    by (simp add: notify_slow_def)
  subgoal using stream_step.slow [of "demo_state cs n th (S_slow a as 0 2)" a as 0 2]
    by (simp add: notify_slow_def)
  subgoal using stream_step.slow [of "demo_state cs n th (S_slow a as 1 2)" a as 1 2]
    by (simp add: notify_slow_def)
  subgoal using stream_step.pick [of 0 "demo_state cs n th ck" th True]
    by (simp add: put_thread_def)
  done

text \<open>The only context runs, has no voice client, and is destroyed; the size of the thread stays 1.\<close>

lemma demo_finish:
  assumes "sx_guild_id x = g"
  shows "stream_step\<^sup>*\<^sup>* (demo_state [(0, x)] 1 (demo_thread [0] [] 1 T_run) S_idle)
    (demo_state [] 1 (demo_thread [] [] 1 T_top) S_idle)"
proof -
  obtain x' where r: "ctx_run demo_env all_players x = Some (Inr (- 1, x', all_players, []))" using demo_run by blast
  obtain ret y m eff where e: "ctx_end demo_env all_players x' = Some (ret, y, m, eff)" using demo_end by blast
  have "stream_step\<^sup>*\<^sup>* (demo_state [(0, x)] 1 (demo_thread [0] [] 1 T_run) S_idle)
      (demo_state [(0, x')] 1 (demo_thread [0] [] 1 T_erase) S_idle)"
    by (rule mgr_back [OF stream_step.run [where i = 0 and env = demo_env and x = x and r = "- 1" and x' = x'
        and m' = all_players and eff = "[]" and th = "demo_thread [0] [] 1 T_run"]])
      (simp_all add: r put_thread_def set_ctx_def)
  also have "stream_step\<^sup>*\<^sup>* \<dots> (demo_state [] 1 (demo_thread [] [] 1 T_top) S_idle)"
    by (rule mgr_back [OF stream_step.erase [where i = 0 and env = demo_env and x = x' and cs = "[]" and m' = m
        and eff = eff and th = "demo_thread [0] [] 1 T_erase"]])
      (simp_all add: e put_thread_def thread_next_def)
  finally show ?thesis .
qed

lemma streams_reachable_steps:
  "stream_step\<^sup>*\<^sup>* st st' \<Longrightarrow> streams_reachable n st \<Longrightarrow> streams_reachable n st'"
  by (induction rule: rtranclp_induct) (auto intro: streams_reachable.step)

lemmas demo_reach = demo_steps [THEN streams_reachable.step [rotated]]

lemma demo_first_stream:
  "\<exists>x. streams_reachable 1 (demo_state [(0, x)] 1 (demo_thread [0] [] 1 T_run) S_idle) \<and> sx_guild_id x = 1"
proof -
  have "streams_reachable 1 (demo_state [] 0 thread_new S_idle)"
    using streams_reachable.start [of 1 all_players] by (simp add: streams_start_def)
  then obtain x where x: "sx_guild_id x = 1" "\<not> sx_handled x"
    "streams_reachable 1 (demo_state [(0, x)] 1 thread_new S_idle)"
    using demo_submit [of 1 "[]" 0 thread_new] streams_reachable_steps by fastforce
  let ?h = "set_handled True 0 [(0, x)]"
  have "streams_reachable 1 (demo_state [(0, x)] 1 thread_new (S_check [0]))"
    using demo_reach(1) [OF x(3)] by simp
  then have "streams_reachable 1 (demo_state [(0, x)] 1 thread_new (S_find 0 [] 0 0 size_max))"
    by (rule demo_reach(3) [rotated 2, where x = x]) (use x in simp_all)
  then have "streams_reachable 1 (demo_state ?h 1 (push_ctx 0 thread_new) (S_check []))"
    by (rule demo_reach(4) [rotated]) (simp add: thread_new_def)
  then have "streams_reachable 1 (demo_state ?h 1 (push_ctx 0 thread_new) S_idle)" by (rule demo_reach(2))
  then have "streams_reachable 1 (demo_state ?h 1 (thread_pick True (push_ctx 0 thread_new)) S_idle)"
    by (rule demo_reach(10) [rotated]) (simp add: push_ctx_def thread_new_def)
  then show ?thesis using x(1) by (auto simp: push_ctx_def thread_new_def thread_pick_def set_handled_def)
qed

lemma demo_slow_push:
  assumes "streams_reachable 1 (demo_state cs n th (S_check (a # as)))" and "find_ctx a cs = Some x" and "\<not> sx_handled x"
    and "th_size th = 1"
  shows "streams_reachable 1 (demo_state (set_handled True a cs) n (push_ctx a th) (S_check as))"
proof -
  have "streams_reachable 1 (demo_state cs n th (S_find a as 0 0 size_max))"
    using assms(1) by (rule demo_reach(3) [rotated 2, where x = x]) (use assms in simp_all)
  then have "streams_reachable 1 (demo_state cs n th (S_find a as 1 1 1))" by (rule demo_reach(5) [rotated]) (rule assms(4))
  then have "streams_reachable 1 (demo_state cs n th (S_slow a as 0 2))" by (rule demo_reach(6))
  then show ?thesis by (rule demo_reach(7) [rotated]) (rule assms(4))
qed

lemma demo_loses:
  "\<exists>cs th. streams_reachable 1 (demo_state cs 4 th (S_slow 3 [] 0 (th_size th)))"
proof -
  obtain x0 where "streams_reachable 1 (demo_state [(0, x0)] 1 (demo_thread [0] [] 1 T_run) S_idle)" "sx_guild_id x0 = 1"
    using demo_first_stream by blast
  then have r0: "streams_reachable 1 (demo_state [] 1 (demo_thread [] [] 1 T_top) S_idle)"
    using demo_finish streams_reachable_steps by blast
  let ?th = "demo_thread [] [] 1 T_top"
  obtain x1 where x1: "sx_guild_id x1 = 1" "\<not> sx_handled x1"
    and "stream_step\<^sup>*\<^sup>* (demo_state [] 1 ?th S_idle) (demo_state [(1, x1)] 2 ?th S_idle)"
    using demo_submit [of 1 "[]" 1 ?th] by (auto simp: numeral_2_eq_2)
  moreover obtain x2 where x2: "sx_guild_id x2 = 2" "\<not> sx_handled x2"
    and "stream_step\<^sup>*\<^sup>* (demo_state [(1, x1)] 2 ?th S_idle) (demo_state [(1, x1), (2, x2)] 3 ?th S_idle)"
    using demo_submit [of 2 "[(1, x1)]" 2 ?th] x1 by auto
  moreover obtain x3 where x3: "sx_guild_id x3 = 3" "\<not> sx_handled x3"
    and "stream_step\<^sup>*\<^sup>* (demo_state [(1, x1), (2, x2)] 3 ?th S_idle) (demo_state [(1, x1), (2, x2), (3, x3)] 4 ?th S_idle)"
    using demo_submit [of 3 "[(1, x1), (2, x2)]" 3 ?th] x1 x2 by auto
  ultimately have "streams_reachable 1 (demo_state [(1, x1), (2, x2), (3, x3)] 4 ?th S_idle)"
    using r0 streams_reachable_steps by blast
  then have "streams_reachable 1 (demo_state [(1, x1), (2, x2), (3, x3)] 4 ?th (S_check [1, 2, 3]))"
    using demo_reach(1) by fastforce
  then have "streams_reachable 1 (demo_state (set_handled True 1 [(1, x1), (2, x2), (3, x3)]) 4 (push_ctx 1 ?th) (S_check [2, 3]))"
    by (rule demo_slow_push [where x = x1]) (use x1 in simp_all)
  then have "streams_reachable 1 (demo_state (set_handled True 2 (set_handled True 1 [(1, x1), (2, x2), (3, x3)])) 4
      (push_ctx 2 (push_ctx 1 ?th)) (S_check [3]))"
    by (rule demo_slow_push [where x = x2]) (use x2 in \<open>simp_all add: set_handled_def push_ctx_def\<close>)
  moreover define cs where "cs = set_handled True 2 (set_handled True 1 [(1, x1), (2, x2), (3, x3)])"
  moreover define th where "th = push_ctx 2 (push_ctx 1 ?th)"
  ultimately have r: "streams_reachable 1 (demo_state cs 4 th (S_check [3]))" by simp
  have th: "th_size th = 1" "th_pc th = T_top" "th_ctxs th = [1, 2]" by (simp_all add: th_def push_ctx_def)
  have c3: "find_ctx 3 cs = Some x3" by (simp add: cs_def set_handled_def)
  have "streams_reachable 1 (demo_state cs 4 th (S_find 3 [] 0 0 size_max))"
    using r by (rule demo_reach(3) [rotated 2, where x = x3]) (use c3 x3 in simp_all)
  then have "streams_reachable 1 (demo_state cs 4 th (S_find 3 [] 1 1 1))" by (rule demo_reach(5) [rotated]) (rule th)
  then have "streams_reachable 1 (demo_state cs 4 (thread_pick True th) (S_find 3 [] 1 1 1))"
    by (rule demo_reach(10) [rotated]) (rule th)
  then have "streams_reachable 1 (demo_state cs 4 (thread_pick True th) (S_slow 3 [] 0 2))" by (rule demo_reach(6))
  moreover have "th_size (thread_pick True th) = 2" by (simp add: thread_pick_def th)
  ultimately show ?thesis by metis
qed

theorem stream_contexts_owned_witness:
  "\<exists>(st :: (demo, unit) streams) x. streams_reachable 1 st \<and> th_pc (ss_threads st ! 0) = T_run
    \<and> find_ctx (hd (th_processing (ss_threads st ! 0))) (ss_ctxs st) = Some x \<and> sx_handled x"
proof -
  obtain x where r: "streams_reachable 1 (demo_state [(0, x)] 1 (demo_thread [0] [] 1 T_run) S_idle)"
    using demo_first_stream by blast
  then show ?thesis using stream_contexts_owned [OF r] by fastforce
qed

text \<open>C14: A stream can be lost for good. When every thread is as busy as the busiest one looked
  at the second time, the search for a thread ends without giving the context to any, but the
  context counts as handled all the same; from then on, whatever happens, it stays in the
  table, counts as handled, and no thread ever holds it: its guild goes silent, and every later
  attempt to play there fails, as the guild still has a context. (One thread and four
  streams are enough for a run that does this.)\<close>

theorem lost_stream_stays_lost:
  assumes "streams_reachable n st" and "ss_checker st = S_slow a cs k (th_size th)"
    and "length (ss_threads st) = Suc k" and "ss_threads st ! k = th"
    and "st1 = notify_slow st a cs k (th_size th)" and "st2 = notify_slow st1 a cs (Suc k) (th_size th)"
    and "stream_step\<^sup>*\<^sup>* st2 st3"
  shows "(\<exists>x. find_ctx a (ss_ctxs st3) = Some x \<and> sx_handled x
      \<and> submit_stream_ctx env s t b (sx_guild_id x) m (ss_ctxs st3) = Some (Some 3, ss_ctxs st3, m, []))
    \<and> a \<notin> set (concat (map (\<lambda>th. th_processing th @ th_ctxs th) (ss_threads st3)))"
proof -
  have ok: "streams_ok st" using streams_reachable_ok [OF assms(1)] .
  then obtain x where x: "find_ctx a (ss_ctxs st) = Some x" "\<not> sx_handled x"
    using assms(2) by (auto simp: streams_ok_def)
  have st2: "st2 = st\<lparr>ss_ctxs := set_handled True a (ss_ctxs st), ss_checker := S_check cs\<rparr>"
    using assms(3-6) by (simp add: notify_slow_def Let_def)
  have "a \<notin> set (held (ss_threads st))" using ok x by (auto simp: streams_ok_def list_all_iff handled_in_def)
  then have "lost_ctx a st2" using x by (simp add: lost_ctx_def st2 handled_in_set_handled)
  moreover have "streams_ok st2" using push_ok [OF ok x, of "ss_threads st"] by (simp add: st2)
  ultimately have "lost_ctx a st3" using lost_ctx_forever [OF assms(7)] by blast
  moreover have "find_ctx a cs = Some x \<Longrightarrow> list_ex (\<lambda>(_, y). sx_guild_id y = sx_guild_id x) cs" for x and cs :: "('a, 'b) ctx_table"
    by (induction cs) (auto split: if_splits)
  ultimately show ?thesis by (auto simp: lost_ctx_def handled_in_def held_def submit_stream_ctx_def)
qed

theorem lost_stream_stays_lost_witness:
  "\<exists>(st :: (demo, unit) streams) st3 x. streams_reachable 1 st \<and> stream_step\<^sup>*\<^sup>* st st3 \<and> ss_checker st3 = S_check []
    \<and> find_ctx 3 (ss_ctxs st3) = Some x \<and> sx_handled x \<and> 3 \<notin> set (items (ss_threads st3 ! 0))"
proof -
  obtain cs th where r: "streams_reachable 1 (demo_state cs 4 th (S_slow 3 [] 0 (th_size th)))" using demo_loses by blast
  let ?st = "demo_state cs 4 th (S_slow 3 [] 0 (th_size th))"
  let ?st1 = "notify_slow ?st 3 [] 0 (th_size th)"
  let ?st2 = "notify_slow ?st1 3 [] 1 (th_size th)"
  have steps: "stream_step ?st ?st1" "stream_step ?st1 ?st2"
    using stream_step.slow [of ?st 3 "[]" 0 "th_size th"] stream_step.slow [of ?st1 3 "[]" 1 "th_size th"]
    by (simp_all add: notify_slow_def)
  have "stream_step\<^sup>*\<^sup>* ?st ?st2"
    by (rule converse_rtranclp_into_rtranclp [OF steps(1) r_into_rtranclp [of stream_step, OF steps(2)]])
  moreover have c: "ss_checker ?st2 = S_check []" and t: "ss_threads ?st2 ! 0 = th" by (simp_all add: notify_slow_def)
  moreover have "(\<exists>x. find_ctx 3 (ss_ctxs ?st2) = Some x \<and> sx_handled x
      \<and> submit_stream_ctx demo_env demo_lib () 4 (sx_guild_id x) all_players (ss_ctxs ?st2) = Some (Some 3, ss_ctxs ?st2, all_players, []))
    \<and> 3 \<notin> set (concat (map (\<lambda>th. th_processing th @ th_ctxs th) (ss_threads ?st2)))"
    by (rule lost_stream_stays_lost [OF r, of 3 "[]" 0 th ?st1 ?st2 ?st2]) (simp_all add: numeral_2_eq_2)
  moreover have "ss_threads ?st2 = [th]" by (simp add: notify_slow_def)
  ultimately show ?thesis using r
    by (intro exI [of _ ?st] exI [of _ ?st2]) auto
qed

end
