(* ===== verification/Filters.thy ===== *)
theory Filters
  imports Complex_Main Commands
begin

text \<open>
  The filter commands: \<open>src/musicat/cmds/filters.cpp\<close> (dispatch) and the files of
  \<open>src/musicat/cmds/filters/\<close>. Each reads optional arguments, changes the effect settings of
  the guild's player and answers. A command's options are one record; a preset comes from the
  database as a parameter. The stream thread picks a change up by comparing filter descriptions
  (theory \<open>Stream\<close>). The invariant says that, whatever the commands and their arguments, the
  settings stay within the ranges that the commands announce.
\<close>

section \<open>Dispatch\<close>

fun handle_command :: "string \<Rightarrow> (string \<times> 'h) list \<Rightarrow> 'h option" where
  "handle_command name [] = None"
| "handle_command name ((n, h) # hs) = (if name \<noteq> n then handle_command name hs else Some h)"

record filter_args =
  fa_sub :: "string option"
  fa_group_sub :: "string option"
  fa_action :: "string option"
  fa_volume :: "int option"
  fa_bands :: "int option list"
  fa_rate :: "int option"
  fa_speed :: "fl option"
  fa_percentage :: "int option"
  fa_frequency :: "fl option"
  fa_intensity :: "int option"
  fa_name :: "string option"
  fa_user_id :: snowflake
  fa_create_status :: int
  fa_preset :: "string \<times> string \<times> int"

definition the_arg :: "'a \<Rightarrow> 'a option \<Rightarrow> 'a" where
  "the_arg d a = (case a of None \<Rightarrow> d | Some x \<Rightarrow> x)"

text \<open>\<open>perquisite\<close>: either the refusal or the player.\<close>

definition perquisite :: "snowflake \<Rightarrow> manager \<Rightarrow> string + guild_player_t" where
  "perquisite g m =
    (if cmd_pre_get_player_manager_ready_werr g m = 1 then Inl not_ready_reply
     else case get_player g m of None \<Rightarrow> Inl ''No active player in this guild'' | Some p \<Rightarrow> Inr p)"

type_synonym player_command = "guild_player_t \<Rightarrow> (guild_player_t \<times> string list) result"

text \<open>A command that checks the perquisite and works on the player; its answers.\<close>

definition run_on_player :: "snowflake \<Rightarrow> player_command \<Rightarrow> manager \<Rightarrow> command_result" where
  "run_on_player g f m =
    (case perquisite g m of
       Inl s \<Rightarrow> reply s m
     | Inr p \<Rightarrow> bind_result (f p) (\<lambda>(p1, answers). Inr (put_player g p1 m, map E_reply answers)))"

section \<open>tempo, resample, pitch, earwax, reverb\<close>

definition tempo_min :: fl where "tempo_min = rnd_frac 53 1 2"
definition tempo_max :: fl where "tempo_max = fl_of_int 53 4"

definition fl_clamp :: "fl \<Rightarrow> fl \<Rightarrow> fl \<Rightarrow> fl" where
  "fl_clamp lo hi x = (let y = (if fl_less x lo then lo else x) in if fl_less hi y then hi else y)"

text \<open>Printing with two decimals (\<open>%.2lf\<close>).\<close>

definition fl_str2 :: "fl \<Rightarrow> string" where
  "fl_str2 x =
    (let n = div_even (push_bit (nat (fl_exp x)) (\<bar>fl_man x\<bar> * 100)) (push_bit (nat (- fl_exp x)) 1)
     in (if fl_man x < 0 then ''-'' else '''') @ dec_str (n div 100) @ ''.''
        @ pad_left 2 (dec_str (n mod 100)))"

text \<open>\<open>snprintf\<close> into five bytes keeps four characters and a NUL but returns the whole length,
  and the string is made of that many bytes: from six on they lie outside the buffer.\<close>

definition tempo_str :: "fl \<Rightarrow> string result" where
  "tempo_str x =
    (let s = fl_str2 x
     in if length s \<le> 4 then Inr s
        else if length s = 5 then Inr (take 4 s @ [CHR 0x00]) else Inl Undefined)"

definition tempo_run :: "fl option \<Rightarrow> player_command" where
  "tempo_run arg p =
    (let rate0 = the_arg fl_1 arg
     in if arg = None \<or> fl_eq rate0 (gp_tempo p) then
          (if fl_eq (gp_tempo p) fl_1 then Inr (p, [''Currently playing at original tempo''])
           else bind_result (tempo_str (gp_tempo p)) (\<lambda>s. Inr (p, [''Current playback tempo is '' @ s @ ''x''])))
        else
          let rate = fl_clamp tempo_min tempo_max rate0;
              p1 = p\<lparr>gp_tempo := rate\<rparr>
          in if fl_eq rate fl_1 then Inr (p1, [''Resetting tempo''])
             else bind_result (tempo_str rate) (\<lambda>s. Inr (p1, [''Setting tempo to '' @ s @ ''x''])))"

definition clamp :: "int \<Rightarrow> int \<Rightarrow> int \<Rightarrow> int" where
  "clamp lo hi x = (let y = (if x < lo then lo else x) in if y > hi then hi else y)"

definition resample_run :: "int option \<Rightarrow> player_command" where
  "resample_run arg p =
    (let rate0 = the_arg 0 arg
     in if rate0 = 0 \<or> rate0 = gp_sampling_rate p then
          Inr (p, [if gp_sampling_rate p = - 1 then ''Currently playing at default sampling rate (48KHz)''
                   else ''Current playback sampling rate is '' @ int_str (gp_sampling_rate p) @ ''Hz''])
        else
          let rate = clamp 6000 128000 rate0;
              new_rate = (if rate = 48000 then - 1 else rate)
          in Inr (p\<lparr>gp_sampling_rate := new_rate\<rparr>,
               [if new_rate = - 1 then ''Resetting resampler'' else ''Setting rate to '' @ int_str new_rate @ ''Hz'']))"

definition pitch_run :: "int option \<Rightarrow> player_command" where
  "pitch_run arg p =
    (let rate0 = the_arg 0 arg
     in if arg = None \<or> rate0 = gp_pitch p then
          Inr (p, [if gp_pitch p = 0 then ''Currently playing at original pitch''
                   else ''Current playback pitch is '' @ int_str (gp_pitch p) @ ''%''])
        else
          let rate = clamp (- 400) 100 rate0
          in Inr (p\<lparr>gp_pitch := rate\<rparr>,
               [if rate = 0 then ''Resetting pitch'' else ''Setting pitch to '' @ int_str rate @ ''%'']))"

definition earwax_run :: player_command where
  "earwax_run p =
    (let p1 = p\<lparr>gp_earwax := \<not> gp_earwax p\<rparr>
     in Inr (p1, [(if gp_earwax p1 then ''Enabling'' else ''Disabling'') @ '' earwax'']))"

definition reverb_run :: player_command where
  "reverb_run p = Inr (p, [])"

section \<open>vibrato and tremolo\<close>

datatype modulation = vibrato | tremolo

fun get_f :: "modulation \<Rightarrow> guild_player_t \<Rightarrow> fl" where
  "get_f vibrato p = gp_vibrato_f p"
| "get_f tremolo p = gp_tremolo_f p"

fun get_d :: "modulation \<Rightarrow> guild_player_t \<Rightarrow> int" where
  "get_d vibrato p = gp_vibrato_d p"
| "get_d tremolo p = gp_tremolo_d p"

fun set_f :: "modulation \<Rightarrow> fl \<Rightarrow> guild_player_t \<Rightarrow> guild_player_t" where
  "set_f vibrato v p = p\<lparr>gp_vibrato_f := v\<rparr>"
| "set_f tremolo v p = p\<lparr>gp_tremolo_f := v\<rparr>"

fun set_d :: "modulation \<Rightarrow> int \<Rightarrow> guild_player_t \<Rightarrow> guild_player_t" where
  "set_d vibrato v p = p\<lparr>gp_vibrato_d := v\<rparr>"
| "set_d tremolo v p = p\<lparr>gp_tremolo_d := v\<rparr>"

definition newline :: char where "newline = CHR 0x0A"

definition modulation_show :: "modulation \<Rightarrow> player_command" where
  "modulation_show k p =
    (let freq = get_f k p; depth = get_d k p;
         f_is = \<not> fl_eq freq fl_m1; d_is = (depth \<noteq> - 1);
         rep = (if f_is then ''Frequency: '' @ fl_str freq else [])
           @ (if d_is then (if f_is then [newline] else []) @ ''Intensity: '' @ int_str depth @ ''%'' else [])
     in Inr (p, [rep @ (if f_is \<and> d_is then []
                        else if \<not> f_is \<and> \<not> d_is then ''This filter is not enabled''
                        else if f_is then newline # ''Default intensity'' else newline # ''Default frequency'')]))"

definition freq_min :: fl where "freq_min = rnd_frac 53 1 10"
definition freq_max :: fl where "freq_max = fl_of_int 53 20000"

definition modulation_set :: "modulation \<Rightarrow> fl option \<Rightarrow> int option \<Rightarrow> player_command" where
  "modulation_set k arg_f arg_d p =
    (let f0 = the_arg fl_m1 arg_f; d0 = the_arg (- 1) arg_d;
         ftp_f = get_f k p; ftp_d = get_d k p;
         had_f = \<not> fl_eq ftp_f fl_m1; had_d = (ftp_d \<noteq> - 1);
         given_f = \<not> fl_eq f0 fl_m1; given_d = (d0 \<noteq> - 1);
         f1 = (if \<not> given_f \<and> had_f then ftp_f else f0);
         d1 = (if \<not> given_d \<and> had_d then ftp_d else d0);
         should_set_f = (given_f \<or> had_f); should_set_d = (given_d \<or> had_d);
         same_f = fl_eq f1 ftp_f; same_d = (d1 = ftp_d)
     in if \<not> should_set_f \<and> \<not> should_set_d then Inr (p, [''What do you want to set??''])
        else
          let f2 = fl_clamp freq_min freq_max f1; d2 = clamp 0 100 d1;
              p1 = (if should_set_f \<and> \<not> same_f \<and> \<not> fl_eq f2 ftp_f then set_f k f2 p else p);
              p2 = (if should_set_d \<and> \<not> same_d \<and> d2 \<noteq> ftp_d then set_d k d2 p1 else p1)
          in Inr (p2,
               [(if should_set_f then ''Setting frequency to '' @ fl_str (get_f k p1) @ ''Hz'' else [])
                @ (if should_set_d
                   then (if should_set_f then [newline] else []) @ ''Setting intensity to '' @ int_str (get_d k p2) @ ''%''
                   else [])]))"

definition modulation_reset :: "modulation \<Rightarrow> player_command" where
  "modulation_reset k p =
    (if fl_eq (get_f k p) fl_m1 \<and> get_d k p = - 1
     then Inr (p, [''This filter is not enabled, please enable first before resetting''])
     else Inr (set_d k (- 1) (set_f k fl_m1 p), [''Resetting...'']))"

definition modulation_handlers :: "modulation \<Rightarrow> filter_args \<Rightarrow> (string \<times> player_command) list" where
  "modulation_handlers k a =
    [([], modulation_show k), (''0'', modulation_set k (fa_frequency a) (fa_intensity a)), (''1'', modulation_reset k)]"

text \<open>The perquisite is checked here and again in the handler.\<close>

definition modulation_run :: "modulation \<Rightarrow> snowflake \<Rightarrow> filter_args \<Rightarrow> manager \<Rightarrow> command_result" where
  "modulation_run k g a m =
    (case perquisite g m of
       Inl s \<Rightarrow> reply s m
     | Inr _ \<Rightarrow>
         let action0 = the_arg [] (fa_action a);
             action = (if action0 = [] \<and> (fa_frequency a \<noteq> None \<or> fa_intensity a \<noteq> None) then ''0'' else action0)
         in case handle_command action (modulation_handlers k a) of
              None \<Rightarrow> Inr (m, []) | Some h \<Rightarrow> run_on_player g h m)"

section \<open>equalizer\<close>

definition eq_show :: player_command where
  "eq_show p =
    (if gp_equalizer p = [] then Inr (p, [''Equalizer not set''])
     else bind_result (af_args_to_equalizer_fx_t (gp_equalizer p)) (\<lambda>arg.
       Inr (p, [''This command is still under construction...'' @ [newline, newline]
         @ ''Here's what you want anyway: ```md'' @ [newline]
         @ equalizer_fx_t_to_slash_args (arg\<lparr>eq_volume := gp_volume p\<rparr>) @ ''```''])))"

fun override :: "'a option list \<Rightarrow> 'a list \<Rightarrow> 'a list" where
  "override (o1 # os) (x # xs) = the_arg x o1 # override os xs"
| "override os xs = xs"

definition eq_set :: "int option \<Rightarrow> int option list \<Rightarrow> player_command" where
  "eq_set arg_volume arg_bands p =
    bind_result (if gp_equalizer p = [] then Inr create_equalizer_fx_t else af_args_to_equalizer_fx_t (gp_equalizer p))
      (\<lambda>arg0. let arg = arg0\<lparr>eq_volume := the_arg (- 1) arg_volume, eq_bands := override arg_bands (eq_bands arg0)\<rparr>;
                  p1 = (if eq_volume arg \<noteq> - 1 then p\<lparr>gp_volume := wrap32 (eq_volume arg)\<rparr> else p)
              in Inr (p1\<lparr>gp_equalizer := equalizer_fx_t_to_af_args arg False\<rparr>,
                   [''Setting equalizer with args: ```md'' @ [newline] @ equalizer_fx_t_to_slash_args arg @ ''```'']))"

definition balanced_equalizer :: string where
  "balanced_equalizer = ''1b=0.5:2b=0.5:3b=0.5:4b=0.5:5b=0.5:6b=0.5:7b=0.5:8b=0.5:9b=0.5:10b=0.5:11b=0.5:12b=0.5:13b=0.5:14b=0.5:15b=0.5:16b=0.5:17b=0.5:18b=0.5''"

definition eq_balance :: player_command where
  "eq_balance p = Inr (p\<lparr>gp_volume := 100, gp_equalizer := balanced_equalizer\<rparr>, [''Balancing...''])"

definition eq_reset :: player_command where
  "eq_reset p = Inr (p\<lparr>gp_equalizer := []\<rparr>, [''Resetting...''])"

definition eq_handlers :: "filter_args \<Rightarrow> (string \<times> player_command) list" where
  "eq_handlers a = [([], eq_show), (''0'', eq_set (fa_volume a) (fa_bands a)), (''1'', eq_balance), (''2'', eq_reset)]"

definition eq_run :: "snowflake \<Rightarrow> filter_args \<Rightarrow> manager \<Rightarrow> command_result" where
  "eq_run g a m =
    (let action0 = the_arg [] (fa_action a);
         action = (if action0 = [] \<and> list_ex (\<lambda>x. x \<noteq> None) (fa_volume a # fa_bands a) then ''0'' else action0)
     in case handle_command action (eq_handlers a) of None \<Rightarrow> Inr (m, []) | Some h \<Rightarrow> run_on_player g h m)"

section \<open>Equalizer presets\<close>

text \<open>Presets are handled in a task: the player is created when there is none. The database's
  answer is a parameter.\<close>

definition run_preset :: "dpp_view \<Rightarrow> snowflake \<Rightarrow> player_command \<Rightarrow> manager \<Rightarrow> command_result" where
  "run_preset dv g f m =
    (case create_player dv g m of
       (None, m1) \<Rightarrow> reply ''`[ERROR]` Failed creating guild player'' m1
     | (Some p, m1) \<Rightarrow> bind_result (f p) (\<lambda>(p1, answers). Inr (put_player g p1 m1, map E_reply answers)))"

definition preset_save :: "filter_args \<Rightarrow> player_command" where
  "preset_save a p =
    (if gp_equalizer p = [] then Inr (p, [''Equalizer not set''])
     else bind_result (af_args_to_equalizer_fx_t (gp_equalizer p)) (\<lambda>eq0.
       let name = the_arg [] (fa_name a);
           eq = eq0\<lparr>eq_volume := gp_volume p\<rparr>;
           status = (if name = [] \<or> equalizer_fx_t_to_af_args eq True = [] \<or> fa_user_id a = 0 then - 1 else fa_create_status a)
       in Inr (p, [if status = - 1 then ''`[ERROR]` Missing argument''
                   else if status = - 2 then ''`[ERROR]` Preset name should match validation regex: ^[0-9a-zA-Z_ -]{1,100}$''
                   else if status = 1 then ''Created new preset with name: `'' @ name @ ''`'' @ [newline]
                     @ ''Settings:```md'' @ [newline] @ equalizer_fx_t_to_slash_args eq @ ''```''
                   else ''Preset with that name already exist! Try pick another name''])))"

definition preset_load_or_view :: "filter_args \<Rightarrow> bool \<Rightarrow> player_command" where
  "preset_load_or_view a is_view p =
    (let name = the_arg [] (fa_name a);
         (val, ori_name, status) = (if name = [] then ([], [], - 1) else fa_preset a)
     in if status = - 1 then Inr (p, [''`[ERROR]` Invalid name''])
        else if val = [] then Inr (p, [''Can't find preset with that name''])
        else if is_view then
          bind_result (af_args_to_equalizer_fx_t val) (\<lambda>eq.
            Inr (p, [''Preset settings: `'' @ ori_name @ ''` ```md'' @ [newline] @ equalizer_fx_t_to_slash_args eq @ ''```'']))
        else if gp_equalizer p = val then Inr (p, [''Current settings already match preset''])
        else bind_result (af_args_to_equalizer_fx_t val) (\<lambda>arg.
          Inr (p\<lparr>gp_volume := wrap32 (eq_volume arg), gp_equalizer := equalizer_fx_t_to_af_args arg False\<rparr>,
            [''Setting preset:```md'' @ [newline] @ equalizer_fx_t_to_slash_args arg @ ''```''])))"

definition preset_handlers :: "filter_args \<Rightarrow> (string \<times> player_command) list" where
  "preset_handlers a =
    [(''save'', preset_save a), (''load'', preset_load_or_view a False), (''view'', preset_load_or_view a True)]"

definition no_such_command :: string where
  "no_such_command = ''I don't have that command, how'd you get that?? Please report this to my developer''"

definition preset_run :: "dpp_view \<Rightarrow> snowflake \<Rightarrow> filter_args \<Rightarrow> manager \<Rightarrow> command_result" where
  "preset_run dv g a m =
    (case fa_group_sub a of
       None \<Rightarrow> reply no_such_command m
     | Some cmd \<Rightarrow>
         (case handle_command cmd (preset_handlers a) of None \<Rightarrow> Inr (m, []) | Some h \<Rightarrow> run_preset dv g h m))"

section \<open>The command\<close>

definition filter_handlers ::
  "dpp_view \<Rightarrow> snowflake \<Rightarrow> filter_args \<Rightarrow> (string \<times> (manager \<Rightarrow> command_result)) list" where
  "filter_handlers dv g a =
    [(''equalizer'', eq_run g a), (''equalizer_presets'', preset_run dv g a),
     (''resample'', run_on_player g (resample_run (fa_rate a))), (''earwax'', run_on_player g earwax_run),
     (''vibrato'', modulation_run vibrato g a), (''tremolo'', modulation_run tremolo g a),
     (''tempo'', run_on_player g (tempo_run (fa_speed a))), (''pitch'', run_on_player g (pitch_run (fa_percentage a)))]"

definition filters_slash_run :: "dpp_view \<Rightarrow> snowflake \<Rightarrow> filter_args \<Rightarrow> manager \<Rightarrow> command_result" where
  "filters_slash_run dv g a m =
    (case fa_sub a of
       None \<Rightarrow> reply no_such_command m
     | Some cmd \<Rightarrow>
         (case handle_command cmd (filter_handlers dv g a) of None \<Rightarrow> Inr (m, []) | Some h \<Rightarrow> h m))"

section \<open>Values of doubles\<close>

definition fl_val :: "fl \<Rightarrow> real" where
  "fl_val x = of_int (fl_man x) * 2 powi fl_exp x"

lemma push_bit_val: "0 \<le> k \<Longrightarrow> real_of_int (push_bit (nat k) m) * 2 powi e = of_int m * 2 powi (e + k)"
proof -
  assume "0 \<le> k"
  then have "(2::real) ^ nat k = 2 powi k" by (simp add: power_int_def)
  then show ?thesis by (simp add: push_bit_eq_mult power_int_add)
qed

lemma fl_less_val: "fl_less x y \<longleftrightarrow> fl_val x < fl_val y"
proof -
  let ?e = "min (fl_exp x) (fl_exp y)"
  let ?a = "push_bit (nat (fl_exp x - ?e)) (fl_man x)" and ?b = "push_bit (nat (fl_exp y - ?e)) (fl_man y)"
  have "?a < ?b \<longleftrightarrow> real_of_int ?a * 2 powi ?e < real_of_int ?b * 2 powi ?e" by simp
  also have "real_of_int ?a * 2 powi ?e = fl_val x" by (subst push_bit_val) (simp_all add: fl_val_def)
  also have "real_of_int ?b * 2 powi ?e = fl_val y" by (subst push_bit_val) (simp_all add: fl_val_def)
  finally show ?thesis by (simp add: fl_less_def fl_align_def Let_def)
qed

lemma fl_clamp_range: "\<not> fl_less hi lo \<Longrightarrow> \<not> fl_less (fl_clamp lo hi x) lo \<and> \<not> fl_less hi (fl_clamp lo hi x)"
  by (auto simp: fl_clamp_def Let_def fl_less_val)

lemma clamp_range: "lo \<le> hi \<Longrightarrow> lo \<le> clamp lo hi x \<and> clamp lo hi x \<le> hi"
  by (auto simp: clamp_def Let_def)

lemma div_even_le: "0 < b \<Longrightarrow> a \<le> c * b \<Longrightarrow> div_even a b \<le> c"
proof -
  assume b: "0 < b" and a: "a \<le> c * b"
  have q: "a div b \<le> c" using zdiv_mono1 [OF a b] b by simp
  have "a div b = c \<Longrightarrow> a mod b = 0"
    using a b pos_mod_sign [OF b, of a] by (metis add_le_same_cancel1 antisym div_mult_mod_eq)
  then show ?thesis using q b by (cases "a div b = c") (auto simp: div_even_def Let_def)
qed

lemma fl_val_tempo: "fl_val tempo_min = 1 / 2" "fl_val tempo_max = 4"
proof -
  have t: "tempo_min = Fl (2 ^ 52) (- 53)" "tempo_max = Fl (2 ^ 52) (- 50)" by code_simp+
  show "fl_val tempo_min = 1 / 2" "fl_val tempo_max = 4" unfolding t by (simp_all add: fl_val_def power_int_def power_one_over)
qed

lemma dec_str_digit: "0 \<le> n \<Longrightarrow> n < 10 \<Longrightarrow> length (dec_str n) = 1"
  using length_nat_str_1 [of "nat n"] by (simp add: nat_str_def)

text \<open>A tempo in range fits the buffer.\<close>

lemma tempo_str_range:
  assumes "\<not> fl_less x tempo_min" and "\<not> fl_less tempo_max x"
  shows "\<exists>s. tempo_str x = Inr s \<and> length s = 4"
proof -
  have lo: "1 / 2 \<le> fl_val x" and hi: "fl_val x \<le> 4" using assms by (simp_all add: fl_less_val fl_val_tempo)
  have "0 < real_of_int (fl_man x) * 2 powi fl_exp x" using lo by (simp add: fl_val_def)
  moreover have "0 < (2::real) powi fl_exp x" by (simp add: zero_less_power_int)
  ultimately have m: "0 < fl_man x" by (simp add: zero_less_mult_iff)
  let ?n = "div_even (push_bit (nat (fl_exp x)) (\<bar>fl_man x\<bar> * 100)) (push_bit (nat (- fl_exp x)) 1)"
  have "push_bit (nat (fl_exp x)) (fl_man x * 100) \<le> 400 * push_bit (nat (- fl_exp x)) 1"
  proof (cases "0 \<le> fl_exp x")
    case True
    then have "real_of_int (fl_man x * 2 ^ nat (fl_exp x)) \<le> 4" using hi by (simp add: fl_val_def power_int_def)
    then have "fl_man x * 2 ^ nat (fl_exp x) \<le> 4" by linarith
    then show ?thesis using True by (simp add: push_bit_eq_mult)
  next
    case False
    then have "real_of_int (fl_man x) / 2 ^ nat (- fl_exp x) \<le> 4"
      using hi by (simp add: fl_val_def power_int_def field_simps)
    then have "real_of_int (fl_man x) \<le> real_of_int (4 * 2 ^ nat (- fl_exp x))" by (simp add: field_simps)
    then have "fl_man x \<le> 4 * 2 ^ nat (- fl_exp x)" by linarith
    then show ?thesis using False by (simp add: push_bit_eq_mult)
  qed
  then have n: "?n \<le> 400" using m by (intro div_even_le) (simp_all add: push_bit_eq_mult)
  have n0: "0 \<le> ?n" using m by (intro div_even_nonneg) (simp_all add: push_bit_eq_mult)
  have "?n div 100 < 10" "0 \<le> ?n div 100" using n n0 by linarith+
  then have "length (dec_str (?n div 100)) = 1" by (rule dec_str_digit [rotated])
  moreover have "length (pad_left 2 (dec_str (?n mod 100))) = 2"
  proof -
    have "length (nat_str (nat (?n mod 100))) \<le> 2" using length_nat_str_le by simp
    then show ?thesis by (simp add: pad_left_def nat_str_def)
  qed
  ultimately have "length (fl_str2 x) = 4" using m by (simp add: fl_str2_def Let_def)
  then show ?thesis by (simp add: tempo_str_def)
qed

section \<open>The settings stay in range\<close>

definition modulation_ok :: "modulation \<Rightarrow> guild_player_t \<Rightarrow> bool" where
  "modulation_ok k p \<longleftrightarrow>
    (fl_eq (get_f k p) fl_m1 \<or> \<not> fl_less (get_f k p) freq_min \<and> \<not> fl_less freq_max (get_f k p))
    \<and> (get_d k p = - 1 \<or> 0 \<le> get_d k p \<and> get_d k p \<le> 100)"

definition fx_ok :: "guild_player_t \<Rightarrow> bool" where
  "fx_ok p \<longleftrightarrow> \<not> fl_less (gp_tempo p) tempo_min \<and> \<not> fl_less tempo_max (gp_tempo p)
    \<and> (gp_sampling_rate p = - 1 \<or> 6000 \<le> gp_sampling_rate p \<and> gp_sampling_rate p \<le> 128000)
    \<and> - 400 \<le> gp_pitch p \<and> gp_pitch p \<le> 100
    \<and> modulation_ok vibrato p \<and> modulation_ok tremolo p"

definition all_fx_ok :: "manager \<Rightarrow> bool" where
  "all_fx_ok m \<longleftrightarrow> (\<forall>g p. get_player g m = Some p \<longrightarrow> fx_ok p)"

definition fx_command :: "player_command \<Rightarrow> bool" where
  "fx_command f \<longleftrightarrow> (\<forall>p p' a. f p = Inr (p', a) \<longrightarrow> fx_ok p \<longrightarrow> fx_ok p')"

lemma fx_commandI: "(\<And>p p' a. f p = Inr (p', a) \<Longrightarrow> fx_ok p \<Longrightarrow> fx_ok p') \<Longrightarrow> fx_command f"
  by (simp add: fx_command_def)

lemma bind_result_Inr: "bind_result r f = Inr y \<Longrightarrow> \<exists>x. r = Inr x \<and> f x = Inr y"
  by (cases r) auto

lemma freq_range: "\<not> fl_less freq_max freq_min" "\<not> fl_less tempo_max tempo_min"
  by code_simp+

lemma get_set [simp]:
  "get_f k (set_f k v p) = v" "get_d k (set_f k v p) = get_d k p"
  "get_d k (set_d k d p) = d" "get_f k (set_d k d p) = get_f k p"
  by (cases k; simp)+

lemma set_frame:
  "gp_tempo (set_f k v p) = gp_tempo p" "gp_tempo (set_d k d p) = gp_tempo p"
  "gp_sampling_rate (set_f k v p) = gp_sampling_rate p" "gp_sampling_rate (set_d k d p) = gp_sampling_rate p"
  "gp_pitch (set_f k v p) = gp_pitch p" "gp_pitch (set_d k d p) = gp_pitch p"
  by (cases k; simp)+

lemma fx_ok_set_f: "fx_ok p \<Longrightarrow> fl_eq v fl_m1 \<or> \<not> fl_less v freq_min \<and> \<not> fl_less freq_max v \<Longrightarrow> fx_ok (set_f k v p)"
  by (cases k) (auto simp: fx_ok_def modulation_ok_def)

lemma fx_ok_set_d: "fx_ok p \<Longrightarrow> d = - 1 \<or> 0 \<le> d \<and> d \<le> 100 \<Longrightarrow> fx_ok (set_d k d p)"
  by (cases k) (auto simp: fx_ok_def modulation_ok_def)

lemma fl_eq_m1: "fl_eq fl_m1 fl_m1"
  by (simp only: fl_eq_def fl_align_def Let_def prod.case)

lemma fx_ok_updates:
  "fx_ok p \<Longrightarrow> \<not> fl_less r tempo_min \<Longrightarrow> \<not> fl_less tempo_max r \<Longrightarrow> fx_ok (p\<lparr>gp_tempo := r\<rparr>)"
  "fx_ok p \<Longrightarrow> n = - 1 \<or> 6000 \<le> n \<and> n \<le> 128000 \<Longrightarrow> fx_ok (p\<lparr>gp_sampling_rate := n\<rparr>)"
  "fx_ok p \<Longrightarrow> - 400 \<le> n \<Longrightarrow> n \<le> 100 \<Longrightarrow> fx_ok (p\<lparr>gp_pitch := n\<rparr>)"
  by (simp_all add: fx_ok_def modulation_ok_def)

lemma fx_command_tempo: "fx_command (tempo_run arg)"
proof (rule fx_commandI)
  fix p p' a assume "tempo_run arg p = Inr (p', a)" and ok: "fx_ok p"
  then have "p' = p \<or> p' = p\<lparr>gp_tempo := fl_clamp tempo_min tempo_max (the_arg fl_1 arg)\<rparr>"
    unfolding tempo_run_def Let_def by (auto split: if_split_asm dest!: bind_result_Inr)
  then show "fx_ok p'" using ok fl_clamp_range [OF freq_range(2)] fx_ok_updates(1) [OF ok] by metis
qed

lemma fx_command_resample: "fx_command (resample_run arg)"
proof (rule fx_commandI)
  fix p p' a assume "resample_run arg p = Inr (p', a)" and ok: "fx_ok p"
  then have "p' = p \<or> p' = p\<lparr>gp_sampling_rate := if clamp 6000 128000 (the_arg 0 arg) = 48000 then - 1
      else clamp 6000 128000 (the_arg 0 arg)\<rparr>"
    unfolding resample_run_def Let_def by (auto split: if_split_asm)
  then show "fx_ok p'" using ok clamp_range [of 6000 128000 "the_arg 0 arg"] by (auto intro: fx_ok_updates)
qed

lemma fx_command_pitch: "fx_command (pitch_run arg)"
  unfolding pitch_run_def Let_def
  using clamp_range [of "- 400" 100 "the_arg 0 arg"] by (intro fx_commandI) (auto intro: fx_ok_updates split: if_split_asm)

lemma fx_command_earwax: "fx_command earwax_run"
  by (intro fx_commandI) (auto simp: earwax_run_def Let_def fx_ok_def modulation_ok_def)

lemma fx_command_modulation_set: "fx_command (modulation_set k f d)"
  using fl_clamp_range [OF freq_range(1)] clamp_range [of 0 100]
  by (intro fx_commandI) (auto simp: modulation_set_def Let_def intro!: fx_ok_set_f fx_ok_set_d split: if_splits)

lemma fx_command_modulation:
  "fx_command (modulation_show k)" "fx_command (modulation_reset k)"
  by (intro fx_commandI; auto simp: modulation_show_def modulation_reset_def Let_def
      intro!: fx_ok_set_f fx_ok_set_d fl_eq_m1 split: if_splits)+

text \<open>The equalizer and its presets only touch the volume and the equalizer.\<close>

lemma fx_ok_equalizer: "fx_ok (p\<lparr>gp_equalizer := e\<rparr>) = fx_ok p" "fx_ok (p\<lparr>gp_volume := v\<rparr>) = fx_ok p"
  "fx_ok (p\<lparr>gp_volume := v, gp_equalizer := e\<rparr>) = fx_ok p"
  by (simp_all add: fx_ok_def modulation_ok_def)

lemma fx_command_equalizer:
  "fx_command eq_show" "fx_command (eq_set v bs)" "fx_command eq_balance" "fx_command eq_reset"
  "fx_command (preset_save a)" "fx_command (preset_load_or_view a b)"
  by (intro fx_commandI; auto simp: eq_show_def eq_set_def eq_balance_def eq_reset_def preset_save_def
      preset_load_or_view_def Let_def fx_ok_equalizer split: if_splits prod.splits dest!: bind_result_Inr)+

lemma fx_commandD: "fx_command f \<Longrightarrow> f p = Inr (p', a) \<Longrightarrow> fx_ok p \<Longrightarrow> fx_ok p'"
  by (auto simp: fx_command_def)

lemma all_fx_okD: "all_fx_ok m \<Longrightarrow> get_player g m = Some p \<Longrightarrow> fx_ok p"
  by (auto simp: all_fx_ok_def)

lemma all_fx_ok_put: "all_fx_ok m \<Longrightarrow> fx_ok p \<Longrightarrow> all_fx_ok (put_player g p m)"
  by (auto simp: all_fx_ok_def get_player_def put_player_def)

definition keeps_fx :: "(manager \<Rightarrow> command_result) \<Rightarrow> bool" where
  "keeps_fx h \<longleftrightarrow> (\<forall>m m' eff. h m = Inr (m', eff) \<longrightarrow> all_fx_ok m \<longrightarrow> all_fx_ok m')"

lemma keeps_fxI: "(\<And>m m' eff. h m = Inr (m', eff) \<Longrightarrow> all_fx_ok m \<Longrightarrow> all_fx_ok m') \<Longrightarrow> keeps_fx h"
  by (auto simp: keeps_fx_def)

lemma keeps_fxD: "keeps_fx h \<Longrightarrow> h m = Inr (m', eff) \<Longrightarrow> all_fx_ok m \<Longrightarrow> all_fx_ok m'"
  by (auto simp: keeps_fx_def)

lemma perquisiteD: "perquisite g m = Inr p \<Longrightarrow> get_player g m = Some p"
  by (simp add: perquisite_def split: if_splits option.splits)

lemma keeps_fx_run: "fx_command f \<Longrightarrow> keeps_fx (run_on_player g f)"
  by (rule keeps_fxI) (auto simp: run_on_player_def reply_def
      dest!: bind_result_Inr perquisiteD intro!: all_fx_ok_put intro: fx_commandD [OF _ _ all_fx_okD] split: sum.splits)

lemma fx_ok_new: "fx_ok (guild_player_new g s)"
proof -
  have "\<not> fl_less fl_1 tempo_min" "\<not> fl_less tempo_max fl_1" by code_simp+
  then show ?thesis by (simp add: fx_ok_def modulation_ok_def guild_player_new_def player_init_def fl_eq_m1)
qed

lemma create_player_fx: "create_player dv g m = (r, m1) \<Longrightarrow> all_fx_ok m \<Longrightarrow> all_fx_ok m1 \<and> (\<forall>p. r = Some p \<longrightarrow> fx_ok p)"
  by (auto simp: create_player_def Let_def fx_ok_new get_player_def all_fx_ok_def put_player_def split: option.splits if_splits)

lemma keeps_fx_preset: "fx_command f \<Longrightarrow> keeps_fx (run_preset dv g f)"
  by (rule keeps_fxI) (auto simp: run_preset_def reply_def dest!: bind_result_Inr create_player_fx
      intro!: all_fx_ok_put elim!: fx_commandD split: option.splits prod.splits)

lemma keeps_fx_silent: "keeps_fx (\<lambda>m. Inr (m, eff))" "keeps_fx (reply s)"
  by (auto intro!: keeps_fxI simp: reply_def)

lemma handle_command_all: "list_all P (map snd hs) \<Longrightarrow> case_option True P (handle_command c hs)"
  by (induction hs) auto

lemma keeps_fx_handled:
  assumes "list_all fx_command (map snd hs)" and "\<And>f. fx_command f \<Longrightarrow> keeps_fx (run f)"
  shows "keeps_fx (\<lambda>m. case handle_command c hs of None \<Rightarrow> Inr (m, []) | Some h \<Rightarrow> run h m)"
  using handle_command_all [OF assms(1), of c] assms(2) keeps_fx_silent(1) by (cases "handle_command c hs") auto

lemma keeps_fx_modulation: "keeps_fx (modulation_run k g a)"
proof (rule keeps_fxI)
  fix m m' eff assume r: "modulation_run k g a m = Inr (m', eff)" and ok: "all_fx_ok m"
  have "keeps_fx (\<lambda>m. case handle_command c (modulation_handlers k a) of None \<Rightarrow> Inr (m, []) | Some h \<Rightarrow> run_on_player g h m)" for c
    by (rule keeps_fx_handled) (simp_all add: modulation_handlers_def fx_command_modulation fx_command_modulation_set keeps_fx_run)
  note k = keeps_fxD [OF this _ ok]
  show "all_fx_ok m'"
  proof (cases "perquisite g m")
    case (Inr p)
    show ?thesis by (rule k [OF r [unfolded modulation_run_def Inr Let_def sum.case]])
  qed (use r ok in \<open>simp add: modulation_run_def reply_def\<close>)
qed

lemma keeps_fx_equalizer: "keeps_fx (eq_run g a)"
  unfolding eq_run_def Let_def
  by (rule keeps_fx_handled) (simp_all add: eq_handlers_def fx_command_equalizer keeps_fx_run)

lemma keeps_fx_presets: "keeps_fx (preset_run dv g a)"
  unfolding preset_run_def
  by (cases "fa_group_sub a") (auto intro!: keeps_fx_silent keeps_fx_handled keeps_fx_preset
      simp: preset_handlers_def fx_command_equalizer)

lemma filters_ok: "keeps_fx (filters_slash_run dv g a)"
proof (rule keeps_fxI)
  fix m m' eff assume r: "filters_slash_run dv g a m = Inr (m', eff)" and ok: "all_fx_ok m"
  have "list_all keeps_fx (map snd (filter_handlers dv g a))"
    by (simp add: filter_handlers_def keeps_fx_run keeps_fx_modulation keeps_fx_equalizer keeps_fx_presets
        fx_command_tempo fx_command_resample fx_command_pitch fx_command_earwax)
  note all = handle_command_all [OF this]
  show "all_fx_ok m'"
  proof (cases "Option.bind (fa_sub a) (\<lambda>c. handle_command c (filter_handlers dv g a))")
    case (Some h)
    then obtain c where c: "fa_sub a = Some c" "handle_command c (filter_handlers dv g a) = Some h"
      by (auto simp: bind_Some_iff)
    have "h m = Inr (m', eff)" "keeps_fx h" using all [of c] r by (simp_all add: filters_slash_run_def c)
    then show ?thesis using ok keeps_fxD by blast
  qed (use r ok in \<open>auto simp: filters_slash_run_def reply_def split: option.splits\<close>)
qed

section \<open>Properties\<close>

inductive filter_step :: "dpp_view \<Rightarrow> manager \<Rightarrow> manager \<Rightarrow> bool" for dv where
  "filters_slash_run dv g a m = Inr (m', eff) \<Longrightarrow> filter_step dv m m'"

lemma filter_steps_ok: "(filter_step dv)\<^sup>*\<^sup>* m m' \<Longrightarrow> all_fx_ok m \<Longrightarrow> all_fx_ok m'"
  by (induction rule: rtranclp_induct) (auto elim!: filter_step.cases dest: keeps_fxD [OF filters_ok])

text \<open>Whatever filter commands the users of a fresh bot give, with whatever arguments, in
  whatever order: every player's tempo lies between 0.5 and 4 (so that it fits the five bytes it
  is printed into), its sampling rate between 6000 and 128000 or is the default (so that the
  samples per second by which the progress of a track is divided stay positive with the earwax
  filter on), its pitch between -400 and 100, and the intensities between 0 and 100.\<close>

theorem filter_settings_bounded:
  assumes "(filter_step dv)\<^sup>*\<^sup>* manager_init m" and "get_player g m = Some p"
  shows "(\<exists>s. tempo_str (gp_tempo p) = Inr s \<and> length s = 4)
    \<and> 0 < (if gp_sampling_rate p = - 1 then 48000 else gp_sampling_rate p) - 3900
    \<and> gp_sampling_rate p \<le> 128000 \<and> gp_pitch p \<in> {- 400..100}
    \<and> {gp_vibrato_d p, gp_tremolo_d p} \<subseteq> {- 1..100}"
proof -
  have "all_fx_ok manager_init" by (simp add: all_fx_ok_def manager_init_def get_player_def)
  then have ok: "fx_ok p" using filter_steps_ok [OF assms(1)] all_fx_okD [OF _ assms(2)] by blast
  then show ?thesis
    using tempo_str_range [of "gp_tempo p"] by (auto simp: fx_ok_def modulation_ok_def)
qed

lemma override_length [simp]: "length (override os xs) = length xs"
  by (induction os xs rule: override.induct) auto

lemma override_range:
  "list_all (case_option True P) os \<Longrightarrow> \<forall>x \<in> set xs. P x \<Longrightarrow> \<forall>x \<in> set (override os xs). P x"
  by (induction os xs rule: override.induct) (auto simp: the_arg_def split: option.splits)

lemma printed_not_Nil: "eq_bands eq \<noteq> [] \<Longrightarrow> equalizer_fx_t_to_af_args eq v \<noteq> []"
  by (cases "eq_bands eq") (auto simp: equalizer_fx_t_to_af_args_def)

text \<open>What the set action of the equalizer command does to the player, when it is not refused.\<close>

lemma eq_command:
  assumes "filters_slash_run dv g a m = Inr (m', eff)" and "fa_sub a = Some ''equalizer''"
    and "fa_action a = Some ''0''" and "eff \<noteq> [E_reply not_ready_reply]" and "get_player g m = Some p"
  shows "\<exists>p' s. eq_set (fa_volume a) (fa_bands a) p = Inr (p', s) \<and> get_player g m' = Some p'"
  using assms
  by (auto simp: filters_slash_run_def filter_handlers_def eq_run_def eq_handlers_def the_arg_def run_on_player_def
      perquisite_def reply_def Let_def get_player_def put_player_def dest!: bind_result_Inr split: if_splits)

definition no_args :: filter_args where
  "no_args = \<lparr>fa_sub = None, fa_group_sub = None, fa_action = None, fa_volume = None, fa_bands = replicate 18 None,
    fa_rate = None, fa_speed = None, fa_percentage = None, fa_frequency = None, fa_intensity = None,
    fa_name = None, fa_user_id = 9, fa_create_status = 1, fa_preset = ([], [], 2)\<rparr>"

lemma ready_player: "cmd_pre_get_player_manager_ready_werr g (put_player g p manager_init) = 0"
  by (simp add: cmd_pre_get_player_manager_ready_werr_def voice_ready_def put_player_def manager_init_def
      is_disconnecting_def is_connecting_def is_waiting_vc_ready_def)

theorem filter_settings_bounded_witness:
  "\<exists>m p s. (filter_step sample_view)\<^sup>*\<^sup>* manager_init m \<and> get_player 1 m = Some p \<and> gp_tempo p = tempo_max
    \<and> tempo_str (gp_tempo p) = Inr s \<and> length s = 4"
proof -
  let ?p = "guild_player_new 1 2"
  let ?m = "put_player 1 ?p manager_init"
  let ?load = "no_args\<lparr>fa_sub := Some ''equalizer_presets'', fa_group_sub := Some ''view'', fa_name := Some ''x''\<rparr>"
  let ?fast = "no_args\<lparr>fa_sub := Some ''tempo'', fa_speed := Some (fl_of_int 53 9)\<rparr>"
  have "create_player sample_view 1 manager_init = (Some ?p, ?m)"
    by (simp add: create_player_def sample_defs manager_init_def Let_def)
  then have "filters_slash_run sample_view 1 ?load manager_init
      = Inr (put_player 1 ?p ?m, [E_reply ''Can't find preset with that name''])"
    by (simp add: filters_slash_run_def filter_handlers_def preset_run_def preset_handlers_def run_preset_def
        preset_load_or_view_def no_args_def the_arg_def)
  then have s1: "filter_step sample_view manager_init ?m"
    using filter_step.intros [of sample_view 1 ?load manager_init "put_player 1 ?p ?m"] by (simp add: put_player_def)
  have c: "fl_clamp tempo_min tempo_max (fl_of_int 53 9) = tempo_max" "\<not> fl_eq (fl_of_int 53 9) fl_1" "\<not> fl_eq tempo_max fl_1"
    "tempo_str tempo_max = Inr ''4.00''" by code_simp+
  have t: "get_player 1 ?m = Some ?p" "gp_tempo ?p = fl_1"
    by (simp_all add: get_player_def put_player_def guild_player_new_def player_init_def)
  have f: "tempo_run (Some (fl_of_int 53 9)) ?p = Inr (?p\<lparr>gp_tempo := tempo_max\<rparr>, [''Setting tempo to 4.00x''])"
    unfolding tempo_run_def the_arg_def option.case t c Let_def by (simp add: c)
  have "filters_slash_run sample_view 1 ?fast ?m
      = Inr (put_player 1 (?p\<lparr>gp_tempo := tempo_max\<rparr>) ?m, [E_reply ''Setting tempo to 4.00x''])"
    using f t(1) by (simp add: filters_slash_run_def filter_handlers_def run_on_player_def perquisite_def ready_player no_args_def)
  then have "filter_step sample_view ?m (put_player 1 (?p\<lparr>gp_tempo := tempo_max\<rparr>) ?m)" by (rule filter_step.intros)
  then have r: "(filter_step sample_view)\<^sup>*\<^sup>* manager_init (put_player 1 (?p\<lparr>gp_tempo := tempo_max\<rparr>) ?m)"
    by (rule converse_rtranclp_into_rtranclp [of "filter_step sample_view", OF s1 r_into_rtranclp])
  moreover have g: "get_player 1 (put_player 1 (?p\<lparr>gp_tempo := tempo_max\<rparr>) ?m) = Some (?p\<lparr>gp_tempo := tempo_max\<rparr>)"
    by (simp add: get_player_def put_player_def)
  ultimately show ?thesis using filter_settings_bounded [OF r g] by auto
qed

text \<open>A second equalizer command undoes the first. A player keeps its equalizer as text
  without a volume, and the command reads it back before changing it: the gain of band 1 is
  taken for the volume, every other gain moves down by one band and the last one falls back to
  50; only then are the bands that the second command names set.\<close>

theorem second_equalizer_shifts:
  assumes "get_player g m = Some p" and "gp_equalizer p = []"
    and "fa_sub a1 = Some ''equalizer''" and "fa_action a1 = Some ''0''"
    and "fa_sub a2 = Some ''equalizer''" and "fa_action a2 = Some ''0''"
    and "filters_slash_run dv g a1 m = Inr (m1, e1)" and "filters_slash_run dv g a2 m1 = Inr (m2, e2)"
    and "e1 \<noteq> [E_reply not_ready_reply]" and "e2 \<noteq> [E_reply not_ready_reply]"
    and "list_all (case_option True (\<lambda>b. 1 \<le> b \<and> b \<le> 200)) (fa_bands a1)"
  shows "\<exists>p2 eq. get_player g m2 = Some p2 \<and> gp_equalizer p2 = equalizer_fx_t_to_af_args eq False
    \<and> eq_bands eq = override (fa_bands a2) (map drift (tl (override (fa_bands a1) (replicate 18 50))) @ [50])"
proof -
  let ?b = "override (fa_bands a1) (replicate 18 (50::int))"
  have b: "length ?b = 18" "\<forall>x \<in> set ?b. 1 \<le> x \<and> x \<le> 200"
    using override_range [OF assms(11), of "replicate 18 50"] by (simp_all add: override_length)
  obtain p1 where p1: "get_player g m1 = Some p1" "gp_equalizer p1 = equalizer_fx_t_to_af_args
      \<lparr>eq_volume = the_arg (- 1) (fa_volume a1), eq_bands = ?b\<rparr> False"
    using eq_command [OF assms(7,3,4,9,1)] assms(2) by (auto simp: eq_set_def Let_def create_equalizer_fx_t_def)
  have "gp_equalizer p1 \<noteq> []" unfolding p1 using b(1) by (intro printed_not_Nil) (cases ?b; simp)
  moreover have "af_args_to_equalizer_fx_t (gp_equalizer p1)
      = Inr \<lparr>eq_volume = drift (hd ?b), eq_bands = map drift (tl ?b) @ [50]\<rparr>"
    unfolding p1(2) by (subst equalizer_without_volume_shifts) (use b in auto)
  ultimately show ?thesis
    using eq_command [OF assms(8,5,6,10) p1(1)]
    by (auto simp: eq_set_def Let_def intro!: exI [of _ "\<lparr>eq_volume = the_arg (- 1) (fa_volume a2), eq_bands = _\<rparr>"])
qed

theorem second_equalizer_shifts_witness:
  "\<exists>m1 e1 m2 e2 p2 eq. filters_slash_run sample_view 1
        (no_args\<lparr>fa_sub := Some ''equalizer'', fa_action := Some ''0'', fa_bands := Some 150 # replicate 17 None\<rparr>)
        (put_player 1 (guild_player_new 1 2) manager_init) = Inr (m1, e1)
    \<and> filters_slash_run sample_view 1
        (no_args\<lparr>fa_sub := Some ''equalizer'', fa_action := Some ''0'', fa_bands := replicate 17 None @ [Some 80]\<rparr>) m1 = Inr (m2, e2)
    \<and> get_player 1 m2 = Some p2 \<and> gp_equalizer p2 = equalizer_fx_t_to_af_args eq False
    \<and> eq_bands eq = replicate 17 50 @ [80]"
proof -
  let ?m = "put_player 1 (guild_player_new 1 2) manager_init"
  let ?a1 = "no_args\<lparr>fa_sub := Some ''equalizer'', fa_action := Some ''0'', fa_bands := Some 150 # replicate 17 None\<rparr>"
  let ?a2 = "no_args\<lparr>fa_sub := Some ''equalizer'', fa_action := Some ''0'', fa_bands := replicate 17 None @ [Some 80]\<rparr>"
  let ?e = "equalizer_fx_t_to_af_args \<lparr>eq_volume = - 1, eq_bands = 150 # replicate 17 50\<rparr> False"
  let ?p = "(guild_player_new 1 2)\<lparr>gp_equalizer := ?e\<rparr>"
  have g: "get_player 1 ?m = Some (guild_player_new 1 2)" "gp_equalizer (guild_player_new 1 2) = []"
    by (simp_all add: get_player_def put_player_def guild_player_new_def player_init_def)
  have o: "override (Some 150 # replicate 17 None) (replicate 18 (50::int)) = 150 # replicate 17 50"
    "override (replicate 17 None @ [Some 80]) (replicate 17 50 @ [50::int]) = replicate 17 50 @ [80]"
    by (simp_all add: numeral_eq_Suc the_arg_def)
  have "\<exists>e1. filters_slash_run sample_view 1 ?a1 ?m = Inr (put_player 1 ?p ?m, e1) \<and> e1 \<noteq> [E_reply not_ready_reply]"
    using g o(1) by (simp add: filters_slash_run_def filter_handlers_def eq_run_def eq_handlers_def run_on_player_def
        perquisite_def ready_player eq_set_def no_args_def the_arg_def create_equalizer_fx_t_def Let_def not_ready_reply_def)
  then obtain e1 where r1: "filters_slash_run sample_view 1 ?a1 ?m = Inr (put_player 1 ?p ?m, e1)"
    and n1: "e1 \<noteq> [E_reply not_ready_reply]" by blast
  have g1: "get_player 1 (put_player 1 ?p ?m) = Some ?p" by (simp add: get_player_def put_player_def)
  have w: "cmd_pre_get_player_manager_ready_werr 1 (put_player 1 ?p ?m) = 0"
    using ready_player [of 1 ?p] by (simp add: put_player_def)
  have "af_args_to_equalizer_fx_t ?e = Inr \<lparr>eq_volume = 150, eq_bands = replicate 17 50 @ [50]\<rparr>"
    by (subst equalizer_without_volume_shifts) (auto simp: drift_def)
  moreover have "?e \<noteq> []" by (rule printed_not_Nil) simp
  ultimately have "\<exists>m2 e2. filters_slash_run sample_view 1 ?a2 (put_player 1 ?p ?m) = Inr (m2, e2) \<and> e2 \<noteq> [E_reply not_ready_reply]"
    using g1 w by (simp add: filters_slash_run_def filter_handlers_def eq_run_def eq_handlers_def run_on_player_def
        perquisite_def eq_set_def no_args_def the_arg_def Let_def not_ready_reply_def)
  then obtain m2 e2 where r2: "filters_slash_run sample_view 1 ?a2 (put_player 1 ?p ?m) = Inr (m2, e2)"
    and n2: "e2 \<noteq> [E_reply not_ready_reply]" by blast
  have "\<exists>p2 eq. get_player 1 m2 = Some p2 \<and> gp_equalizer p2 = equalizer_fx_t_to_af_args eq False
      \<and> eq_bands eq = override (fa_bands ?a2) (map drift (tl (override (fa_bands ?a1) (replicate 18 50))) @ [50])"
    by (rule second_equalizer_shifts [OF g _ _ _ _ r1 r2 n1 n2]) (simp_all add: list_all_iff)
  then show ?thesis using r1 r2 o by (auto simp: drift_def)
qed

end
