(* ===== verification/Paginate.thy ===== *)
theory Paginate
  imports Seek Interfaces
begin

text \<open>
  Messages with pages: \<open>src/musicat/pagination.cpp\<close>, with the storage of
  \<open>src/musicat/storage.cpp\<close>, the search results of \<open>src/musicat/cmds/search.cpp\<close> and the
  choice of a result in \<open>src/musicat/events/on_form_submit.cpp\<close>. A list of tracks is cut into
  embeds; the embeds are kept under the id of the message, and buttons flip them. Discord's
  answer to a flip comes later, through a callback that holds a plain pointer to the entry.
\<close>

section \<open>Storage\<close>

type_synonym 'a storage = "snowflake \<rightharpoonup> 'a"

definition storage_get :: "'a storage \<Rightarrow> snowflake \<Rightarrow> 'a option" where
  "storage_get s i = s i"

definition storage_set :: "snowflake \<Rightarrow> 'a \<Rightarrow> 'a storage \<Rightarrow> 'a storage" where
  "storage_set i data s = s(i \<mapsto> data)"

definition storage_remove :: "snowflake \<Rightarrow> 'a storage \<Rightarrow> 'a storage" where
  "storage_remove i s = s(i := None)"

interpretation message_storage: kv_store storage_get storage_set storage_remove
  by unfold_locales (auto simp: storage_get_def storage_set_def storage_remove_def)

section \<open>The table of messages\<close>

record embed =
  em_title :: string
  em_description :: string
  em_footer :: string

record page_message =
  pm_id :: snowflake
  pm_created :: int
  pm_embeds :: "embed list"
  pm_disabled :: bool

record pages_t =
  pg_message :: page_message
  pg_pages :: "embed list"
  pg_current :: "64 word"
  pg_has_storage_data :: bool

record paginated =
  pn_messages :: "snowflake \<rightharpoonup> pages_t"
  pn_storage :: "MCTrack list storage"

text \<open>What the program does towards Discord. \<open>P_update\<close> sends the edited message; its answer
  comes to \<open>edit_cb\<close> with the number of the page. \<open>P_freed_lock\<close>: the entry is erased by a
  function that holds the entry's own mutex and unlocks it afterwards.\<close>

datatype page_effect =
    P_ack
  | P_update snowflake page_message "64 word"
  | P_missing
  | P_modal
  | P_not_number
  | P_too_big
  | P_freed_lock

definition npos :: "64 word" where "npos = - 1"

definition ONE_HOUR_SECOND :: int where "ONE_HOUR_SECOND = 3600"

definition delete_page :: "snowflake \<Rightarrow> paginated \<Rightarrow> paginated" where
  "delete_page msg_id s =
    (case pn_messages s msg_id of
       None \<Rightarrow> s
     | Some del \<Rightarrow>
         s\<lparr>pn_storage := (if pg_has_storage_data del then storage_remove msg_id (pn_storage s) else pn_storage s),
           pn_messages := (pn_messages s)(msg_id := None)\<rparr>)"

definition pages_edit ::
  "int \<Rightarrow> bool \<Rightarrow> snowflake \<Rightarrow> 64 word \<Rightarrow> pages_t \<Rightarrow> paginated \<Rightarrow> (paginated \<times> page_effect list) result" where
  "pages_edit now can_read key c b s =
    (let msg = pg_message b; disable_components = (now - pm_created msg > ONE_HOUR_SECOND)
     in if pg_current b = c then Inr (s, [P_ack])
        else if \<not> can_read then
          Inr (if disable_components then (delete_page (pm_id msg) s, [P_freed_lock]) else (s, []))
        else if length (pg_pages b) \<le> unat c then Inl Out_of_range
        else
          let msg1 = msg\<lparr>pm_embeds := [pg_pages b ! unat c], pm_disabled := pm_disabled msg \<or> disable_components\<rparr>
          in Inr (s\<lparr>pn_messages := (pn_messages s)(key \<mapsto> b\<lparr>pg_message := msg1\<rparr>)\<rparr>,
               [P_update key msg1 (if disable_components then npos else c)]))"

definition pages_size :: "pages_t \<Rightarrow> 64 word" where
  "pages_size b = of_nat (length (pg_pages b))"

definition page_after :: "pages_t \<Rightarrow> 64 word" where
  "page_after b = (if pg_current b = pages_size b - 1 then 0 else pg_current b + 1)"

definition page_before :: "pages_t \<Rightarrow> 64 word" where
  "page_before b = (if pg_current b = 0 then pages_size b - 1 else pg_current b - 1)"

definition update_page ::
  "int \<Rightarrow> bool \<Rightarrow> snowflake \<Rightarrow> string \<Rightarrow> paginated \<Rightarrow> (paginated \<times> page_effect list) result" where
  "update_page now can_read msg_id param s =
    (if param = [] then Inr (s, [])
     else case pn_messages s msg_id of
       None \<Rightarrow> Inr (s, [P_missing])
     | Some b \<Rightarrow>
         if param = ''n'' then pages_edit now can_read msg_id (page_after b) b s
         else if param = ''p'' then pages_edit now can_read msg_id (page_before b) b s
         else if param = ''h'' then pages_edit now can_read msg_id 0 b s
         else if param = ''j'' then Inr (s, [P_modal])
         else if valid_number param \<noteq> 0 then Inr (s, [P_not_number])
         else
           (case stoll param of
              Inl e \<Rightarrow> Inr (s, [P_too_big])
            | Inr v \<Rightarrow>
                let pn = v - 1; max_psize = int (length (pg_pages b)) - 1;
                    pn1 = (if pn > max_psize then max_psize else if pn < 0 then 0 else pn)
                in case pages_edit now can_read msg_id (word_of_int pn1) b s of
                     Inl e \<Rightarrow> Inr (s, [P_too_big]) | Inr r \<Rightarrow> Inr r))"

text \<open>Discord's answer. The callback's pointer must still be valid.\<close>

datatype confirmation = Cb_error | Cb_message page_message | Cb_other

definition edit_cb ::
  "snowflake \<Rightarrow> 64 word \<Rightarrow> confirmation \<Rightarrow> paginated \<Rightarrow> (paginated \<times> page_effect list) result" where
  "edit_cb key new_current cb s =
    (case pn_messages s key of
       None \<Rightarrow> Inl Undefined
     | Some b \<Rightarrow>
         if cb = Cb_error then Inr (s, [])
         else if new_current = npos then Inr (delete_page (pm_id (pg_message b)) s, [P_freed_lock])
         else
           let msg = (case cb of Cb_message m \<Rightarrow> m | _ \<Rightarrow> pg_message b)
           in Inr (s\<lparr>pn_messages := (pn_messages s)(key \<mapsto> b\<lparr>pg_message := msg, pg_current := new_current\<rparr>)\<rparr>, []))"

text \<open>The callback of a reply: the entry is made when the message is known.\<close>

definition reply_cb ::
  "bool \<Rightarrow> embed list \<Rightarrow> MCTrack list option \<Rightarrow> page_message option \<Rightarrow> paginated \<Rightarrow> paginated" where
  "reply_cb paginate embeds storage_data answer s =
    (case answer of
       None \<Rightarrow> s
     | Some m \<Rightarrow>
         if paginate \<or> storage_data \<noteq> None then
           s\<lparr>pn_messages := (pn_messages s)(pm_id m \<mapsto>
               \<lparr>pg_message = m, pg_pages = embeds, pg_current = 0, pg_has_storage_data = (storage_data \<noteq> None)\<rparr>),
             pn_storage := (case storage_data of None \<Rightarrow> pn_storage s | Some d \<Rightarrow> storage_set (pm_id m) d (pn_storage s))\<rparr>
         else s)"

definition page_expired :: "bool \<Rightarrow> int \<Rightarrow> pages_t \<Rightarrow> bool" where
  "page_expired clear now b \<longleftrightarrow> clear \<or> now - pm_created (pg_message b) > ONE_HOUR_SECOND"

definition pages_gc :: "bool \<Rightarrow> int \<Rightarrow> paginated \<Rightarrow> paginated" where
  "pages_gc clear now s =
    (let gone = (\<lambda>id. case pn_messages s id of None \<Rightarrow> False | Some b \<Rightarrow> page_expired clear now b)
     in s\<lparr>pn_storage := (\<lambda>id. if gone id then None else pn_storage s id),
          pn_messages := (\<lambda>id. if gone id then None else pn_messages s id)\<rparr>)"

definition pages_deleted :: "snowflake list \<Rightarrow> paginated \<Rightarrow> paginated" where
  "pages_deleted ids s = fold delete_page ids s"

section \<open>The embeds of a queue\<close>

definition newline :: char where "newline = CHR 0x0A"

definition mention :: "MCTrack \<Rightarrow> string" where
  "mention t = '' - <@'' @ nat_str (unat (tr_user_id t)) @ ''>''"

definition title_link :: "yt_api \<Rightarrow> MCTrack \<Rightarrow> string" where
  "title_link yt t = ''['' @ get_title yt t @ ''](''  @ get_url yt t @ '')''"

definition current_text :: "yt_api \<Rightarrow> guild_player_t option \<Rightarrow> MCTrack \<Rightarrow> string result" where
  "current_text yt gp t =
    bind_result (get_track_progress yt (case gp of None \<Rightarrow> t
        | Some p \<Rightarrow> if player_has_current_track gp then gp_current_track p else t)) (\<lambda>prog.
      Inr (''Current track: '' @ title_link yt t
        @ (if tp_status prog = 0 then '' ['' @ format_duration (word_of_int (tp_current_ms prog)) @ ''/''
             @ format_duration (word_of_int (tp_duration prog)) @ '']'' else [])
        @ mention t @ [newline, newline]))"

definition queued_text :: "yt_api \<Rightarrow> nat \<Rightarrow> MCTrack \<Rightarrow> string result" where
  "queued_text yt n t =
    bind_result (get_duration yt t) (\<lambda>dur.
      Inr (nat_str n @ '': '' @ title_link yt t
        @ (if dur \<noteq> 0 then '' ['' @ format_duration dur @ '']'' else []) @ mention t @ [newline]))"

record desc_state =
  ds_desc :: string
  ds_id :: nat
  ds_count :: nat
  ds_embeds :: "embed list"

definition page_footer :: "64 word \<Rightarrow> nat \<Rightarrow> string" where
  "page_footer totald qs =
    (let a = (if totald \<noteq> 0 then format_duration totald else [])
     in a @ (if qs \<noteq> 0 then (if a \<noteq> [] then '' | '' else []) @ nat_str qs @ '' track'' @ (if qs > 1 then ''s'' else [])
             else []))"

definition page_text :: "string \<Rightarrow> string \<Rightarrow> string" where
  "page_text too_long desc = (if length desc > 2048 then too_long else desc)"

definition queue_too_long :: string where
  "queue_too_long = ''Description too long, pagination is on the way!''"

definition construct_desc ::
  "yt_api \<Rightarrow> guild_player_t option \<Rightarrow> string \<Rightarrow> string \<Rightarrow> nat \<Rightarrow> bool \<Rightarrow> MCTrack \<Rightarrow> desc_state \<Rightarrow> desc_state result" where
  "construct_desc yt gp title footer qs is_first t d =
    bind_result (if is_first then current_text yt gp t else queued_text yt (ds_id d) t) (\<lambda>s.
      let desc = ds_desc d @ s;
          id = (if is_first then ds_id d else ds_id d + 1);
          cnt = (if is_first then ds_count d else ds_count d + 1)
      in if cnt \<noteq> 0 \<and> cnt mod 10 = 0 \<or> id = qs
         then Inr \<lparr>ds_desc = [], ds_id = id, ds_count = 0, ds_embeds = ds_embeds d
           @ [\<lparr>em_title = title, em_description = page_text queue_too_long desc, em_footer = footer\<rparr>]\<rparr>
         else Inr (d\<lparr>ds_desc := desc, ds_id := id, ds_count := cnt\<rparr>))"

fun construct_all ::
  "yt_api \<Rightarrow> guild_player_t option \<Rightarrow> string \<Rightarrow> string \<Rightarrow> nat \<Rightarrow> bool \<Rightarrow> MCTrack list \<Rightarrow> desc_state \<Rightarrow> desc_state result" where
  "construct_all yt gp title footer qs is_first [] d = Inr d"
| "construct_all yt gp title footer qs is_first (t # ts) d =
    bind_result (construct_desc yt gp title footer qs is_first t d) (\<lambda>d1.
      construct_all yt gp title footer qs False ts d1)"

fun total_duration :: "yt_api \<Rightarrow> MCTrack list \<Rightarrow> 64 word \<Rightarrow> 64 word result" where
  "total_duration yt [] d = Inr d"
| "total_duration yt (t # ts) d = bind_result (get_duration yt t) (\<lambda>x. total_duration yt ts (d + x))"

text \<open>The embeds, and whether the message gets the buttons.\<close>

definition reply_paginated_playlist ::
  "yt_api \<Rightarrow> guild_player_t option \<Rightarrow> MCTrack list \<Rightarrow> string \<Rightarrow> (embed list \<times> bool) result" where
  "reply_paginated_playlist yt gp queue title =
    bind_result (total_duration yt queue 0) (\<lambda>totald.
    bind_result (construct_all yt gp title (page_footer totald (length queue)) (length queue) True queue
        \<lparr>ds_desc = [], ds_id = 1, ds_count = 0, ds_embeds = []\<rparr>) (\<lambda>d.
      if ds_embeds d = [] then Inl Undefined else Inr (ds_embeds d, length (ds_embeds d) > 1)))"

section \<open>Search results\<close>









section \<open>Cutting a list into pages\<close>

text \<open>Ten entries to a page; \<open>g\<close> are those of the page begun, \<open>c\<close> of them counted.\<close>

fun split_rest :: "nat \<Rightarrow> 'a list \<Rightarrow> 'a list \<Rightarrow> 'a list list" where
  "split_rest c g [] = []"
| "split_rest c g (t # ts) =
    (if Suc c = 10 \<or> ts = [] then (g @ [t]) # split_rest 0 [] ts else split_rest (Suc c) (g @ [t]) ts)"

lemma concat_split_rest: "ts \<noteq> [] \<Longrightarrow> concat (split_rest c g ts) = g @ ts"
proof (induction c g ts rule: split_rest.induct)
  case (2 c g t ts)
  then show ?case by (cases "ts = []") auto
qed simp

lemma length_split_rest: "c < 10 \<Longrightarrow> ts \<noteq> [] \<Longrightarrow> length (split_rest c g ts) = (c + length ts + 9) div 10"
proof (induction c g ts rule: split_rest.induct)
  case (2 c g t ts)
  show ?case
  proof (cases "ts = []")
    case False
    show ?thesis
    proof (cases "Suc c = 10")
      case True
      then show ?thesis using 2(1) False by simp
    next
      case c: False
      then show ?thesis using 2(2) 2(3) False by simp
    qed
  qed (use 2(3) in simp)
qed simp

lemma split_rest_sizes:
  "c < 10 \<Longrightarrow> length g = c + e \<Longrightarrow> list_all (\<lambda>p. p \<noteq> [] \<and> length p \<le> 10 + e) (split_rest c g ts)"
proof (induction c g ts arbitrary: e rule: split_rest.induct)
  case (2 c g t ts)
  have "list_all (\<lambda>p. p \<noteq> [] \<and> length p \<le> 10 + e) (split_rest 0 [] ts)" if "Suc c = 10 \<or> ts = []"
    using 2(1) [OF that, of 0] by (auto simp: list_all_iff)
  then show ?case using 2(2) [of e] 2(3,4) by auto
qed simp


definition page_of :: "string \<Rightarrow> string \<Rightarrow> string \<Rightarrow> string list \<Rightarrow> embed" where
  "page_of title too_long footer g =
    \<lparr>em_title = title, em_description = page_text too_long (concat g), em_footer = footer\<rparr>"

section \<open>The pages of a queue\<close>

lemma construct_queued:
  assumes "construct_all yt gp title footer qs False ts d = Inr d'" and "ds_id d + length ts = qs"
    and "ds_count d < 10" and "ds_desc d = concat g"
  shows "\<exists>ss. length ss = length ts \<and> (\<forall>k < length ts. queued_text yt (ds_id d + k) (ts ! k) = Inr (ss ! k))
    \<and> ds_embeds d' = ds_embeds d @ map (page_of title queue_too_long footer) (split_rest (ds_count d) g ss)"
  using assms
proof (induction ts arbitrary: d g)
  case (Cons t ts)
  obtain s d1 where s: "queued_text yt (ds_id d) t = Inr s"
    and d1: "construct_desc yt gp title footer qs False t d = Inr d1"
      "construct_all yt gp title footer qs False ts d1 = Inr d'"
    using Cons.prems(1) by (auto simp: construct_desc_def elim!: bind_resultE)
  let ?flush = "Suc (ds_count d) = 10 \<or> ts = []"
  have m: "Suc (ds_count d) mod 10 = 0 \<longleftrightarrow> Suc (ds_count d) = 10" using Cons.prems(3) by presburger
  have f: "ds_id d1 = ds_id d + 1" "ds_count d1 = (if ?flush then 0 else Suc (ds_count d))"
    "ds_desc d1 = concat (if ?flush then [] else g @ [s])"
    "ds_embeds d1 = ds_embeds d @ (if ?flush then [page_of title queue_too_long footer (g @ [s])] else [])"
    using d1(1) s m Cons.prems(2,4) by (auto simp: construct_desc_def Let_def page_of_def split: if_splits)
  have p: "ds_id d1 + length ts = qs" "ds_count d1 < 10" using f(1,2) Cons.prems(2,3) by auto
  obtain ss where ss: "length ss = length ts" "\<forall>k < length ts. queued_text yt (ds_id d1 + k) (ts ! k) = Inr (ss ! k)"
    "ds_embeds d' = ds_embeds d1 @ map (page_of title queue_too_long footer)
      (split_rest (ds_count d1) (if ?flush then [] else g @ [s]) ss)"
    using Cons.IH [OF d1(2) p f(3)] by blast
  have "\<forall>k < length (t # ts). queued_text yt (ds_id d + k) ((t # ts) ! k) = Inr ((s # ss) ! k)"
    using ss(2) s f(1) by (auto simp: less_Suc_eq_0_disj)
  moreover have "ts = [] \<longleftrightarrow> ss = []" using ss(1) by auto
  ultimately show ?case using ss(1,3) f(2,4) by (intro exI [of _ "s # ss"]) auto
qed (auto simp: page_of_def)

lemma construct_queue:
  assumes "construct_all yt gp title footer (length (t # ts)) True (t # ts)
      \<lparr>ds_desc = [], ds_id = 1, ds_count = 0, ds_embeds = []\<rparr> = Inr d'"
  shows "\<exists>s ss. current_text yt gp t = Inr s \<and> length ss = length ts
    \<and> (\<forall>k < length ts. queued_text yt (Suc k) (ts ! k) = Inr (ss ! k))
    \<and> ds_embeds d' = map (page_of title queue_too_long footer) (if ss = [] then [[s]] else split_rest 0 [s] ss)"
proof -
  obtain s d1 where s: "current_text yt gp t = Inr s"
    and d1: "construct_desc yt gp title footer (length (t # ts)) True t
        \<lparr>ds_desc = [], ds_id = 1, ds_count = 0, ds_embeds = []\<rparr> = Inr d1"
      "construct_all yt gp title footer (length (t # ts)) False ts d1 = Inr d'"
    using assms by (auto simp: construct_desc_def elim!: bind_resultE)
  have f: "ds_id d1 = 1" "ds_count d1 = 0" "ds_desc d1 = concat (if ts = [] then [] else [s])"
    "ds_embeds d1 = (if ts = [] then [page_of title queue_too_long footer [s]] else [])"
    using d1(1) s by (auto simp: construct_desc_def Let_def page_of_def split: if_splits)
  from construct_queued [OF d1(2) _ _ f(3)] f(1,2)
  obtain ss where "length ss = length ts" "\<forall>k < length ts. queued_text yt (1 + k) (ts ! k) = Inr (ss ! k)"
    "ds_embeds d' = ds_embeds d1 @ map (page_of title queue_too_long footer) (split_rest 0 (if ts = [] then [] else [s]) ss)"
    by auto
  then show ?thesis using s f(4) by (intro exI [of _ s] exI [of _ ss]) auto
qed

text \<open>C34: The pages of a queue show every track once and in order. The texts of the tracks (the
  playing one first, the others numbered by their position) are cut into consecutive pages of at
  most ten numbered tracks, none empty, and the message gets the buttons exactly when there are
  more than eleven tracks. (Only a page whose text is longer than 2048 bytes is replaced by a
  remark.)\<close>

theorem queue_pages_show_all:
  assumes "reply_paginated_playlist yt gp queue title = Inr (embeds, buttons)"
  shows "\<exists>texts gs footer. length texts = length queue \<and> current_text yt gp (hd queue) = Inr (hd texts)
    \<and> (\<forall>k \<in> {0<..<length queue}. queued_text yt k (queue ! k) = Inr (texts ! k))
    \<and> concat gs = texts \<and> list_all (\<lambda>g. g \<noteq> [] \<and> length g \<le> 11) gs
    \<and> embeds = map (page_of title queue_too_long footer) gs
    \<and> length embeds = max 1 ((length queue + 8) div 10) \<and> (buttons \<longleftrightarrow> length queue > 11)"
proof -
  obtain t ts where q: "queue = t # ts"
    using assms by (cases queue) (auto simp: reply_paginated_playlist_def)
  obtain d footer where d: "construct_all yt gp title footer (length (t # ts)) True (t # ts)
      \<lparr>ds_desc = [], ds_id = 1, ds_count = 0, ds_embeds = []\<rparr> = Inr d" and e: "embeds = ds_embeds d" "buttons \<longleftrightarrow> length embeds > 1"
    using assms unfolding q reply_paginated_playlist_def
    by (auto simp del: construct_all.simps total_duration.simps elim!: bind_resultE split: if_splits)
  obtain s ss where s: "current_text yt gp t = Inr s" "length ss = length ts"
    "\<forall>k < length ts. queued_text yt (Suc k) (ts ! k) = Inr (ss ! k)"
    "ds_embeds d = map (page_of title queue_too_long footer) (if ss = [] then [[s]] else split_rest 0 [s] ss)"
    using construct_queue [OF d] by blast
  let ?gs = "if ss = [] then [[s]] else split_rest 0 [s] ss"
  have "concat ?gs = s # ss" by (simp add: concat_split_rest)
  moreover have "list_all (\<lambda>g. g \<noteq> [] \<and> length g \<le> 11) ?gs" using split_rest_sizes [of 0 "[s]" 1 ss] by simp
  moreover have l: "length ?gs = max 1 ((length queue + 8) div 10)"
  proof (cases "ss = []")
    case False
    then have "length ss > 0" by simp
    then have "1 \<le> (length ss + 9) div 10" by linarith
    then show ?thesis using s(2) False by (simp add: q length_split_rest add.commute)
  qed (use s(2) in \<open>simp add: q\<close>)
  moreover have "\<forall>k \<in> {0<..<length queue}. queued_text yt k (queue ! k) = Inr ((s # ss) ! k)"
    using s(3) by (auto simp: q gr0_conv_Suc)
  moreover have "buttons \<longleftrightarrow> length queue > 11" using e l by (auto simp: s(4))
  ultimately show ?thesis
    using s(1,2,4) e(1) by (intro exI [of _ "s # ss"] exI [of _ ?gs] exI [of _ footer]) (auto simp: q)
qed

section \<open>The pages of a search\<close>



section \<open>Runs of the table\<close>

text \<open>Messages are made, flipped by users at any time, answered by Discord in any order, deleted and
  collected. The ids of messages are never used twice. An answer for an entry that is gone has no
  step: the callback's pointer dangles.\<close>

record page_sys =
  ps_table :: paginated
  ps_used :: "snowflake list"
  ps_pending :: "(snowflake \<times> 64 word) list"

fun updates :: "page_effect list \<Rightarrow> (snowflake \<times> 64 word) list" where
  "updates [] = []"
| "updates (P_update k m c # es) = (k, c) # updates es"
| "updates (e # es) = updates es"

definition page_sys_start :: page_sys where
  "page_sys_start = \<lparr>ps_table = \<lparr>pn_messages = Map.empty, pn_storage = Map.empty\<rparr>, ps_used = [], ps_pending = []\<rparr>"

inductive page_step :: "page_sys \<Rightarrow> page_sys \<Rightarrow> bool" where
  created: "pm_id m \<notin> set (ps_used s) \<Longrightarrow> embeds \<noteq> [] \<Longrightarrow> length embeds < 2 ^ 64
    \<Longrightarrow> page_step s (s\<lparr>ps_table := reply_cb (length embeds > 1) embeds data (Some m) (ps_table s),
          ps_used := pm_id m # ps_used s\<rparr>)"
| clicked: "update_page now can_read k param (ps_table s) = Inr (t, eff)
    \<Longrightarrow> page_step s (s\<lparr>ps_table := t, ps_pending := ps_pending s @ updates eff\<rparr>)"
| answered: "(k, c) \<in> set (ps_pending s) \<Longrightarrow> edit_cb k c cb (ps_table s) = Inr (t, eff)
    \<Longrightarrow> (\<And>m. cb = Cb_message m \<Longrightarrow> pm_id m = k)
    \<Longrightarrow> page_step s (s\<lparr>ps_table := t, ps_pending := remove1 (k, c) (ps_pending s)\<rparr>)"
| deleted: "page_step s (s\<lparr>ps_table := pages_deleted ids (ps_table s)\<rparr>)"
| collected: "page_step s (s\<lparr>ps_table := pages_gc clear now (ps_table s)\<rparr>)"

definition entry_ok :: "snowflake \<Rightarrow> pages_t \<Rightarrow> bool" where
  "entry_ok k b \<longleftrightarrow> unat (pg_current b) < length (pg_pages b) \<and> length (pg_pages b) < 2 ^ 64 \<and> pm_id (pg_message b) = k"

definition table_ok :: "paginated \<Rightarrow> bool" where
  "table_ok t \<longleftrightarrow> (\<forall>k b. pn_messages t k = Some b \<longrightarrow> entry_ok k b)
    \<and> (\<forall>k. pn_storage t k \<noteq> None \<longleftrightarrow> (\<exists>b. pn_messages t k = Some b \<and> pg_has_storage_data b))"

definition pending_ok :: "paginated \<Rightarrow> snowflake \<times> 64 word \<Rightarrow> bool" where
  "pending_ok t p \<longleftrightarrow>
    (\<forall>b. pn_messages t (fst p) = Some b \<longrightarrow> snd p = npos \<or> unat (snd p) < length (pg_pages b))"

definition page_sys_ok :: "page_sys \<Rightarrow> bool" where
  "page_sys_ok s \<longleftrightarrow> table_ok (ps_table s) \<and> dom (pn_messages (ps_table s)) \<subseteq> set (ps_used s)
    \<and> (\<forall>p \<in> set (ps_pending s). pending_ok (ps_table s) p \<and> fst p \<in> set (ps_used s))"

text \<open>An operation keeps the pages of an entry, or removes it.\<close>

definition pages_kept :: "paginated \<Rightarrow> paginated \<Rightarrow> bool" where
  "pages_kept t t' \<longleftrightarrow> (\<forall>k b'. pn_messages t' k = Some b'
    \<longrightarrow> (\<exists>b. pn_messages t k = Some b \<and> pg_pages b' = pg_pages b))"

lemma pages_kept_refl: "pages_kept t t"
  by (simp add: pages_kept_def)

lemma pages_kept_trans: "pages_kept t t' \<Longrightarrow> pages_kept t' t'' \<Longrightarrow> pages_kept t t''"
  unfolding pages_kept_def by metis

lemma page_sys_ok_kept:
  assumes "page_sys_ok s" and "pages_kept (ps_table s) t" and "table_ok t"
    and "\<forall>p \<in> set ps. p \<in> set (ps_pending s) \<or> pending_ok t p \<and> fst p \<in> set (ps_used s)"
  shows "page_sys_ok (s\<lparr>ps_table := t, ps_pending := ps\<rparr>)"
proof -
  have "dom (pn_messages t) \<subseteq> set (ps_used s)"
    using assms(1,2) unfolding page_sys_ok_def pages_kept_def by fast
  moreover have "pending_ok t p" if "pending_ok (ps_table s) p" for p
    using that assms(2) unfolding pending_ok_def pages_kept_def by metis
  ultimately show ?thesis using assms(1,3,4) by (auto simp: page_sys_ok_def)
qed

lemma delete_page_ok: "table_ok t \<Longrightarrow> table_ok (delete_page k t) \<and> pages_kept t (delete_page k t)"
  by (auto simp: table_ok_def pages_kept_def delete_page_def storage_remove_def split: option.split)

lemma pages_deleted_ok: "table_ok t \<Longrightarrow> table_ok (pages_deleted ks t) \<and> pages_kept t (pages_deleted ks t)"
proof (induction ks arbitrary: t)
  case (Cons k ks)
  then show ?case using delete_page_ok [of t k] pages_kept_trans by (force simp: pages_deleted_def)
qed (simp add: pages_deleted_def pages_kept_refl)

lemma pages_gc_ok: "table_ok t \<Longrightarrow> table_ok (pages_gc c now t) \<and> pages_kept t (pages_gc c now t)"
  by (auto simp: table_ok_def pages_kept_def pages_gc_def Let_def split: option.splits)

lemma word_page: "length xs < 2 ^ 64 \<Longrightarrow> unat (of_nat (length xs) :: 64 word) = length xs"
  by (simp add: unat_of_nat take_bit_eq_mod)

lemma page_after_less: "entry_ok k b \<Longrightarrow> unat (page_after b) < length (pg_pages b)"
proof -
  assume ok: "entry_ok k b"
  then have l: "unat (pages_size b) = length (pg_pages b)" by (simp add: pages_size_def word_page entry_ok_def)
  have c: "pg_current b < pages_size b" using ok l by (simp add: word_less_nat_alt entry_ok_def)
  show ?thesis
  proof (cases "pg_current b = pages_size b - 1")
    case True
    then show ?thesis using ok by (auto simp: page_after_def entry_ok_def)
  next
    case False
    then have "pg_current b + 1 \<noteq> pages_size b" by (simp add: eq_diff_eq)
    then have "pg_current b + 1 < pages_size b" using inc_le [OF c] by (simp add: order_less_le)
    then show ?thesis using l False by (simp add: page_after_def word_less_nat_alt)
  qed
qed

lemma page_before_less: "entry_ok k b \<Longrightarrow> unat (page_before b) < length (pg_pages b)"
proof -
  assume ok: "entry_ok k b"
  then have l: "unat (pages_size b) = length (pg_pages b)" by (simp add: pages_size_def word_page entry_ok_def)
  have c: "pg_current b < pages_size b" using ok l by (simp add: word_less_nat_alt entry_ok_def)
  have "page_before b < pages_size b" using c by (auto simp: page_before_def) uint_arith+
  then show ?thesis using l by (simp add: word_less_nat_alt)
qed

lemma entry_update_ok:
  assumes "table_ok t" and "pn_messages t k = Some b" and "entry_ok k b'" and "pg_pages b' = pg_pages b"
    and "pg_has_storage_data b' = pg_has_storage_data b"
  shows "table_ok (t\<lparr>pn_messages := (pn_messages t)(k \<mapsto> b')\<rparr>)"
    and "pages_kept t (t\<lparr>pn_messages := (pn_messages t)(k \<mapsto> b')\<rparr>)"
  using assms by (force simp: table_ok_def) (use assms in \<open>auto simp: pages_kept_def\<close>)

definition edited :: "paginated \<Rightarrow> snowflake \<Rightarrow> (paginated \<times> page_effect list) result \<Rightarrow> bool" where
  "edited t k r \<longleftrightarrow> (\<exists>t' eff. r = Inr (t', eff) \<and> table_ok t' \<and> pages_kept t t'
    \<and> (\<forall>p \<in> set (updates eff). fst p = k \<and> pn_messages t k \<noteq> None \<and> pending_ok t' p))"

lemma edited_same: "table_ok t \<Longrightarrow> updates eff = [] \<Longrightarrow> edited t k (Inr (t, eff))"
  by (simp add: edited_def pages_kept_refl)

lemma pages_edit_ok:
  assumes "table_ok t" and "pn_messages t k = Some b" and "unat c < length (pg_pages b)"
  shows "edited t k (pages_edit now r k c b t)"
proof -
  have b: "entry_ok k b" using assms(1,2) by (simp add: table_ok_def)
  have "table_ok (delete_page (pm_id (pg_message b)) t) \<and> pages_kept t (delete_page (pm_id (pg_message b)) t)"
    using delete_page_ok assms(1) by blast
  moreover have "entry_ok k (b\<lparr>pg_message := (pg_message b)\<lparr>pm_embeds := e, pm_disabled := d\<rparr>\<rparr>)" for e d
    using b by (simp add: entry_ok_def)
  note u = entry_update_ok [OF assms(1,2) this]
  ultimately show ?thesis
    using assms u by (auto simp: pages_edit_def Let_def edited_def pages_kept_refl pending_ok_def)
qed

lemma update_page_ok:
  assumes "table_ok t"
  shows "edited t k (update_page now r k param t)"
proof (cases "param = [] \<or> pn_messages t k = None")
  case True
  then show ?thesis using assms by (auto simp: update_page_def intro!: edited_same)
next
  case False
  then obtain b where b: "pn_messages t k = Some b" by auto
  then have ok: "entry_ok k b" using assms by (simp add: table_ok_def)
  have 0: "0 < length (pg_pages b)" "length (pg_pages b) < 2 ^ 64" using ok by (auto simp: entry_ok_def)
  note ed = pages_edit_ok [OF assms b, of _ now r]
  have num: "edited t k (case pages_edit now r k (word_of_int pn) b t of Inl e \<Rightarrow> Inr (t, [P_too_big]) | Inr y \<Rightarrow> Inr y)"
    if "0 \<le> pn" "pn < int (length (pg_pages b))" for pn
  proof -
    have "pn < 2 ^ 64" using that 0(2) by simp
    then have "unat (word_of_int pn :: 64 word) < length (pg_pages b)"
      using that by (simp add: unat_eq_nat_uint uint_word_of_int_eq take_bit_eq_mod nat_less_iff)
    from ed [OF this] show ?thesis by (auto simp: edited_def)
  qed
  let ?pn = "\<lambda>v. if v - 1 > int (length (pg_pages b)) - 1 then int (length (pg_pages b)) - 1 else if v - 1 < 0 then 0 else v - 1"
  have n: "edited t k (case pages_edit now r k (word_of_int (?pn v)) b t of Inl e \<Rightarrow> Inr (t, [P_too_big]) | Inr y \<Rightarrow> Inr y)" for v
    by (rule num) (use 0 in auto)
  consider "param = ''n''" | "param = ''p''" | "param = ''h''"
    | "param \<notin> {''n'', ''p'', ''h''}" "param = ''j'' \<or> valid_number param \<noteq> 0 \<or> (\<exists>e. stoll param = Inl e)"
    | v where "param \<notin> {''n'', ''p'', ''h'', ''j''}" "valid_number param = 0" "stoll param = Inr v"
    by (cases "stoll param") auto
  then show ?thesis
  proof cases
    case 4
    then show ?thesis using False b assms by (auto simp: update_page_def intro!: edited_same)
  next
    case 5
    then show ?thesis using n [of v] False b by (simp add: update_page_def Let_def split del: if_split)
  qed (use False b 0 ed [OF page_after_less [OF ok]] ed [OF page_before_less [OF ok]] ed [of 0] in
      \<open>simp_all add: update_page_def\<close>)
qed

lemma edit_cb_ok:
  assumes "table_ok t" and "pending_ok t (k, c)" and "edit_cb k c cb t = Inr (t', eff)"
    and "\<And>m. cb = Cb_message m \<Longrightarrow> pm_id m = k"
  shows "table_ok t' \<and> pages_kept t t'"
proof -
  obtain b where b: "pn_messages t k = Some b" using assms(3) by (auto simp: edit_cb_def split: option.splits)
  then have ok: "entry_ok k b" using assms(1) by (simp add: table_ok_def)
  have c: "c = npos \<or> unat c < length (pg_pages b)" using assms(2) b by (simp add: pending_ok_def)
  have "entry_ok k (b\<lparr>pg_message := m, pg_current := c\<rparr>)" if "c \<noteq> npos" "pm_id m = k" for m
    using ok c that by (simp add: entry_ok_def)
  note u = entry_update_ok [OF assms(1) b this]
  have o: "b\<lparr>pg_message := pg_message b, pg_current := c\<rparr> = b\<lparr>pg_current := c\<rparr>" by simp
  note uo = u [of "pg_message b", unfolded o]
  have "pm_id (pg_message b) = k" using ok by (simp add: entry_ok_def)
  then show ?thesis
    using assms(3,4) b delete_page_ok [OF assms(1), of k] u uo assms(1)
    by (cases cb) (auto simp: edit_cb_def Let_def pages_kept_refl split: if_splits)
qed

lemma reply_cb_ok:
  assumes "page_sys_ok s" and "pm_id m \<notin> set (ps_used s)" and "embeds \<noteq> []" and "length embeds < 2 ^ 64"
  shows "page_sys_ok (s\<lparr>ps_table := reply_cb paginate embeds data (Some m) (ps_table s), ps_used := pm_id m # ps_used s\<rparr>)"
proof -
  have f: "pn_messages (ps_table s) (pm_id m) = None" using assms(1,2) by (auto simp: page_sys_ok_def)
  then have "pn_storage (ps_table s) (pm_id m) = None" using assms(1) by (force simp: page_sys_ok_def table_ok_def)
  then have "table_ok (reply_cb paginate embeds data (Some m) (ps_table s))"
    using assms f by (auto simp: page_sys_ok_def table_ok_def reply_cb_def entry_ok_def storage_set_def split: option.split)
  moreover have "pending_ok (reply_cb paginate embeds data (Some m) (ps_table s)) p"
    if "pending_ok (ps_table s) p" "fst p \<in> set (ps_used s)" for p
    using that assms(2) by (auto simp: pending_ok_def reply_cb_def)
  ultimately show ?thesis using assms(1) by (auto simp: page_sys_ok_def reply_cb_def split: if_splits)
qed

lemma page_step_ok: "page_step s s' \<Longrightarrow> page_sys_ok s \<Longrightarrow> page_sys_ok s'"
proof (induction rule: page_step.induct)
  case (created m s embeds data)
  then show ?case by (intro reply_cb_ok)
next
  case (clicked now can_read k param s t eff)
  then have t: "table_ok (ps_table s)" by (simp add: page_sys_ok_def)
  from update_page_ok [OF t, of k now can_read param] clicked(1)
  have e: "table_ok t" "pages_kept (ps_table s) t"
    "\<forall>p \<in> set (updates eff). fst p = k \<and> pn_messages (ps_table s) k \<noteq> None \<and> pending_ok t p"
    by (auto simp: edited_def)
  then show ?case
    using clicked(2) by (intro page_sys_ok_kept) (auto simp: page_sys_ok_def)
next
  case (answered k c s cb t eff)
  then have "table_ok t \<and> pages_kept (ps_table s) t"
    by (intro edit_cb_ok [of "ps_table s" k c cb t eff]) (auto simp: page_sys_ok_def)
  then show ?case using answered(4) by (intro page_sys_ok_kept) (auto dest: notin_set_remove1)
next
  case (deleted s ids)
  then show ?case using page_sys_ok_kept [of s _ "ps_pending s"] pages_deleted_ok [of "ps_table s" ids]
    by (simp add: page_sys_ok_def)
next
  case (collected s clear now)
  then show ?case using page_sys_ok_kept [of s _ "ps_pending s"] pages_gc_ok [of "ps_table s" clear now]
    by (simp add: page_sys_ok_def)
qed

text \<open>Flipping pages never leaves the book. However users click, whatever they type, in
  whatever order Discord answers, and while messages are deleted and collected: the current page
  of every entry exists, no flip looks up a page that does not exist, and search results are
  stored exactly for the entries that are marked to have them, so that none outlives its
  message.\<close>

theorem pages_in_range:
  assumes "page_step\<^sup>*\<^sup>* page_sys_start s"
  shows "(\<forall>k b. pn_messages (ps_table s) k = Some b \<longrightarrow> unat (pg_current b) < length (pg_pages b))
    \<and> (\<exists>r. update_page now can_read k param (ps_table s) = Inr r)
    \<and> (pn_storage (ps_table s) k \<noteq> None \<longleftrightarrow> (\<exists>b. pn_messages (ps_table s) k = Some b \<and> pg_has_storage_data b))"
proof -
  have "page_sys_ok page_sys_start" by (simp add: page_sys_ok_def page_sys_start_def table_ok_def)
  with assms have "page_sys_ok s" by (induction rule: rtranclp_induct) (auto intro: page_step_ok)
  then have t: "table_ok (ps_table s)" by (simp add: page_sys_ok_def)
  then show ?thesis
    using update_page_ok [OF t, of k now can_read param] by (auto simp: edited_def table_ok_def entry_ok_def)
qed

section \<open>Sample runs\<close>

definition plain_yt :: yt_api where
  "plain_yt = \<lparr>yt_title = (\<lambda>j. ''t''), yt_url = (\<lambda>j. ''u''), yt_id = (\<lambda>j. []), yt_length = (\<lambda>j. ''1:00''),
    yt_thumbnail = (\<lambda>j. []), yt_snippet = (\<lambda>j. []), yt_channel = (\<lambda>j. ''c''), yt_duration = (\<lambda>j. 60000)\<rparr>"

definition two_tracks :: "MCTrack list" where "two_tracks = [MCTrack_default, MCTrack_default]"

theorem queue_pages_show_all_witness:
  "\<exists>embeds texts gs footer. reply_paginated_playlist plain_yt None two_tracks ''Queue'' = Inr (embeds, False)
    \<and> embeds = map (page_of ''Queue'' queue_too_long footer) gs \<and> concat gs = texts \<and> length texts = 2 \<and> length embeds = 1"
proof -
  have y: "\<not> is_YTDLPTrack MCTrack_default" "\<not> is_YTDLPTrack_info (tr_info_raw MCTrack_default)" by code_simp+
  then have d: "get_duration plain_yt MCTrack_default = Inr 60000" by (simp add: get_duration_def plain_yt_def)
  then have "\<exists>embeds. reply_paginated_playlist plain_yt None two_tracks ''Queue'' = Inr (embeds, False)"
    by (simp add: reply_paginated_playlist_def two_tracks_def construct_desc_def current_text_def queued_text_def
        get_track_progress_def Let_def)
  then obtain embeds where e: "reply_paginated_playlist plain_yt None two_tracks ''Queue'' = Inr (embeds, False)"
    by blast
  have l: "length two_tracks = 2" by (simp add: two_tracks_def)
  show ?thesis using queue_pages_show_all [OF e] e unfolding l by auto
qed


theorem pages_in_range_witness:
  "\<exists>s b. page_step\<^sup>*\<^sup>* page_sys_start s \<and> pn_messages (ps_table s) 5 = Some b \<and> pg_current b = 1
    \<and> unat (pg_current b) < length (pg_pages b)"
proof -
  let ?e = "\<lparr>em_title = [], em_description = [], em_footer = []\<rparr>"
  let ?m = "\<lparr>pm_id = 5, pm_created = 0, pm_embeds = [], pm_disabled = False\<rparr>"
  let ?b = "\<lparr>pg_message = ?m, pg_pages = [?e, ?e], pg_current = 0, pg_has_storage_data = False\<rparr>"
  let ?m1 = "?m\<lparr>pm_embeds := [?e]\<rparr>"
  let ?s1 = "\<lparr>ps_table = \<lparr>pn_messages = [5 \<mapsto> ?b], pn_storage = Map.empty\<rparr>, ps_used = [5], ps_pending = []\<rparr>"
  let ?t2 = "\<lparr>pn_messages = [5 \<mapsto> ?b\<lparr>pg_message := ?m1\<rparr>], pn_storage = Map.empty\<rparr>"
  let ?t3 = "\<lparr>pn_messages = [5 \<mapsto> ?b\<lparr>pg_message := ?m1, pg_current := 1\<rparr>], pn_storage = Map.empty\<rparr>"
  have 1: "page_step page_sys_start ?s1"
    using page_step.created [of ?m page_sys_start "[?e, ?e]" None] by (simp add: page_sys_start_def reply_cb_def)
  have 2: "page_step ?s1 (?s1\<lparr>ps_table := ?t2, ps_pending := [(5, 1)]\<rparr>)"
    using page_step.clicked [of 10 True 5 "''n''" ?s1 ?t2 "[P_update 5 ?m1 1]"]
    by (simp add: update_page_def page_after_def pages_size_def pages_edit_def ONE_HOUR_SECOND_def Let_def)
  have 3: "page_step (?s1\<lparr>ps_table := ?t2, ps_pending := [(5, 1)]\<rparr>) (?s1\<lparr>ps_table := ?t3, ps_pending := []\<rparr>)"
    using page_step.answered [of 5 1 "?s1\<lparr>ps_table := ?t2, ps_pending := [(5, 1)]\<rparr>" Cb_other ?t3 "[]"]
    by (simp add: edit_cb_def npos_def)
  have r: "page_step\<^sup>*\<^sup>* page_sys_start (?s1\<lparr>ps_table := ?t3, ps_pending := []\<rparr>)"
    by (rule converse_rtranclp_into_rtranclp [OF 1 converse_rtranclp_into_rtranclp [OF 2 r_into_rtranclp [of page_step, OF 3]]])
  then show ?thesis using pages_in_range [OF r] by (intro exI conjI) (auto intro: r)
qed

end
