(* ===== verification/ServerStream.thy ===== *)
theory ServerStream
  imports Prelude CppStd
begin

text \<open>
  Listening to a guild in the browser: \<open>src/musicat/server/stream.cpp\<close>. Responses that stay
  open are kept per guild; the pages that the encoder writes are sent to each of them, and a
  response that comes late first gets the header pages of the stream. Everything that touches a
  response is deferred to the thread of the server, which runs the closures in the order they
  were deferred. A response is a pointer of the server library, here a number; what is called on
  it is recorded in order.
\<close>

section \<open>The table of streams\<close>

datatype res_op =
    Write_status string
  | Write_header string string
  | Write_body string
  | End_body string

type_synonym res_trace = "(nat \<times> res_op) list"

record stream_state_t =
  ss_res :: nat
  ss_headers_sent :: bool

record guild_stream_state_t =
  gs_streams :: "stream_state_t list"
  gs_headers_cache :: "string list"

datatype closure =
    D_end nat
  | D_end_guild snowflake
  | D_end_all
  | D_broadcast snowflake string

record stream_srv =
  sv_subs :: "(snowflake \<times> guild_stream_state_t) list"
  sv_deferred :: "closure list"
  sv_out :: res_trace

definition stream_srv_init :: stream_srv where
  "stream_srv_init = \<lparr>sv_subs = [], sv_deferred = [], sv_out = []\<rparr>"

text \<open>The table is a \<open>std::map\<close>, in the order of the keys.\<close>

fun subs_put :: "snowflake \<Rightarrow> 'v \<Rightarrow> (snowflake \<times> 'v) list \<Rightarrow> (snowflake \<times> 'v) list" where
  "subs_put g v [] = [(g, v)]"
| "subs_put g v ((k, w) # m) =
    (if g = k then (g, v) # m else if g < k then (g, v) # (k, w) # m else (k, w) # subs_put g v m)"

lemma map_of_subs_put [simp]: "map_of (subs_put g v m) = (map_of m)(g \<mapsto> v)"
  by (induction g v m rule: subs_put.induct) auto

definition get_guild_stream_state :: "snowflake \<Rightarrow> stream_srv \<Rightarrow> guild_stream_state_t" where
  "get_guild_stream_state g s =
    (case map_of (sv_subs s) g of None \<Rightarrow> \<lparr>gs_streams = [], gs_headers_cache = []\<rparr> | Some st \<Rightarrow> st)"

definition put_guild_stream_state :: "snowflake \<Rightarrow> guild_stream_state_t \<Rightarrow> stream_srv \<Rightarrow> stream_srv" where
  "put_guild_stream_state g st s = s\<lparr>sv_subs := subs_put g st (sv_subs s)\<rparr>"

lemma get_put_guild_stream_state [simp]:
  "get_guild_stream_state g (put_guild_stream_state h st s) = (if g = h then st else get_guild_stream_state g s)"
  by (simp add: get_guild_stream_state_def put_guild_stream_state_def)

lemma put_guild_stream_state_simps [simp]:
  "sv_deferred (put_guild_stream_state g st s) = sv_deferred s"
  "sv_out (put_guild_stream_state g st s) = sv_out s"
  by (simp_all add: put_guild_stream_state_def)

lemma get_guild_stream_state_frame [simp]:
  "get_guild_stream_state g (s\<lparr>sv_deferred := d\<rparr>) = get_guild_stream_state g s"
  "get_guild_stream_state g (s\<lparr>sv_out := ops\<rparr>) = get_guild_stream_state g s"
  by (simp_all add: get_guild_stream_state_def)

section \<open>Operations\<close>

definition subscribe :: "nat \<Rightarrow> snowflake \<Rightarrow> stream_srv \<Rightarrow> stream_srv" where
  "subscribe res g s =
    (let st = get_guild_stream_state g s
     in put_guild_stream_state g
         (st\<lparr>gs_streams := gs_streams st @ [\<lparr>ss_res = res, ss_headers_sent = False\<rparr>]\<rparr>) s)"

definition unsubscribe :: "nat \<Rightarrow> snowflake \<Rightarrow> bool \<Rightarrow> stream_srv \<Rightarrow> stream_srv" where
  "unsubscribe res g aborted s =
    (let s1 = (if aborted then s else s\<lparr>sv_deferred := sv_deferred s @ [D_end res]\<rparr>);
         st = get_guild_stream_state g s1
     in put_guild_stream_state g (st\<lparr>gs_streams := erase_first (\<lambda>i. ss_res i = res) (gs_streams st)\<rparr>) s1)"

definition unsubscribe_guild :: "snowflake \<Rightarrow> stream_srv \<Rightarrow> stream_srv" where
  "unsubscribe_guild g s = s\<lparr>sv_deferred := sv_deferred s @ [D_end_guild g]\<rparr>"

definition shutdown_streams :: "stream_srv \<Rightarrow> stream_srv" where
  "shutdown_streams s = s\<lparr>sv_deferred := sv_deferred s @ [D_end_all]\<rparr>"

definition broadcast :: "snowflake \<Rightarrow> string \<Rightarrow> stream_srv \<Rightarrow> stream_srv" where
  "broadcast g p s = s\<lparr>sv_deferred := sv_deferred s @ [D_broadcast g p]\<rparr>"

text \<open>The byte at 26, the number of segments of an Ogg page, is read as a \<open>char\<close>, which is
  signed; the additions are those of \<open>size_t\<close>. \<open>None\<close>: the comparison reads in front of the packet.\<close>

definition schar :: "char \<Rightarrow> int" where
  "schar c = (if ord c < 128 then int (ord c) else int (ord c) - 256)"

definition page_header_size :: "string \<Rightarrow> size_t" where
  "page_header_size p = 27 + of_int (schar (p ! 26))"

definition check_for_headers :: "guild_stream_state_t \<Rightarrow> string \<Rightarrow> (int \<times> guild_stream_state_t) option" where
  "check_for_headers st p =
    (if length p \<le> 27 then Some (- 1, st)
     else if of_nat (length p) \<le> page_header_size p + 8 then Some (- 1, st)
     else if sint (page_header_size p) < 0 then None
     else let payload = take 8 (drop (unat (page_header_size p)) p)
       in if payload = ''OpusHead'' then Some (0, st\<lparr>gs_headers_cache := [p]\<rparr>)
          else if payload = ''OpusTags'' then Some (0, st\<lparr>gs_headers_cache := gs_headers_cache st @ [p]\<rparr>)
          else Some (- 1, st))"

fun broadcast_streams :: "string list \<Rightarrow> string \<Rightarrow> stream_state_t list \<Rightarrow> stream_state_t list \<times> res_trace" where
  "broadcast_streams headers p [] = ([], [])"
| "broadcast_streams headers p (s # ss) =
    (case broadcast_streams headers p ss of (ss1, ops) \<Rightarrow>
       (s\<lparr>ss_headers_sent := True\<rparr> # ss1,
        (if ss_headers_sent s then [] else map (\<lambda>h. (ss_res s, Write_body h)) headers)
          @ (ss_res s, Write_body p) # ops))"

definition end_streams :: "stream_state_t list \<Rightarrow> res_trace" where
  "end_streams ss = map (\<lambda>i. (ss_res i, End_body [])) ss"

fun run_closure :: "closure \<Rightarrow> stream_srv \<Rightarrow> stream_srv option" where
  "run_closure (D_end res) s = Some (s\<lparr>sv_out := sv_out s @ [(res, End_body [])]\<rparr>)"
| "run_closure (D_end_guild g) s =
    (let st = get_guild_stream_state g s
     in Some (put_guild_stream_state g (st\<lparr>gs_streams := []\<rparr>) (s\<lparr>sv_out := sv_out s @ end_streams (gs_streams st)\<rparr>)))"
| "run_closure D_end_all s =
    Some (s\<lparr>sv_out := sv_out s @ concat (map (\<lambda>(g, st). end_streams (gs_streams st)) (sv_subs s)), sv_subs := []\<rparr>)"
| "run_closure (D_broadcast g p) s =
    (let st = get_guild_stream_state g s
     in case broadcast_streams (gs_headers_cache st) p (gs_streams st) of (ss, ops) \<Rightarrow>
       map_option (\<lambda>(_, st1). put_guild_stream_state g st1 (s\<lparr>sv_out := sv_out s @ ops\<rparr>))
         (check_for_headers (st\<lparr>gs_streams := ss\<rparr>) p))"

text \<open>The thread of the server takes the closures in the order of \<open>defer\<close>.\<close>

definition run_deferred :: "stream_srv \<Rightarrow> stream_srv option" where
  "run_deferred s =
    (case sv_deferred s of [] \<Rightarrow> Some s | c # cs \<Rightarrow> run_closure c (s\<lparr>sv_deferred := cs\<rparr>))"

section \<open>Runs\<close>

datatype stream_event =
    Ev_subscribe nat snowflake
  | Ev_unsubscribe nat snowflake bool
  | Ev_unsubscribe_guild snowflake
  | Ev_shutdown
  | Ev_broadcast snowflake string
  | Ev_run

fun on_stream_event :: "stream_event \<Rightarrow> stream_srv \<Rightarrow> stream_srv option" where
  "on_stream_event (Ev_subscribe r g) s = Some (subscribe r g s)"
| "on_stream_event (Ev_unsubscribe r g aborted) s = Some (unsubscribe r g aborted s)"
| "on_stream_event (Ev_unsubscribe_guild g) s = Some (unsubscribe_guild g s)"
| "on_stream_event Ev_shutdown s = Some (shutdown_streams s)"
| "on_stream_event (Ev_broadcast g p) s = Some (broadcast g p s)"
| "on_stream_event Ev_run s = run_deferred s"

fun stream_events :: "stream_event list \<Rightarrow> stream_srv \<Rightarrow> stream_srv option" where
  "stream_events [] s = Some s"
| "stream_events (e # es) s = Option.bind (on_stream_event e s) (stream_events es)"

lemma stream_events_append: "stream_events (xs @ ys) s = Option.bind (stream_events xs s) (stream_events ys)"
proof (induction xs arbitrary: s)
  case (Cons e es)
  then show ?case by (cases "on_stream_event e s") simp_all
qed simp

section \<open>A listener that comes late\<close>

text \<open>What a response was sent, in order; what a guild's stream was called for (a page, or \<open>None\<close>: the end of
  all its listeners), and what of that is among the closures still to be run.\<close>

definition received :: "nat \<Rightarrow> res_trace \<Rightarrow> res_op list" where
  "received r ops = map snd (filter (\<lambda>(q, _). q = r) ops)"

fun calls :: "snowflake \<Rightarrow> stream_event list \<Rightarrow> string option list" where
  "calls g [] = []"
| "calls g (Ev_broadcast h p # es) = (if h = g then Some p # calls g es else calls g es)"
| "calls g (Ev_unsubscribe_guild h # es) = (if h = g then None # calls g es else calls g es)"
| "calls g (e # es) = calls g es"

fun pending :: "snowflake \<Rightarrow> closure list \<Rightarrow> string option list" where
  "pending g [] = []"
| "pending g (D_broadcast h p # cs) = (if h = g then Some p # pending g cs else pending g cs)"
| "pending g (D_end_guild h # cs) = (if h = g then None # pending g cs else pending g cs)"
| "pending g (c # cs) = pending g cs"

fun pages :: "string option list \<Rightarrow> string list" where
  "pages [] = []"
| "pages (None # cs) = pages cs"
| "pages (Some p # cs) = p # pages cs"

text \<open>The header pages of a stream: its last \<open>OpusHead\<close> and the \<open>OpusTags\<close> from there on.\<close>

definition page_payload :: "string \<Rightarrow> string" where
  "page_payload p =
    (if length p \<le> 27 \<or> of_nat (length p) \<le> page_header_size p + 8 then []
     else take 8 (drop (unat (page_header_size p)) p))"

definition stream_headers :: "string list \<Rightarrow> string list" where
  "stream_headers ps =
    (let after = takeWhile (\<lambda>p. page_payload p \<noteq> ''OpusHead'') (rev ps);
         from = length ps - length after - 1
     in (if length after = length ps then [] else [ps ! from])
          @ filter (\<lambda>p. page_payload p = ''OpusTags'') (rev after))"

fun until_end :: "string option list \<Rightarrow> string list" where
  "until_end [] = []"
| "until_end (None # cs) = []"
| "until_end (Some p # cs) = p # until_end cs"

text \<open>What is heard of the calls that run from the time a listener has come: the pages up to the first
  end, in front of them the headers \<open>hs\<close>, and the end.\<close>

definition heard :: "string list \<Rightarrow> string option list \<Rightarrow> res_op list" where
  "heard hs cs =
    (let ps = until_end cs
     in (if ps = [] then [] else map Write_body (hs @ ps)) @ (if None \<in> set cs then [End_body []] else []))"

definition bystander :: "nat \<Rightarrow> closure \<Rightarrow> bool" where
  "bystander r c \<longleftrightarrow> c \<noteq> D_end r \<and> c \<noteq> D_end_all"

definition quiet :: "nat \<Rightarrow> stream_event \<Rightarrow> bool" where
  "quiet r e \<longleftrightarrow> e \<noteq> Ev_shutdown \<and> (\<forall>h. e \<noteq> Ev_subscribe r h \<and> (\<forall>a. e \<noteq> Ev_unsubscribe r h a))"

definition listens :: "nat \<Rightarrow> snowflake \<Rightarrow> stream_srv \<Rightarrow> bool list" where
  "listens r g s = map ss_headers_sent (filter (\<lambda>i. ss_res i = r) (gs_streams (get_guild_stream_state g s)))"

text \<open>The listener's state: what ran before it came (\<open>None\<close>: it has not come yet) and since.\<close>

definition listener_ok :: "nat \<Rightarrow> snowflake \<Rightarrow> string option list \<Rightarrow> string option list option \<Rightarrow> stream_srv \<Rightarrow> bool" where
  "listener_ok r g before since s \<longleftrightarrow>
    gs_headers_cache (get_guild_stream_state g s) = stream_headers (pages (before @ (case since of None \<Rightarrow> [] | Some cs \<Rightarrow> cs)))
    \<and> (\<forall>h. h \<noteq> g \<longrightarrow> listens r h s = [])
    \<and> listens r g s = (case since of None \<Rightarrow> [] | Some cs \<Rightarrow> if None \<in> set cs then [] else [cs \<noteq> []])
    \<and> received r (sv_out s) = (case since of None \<Rightarrow> [] | Some cs \<Rightarrow> heard (stream_headers (pages before)) cs)
    \<and> list_all (bystander r) (sv_deferred s)"

lemma pages_append [simp]: "pages (xs @ ys) = pages xs @ pages ys"
  by (induction xs rule: pages.induct) simp_all

lemma until_end_snoc [simp]:
  "None \<in> set cs \<Longrightarrow> until_end (cs @ ds) = until_end cs"
  "None \<notin> set cs \<Longrightarrow> until_end (cs @ ds) = until_end cs @ until_end ds"
  by (induction cs rule: until_end.induct) simp_all

lemma until_end_Nil: "None \<notin> set cs \<Longrightarrow> until_end cs = [] \<longleftrightarrow> cs = []"
  by (cases cs rule: until_end.cases) simp_all

lemma heard_snoc:
  "None \<in> set cs \<Longrightarrow> heard hs (cs @ ds) = heard hs cs"
  "None \<notin> set cs \<Longrightarrow> heard hs (cs @ [Some p]) = heard hs cs @ map Write_body ((if cs \<noteq> [] then [] else hs) @ [p])"
  "None \<notin> set cs \<Longrightarrow> heard hs (cs @ [None]) = heard hs cs @ [End_body []]"
  "heard hs [] = []"
  by (simp_all add: heard_def Let_def until_end_Nil)

lemma stream_headers_snoc:
  "stream_headers (ps @ [p]) =
    (if page_payload p = ''OpusHead'' then [p]
     else if page_payload p = ''OpusTags'' then stream_headers ps @ [p] else stream_headers ps)"
proof -
  let ?t = "takeWhile (\<lambda>p. page_payload p \<noteq> ''OpusHead'') (rev ps)"
  have le: "length ?t \<le> length ps" using length_takeWhile_le [of _ "rev ps"] by simp
  show ?thesis
    using le by (auto simp: stream_headers_def Let_def nth_append Suc_diff_le)
qed

lemma check_for_headers_cache:
  assumes "check_for_headers st p = Some (c, st1)" and "gs_headers_cache st = stream_headers ps"
  shows "gs_headers_cache st1 = stream_headers (ps @ [p])" "gs_streams st1 = gs_streams st"
  using assms by (auto simp: check_for_headers_def page_payload_def stream_headers_snoc Let_def split: if_splits)

lemma broadcast_streams_received:
  assumes "broadcast_streams hs p ss = (ss1, ops)"
  shows "received r ops = concat (map (\<lambda>sent. map Write_body ((if sent then [] else hs) @ [p]))
      (map ss_headers_sent (filter (\<lambda>i. ss_res i = r) ss)))"
    and "map ss_headers_sent (filter (\<lambda>i. ss_res i = r) ss1) = map (\<lambda>_. True) (filter (\<lambda>i. ss_res i = r) ss)"
  using assms
  by (induction ss arbitrary: ss1 ops) (auto simp: received_def comp_def split: prod.splits)

lemma received_append [simp]: "received r (xs @ ys) = received r xs @ received r ys"
  by (simp add: received_def)

lemma received_end_streams: "filter (\<lambda>i. ss_res i = r) ss = [] \<Longrightarrow> received r (end_streams ss) = []"
  by (induction ss) (auto simp: received_def end_streams_def split: if_splits)

lemma pending_append [simp]: "pending g (xs @ ys) = pending g xs @ pending g ys"
  by (induction g xs rule: pending.induct) auto

lemma calls_append [simp]: "calls g (xs @ ys) = calls g xs @ calls g ys"
  by (induction g xs rule: calls.induct) auto

definition executed ::
  "string option list \<Rightarrow> string option list option \<Rightarrow> string option list \<Rightarrow> string option list \<times> string option list option" where
  "executed before since ps = (case since of None \<Rightarrow> (before @ ps, None) | Some qs \<Rightarrow> (before, Some (qs @ ps)))"

lemma executed_Nil [simp]: "executed before since [] = (before, since)"
  by (simp add: executed_def split: option.split)

lemma executed_executed:
  "case_prod executed (executed before since ps) qs = executed before since (ps @ qs)"
  by (simp add: executed_def split: option.split)

lemma listens_put: "listens r h (put_guild_stream_state k st s)
    = (if h = k then map ss_headers_sent (filter (\<lambda>i. ss_res i = r) (gs_streams st)) else listens r h s)"
  by (simp add: listens_def)

lemma listens_frame [simp]:
  "listens r h (s\<lparr>sv_deferred := d\<rparr>) = listens r h s" "listens r h (s\<lparr>sv_out := ops\<rparr>) = listens r h s"
  by (simp_all add: listens_def)

lemma broadcast_listener:
  assumes "run_closure (D_broadcast h p) s = Some s'" and "listener_ok r g before since s"
  shows "case executed before since (if h = g then [Some p] else []) of (b, q) \<Rightarrow> listener_ok r g b q s'"
proof -
  let ?st = "get_guild_stream_state h s"
  obtain ss ops where b: "broadcast_streams (gs_headers_cache ?st) p (gs_streams ?st) = (ss, ops)" by fastforce
  obtain c st1 where k: "check_for_headers (?st\<lparr>gs_streams := ss\<rparr>) p = Some (c, st1)"
    and s': "s' = put_guild_stream_state h st1 (s\<lparr>sv_out := sv_out s @ ops\<rparr>)"
    using assms(1) by (auto simp: Let_def b)
  have st1: "gs_streams st1 = ss" using check_for_headers_cache(2) [OF k, of "[]"] k
    by (auto simp: check_for_headers_def Let_def split: if_splits)
  note sent = broadcast_streams_received(2) [OF b, of r]
  note rec = broadcast_streams_received(1) [OF b, of r]
  show ?thesis
  proof (cases "h = g")
    case True
    have c: "gs_headers_cache st1 = stream_headers (pages (before @ (case since of None \<Rightarrow> [] | Some cs \<Rightarrow> cs)) @ [p])"
      using check_for_headers_cache(1) [OF k, of "pages (before @ (case since of None \<Rightarrow> [] | Some cs \<Rightarrow> cs))"] assms(2) True
      by (simp add: listener_ok_def)
    show ?thesis
    proof (cases since)
      case None
      then show ?thesis using assms(2) True sent rec c
        by (auto simp: listener_ok_def executed_def s' listens_put st1 listens_def)
    next
      case (Some cs)
      let ?hs = "stream_headers (pages before)"
      have l: "map ss_headers_sent (filter (\<lambda>i. ss_res i = r) (gs_streams ?st)) = (if None \<in> set cs then [] else [cs \<noteq> []])"
        and o: "received r (sv_out s) = heard ?hs cs"
        using assms(2) True Some by (simp_all add: listener_ok_def listens_def)
      have h: "cs = [] \<Longrightarrow> gs_headers_cache ?st = ?hs" using assms(2) True Some by (simp add: listener_ok_def)
      have "received r (sv_out s') = heard ?hs (cs @ [Some p])"
        using rec h o heard_snoc(1,2) [of cs ?hs] by (cases "None \<in> set cs") (auto simp: s' l)
      moreover have "map ss_headers_sent (filter (\<lambda>i. ss_res i = r) ss) = (if None \<in> set cs then [] else [True])"
        using sent arg_cong [OF l, of length] by (auto simp: map_replicate_const split: if_splits)
      ultimately show ?thesis using assms(2) True Some c
        by (auto simp: listener_ok_def executed_def s' listens_put st1)
    qed
  next
    case False
    then have "filter (\<lambda>i. ss_res i = r) (gs_streams ?st) = []"
      using assms(2) by (auto simp: listener_ok_def listens_def)
    then show ?thesis
      using assms(2) False sent rec
      by (auto simp: listener_ok_def s' listens_put st1 split: option.splits)
  qed
qed

lemma received_end:
  "received r (end_streams ss) = replicate (length (map ss_headers_sent (filter (\<lambda>i. ss_res i = r) ss))) (End_body [])"
  by (induction ss) (auto simp: received_def end_streams_def)

lemma end_guild_listener:
  assumes "run_closure (D_end_guild h) s = Some s'" and "listener_ok r g before since s"
  shows "case executed before since (if h = g then [None] else []) of (b, q) \<Rightarrow> listener_ok r g b q s'"
proof (cases "h = g")
  case False
  have "received r (end_streams (gs_streams (get_guild_stream_state h s))) = []"
    using assms(2) False by (simp add: received_end listener_ok_def listens_def)
  then show ?thesis using assms False by (auto simp: listener_ok_def Let_def listens_put)
next
  case True
  have e: "received r (end_streams (gs_streams (get_guild_stream_state g s))) = replicate (length (listens r g s)) (End_body [])"
    by (simp add: received_end listens_def)
  show ?thesis
  proof (cases since)
    case None
    then show ?thesis using assms True e by (auto simp: listener_ok_def Let_def listens_put executed_def)
  next
    case (Some cs)
    have "received r (sv_out s') = heard (stream_headers (pages before)) (cs @ [None])"
      using assms True e Some heard_snoc(1,3) [of cs "stream_headers (pages before)"]
      by (cases "None \<in> set cs") (auto simp: listener_ok_def Let_def)
    then show ?thesis using assms True Some by (auto simp: listener_ok_def Let_def listens_put executed_def)
  qed
qed

lemma closure_listener:
  assumes "run_closure c s = Some s'" and "bystander r c" and "listener_ok r g before since s"
  shows "case executed before since (pending g [c]) of (b, q) \<Rightarrow> listener_ok r g b q s'"
proof (cases c)
  case (D_broadcast h p)
  then have "pending g [c] = (if h = g then [Some p] else [])" by simp
  then show ?thesis using broadcast_listener [OF _ assms(3), of h p s'] assms(1) D_broadcast by simp
next
  case (D_end_guild h)
  then show ?thesis using end_guild_listener [OF assms(1) [unfolded D_end_guild] assms(3)] by (cases "h = g") simp_all
qed (use assms in \<open>auto simp: listener_ok_def bystander_def received_def\<close>)

lemma closure_deferred: "run_closure c s = Some s' \<Longrightarrow> sv_deferred s' = sv_deferred s"
  by (cases c) (auto simp: Let_def split: prod.splits)

lemma event_listener:
  assumes "on_stream_event e s = Some s'" and "quiet r e" and "listener_ok r g before since s"
  shows "\<exists>ps. pending g (sv_deferred s) @ calls g [e] = ps @ pending g (sv_deferred s')
    \<and> (case executed before since ps of (b, q) \<Rightarrow> listener_ok r g b q s')"
proof (cases e)
  case Ev_run
  show ?thesis
  proof (cases "sv_deferred s")
    case Nil
    then show ?thesis using assms Ev_run by (auto simp: run_deferred_def intro!: exI [of _ "[]"])
  next
    case (Cons c cs)
    then have run: "run_closure c (s\<lparr>sv_deferred := cs\<rparr>) = Some s'"
      using assms(1) Ev_run by (simp add: run_deferred_def)
    have ok: "bystander r c" "listener_ok r g before since (s\<lparr>sv_deferred := cs\<rparr>)"
      using assms(3) Cons by (simp_all add: listener_ok_def)
    have "pending g (sv_deferred s) = pending g [c] @ pending g cs" using Cons pending_append [of g "[c]" cs] by simp
    then show ?thesis
      using closure_listener [OF run ok] closure_deferred [OF run] Ev_run
      by (intro exI [of _ "pending g [c]"]) simp
  qed
next
  case (Ev_subscribe q h)
  then show ?thesis using assms
    by (intro exI [of _ "[]"]) (auto simp: quiet_def listener_ok_def subscribe_def Let_def listens_put, simp_all add: listens_def)
next
  case (Ev_unsubscribe q h a)
  then have "q \<noteq> r" using assms(2) by (auto simp: quiet_def)
  then have er: "filter (\<lambda>i. ss_res i = r) (erase_first (\<lambda>i. ss_res i = q) ss) = filter (\<lambda>i. ss_res i = r) ss" for ss
    by (induction ss) auto
  have l: "listens r k s' = listens r k s" for k
    using assms(1) Ev_unsubscribe by (auto simp: unsubscribe_def Let_def listens_put er) (simp_all add: listens_def)
  have "gs_headers_cache (get_guild_stream_state g s') = gs_headers_cache (get_guild_stream_state g s)"
    "sv_out s' = sv_out s" "pending g (sv_deferred s') = pending g (sv_deferred s)"
    "list_all (bystander r) (sv_deferred s) \<Longrightarrow> list_all (bystander r) (sv_deferred s')"
    using assms(1) Ev_unsubscribe \<open>q \<noteq> r\<close> by (auto simp: unsubscribe_def Let_def bystander_def)
  then show ?thesis using assms(3) Ev_unsubscribe l by (intro exI [of _ "[]"]) (simp add: listener_ok_def)
qed (use assms in \<open>auto simp: quiet_def listener_ok_def unsubscribe_guild_def shutdown_streams_def broadcast_def
      bystander_def intro!: exI [of _ "[]"]\<close>)

lemma events_listener:
  assumes "stream_events es s = Some s'" and "list_all (quiet r) es" and "listener_ok r g before since s"
  shows "\<exists>ps. pending g (sv_deferred s) @ calls g es = ps @ pending g (sv_deferred s')
    \<and> (case executed before since ps of (b, q) \<Rightarrow> listener_ok r g b q s')"
  using assms
proof (induction es arbitrary: s before since)
  case Nil
  then show ?case by (intro exI [of _ "[]"]) simp
next
  case (Cons e es)
  obtain s1 where s1: "on_stream_event e s = Some s1" "stream_events es s1 = Some s'"
    using Cons.prems(1) by (auto simp: bind_Some_iff)
  obtain ps b q where ps: "pending g (sv_deferred s) @ calls g [e] = ps @ pending g (sv_deferred s1)"
    "executed before since ps = (b, q)" "listener_ok r g b q s1"
    using event_listener [OF s1(1) _ Cons.prems(3)] Cons.prems(2) by fastforce
  obtain qs where qs: "pending g (sv_deferred s1) @ calls g es = qs @ pending g (sv_deferred s')"
    "case executed b q qs of (b, q) \<Rightarrow> listener_ok r g b q s'"
    using Cons.IH [OF s1(2) _ ps(3)] Cons.prems(2) by auto
  have "executed b q qs = executed before since (ps @ qs)" using executed_executed [of before since ps qs] ps(2) by simp
  moreover have "pending g (sv_deferred s) @ calls g (e # es) = (ps @ qs) @ pending g (sv_deferred s')"
  proof -
    have "calls g (e # es) = calls g [e] @ calls g es" by (metis append_Cons append_Nil calls_append)
    then show ?thesis using ps(1) qs(1) by (metis append_assoc)
  qed
  ultimately show ?case using qs(2) by (intro exI [of _ "ps @ qs"]) simp
qed

text \<open>C38: A listener that comes late hears the whole rest of the broadcast. Whatever other
  listeners come and go, whatever is broadcast in other guilds and however often the guild's streams end: of
  the pages broadcast in its guild and the ends of its streams, in the order of the calls, some had been run before it
  came; of those run since then, it has received each page up to the first end exactly once and in order, preceded by the
  last header pages, and then the end; the remaining calls are still queued, none is lost. An end that was
  still queued when it came ends it too. This holds while the server is not shut down, for a response that subscribes
  once and is not unsubscribed.\<close>

theorem late_listener_hears_rest:
  assumes "stream_events (es1 @ Ev_subscribe r g # es2) stream_srv_init = Some s"
    and "list_all (quiet r) (es1 @ es2)"
  shows "\<exists>before after s1. stream_events es1 stream_srv_init = Some s1 \<and> calls g es1 = before @ pending g (sv_deferred s1)
    \<and> pending g (sv_deferred s1) @ calls g es2 = after @ pending g (sv_deferred s)
    \<and> received r (sv_out s) = heard (stream_headers (pages before)) after"
proof -
  obtain s1 where s1: "stream_events es1 stream_srv_init = Some s1" "stream_events es2 (subscribe r g s1) = Some s"
    using assms(1) by (auto simp: stream_events_append bind_Some_iff)
  have "listener_ok r g [] None stream_srv_init"
    by (simp add: listener_ok_def stream_srv_init_def get_guild_stream_state_def stream_headers_def listens_def received_def)
  from events_listener [OF s1(1) _ this] obtain before
    where b: "calls g es1 = before @ pending g (sv_deferred s1)" "listener_ok r g before None s1"
    using assms(2) by (auto simp: executed_def stream_srv_init_def)
  then have "listener_ok r g before (Some []) (subscribe r g s1)"
    by (auto simp: listener_ok_def subscribe_def Let_def listens_put) (simp_all add: listens_def heard_snoc(4))
  from events_listener [OF s1(2) _ this] obtain after
    where "pending g (sv_deferred (subscribe r g s1)) @ calls g es2 = after @ pending g (sv_deferred s)"
      "listener_ok r g before (Some after) s"
    using assms(2) by (auto simp: executed_def)
  then show ?thesis using b s1(1)
    by (intro exI [of _ before] exI [of _ after] exI [of _ s1]) (simp add: listener_ok_def subscribe_def Let_def)
qed

lemma neg_mod: "k mod m = k + m" if "- m \<le> k" "k < 0" for k m :: int
proof -
  have "(k + m) mod m = k + m" using that by (intro mod_pos_pos_trivial) auto
  then show ?thesis by simp
qed

text \<open>A page whose segment count is read as a number between -35 and -28 makes the comparison read
  in front of the packet.\<close>

lemma check_for_headers_outside:
  assumes "27 < length p" and "length p < 2 ^ 63"
  shows "check_for_headers st p = None \<longleftrightarrow> ord (p ! 26) \<in> {221..228}"
proof -
  let ?k = "27 + schar (p ! 26)"
  obtain n where n: "n = ord (p ! 26)" "n < 256" by simp
  have r: "- 101 \<le> ?k" "?k < 155" unfolding schar_def n(1) [symmetric] using n(2) by arith+
  have s: "page_header_size p = word_of_int ?k" by (simp add: page_header_size_def)
  have si: "sint (page_header_size p) = ?k"
    unfolding s sint_sbintrunc' using r by (subst signed_take_bit_int_eq_self) auto
  have ui: "uint (page_header_size p + 8) = (?k + 8) mod 2 ^ 64"
    unfolding s by (simp add: uint_word_ariths take_bit_eq_mod mod_simps uint_word_of_int)
  have ul: "uint (of_nat (length p) :: size_t) = int (length p)"
    using assms(2) by (simp add: unsigned_of_nat take_bit_eq_mod)
  have "(of_nat (length p) :: size_t) \<le> page_header_size p + 8 \<longleftrightarrow> int (length p) \<le> (?k + 8) mod 2 ^ 64"
    by (simp only: word_le_def ui ul)
  moreover have "(?k + 8) mod 2 ^ 64 = (if ?k + 8 < 0 then ?k + 8 + 2 ^ 64 else ?k + 8)"
    using r neg_mod [of "2 ^ 64" "?k + 8"] mod_pos_pos_trivial [of "?k + 8" "2 ^ 64"] by simp
  ultimately have "check_for_headers st p = None \<longleftrightarrow> - 8 \<le> ?k \<and> ?k < 0"
    using assms r by (auto simp: check_for_headers_def si Let_def)
  also have "\<dots> \<longleftrightarrow> ord (p ! 26) \<in> {221..228}"
    unfolding schar_def n(1) [symmetric] atLeastAtMost_iff using n(2) by arith
  finally show ?thesis .
qed

text \<open>The end of a stream that is still queued when a listener comes ends the listener: it hears nothing of the next
  stream.\<close>

lemma stale_end_cuts_listener:
  "\<exists>s. stream_events [Ev_broadcast 1 ''x'', Ev_unsubscribe_guild 1, Ev_subscribe 7 1, Ev_run, Ev_run, Ev_broadcast 1 ''y'', Ev_run]
      stream_srv_init = Some s \<and> sv_deferred s = [] \<and> received 7 (sv_out s) = [Write_body ''x'', End_body []]"
proof -
  let ?r = "stream_events [Ev_broadcast 1 ''x'', Ev_unsubscribe_guild 1, Ev_subscribe 7 1, Ev_run, Ev_run, Ev_broadcast 1 ''y'', Ev_run]
      stream_srv_init"
  have "map_option (\<lambda>s. (sv_deferred s, received 7 (sv_out s))) ?r = Some ([], [Write_body ''x'', End_body []])" by code_simp
  then show ?thesis by (cases ?r) auto
qed

theorem late_listener_hears_rest_witness:
  "\<exists>h m s before after. stream_events ([Ev_broadcast 1 h, Ev_unsubscribe_guild 1, Ev_run, Ev_run] @ Ev_subscribe 7 1
        # [Ev_broadcast 1 m, Ev_unsubscribe_guild 1, Ev_broadcast 1 m, Ev_run, Ev_run]) stream_srv_init = Some s
    \<and> before = [Some h, None] \<and> after = [Some m, None] \<and> pending 1 (sv_deferred s) = [Some m]
    \<and> received 7 (sv_out s) = heard (stream_headers (pages before)) after
    \<and> received 7 (sv_out s) = [Write_body h, Write_body m, End_body []]"
proof -
  let ?h = "replicate 26 CHR ''x'' @ chr 1 # CHR ''x'' # ''OpusHead!''"
  let ?e1 = "[Ev_broadcast 1 ?h, Ev_unsubscribe_guild 1, Ev_run, Ev_run]"
    and ?e2 = "[Ev_broadcast 1 ''m'', Ev_unsubscribe_guild 1, Ev_broadcast 1 ''m'', Ev_run, Ev_run]"
  let ?r1 = "stream_events ?e1 stream_srv_init" and ?r = "stream_events (?e1 @ Ev_subscribe 7 1 # ?e2) stream_srv_init"
  have "map_option (\<lambda>s. (received 7 (sv_out s), pending 1 (sv_deferred s))) ?r
      = Some ([Write_body ?h, Write_body ''m'', End_body []], [Some ''m''])"
    by code_simp
  then obtain s where s: "?r = Some s" "received 7 (sv_out s) = [Write_body ?h, Write_body ''m'', End_body []]"
    "pending 1 (sv_deferred s) = [Some ''m'']"
    by (cases ?r) auto
  have p1: "map_option (\<lambda>s. pending 1 (sv_deferred s)) ?r1 = Some []" by code_simp
  have "list_all (quiet 7) (?e1 @ ?e2)" by (simp add: quiet_def)
  from late_listener_hears_rest [OF s(1) this] obtain before after s1
    where r: "?r1 = Some s1" "calls 1 ?e1 = before @ pending 1 (sv_deferred s1)"
      "pending 1 (sv_deferred s1) @ calls 1 ?e2 = after @ pending 1 (sv_deferred s)"
      "received 7 (sv_out s) = heard (stream_headers (pages before)) after" by blast
  have "pending 1 (sv_deferred s1) = []" using p1 r(1) by simp
  then have "before = [Some ?h, None]" "after = [Some ''m'', None]" using r(2,3) s(3) by simp_all
  then show ?thesis
    by (intro exI [of _ ?h] exI [of _ "''m''"] exI [of _ s] exI [of _ before] exI [of _ after] conjI s r(4))
qed

end
