(* ===== verification/ServerStates.thy ===== *)
theory ServerStates
  imports Track Interfaces
begin

text \<open>
  State of the dashboard's server: \<open>src/musicat/server/states.cpp\<close> (the states of logins under
  way, their timers, the bodies of requests being received), \<open>src/musicat/server/service_cache.cpp\<close>
  (answers of Discord kept for a while) and \<open>src/musicat/search-cache.cpp\<close>. The locks that their
  functions take, in the order they take them, are a model of their own, in which two pairs of
  functions can wait for each other.
\<close>

section \<open>Logins under way\<close>

record oauth_timer_t =
  ot_ts :: int
  ot_second_sleep :: int
  ot_val :: string
  ot_has_break :: bool

record oauth =
  oa_states :: "string \<rightharpoonup> string"
  oa_timers :: "oauth_timer_t list"

definition STATE_LIFETIME :: int where "STATE_LIFETIME = 600"

definition remove_oauth_state :: "string \<Rightarrow> oauth \<Rightarrow> int \<times> string option \<times> oauth" where
  "remove_oauth_state state s =
    (case oa_states s state of
       None \<Rightarrow> (- 1, None, s)
     | Some redirect \<Rightarrow> (0, Some redirect, s\<lparr>oa_states := (oa_states s)(state := None)\<rparr>))"

definition should_break_oauth_states :: "string \<Rightarrow> oauth \<Rightarrow> bool" where
  "should_break_oauth_states val s \<longleftrightarrow> oa_states s val = None"

text \<open>All timers have the same functions, so two timers are the same when the other fields are.\<close>

definition register_timer :: "oauth_timer_t \<Rightarrow> oauth \<Rightarrow> int \<times> oauth" where
  "register_timer t s =
    (if t \<in> set (oa_timers s) then (- 1, s) else (0, s\<lparr>oa_timers := oa_timers s @ [t]\<rparr>))"

fun remove_timer_loop :: "oauth_timer_t \<Rightarrow> oauth_timer_t list \<Rightarrow> oauth \<Rightarrow> int \<times> oauth_timer_t list \<times> oauth" where
  "remove_timer_loop t [] s = (- 1, [], s)"
| "remove_timer_loop t (i # is) s =
    (if i \<noteq> t then (case remove_timer_loop t is s of (st, ts, s1) \<Rightarrow> (st, i # ts, s1))
     else case remove_timer_loop t is (snd (snd (remove_oauth_state (ot_val i) s))) of (st, ts, s1) \<Rightarrow> (0, ts, s1))"

definition remove_timer :: "oauth_timer_t \<Rightarrow> oauth \<Rightarrow> int \<times> oauth" where
  "remove_timer t s = (case remove_timer_loop t (oa_timers s) s of (st, ts, s1) \<Rightarrow> (st, s1\<lparr>oa_timers := ts\<rparr>))"

definition token :: string where
  "token = ''0123456789abcdefghijklmnopqrstuvwxyzABCDEFGHIJKLMNOPQRSTUVWXYZ''"

text \<open>The random numbers are a list; \<open>None\<close> when it is too short.\<close>

fun take_token :: "nat \<Rightarrow> 64 word list \<Rightarrow> (string \<times> 64 word list) option" where
  "take_token 0 rs = Some ([], rs)"
| "take_token (Suc n) [] = None"
| "take_token (Suc n) (r # rs) =
    map_option (\<lambda>(s, rest). (token ! (unat r mod length token) # s, rest)) (take_token n rs)"

fun random_state :: "64 word list \<Rightarrow> (string \<times> 64 word list) option" where
  "random_state [] = None"
| "random_state (r # rs) = take_token (unat r mod 81 + 80) rs"

lemma take_token_length: "take_token n rs = Some (s, rest) \<Longrightarrow> length s = n \<and> length rs = n + length rest"
  by (induction n rs arbitrary: s rule: take_token.induct) auto

lemma random_state_shorter: "random_state rs = Some (s, rest) \<Longrightarrow> length rest < length rs"
  by (cases rs) (auto dest: take_token_length)

function fresh_state :: "(string \<Rightarrow> bool) \<Rightarrow> 64 word list \<Rightarrow> string option" where
  "fresh_state used rs =
    (case random_state rs of
       None \<Rightarrow> None
     | Some (s, rest) \<Rightarrow> if used s then fresh_state used rest else Some s)"
  by auto
termination by (relation "measure (\<lambda>(u, rs). length rs)") (auto dest: random_state_shorter)

declare fresh_state.simps [simp del]

definition generate_oauth_state :: "int \<Rightarrow> 64 word list \<Rightarrow> string \<Rightarrow> oauth \<Rightarrow> (string \<times> oauth) option" where
  "generate_oauth_state now rs redirect s =
    map_option (\<lambda>state. (state, snd (register_timer
        \<lparr>ot_ts = now, ot_second_sleep = STATE_LIFETIME, ot_val = state, ot_has_break = True\<rparr>
        (s\<lparr>oa_states := (oa_states s)(state \<mapsto> redirect)\<rparr>))))
      (fresh_state (\<lambda>x. oa_states s x \<noteq> None) rs)"

definition oauth_due :: "int \<Rightarrow> oauth_timer_t \<Rightarrow> bool" where
  "oauth_due now t \<longleftrightarrow> now - ot_ts t > ot_second_sleep t * 1000000000"

fun oauth_loop :: "int \<Rightarrow> oauth_timer_t list \<Rightarrow> oauth \<Rightarrow> oauth_timer_t list \<times> oauth" where
  "oauth_loop now [] s = ([], s)"
| "oauth_loop now (i # is) s =
    (if ot_has_break i \<and> should_break_oauth_states (ot_val i) s then oauth_loop now is s
     else if oauth_due now i then oauth_loop now is (snd (snd (remove_oauth_state (ot_val i) s)))
     else (case oauth_loop now is s of (ts, s1) \<Rightarrow> (i # ts, s1)))"

definition oauth_check_timers :: "int \<Rightarrow> oauth \<Rightarrow> int \<times> oauth" where
  "oauth_check_timers now s = (case oauth_loop now (oa_timers s) s of (ts, s1) \<Rightarrow> (- 1, s1\<lparr>oa_timers := ts\<rparr>))"

definition remove_all_timers :: "oauth \<Rightarrow> oauth" where
  "remove_all_timers s =
    (fold (\<lambda>i s. snd (snd (remove_oauth_state (ot_val i) s))) (oa_timers s) s)\<lparr>oa_timers := []\<rparr>"

fun get_oauth_timer :: "string \<Rightarrow> oauth_timer_t list \<Rightarrow> oauth_timer_t" where
  "get_oauth_timer val [] = \<lparr>ot_ts = 0, ot_second_sleep = 0, ot_val = [], ot_has_break = False\<rparr>"
| "get_oauth_timer val (i # is) = (if ot_val i \<noteq> val then get_oauth_timer val is else i)"

section \<open>Bodies of requests\<close>

record recv_body_t =
  rb_ts :: int
  rb_endpoint :: nat
  rb_id :: string
  rb_body :: string

text \<open>The endpoint is compared as a pointer, here the number of the literal.\<close>

definition rb_key :: "recv_body_t \<Rightarrow> int \<times> string \<times> nat" where
  "rb_key b = (rb_ts b, rb_id b, rb_endpoint b)"

definition get_recv_body_cache :: "recv_body_t \<Rightarrow> recv_body_t list \<Rightarrow> recv_body_t option" where
  "get_recv_body_cache b l = find (\<lambda>i. rb_key i = rb_key b) l"

definition store_recv_body_cache :: "recv_body_t \<Rightarrow> recv_body_t list \<Rightarrow> int \<times> recv_body_t list" where
  "store_recv_body_cache b l = (if get_recv_body_cache b l \<noteq> None then (1, l) else (0, l @ [b]))"

definition delete_recv_body_cache :: "recv_body_t \<Rightarrow> recv_body_t list \<Rightarrow> recv_body_t list" where
  "delete_recv_body_cache b l = erase_first (\<lambda>i. rb_key i = rb_key b) l"

text \<open>\<open>None\<close>: the process terminates, as the request was begun twice.\<close>

definition create_recv_body_t :: "int \<Rightarrow> nat \<Rightarrow> string \<Rightarrow> recv_body_t list \<Rightarrow> (recv_body_t \<times> recv_body_t list) option" where
  "create_recv_body_t now endpoint i l =
    (let b = \<lparr>rb_ts = now, rb_endpoint = endpoint, rb_id = i, rb_body = []\<rparr>
     in case store_recv_body_cache b l of (st, l1) \<Rightarrow> if st \<noteq> 0 then None else Some (b, l1))"

fun append_body :: "recv_body_t \<Rightarrow> string \<Rightarrow> recv_body_t list \<Rightarrow> recv_body_t list" where
  "append_body b chunk [] = []"
| "append_body b chunk (i # is) =
    (if rb_key i = rb_key b then i\<lparr>rb_body := rb_body i @ chunk\<rparr> # is else i # append_body b chunk is)"

text \<open>The second component is the body that the handler is given, when it is called.\<close>

definition default_recv_on_data ::
  "recv_body_t \<Rightarrow> string \<Rightarrow> bool \<Rightarrow> recv_body_t list \<Rightarrow> recv_body_t list \<times> string option" where
  "default_recv_on_data b chunk is_last l =
    (case get_recv_body_cache b l of
       None \<Rightarrow> (l, None)
     | Some i \<Rightarrow>
         let l1 = append_body b chunk l
         in if is_last then (delete_recv_body_cache b l1, Some (rb_body i @ chunk)) else (l1, None))"

definition default_recv_on_aborted :: "recv_body_t \<Rightarrow> recv_body_t list \<Rightarrow> recv_body_t list" where
  "default_recv_on_aborted b l = (if get_recv_body_cache b l = None then l else delete_recv_body_cache b l)"

section \<open>Cached answers\<close>

record invalidate_timer_t =
  it_ts :: int
  it_second_max_age :: int
  it_key :: string

record scache =
  sc_cache :: "(string \<times> json) list"
  sc_timers :: "invalidate_timer_t list"

definition cache_set :: "string \<Rightarrow> json \<Rightarrow> scache \<Rightarrow> scache" where
  "cache_set key v s = s\<lparr>sc_cache := omap_insert key v (sc_cache s)\<rparr>"

definition cache_get :: "string \<Rightarrow> scache \<Rightarrow> json" where
  "cache_get key s = (case map_of (sc_cache s) key of None \<Rightarrow> JNull | Some v \<Rightarrow> v)"

definition cache_remove :: "string \<Rightarrow> scache \<Rightarrow> scache" where
  "cache_remove key s = s\<lparr>sc_cache := omap_delete key (sc_cache s)\<rparr>"

definition cached :: "scache \<Rightarrow> string \<Rightarrow> json option" where
  "cached s = map_of (sc_cache s)"

interpretation service_cache: kv_store cached cache_set cache_remove
  by unfold_locales (auto simp: cached_def cache_set_def cache_remove_def map_of_omap_insert map_of_omap_delete)

definition remove_invalidate_timer :: "string \<Rightarrow> scache \<Rightarrow> scache" where
  "remove_invalidate_timer key s = s\<lparr>sc_timers := erase_first (\<lambda>i. it_key i = key) (sc_timers s)\<rparr>"

definition create_invalidate_timer :: "int \<Rightarrow> string \<Rightarrow> int \<Rightarrow> scache \<Rightarrow> scache" where
  "create_invalidate_timer now key second_max_age s =
    (let s1 = remove_invalidate_timer key s
     in s1\<lparr>sc_timers := sc_timers s1 @ [\<lparr>it_ts = now, it_second_max_age = second_max_age, it_key = key\<rparr>]\<rparr>)"

definition it_due :: "int \<Rightarrow> invalidate_timer_t \<Rightarrow> bool" where
  "it_due now t \<longleftrightarrow> now - it_ts t > it_second_max_age t * 1000000000"

fun cache_loop :: "int \<Rightarrow> invalidate_timer_t list \<Rightarrow> scache \<Rightarrow> invalidate_timer_t list \<times> scache" where
  "cache_loop now [] s = ([], s)"
| "cache_loop now (i # is) s =
    (if it_due now i then cache_loop now is (cache_remove (it_key i) s)
     else (case cache_loop now is s of (ts, s1) \<Rightarrow> (i # ts, s1)))"

definition cache_check_timers :: "int \<Rightarrow> scache \<Rightarrow> scache" where
  "cache_check_timers now s = (case cache_loop now (sc_timers s) s of (ts, s1) \<Rightarrow> s1\<lparr>sc_timers := ts\<rparr>)"

definition auth_key :: "string \<Rightarrow> string" where "auth_key user_id = user_id @ ''/auth''"
definition guilds_key :: "string \<Rightarrow> string" where "guilds_key user_id = user_id @ ''/get_user_guilds''"
definition detailed_key :: "snowflake \<Rightarrow> string" where "detailed_key shaid = nat_str (unat shaid) @ ''/detailed_user''"

definition get_cached_user_auth :: "string \<Rightarrow> scache \<Rightarrow> json" where
  "get_cached_user_auth user_id s = cache_get (auth_key user_id) s"

definition set_cached :: "int \<Rightarrow> string \<Rightarrow> int \<Rightarrow> json \<Rightarrow> scache \<Rightarrow> scache" where
  "set_cached now key age v s = create_invalidate_timer now key age (cache_set key v s)"

definition set_cached_user_auth :: "int \<Rightarrow> string \<Rightarrow> json \<Rightarrow> scache \<Rightarrow> scache" where
  "set_cached_user_auth now user_id v s = set_cached now (auth_key user_id) 300 v s"

definition remove_cached_user_auth :: "string \<Rightarrow> scache \<Rightarrow> scache" where
  "remove_cached_user_auth user_id s = cache_remove (auth_key user_id) s"

definition get_cached_user_guilds :: "string \<Rightarrow> scache \<Rightarrow> json" where
  "get_cached_user_guilds user_id s = cache_get (guilds_key user_id) s"

definition set_cached_user_guilds :: "int \<Rightarrow> string \<Rightarrow> json \<Rightarrow> scache \<Rightarrow> scache" where
  "set_cached_user_guilds now user_id v s = set_cached now (guilds_key user_id) 86400 v s"

definition remove_cached_user_guilds :: "string \<Rightarrow> scache \<Rightarrow> scache" where
  "remove_cached_user_guilds user_id s =
    remove_invalidate_timer (guilds_key user_id) (cache_remove (guilds_key user_id) s)"

definition get_cached_musicat_detailed_user :: "snowflake \<Rightarrow> scache \<Rightarrow> json" where
  "get_cached_musicat_detailed_user shaid s = (if shaid = 0 then JNull else cache_get (detailed_key shaid) s)"

definition set_cached_musicat_detailed_user :: "int \<Rightarrow> snowflake \<Rightarrow> json \<Rightarrow> scache \<Rightarrow> scache" where
  "set_cached_musicat_detailed_user now shaid v s =
    (if shaid = 0 then s else set_cached now (detailed_key shaid) 3600 v s)"

text \<open>A guild came or went: the guilds of its owner and of its members are fetched anew. The
  members are those of the event, by the text of their ids.\<close>

definition guilds_of_member :: "(string \<Rightarrow> bool) \<Rightarrow> string \<Rightarrow> bool" where
  "guilds_of_member member key =
    (case str_find key ''/get_user_guilds'' 0 of None \<Rightarrow> False | Some idx \<Rightarrow> member (take idx key))"

fun invalidate_members :: "(string \<Rightarrow> bool) \<Rightarrow> (string \<times> json) list \<Rightarrow> scache \<Rightarrow> scache" where
  "invalidate_members member [] s = s"
| "invalidate_members member ((k, v) # es) s =
    (if guilds_of_member member k
     then invalidate_members member es (cache_remove k (remove_invalidate_timer k s))
     else invalidate_members member es s)"

definition handle_guild_delete :: "string \<Rightarrow> (string \<Rightarrow> bool) \<Rightarrow> scache \<Rightarrow> scache" where
  "handle_guild_delete owner member s =
    (if owner = [] then s
     else let s1 = remove_cached_user_guilds owner s in invalidate_members member (sc_cache s1) s1)"

definition handle_guild_create :: "snowflake \<Rightarrow> string \<Rightarrow> (string \<Rightarrow> bool) \<Rightarrow> scache \<Rightarrow> scache" where
  "handle_guild_create guild_id owner member s = (if guild_id = 0 then s else handle_guild_delete owner member s)"

section \<open>Results of searches\<close>

type_synonym search_cache = "(string \<times> MCTrack list) list"

definition search_cache_get :: "string \<Rightarrow> search_cache \<Rightarrow> MCTrack list" where
  "search_cache_get i c = (case map_of c i of None \<Rightarrow> [] | Some v \<Rightarrow> v)"

definition search_cache_set :: "string \<Rightarrow> MCTrack list \<Rightarrow> search_cache \<Rightarrow> search_cache" where
  "search_cache_set i v c = omap_insert i v c"

definition search_cache_remove :: "string \<Rightarrow> search_cache \<Rightarrow> search_cache" where
  "search_cache_remove i c = omap_delete i c"

interpretation search_results: kv_store map_of search_cache_set search_cache_remove
  by unfold_locales (auto simp: search_cache_set_def search_cache_remove_def map_of_omap_insert map_of_omap_delete)

section \<open>Logins: a state lives for ten minutes\<close>

lemma remove_oauth_frame [simp]:
  "remove_oauth_state y s = (st, r, s') \<Longrightarrow> oa_timers s' = oa_timers s"
  "remove_oauth_state y s = (st, r, s') \<Longrightarrow> oa_states s' = (oa_states s)(y := None)"
  by (auto simp: remove_oauth_state_def fun_upd_idem split: option.splits)

lemma oauth_loop_gone:
  "oauth_loop now is s = (ts, s') \<Longrightarrow> oa_states s x = None \<Longrightarrow> oa_states s' x = None"
proof (induction now "is" s arbitrary: ts rule: oauth_loop.induct)
  case (2 now i "is" s)
  obtain st r s1 where r: "remove_oauth_state (ot_val i) s = (st, r, s1)" by (metis surj_pair)
  then show ?case using 2 by (auto split: if_splits prod.splits)
qed simp

lemma oauth_loop_keeps:
  "oauth_loop now is s = (ts, s') \<Longrightarrow> oa_states s x = Some r \<Longrightarrow> \<forall>i \<in> set is. ot_val i = x \<longrightarrow> \<not> oauth_due now i
    \<Longrightarrow> oa_states s' x = Some r \<and> {i \<in> set ts. ot_val i = x} = {i \<in> set is. ot_val i = x}"
proof (induction now "is" s arbitrary: ts rule: oauth_loop.induct)
  case (2 now i "is" s)
  obtain st q s1 where q: "remove_oauth_state (ot_val i) s = (st, q, s1)" by (metis surj_pair)
  consider "ot_has_break i \<and> should_break_oauth_states (ot_val i) s"
    | "\<not> (ot_has_break i \<and> should_break_oauth_states (ot_val i) s)" "oauth_due now i"
    | "\<not> (ot_has_break i \<and> should_break_oauth_states (ot_val i) s)" "\<not> oauth_due now i" by blast
  then show ?case
  proof cases
    case 1
    then have "ot_val i \<noteq> x" using "2.prems"(2) by (auto simp: should_break_oauth_states_def)
    then show ?thesis using 2(1) [OF 1] "2.prems" 1 by auto
  next
    case b: 2
    then have "ot_val i \<noteq> x" using "2.prems"(3) by auto
    then show ?thesis using 2(2) [OF b] "2.prems" b q by auto
  next
    case c: 3
    obtain ts1 s2 where "oauth_loop now is s = (ts1, s2)" by (metis surj_pair)
    then show ?thesis using 2(3) [OF c] "2.prems" c by auto
  qed
qed simp

lemma oauth_loop_expires:
  "oauth_loop now is s = (ts, s') \<Longrightarrow> i \<in> set is \<Longrightarrow> oauth_due now i \<Longrightarrow> oa_states s' (ot_val i) = None"
proof (induction now "is" s arbitrary: ts rule: oauth_loop.induct)
  case (2 now j "is" s)
  obtain st q s1 where q: "remove_oauth_state (ot_val j) s = (st, q, s1)" by (metis surj_pair)
  show ?case
  proof (cases "i = j")
    case True
    then show ?thesis using "2.prems" q oauth_loop_gone [of now "is" s1 ts s' "ot_val j"] oauth_loop_gone [of now "is" s ts s' "ot_val j"]
      by (auto simp: should_break_oauth_states_def split: if_splits)
  next
    case False
    then show ?thesis using 2 q by (auto split: if_splits prod.splits)
  qed
qed simp

text \<open>What may happen while a login waits: other logins begin and end, and the main loop checks
  the timers, up to the time \<open>limit\<close>.\<close>

inductive oauth_step :: "string \<Rightarrow> int \<Rightarrow> oauth \<Rightarrow> oauth \<Rightarrow> bool" for x limit where
  generated: "generate_oauth_state now rs redirect s = Some (y, s') \<Longrightarrow> oauth_step x limit s s'"
| redeemed: "y \<noteq> x \<Longrightarrow> remove_oauth_state y s = (st, r, s') \<Longrightarrow> oauth_step x limit s s'"
| checked: "now \<le> limit \<Longrightarrow> oauth_check_timers now s = (st, s') \<Longrightarrow> oauth_step x limit s s'"

lemma fresh_state_unused: "fresh_state used rs = Some x \<Longrightarrow> \<not> used x"
proof (induction used rs rule: fresh_state.induct)
  case (1 used rs)
  have "(case random_state rs of None \<Rightarrow> None | Some (s, rest) \<Rightarrow> if used s then fresh_state used rest else Some s) = Some x"
    using 1(2) fresh_state.simps [of used rs] by simp
  then obtain s rest where r: "random_state rs = Some (s, rest)"
    and "(if used s then fresh_state used rest else Some s) = Some x" by (cases "random_state rs") auto
  then show ?case using 1(1) [OF r refl] by (cases "used s") simp_all
qed

definition waiting :: "string \<Rightarrow> string \<Rightarrow> int \<Rightarrow> oauth \<Rightarrow> bool" where
  "waiting x redirect now s \<longleftrightarrow> oa_states s x = Some redirect
    \<and> (\<exists>t \<in> set (oa_timers s). ot_val t = x)
    \<and> (\<forall>t \<in> set (oa_timers s). ot_val t = x \<longrightarrow> ot_ts t = now \<and> ot_second_sleep t = STATE_LIFETIME)"

lemma waiting_step:
  assumes "oauth_step x limit s s'" and "waiting x redirect now s" and "limit \<le> now + STATE_LIFETIME * 1000000000"
  shows "waiting x redirect now s'"
  using assms(1)
proof cases
  case (generated now' rs redirect' y)
  then have "y \<noteq> x" using assms(2) fresh_state_unused by (auto simp: generate_oauth_state_def waiting_def)
  then show ?thesis using generated assms(2)
    by (auto simp: generate_oauth_state_def register_timer_def waiting_def split: if_splits)
next
  case (redeemed y st r)
  then show ?thesis using assms(2) by (auto simp: waiting_def)
next
  case (checked now' st)
  obtain ts s1 where l: "oauth_loop now' (oa_timers s) s = (ts, s1)" by (metis surj_pair)
  then have s': "s' = s1\<lparr>oa_timers := ts\<rparr>" using checked(2) by (simp add: oauth_check_timers_def)
  have "\<forall>i \<in> set (oa_timers s). ot_val i = x \<longrightarrow> \<not> oauth_due now' i"
    using assms(2,3) checked(1) by (auto simp: waiting_def oauth_due_def)
  from oauth_loop_keeps [OF l _ this] have "oa_states s1 x = Some redirect"
    "{i \<in> set ts. ot_val i = x} = {i \<in> set (oa_timers s). ot_val i = x}" using assms(2) by (auto simp: waiting_def)
  then show ?thesis using assms(2) unfolding waiting_def s' by auto
qed

text \<open>The state of a login is accepted once, within ten minutes. While other logins begin
  and end and the timers are checked, a state that was given out is redeemed with the redirect it
  was given out for as long as no check comes later than 600 seconds; redeemed again it is
  refused; and the first check after that time makes it unknown.\<close>

theorem oauth_state_lifetime:
  assumes "generate_oauth_state now rs redirect s = Some (x, s1)" and "\<forall>t \<in> set (oa_timers s). ot_val t \<noteq> x"
    and "(oauth_step x (now + STATE_LIFETIME * 1000000000))\<^sup>*\<^sup>* s1 s2"
    and "now + STATE_LIFETIME * 1000000000 < later"
  shows "(\<exists>s3. remove_oauth_state x s2 = (0, Some redirect, s3) \<and> remove_oauth_state x s3 = (- 1, None, s3))
    \<and> oa_states (snd (oauth_check_timers later s2)) x = None"
proof -
  let ?t = "\<lparr>ot_ts = now, ot_second_sleep = STATE_LIFETIME, ot_val = x, ot_has_break = True\<rparr>"
  have "?t \<notin> set (oa_timers s)" using assms(2) by auto
  then have "s1 = s\<lparr>oa_states := (oa_states s)(x \<mapsto> redirect), oa_timers := oa_timers s @ [?t]\<rparr>"
    using assms(1) by (auto simp: generate_oauth_state_def register_timer_def)
  then have "waiting x redirect now s1" using assms(2) by (auto simp: waiting_def)
  with assms(3) have w: "waiting x redirect now s2"
    by (induction rule: rtranclp_induct) (auto intro: waiting_step)
  then have "\<exists>s3. remove_oauth_state x s2 = (0, Some redirect, s3) \<and> remove_oauth_state x s3 = (- 1, None, s3)"
    by (auto simp: waiting_def remove_oauth_state_def)
  moreover obtain ts s3 where r: "oauth_loop later (oa_timers s2) s2 = (ts, s3)" by (metis surj_pair)
  moreover from w obtain t where t: "t \<in> set (oa_timers s2)" "ot_val t = x" "ot_ts t = now" "ot_second_sleep t = STATE_LIFETIME"
    by (auto simp: waiting_def)
  then have "oa_states s3 x = None" using oauth_loop_expires [OF r t(1)] assms(4) by (auto simp: oauth_due_def)
  ultimately show ?thesis by (simp add: oauth_check_timers_def r)
qed

definition oauth_init :: oauth where
  "oauth_init = \<lparr>oa_states = Map.empty, oa_timers = []\<rparr>"

lemma take_token_zeros: "take_token n (replicate n 0 @ rs) = Some (replicate n (CHR ''0''), rs)"
  by (induction n) (simp_all add: token_def)

theorem oauth_state_lifetime_witness:
  "\<exists>s1 s3. generate_oauth_state 0 (0 # replicate 80 0) ''/home'' oauth_init = Some (replicate 80 (CHR ''0''), s1)
    \<and> remove_oauth_state (replicate 80 (CHR ''0'')) s1 = (0, Some ''/home'', s3)
    \<and> oa_states (snd (oauth_check_timers 600000000001 s1)) (replicate 80 (CHR ''0'')) = None"
proof -
  have "random_state (0 # replicate 80 0) = Some (replicate 80 (CHR ''0''), [])"
    using take_token_zeros [of 80 "[]"] by simp
  then have "fresh_state (\<lambda>x. oa_states oauth_init x \<noteq> None) (0 # replicate 80 0) = Some (replicate 80 (CHR ''0''))"
    by (subst fresh_state.simps) (simp add: oauth_init_def)
  then obtain s1 where g: "generate_oauth_state 0 (0 # replicate 80 0) ''/home'' oauth_init = Some (replicate 80 (CHR ''0''), s1)"
    by (simp add: generate_oauth_state_def)
  have "\<forall>t \<in> set (oa_timers oauth_init). ot_val t \<noteq> replicate 80 (CHR ''0'')" by (simp add: oauth_init_def)
  moreover have "0 + STATE_LIFETIME * 1000000000 < 600000000001" by (simp add: STATE_LIFETIME_def)
  ultimately show ?thesis using oauth_state_lifetime [OF g _ rtranclp.rtrancl_refl] g by blast
qed

section \<open>Cached answers expire\<close>

text \<open>The last time each key was set, how long its answer may be used, and the answer, beside the
  cache.\<close>

type_synonym cache_log = "string \<rightharpoonup> int \<times> int \<times> json"

inductive cache_step :: "scache \<times> cache_log \<Rightarrow> scache \<times> cache_log \<Rightarrow> bool" where
  auth: "cache_step (s, l) (set_cached_user_auth now u v s, l(auth_key u \<mapsto> (now, 300, v)))"
| guilds: "cache_step (s, l) (set_cached_user_guilds now u v s, l(guilds_key u \<mapsto> (now, 86400, v)))"
| detailed: "shaid \<noteq> 0 \<Longrightarrow>
    cache_step (s, l) (set_cached_musicat_detailed_user now shaid v s, l(detailed_key shaid \<mapsto> (now, 3600, v)))"
| forget_auth: "cache_step (s, l) (remove_cached_user_auth u s, l)"
| forget_guilds: "cache_step (s, l) (remove_cached_user_guilds u s, l)"
| guild_created: "cache_step (s, l) (handle_guild_create g owner member s, l)"
| guild_deleted: "cache_step (s, l) (handle_guild_delete owner member s, l)"
| checked: "cache_step (s, l) (cache_check_timers now s, l)"

definition scache_init :: scache where
  "scache_init = \<lparr>sc_cache = [], sc_timers = []\<rparr>"

definition timer_of :: "string \<Rightarrow> int \<times> int \<times> json \<Rightarrow> invalidate_timer_t" where
  "timer_of k e = \<lparr>it_ts = fst e, it_second_max_age = fst (snd e), it_key = k\<rparr>"

definition scache_ok :: "scache \<Rightarrow> cache_log \<Rightarrow> bool" where
  "scache_ok s l \<longleftrightarrow> distinct (map it_key (sc_timers s))
    \<and> (\<forall>k v. cached s k = Some v \<longrightarrow> (\<exists>e. l k = Some e \<and> snd (snd e) = v \<and> timer_of k e \<in> set (sc_timers s)))"

lemma set_erase_first_key:
  "distinct (map f xs) \<Longrightarrow> x \<in> set (erase_first (\<lambda>i. f i = k) xs) \<longleftrightarrow> x \<in> set xs \<and> f x \<noteq> k"
  by (simp add: erase_first_eq_erase_if erase_if_def)

lemma cached_set [simp]: "cached (cache_set k v s) = (cached s)(k \<mapsto> v)" "sc_timers (cache_set k v s) = sc_timers s"
  "cached (cache_remove k s) = (cached s)(k := None)" "sc_timers (cache_remove k s) = sc_timers s"
  using service_cache.lookup_store service_cache.lookup_remove by (simp_all add: cache_set_def cache_remove_def)

lemma invalidate_timers [simp]:
  "cached (remove_invalidate_timer k s) = cached s" "cached (create_invalidate_timer now k a s) = cached s"
  "sc_timers (remove_invalidate_timer k s) = erase_first (\<lambda>i. it_key i = k) (sc_timers s)"
  "sc_timers (create_invalidate_timer now k a s)
    = erase_first (\<lambda>i. it_key i = k) (sc_timers s) @ [\<lparr>it_ts = now, it_second_max_age = a, it_key = k\<rparr>]"
  by (simp_all add: remove_invalidate_timer_def create_invalidate_timer_def cached_def)

lemma scache_okD:
  "scache_ok s l \<Longrightarrow> cached s k = Some v \<Longrightarrow> \<exists>e. l k = Some e \<and> snd (snd e) = v \<and> timer_of k e \<in> set (sc_timers s)"
  by (simp add: scache_ok_def)

lemma set_cached_ok: "scache_ok s l \<Longrightarrow> scache_ok (set_cached now k a v s) (l(k \<mapsto> (now, a, v)))"
  by (auto simp: scache_ok_def set_cached_def set_erase_first_key timer_of_def distinct_erase_first)

lemma forget_ok:
  "scache_ok s l \<Longrightarrow> scache_ok (cache_remove k s) l"
  "scache_ok s l \<Longrightarrow> scache_ok (remove_invalidate_timer k (cache_remove k s)) l"
  "scache_ok s l \<Longrightarrow> scache_ok (cache_remove k (remove_invalidate_timer k s)) l"
  by (auto simp: scache_ok_def set_erase_first_key timer_of_def distinct_erase_first)

lemma invalidate_ok: "scache_ok s l \<Longrightarrow> scache_ok (invalidate_members member es s) l"
  by (induction member es s rule: invalidate_members.induct) (auto intro: forget_ok)

lemma guild_delete_ok: "scache_ok s l \<Longrightarrow> scache_ok (handle_guild_delete owner member s) l"
  by (auto simp: handle_guild_delete_def remove_cached_user_guilds_def Let_def intro!: invalidate_ok forget_ok)

lemma cache_loop_spec:
  "cache_loop now is s = (ts, s') \<Longrightarrow> ts = filter (\<lambda>i. \<not> it_due now i) is
    \<and> cached s' k = (if \<exists>i \<in> set is. it_due now i \<and> it_key i = k then None else cached s k)"
  by (induction now "is" s arbitrary: ts rule: cache_loop.induct) (auto split: if_splits prod.splits)

lemma cached_timers [simp]: "cached (s\<lparr>sc_timers := ts\<rparr>) = cached s"
  by (simp add: cached_def)

lemma check_spec:
  "sc_timers (cache_check_timers now s) = filter (\<lambda>i. \<not> it_due now i) (sc_timers s)"
  "cached (cache_check_timers now s) k
    = (if \<exists>i \<in> set (sc_timers s). it_due now i \<and> it_key i = k then None else cached s k)"
proof -
  obtain ts s' where l: "cache_loop now (sc_timers s) s = (ts, s')" by (metis surj_pair)
  then show "sc_timers (cache_check_timers now s) = filter (\<lambda>i. \<not> it_due now i) (sc_timers s)"
    "cached (cache_check_timers now s) k
      = (if \<exists>i \<in> set (sc_timers s). it_due now i \<and> it_key i = k then None else cached s k)"
    using cache_loop_spec [OF l] by (simp_all add: cache_check_timers_def)
qed

lemma check_ok: "scache_ok s l \<Longrightarrow> scache_ok (cache_check_timers now s) l"
proof -
  assume ok: "scache_ok s l"
  have "\<exists>e. l k = Some e \<and> snd (snd e) = v \<and> timer_of k e \<in> set (sc_timers (cache_check_timers now s))"
    if "cached (cache_check_timers now s) k = Some v" for k v
  proof -
    have c: "cached s k = Some v" "\<forall>i \<in> set (sc_timers s). it_key i = k \<longrightarrow> \<not> it_due now i"
      using that by (auto simp: check_spec split: if_splits)
    obtain e where e: "l k = Some e" "snd (snd e) = v" "timer_of k e \<in> set (sc_timers s)"
      using scache_okD [OF ok c(1)] by blast
    then have "\<not> it_due now (timer_of k e)" using c(2) by (auto simp: timer_of_def)
    then show ?thesis using e by (auto simp: check_spec)
  qed
  then show ?thesis using ok by (auto simp: scache_ok_def check_spec distinct_map inj_on_def)
qed

lemma cache_step_ok: "cache_step x y \<Longrightarrow> scache_ok (fst x) (snd x) \<Longrightarrow> scache_ok (fst y) (snd y)"
  by (induction rule: cache_step.induct)
    (auto simp: set_cached_user_auth_def set_cached_user_guilds_def set_cached_musicat_detailed_user_def
      remove_cached_user_auth_def remove_cached_user_guilds_def handle_guild_create_def
      intro: set_cached_ok forget_ok guild_delete_ok check_ok)

lemma cache_reachable_ok: "cache_step\<^sup>*\<^sup>* (scache_init, Map.empty) (s, l) \<Longrightarrow> scache_ok s l"
proof (induction "(s, l)" arbitrary: s l rule: rtranclp_induct)
  case base
  then show ?case by (simp add: scache_ok_def scache_init_def cached_def)
qed (use cache_step_ok in force)

text \<open>C36: An answer of Discord is used for as long as it was stored for and no longer. However
  answers are stored, stored again, forgotten, invalidated by guild events and expired: after the
  timers are checked, the cache holds under a key exactly what it held before, provided it was
  last stored at most its lifetime ago (300 seconds for a login, a day for guilds, an hour for the
  bot), and it is the answer last stored.\<close>

theorem cached_answers_fresh:
  assumes "cache_step\<^sup>*\<^sup>* (scache_init, Map.empty) (s, l)"
  shows "cached (cache_check_timers now s) k = Some v
    \<longleftrightarrow> cached s k = Some v \<and> (\<exists>t age. l k = Some (t, age, v) \<and> now - t \<le> age * 1000000000)"
proof -
  note ok = cache_reachable_ok [OF assms]
  show ?thesis
  proof (cases "cached s k = Some v")
    case True
    from scache_okD [OF ok this] obtain e
      where e: "l k = Some e" "snd (snd e) = v" "timer_of k e \<in> set (sc_timers s)" by blast
    have k: "it_key (timer_of k e) = k" by (simp add: timer_of_def)
    have u: "j = timer_of k e" if "j \<in> set (sc_timers s)" "it_key j = k" for j
      by (rule inj_onD [of it_key "set (sc_timers s)"]) (use that e(3) ok k in \<open>simp_all add: scache_ok_def distinct_map\<close>)
    have x: "(\<exists>i \<in> set (sc_timers s). it_due now i \<and> it_key i = k) \<longleftrightarrow> it_due now (timer_of k e)"
      using e(3) k by (auto dest: u)
    obtain t a where "e = (t, a, v)" using e(2) by (cases e) simp
    then show ?thesis using True e(1) unfolding check_spec(2) x by (simp add: timer_of_def it_due_def not_less)
  qed (simp add: check_spec)
qed

lemma invalidate_spec:
  "cached (invalidate_members member es s) k = (if k \<in> fst ` set es \<and> guilds_of_member member k then None else cached s k)"
  "distinct (map it_key (sc_timers s)) \<Longrightarrow> sc_timers (invalidate_members member es s)
    = filter (\<lambda>t. \<not> (it_key t \<in> fst ` set es \<and> guilds_of_member member (it_key t))) (sc_timers s)"
proof (induction member es s rule: invalidate_members.induct)
  case (2 member k' v es s)
  {
    case 1
    show ?case using 2(1,3) by (cases "guilds_of_member member k'") auto
  next
    case d: 2
    show ?case
      using 2(2,4) d by (cases "guilds_of_member member k'")
        (auto simp: distinct_map_filter erase_first_eq_erase_if erase_if_def intro!: filter_cong)
  }
qed (auto simp: filter_id_conv)

lemma cached_entries: "cached s k \<noteq> None \<longleftrightarrow> k \<in> fst ` set (sc_cache s)"
  by (force simp: cached_def map_of_eq_None_iff)

text \<open>When a guild comes or goes, the guild lists of its owner and of its members are dropped
  from the cache together with their timers, and nothing else is.\<close>

theorem guild_event_invalidates:
  assumes "cache_step\<^sup>*\<^sup>* (scache_init, Map.empty) (s, l)" and "g \<noteq> 0" and "owner \<noteq> []"
    and "gone = (\<lambda>k. k = guilds_key owner \<or> guilds_of_member member k \<and> cached s k \<noteq> None)"
  shows "cached (handle_guild_create g owner member s) k = (if gone k then None else cached s k)
    \<and> sc_timers (handle_guild_create g owner member s) = filter (\<lambda>t. \<not> gone (it_key t)) (sc_timers s)"
proof -
  have d: "distinct (map it_key (sc_timers s))" using cache_reachable_ok [OF assms(1)] by (simp add: scache_ok_def)
  let ?s1 = "remove_cached_user_guilds owner s"
  have c: "cached ?s1 = (cached s)(guilds_key owner := None)" by (simp add: remove_cached_user_guilds_def)
  have t: "sc_timers ?s1 = filter (\<lambda>t. it_key t \<noteq> guilds_key owner) (sc_timers s)"
    using d by (simp add: remove_cached_user_guilds_def erase_first_eq_erase_if erase_if_def)
  then have d1: "distinct (map it_key (sc_timers ?s1))" using d by (simp add: distinct_map inj_on_def)
  have g: "k' \<in> fst ` set (sc_cache ?s1) \<longleftrightarrow> k' \<noteq> guilds_key owner \<and> cached s k' \<noteq> None" for k'
    unfolding cached_entries [symmetric] c by simp
  show ?thesis
    using assms(2,3) by (simp add: handle_guild_create_def handle_guild_delete_def Let_def
        invalidate_spec(1) invalidate_spec(2) [OF d1] c t g assms(4)) (auto intro!: filter_cong)
qed

theorem cached_answers_fresh_witness:
  "\<exists>s l. cache_step\<^sup>*\<^sup>* (scache_init, Map.empty) (s, l) \<and> cached s ''8/auth'' = Some (JInt 1)
    \<and> cached (cache_check_timers 300000000000 s) ''8/auth'' = Some (JInt 1)
    \<and> cached (cache_check_timers 300000000001 s) ''8/auth'' \<noteq> Some (JInt 1)"
proof -
  let ?s = "set_cached_user_auth 0 ''8'' (JInt 1) scache_init"
  let ?l = "[auth_key ''8'' \<mapsto> (0, 300, JInt 1)]"
  have "cache_step (scache_init, Map.empty) (?s, ?l)" by (rule cache_step.auth)
  then have r: "cache_step\<^sup>*\<^sup>* (scache_init, Map.empty) (?s, ?l)" by (rule r_into_rtranclp [of cache_step])
  have k: "auth_key ''8'' = ''8/auth''" by (simp add: auth_key_def)
  have "cached ?s ''8/auth'' = Some (JInt 1)" by (simp add: set_cached_user_auth_def set_cached_def k)
  then show ?thesis using cached_answers_fresh [OF r, of 300000000000 "''8/auth''" "JInt 1"]
      cached_answers_fresh [OF r, of 300000000001 "''8/auth''" "JInt 1"] r
    by (intro exI [of _ ?s] exI [of _ ?l]) (simp add: k)
qed

theorem guild_event_invalidates_witness:
  "\<exists>s l. cache_step\<^sup>*\<^sup>* (scache_init, Map.empty) (s, l) \<and> cached s (guilds_key ''8'') = Some (JInt 1)
    \<and> cached (handle_guild_create 1 ''7'' (\<lambda>u. u = ''8'') s) (guilds_key ''8'') = None"
proof -
  let ?s = "set_cached_user_guilds 0 ''8'' (JInt 1) scache_init"
  let ?l = "[guilds_key ''8'' \<mapsto> (0, 86400, JInt 1)]"
  have "cache_step (scache_init, Map.empty) (?s, ?l)" by (rule cache_step.guilds)
  then have r: "cache_step\<^sup>*\<^sup>* (scache_init, Map.empty) (?s, ?l)" by (rule r_into_rtranclp [of cache_step])
  have c: "cached ?s (guilds_key ''8'') = Some (JInt 1)" by (simp add: set_cached_user_guilds_def set_cached_def)
  have "guilds_of_member (\<lambda>u. u = ''8'') (guilds_key ''8'')" by code_simp
  then show ?thesis using guild_event_invalidates [OF r _ _ refl, of 1 "''7''" "\<lambda>u. u = ''8''" "guilds_key ''8''"] r c by auto
qed

section \<open>Locks\<close>

text \<open>The locks that a call takes and gives back, in order, by the control flow of the call.\<close>

datatype lock = L_oauth_states | L_oauth_timers | L_cache | L_cache_timers
datatype lock_op = Acq lock | Rel lock

definition guarded :: "lock \<Rightarrow> lock_op list \<Rightarrow> lock_op list" where
  "guarded m ops = Acq m # ops @ [Rel m]"

definition generate_locks :: "lock_op list" where
  "generate_locks = guarded L_oauth_states (guarded L_oauth_timers [])"

fun oauth_loop_locks :: "int \<Rightarrow> oauth_timer_t list \<Rightarrow> oauth \<Rightarrow> lock_op list" where
  "oauth_loop_locks now [] s = []"
| "oauth_loop_locks now (i # is) s =
    (if ot_has_break i then guarded L_oauth_states [] else [])
    @ (if ot_has_break i \<and> should_break_oauth_states (ot_val i) s then oauth_loop_locks now is s
       else if oauth_due now i
       then guarded L_oauth_states [] @ oauth_loop_locks now is (snd (snd (remove_oauth_state (ot_val i) s)))
       else oauth_loop_locks now is s)"

definition oauth_check_locks :: "int \<Rightarrow> oauth \<Rightarrow> lock_op list" where
  "oauth_check_locks now s = guarded L_oauth_timers (oauth_loop_locks now (oa_timers s) s)"

definition guild_event_locks :: "(string \<Rightarrow> bool) \<Rightarrow> scache \<Rightarrow> lock_op list" where
  "guild_event_locks member s =
    guarded L_cache [] @ guarded L_cache_timers []
    @ guarded L_cache (concat (map (\<lambda>(k, v). if guilds_of_member member k then guarded L_cache_timers [] else []) (sc_cache s)))"

definition cache_check_locks :: "int \<Rightarrow> scache \<Rightarrow> lock_op list" where
  "cache_check_locks now s =
    guarded L_cache_timers (concat (map (\<lambda>i. if it_due now i then guarded L_cache [] else []) (sc_timers s)))"

text \<open>Two threads: what each has still to do, and who holds which lock.\<close>

record lock_sys =
  lk_todo :: "nat \<Rightarrow> lock_op list"
  lk_holder :: "lock \<Rightarrow> nat option"

fun lock_next :: "nat \<Rightarrow> lock_sys \<Rightarrow> lock_sys option" where
  "lock_next i s =
    (case lk_todo s i of
       [] \<Rightarrow> None
     | Acq m # ops \<Rightarrow>
         (if lk_holder s m = None
          then Some (s\<lparr>lk_todo := (lk_todo s)(i := ops), lk_holder := (lk_holder s)(m \<mapsto> i)\<rparr>) else None)
     | Rel m # ops \<Rightarrow> Some (s\<lparr>lk_todo := (lk_todo s)(i := ops), lk_holder := (lk_holder s)(m := None)\<rparr>))"

inductive lock_step :: "lock_sys \<Rightarrow> lock_sys \<Rightarrow> bool" where
  "lock_next i s = Some s' \<Longrightarrow> lock_step s s'"

definition lock_start :: "lock_op list \<Rightarrow> lock_op list \<Rightarrow> lock_sys" where
  "lock_start p q = \<lparr>lk_todo = (\<lambda>i. if i = 0 then p else if i = 1 then q else []), lk_holder = Map.empty\<rparr>"

definition deadlocked :: "lock_sys \<Rightarrow> bool" where
  "deadlocked s \<longleftrightarrow> (\<exists>i. lk_todo s i \<noteq> []) \<and> (\<forall>s'. \<not> lock_step s s')"

definition can_deadlock :: "lock_op list \<Rightarrow> lock_op list \<Rightarrow> bool" where
  "can_deadlock p q \<longleftrightarrow> (\<exists>s. lock_step\<^sup>*\<^sup>* (lock_start p q) s \<and> deadlocked s)"

lemma crossed_locks_deadlock:
  assumes "p = Acq a # Acq b # p'" and "q = Acq b # Acq a # q'" and "a \<noteq> b"
  shows "can_deadlock p q"
proof -
  let ?s1 = "\<lparr>lk_todo = (\<lambda>i. if i = 0 then Acq b # p' else if i = 1 then q else []), lk_holder = [a \<mapsto> 0]\<rparr>"
  let ?s2 = "\<lparr>lk_todo = (\<lambda>i. if i = 0 then Acq b # p' else if i = 1 then Acq a # q' else []), lk_holder = [a \<mapsto> 0, b \<mapsto> 1]\<rparr>"
  have "lock_step (lock_start p q) ?s1"
    by (rule lock_step.intros [of 0]) (auto simp: lock_start_def assms(1))
  moreover have "lock_step ?s1 ?s2"
    by (rule lock_step.intros [of 1]) (use assms(3) in \<open>auto simp: assms(2)\<close>)
  moreover have "deadlocked ?s2"
    using assms(3) by (auto simp: deadlocked_def elim!: lock_step.cases split: if_splits intro: exI [of _ 0])
  ultimately show ?thesis unfolding can_deadlock_def
    by (intro exI [of _ ?s2] conjI) (rule converse_rtranclp_into_rtranclp [of lock_step, OF _ r_into_rtranclp])
qed

text \<open>A thread may first run through sections that are closed again.\<close>

lemma can_deadlock_section: "can_deadlock p q \<Longrightarrow> can_deadlock (Acq a # Rel a # p) q"
proof -
  assume "can_deadlock p q"
  then obtain s where s: "lock_step\<^sup>*\<^sup>* (lock_start p q) s" "deadlocked s" by (auto simp: can_deadlock_def)
  let ?s1 = "(lock_start (Rel a # p) q)\<lparr>lk_holder := [a \<mapsto> 0]\<rparr>"
  have "lock_step (lock_start (Acq a # Rel a # p) q) ?s1"
    by (rule lock_step.intros [of 0]) (auto simp: lock_start_def)
  moreover have "lock_step ?s1 (lock_start p q)"
    by (rule lock_step.intros [of 0]) (auto simp: lock_start_def)
  ultimately show ?thesis using s unfolding can_deadlock_def
    by (intro exI [of _ s] conjI) (auto intro: converse_rtranclp_into_rtranclp)
qed

text \<open>The server and the main loop can wait for each other for ever. A login that begins
  takes the lock of the states and then that of the timers, the check of the timers takes them in
  the other order as soon as there is a timer; a guild event takes the lock of the cache and then
  that of its timers (when a member's guilds are cached), the check takes them in the other order
  (when an entry is due). Both pairs have a run in which each holds what the other needs.\<close>

theorem server_locks_deadlock:
  assumes "oa_timers s = t # ts" and "ot_has_break t"
    and "sc_cache c = (k, v) # es" and "guilds_of_member member k" and "sc_timers c = i # is" and "it_due now i"
  shows "can_deadlock generate_locks (oauth_check_locks now s)
    \<and> can_deadlock (guild_event_locks member c) (cache_check_locks now c)"
proof
  show "can_deadlock generate_locks (oauth_check_locks now s)"
    by (rule crossed_locks_deadlock [of _ L_oauth_states L_oauth_timers])
      (simp_all add: generate_locks_def oauth_check_locks_def guarded_def assms(1,2))
  show "can_deadlock (guild_event_locks member c) (cache_check_locks now c)"
    unfolding guild_event_locks_def guarded_def append.simps assms(3) list.map concat.simps split_beta fst_conv if_P [OF assms(4)]
    by (intro can_deadlock_section crossed_locks_deadlock [of _ L_cache L_cache_timers])
      (simp_all add: cache_check_locks_def guarded_def assms(5,6))
qed

theorem server_locks_deadlock_witness:
  "can_deadlock generate_locks (oauth_check_locks 5
      \<lparr>oa_states = Map.empty, oa_timers = [\<lparr>ot_ts = 0, ot_second_sleep = 600, ot_val = ''x'', ot_has_break = True\<rparr>]\<rparr>)
    \<and> can_deadlock
      (guild_event_locks (\<lambda>u. u = ''8'')
        \<lparr>sc_cache = [(''8/get_user_guilds'', JInt 1)], sc_timers = [\<lparr>it_ts = 0, it_second_max_age = 0, it_key = ''8/get_user_guilds''\<rparr>]\<rparr>)
      (cache_check_locks 5
        \<lparr>sc_cache = [(''8/get_user_guilds'', JInt 1)], sc_timers = [\<lparr>it_ts = 0, it_second_max_age = 0, it_key = ''8/get_user_guilds''\<rparr>]\<rparr>)"
proof -
  have "guilds_of_member (\<lambda>u. u = ''8'') ''8/get_user_guilds''" by code_simp
  then show ?thesis by - (rule server_locks_deadlock, simp, simp, simp, simp, simp, simp add: it_due_def)
qed

end
