(* ===== verification/ServerHttp.thy ===== *)
theory ServerHttp
  imports ServerStream ServerStates Util
begin

text \<open>
  Answering requests: \<open>src/musicat/server/response.cpp\<close>, \<open>middlewares.cpp\<close>, \<open>auth.cpp\<close>, the
  generic handlers of \<open>routes.cpp\<close>. An \<open>end_t\<close> writes its answer when it is destroyed, unless its
  response is null or known to be aborted; work on another thread hands a copy of its answer back
  to the thread of the server. The library of the server is the trace of calls on each response;
  jwt-cpp is a pair of functions.
\<close>

section \<open>Responses\<close>

type_synonym header_v_t = "(string \<times> string) list"

definition OK_200 :: string where "OK_200 = ''200 OK''"
definition NO_CONTENT_204 :: string where "NO_CONTENT_204 = ''204 No Content''"
definition NOT_MODIFIED_304 :: string where "NOT_MODIFIED_304 = ''304 Not Modified''"
definition BAD_REQUEST_400 :: string where "BAD_REQUEST_400 = ''400 Bad Request''"
definition UNAUTHORIZED_401 :: string where "UNAUTHORIZED_401 = ''401 Unauthorized''"
definition FORBIDDEN_403 :: string where "FORBIDDEN_403 = ''403 Forbidden''"
definition NOT_FOUND_404 :: string where "NOT_FOUND_404 = ''404 Not Found''"
definition INTERNAL_SERVER_ERROR_500 :: string where "INTERNAL_SERVER_ERROR_500 = ''500 Internal Server Error''"

record end_t =
  en_status :: "string option"
  en_headers :: header_v_t
  en_response :: string
  en_res :: "nat option"

record res_state =
  rs_active :: "64 word"
  rs_aborted :: "nat list"
  rs_out :: res_trace

definition res_state_init :: res_state where
  "res_state_init = \<lparr>rs_active = 0, rs_aborted = [], rs_out = []\<rparr>"

definition end_new :: "nat option \<Rightarrow> res_state \<Rightarrow> end_t \<times> res_state" where
  "end_new res s =
    (\<lparr>en_status = Some OK_200, en_headers = [], en_response = [], en_res = res\<rparr>,
     s\<lparr>rs_active := rs_active s + 1\<rparr>)"

definition is_aborted :: "nat option \<Rightarrow> res_state \<Rightarrow> bool" where
  "is_aborted res s = (case res of None \<Rightarrow> True | Some r \<Rightarrow> r \<in> set (rs_aborted s))"

definition mark_aborted :: "nat \<Rightarrow> res_state \<Rightarrow> res_state" where
  "mark_aborted r s = s\<lparr>rs_aborted := rs_aborted s @ [r]\<rparr>"

definition clear_aborted :: "res_state \<Rightarrow> res_state" where
  "clear_aborted s =
    (let s1 = s\<lparr>rs_active := rs_active s - 1\<rparr>
     in if rs_active s1 \<noteq> 0 then s1 else s1\<lparr>rs_aborted := []\<rparr>)"

definition write_headers :: "header_v_t \<Rightarrow> res_op list" where
  "write_headers headers = map (\<lambda>(k, v). Write_header k v) headers"

definition emit :: "nat \<Rightarrow> res_op list \<Rightarrow> res_state \<Rightarrow> res_state" where
  "emit r ops s = s\<lparr>rs_out := rs_out s @ map (Pair r) ops\<rparr>"

definition end_destroy :: "end_t \<Rightarrow> res_state \<Rightarrow> res_state" where
  "end_destroy e s =
    (case (en_res e, en_status e) of
       (Some r, Some status) \<Rightarrow>
         if is_aborted (Some r) s then clear_aborted s
         else clear_aborted (emit r (Write_status status # write_headers (en_headers e) @ [End_body (en_response e)]) s)
     | _ \<Rightarrow> clear_aborted s)"

definition get_header :: "string \<Rightarrow> end_t \<Rightarrow> string \<times> string" where
  "get_header key e = (case find (\<lambda>h. fst h = key) (en_headers e) of Some h \<Rightarrow> h | None \<Rightarrow> ([], []))"

definition add_header :: "string \<Rightarrow> string \<Rightarrow> end_t \<Rightarrow> end_t" where
  "add_header key v e = e\<lparr>en_headers := en_headers e @ [(key, v)]\<rparr>"

fun update_first :: "string \<Rightarrow> string \<Rightarrow> header_v_t \<Rightarrow> header_v_t" where
  "update_first key v [] = []"
| "update_first key v (h # hs) = (if fst h = key then (key, v) # hs else h # update_first key v hs)"

definition set_header :: "string \<Rightarrow> string \<Rightarrow> end_t \<Rightarrow> end_t" where
  "set_header key v e =
    (if \<exists>h \<in> set (en_headers e). fst h = key then e\<lparr>en_headers := update_first key v (en_headers e)\<rparr>
     else add_header key v e)"

definition remove_header :: "string \<Rightarrow> end_t \<Rightarrow> (string \<times> string) \<times> end_t" where
  "remove_header key e = (get_header key e, e\<lparr>en_headers := erase_first (\<lambda>h. fst h = key) (en_headers e)\<rparr>)"

definition set_content_type_header :: "string \<Rightarrow> end_t \<Rightarrow> end_t" where
  "set_content_type_header ct e = set_header ''Content-Type'' ct e"

definition remove_content_type_header :: "end_t \<Rightarrow> end_t" where
  "remove_content_type_header e = snd (remove_header ''Content-Type'' e)"

definition set_content_type_json :: "end_t \<Rightarrow> end_t" where
  "set_content_type_json e = set_content_type_header ''application/json'' e"

text \<open>The destructor of \<open>defer_end_t\<close>: what is deferred, and what it leaves behind. The deferred
  closure makes an \<open>end_t\<close> of its own and destroys it.\<close>

definition defer_end :: "end_t \<Rightarrow> res_state \<Rightarrow> end_t option \<times> end_t" where
  "defer_end e s = (if is_aborted (en_res e) s then (None, e) else (Some e, e\<lparr>en_res := None\<rparr>))"

definition run_deferred_end :: "end_t \<Rightarrow> res_state \<Rightarrow> res_state" where
  "run_deferred_end e s =
    (case end_new (en_res e) s of (e1, s1) \<Rightarrow>
       end_destroy (e1\<lparr>en_status := en_status e, en_headers := en_headers e, en_response := en_response e\<rparr>) s1)"

definition response_payload :: "json \<Rightarrow> json" where
  "response_payload data = JObj [(''success'', JBool True), (''data'', data)]"

definition response_error :: "string \<Rightarrow> json" where
  "response_error message =
    JObj [(''success'', JBool False), (''data'', JObj [(''code'', JInt 0), (''message'', JStr message)])]"

section \<open>Requests\<close>

record request =
  rq_method :: string
  rq_url :: string
  rq_addr :: string
  rq_header :: "string \<Rightarrow> string"
  rq_param :: string

definition get_cors_headers :: "string \<Rightarrow> header_v_t" where
  "get_cors_headers req_allow_headers =
    [(''Access-Control-Allow-Methods'', ''HEAD, GET, POST, OPTIONS''),
     (''Access-Control-Allow-Headers'',
       ''DNT,User-Agent,X-Requested-With,If-Modified-Since,Cache-Control,Content-Type,Range''
         @ (if req_allow_headers = [] then [] else '','' @ req_allow_headers)),
     (''Access-Control-Allow-Credentials'', ''true''),
     (''X-Content-Type-Options'', ''nosniff''),
     (''X-XSS-Protection'', ''1; mode=block'')]"

text \<open>What is written, and the headers; an empty list of headers means that the request is
  answered.\<close>

definition cors :: "string list \<Rightarrow> request \<Rightarrow> header_v_t \<Rightarrow> res_op list \<times> header_v_t" where
  "cors enabled_origins req additional_headers =
    (let origin = rq_header req ''origin'';
         host = rq_header req ''host'';
         allow = (if origin \<noteq> [] then if host \<noteq> [] then str_find host origin 0 = Some 0 else origin = ''*'' else True)
     in if origin = [] \<and> rq_method req \<noteq> ''get'' \<and> rq_method req \<noteq> ''head''
        then ([Write_status BAD_REQUEST_400, End_body ''Missing Origin header''], [])
        else if \<not> allow \<and> origin \<notin> set enabled_origins
        then ([Write_status FORBIDDEN_403, End_body ''Disallowed Origin''], [])
        else ([], (if origin \<noteq> [] then [(''Access-Control-Allow-Origin'', origin)] else [])
          @ get_cors_headers (rq_header req ''access-control-request-headers'') @ additional_headers))"

text \<open>jwt-cpp: the payload of a token whose signature and issuer verify (\<open>None\<close> when it throws),
  and the token signed for a user.\<close>

record jwt_lib =
  jwt_decode :: "string \<Rightarrow> (string \<times> json) list option"
  jwt_sign :: "string \<Rightarrow> (string \<times> json) list \<Rightarrow> string"

definition create_jwt_token :: "jwt_lib \<Rightarrow> string \<Rightarrow> string \<Rightarrow> string" where
  "create_jwt_token jwt secret user_id =
    (if secret = [] then []
     else jwt_sign jwt secret [(''iss'', JStr ''Musicat''), (''user_id'', JStr user_id)])"

fun jwt_claims :: "(string \<times> json) list \<Rightarrow> json \<Rightarrow> string \<Rightarrow> (json \<times> string) result" where
  "jwt_claims [] iss uid = Inr (iss, uid)"
| "jwt_claims ((k, v) # es) iss uid =
    (let iss1 = (if k = ''iss'' then v else iss)
     in if k = ''user_id'' then bind_result (get_string v) (\<lambda>u. jwt_claims es iss1 u)
        else jwt_claims es iss1 uid)"

definition verify_jwt_token :: "jwt_lib \<Rightarrow> string \<Rightarrow> string" where
  "verify_jwt_token jwt t =
    (if t = [] then []
     else case jwt_decode jwt t of
       None \<Rightarrow> []
     | Some payload \<Rightarrow>
         (case bind_result (jwt_claims payload (JStr []) []) (\<lambda>(iss, uid).
            bind_result (get_string iss) (\<lambda>i. Inr (if i \<noteq> ''Musicat'' then [] else uid)))
          of Inl _ \<Rightarrow> [] | Inr uid \<Rightarrow> uid))"

definition token_cookie_name :: string where "token_cookie_name = ''token=''"

text \<open>The end of the token, less the length of the name, is passed as the number of characters.\<close>

definition cut_token :: "string \<Rightarrow> string option" where
  "cut_token cookie =
    map_option (\<lambda>i.
      let t_start = i + length token_cookie_name;
          t_end = map_option (\<lambda>k. k - length token_cookie_name) (str_find cookie '';'' t_start)
      in substr cookie t_start t_end) (str_find cookie token_cookie_name 0)"

definition checked_user :: "jwt_lib \<Rightarrow> request \<Rightarrow> string" where
  "checked_user jwt req =
    (case cut_token (rq_header req ''cookie'') of
       None \<Rightarrow> []
     | Some t \<Rightarrow>
         if t = [] then []
         else let user_id = verify_jwt_token jwt t in if valid_number user_id \<noteq> 0 then [] else user_id)"

definition validate_token :: "jwt_lib \<Rightarrow> nat \<Rightarrow> request \<Rightarrow> header_v_t \<Rightarrow> res_state \<Rightarrow> string \<times> res_state" where
  "validate_token jwt r req cors_headers s =
    (case end_new (Some r) s of (e, s1) \<Rightarrow>
       let e1 = e\<lparr>en_status := Some UNAUTHORIZED_401, en_headers := cors_headers\<rparr>;
           user_id = checked_user jwt req
       in (user_id, end_destroy (if user_id = [] then e1 else e1\<lparr>en_res := None\<rparr>) s1))"

section \<open>Generic handlers\<close>

definition any_any :: "string list \<Rightarrow> nat \<Rightarrow> request \<Rightarrow> res_state \<Rightarrow> res_state" where
  "any_any origins r req s =
    (case cors origins req [] of (ops, headers) \<Rightarrow>
       if headers = [] then emit r ops s
       else emit r (Write_status NOT_FOUND_404 # write_headers headers @ [End_body []]) s)"

definition options_cors :: "string list \<Rightarrow> nat \<Rightarrow> request \<Rightarrow> res_state \<Rightarrow> res_state" where
  "options_cors origins r req s =
    (case cors origins req [(''Access-Control-Max-Age'', ''86400'')] of (ops, headers) \<Rightarrow>
       if headers = [] then emit r ops s
       else emit r (Write_status NO_CONTENT_204 # write_headers headers @ [End_body []]) s)"

definition one_second_304 ::
  "int \<Rightarrow> nat \<Rightarrow> request \<Rightarrow> (string \<rightharpoonup> int) \<Rightarrow> res_state \<Rightarrow> int \<times> (string \<rightharpoonup> int) \<times> res_state" where
  "one_second_304 cur_ts r req last_reqs s =
    (if rq_addr req = [] then (- 1, last_reqs, s)
     else let rid = rq_addr req @ '';'' @ rq_method req @ '';'' @ rq_url req
       in if last_reqs rid = Some cur_ts
          then (0, last_reqs, emit r [Write_status NOT_MODIFIED_304, End_body []] s)
          else (- 1, last_reqs(rid \<mapsto> cur_ts), s))"

definition with_one_second_304 ::
  "int \<Rightarrow> (nat \<Rightarrow> request \<Rightarrow> res_state \<Rightarrow> res_state) \<Rightarrow> nat \<Rightarrow> request \<Rightarrow> (string \<rightharpoonup> int) \<Rightarrow> res_state
    \<Rightarrow> (string \<rightharpoonup> int) \<times> res_state" where
  "with_one_second_304 cur_ts handler r req last_reqs s =
    (case one_second_304 cur_ts r req last_reqs s of (st, l, s1) \<Rightarrow>
       if st = 0 then (l, s1) else (l, handler r req s1))"

section \<open>The life of a response\<close>

text \<open>A request is answered at once on the thread of the server, or by a task: the handler's own
  \<open>end_t\<close> is destroyed with a null response and the task is queued; the task makes an \<open>end_t\<close> and,
  when it returns, first defers the answer and then destroys the \<open>end_t\<close>; the thread of the server
  runs what was deferred. A client that waits may go at any time, and the address of its response
  may be given to another request then.\<close>

datatype http_log = L_request nat | L_abort nat

record http_sys =
  hs_state :: res_state
  hs_open :: "nat list"
  hs_queued :: "nat list"
  hs_working :: "nat list"
  hs_leaving :: "end_t list"
  hs_deferred :: "end_t list"
  hs_log :: "http_log list"

definition http_start :: http_sys where
  "http_start = \<lparr>hs_state = res_state_init, hs_open = [], hs_queued = [], hs_working = [],
    hs_leaving = [], hs_deferred = [], hs_log = []\<rparr>"

definition answer_of :: "nat \<Rightarrow> end_t \<Rightarrow> bool" where
  "answer_of r e \<longleftrightarrow> en_res e = Some r \<and> en_status e \<noteq> None"

inductive http_step :: "http_sys \<Rightarrow> http_sys \<Rightarrow> bool" where
  answer_now: "http_step s (s\<lparr>hs_state := end_destroy e (snd (end_new (Some r) (hs_state s))),
      hs_log := hs_log s @ [L_request r]\<rparr>)"
    if "r \<notin> set (hs_open s)" and "answer_of r e"
| queue_task: "http_step s (s\<lparr>hs_state := end_destroy (e\<lparr>en_res := None\<rparr>) (snd (end_new (Some r) (hs_state s))),
      hs_open := r # hs_open s, hs_queued := hs_queued s @ [r], hs_log := hs_log s @ [L_request r]\<rparr>)"
    if "r \<notin> set (hs_open s)"
| begin_task: "http_step s (s\<lparr>hs_state := snd (end_new (Some r) (hs_state s)),
      hs_queued := remove1 r (hs_queued s), hs_working := r # hs_working s\<rparr>)"
    if "r \<in> set (hs_queued s)"
| finish_task: "http_step s (s\<lparr>hs_working := remove1 r (hs_working s), hs_leaving := e1 # hs_leaving s,
      hs_deferred := hs_deferred s @ (case d of None \<Rightarrow> [] | Some e0 \<Rightarrow> [e0])\<rparr>)"
    if "r \<in> set (hs_working s)" and "answer_of r e" and "defer_end e (hs_state s) = (d, e1)"
| leave_task: "http_step s (s\<lparr>hs_state := end_destroy e (hs_state s), hs_leaving := remove1 e (hs_leaving s)\<rparr>)"
    if "e \<in> set (hs_leaving s)"
| run_answer: "http_step s (s\<lparr>hs_state := run_deferred_end e (hs_state s), hs_deferred := es,
      hs_open := filter (\<lambda>q. en_res e \<noteq> Some q) (hs_open s)\<rparr>)"
    if "hs_deferred s = e # es"
| abort: "http_step s (s\<lparr>hs_state := mark_aborted r (hs_state s), hs_open := filter (\<lambda>q. q \<noteq> r) (hs_open s),
      hs_log := hs_log s @ [L_abort r]\<rparr>)"
    if "r \<in> set (hs_open s)"

definition answers :: "nat \<Rightarrow> res_trace \<Rightarrow> nat" where
  "answers r ops = length (filter (\<lambda>(q, op). q = r \<and> (case op of End_body b \<Rightarrow> True | _ \<Rightarrow> False)) ops)"

definition unanswered :: "nat \<Rightarrow> http_sys \<Rightarrow> nat" where
  "unanswered r s = count_list (hs_queued s) r + count_list (hs_working s) r
    + length (filter (\<lambda>e. en_res e = Some r) (hs_deferred s))"

text \<open>Nothing is left of the earlier requests at an address: the record of clients that have gone does not name
  it, no task has it, and no answer for it waits.\<close>

definition clean :: "nat \<Rightarrow> http_sys \<Rightarrow> bool" where
  "clean r s \<longleftrightarrow> r \<notin> set (rs_aborted (hs_state s)) \<and> r \<notin> set (hs_open s) \<and> unanswered r s = 0
    \<and> (\<forall>e \<in> set (hs_leaving s). en_res e \<noteq> Some r)"

definition gone :: "nat \<Rightarrow> http_sys \<Rightarrow> nat" where
  "gone r s = count_list (hs_log s) (L_abort r)"

definition requests :: "nat \<Rightarrow> http_sys \<Rightarrow> nat" where
  "requests r s = count_list (hs_log s) (L_request r)"

definition answered :: "nat \<Rightarrow> http_sys \<Rightarrow> nat" where
  "answered r s = answers r (rs_out (hs_state s))"

definition client_ok :: "nat \<Rightarrow> http_sys \<Rightarrow> http_sys \<Rightarrow> bool" where
  "client_ok r s0 s \<longleftrightarrow> gone r s = gone r s0 \<longrightarrow>
    r \<notin> set (rs_aborted (hs_state s))
    \<and> (\<forall>e \<in> set (hs_leaving s). en_res e \<noteq> Some r) \<and> (\<forall>e \<in> set (hs_deferred s). en_status e \<noteq> None)
    \<and> unanswered r s = (if r \<in> set (hs_open s) then 1 else 0)
    \<and> requests r s + answered r s0 = requests r s0 + answered r s + unanswered r s"

lemmas client_defs = client_ok_def gone_def requests_def answered_def

lemma answers_simps [simp]:
  "answers r [] = 0"
  "answers r ((q, op) # ops) = (if q = r then case op of End_body b \<Rightarrow> 1 | _ \<Rightarrow> 0 else 0) + answers r ops"
  "answers r (xs @ ys) = answers r xs + answers r ys"
  by (auto simp: answers_def split: res_op.split)

lemma clear_aborted_simps [simp]:
  "rs_out (clear_aborted s) = rs_out s" "set (rs_aborted (clear_aborted s)) \<subseteq> set (rs_aborted s)"
  by (auto simp: clear_aborted_def Let_def)

lemma answers_headers [simp]: "answers r (map (Pair q) (write_headers hs)) = 0"
  by (induction hs) (auto simp: write_headers_def)

lemma emit_simps [simp]: "rs_aborted (emit q ops s) = rs_aborted s"
  "rs_out (emit q ops s) = rs_out s @ map (Pair q) ops"
  by (simp_all add: emit_def)

lemma end_destroy_answers:
  "answers r (rs_out (end_destroy e s)) = answers r (rs_out s)
    + (if en_res e = Some r \<and> en_status e \<noteq> None \<and> r \<notin> set (rs_aborted s) then 1 else 0)"
  "set (rs_aborted (end_destroy e s)) \<subseteq> set (rs_aborted s)"
  using clear_aborted_simps(2) [of s]
    clear_aborted_simps(2) [of "emit q (Write_status st # write_headers (en_headers e) @ [End_body (en_response e)]) s" for q st]
  by (auto simp: end_destroy_def is_aborted_def simp del: clear_aborted_simps(2) split: option.splits)

lemma end_new_simps [simp]:
  "rs_out (snd (end_new r s)) = rs_out s" "rs_aborted (snd (end_new r s)) = rs_aborted s"
  "en_res (fst (end_new r s)) = r"
  by (simp_all add: end_new_def)

lemma run_deferred_end_eq:
  "run_deferred_end e s = end_destroy e (snd (end_new (en_res e) s))"
  by (cases e) (simp add: run_deferred_end_def end_new_def)

lemma count_list_remove1: "count_list (remove1 x xs) y = count_list xs y - (if x = y then 1 else 0)"
  by (induction xs) auto

lemma count_list_pos: "x \<in> set xs \<Longrightarrow> 0 < count_list xs x"
  by (induction xs) auto

lemma deferred_has_status:
  assumes "http_step s s'" and "\<forall>e \<in> set (hs_deferred s). en_status e \<noteq> None"
  shows "\<forall>e \<in> set (hs_deferred s'). en_status e \<noteq> None"
  using assms by (cases rule: http_step.cases) (auto simp: defer_end_def answer_of_def split: if_splits option.splits)

lemma deferred_have_status: "http_step\<^sup>*\<^sup>* http_start s \<Longrightarrow> \<forall>e \<in> set (hs_deferred s). en_status e \<noteq> None"
  by (induction rule: rtranclp_induct) (simp add: http_start_def, blast dest: deferred_has_status)

lemma gone_step: "http_step s s' \<Longrightarrow> gone r s \<le> gone r s'"
  by (cases rule: http_step.cases) (auto simp: gone_def)

lemma client_ok_step:
  assumes "http_step s s'" and "client_ok r s0 s" and alive: "gone r s' = gone r s" "gone r s = gone r s0"
  shows "client_ok r s0 s'"
  using assms(1)
proof cases
  case (answer_now q e)
  then show ?thesis using assms(2-4) end_destroy_answers(1) [of r e "snd (end_new (Some q) (hs_state s))"]
      end_destroy_answers(2) [of e "snd (end_new (Some q) (hs_state s))"]
    by (auto simp: client_defs unanswered_def answer_of_def)
next
  case (queue_task q e)
  then show ?thesis using assms(2-4) end_destroy_answers(1) [of r "e\<lparr>en_res := None\<rparr>" "snd (end_new (Some q) (hs_state s))"]
      end_destroy_answers(2) [of "e\<lparr>en_res := None\<rparr>" "snd (end_new (Some q) (hs_state s))"]
    by (auto simp: client_defs unanswered_def)
next
  case (begin_task q)
  then have "unanswered r s' = unanswered r s"
    using count_list_pos [of q "hs_queued s"] by (auto simp: unanswered_def count_list_remove1)
  then show ?thesis using assms(2-4) begin_task by (simp add: client_defs)
next
  case (finish_task q e d e1)
  have alive: "r \<notin> set (rs_aborted (hs_state s))" using assms(2-4) finish_task by (simp add: client_defs)
  then have "unanswered r s' = unanswered r s"
    using finish_task count_list_pos [of q "hs_working s"]
    by (auto simp: unanswered_def count_list_remove1 defer_end_def answer_of_def is_aborted_def split: if_splits)
  moreover have "en_res e1 \<noteq> Some r" "case d of None \<Rightarrow> True | Some e0 \<Rightarrow> en_status e0 \<noteq> None"
    using alive finish_task by (auto simp: defer_end_def answer_of_def is_aborted_def split: if_splits)
  ultimately show ?thesis using assms(2-4) finish_task by (auto simp: client_defs split: option.splits)
next
  case (leave_task e)
  then show ?thesis using assms(2-4) end_destroy_answers(1) [of r e "hs_state s"] set_remove1_subset [of e "hs_leaving s"]
      end_destroy_answers(2) [of e "hs_state s"] set_remove1_subset [of e "hs_leaving s"]
    by (auto simp: client_defs unanswered_def)
next
  case (run_answer e es)
  then show ?thesis using assms(2-4) end_destroy_answers(1) [of r e "snd (end_new (en_res e) (hs_state s))"]
      end_destroy_answers(2) [of e "snd (end_new (en_res e) (hs_state s))"]
    by (auto simp: client_defs unanswered_def run_deferred_end_eq split: if_splits)
next
  case (abort q)
  then show ?thesis using assms(2-4) by (auto simp: client_defs unanswered_def mark_aborted_def)
qed

text \<open>C37: A client that stays gets one answer to each of its requests. From any moment on at which nothing is
  left of the earlier requests at the address of its response (at the start that holds of every address), and as
  long as no client at that address goes: the answers written to it are as many as its requests since then, less
  the one that is still with a task or waits for the thread of the server, and there is at most one
  such. It does not matter which other requests are answered at once or by tasks, in what order the threads run and
  which clients at other addresses go. The address must be clean: when the record of gone clients still names it, a
  client that is given it is not answered (see below and the findings).\<close>

theorem answered_exactly_once:
  assumes "http_step\<^sup>*\<^sup>* http_start s0" and "clean r s0" and "http_step\<^sup>*\<^sup>* s0 s" and "gone r s = gone r s0"
  shows "requests r s + answered r s0 = requests r s0 + answered r s + unanswered r s \<and> unanswered r s \<le> 1"
proof -
  have "gone r s0 \<le> gone r s \<and> client_ok r s0 s"
    using assms(3)
  proof (induction rule: rtranclp_induct)
    case base
    show ?case using assms(2) deferred_have_status [OF assms(1)] by (simp add: client_ok_def clean_def)
  next
    case (step s s')
    have "gone r s \<le> gone r s'" by (rule gone_step) (rule step.hyps)
    then show ?case using step.IH client_ok_step [OF step.hyps(2), of r s0] by (auto simp: client_ok_def)
  qed
  then show ?thesis using assms(4) by (simp add: client_ok_def)
qed

lemma clean_at_start: "clean r http_start \<and> gone r http_start = 0 \<and> requests r http_start = 0 \<and> answered r http_start = 0"
  by (simp add: clean_def gone_def requests_def answered_def http_start_def res_state_init_def unanswered_def)

text \<open>Particular runs are computed.\<close>

datatype http_move =
    M_answer nat
  | M_queue nat
  | M_begin nat
  | M_finish nat
  | M_leave
  | M_run
  | M_abort nat

definition plain_end :: "nat \<Rightarrow> end_t" where
  "plain_end r = fst (end_new (Some r) res_state_init)"

fun do_move :: "http_move \<Rightarrow> http_sys \<Rightarrow> http_sys option" where
  "do_move (M_answer r) s =
    (if r \<in> set (hs_open s) then None
     else Some (s\<lparr>hs_state := end_destroy (plain_end r) (snd (end_new (Some r) (hs_state s))), hs_log := hs_log s @ [L_request r]\<rparr>))"
| "do_move (M_queue r) s =
    (if r \<in> set (hs_open s) then None
     else Some (s\<lparr>hs_state := end_destroy ((plain_end r)\<lparr>en_res := None\<rparr>) (snd (end_new (Some r) (hs_state s))),
       hs_open := r # hs_open s, hs_queued := hs_queued s @ [r], hs_log := hs_log s @ [L_request r]\<rparr>))"
| "do_move (M_begin r) s =
    (if r \<in> set (hs_queued s)
     then Some (s\<lparr>hs_state := snd (end_new (Some r) (hs_state s)), hs_queued := remove1 r (hs_queued s),
       hs_working := r # hs_working s\<rparr>) else None)"
| "do_move (M_finish r) s =
    (if r \<in> set (hs_working s)
     then (case defer_end (plain_end r) (hs_state s) of (d, e1) \<Rightarrow>
       Some (s\<lparr>hs_working := remove1 r (hs_working s), hs_leaving := e1 # hs_leaving s,
         hs_deferred := hs_deferred s @ (case d of None \<Rightarrow> [] | Some e0 \<Rightarrow> [e0])\<rparr>)) else None)"
| "do_move M_leave s =
    (case hs_leaving s of [] \<Rightarrow> None
     | e # es \<Rightarrow> Some (s\<lparr>hs_state := end_destroy e (hs_state s), hs_leaving := remove1 e (hs_leaving s)\<rparr>))"
| "do_move M_run s =
    (case hs_deferred s of [] \<Rightarrow> None
     | e # es \<Rightarrow> Some (s\<lparr>hs_state := run_deferred_end e (hs_state s), hs_deferred := es,
         hs_open := filter (\<lambda>q. en_res e \<noteq> Some q) (hs_open s)\<rparr>))"
| "do_move (M_abort r) s =
    (if r \<in> set (hs_open s)
     then Some (s\<lparr>hs_state := mark_aborted r (hs_state s), hs_open := filter (\<lambda>q. q \<noteq> r) (hs_open s),
       hs_log := hs_log s @ [L_abort r]\<rparr>) else None)"

fun http_moves :: "http_move list \<Rightarrow> http_sys \<Rightarrow> http_sys option" where
  "http_moves [] s = Some s"
| "http_moves (m # ms) s = Option.bind (do_move m s) (http_moves ms)"

lemma answer_of_plain: "answer_of r (plain_end r)"
  by (simp add: answer_of_def plain_end_def end_new_def)

lemma do_move_step: "do_move m s = Some s' \<Longrightarrow> http_step s s'"
proof (induction m s rule: do_move.induct)
  case (5 s)
  then show ?case using leave_task [of "hd (hs_leaving s)" s] by (auto split: list.splits)
qed (auto split: if_splits list.splits prod.splits
      intro: answer_now queue_task begin_task finish_task run_answer abort answer_of_plain)

lemma http_moves_steps: "http_moves ms s = Some s' \<Longrightarrow> http_step\<^sup>*\<^sup>* s s'"
  by (induction ms arbitrary: s) (auto simp: bind_Some_iff intro: converse_rtranclp_into_rtranclp dest: do_move_step)

text \<open>The record of clients that have gone is not reliable. There is a run in which a client
  goes after its task has handed the answer over, and the answer is written to it nevertheless: the
  task's own \<open>end_t\<close> was the last one, and its end forgets who has gone. And there is one in which a
  new request, given the address of a response whose client went away, is never answered, although
  all tasks are done and nothing waits: another request kept the record from being forgotten.\<close>

theorem abort_record_fails:
  "(\<exists>s. http_step\<^sup>*\<^sup>* http_start s \<and> hs_log s = [L_request 1, L_abort 1] \<and> answers 1 (rs_out (hs_state s)) = 1)
    \<and> (\<exists>s. http_step\<^sup>*\<^sup>* http_start s
        \<and> hs_log s = [L_request 1, L_request 2, L_abort 1, L_request 1] \<and> answers 1 (rs_out (hs_state s)) = 0
        \<and> hs_queued s = [] \<and> hs_working s = [] \<and> hs_leaving s = [] \<and> hs_deferred s = [])"
proof
  let ?a = "http_moves [M_queue 1, M_begin 1, M_finish 1, M_abort 1, M_leave, M_run] http_start"
  have "map_option (\<lambda>s. (hs_log s, answers 1 (rs_out (hs_state s)))) ?a = Some ([L_request 1, L_abort 1], 1)"
    by code_simp
  then obtain s where "?a = Some s" "hs_log s = [L_request 1, L_abort 1]" "answers 1 (rs_out (hs_state s)) = 1" by auto
  then show "\<exists>s. http_step\<^sup>*\<^sup>* http_start s \<and> hs_log s = [L_request 1, L_abort 1] \<and> answers 1 (rs_out (hs_state s)) = 1"
    using http_moves_steps by blast
next
  let ?b = "http_moves [M_queue 1, M_queue 2, M_begin 2, M_abort 1, M_answer 1, M_begin 1, M_finish 1, M_leave,
    M_finish 2, M_leave, M_run] http_start"
  have "map_option (\<lambda>s. (hs_log s, answers 1 (rs_out (hs_state s)), hs_queued s, hs_working s, hs_leaving s, hs_deferred s)) ?b
      = Some ([L_request 1, L_request 2, L_abort 1, L_request 1], 0, [], [], [], [])"
    by code_simp
  then obtain s where "?b = Some s" "hs_log s = [L_request 1, L_request 2, L_abort 1, L_request 1]"
    "answers 1 (rs_out (hs_state s)) = 0" "hs_queued s = []" "hs_working s = []" "hs_leaving s = []" "hs_deferred s = []"
    by auto
  then show "\<exists>s. http_step\<^sup>*\<^sup>* http_start s
        \<and> hs_log s = [L_request 1, L_request 2, L_abort 1, L_request 1] \<and> answers 1 (rs_out (hs_state s)) = 0
        \<and> hs_queued s = [] \<and> hs_working s = [] \<and> hs_leaving s = [] \<and> hs_deferred s = []"
    using http_moves_steps by blast
qed

text \<open>A client at the address 1 goes and the record is forgotten; then another one is given the address and
  waits while the client of 2 goes.\<close>

theorem answered_exactly_once_witness:
  "\<exists>s0 s. http_step\<^sup>*\<^sup>* http_start s0 \<and> gone 1 s0 = 1 \<and> clean 1 s0 \<and> http_step\<^sup>*\<^sup>* s0 s \<and> gone 2 s = 1 \<and> hs_deferred s \<noteq> []
    \<and> requests 1 s0 = 1 \<and> answered 1 s0 = 0 \<and> requests 1 s = 1 + answered 1 s + unanswered 1 s \<and> unanswered 1 s = 1"
proof -
  let ?a = "http_moves [M_queue 1, M_abort 1, M_begin 1, M_finish 1, M_leave] http_start"
  let ?ms = "[M_answer 1, M_queue 1, M_queue 2, M_begin 1, M_abort 2, M_finish 1]"
  have "case ?a of None \<Rightarrow> False | Some s0 \<Rightarrow> gone 1 s0 = 1 \<and> requests 1 s0 = 1 \<and> answered 1 s0 = 0 \<and> clean 1 s0
      \<and> (case http_moves ?ms s0 of None \<Rightarrow> False | Some s \<Rightarrow> hs_deferred s \<noteq> [] \<and> unanswered 1 s = 1 \<and> gone 1 s = 1 \<and> gone 2 s = 1)"
    by code_simp
  then obtain s0 s where s0: "?a = Some s0" "gone 1 s0 = 1" "requests 1 s0 = 1" "answered 1 s0 = 0" "clean 1 s0"
    and s: "http_moves ?ms s0 = Some s" "hs_deferred s \<noteq> []" "unanswered 1 s = 1" "gone 1 s = 1" "gone 2 s = 1"
    by (auto split: option.split_asm)
  from answered_exactly_once [OF http_moves_steps [OF s0(1)] s0(5) http_moves_steps [OF s(1)]] s0 s show ?thesis
    using http_moves_steps [OF s0(1)] http_moves_steps [OF s(1)]
    by (intro exI [of _ s0] exI [of _ s]) simp
qed

section \<open>The token in the cookie\<close>

lemma find_sub_prefix: "take (length p) s = p \<Longrightarrow> find_sub p s = Some 0"
  by (cases s) auto

lemma str_find_skip:
  assumes "\<forall>k < length pre. take (length p) (drop k (pre @ s)) \<noteq> p" and "find_sub p s = Some i"
  shows "find_sub p (pre @ s) = Some (length pre + i)"
  using assms(1)
proof (induction pre)
  case (Cons c cs)
  have "take (length p) (c # cs @ s) \<noteq> p" using Cons.prems [rule_format, of 0] by simp
  moreover have "\<forall>k < length cs. take (length p) (drop k (cs @ s)) \<noteq> p"
    using Cons.prems by (auto dest: spec [of _ "Suc _"])
  ultimately show ?case using Cons.IH by simp
qed (use assms(2) in simp)

lemma find_sub_char_free: "c \<notin> set s \<Longrightarrow> find_sub [c] s = None"
  by (induction s) auto

lemma find_sub_char_first: "c \<notin> set t \<Longrightarrow> find_sub [c] (t @ c # s) = Some (length t)"
  by (induction t) auto

lemma cut_token_found:
  assumes "str_find cookie token_cookie_name 0 = Some (length pre)" and "cookie = pre @ token_cookie_name @ t @ rest"
    and "CHR '';'' \<notin> set t" and "rest = [] \<or> hd rest = CHR '';''"
  shows "cut_token cookie = Some (if rest = [] then t else take (length pre + length t) (t @ rest))"
proof -
  have n: "length token_cookie_name = 6" by (simp add: token_cookie_name_def)
  have d: "drop (length pre + 6) cookie = t @ rest" using n assms(2) by simp
  have e: "str_find cookie '';'' (length pre + 6)
      = (if rest = [] then None else Some (length pre + 6 + length t))"
    using assms(3,4) d n
    by (cases rest) (auto simp: str_find_def find_sub_char_free find_sub_char_first assms(2))
  show ?thesis using assms(1) e d n by (simp add: cut_token_def Let_def substr_def)
qed

lemma cut_token_alone:
  assumes "CHR '';'' \<notin> set t" and "rest = [] \<or> hd rest = CHR '';''"
  shows "cut_token (token_cookie_name @ t @ rest) = Some t"
  using cut_token_found [of _ "[]" t rest, OF _ _ assms] find_sub_prefix [of token_cookie_name "token_cookie_name @ t @ rest"]
  by (simp add: str_find_def)

text \<open>The token of a login is only found where it is alone. In a cookie header that gives the
  token after some other cookies \<open>pre\<close> and in front of others \<open>rest\<close>, the token itself is cut out
  exactly when there is nothing in front of it or nothing behind it; otherwise characters of the
  cookies behind it, as many as there are in front, are taken for part of the token.\<close>

theorem token_needs_to_be_alone:
  assumes "cookie = pre @ token_cookie_name @ t @ rest" and "CHR '';'' \<notin> set t"
    and "rest = [] \<or> hd rest = CHR '';''"
    and "\<forall>k < length pre. take 6 (drop k cookie) \<noteq> token_cookie_name"
  shows "cut_token cookie = Some (if rest = [] then t else take (length pre + length t) (t @ rest))
    \<and> (cut_token cookie = Some t \<longleftrightarrow> pre = [] \<or> rest = [])"
proof -
  have n: "length token_cookie_name = 6" by (simp add: token_cookie_name_def)
  have f: "str_find cookie token_cookie_name 0 = Some (length pre)"
    using str_find_skip [of pre token_cookie_name "token_cookie_name @ t @ rest" 0] find_sub_prefix [of token_cookie_name] assms(1,4) n
    by (simp add: str_find_def)
  note c = cut_token_found [OF f assms(1-3)]
  have "take (length pre + length t) (t @ rest) = t \<longleftrightarrow> pre = []" if "rest \<noteq> []"
    using that by (cases pre; cases rest) auto
  then show ?thesis using c by auto
qed

theorem token_needs_to_be_alone_witness:
  "cut_token ''a=b; token=xyz; c=d'' = Some ''xyz; c=d''
    \<and> \<not> cut_token ''a=b; token=xyz; c=d'' = Some ''xyz''"
proof -
  let ?c = "''a=b; token=xyz; c=d''"
  have "\<forall>k < length ''a=b; ''. take 6 (drop k ?c) \<noteq> token_cookie_name"
    by (simp add: All_less_Suc numeral_eq_Suc token_cookie_name_def)
  from token_needs_to_be_alone [of ?c "''a=b; ''" "''xyz''" "''; c=d''", OF _ _ _ this]
  show ?thesis by (simp add: token_cookie_name_def)
qed

text \<open>The law of jwt-cpp: what was signed with the secret is decoded again, and it is a text that can
  stand in a cookie.\<close>

definition user_claims :: "string \<Rightarrow> (string \<times> json) list" where
  "user_claims uid = [(''iss'', JStr ''Musicat''), (''user_id'', JStr uid)]"

definition jwt_law :: "jwt_lib \<Rightarrow> string \<Rightarrow> bool" where
  "jwt_law jwt secret \<longleftrightarrow> (\<forall>uid. list_all is_digit uid \<longrightarrow>
    jwt_decode jwt (jwt_sign jwt secret (user_claims uid)) = Some (user_claims uid)
    \<and> jwt_sign jwt secret (user_claims uid) \<noteq> [] \<and> CHR '';'' \<notin> set (jwt_sign jwt secret (user_claims uid)))"

text \<open>A browser that sends the cookie of its login is recognised. When the token that was made
  for a user comes back as the only cookie, or as the first, the check returns that user and writes
  nothing to the response.\<close>

theorem login_token_accepted:
  assumes "jwt_law jwt secret" and "secret \<noteq> []" and "list_all is_digit uid" and "uid \<noteq> []"
    and "rq_header req ''cookie'' = token_cookie_name @ create_jwt_token jwt secret uid @ rest"
    and "rest = [] \<or> hd rest = CHR '';''"
  shows "fst (validate_token jwt r req headers s) = uid
    \<and> rs_out (snd (validate_token jwt r req headers s)) = rs_out s"
proof -
  let ?t = "create_jwt_token jwt secret uid"
  have t: "?t = jwt_sign jwt secret (user_claims uid)" using assms(2) by (simp add: create_jwt_token_def user_claims_def)
  have l: "jwt_decode jwt ?t = Some (user_claims uid)" "?t \<noteq> []" "CHR '';'' \<notin> set ?t"
    using assms(1,3) t by (simp_all add: jwt_law_def)
  have "cut_token (rq_header req ''cookie'') = Some ?t" using cut_token_alone [OF l(3) assms(6)] assms(5) by simp
  moreover have "verify_jwt_token jwt ?t = uid" using l(1,2) by (simp add: verify_jwt_token_def user_claims_def)
  moreover note l(2)
  moreover have "dropWhile is_digit uid = []" using assms(3) by (induction uid) auto
  then have "valid_number uid = 0" using assms(4) by (simp only: valid_number_def valid_number_loop_0 list.case if_False)
  ultimately have "checked_user jwt req = uid" by (simp add: checked_user_def Let_def)
  then show ?thesis using assms(4) by (auto simp: validate_token_def end_new_def end_destroy_def Let_def)
qed

definition demo_jwt :: jwt_lib where
  "demo_jwt = \<lparr>jwt_decode = (\<lambda>t. if t = [] then None else Some (user_claims (tl t))),
    jwt_sign = (\<lambda>secret claims. case claims of [_, (_, JStr uid)] \<Rightarrow> CHR ''t'' # uid | _ \<Rightarrow> [])\<rparr>"

lemma demo_jwt_law: "jwt_law demo_jwt secret"
proof -
  have "\<not> is_digit CHR '';''" by code_simp
  then show ?thesis by (auto simp: jwt_law_def demo_jwt_def user_claims_def list_all_iff)
qed

theorem login_token_accepted_witness:
  "\<exists>req. rq_header req ''cookie'' = ''token=t42; a=b'' \<and> fst (validate_token demo_jwt 1 req [] res_state_init) = ''42''
    \<and> rs_out (snd (validate_token demo_jwt 1 req [] res_state_init)) = []"
proof -
  let ?r = "\<lparr>rq_method = ''post'', rq_url = ''/logout'', rq_addr = [], rq_header = (\<lambda>k. ''token=t42; a=b''), rq_param = []\<rparr>"
  have "rq_header ?r ''cookie'' = token_cookie_name @ create_jwt_token demo_jwt ''s'' ''42'' @ ''; a=b''"
    by (simp add: token_cookie_name_def create_jwt_token_def demo_jwt_def user_claims_def)
  moreover have "list_all is_digit ''42''" by code_simp
  ultimately show ?thesis
    using login_token_accepted [OF demo_jwt_law, of "''s''" "''42''" ?r "''; a=b''" 1 "[]" res_state_init]
    by (intro exI [of _ ?r]) (simp add: res_state_init_def)
qed

end
