(* ===== verification/Routes.thy ===== *)
theory Routes
  imports ServerHttp Dashboard
begin

text \<open>
  The routes of the server: \<open>src/musicat/server/routes/\<close>, \<open>services.cpp\<close>, the upgrade to a web
  socket and its events (\<open>server/ws/player.cpp\<close>, \<open>upgrade.cpp\<close>, \<open>open.cpp\<close>, \<open>close.cpp\<close>). A handler
  takes the environment, the response and the request and changes the server's state; work for
  another thread is a value \<open>server_task\<close>, and the definition for it yields the \<open>end_t\<close> that the task
  leaves behind (theory \<open>ServerHttp\<close> has what becomes of it). Parsing and printing of JSON, curl,
  jwt-cpp and Discord's caches are parameters.
\<close>

section \<open>State and environment\<close>

record curl_reply =
  cr_perform :: bool
  cr_status :: int
  cr_header_size :: nat
  cr_response :: string

text \<open>\<open>ev_curl url fields\<close> is the reply to a request (\<open>None\<close>: libcurl reports an error).\<close>

record route_env =
  ev_now :: int
  ev_random :: "64 word list"
  ev_origins :: "string list"
  ev_jwt :: jwt_lib
  ev_jwt_secret :: string
  ev_sha_id :: snowflake
  ev_sha_secret :: string
  ev_oauth_link :: string
  ev_oauth_invite :: string
  ev_dump :: "json \<Rightarrow> string"
  ev_parse :: "string \<Rightarrow> json option"
  ev_snowflake :: "string \<Rightarrow> snowflake"
  ev_view :: dpp_view
  ev_manager :: manager
  ev_bot :: "(string \<times> string \<times> string) option"
  ev_curl :: "string \<Rightarrow> string \<Rightarrow> curl_reply option"
  ev_db_auth :: "string \<Rightarrow> json"

datatype server_task =
    T_guilds nat string header_v_t
  | T_login nat header_v_t string string
  | T_current_user nat header_v_t

datatype db_call = DB_update_user_auth string json | DB_delete_user_auth string

record server =
  sr_res :: res_state
  sr_oauth :: oauth
  sr_cache :: scache
  sr_streams :: stream_srv
  sr_tasks :: "server_task list"
  sr_bodies :: "recv_body_t list"
  sr_db :: "db_call list"
  sr_upgraded :: "(nat \<times> ws_data) list"

definition destroy :: "end_t \<Rightarrow> server \<Rightarrow> server" where
  "destroy e s = s\<lparr>sr_res := end_destroy e (sr_res s)\<rparr>"

definition new_end :: "nat \<Rightarrow> server \<Rightarrow> end_t \<times> server" where
  "new_end r s = (case end_new (Some r) (sr_res s) of (e, rs) \<Rightarrow> (e, s\<lparr>sr_res := rs\<rparr>))"

definition emits :: "nat \<Rightarrow> res_op list \<Rightarrow> server \<Rightarrow> server" where
  "emits r ops s = s\<lparr>sr_res := emit r ops (sr_res s)\<rparr>"

text \<open>Every route starts with \<open>cors\<close>, the protected ones go on with the check of the token.\<close>

definition with_cors :: "route_env \<Rightarrow> nat \<Rightarrow> request \<Rightarrow> (header_v_t \<Rightarrow> server \<Rightarrow> server result) \<Rightarrow> server \<Rightarrow> server result" where
  "with_cors env r req f s =
    (case cors (ev_origins env) req [] of (ops, headers) \<Rightarrow>
       if headers = [] then Inr (emits r ops s) else f headers s)"

definition with_user ::
  "route_env \<Rightarrow> nat \<Rightarrow> request \<Rightarrow> (string \<Rightarrow> header_v_t \<Rightarrow> server \<Rightarrow> server result) \<Rightarrow> server \<Rightarrow> server result" where
  "with_user env r req f =
    with_cors env r req (\<lambda>headers s.
      case validate_token (ev_jwt env) r req headers (sr_res s) of (user_id, rs) \<Rightarrow>
        let s1 = s\<lparr>sr_res := rs\<rparr> in if user_id = [] then Inr s1 else f user_id headers s1)"

section \<open>Requests to Discord\<close>

definition DISCORD_API_URL :: string where "DISCORD_API_URL = ''https://discord.com/api/v10''"

definition no_reply :: curl_reply where
  "no_reply = \<lparr>cr_perform = False, cr_status = 0, cr_header_size = 0, cr_response = []\<rparr>"

definition discord_get_wauth :: "route_env \<Rightarrow> string \<Rightarrow> string \<Rightarrow> string \<Rightarrow> curl_reply" where
  "discord_get_wauth env endpoint type t =
    (case ev_curl env (DISCORD_API_URL @ endpoint) (''Authorization: '' @ type @ '' '' @ t) of
       None \<Rightarrow> no_reply | Some rep \<Rightarrow> rep)"

definition discord_post_creds :: "route_env \<Rightarrow> string \<Rightarrow> curl_reply" where
  "discord_post_creds env creds =
    (case ev_curl env (DISCORD_API_URL @ ''/oauth2/token'') creds of None \<Rightarrow> no_reply | Some rep \<Rightarrow> rep)"

definition discord_get_me :: "route_env \<Rightarrow> string \<Rightarrow> string \<Rightarrow> curl_reply" where
  "discord_get_me env type t = discord_get_wauth env ''/oauth2/@me'' type t"

definition discord_get_user_guilds :: "route_env \<Rightarrow> string \<Rightarrow> string \<Rightarrow> curl_reply" where
  "discord_get_user_guilds env type t = discord_get_wauth env ''/users/@me/guilds'' type t"

text \<open>The body is what follows the headers, up to the first NUL.\<close>

definition process_curlpp_response_t :: "route_env \<Rightarrow> curl_reply \<Rightarrow> json result" where
  "process_curlpp_response_t env resp =
    (if cr_status resp \<noteq> 200 then Inr JNull
     else if cr_header_size resp > length (cr_response resp) then Inl Out_of_range
     else let body = takeWhile (\<lambda>c. ord c \<noteq> 0) (drop (cr_header_size resp) (cr_response resp))
       in Inr (case ev_parse env body of None \<Rightarrow> JNull | Some j \<Rightarrow> j))"

text \<open>\<open>j[k]\<close> inserts a null where there is nothing and throws on a value of another kind.\<close>

fun jindex :: "json \<Rightarrow> string \<Rightarrow> json result" where
  "jindex (JObj kv) k = Inr (case map_of kv k of None \<Rightarrow> JNull | Some v \<Rightarrow> v)"
| "jindex JNull k = Inr JNull"
| "jindex _ k = Inl Type_error"

fun string_or_empty :: "json \<Rightarrow> string" where
  "string_or_empty (JStr s) = s"
| "string_or_empty _ = []"

section \<open>Links, the bot and the stream of a guild\<close>

definition get_oauth_handler :: "route_env \<Rightarrow> (route_env \<Rightarrow> string) \<Rightarrow> nat \<Rightarrow> request \<Rightarrow> server \<Rightarrow> server result" where
  "get_oauth_handler env get_link r req =
    with_cors env r req (\<lambda>headers s.
      let link = get_link env;
          answer = (\<lambda>status j. Write_status status # write_headers headers
            @ [Write_header ''Content-Type'' ''application/json'', End_body (ev_dump env j)])
      in if link = []
         then Inr (emits r (answer INTERNAL_SERVER_ERROR_500 (response_error ''No OAuth configured'')) s)
         else case generate_oauth_state (ev_now env) (ev_random env) (rq_header req ''redirect-param'') (sr_oauth s) of
             None \<Rightarrow> Inl Undefined
           | Some (state, oa) \<Rightarrow>
               Inr (emits r (answer OK_200 (response_payload (JStr (link @ ''&state='' @ state)))) (s\<lparr>sr_oauth := oa\<rparr>)))"

definition get_login :: "route_env \<Rightarrow> nat \<Rightarrow> request \<Rightarrow> server \<Rightarrow> server result" where
  "get_login env = get_oauth_handler env ev_oauth_link"

definition get_invite :: "route_env \<Rightarrow> nat \<Rightarrow> request \<Rightarrow> server \<Rightarrow> server result" where
  "get_invite env = get_oauth_handler env ev_oauth_invite"

definition musicat_data_response :: "route_env \<Rightarrow> string \<times> string \<times> string \<Rightarrow> json \<Rightarrow> end_t \<Rightarrow> end_t" where
  "musicat_data_response env me data e =
    (case me of (avatar_url, username, description) \<Rightarrow>
       e\<lparr>en_response := ev_dump env (response_payload (JObj
         [(''avatar_url'', JStr avatar_url), (''username'', JStr username), (''description'', JStr description),
          (''banner_url'', (case jfind data ''banner_url'' of None \<Rightarrow> JNull | Some b \<Rightarrow> b))]))\<rparr>)"

definition bot_not_running :: "route_env \<Rightarrow> end_t \<Rightarrow> end_t" where
  "bot_not_running env e =
    e\<lparr>en_status := Some INTERNAL_SERVER_ERROR_500, en_response := ev_dump env (response_error ''Bot not running'')\<rparr>"

definition get_root :: "route_env \<Rightarrow> nat \<Rightarrow> request \<Rightarrow> server \<Rightarrow> server result" where
  "get_root env r req =
    with_cors env r req (\<lambda>headers s.
      case new_end r s of (e, s1) \<Rightarrow>
        let e1 = set_content_type_json (e\<lparr>en_headers := headers\<rparr>)
        in case ev_bot env of
             None \<Rightarrow> Inr (destroy (bot_not_running env e1) s1)
           | Some me \<Rightarrow>
               let data = get_cached_musicat_detailed_user (ev_sha_id env) (sr_cache s1)
               in if is_object data then Inr (destroy (musicat_data_response env me data e1) s1)
                  else Inr ((destroy (e1\<lparr>en_res := None\<rparr>) s1)\<lparr>sr_tasks := sr_tasks s1 @ [T_current_user r (en_headers e1)]\<rparr>))"

text \<open>The user that Discord reports: locale, colour, verified, banner and its address.\<close>

record user_identified =
  ui_locale :: string
  ui_accent_color :: int
  ui_verified :: bool
  ui_banner :: "(string \<times> string) option"

definition user_json :: "user_identified \<Rightarrow> json" where
  "user_json u = JObj ([(''locale'', JStr (ui_locale u)), (''accent_color'', JInt (ui_accent_color u)), (''verified'', JBool (ui_verified u))]
    @ (case ui_banner u of None \<Rightarrow> [] | Some (b, url) \<Rightarrow> [(''banner'', JStr b), (''banner_url'', JStr url)]))"

definition current_user_task ::
  "route_env \<Rightarrow> nat \<Rightarrow> header_v_t \<Rightarrow> user_identified option \<Rightarrow> server \<Rightarrow> end_t \<times> server" where
  "current_user_task env r headers rep s =
    (case new_end r s of (e, s1) \<Rightarrow>
       let e1 = e\<lparr>en_headers := headers\<rparr>
       in case ev_bot env of
            None \<Rightarrow> (bot_not_running env e1, s1)
          | Some me \<Rightarrow>
              let data = (case rep of None \<Rightarrow> JNull | Some u \<Rightarrow> user_json u);
                  s2 = (if is_object data
                        then s1\<lparr>sr_cache := set_cached_musicat_detailed_user (ev_now env) (ev_sha_id env) data (sr_cache s1)\<rparr>
                        else s1)
              in (musicat_data_response env me data e1, s2))"

definition stream_headers_of :: "header_v_t" where
  "stream_headers_of = [(''Content-Type'', ''audio/ogg; codecs=opus''),
    (''Cache-Control'', ''max-age=0, no-cache, no-store''), (''Pragma'', ''no-cache''), (''Connection'', ''close'')]"

definition get_stream :: "route_env \<Rightarrow> nat \<Rightarrow> request \<Rightarrow> server \<Rightarrow> server result" where
  "get_stream env r req =
    with_cors env r req (\<lambda>headers s.
      let guild_id = ev_snowflake env (rq_param req)
      in if guild_id = 0 \<or> dv_guild (ev_view env) guild_id = None \<or> get_player guild_id (ev_manager env) = None
         then (case new_end r s of (e, s1) \<Rightarrow>
           Inr (destroy (e\<lparr>en_status := Some NOT_FOUND_404, en_headers := headers\<rparr>) s1))
         else Inr ((emits r (Write_status OK_200 # write_headers (headers @ stream_headers_of)) s)
           \<lparr>sr_streams := subscribe r guild_id (sr_streams s)\<rparr>))"

section \<open>Guilds of a user\<close>

definition set_guild_is_mutual :: "route_env \<Rightarrow> string \<Rightarrow> json \<Rightarrow> json result" where
  "set_guild_is_mutual env user_id guild =
    (if user_id = [] then Inr guild
     else bind_result (jindex guild ''id'') (\<lambda>gid.
       case gid of
         JStr guild_id \<Rightarrow>
           let g = ev_snowflake env guild_id;
               is_mutual = (dv_guild (ev_view env) g \<noteq> None)
           in bind_result (jset ''is_mutual'' (JBool is_mutual) guild) (\<lambda>guild1.
                if \<not> is_mutual then Inr guild1
                else jset ''has_active_voice_session''
                  (JBool (case get_player g (ev_manager env) of None \<Rightarrow> False | Some p \<Rightarrow> gp_processing_audio p)) guild1)
       | _ \<Rightarrow> (case jfind guild ''id'' of None \<Rightarrow> jset ''id'' JNull guild | Some _ \<Rightarrow> Inr guild)))"

fun all_mutual :: "route_env \<Rightarrow> string \<Rightarrow> json list \<Rightarrow> json list result" where
  "all_mutual env user_id [] = Inr []"
| "all_mutual env user_id (g # gs) =
    bind_result (set_guild_is_mutual env user_id g) (\<lambda>g1. bind_result (all_mutual env user_id gs) (\<lambda>gs1. Inr (g1 # gs1)))"

fun set_guilds_is_mutual :: "route_env \<Rightarrow> string \<Rightarrow> json \<Rightarrow> json result" where
  "set_guilds_is_mutual env user_id (JArr gs) = bind_result (all_mutual env user_id gs) (\<lambda>gs1. Inr (JArr gs1))"
| "set_guilds_is_mutual env user_id j = Inr j"

definition get_guilds :: "route_env \<Rightarrow> nat \<Rightarrow> request \<Rightarrow> server \<Rightarrow> server result" where
  "get_guilds env r req =
    with_user env r req (\<lambda>user_id headers s.
      case new_end r s of (e, s1) \<Rightarrow>
        let e1 = e\<lparr>en_headers := headers\<rparr>;
            cached = get_cached_user_guilds user_id (sr_cache s1)
        in if is_array cached
           then bind_result (set_guilds_is_mutual env user_id cached) (\<lambda>gs.
             Inr (destroy ((set_content_type_json e1)\<lparr>en_response := ev_dump env (response_payload gs)\<rparr>) s1))
           else Inr ((destroy (e1\<lparr>en_res := None\<rparr>) s1)\<lparr>sr_tasks := sr_tasks s1 @ [T_guilds r user_id headers]\<rparr>))"

definition get_guilds_task ::
  "route_env \<Rightarrow> nat \<Rightarrow> string \<Rightarrow> header_v_t \<Rightarrow> server \<Rightarrow> (end_t \<times> server) result" where
  "get_guilds_task env r user_id headers s =
    (case new_end r s of (e0, s1) \<Rightarrow>
       let e = e0\<lparr>en_headers := headers\<rparr>;
           cached = get_cached_user_auth user_id (sr_cache s1);
           auth = (if is_null cached then ev_db_auth env user_id else cached);
           s2 = (if is_null cached
                 then s1\<lparr>sr_cache := set_cached_user_auth (ev_now env) user_id auth (sr_cache s1)\<rparr> else s1)
       in if \<not> is_object auth
          then Inr (e\<lparr>en_status := Some UNAUTHORIZED_401, en_response := ''Missing Auth''\<rparr>, s2)
          else bind_result (jindex auth ''token_type'') (\<lambda>type. bind_result (jindex auth ''access_token'') (\<lambda>tkn.
            let token_type = string_or_empty type; access_token = string_or_empty tkn
            in if token_type = [] \<or> access_token = []
               then Inr (e\<lparr>en_status := Some INTERNAL_SERVER_ERROR_500, en_response := ''Invalid Credentials''\<rparr>, s2)
               else let resp = discord_get_user_guilds env token_type access_token
                 in bind_result (process_curlpp_response_t env resp) (\<lambda>guilds.
                      if cr_status resp \<noteq> 200
                      then Inr ((set_content_type_json (e\<lparr>en_status := Some INTERNAL_SERVER_ERROR_500\<rparr>))
                        \<lparr>en_response := ev_dump env (response_error (''GET /users/@me/guilds: '' @ int_str (cr_status resp)))\<rparr>, s2)
                      else bind_result (set_guilds_is_mutual env user_id guilds) (\<lambda>gs.
                        Inr ((set_content_type_json e)\<lparr>en_response := ev_dump env (response_payload gs)\<rparr>,
                          s2\<lparr>sr_cache := set_cached_user_guilds (ev_now env) user_id guilds (sr_cache s2)\<rparr>)))))
      )"

section \<open>Login and logout\<close>

definition post_logout :: "route_env \<Rightarrow> nat \<Rightarrow> request \<Rightarrow> server \<Rightarrow> server result" where
  "post_logout env r req =
    with_user env r req (\<lambda>user_id headers s.
      case new_end r s of (e, s1) \<Rightarrow>
        Inr (destroy (add_header ''Set-Cookie'' ''token=; Max-Age=0; HttpOnly'' (e\<lparr>en_headers := headers\<rparr>))
          (s1\<lparr>sr_db := sr_db s1 @ [DB_delete_user_auth user_id],
              sr_cache := remove_cached_user_auth user_id (sr_cache s1)\<rparr>)))"

definition login_creds :: "route_env \<Rightarrow> string \<Rightarrow> string \<Rightarrow> string" where
  "login_creds env code redirect_uri =
    ''code='' @ code @ ''&client_id='' @ nat_str (unat (ev_sha_id env)) @ ''&client_secret='' @ ev_sha_secret env
      @ ''&grant_type='' @ ''authorization_code'' @ ''&redirect_uri='' @ redirect_uri"

definition member_string :: "json \<Rightarrow> string \<Rightarrow> string" where
  "member_string j k = (case jfind j k of None \<Rightarrow> [] | Some v \<Rightarrow> string_or_empty v)"

definition login_json :: "route_env \<Rightarrow> string \<Rightarrow> json" where
  "login_json env body = (if body = [] then JNull else case ev_parse env body of None \<Rightarrow> JNull | Some j \<Rightarrow> j)"

definition handle_post_login_body :: "route_env \<Rightarrow> nat \<Rightarrow> header_v_t \<Rightarrow> string \<Rightarrow> server \<Rightarrow> server" where
  "handle_post_login_body env r cors_headers body s =
    (case new_end r s of (e0, s1) \<Rightarrow>
       let e = e0\<lparr>en_status := Some BAD_REQUEST_400, en_headers := cors_headers, en_response := ''body''\<rparr>;
           json_body = login_json env body;
           state = member_string json_body ''state''
       in if \<not> is_object json_body then destroy e s1
          else if state = [] then destroy (e\<lparr>en_response := ''state''\<rparr>) s1
          else case remove_oauth_state state (sr_oauth s1) of (status, redirect, oa) \<Rightarrow>
            let s2 = s1\<lparr>sr_oauth := oa\<rparr>
            in if status \<noteq> 0 then destroy (e\<lparr>en_status := Some FORBIDDEN_403, en_response := []\<rparr>) s2
               else let code = member_string json_body ''code'';
                        redirect_uri = member_string json_body ''redirect_uri''
                 in if code = [] then destroy (e\<lparr>en_response := ''code''\<rparr>) s2
                    else if redirect_uri = [] then destroy (e\<lparr>en_response := ''redirect_uri''\<rparr>) s2
                    else if ev_sha_secret env = []
                    then destroy (e\<lparr>en_status := Some INTERNAL_SERVER_ERROR_500, en_response := ''config''\<rparr>) s2
                    else (destroy (e\<lparr>en_res := None\<rparr>) s2)
                      \<lparr>sr_tasks := sr_tasks s2 @ [T_login r cors_headers (case redirect of None \<Rightarrow> [] | Some x \<Rightarrow> x)
                        (login_creds env code redirect_uri)]\<rparr>)"

text \<open>The body of a request comes in pieces; a piece knows the response, the body and the headers.\<close>

definition post_login :: "route_env \<Rightarrow> nat \<Rightarrow> request \<Rightarrow> server \<Rightarrow> (server \<times> (recv_body_t \<times> header_v_t) option) result" where
  "post_login env r req s =
    (case cors (ev_origins env) req [] of (ops, headers) \<Rightarrow>
       if headers = [] then Inr (emits r ops s, None)
       else case create_recv_body_t (ev_now env) 0 (rq_addr req) (sr_bodies s) of
           None \<Rightarrow> Inl Undefined
         | Some (b, l) \<Rightarrow> Inr (s\<lparr>sr_bodies := l\<rparr>, Some (b, headers)))"

definition post_login_data :: "route_env \<Rightarrow> nat \<Rightarrow> recv_body_t \<times> header_v_t \<Rightarrow> string \<Rightarrow> bool \<Rightarrow> server \<Rightarrow> server" where
  "post_login_data env r bh chunk is_last s =
    (case default_recv_on_data (fst bh) chunk is_last (sr_bodies s) of (l, body) \<Rightarrow>
       let s1 = s\<lparr>sr_bodies := l\<rparr>
       in case body of None \<Rightarrow> s1 | Some b \<Rightarrow> handle_post_login_body env r (snd bh) b s1)"

definition post_login_aborted :: "nat \<Rightarrow> recv_body_t \<Rightarrow> server \<Rightarrow> server" where
  "post_login_aborted r b s =
    s\<lparr>sr_bodies := default_recv_on_aborted b (sr_bodies s), sr_res := mark_aborted r (sr_res s)\<rparr>"

definition login_error :: "route_env \<Rightarrow> string \<Rightarrow> end_t \<Rightarrow> end_t" where
  "login_error env message e =
    e\<lparr>en_status := Some INTERNAL_SERVER_ERROR_500, en_response := ev_dump env (response_error message)\<rparr>"

definition max_age_of :: "json \<Rightarrow> string" where
  "max_age_of udata =
    (let exp = (case jfind udata ''expires_in'' of None \<Rightarrow> 0
         | Some v \<Rightarrow> (case get_int v of Inl _ \<Rightarrow> 0 | Inr i \<Rightarrow> i))
     in if exp \<le> 0 then [] else ''; Max-Age='' @ int_str exp)"

fun erase_key :: "string \<Rightarrow> json \<Rightarrow> json" where
  "erase_key k (JObj kv) = JObj (filter (\<lambda>(k', _). k' \<noteq> k) kv)"
| "erase_key k j = j"

definition login_save ::
  "route_env \<Rightarrow> end_t \<Rightarrow> string \<Rightarrow> json \<Rightarrow> json \<Rightarrow> string \<Rightarrow> server \<Rightarrow> end_t \<times> server" where
  "login_save env e redirect udata user uid s =
    (let auth = erase_key ''guild'' udata;
         s1 = s\<lparr>sr_db := sr_db s @ [DB_update_user_auth uid auth],
                sr_cache := set_cached_user_auth (ev_now env) uid auth (sr_cache s)\<rparr>;
         t = create_jwt_token (ev_jwt env) (ev_jwt_secret env) uid
     in if t = [] then (login_error env ''Failed generating token'' e, s1)
        else ((add_header ''Set-Cookie'' (''token='' @ t @ max_age_of udata @ ''; HttpOnly'') e)
            \<lparr>en_response := ev_dump env (response_payload (JObj [(''redirect'', JStr redirect), (''user'', user)]))\<rparr>, s1))"

definition handle_post_login_creds ::
  "route_env \<Rightarrow> end_t \<Rightarrow> string \<Rightarrow> string \<Rightarrow> server \<Rightarrow> (end_t \<times> server) result" where
  "handle_post_login_creds env e redirect creds s =
    (let resp = discord_post_creds env creds
     in bind_result (process_curlpp_response_t env resp) (\<lambda>udata.
       if cr_status resp \<noteq> 200
       then Inr (login_error env (''POST /oauth2/token: '' @ int_str (cr_status resp)) e, s)
       else if \<not> is_object udata then Inr (login_error env ''POST /oauth2/token: Unknown response'' e, s)
       else let token_type = member_string udata ''token_type''; access_token = member_string udata ''access_token''
         in if token_type = [] \<or> access_token = []
            then Inr (login_error env ''POST /oauth2/token: Unknown response'' e, s)
            else let resp_me = discord_get_me env token_type access_token
              in bind_result (process_curlpp_response_t env resp_me) (\<lambda>ume.
                   if cr_status resp_me \<noteq> 200
                   then Inr (login_error env (''GET /oauth2/@me: '' @ int_str (cr_status resp_me)) e, s)
                   else if \<not> is_object ume then Inr (login_error env ''GET /oauth2/@me: Unknown response'' e, s)
                   else bind_result (jindex ume ''user'') (\<lambda>user. bind_result (jindex user ''id'') (\<lambda>i_user.
                     let uid = string_or_empty i_user
                     in if uid = [] then Inr (login_error env ''GET /oauth2/@me: Unknown response'' e, s)
                        else Inr (login_save env e redirect udata user uid s))))))"

definition login_task ::
  "route_env \<Rightarrow> nat \<Rightarrow> header_v_t \<Rightarrow> string \<Rightarrow> string \<Rightarrow> server \<Rightarrow> (end_t \<times> server) result" where
  "login_task env r headers redirect creds s =
    (case new_end r s of (e, s1) \<Rightarrow>
       handle_post_login_creds env (set_content_type_json (e\<lparr>en_headers := headers\<rparr>)) redirect creds s1)"

section \<open>Web sockets\<close>

definition ws_upgrade :: "route_env \<Rightarrow> nat \<Rightarrow> request \<Rightarrow> server \<Rightarrow> server result" where
  "ws_upgrade env r req =
    with_user env r req (\<lambda>user_id headers s.
      if rq_param req = [] \<or> valid_number (rq_param req) \<noteq> 0
      then Inr (emits r (Write_status BAD_REQUEST_400 # write_headers headers @ [End_body []]) s)
      else if dv_guild (ev_view env) (ev_snowflake env (rq_param req)) = None
      then Inr (emits r (Write_status NOT_FOUND_404 # write_headers headers @ [End_body []]) s)
      else Inr (s\<lparr>sr_upgraded := sr_upgraded s
        @ [(r, \<lparr>ws_user_id = 0, ws_server_id = ev_snowflake env (rq_param req), ws_waved = False\<rparr>)]\<rparr>))"

section \<open>What a login needs and gives\<close>

lemma new_end_simps [simp]:
  "new_end r s = (fst (end_new (Some r) (sr_res s)), s\<lparr>sr_res := snd (end_new (Some r) (sr_res s))\<rparr>)"
  by (simp add: new_end_def split: prod.split)

lemma destroy_simps [simp]:
  "sr_oauth (destroy e s) = sr_oauth s" "sr_tasks (destroy e s) = sr_tasks s" "sr_db (destroy e s) = sr_db s"
  "sr_cache (destroy e s) = sr_cache s" "sr_res (destroy e s) = end_destroy e (sr_res s)"
  by (simp_all add: destroy_def)

lemma clear_new_out: "rs_out (end_destroy (e\<lparr>en_res := None\<rparr>) s) = rs_out s"
  by (simp add: end_destroy_def)

lemma end_destroy_answer:
  "en_res e = Some r \<Longrightarrow> en_status e = Some st \<Longrightarrow> r \<notin> set (rs_aborted s) \<Longrightarrow>
    rs_out (end_destroy e s) = rs_out s @ map (Pair r) (Write_status st # write_headers (en_headers e) @ [End_body (en_response e)])"
  by (simp add: end_destroy_def is_aborted_def)

lemma remove_oauth_state_cases:
  assumes "remove_oauth_state x s = (st, redirect, s')" and "st = 0"
  shows "\<exists>d. redirect = Some d \<and> oa_states s x = Some d \<and> oa_states s' = (oa_states s)(x := None)"
proof (cases "oa_states s x")
  case (Some d)
  then have "redirect = Some d" "s' = s\<lparr>oa_states := (oa_states s)(x := None)\<rparr>"
    using assms(1) by (simp_all add: remove_oauth_state_def)
  then show ?thesis using Some by simp
qed (use assms in \<open>simp add: remove_oauth_state_def\<close>)

text \<open>A login spends the state it was begun with. When the body of a login makes the server ask
  Discord, the state in the body is one that was given out; it is forgotten then, the answer is left
  to the task with the redirect that was stored with the state, and the same body posted again is
  answered with 403.\<close>

theorem login_spends_state:
  assumes "s' = handle_post_login_body env r headers body s" and "sr_tasks s' \<noteq> sr_tasks s"
    and "r2 \<notin> set (rs_aborted (sr_res s'))"
  shows "(\<exists>x redirect creds. oa_states (sr_oauth s) x = Some redirect
      \<and> oa_states (sr_oauth s') = (oa_states (sr_oauth s))(x := None)
      \<and> sr_tasks s' = sr_tasks s @ [T_login r headers redirect creds])
    \<and> rs_out (sr_res s') = rs_out (sr_res s)
    \<and> rs_out (sr_res (handle_post_login_body env r2 headers2 body s')) = rs_out (sr_res s')
        @ map (Pair r2) (Write_status FORBIDDEN_403 # write_headers headers2 @ [End_body []])"
proof -
  let ?j = "login_json env body"
  let ?x = "member_string ?j ''state''"
  obtain st redirect oa where o: "remove_oauth_state ?x (sr_oauth s) = (st, redirect, oa)" using prod_cases3 by blast
  let ?T = "T_login r headers (case redirect of None \<Rightarrow> [] | Some x \<Rightarrow> x)
    (login_creds env (member_string ?j ''code'') (member_string ?j ''redirect_uri''))"
  let ?go = "is_object ?j \<and> ?x \<noteq> [] \<and> st = 0 \<and> member_string ?j ''code'' \<noteq> [] \<and> member_string ?j ''redirect_uri'' \<noteq> []
    \<and> ev_sha_secret env \<noteq> []"
  have "sr_tasks s' = (if ?go then sr_tasks s @ [?T] else sr_tasks s)"
    unfolding assms(1) handle_post_login_body_def by (simp add: o Let_def)
  then have st: "st = 0" "is_object ?j" "?x \<noteq> []" and s': "sr_tasks s' = sr_tasks s @ [?T]" and go: ?go
    using assms(2) by (auto split: if_splits)
  have oa: "sr_oauth s' = oa" and out: "rs_out (sr_res s') = rs_out (sr_res s)"
    unfolding assms(1) handle_post_login_body_def using go by (simp_all add: o Let_def clear_new_out)
  obtain d where d: "redirect = Some d" "oa_states (sr_oauth s) ?x = Some d" "oa_states oa = (oa_states (sr_oauth s))(?x := None)"
    using remove_oauth_state_cases [OF o st(1)] by blast
  then have "remove_oauth_state ?x (sr_oauth s') = (- 1, None, sr_oauth s')" by (simp add: remove_oauth_state_def oa)
  then have "handle_post_login_body env r2 headers2 body s'
      = destroy \<lparr>en_status = Some FORBIDDEN_403, en_headers = headers2, en_response = [], en_res = Some r2\<rparr>
          (s'\<lparr>sr_res := snd (end_new (Some r2) (sr_res s'))\<rparr>)"
    using st(2,3) by (simp add: handle_post_login_body_def Let_def end_new_def)
  then have "rs_out (sr_res (handle_post_login_body env r2 headers2 body s')) = rs_out (sr_res s')
      @ map (Pair r2) (Write_status FORBIDDEN_403 # write_headers headers2 @ [End_body []])"
    using assms(3) by (simp add: end_destroy_answer)
  moreover have "\<exists>x redirect creds. oa_states (sr_oauth s) x = Some redirect
      \<and> oa_states (sr_oauth s') = (oa_states (sr_oauth s))(x := None)
      \<and> sr_tasks s' = sr_tasks s @ [T_login r headers redirect creds]"
    by (rule exI [of _ ?x]) (use s' d oa in auto)
  ultimately show ?thesis using out by blast
qed

text \<open>C39: A login cookie is only given to a user that Discord vouches for. The answer to a login is
  OK exactly when it sets a cookie, and then the cookie holds the token made for the id that Discord
  returned for the access token it had given for the login; what Discord returned is stored for that
  user, in the database and in the cache, without the guild. Every other answer is an error that
  sets no cookie.\<close>

theorem login_cookie_vouched:
  assumes "handle_post_login_creds env e redirect creds s = Inr (e', s')" and "en_status e = Some OK_200"
  shows "(en_status e' = Some OK_200 \<and>
      (\<exists>udata ume user uid. process_curlpp_response_t env (discord_post_creds env creds) = Inr udata
        \<and> process_curlpp_response_t env
            (discord_get_me env (member_string udata ''token_type'') (member_string udata ''access_token'')) = Inr ume
        \<and> jindex ume ''user'' = Inr user \<and> jindex user ''id'' = Inr (JStr uid) \<and> uid \<noteq> []
        \<and> sr_db s' = sr_db s @ [DB_update_user_auth uid (erase_key ''guild'' udata)]
        \<and> get_cached_user_auth uid (sr_cache s') = erase_key ''guild'' udata
        \<and> en_headers e' = en_headers e @ [(''Set-Cookie'',
            token_cookie_name @ create_jwt_token (ev_jwt env) (ev_jwt_secret env) uid @ max_age_of udata @ ''; HttpOnly'')]))
    \<or> (en_status e' = Some INTERNAL_SERVER_ERROR_500 \<and> en_headers e' = en_headers e)"
proof -
  have c: "get_cached_user_auth uid (set_cached_user_auth now uid j c) = j" for uid now j c
  proof -
    have "cached (set_cached now (auth_key uid) 300 j c) (auth_key uid) = Some j" by (simp add: set_cached_def)
    then show ?thesis by (simp add: get_cached_user_auth_def set_cached_user_auth_def cache_get_def cached_def)
  qed
  have s: "string_or_empty j = [] \<longleftrightarrow> (\<forall>x. j = JStr x \<longrightarrow> x = [])" for j by (cases j) auto
  show ?thesis
    using assms
    by (auto simp: handle_post_login_creds_def login_error_def login_save_def Let_def c token_cookie_name_def
        add_header_def s elim!: bind_resultE split: if_splits)
qed

text \<open>How these routes are registered: only the one that is read with GET passes the guard against a burst first.
  \<open>now\<close> is the clock and \<open>last_reqs\<close> when the same client last sent the same request.\<close>

datatype protected_route = Rt_guilds | Rt_logout | Rt_ws

definition registered_route ::
  "route_env \<Rightarrow> int \<Rightarrow> protected_route \<Rightarrow> nat \<Rightarrow> request \<Rightarrow> (string \<rightharpoonup> int) \<Rightarrow> server \<Rightarrow> ((string \<rightharpoonup> int) \<times> server) result" where
  "registered_route env now route r req last_reqs s =
    (case route of
       Rt_guilds \<Rightarrow>
         (case one_second_304 now r req last_reqs (sr_res s) of (st, l, rs) \<Rightarrow>
            if st = 0 then Inr (l, s\<lparr>sr_res := rs\<rparr>)
            else bind_result (get_guilds env r req (s\<lparr>sr_res := rs\<rparr>)) (\<lambda>s1. Inr (l, s1)))
     | Rt_logout \<Rightarrow> bind_result (post_logout env r req s) (\<lambda>s1. Inr (last_reqs, s1))
     | Rt_ws \<Rightarrow> bind_result (ws_upgrade env r req s) (\<lambda>s1. Inr (last_reqs, s1)))"

definition burst :: "int \<Rightarrow> protected_route \<Rightarrow> request \<Rightarrow> (string \<rightharpoonup> int) \<Rightarrow> bool" where
  "burst now route req last_reqs \<longleftrightarrow> route = Rt_guilds \<and> rq_addr req \<noteq> []
    \<and> last_reqs (rq_addr req @ '';'' @ rq_method req @ '';'' @ rq_url req) = Some now"

lemma with_user_refuses:
  assumes "checked_user (ev_jwt env) req = []"
  shows "\<exists>rs. with_user env r req f s = Inr (s\<lparr>sr_res := rs\<rparr>)
    \<and> rs_out rs = rs_out (sr_res s) @ map (Pair r) (case cors (ev_origins env) req [] of (ops, headers) \<Rightarrow>
        if headers = [] then ops else if r \<in> set (rs_aborted (sr_res s)) then []
        else Write_status UNAUTHORIZED_401 # write_headers headers @ [End_body []])"
proof -
  obtain ops headers where c: "cors (ev_origins env) req [] = (ops, headers)" by fastforce
  show ?thesis
  proof (cases "headers = []")
    case True
    then show ?thesis using c
      by (intro exI [of _ "emit r ops (sr_res s)"]) (simp add: with_user_def with_cors_def emits_def)
  next
    case False
    let ?rs = "end_destroy \<lparr>en_status = Some UNAUTHORIZED_401, en_headers = headers, en_response = [], en_res = Some r\<rparr>
      (snd (end_new (Some r) (sr_res s)))"
    have "with_user env r req f s = Inr (s\<lparr>sr_res := ?rs\<rparr>)"
      using False c assms by (simp add: with_user_def with_cors_def validate_token_def Let_def end_new_def)
    moreover have "r \<in> set (rs_aborted (sr_res s)) \<Longrightarrow> rs_out ?rs = rs_out (sr_res s)"
      by (simp add: end_destroy_def is_aborted_def)
    moreover have "r \<notin> set (rs_aborted (sr_res s)) \<Longrightarrow> rs_out ?rs = rs_out (sr_res s)
        @ map (Pair r) (Write_status UNAUTHORIZED_401 # write_headers headers @ [End_body []])"
      by (simp add: end_destroy_answer)
    ultimately show ?thesis using False c by (intro exI [of _ ?rs]) simp
  qed
qed

lemma protected_with_user:
  "\<exists>f. get_guilds env r req = with_user env r req f" "\<exists>f. post_logout env r req = with_user env r req f"
  "\<exists>f. ws_upgrade env r req = with_user env r req f"
  by (auto simp: get_guilds_def post_logout_def ws_upgrade_def)

text \<open>C40: Without a valid token the protected routes do nothing. When the token of a request does
  not check, the list of guilds, the logout and the upgrade to a web socket change nothing but what is written to
  the response: 304 when the list is asked for again by the same client within the same second; otherwise the refusal of
  \<open>cors\<close>, or 401 with the headers of \<open>cors\<close>. Only that 401 may not be written: nothing is, when the record of
  clients that have gone still names the address of the response (see the findings).\<close>

theorem protected_routes_need_token:
  assumes "checked_user (ev_jwt env) req = []"
  shows "\<exists>l rs. registered_route env now route r req last_reqs s = Inr (l, s\<lparr>sr_res := rs\<rparr>)
    \<and> rs_out rs = rs_out (sr_res s) @ map (Pair r)
        (if burst now route req last_reqs then [Write_status NOT_MODIFIED_304, End_body []]
         else case cors (ev_origins env) req [] of (ops, headers) \<Rightarrow>
           if headers = [] then ops else if r \<in> set (rs_aborted (sr_res s)) then []
           else Write_status UNAUTHORIZED_401 # write_headers headers @ [End_body []])"
proof (cases "burst now route req last_reqs")
  case True
  then have "registered_route env now route r req last_reqs s
      = Inr (last_reqs, s\<lparr>sr_res := emit r [Write_status NOT_MODIFIED_304, End_body []] (sr_res s)\<rparr>)"
    by (simp add: registered_route_def one_second_304_def burst_def Let_def)
  then show ?thesis using True
    by (intro exI [of _ last_reqs] exI [of _ "emit r [Write_status NOT_MODIFIED_304, End_body []] (sr_res s)"]) simp
next
  case False
  note w = with_user_refuses [OF assms, of r _ s]
  obtain rs l where "registered_route env now route r req last_reqs s = Inr (l, s\<lparr>sr_res := rs\<rparr>)"
    "rs_out rs = rs_out (sr_res s) @ map (Pair r) (case cors (ev_origins env) req [] of (ops, headers) \<Rightarrow>
        if headers = [] then ops else if r \<in> set (rs_aborted (sr_res s)) then []
        else Write_status UNAUTHORIZED_401 # write_headers headers @ [End_body []])"
  proof (cases route)
    case Rt_guilds
    obtain f where f: "get_guilds env r req = with_user env r req f" using protected_with_user(1) by blast
    obtain rs where rs: "with_user env r req f s = Inr (s\<lparr>sr_res := rs\<rparr>)" "rs_out rs = rs_out (sr_res s) @ map (Pair r)
        (case cors (ev_origins env) req [] of (ops, headers) \<Rightarrow>
          if headers = [] then ops else if r \<in> set (rs_aborted (sr_res s)) then []
          else Write_status UNAUTHORIZED_401 # write_headers headers @ [End_body []])"
      using w [of f] by blast
    define l where "l = fst (snd (one_second_304 now r req last_reqs (sr_res s)))"
    have "one_second_304 now r req last_reqs (sr_res s) = (- 1, l, sr_res s)"
      using False Rt_guilds by (auto simp: l_def one_second_304_def burst_def Let_def)
    then have "registered_route env now route r req last_reqs s = Inr (l, s\<lparr>sr_res := rs\<rparr>)"
      by (simp add: registered_route_def Rt_guilds f rs(1))
    then show ?thesis using rs(2) by (rule that)
  next
    case Rt_logout
    obtain f where f: "post_logout env r req = with_user env r req f" using protected_with_user(2) by blast
    show ?thesis using w [of f] that by (auto simp: registered_route_def Rt_logout f)
  next
    case Rt_ws
    obtain f where f: "ws_upgrade env r req = with_user env r req f" using protected_with_user(3) by blast
    show ?thesis using w [of f] that by (auto simp: registered_route_def Rt_ws f)
  qed
  then show ?thesis using False by auto
qed

section \<open>Events of the dashboard\<close>

text \<open>Sockets are addresses; what is sent on them and published to topics is recorded. An event for
  a user is deferred, and the socket is looked up when the closure runs.\<close>

datatype ws_op =
    Ws_send "64 word" string
  | Ws_publish string string
  | Ws_subscribe "64 word" string

datatype ws_closure =
    D_ws_publish string string
  | D_ws_event snowflake string

record ws_srv =
  wv_users :: "(64 word \<times> snowflake) list"
  wv_deferred :: "ws_closure list"
  wv_out :: "ws_op list"

definition register_ws_user :: "64 word \<Rightarrow> snowflake \<Rightarrow> ws_srv \<Rightarrow> ws_srv" where
  "register_ws_user ws user_id s = s\<lparr>wv_users := subs_put ws user_id (wv_users s)\<rparr>"

definition get_user_ws :: "snowflake \<Rightarrow> ws_srv \<Rightarrow> 64 word option" where
  "get_user_ws user_id s = map_option fst (find (\<lambda>i. snd i = user_id) (wv_users s))"

definition unregister_ws_user :: "64 word \<Rightarrow> ws_srv \<Rightarrow> int \<times> ws_srv" where
  "unregister_ws_user ws s =
    (if map_of (wv_users s) ws = None then (- 1, s)
     else (0, s\<lparr>wv_users := filter (\<lambda>i. fst i \<noteq> ws) (wv_users s)\<rparr>))"

definition get_player_topic :: "snowflake \<Rightarrow> string" where
  "get_player_topic guild_id = ''player/'' @ nat_str (unat guild_id)"

definition binary_event :: "char \<Rightarrow> string \<Rightarrow> string" where
  "binary_event event data = event # data"

definition publish :: "string \<Rightarrow> string \<Rightarrow> ws_srv \<Rightarrow> ws_srv" where
  "publish topic message s = s\<lparr>wv_deferred := wv_deferred s @ [D_ws_publish topic message]\<rparr>"

definition publish_event_binary :: "snowflake \<Rightarrow> char \<Rightarrow> string \<Rightarrow> ws_srv \<Rightarrow> ws_srv" where
  "publish_event_binary guild_id event data = publish (get_player_topic guild_id) (binary_event event data)"

definition int32_payload :: "32 word \<Rightarrow> string" where
  "int32_payload n =
    (if n < 1000 then nat_str (unat n)
     else [chr (unat (drop_bit 24 (and n 0xff000000))), chr (unat (drop_bit 16 (and n 0x00ff0000))),
           chr (unat (drop_bit 8 (and n 0x0000ff00))), chr (unat (and n 0x000000ff))])"

definition publish_int32_event :: "snowflake \<Rightarrow> char \<Rightarrow> 32 word \<Rightarrow> ws_srv \<Rightarrow> ws_srv" where
  "publish_int32_event guild_id event n = publish_event_binary guild_id event (int32_payload n)"

definition send_event :: "snowflake \<Rightarrow> string \<Rightarrow> ws_srv \<Rightarrow> ws_srv" where
  "send_event user_id data s = s\<lparr>wv_deferred := wv_deferred s @ [D_ws_event user_id data]\<rparr>"

definition send_event_binary :: "snowflake \<Rightarrow> char \<Rightarrow> string \<Rightarrow> ws_srv \<Rightarrow> ws_srv" where
  "send_event_binary user_id event data = send_event user_id (binary_event event data)"

definition event_json :: "int \<Rightarrow> json \<Rightarrow> json" where
  "event_json event data = JObj [(''e'', JInt event), (''d'', data)]"

definition publish_event :: "route_env \<Rightarrow> snowflake \<Rightarrow> int \<Rightarrow> json \<Rightarrow> ws_srv \<Rightarrow> ws_srv" where
  "publish_event env guild_id event data = publish (get_player_topic guild_id) (ev_dump env (event_json event data))"

definition error_data :: "json \<Rightarrow> json" where
  "error_data err = JObj [(''error'', JBool True), (''error_message'', err)]"

definition publish_error :: "route_env \<Rightarrow> snowflake \<Rightarrow> json \<Rightarrow> ws_srv \<Rightarrow> ws_srv" where
  "publish_error env guild_id err = publish_event env guild_id 0 (error_data err)"

definition publish_pause :: "snowflake \<Rightarrow> ws_srv \<Rightarrow> ws_srv" where
  "publish_pause guild_id = publish_event_binary guild_id CHR ''p'' []"

definition publish_play :: "snowflake \<Rightarrow> ws_srv \<Rightarrow> ws_srv" where
  "publish_play guild_id = publish_event_binary guild_id CHR ''c'' []"

definition publish_stop :: "snowflake \<Rightarrow> ws_srv \<Rightarrow> ws_srv" where
  "publish_stop guild_id = publish_event_binary guild_id CHR ''x'' []"

definition publish_seek :: "snowflake \<Rightarrow> 64 word \<Rightarrow> ws_srv \<Rightarrow> ws_srv" where
  "publish_seek guild_id seek_ms = publish_int32_event guild_id CHR ''s'' (ucast seek_ms)"

definition publish_progress :: "snowflake \<Rightarrow> 64 word \<Rightarrow> ws_srv \<Rightarrow> ws_srv" where
  "publish_progress guild_id ms = publish_int32_event guild_id CHR ''S'' (ucast ms)"

definition publish_fx :: "route_env \<Rightarrow> snowflake \<Rightarrow> ws_srv \<Rightarrow> ws_srv" where
  "publish_fx env guild_id s =
    (case get_player guild_id (ev_manager env) of None \<Rightarrow> s
     | Some p \<Rightarrow> publish_event env guild_id 6 (fx_states_to_json p) s)"

definition send_error :: "route_env \<Rightarrow> snowflake \<Rightarrow> json \<Rightarrow> ws_srv \<Rightarrow> ws_srv" where
  "send_error env user_id err = send_event user_id (ev_dump env (event_json 0 (error_data err)))"

definition send_join :: "snowflake \<Rightarrow> ws_srv \<Rightarrow> ws_srv" where
  "send_join user_id = send_event_binary user_id CHR ''j'' []"

definition send_leave :: "snowflake \<Rightarrow> ws_srv \<Rightarrow> ws_srv" where
  "send_leave user_id = send_event_binary user_id CHR ''l'' []"

fun run_ws_closure :: "ws_closure \<Rightarrow> ws_srv \<Rightarrow> ws_srv" where
  "run_ws_closure (D_ws_publish topic message) s = s\<lparr>wv_out := wv_out s @ [Ws_publish topic message]\<rparr>"
| "run_ws_closure (D_ws_event user_id data) s =
    (case get_user_ws user_id s of None \<Rightarrow> s | Some ws \<Rightarrow> s\<lparr>wv_out := wv_out s @ [Ws_send ws data]\<rparr>)"

text \<open>A new socket: the topics, a greeting, and the state of the player, whose parts are printed
  objects given as arguments (the queue's tracks and the playback are presentation).\<close>

definition ws_open :: "route_env \<Rightarrow> 64 word \<Rightarrow> ws_data \<Rightarrow> json \<Rightarrow> json \<Rightarrow> ws_srv \<Rightarrow> ws_srv" where
  "ws_open env ws sdata playback_info queue_info s =
    (let g = ws_server_id sdata;
         fx = (if jfind playback_info ''title'' \<noteq> None
           then case get_player g (ev_manager env) of None \<Rightarrow> []
             | Some p \<Rightarrow> [Ws_send ws (ev_dump env (event_json 6 (fx_states_to_json p)))]
           else [])
     in s\<lparr>wv_out := wv_out s @ [Ws_subscribe ws ''global'', Ws_subscribe ws (get_player_topic g), Ws_send ws ''meow~'',
           Ws_send ws (ev_dump env (event_json 2 playback_info))] @ fx
           @ [Ws_send ws (ev_dump env (event_json 7 queue_info))]\<rparr>)"

definition ws_close :: "64 word \<Rightarrow> ws_srv \<Rightarrow> ws_srv" where
  "ws_close ws s = snd (unregister_ws_user ws s)"

text \<open>How a number in an event is read: up to three bytes are digits, four are a big-endian number.\<close>

definition int32_read :: "string \<Rightarrow> int" where
  "int32_read s = (if length s \<le> 3 then digits_val s else foldl (\<lambda>a c. a * 256 + int (ord c)) 0 s)"

lemma byte_take: "int (unat (take_bit 8 (drop_bit k n))) = uint n div 2 ^ k mod 256" for n :: "32 word"
proof -
  have "uint (take_bit 8 (drop_bit k n)) = take_bit 8 (drop_bit k (uint n))"
    using bintr_uint [of 32 n] by (simp add: unsigned_take_bit_eq unsigned_drop_bit_eq)
  moreover have "(2::int) ^ 8 = 256" by simp
  ultimately show ?thesis unfolding uint_nat [symmetric] by (simp only: take_bit_eq_mod drop_bit_eq_div)
qed

lemma payload_bytes:
  "drop_bit 24 (and n 0xff000000) = take_bit 8 (drop_bit 24 n)"
  "drop_bit 16 (and n 0x00ff0000) = take_bit 8 (drop_bit 16 n)"
  "drop_bit 8 (and n 0x0000ff00) = take_bit 8 (drop_bit 8 n)"
  "and n 0x000000ff = take_bit 8 (drop_bit 0 n)" for n :: "32 word"
  by (simp_all add: drop_bit_and take_bit_eq_mask mask_eq_exp_minus_1)

lemma horner: "a' = a \<Longrightarrow> x = a * 256 + b \<Longrightarrow> y = x * 256 + c \<Longrightarrow> i = y * 256 + d \<Longrightarrow>
    ((a' * 256 + b) * 256 + c) * 256 + d = i" for i :: int
  by simp

lemma big_endian:
  "(((i div 2 ^ 24 mod 256) * 256 + i div 2 ^ 16 mod 256) * 256 + i div 2 ^ 8 mod 256) * 256 + i div 2 ^ 0 mod 256 = i"
  if "0 \<le> i" "i < 2 ^ 32" for i :: int
proof (rule horner)
  show "i div 2 ^ 24 mod 256 = i div 2 ^ 24" using that by (intro mod_pos_pos_trivial) auto
  show "i div 2 ^ 16 = i div 2 ^ 24 * 256 + i div 2 ^ 16 mod 256"
    using div_mult_mod_eq [of "i div 2 ^ 16" 256] zdiv_zmult2_eq [of 256 i "2 ^ 16"] by simp
  show "i div 2 ^ 8 = i div 2 ^ 16 * 256 + i div 2 ^ 8 mod 256"
    using div_mult_mod_eq [of "i div 2 ^ 8" 256] zdiv_zmult2_eq [of 256 i "2 ^ 8"] by simp
  show "i = i div 2 ^ 8 * 256 + i div 2 ^ 0 mod 256" using div_mult_mod_eq [of i 256] by simp
qed

lemma int32_read_four:
  "int32_read [a, b, c, d] = ((int (ord a) * 256 + int (ord b)) * 256 + int (ord c)) * 256 + int (ord d)"
  by (simp add: int32_read_def)

text \<open>Positions sent to the dashboard arrive as they were. Reading the payload of a progress or
  seek event back, as digits when it has at most three bytes and as a big-endian number otherwise,
  gives the number of milliseconds, reduced modulo \<open>2 ^ 32\<close>; so every position below 49 days
  arrives exactly.\<close>

theorem progress_event_roundtrip:
  "int32_read (int32_payload (ucast ms)) = uint ms mod 2 ^ 32"
proof -
  let ?n = "ucast ms :: 32 word"
  have u: "uint ?n = uint ms mod 2 ^ 32" by (simp add: unsigned_ucast_eq take_bit_eq_mod)
  have b: "0 \<le> uint ?n" "uint ?n < 2 ^ 32" unfolding u by simp_all
  have "int32_read (int32_payload ?n) = uint ?n"
  proof (cases "?n < 1000")
    case True
    then have "unat ?n < 10 ^ 3" by (simp add: word_less_nat_alt)
    then have "length (nat_str (unat ?n)) \<le> 3" by (intro length_nat_str_le) simp_all
    then show ?thesis using True by (simp add: int32_read_def int32_payload_def)
  next
    case False
    have e: "int (unat (take_bit 8 (drop_bit k ?n)) mod 256) = uint ?n div 2 ^ k mod 256" for k
      by (simp only: zmod_int byte_take) simp
    have p: "int32_payload ?n = map (\<lambda>k. chr (unat (take_bit 8 (drop_bit k ?n)))) [24, 16, 8, 0]"
      using False by (simp only: int32_payload_def payload_bytes if_False list.map)
    show ?thesis
      unfolding p list.map int32_read_four ord_chr e by (rule big_endian [OF b])
  qed
  then show ?thesis by (simp only: u)
qed

text \<open>The table of users is a table in which writing replaces.\<close>

interpretation ws_users: kv_store "\<lambda>s. map_of (wv_users s)" register_ws_user "\<lambda>ws s. snd (unregister_ws_user ws s)"
proof
  show "map_of (wv_users (register_ws_user k v s)) = (map_of (wv_users s))(k \<mapsto> v)" for k v s
    by (simp add: register_ws_user_def)
  have "map_of (filter (\<lambda>i. fst i \<noteq> k) m) = (map_of m)(k := None)" for k and m :: "(64 word \<times> snowflake) list"
    by (induction m) auto
  then show "map_of (wv_users (snd (unregister_ws_user k s))) = (map_of (wv_users s))(k := None)" for k s
    by (auto simp: unregister_ws_user_def)
qed

section \<open>Examples\<close>

definition demo_parse :: "string \<Rightarrow> json option" where
  "demo_parse t =
    (if t = ''login'' then Some (JObj [(''state'', JStr ''x''), (''code'', JStr ''c''), (''redirect_uri'', JStr ''u'')])
     else if t = ''tok'' then Some (JObj [(''token_type'', JStr ''Bearer''), (''access_token'', JStr ''a''), (''expires_in'', JInt 60)])
     else if t = ''me'' then Some (JObj [(''user'', JObj [(''id'', JStr ''42'')])])
     else None)"

definition demo_curl :: "string \<Rightarrow> string \<Rightarrow> curl_reply option" where
  "demo_curl url posted = Some \<lparr>cr_perform = True, cr_status = 200, cr_header_size = 1,
    cr_response = (if url = DISCORD_API_URL @ ''/oauth2/token'' then ''htok'' else ''hme'')\<rparr>"

definition demo_env :: route_env where
  "demo_env = \<lparr>ev_now = 0, ev_random = [], ev_origins = [], ev_jwt = demo_jwt, ev_jwt_secret = ''s'', ev_sha_id = 7,
    ev_sha_secret = ''secret'', ev_oauth_link = ''l'', ev_oauth_invite = ''i'', ev_dump = (\<lambda>_. ''json''), ev_parse = demo_parse,
    ev_snowflake = (\<lambda>_. 1), ev_view = sample_view, ev_manager = manager_init, ev_bot = None, ev_curl = demo_curl,
    ev_db_auth = (\<lambda>_. JNull)\<rparr>"

definition demo_server :: server where
  "demo_server = \<lparr>sr_res = res_state_init, sr_oauth = \<lparr>oa_states = [''x'' \<mapsto> ''/home''], oa_timers = []\<rparr>,
    sr_cache = scache_init, sr_streams = stream_srv_init, sr_tasks = [], sr_bodies = [], sr_db = [], sr_upgraded = []\<rparr>"

theorem login_spends_state_witness:
  "\<exists>s' creds. s' = handle_post_login_body demo_env 1 [] ''login'' demo_server
    \<and> sr_tasks s' = [T_login 1 [] ''/home'' creds]
    \<and> rs_out (sr_res (handle_post_login_body demo_env 2 [] ''login'' s'))
        = [(2, Write_status FORBIDDEN_403), (2, End_body [])]"
proof -
  let ?s = "handle_post_login_body demo_env 1 [] ''login'' demo_server"
  have j: "login_json demo_env ''login'' = JObj [(''state'', JStr ''x''), (''code'', JStr ''c''), (''redirect_uri'', JStr ''u'')]"
    by (simp add: login_json_def demo_env_def demo_parse_def)
  have k: "sr_tasks ?s = [T_login 1 [] ''/home'' (login_creds demo_env ''c'' ''u'')]"
    using j by (simp add: handle_post_login_body_def Let_def member_string_def demo_server_def remove_oauth_state_def)
      (simp add: demo_env_def)
  then have n: "sr_tasks ?s \<noteq> sr_tasks demo_server" by (simp add: demo_server_def)
  have a: "set (rs_aborted (sr_res ?s)) = {}"
    using end_destroy_answers(2) [of _ "snd (end_new (Some 1) res_state_init)"] j
    by (auto simp: handle_post_login_body_def Let_def demo_server_def destroy_def res_state_init_def split: prod.splits)
  have "2 \<notin> set (rs_aborted (sr_res ?s))" unfolding a by simp
  from login_spends_state [OF refl n this] show ?thesis using k
    by (intro exI [of _ ?s] exI [of _ "login_creds demo_env ''c'' ''u''"])
      (simp add: write_headers_def demo_server_def res_state_init_def)
qed

theorem login_cookie_vouched_witness:
  "\<exists>e' s'. handle_post_login_creds demo_env (plain_end 1) [] [] demo_server = Inr (e', s')
    \<and> en_status e' = Some OK_200
    \<and> en_headers e' = [(''Set-Cookie'', ''token=t42; Max-Age=60; HttpOnly'')]"
proof -
  have p: "process_curlpp_response_t demo_env \<lparr>cr_perform = True, cr_status = 200, cr_header_size = Suc 0, cr_response = ''htok''\<rparr>
      = Inr (JObj [(''token_type'', JStr ''Bearer''), (''access_token'', JStr ''a''), (''expires_in'', JInt 60)])"
    "process_curlpp_response_t demo_env \<lparr>cr_perform = True, cr_status = 200, cr_header_size = Suc 0, cr_response = ''hme''\<rparr>
      = Inr (JObj [(''user'', JObj [(''id'', JStr ''42'')])])"
    by (simp_all add: process_curlpp_response_t_def demo_env_def demo_parse_def ord_def)
  have c: "discord_post_creds demo_env [] = \<lparr>cr_perform = True, cr_status = 200, cr_header_size = Suc 0, cr_response = ''htok''\<rparr>"
    "discord_get_me demo_env a b = \<lparr>cr_perform = True, cr_status = 200, cr_header_size = Suc 0, cr_response = ''hme''\<rparr>" for a b
    by (simp_all add: discord_post_creds_def discord_get_me_def discord_get_wauth_def demo_env_def demo_curl_def)
  have t: "create_jwt_token (ev_jwt demo_env) (ev_jwt_secret demo_env) ''42'' = ''t42''"
    by (simp add: create_jwt_token_def demo_env_def demo_jwt_def)
  have m: "max_age_of (JObj [(''token_type'', JStr ''Bearer''), (''access_token'', JStr ''a''), (''expires_in'', JInt 60)]) = ''; Max-Age=60''"
    by code_simp
  obtain e' s' where r: "handle_post_login_creds demo_env (plain_end 1) [] [] demo_server = Inr (e', s')" "en_status e' = Some OK_200"
    by (simp add: handle_post_login_creds_def p c Let_def member_string_def login_save_def t add_header_def plain_end_def end_new_def)
  have e: "en_status (plain_end 1) = Some OK_200" "en_headers (plain_end (Suc 0)) = []" by (simp_all add: plain_end_def end_new_def)
  have "OK_200 \<noteq> INTERNAL_SERVER_ERROR_500" by (simp add: OK_200_def INTERNAL_SERVER_ERROR_500_def)
  then show ?thesis
    using login_cookie_vouched [OF r(1) e(1)] r by (auto simp: p c member_string_def t m e token_cookie_name_def)
qed

theorem protected_routes_need_token_witness:
  "\<exists>req l rs. rq_header req ''cookie'' = ''a=b''
    \<and> registered_route demo_env 5 Rt_guilds 1 req Map.empty demo_server = Inr (l, demo_server\<lparr>sr_res := rs\<rparr>)
    \<and> hd (rs_out rs) = (1, Write_status UNAUTHORIZED_401)"
proof -
  let ?r = "\<lparr>rq_method = ''get'', rq_url = [], rq_addr = ''::1'', rq_header = (\<lambda>k. if k = ''cookie'' then ''a=b'' else []), rq_param = []\<rparr>"
  have "cut_token ''a=b'' = None" by code_simp
  then have "checked_user (ev_jwt demo_env) ?r = []" by (simp add: checked_user_def)
  from protected_routes_need_token [OF this, of 5 Rt_guilds 1 Map.empty demo_server] show ?thesis
    by (intro exI [of _ ?r]) (auto simp: demo_server_def res_state_init_def cors_def Let_def get_cors_headers_def burst_def)
qed

end
