(* ===== verification/Tasks.thy ===== *)
theory Tasks
  imports Prelude "HOL-Library.Multiset"
begin

text \<open>
  Tasks and threads: \<open>src/musicat/task.cpp\<close> and \<open>src/musicat/thread_manager.cpp\<close>. Work is queued with
  a check that tells whether it would block; the main loop takes what is ready out of the queue and
  hands it to the library, or runs it itself when it was queued for the main thread. The threads are
  kept in a table from which the main loop joins those that are done. What a task does is a value
  \<open>'c\<close>; the answer of its check is asked for when the queue is looked at.
\<close>

section \<open>Tasks\<close>

record 'c blocking_task_t =
  bt_run :: 'c
  bt_may_block :: bool
  bt_id :: "64 word"
  bt_on_main :: bool

text \<open>\<open>tk_ready\<close> is the rest of the list that the main loop works on, \<open>tk_handled\<close> what it has worked
  on, \<open>tk_pool\<close> and \<open>tk_main\<close> what became of it; \<open>tk_waiting\<close> are the threads inside
  \<open>run_on_main_and_wait\<close> and \<open>tk_returned\<close> the tasks for which it has returned. \<open>tk_queued\<close> records
  everything that was ever queued, in order.\<close>

record 'c task_state =
  tk_queue :: "'c blocking_task_t list"
  tk_ready :: "'c blocking_task_t list"
  tk_handled :: "'c blocking_task_t list"
  tk_pool :: "'c list"
  tk_main :: "'c list"
  tk_waiting :: "'c blocking_task_t list"
  tk_returned :: "'c blocking_task_t list"
  tk_queued :: "'c blocking_task_t list"

definition task_start :: "'c task_state" where
  "task_start = \<lparr>tk_queue = [], tk_ready = [], tk_handled = [], tk_pool = [], tk_main = [], tk_waiting = [],
    tk_returned = [], tk_queued = []\<rparr>"

definition push_task :: "'c blocking_task_t \<Rightarrow> 'c task_state \<Rightarrow> 'c task_state" where
  "push_task t s = s\<lparr>tk_queue := tk_queue s @ [t], tk_queued := tk_queued s @ [t]\<rparr>"

definition run_may_block :: "'c \<Rightarrow> 'c task_state \<Rightarrow> 'c task_state" where
  "run_may_block c = push_task \<lparr>bt_run = c, bt_may_block = True, bt_id = 0, bt_on_main = False\<rparr>"

definition main_task :: "64 word \<Rightarrow> 'c \<Rightarrow> 'c blocking_task_t" where
  "main_task cts c = \<lparr>bt_run = c, bt_may_block = False, bt_id = cts, bt_on_main = True\<rparr>"

definition run_on_main :: "64 word \<Rightarrow> 'c \<Rightarrow> 'c task_state \<Rightarrow> 'c task_state" where
  "run_on_main cts c = push_task (main_task cts c)"

text \<open>\<open>run_on_main_and_wait\<close> up to its wait, and the condition under which the wait ends.\<close>

definition run_on_main_and_wait :: "64 word \<Rightarrow> 'c \<Rightarrow> 'c task_state \<Rightarrow> 'c task_state" where
  "run_on_main_and_wait cts c s =
    (let t = main_task cts c; s1 = push_task t s in s1\<lparr>tk_waiting := tk_waiting s1 @ [t]\<rparr>)"

definition wait_over :: "'c blocking_task_t \<Rightarrow> 'c task_state \<Rightarrow> bool" where
  "wait_over t s \<longleftrightarrow> find (\<lambda>q. bt_id q = bt_id t) (tk_queue s) = None"

text \<open>The main loop: first the ready tasks are taken out, under the lock; then each is run, or given
  to the library, which takes nothing when there is no cluster.\<close>

definition will_block :: "('c \<Rightarrow> bool) \<Rightarrow> 'c blocking_task_t \<Rightarrow> bool" where
  "will_block blocks t \<longleftrightarrow> bt_may_block t \<and> blocks (bt_run t)"

fun ready_loop ::
  "('c \<Rightarrow> bool) \<Rightarrow> 'c blocking_task_t list \<Rightarrow> 'c blocking_task_t list \<times> 'c blocking_task_t list" where
  "ready_loop blocks [] = ([], [])"
| "ready_loop blocks (t # ts) = (case ready_loop blocks ts of (ready, rest) \<Rightarrow>
     if will_block blocks t then (ready, t # rest) else (t # ready, rest))"

definition take_ready :: "('c \<Rightarrow> bool) \<Rightarrow> 'c task_state \<Rightarrow> 'c task_state" where
  "take_ready blocks s = (case ready_loop blocks (tk_queue s) of (ready, rest) \<Rightarrow> s\<lparr>tk_queue := rest, tk_ready := ready\<rparr>)"

definition run_task :: "bool \<Rightarrow> 'c \<Rightarrow> 'c list \<Rightarrow> 'c list" where
  "run_task cluster c pool = (if cluster then pool @ [c] else pool)"

definition handle_ready :: "bool \<Rightarrow> 'c task_state \<Rightarrow> 'c task_state" where
  "handle_ready cluster s =
    (case tk_ready s of
       [] \<Rightarrow> s
     | t # ts \<Rightarrow>
         let s1 = s\<lparr>tk_ready := ts, tk_handled := tk_handled s @ [t]\<rparr>
         in if bt_on_main t then s1\<lparr>tk_main := tk_main s1 @ [bt_run t]\<rparr>
            else s1\<lparr>tk_pool := run_task cluster (bt_run t) (tk_pool s1)\<rparr>)"

definition check_blocking_task :: "('c \<Rightarrow> bool) \<Rightarrow> bool \<Rightarrow> 'c task_state \<Rightarrow> 'c task_state" where
  "check_blocking_task blocks cluster s =
    (let s1 = take_ready blocks s in (handle_ready cluster ^^ length (tk_ready s1)) s1)"

text \<open>Any thread may queue tasks and the main loop goes on, one section between two locks at a time; a
  thread that waits looks at the queue again whenever it is woken.\<close>

inductive task_step :: "'c task_state \<Rightarrow> 'c task_state \<Rightarrow> bool" where
  queue_work: "task_step s (run_may_block c s)"
| queue_main: "task_step s (run_on_main cts c s)"
| queue_and_wait: "task_step s (run_on_main_and_wait cts c s)"
| wait_ends: "t \<in> set (tk_waiting s) \<Longrightarrow> wait_over t s
    \<Longrightarrow> task_step s (s\<lparr>tk_waiting := remove1 t (tk_waiting s), tk_returned := tk_returned s @ [t]\<rparr>)"
| round: "tk_ready s = [] \<Longrightarrow> task_step s (take_ready blocks s)"
| handle: "tk_ready s \<noteq> [] \<Longrightarrow> task_step s (handle_ready cluster s)"

inductive_simps task_step_simps: "task_step s s'"

abbreviation task_steps :: "'c task_state \<Rightarrow> 'c task_state \<Rightarrow> bool" where
  "task_steps \<equiv> task_step\<^sup>*\<^sup>*"

subsection \<open>Tasks are handled once and in order\<close>

lemma ready_loop_filter: "ready_loop blocks ts = (filter (\<lambda>t. \<not> will_block blocks t) ts, filter (will_block blocks) ts)"
  by (induction ts) auto

definition task_inv :: "'c task_state \<Rightarrow> bool" where
  "task_inv s \<longleftrightarrow> mset (tk_queued s) = mset (tk_handled s) + mset (tk_ready s) + mset (tk_queue s)
    \<and> filter bt_on_main (tk_queued s) = filter bt_on_main (tk_handled s @ tk_ready s @ tk_queue s)
    \<and> (\<forall>t\<in>set (tk_queue s). bt_on_main t \<longrightarrow> \<not> bt_may_block t)
    \<and> tk_main s = map bt_run (filter bt_on_main (tk_handled s))
    \<and> (\<forall>t\<in>set (tk_waiting s). t \<in> set (tk_queued s) \<and> bt_on_main t)
    \<and> (\<forall>t\<in>set (tk_returned s). t \<in> set (tk_handled s @ tk_ready s) \<and> bt_on_main t)"

lemma task_inv_start: "task_inv task_start"
  by (simp add: task_inv_def task_start_def)

lemma task_inv_push: "task_inv s \<Longrightarrow> (bt_on_main t \<longrightarrow> \<not> bt_may_block t) \<Longrightarrow> task_inv (push_task t s)"
  by (auto simp: task_inv_def push_task_def)

lemma filter_main_take:
  assumes "\<forall>t\<in>set q. bt_on_main t \<longrightarrow> \<not> bt_may_block t"
  shows "filter bt_on_main (filter (\<lambda>t. \<not> will_block blocks t) q @ filter (will_block blocks) q) = filter bt_on_main q"
  using assms by (induction q) (auto simp: will_block_def filter_empty_conv)

lemma task_inv_take:
  assumes "task_inv s" and "tk_ready s = []"
  shows "task_inv (take_ready blocks s)"
proof -
  have "filter bt_on_main (filter (\<lambda>t. \<not> will_block blocks t) (tk_queue s) @ filter (will_block blocks) (tk_queue s))
      = filter bt_on_main (tk_queue s)"
    using assms(1) by (intro filter_main_take) (simp add: task_inv_def)
  moreover have "mset (filter (\<lambda>t. \<not> will_block blocks t) (tk_queue s)) + mset (filter (will_block blocks) (tk_queue s))
      = mset (tk_queue s)"
    by (metis mset_filter multiset_partition union_commute)
  ultimately show ?thesis using assms
    by (auto simp: task_inv_def take_ready_def ready_loop_filter)
qed

lemma task_inv_handle: "task_inv s \<Longrightarrow> task_inv (handle_ready cluster s)"
  by (auto simp: task_inv_def handle_ready_def Let_def split: list.split)

lemma wait_over_taken:
  assumes "task_inv s" and "t \<in> set (tk_waiting s)" and "wait_over t s"
  shows "t \<in> set (tk_handled s @ tk_ready s)"
proof -
  have "t \<notin> set (tk_queue s)" using assms(3) by (auto simp: wait_over_def find_None_iff)
  moreover have "t \<in># mset (tk_handled s) + mset (tk_ready s) + mset (tk_queue s)"
    using assms(1,2) by (auto simp: task_inv_def simp flip: set_mset_mset)
  ultimately show ?thesis by auto
qed

lemma task_inv_step: "task_step s s' \<Longrightarrow> task_inv s \<Longrightarrow> task_inv s'"
proof (induction rule: task_step.induct)
  case (queue_and_wait s cts c)
  then have "task_inv (push_task (main_task cts c) s)" by (intro task_inv_push) (simp_all add: main_task_def)
  then show ?case by (auto simp: task_inv_def run_on_main_and_wait_def Let_def push_task_def main_task_def)
next
  case (wait_ends t s)
  then show ?case using wait_over_taken [of s t] by (auto simp: task_inv_def dest: subsetD [OF set_remove1_subset])
qed (simp_all add: run_may_block_def run_on_main_def main_task_def task_inv_push task_inv_take task_inv_handle)

lemma task_inv_steps: "task_steps task_start s \<Longrightarrow> task_inv s"
  by (induction rule: rtranclp_induct) (auto intro: task_inv_start task_inv_step)

text \<open>C6: Whatever threads queue tasks, in any order and whatever checks say: every task that was
  queued is at any moment in exactly one place, still queued, taken out by the main loop or handled,
  and none is handled twice. The tasks for the main thread have been run in the order in which they
  were queued, none was left out between two of them. A thread that waited for its task on the main
  thread goes on only when the task has been taken out of the queue; when the main loop is between
  two rounds, the task has been run.\<close>

theorem tasks_once_in_order:
  assumes "task_steps task_start s"
  shows "mset (tk_queued s) = mset (tk_handled s) + mset (tk_ready s) + mset (tk_queue s)
    \<and> map bt_run (filter bt_on_main (tk_queued s))
      = tk_main s @ map bt_run (filter bt_on_main (tk_ready s @ tk_queue s))
    \<and> (\<forall>t\<in>set (tk_returned s). t \<in> set (tk_handled s @ tk_ready s)
        \<and> (tk_ready s = [] \<longrightarrow> bt_run t \<in> set (tk_main s)))"
  using task_inv_steps [OF assms] by (auto simp: task_inv_def)

subsection \<open>A round of the main loop\<close>

lemma handle_all:
  "length (tk_ready s) = n \<Longrightarrow> (handle_ready cluster ^^ n) s = s\<lparr>tk_ready := [], tk_handled := tk_handled s @ tk_ready s,
    tk_main := tk_main s @ map bt_run (filter bt_on_main (tk_ready s)),
    tk_pool := tk_pool s @ (if cluster then map bt_run (filter (\<lambda>t. \<not> bt_on_main t) (tk_ready s)) else [])\<rparr>"
proof (induction n arbitrary: s)
  case (Suc n)
  then obtain t ts where r: "tk_ready s = t # ts" "length ts = n" by (cases "tk_ready s") auto
  then have "length (tk_ready (handle_ready cluster s)) = n" by (simp add: handle_ready_def Let_def)
  from Suc.IH [OF this] show ?case using r
    by (simp add: funpow_swap1 [symmetric] funpow_Suc_right handle_ready_def Let_def run_task_def del: funpow.simps)
qed simp

lemma handle_steps: "length (tk_ready s) = n \<Longrightarrow> task_steps s ((handle_ready cluster ^^ n) s)"
proof (induction n arbitrary: s)
  case (Suc n)
  then have "task_step s (handle_ready cluster s)" by (intro task_step.handle) auto
  moreover have "length (tk_ready (handle_ready cluster s)) = n"
    using Suc.prems by (cases "tk_ready s") (auto simp: handle_ready_def Let_def)
  ultimately show ?case
    using Suc.IH by (simp add: funpow_Suc_right converse_rtranclp_into_rtranclp del: funpow.simps)
qed simp

text \<open>One round of the main loop handles every task whose check says that it will not block,
  in the order of the queue, and leaves exactly the others in the queue, in their order: a task that
  keeps blocking delays no other. Without a cluster the tasks for the library are dropped.\<close>

theorem round_handles_ready:
  assumes "tk_ready s = []"
  shows "let ready = filter (\<lambda>t. \<not> will_block blocks t) (tk_queue s); s' = check_blocking_task blocks cluster s
    in task_steps s s' \<and> tk_ready s' = [] \<and> tk_handled s' = tk_handled s @ ready
      \<and> tk_queue s' = filter (will_block blocks) (tk_queue s)
      \<and> tk_main s' = tk_main s @ map bt_run (filter bt_on_main ready)
      \<and> tk_pool s' = tk_pool s @ (if cluster then map bt_run (filter (\<lambda>t. \<not> bt_on_main t) ready) else [])"
proof -
  let ?s1 = "take_ready blocks s"
  have q: "tk_ready ?s1 = filter (\<lambda>t. \<not> will_block blocks t) (tk_queue s)"
    "tk_queue ?s1 = filter (will_block blocks) (tk_queue s)" "tk_handled ?s1 = tk_handled s"
    "tk_main ?s1 = tk_main s" "tk_pool ?s1 = tk_pool s"
    by (simp_all add: take_ready_def ready_loop_filter)
  have st: "task_steps s ((handle_ready cluster ^^ length (tk_ready ?s1)) ?s1)"
    using handle_steps [OF refl] task_step.round [OF assms] by (rule converse_rtranclp_into_rtranclp [rotated])
  note h = handle_all [OF refl, of ?s1 cluster]
  show ?thesis using st unfolding check_blocking_task_def Let_def h by (auto simp: q)
qed

theorem round_handles_ready_witness:
  "\<exists>s s' :: nat task_state. s = run_may_block 3 (run_on_main 9 2 (run_may_block 1 task_start)) \<and> task_steps s s'
    \<and> map bt_run (tk_handled s') = [2, 3] \<and> map bt_run (tk_queue s') = [1] \<and> tk_pool s' = [3]"
proof -
  define s :: "nat task_state" where "s = run_may_block 3 (run_on_main 9 2 (run_may_block 1 task_start))"
  have r: "tk_ready s = []" "tk_handled s = []" "tk_pool s = []" "map bt_run (tk_queue s) = [1, 2, 3]"
    by (simp_all add: s_def run_may_block_def run_on_main_def push_task_def task_start_def main_task_def)
  have q: "map bt_run (filter (\<lambda>t. \<not> will_block (\<lambda>c. c = 1) t) (tk_queue s)) = [2, 3]"
    "map bt_run (filter (will_block (\<lambda>c. c = 1)) (tk_queue s)) = [1]"
    "map bt_run (filter (\<lambda>t. \<not> bt_on_main t) (filter (\<lambda>t. \<not> will_block (\<lambda>c. c = 1) t) (tk_queue s))) = [3]"
    by (simp_all add: s_def run_may_block_def run_on_main_def push_task_def task_start_def main_task_def will_block_def)
  show ?thesis
    using round_handles_ready [OF r(1), of "\<lambda>c. c = 1" True] r q unfolding s_def [symmetric] Let_def
    by (intro exI [of _ s] exI [of _ "check_blocking_task (\<lambda>c. c = 1) True s"]) simp
qed

text \<open>C27: Waiting for a task on the main thread can end before the task has run. The main loop
  takes all ready tasks out of the queue before it runs the first one, and the wait only looks
  whether the task is still queued: when two threads wait, the notification after the first task
  lets the second thread go on while its own task has not been started.\<close>

theorem main_wait_returns_early:
  "\<exists>s t. task_steps (task_start :: nat task_state) s \<and> t \<in> set (tk_returned s) \<and> bt_run t \<notin> set (tk_main s)"
proof -
  define t1 :: "nat blocking_task_t" where "t1 = main_task 1 1"
  define t2 :: "nat blocking_task_t" where "t2 = main_task 2 2"
  note d = run_on_main_and_wait_def push_task_def Let_def task_start_def take_ready_def ready_loop_filter
    handle_ready_def main_task_def t1_def t2_def will_block_def
  define s1 where "s1 = run_on_main_and_wait 2 2 (run_on_main_and_wait 1 (1::nat) task_start)"
  define s2 where "s2 = take_ready (\<lambda>c. False) s1"
  define s3 where "s3 = handle_ready True s2"
  define s4 where "s4 = s3\<lparr>tk_waiting := remove1 t2 (tk_waiting s3), tk_returned := tk_returned s3 @ [t2]\<rparr>"
  have "task_steps task_start s1"
    unfolding s1_def by (meson r_into_rtranclp rtranclp.rtrancl_into_rtrancl task_step.queue_and_wait)
  moreover have "task_step s1 s2" unfolding s2_def by (rule task_step.round) (simp add: s1_def d)
  moreover have "task_step s2 s3" unfolding s3_def by (rule task_step.handle) (simp add: s2_def s1_def d)
  moreover have "task_step s3 s4" unfolding s4_def
    by (rule task_step.wait_ends) (simp_all add: s3_def s2_def s1_def d wait_over_def)
  ultimately have "task_steps task_start s4" by (meson rtranclp.rtrancl_into_rtrancl)
  moreover have "t2 \<in> set (tk_returned s4)" "bt_run t2 \<notin> set (tk_main s4)"
    by (simp_all add: s4_def s3_def s2_def s1_def d)
  ultimately show ?thesis by blast
qed

theorem tasks_once_in_order_witness:
  "\<exists>s :: nat task_state. task_steps task_start s \<and> tk_main s = [1] \<and> map bt_run (tk_ready s @ tk_queue s) = [2]
    \<and> map bt_run (filter bt_on_main (tk_queued s)) = tk_main s @ map bt_run (filter bt_on_main (tk_ready s @ tk_queue s))"
proof -
  note d = run_on_main_and_wait_def push_task_def Let_def task_start_def take_ready_def ready_loop_filter
    handle_ready_def main_task_def will_block_def
  define s1 where "s1 = run_on_main_and_wait 2 2 (run_on_main_and_wait 1 (1::nat) task_start)"
  define s2 where "s2 = take_ready (\<lambda>c. False) s1"
  define s3 where "s3 = handle_ready True s2"
  have "task_steps task_start s1"
    unfolding s1_def by (meson r_into_rtranclp rtranclp.rtrancl_into_rtrancl task_step.queue_and_wait)
  moreover have "task_step s1 s2" unfolding s2_def by (rule task_step.round) (simp add: s1_def d)
  moreover have "task_step s2 s3" unfolding s3_def by (rule task_step.handle) (simp add: s2_def s1_def d)
  ultimately have r: "task_steps task_start s3" by (meson rtranclp.rtrancl_into_rtrancl)
  have "tk_main s3 = [1]" "map bt_run (tk_ready s3 @ tk_queue s3) = [2]"
    by (simp_all add: s3_def s2_def s1_def d)
  then show ?thesis using tasks_once_in_order [OF r] r by (intro exI [of _ s3]) simp
qed

section \<open>Threads\<close>

text \<open>A thread's entry: its id, whether it can be joined (it cannot any more once it was), whether it
  said that it is done.\<close>

record thread_data =
  td_id :: nat
  td_joinable :: bool
  td_done :: bool

definition dispatch_thread :: "nat \<Rightarrow> thread_data list \<Rightarrow> thread_data list" where
  "dispatch_thread i ts = ts @ [\<lparr>td_id = i, td_joinable = True, td_done = False\<rparr>]"

fun set_done :: "nat \<Rightarrow> thread_data list \<Rightarrow> thread_data list" where
  "set_done i [] = []"
| "set_done i (e # ts) = (if td_id e \<noteq> i then e # set_done i ts else e\<lparr>td_done := True\<rparr> # ts)"

text \<open>The entries left and the ids joined, in order.\<close>

fun join_done :: "thread_data list \<Rightarrow> thread_data list \<times> nat list" where
  "join_done [] = ([], [])"
| "join_done (e # ts) = (case join_done ts of (rest, joined) \<Rightarrow>
     if \<not> td_done e then (e # rest, joined)
     else (rest, if td_joinable e then td_id e # joined else joined))"

fun join_all :: "thread_data list \<Rightarrow> thread_data list \<times> nat list" where
  "join_all [] = ([], [])"
| "join_all (e # ts) = (case join_all ts of (rest, joined) \<Rightarrow>
     if td_joinable e then (rest, td_id e # joined) else (e # rest, joined))"

text \<open>The life of threads. A thread is created, and the creator puts it into the table; when its
  function ends, the destructor of \<open>DoneSetter\<close> marks its entry. \<open>th_early\<close> are the threads that
  ended before they were in the table.\<close>

record thread_state =
  th_table :: "thread_data list"
  th_created :: "nat set"
  th_alive :: "nat set"
  th_used :: "nat set"
  th_early :: "nat set"

definition thread_start :: thread_state where
  "thread_start = \<lparr>th_table = [], th_created = {}, th_alive = {}, th_used = {}, th_early = {}\<rparr>"

inductive thread_step :: "thread_state \<Rightarrow> thread_state \<Rightarrow> bool" where
  create: "i \<notin> th_used s \<Longrightarrow> thread_step s (s\<lparr>th_created := insert i (th_created s), th_alive := insert i (th_alive s),
    th_used := insert i (th_used s)\<rparr>)"
| dispatch: "i \<in> th_created s
    \<Longrightarrow> thread_step s (s\<lparr>th_created := th_created s - {i}, th_table := dispatch_thread i (th_table s)\<rparr>)"
| thread_ends: "i \<in> th_alive s \<Longrightarrow> thread_step s (s\<lparr>th_alive := th_alive s - {i}, th_table := set_done i (th_table s),
    th_early := (if i \<in> th_created s then insert i (th_early s) else th_early s)\<rparr>)"
| collect: "thread_step s (s\<lparr>th_table := fst (join_done (th_table s))\<rparr>)"

abbreviation thread_steps :: "thread_state \<Rightarrow> thread_state \<Rightarrow> bool" where
  "thread_steps \<equiv> thread_step\<^sup>*\<^sup>*"

lemma join_done_filter:
  "join_done ts = (filter (\<lambda>e. \<not> td_done e) ts, map td_id (filter (\<lambda>e. td_done e \<and> td_joinable e) ts))"
  by (induction ts) auto

lemma set_done_ids [simp]: "map td_id (set_done i ts) = map td_id ts"
  by (induction ts) auto

lemma set_done_image [simp]: "td_id ` set (set_done i ts) = td_id ` set ts"
  by (induction ts) auto

lemma set_done_mem:
  "distinct (map td_id ts) \<Longrightarrow> e \<in> set (set_done i ts)
    \<Longrightarrow> \<exists>e0\<in>set ts. td_id e = td_id e0 \<and> td_joinable e = td_joinable e0 \<and> td_done e = (td_id e0 = i \<or> td_done e0)"
proof (induction ts)
  case (Cons a ts)
  show ?case
  proof (cases "td_id a = i")
    case True
    have "td_id x \<noteq> i" if "x \<in> set ts" for x
      using Cons.prems(1) True that by (auto simp: image_iff)
    moreover have "e = a\<lparr>td_done := True\<rparr> \<or> e \<in> set ts" using Cons.prems(2) True by simp
    ultimately show ?thesis using True by (elim disjE) (simp_all add: bexI [of _ e])
  next
    case False
    then consider "e = a" | "e \<in> set (set_done i ts)" using Cons.prems(2) by auto
    then show ?thesis
    proof cases
      case 2
      then obtain e0 where "e0 \<in> set ts" "td_id e = td_id e0 \<and> td_joinable e = td_joinable e0 \<and> td_done e = (td_id e0 = i \<or> td_done e0)"
        using Cons.IH Cons.prems(1) by auto
      then show ?thesis by (intro bexI [of _ e0]) simp_all
    qed (use False in auto)
  qed
qed simp

definition thread_inv :: "thread_state \<Rightarrow> bool" where
  "thread_inv s \<longleftrightarrow> distinct (map td_id (th_table s)) \<and> set (map td_id (th_table s)) \<inter> th_created s = {}
    \<and> set (map td_id (th_table s)) \<union> th_created s \<union> th_alive s \<union> th_early s \<subseteq> th_used s
    \<and> th_early s \<inter> th_alive s = {} \<and> th_created s \<subseteq> th_alive s \<union> th_early s
    \<and> (\<forall>e\<in>set (th_table s). td_joinable e \<and> (td_done e \<longleftrightarrow> td_id e \<notin> th_alive s \<union> th_early s))"

lemma thread_inv_step: "thread_step s s' \<Longrightarrow> thread_inv s \<Longrightarrow> thread_inv s'"
proof (induction rule: thread_step.induct)
  case (thread_ends i s)
  let ?t = "set_done i (th_table s)"
  have d: "distinct (map td_id (th_table s))" and inv: "thread_inv s"
    using thread_ends.prems by (simp_all add: thread_inv_def)
  have "td_joinable e \<and> (td_done e \<longleftrightarrow> td_id e \<notin> (th_alive s - {i}) \<union> (if i \<in> th_created s then insert i (th_early s) else th_early s))"
    if e: "e \<in> set ?t" for e
  proof -
    obtain e0 where e0: "e0 \<in> set (th_table s)" "td_id e = td_id e0" "td_joinable e = td_joinable e0"
      "td_done e \<longleftrightarrow> td_id e0 = i \<or> td_done e0" using set_done_mem [OF d e] by blast
    have "td_joinable e0" "td_done e0 \<longleftrightarrow> td_id e0 \<notin> th_alive s \<union> th_early s" "td_id e0 \<notin> th_created s"
      "th_early s \<inter> th_alive s = {}"
      using inv e0(1) by (auto simp: thread_inv_def)
    then show ?thesis using e0(2-4) thread_ends.hyps by auto
  qed
  then show ?case using inv thread_ends.hyps by (auto simp: thread_inv_def)
next
  case (collect s)
  then show ?case
    by (auto simp: thread_inv_def join_done_filter distinct_map intro: inj_on_subset)
next
  case (create i s)
  then show ?case by (auto simp: thread_inv_def)
next
  case (dispatch i s)
  then show ?case by (auto simp: thread_inv_def dispatch_thread_def)
qed

lemma thread_inv_steps: "thread_steps thread_start s \<Longrightarrow> thread_inv s"
proof (induction rule: rtranclp_induct)
  case base
  show ?case by (simp add: thread_inv_def thread_start_def)
qed (rule thread_inv_step)

text \<open>Collecting threads joins only threads whose function has ended, each once, so the main
  loop is never held up by it; the threads that still run stay in the table. It joins all that have
  ended, except those that ended before their creator had put them into the table: nobody marks
  their entries, so they stay in the table, finished and not joined, until the process exits.\<close>

theorem join_done_exact:
  assumes "thread_steps thread_start s"
  shows "join_done (th_table s) =
      (filter (\<lambda>e. td_id e \<in> th_alive s \<or> td_id e \<in> th_early s) (th_table s),
       map td_id (filter (\<lambda>e. td_id e \<notin> th_alive s \<and> td_id e \<notin> th_early s) (th_table s)))
    \<and> distinct (map td_id (th_table s)) \<and> th_early s \<inter> th_alive s = {}"
  using thread_inv_steps [OF assms]
  by (auto simp: thread_inv_def join_done_filter intro!: filter_cong arg_cong [of _ _ "map td_id"])

theorem join_done_exact_witness:
  "\<exists>s. thread_steps thread_start s \<and> th_alive s = {2} \<and> th_early s = {1}
    \<and> map td_id (fst (join_done (th_table s))) = [1, 2] \<and> snd (join_done (th_table s)) = [3]"
proof -
  define s1 where "s1 = \<lparr>th_table = [], th_created = {1, 2, 3}, th_alive = {1, 2, 3}, th_used = {1, 2, 3::nat}, th_early = {}\<rparr>"
  define s2 where "s2 = s1\<lparr>th_alive := {2, 3}, th_early := {1}\<rparr>"
  define s3 where "s3 = s2\<lparr>th_table := dispatch_thread 3 (dispatch_thread 2 (dispatch_thread 1 [])), th_created := {}\<rparr>"
  define s4 where "s4 = s3\<lparr>th_alive := {2}, th_table := set_done 3 (th_table s3)\<rparr>"
  have "thread_steps thread_start s1"
  proof -
    have "thread_step thread_start (thread_start\<lparr>th_created := {3}, th_alive := {3}, th_used := {3}\<rparr>)" (is "thread_step _ ?a")
      using thread_step.create [of 3 thread_start] by (simp add: thread_start_def)
    moreover have "thread_step ?a (thread_start\<lparr>th_created := {2, 3}, th_alive := {2, 3}, th_used := {2, 3}\<rparr>)" (is "thread_step _ ?b")
      using thread_step.create [of 2 ?a] by (simp add: thread_start_def)
    moreover have "thread_step ?b s1"
      using thread_step.create [of 1 ?b] by (simp add: thread_start_def s1_def)
    ultimately show ?thesis by (meson r_into_rtranclp rtranclp.rtrancl_into_rtrancl)
  qed
  moreover have "thread_step s1 s2"
    using thread_step.thread_ends [of 1 s1] by (simp add: s1_def s2_def insert_Diff_if)
  moreover have "thread_steps s2 s3"
  proof -
    have "thread_step s2 (s2\<lparr>th_created := {2, 3}, th_table := dispatch_thread 1 []\<rparr>)" (is "thread_step _ ?a")
      using thread_step.dispatch [of 1 s2] by (simp add: s1_def s2_def insert_Diff_if)
    moreover have "thread_step ?a (s2\<lparr>th_created := {3}, th_table := dispatch_thread 2 (dispatch_thread 1 [])\<rparr>)" (is "thread_step _ ?b")
      using thread_step.dispatch [of 2 ?a] by (simp add: s1_def s2_def insert_Diff_if)
    moreover have "thread_step ?b s3"
      using thread_step.dispatch [of 3 ?b] by (simp add: s1_def s2_def s3_def)
    ultimately show ?thesis by (meson r_into_rtranclp rtranclp.rtrancl_into_rtrancl)
  qed
  moreover have "thread_step s3 s4"
    using thread_step.thread_ends [of 3 s3] by (simp add: s1_def s2_def s3_def s4_def insert_Diff_if)
  ultimately have r: "thread_steps thread_start s4"
    by (meson rtranclp.rtrancl_into_rtrancl rtranclp_trans)
  have t: "th_alive s4 = {2}" "th_early s4 = {1}" "map td_id (th_table s4) = [1, 2, 3]"
    "th_table s4 = [\<lparr>td_id = 1, td_joinable = True, td_done = False\<rparr>, \<lparr>td_id = 2, td_joinable = True, td_done = False\<rparr>,
      \<lparr>td_id = 3, td_joinable = True, td_done = True\<rparr>]"
    by (simp_all add: s1_def s2_def s3_def s4_def dispatch_thread_def)
  show ?thesis using join_done_exact [OF r] r t by (intro exI [of _ s4]) simp
qed


end
