(* ===== verification/Leaf.thy ===== *)
theory Leaf
  imports Play
begin

text \<open>
  Suggestions and small commands: \<open>src/musicat/autocomplete.cpp\<close>, \<open>events/on_autocomplete.cpp\<close> and the
  handlers it leads to, \<open>cmds/download.cpp\<close>, \<open>cmds/image.cpp\<close>, \<open>cmds/say.cpp\<close>, \<open>eliza.cpp\<close>,
  \<open>cmds/playing.cpp\<close>, the command that asks for control of the dashboard, and the presence text of
  \<open>cmds/owner/set_presence.cpp\<close>. Limiting a string to a number of characters is the ICU library's and
  an argument, as are the answers of the image service and of the chat module.
\<close>

section \<open>Suggestions\<close>

type_synonym candidate = "string \<times> string"

definition max_item_count :: nat where "max_item_count = 25"

definition ac_matches :: "bool \<Rightarrow> string \<Rightarrow> candidate \<Rightarrow> bool" where
  "ac_matches fuzzy param i =
    (if fuzzy then fuzzy_match param (fst i) True
     else str_find (map to_lower (fst i)) (map to_lower param) 0 \<noteq> None)"

text \<open>\<open>siz\<close> is the number of suggestions so far.\<close>

fun filter_loop :: "bool \<Rightarrow> string \<Rightarrow> nat \<Rightarrow> candidate list \<Rightarrow> candidate list" where
  "filter_loop fuzzy param siz [] = []"
| "filter_loop fuzzy param siz (i # cs) =
    (let t = trim_str (fst i); ori = (if t = [] then ''[NULL]'' else t)
     in if \<not> ac_matches fuzzy param i then filter_loop fuzzy param siz cs
        else (ori, snd i) # (if siz + 1 \<ge> max_item_count then [] else filter_loop fuzzy param (siz + 1) cs))"

definition filter_candidates :: "candidate list \<Rightarrow> string \<Rightarrow> bool \<Rightarrow> candidate list" where
  "filter_candidates candidates param fuzzy =
    (let param = trim_str param
     in if param = [] then (if length candidates > max_item_count then take max_item_count candidates else candidates)
        else filter_loop fuzzy param 0 candidates)"

fun response_loop :: "(string \<Rightarrow> string) \<Rightarrow> bool \<Rightarrow> nat \<Rightarrow> candidate list \<Rightarrow> candidate list" where
  "response_loop u8 b_25 siz [] = []"
| "response_loop u8 b_25 siz (i # is) =
    (u8 (fst i), u8 (snd i)) # (if b_25 \<and> siz + 1 \<ge> 25 then [] else response_loop u8 b_25 (siz + 1) is)"

definition create_response :: "(string \<Rightarrow> string) \<Rightarrow> candidate list \<Rightarrow> candidate list" where
  "create_response u8 avail = response_loop u8 (length avail > max_item_count) 0 avail"

text \<open>The handlers. \<open>tracks\<close> are the names that \<open>get_available_tracks\<close> returns for an amount,
  \<open>names\<close> the rows of the database.\<close>

definition ac_query :: "(string \<Rightarrow> string) \<Rightarrow> (nat \<Rightarrow> string list) \<Rightarrow> string \<Rightarrow> candidate list" where
  "ac_query u8 tracks param =
    (let avail = map (\<lambda>n. (n, n)) (tracks (if param = [] then 25 else 0))
     in create_response u8 (if param \<noteq> [] then filter_candidates avail param False else avail))"

definition ac_names :: "(string \<Rightarrow> string) \<Rightarrow> string list option \<Rightarrow> string \<Rightarrow> candidate list" where
  "ac_names u8 rows param =
    create_response u8 (filter_candidates (case rows of None \<Rightarrow> [] | Some ns \<Rightarrow> map (\<lambda>n. (n, n)) ns) param False)"

definition ac_type :: "(string \<Rightarrow> string) \<Rightarrow> string list \<Rightarrow> string \<Rightarrow> candidate list" where
  "ac_type u8 endpoints param =
    (let avail = map (\<lambda>n. (n, n)) endpoints
     in create_response u8 (if param \<noteq> [] then filter_candidates avail param False else avail))"

datatype ac_handler = Ac_play_query | Ac_playlist_id | Ac_download_track | Ac_image_type | Ac_preset_name

definition ac_handlers :: "(ac_handler \<times> string list) list" where
  "ac_handlers =
    [(Ac_play_query, [''play'', ''query'']), (Ac_playlist_id, [''playlist'', ''load'', ''id'']),
     (Ac_playlist_id, [''playlist'', ''view'', ''id'']), (Ac_playlist_id, [''playlist'', ''save'', ''id'']),
     (Ac_playlist_id, [''playlist'', ''delete'', ''id'']), (Ac_download_track, [''download'', ''track'']),
     (Ac_image_type, [''image'', ''type'']), (Ac_preset_name, [''filters'', ''equalizer_presets'', ''load'', ''name'']),
     (Ac_preset_name, [''filters'', ''equalizer_presets'', ''view'', ''name''])]"

text \<open>The comparison of two paths of the same length, element by element: a handler is called when the
  last element has been found equal.\<close>

fun paths_equal :: "string list \<Rightarrow> string list \<Rightarrow> bool" where
  "paths_equal (f # fs) (h # hs) = (if f \<noteq> h then False else if fs = [] then True else paths_equal fs hs)"
| "paths_equal fs hs = False"

fun ac_dispatch :: "string list \<Rightarrow> (ac_handler \<times> string list) list \<Rightarrow> ac_handler list" where
  "ac_dispatch paths [] = []"
| "ac_dispatch paths ((h, ps) # hs) =
    (if length ps \<noteq> length paths then [] else if paths_equal paths ps then [h] else []) @ ac_dispatch paths hs"

definition on_autocomplete :: "string \<Rightarrow> cmd_option list \<Rightarrow> (cmd_option \<Rightarrow> string option) \<Rightarrow> (ac_handler \<times> string) list" where
  "on_autocomplete name options value_of =
    (case find_focused options [name] of (focused, paths) \<Rightarrow>
       if o_name focused = [] then []
       else map (\<lambda>h. (h, case value_of focused of Some s \<Rightarrow> s | None \<Rightarrow> [])) (ac_dispatch paths ac_handlers))"

subsection \<open>What is suggested\<close>

lemma filter_loop_take:
  "siz < 25 \<Longrightarrow> filter_loop fuzzy param siz cs
    = take (25 - siz) (map (\<lambda>i. (if trim_str (fst i) = [] then ''[NULL]'' else trim_str (fst i), snd i))
        (filter (ac_matches fuzzy param) cs))"
proof (induction cs arbitrary: siz)
  case (Cons i cs)
  show ?case
  proof (cases "siz = 24")
    case True
    then show ?thesis using Cons.IH [of siz] by (simp add: max_item_count_def Let_def)
  next
    case False
    then have "25 - siz = Suc (24 - siz)" "25 - Suc siz = 24 - siz" using Cons.prems by simp_all
    then show ?thesis using Cons.IH [of siz] Cons.IH [of "Suc siz"] Cons.prems False
      by (simp add: max_item_count_def Let_def)
  qed
qed simp

lemma response_loop_take:
  "siz < 25 \<Longrightarrow> response_loop u8 b siz is = map (\<lambda>i. (u8 (fst i), u8 (snd i))) (if b then take (25 - siz) is else is)"
proof (induction "is" arbitrary: siz)
  case (Cons i js)
  show ?case
  proof (cases "siz = 24")
    case True
    have "response_loop u8 False n is = map (\<lambda>i. (u8 (fst i), u8 (snd i))) is" for n "is"
      by (induction "is" arbitrary: n) simp_all
    with True show ?thesis by simp
  next
    case False
    then have "25 - siz = Suc (24 - siz)" "25 - Suc siz = 24 - siz" using Cons.prems by simp_all
    then show ?thesis using Cons.IH [of "Suc siz"] Cons.prems False by simp
  qed
qed simp

lemma create_response_take: "create_response u8 avail = map (\<lambda>i. (u8 (fst i), u8 (snd i))) (take 25 avail)"
  by (simp add: create_response_def response_loop_take max_item_count_def)

lemma filter_candidates_take:
  "filter_candidates cs param fuzzy = take 25
    (if trim_str param = [] then cs
     else map (\<lambda>i. (if trim_str (fst i) = [] then ''[NULL]'' else trim_str (fst i), snd i))
       (filter (ac_matches fuzzy (trim_str param)) cs))"
  by (simp add: filter_candidates_def Let_def filter_loop_take max_item_count_def)

lemma paths_equal_eq: "paths \<noteq> [] \<Longrightarrow> length ps = length paths \<Longrightarrow> paths_equal paths ps = (paths = ps)"
  by (induction paths ps rule: paths_equal.induct) auto

lemma ac_dispatch_filter:
  "paths \<noteq> [] \<Longrightarrow> ac_dispatch paths hs = map fst (filter (\<lambda>h. snd h = paths) hs)"
  by (induction hs) (auto simp: paths_equal_eq)

text \<open>What is to be suggested: of the names in their order the first 25 that contain the text, whatever the
  case of its letters and the spaces around it; each with what is shown and what is sent back.\<close>

definition contains_text :: "string \<Rightarrow> string \<Rightarrow> bool" where
  "contains_text t n \<longleftrightarrow> trim_str t = [] \<or> (\<exists>a b. map to_lower n = a @ map to_lower (trim_str t) @ b)"

definition shown_name :: "string \<Rightarrow> string \<Rightarrow> string" where
  "shown_name t n = (if trim_str t = [] then n else if trim_str n = [] then ''[NULL]'' else trim_str n)"

definition suggested :: "(string \<Rightarrow> string) \<Rightarrow> string list \<Rightarrow> string \<Rightarrow> candidate list" where
  "suggested u8 ns t = map (\<lambda>n. (u8 (shown_name t n), u8 n)) (take 25 (filter (contains_text t) ns))"

lemma find_sub_iff: "find_sub p s \<noteq> None \<longleftrightarrow> (\<exists>a b. s = a @ p @ b)"
proof (induction s)
  case (Cons c s)
  show ?case
  proof (cases "take (length p) (c # s) = p")
    case True
    then have "c # s = [] @ p @ drop (length p) (c # s)" by (metis append_Nil append_take_drop_id)
    then have "\<exists>a b. c # s = a @ p @ b" by blast
    with True show ?thesis by simp
  next
    case False
    have "(\<exists>a b. c # s = a @ p @ b) \<longleftrightarrow> (\<exists>a b. s = a @ p @ b)"
    proof
      assume "\<exists>a b. c # s = a @ p @ b"
      then obtain a b where ab: "c # s = a @ p @ b" by blast
      then have "a \<noteq> []" using False by (metis append_Nil append_eq_conv_conj)
      then show "\<exists>a b. s = a @ p @ b" using ab by (cases a) auto
    next
      assume "\<exists>a b. s = a @ p @ b"
      then show "\<exists>a b. c # s = a @ p @ b" by (metis append_Cons)
    qed
    then show ?thesis using False Cons by simp
  qed
qed simp

lemma str_find_iff: "str_find s p 0 \<noteq> None \<longleftrightarrow> (\<exists>a b. s = a @ p @ b)"
  using find_sub_iff by (simp add: str_find_def)

lemma suggested_filter:
  "create_response u8 (filter_candidates (map (\<lambda>n. (n, n)) ns) t False) = suggested u8 ns t"
proof -
  have f: "filter (ac_matches False q) (map (\<lambda>n. (n, n)) ns)
      = map (\<lambda>n. (n, n)) (filter (\<lambda>n. \<exists>a b. map to_lower n = a @ map to_lower q @ b) ns)" for q
  proof (induction ns)
    case (Cons n ns)
    have "ac_matches False q (n, n) \<longleftrightarrow> (\<exists>a b. map to_lower n = a @ map to_lower q @ b)"
      using str_find_iff [of "map to_lower n" "map to_lower q"] by (simp add: ac_matches_def)
    with Cons show ?case by simp
  qed simp
  show ?thesis
    by (cases "trim_str t = []")
      (simp_all add: create_response_take filter_candidates_take f take_map comp_def suggested_def shown_name_def contains_text_def [abs_def])
qed

lemma suggested_all: "create_response u8 (map (\<lambda>n. (n, n)) ns) = suggested u8 ns []"
proof -
  have "trim_str [] = []" by code_simp
  then show ?thesis by (simp add: create_response_take take_map comp_def suggested_def shown_name_def contains_text_def [abs_def])
qed

text \<open>C33: Discord takes at most 25 suggestions and gets at most 25, for every option that has them: a saved
  playlist or preset, the query of play and download, the kind of an image. What it gets are, in their order, the first candidates whose
  name contains what the user has typed, whatever the case of its letters and the spaces around it, or
  all of them when nothing was typed; a failed query of the database suggests nothing.\<close>

theorem suggestions_exact:
  "ac_names u8 rows param = suggested u8 (case rows of None \<Rightarrow> [] | Some ns \<Rightarrow> ns) param
    \<and> ac_query u8 tracks param = suggested u8 (tracks (if param = [] then 25 else 0)) param
    \<and> ac_type u8 endpoints param = suggested u8 endpoints param
    \<and> length (ac_names u8 rows param) \<le> 25 \<and> length (ac_query u8 tracks param) \<le> 25 \<and> length (ac_type u8 endpoints param) \<le> 25"
proof -
  have "ac_names u8 rows param = suggested u8 (case rows of None \<Rightarrow> [] | Some ns \<Rightarrow> ns) param"
    using suggested_filter [of u8 "[]" param] by (cases rows) (simp_all add: ac_names_def suggested_filter)
  moreover have "ac_query u8 tracks param = suggested u8 (tracks (if param = [] then 25 else 0)) param"
    by (simp add: ac_query_def Let_def suggested_filter suggested_all)
  moreover have "ac_type u8 endpoints param = suggested u8 endpoints param"
    by (simp add: ac_type_def Let_def suggested_filter suggested_all)
  moreover have "length (suggested u8 ns t) \<le> 25" for ns t
    by (simp add: suggested_def)
  ultimately show ?thesis by simp
qed

section \<open>Uploading a file\<close>

datatype upload =
    Up_reply string
  | Up_edit string
  | Up_file string string

text \<open>\<open>stat\<close>: whether the path is a regular file, and its size.\<close>

definition file_error :: "(string \<Rightarrow> (bool \<times> nat) option) \<Rightarrow> string \<Rightarrow> string option" where
  "file_error stat fullpath =
    (case stat fullpath of
       None \<Rightarrow> Some ''`[ERROR]` Read failure''
     | Some (regular, sz) \<Rightarrow>
         if \<not> regular then Some ''`[FATAL]` Invalid file type''
         else if sz > 25 * 1024 * 1024 then Some ''`[ERROR]` File size is larger than 25MiB''
         else None)"

definition download_named ::
  "yt_api \<Rightarrow> (string \<Rightarrow> int \<Rightarrow> bool \<Rightarrow> json) \<Rightarrow> (string \<Rightarrow> bool) \<Rightarrow> (string \<Rightarrow> (bool \<times> nat) option) \<Rightarrow> string
    \<Rightarrow> guild_player_t option \<Rightarrow> snowflake \<Rightarrow> string \<Rightarrow> downloads \<Rightarrow> upload list" where
  "download_named yt fetch on_disk stat music_folder player g filename d =
    (case find_track yt fetch player False filename True of
       (result, status) \<Rightarrow>
         if status = - 1 \<or> status = 1 then [Up_edit ''Can't find anything'']
         else
           let fname = get_filename_from_result yt result; fullpath = music_folder @ fname
           in case track_exist on_disk fname (get_url yt result) True g True d of
             ((dling, ex), _) \<Rightarrow>
               if ex = 2 then [Up_edit ''`[ERROR]` Unable to find track'']
               else if ex = 1 \<and> dling then [Up_edit ''Can't find anything, maybe play the song first?'']
               else if ex = 1 then
                 (case file_error stat fullpath of
                    Some e \<Rightarrow> [Up_edit e]
                  | None \<Rightarrow> [Up_edit (''Uploading: '' @ get_title yt result), Up_file fname fullpath])
               else [Up_file fname fullpath])"

definition download_current :: "yt_api \<Rightarrow> string \<Rightarrow> guild_player_t option \<Rightarrow> voiceconn option \<Rightarrow> upload list" where
  "download_current yt music_folder player conn =
    (case player of
       None \<Rightarrow> [Up_reply ''Provide `track`'']
     | Some p \<Rightarrow>
         if gp_queue p = [] \<or> tr_raw (gp_current_track p) = JNull
           \<or> (case Option.bind conn vn_client of None \<Rightarrow> True | Some c \<Rightarrow> \<not> vc_playing c)
         then [Up_reply ''Provide `track`'']
         else let fname = get_filename_from_result yt (gp_current_track p) in [Up_file fname (music_folder @ fname)])"

definition download_slash_run ::
  "yt_api \<Rightarrow> dpp_view \<Rightarrow> (string \<Rightarrow> int \<Rightarrow> bool \<Rightarrow> json) \<Rightarrow> (string \<Rightarrow> bool) \<Rightarrow> (string \<Rightarrow> (bool \<times> nat) option) \<Rightarrow> string
    \<Rightarrow> 32 word \<Rightarrow> snowflake \<Rightarrow> string \<Rightarrow> manager \<Rightarrow> downloads \<Rightarrow> upload list" where
  "download_slash_run yt dv fetch on_disk stat music_folder shard g filename m d =
    (if filename \<noteq> [] then download_named yt fetch on_disk stat music_folder (get_player g m) g filename d
     else download_current yt music_folder (get_player g m) (dv_voice dv shard g))"

text \<open>A file that is asked for by name is uploaded only after its size has been checked; the file of
  the playing track is uploaded without any check.\<close>

lemma download_named_checked:
  "Up_file f path \<in> set (download_named yt fetch on_disk stat folder p g q d)
    \<Longrightarrow> \<exists>sz. stat path = Some (True, sz) \<and> sz \<le> 25 * 1024 * 1024 \<and> on_disk f"
  by (auto simp: download_named_def track_exist_def file_error_def Let_def
      split: prod.split_asm if_split_asm option.split_asm)

section \<open>Images\<close>

text \<open>\<open>fetch\<close> are the urls of the results for a type.\<close>

definition image_slash_run :: "(string \<Rightarrow> string list) \<Rightarrow> string \<Rightarrow> upload list" where
  "image_slash_run fetch img_type =
    (if img_type = [] then [Up_reply ''Provide `type`'']
     else case fetch img_type of
       [] \<Rightarrow> [Up_edit ''`[ERROR]` No result'']
     | url # _ \<Rightarrow> if url = [] then [Up_edit ''`[ERROR]` Empty result''] else [Up_file [] url])"

section \<open>Saying something\<close>

definition msg_prefix :: string where "msg_prefix = ''<:msg:''"

text \<open>The channel and the message id. \<open>psiz\<close> counts the terminating null of the prefix.\<close>

definition parse_msg_source :: "string \<Rightarrow> (snowflake \<times> snowflake) result" where
  "parse_msg_source content =
    (let psiz = length msg_prefix + 1
     in case (str_find content msg_prefix 0, str_find content '':>'' psiz) of
          (Some 0, Some e) \<Rightarrow>
            let sc_ids = substr content psiz (Some (e - psiz))
            in (case str_find sc_ids '':'' 0 of
                  Some k \<Rightarrow> bind_result (stoull (substr sc_ids 0 (Some k))) (\<lambda>cid.
                    bind_result (stoull (substr sc_ids k None)) (\<lambda>mid. Inr (cid, mid)))
                | None \<Rightarrow> bind_result (stoull sc_ids) (\<lambda>mid. Inr (0, mid)))
        | _ \<Rightarrow> Inr (0, 0))"

text \<open>The first digit of an id is skipped, and an id behind a channel is read with its colon.\<close>

lemma parse_msg_source_skips: "parse_msg_source ''<:msg:123:>'' = Inr (0, 23)"
  by code_simp

lemma parse_msg_source_colon: "parse_msg_source ''<:msg:12:34:>'' = Inl Invalid_argument"
  by code_simp

datatype say_action =
    Say_reply string
  | Say_here string
  | Say_to snowflake string

definition say_slash_run :: "(snowflake \<Rightarrow> bool) \<Rightarrow> string \<Rightarrow> snowflake \<Rightarrow> say_action" where
  "say_slash_run resolved content to_channel =
    (if content = [] then Say_reply ''Empty? so nothing?''
     else if to_channel \<noteq> 0 then
       if \<not> resolved to_channel then Say_reply ''`[ERROR]` Unable to retrieve channel'' else Say_to to_channel content
     else Say_here content)"

text \<open>What becomes of a message for another channel: the library's answers to the two requests.\<close>

definition say_result :: "bool \<Rightarrow> bool \<Rightarrow> string option" where
  "say_result thinking_error create_error =
    (if thinking_error then None
     else Some (if create_error then ''Failed sending message, please check my permission in the target channel'' else ''Said''))"

section \<open>Chatting\<close>

text \<open>The regular expression \<open> ?<@!?ID>\<close>: what is left behind a match at the front.\<close>

definition drop_prefix :: "string \<Rightarrow> string \<Rightarrow> string option" where
  "drop_prefix p s = (if take (length p) s = p then Some (drop (length p) s) else None)"

definition match_mention :: "string \<Rightarrow> string \<Rightarrow> string option" where
  "match_mention sid s =
    (let s1 = (case drop_prefix '' '' s of Some r \<Rightarrow> r | None \<Rightarrow> s)
     in case drop_prefix ''<@'' s1 of
          None \<Rightarrow> None
        | Some s2 \<Rightarrow> drop_prefix (sid @ ''>'') (case drop_prefix ''!'' s2 of Some r \<Rightarrow> r | None \<Rightarrow> s2))"

lemma drop_prefix_length: "drop_prefix p s = Some r \<Longrightarrow> length r + length p = length s"
  by (auto simp: drop_prefix_def split: if_split_asm dest!: arg_cong [of _ p length])

lemma match_mention_length: "match_mention sid s = Some r \<Longrightarrow> length r < length s"
  by (auto simp: match_mention_def Let_def split: option.split_asm dest!: drop_prefix_length)

function remove_mentions :: "string \<Rightarrow> string \<Rightarrow> string" where
  "remove_mentions sid [] = []"
| "remove_mentions sid (c # cs) =
    (case match_mention sid (c # cs) of Some r \<Rightarrow> remove_mentions sid r | None \<Rightarrow> c # remove_mentions sid cs)"
  by pat_completeness auto

termination by (relation "measure (length \<circ> snd)") (auto dest: match_mention_length)

definition eliza_message :: "bool \<Rightarrow> snowflake \<Rightarrow> (string \<Rightarrow> string) \<Rightarrow> snowflake \<Rightarrow> snowflake list \<Rightarrow> string \<Rightarrow> string option" where
  "eliza_message running sid ask author mentions content =
    (if \<not> running \<or> author = sid \<or> sid \<notin> set mentions \<or> content = [] then None
     else let msg = trim_str (remove_mentions (nat_str (unat sid)) content)
       in if msg = [] then None
          else let resp = ask msg in if resp = [] then None else Some (map to_lower resp))"

section \<open>Playing, dashboard control and presence\<close>

datatype playing_answer = Pa_reply string | Pa_info

definition playing_slash_run :: "dpp_view \<Rightarrow> snowflake \<Rightarrow> manager \<Rightarrow> playing_answer \<times> manager" where
  "playing_slash_run dv g m =
    (if cmd_pre_get_player_manager_ready_werr g m = 1 then (Pa_reply not_ready_reply, m)
     else case create_player dv g m of
       (None, m1) \<Rightarrow> (Pa_reply ''`[ERROR]` Failed creating guild player'', m1)
     | (Some p, m1) \<Rightarrow>
         (if is_empty (gp_current_track p) then Pa_reply ''Nothing is playing right now, try the `/play` command'' else Pa_info, m1))"

definition lemme_control_slash_run ::
  "(snowflake \<Rightarrow> snowflake option) \<Rightarrow> snowflake \<Rightarrow> snowflake \<Rightarrow> manager \<Rightarrow> manager \<times> effect list" where
  "lemme_control_slash_run user_vc g user_id m =
    (let not_playing = (m, [E_reply ''Nothing is playing right now, try the `/play` command''])
     in if cmd_pre_get_player_manager_ready_werr g m = 1 then (m, [E_reply not_ready_reply])
        else case get_player g m of
          None \<Rightarrow> not_playing
        | Some p \<Rightarrow>
            if is_empty (gp_current_track p) then not_playing
            else if user_id \<noteq> 0 then
              (case request_dashboard_control user_vc user_id p of
                 (p1, eff) \<Rightarrow> (put_player g p1 m, map (E_player g) eff @ [E_reply ''k'']))
            else (m, [E_reply ''Somethin tells me ur not worth it'']))"

text \<open>The text of the presence: \<open>$NAME\<close> is replaced, a backslash in front of the dollar prevents it. The
  variable at the front of a text, with the rest.\<close>

definition var_char :: "char \<Rightarrow> bool" where
  "var_char c \<longleftrightarrow> c = CHR ''_'' \<or> (65 \<le> ord c \<and> ord c \<le> 90)"

definition match_variable :: "string \<Rightarrow> (bool \<times> string \<times> string) option" where
  "match_variable s =
    (let (esc, s1) = (case drop_prefix [CHR 0x5C] s of Some r \<Rightarrow> (True, r) | None \<Rightarrow> (False, s))
     in case drop_prefix ''$'' s1 of
          None \<Rightarrow> None
        | Some s2 \<Rightarrow> let v = takeWhile var_char s2 in if v = [] then None else Some (esc, v, dropWhile var_char s2))"

lemma match_variable_length: "match_variable s = Some (e, v, r) \<Longrightarrow> length r < length s"
  using length_dropWhile_le [of var_char]
  by (auto simp: match_variable_def Let_def split: option.split_asm prod.split_asm if_split_asm
      dest!: drop_prefix_length) (metis le_imp_less_Suc less_Suc_eq)+

function expand_variables :: "string \<Rightarrow> string \<Rightarrow> string" where
  "expand_variables guild_count [] = []"
| "expand_variables guild_count (c # cs) =
    (case match_variable (c # cs) of
       Some (esc, v, r) \<Rightarrow> (if esc then ''$'' @ v else if v = ''GUILD_COUNT'' then guild_count else ''$'' @ v)
         @ expand_variables guild_count r
     | None \<Rightarrow> c # expand_variables guild_count cs)"
  by pat_completeness auto

termination by (relation "measure (length \<circ> snd)") (auto dest: match_variable_length)

lemma expand_escaped: "expand_variables ''7'' ([CHR 0x5C] @ ''$GUILD_COUNT in $GUILD_COUNT'') = ''$GUILD_COUNT in 7''"
  by code_simp


end
