(* ===== verification/Db.thy ===== *)
theory Db
  imports TrackMarker
begin

text \<open>
  The database: \<open>src/musicat/db.cpp\<close>. The queries are the strings that the code builds, libpq is a
  function from a query to a result, its escaping of literals and the text form of JSON are
  arguments. A result is a table of values that may be null.
\<close>

section \<open>Results\<close>

record pg_result =
  pg_rows :: "string option list list"
  pg_res_status :: int

text \<open>\<open>None\<close> is a null pointer, for which every field is null.\<close>

definition PGRES_COMMAND_OK :: int where "PGRES_COMMAND_OK = 1"
definition PGRES_TUPLES_OK :: int where "PGRES_TUPLES_OK = 2"
definition PGRES_FATAL_ERROR :: int where "PGRES_FATAL_ERROR = 7"

definition pq_value :: "pg_result option \<Rightarrow> nat \<Rightarrow> nat \<Rightarrow> string option" where
  "pq_value res r c =
    (case res of
       None \<Rightarrow> None
     | Some t \<Rightarrow> if r < length (pg_rows t) \<and> c < length (pg_rows t ! r) then pg_rows t ! r ! c else None)"

definition check_status :: "pg_result option \<Rightarrow> int" where
  "check_status res = (case res of None \<Rightarrow> PGRES_FATAL_ERROR | Some t \<Rightarrow> pg_res_status t)"

section \<open>Tracks as JSON\<close>

definition track_to_json :: "MCTrack \<Rightarrow> json result" where
  "track_to_json t = bind_result (jset ''filename'' (JStr (tr_filename t)) (tr_raw t)) (jset ''raw_info'' (tr_info_raw t))"

fun tracks_to_json :: "MCTrack list \<Rightarrow> json list result" where
  "tracks_to_json [] = Inr []"
| "tracks_to_json (t # ts) =
    bind_result (track_to_json t) (\<lambda>r. bind_result (tracks_to_json ts) (\<lambda>rs. Inr (r # rs)))"

text \<open>Pushing to a null value makes it an array.\<close>

definition convert_playlist_to_json :: "MCTrack list \<Rightarrow> json result" where
  "convert_playlist_to_json playlist =
    bind_result (tracks_to_json playlist) (\<lambda>rs. Inr (if rs = [] then JNull else JArr rs))"

definition json_at :: "json \<Rightarrow> string \<Rightarrow> json result" where
  "json_at j k = (if \<not> is_object j then Inl Type_error else case jfind j k of None \<Rightarrow> Inl Out_of_range | Some v \<Rightarrow> Inr v)"

definition track_from_json :: "json \<Rightarrow> MCTrack result" where
  "track_from_json j =
    bind_result (bind_result (json_at j ''filename'') get_string) (\<lambda>f. bind_result (json_at j ''raw_info'') (\<lambda>i.
      Inr (MCTrack_default\<lparr>tr_raw := j, tr_filename := f, tr_info_raw := i\<rparr>)))"

fun tracks_from_json :: "json list \<Rightarrow> MCTrack list result" where
  "tracks_from_json [] = Inr []"
| "tracks_from_json (j # js) =
    (if is_null j then tracks_from_json js
     else bind_result (track_from_json j) (\<lambda>t. bind_result (tracks_from_json js) (\<lambda>ts. Inr (t # ts))))"

definition playlist_from_json :: "json \<Rightarrow> (MCTrack list \<times> int) result" where
  "playlist_from_json jso =
    (case jso of
       JArr js \<Rightarrow> if js = [] then Inr ([], - 1) else bind_result (tracks_from_json js) (\<lambda>ts. Inr (ts, 0))
     | _ \<Rightarrow> Inr ([], - 1))"

definition get_playlist_from_PGresult ::
  "(string \<Rightarrow> json option) \<Rightarrow> pg_result option \<Rightarrow> (MCTrack list \<times> int) result" where
  "get_playlist_from_PGresult parse res =
    (case pq_value res 0 0 of
       None \<Rightarrow> Inr ([], - 2)
     | Some v \<Rightarrow> (case parse v of None \<Rightarrow> Inr ([], - 3) | Some jso \<Rightarrow> playlist_from_json jso))"

text \<open>What a track is when it has been saved and loaded: its file name, its information, and the members of
  its raw value, among them now those two. All else is what it is for a new track.\<close>

definition loaded_track :: "MCTrack \<Rightarrow> MCTrack \<Rightarrow> bool" where
  "loaded_track t' t \<longleftrightarrow>
    t' = MCTrack_default\<lparr>tr_raw := tr_raw t', tr_filename := tr_filename t, tr_info_raw := tr_info_raw t\<rparr>
    \<and> is_object (tr_raw t')
    \<and> (\<forall>k. jfind (tr_raw t') k = (if k = ''filename'' then Some (JStr (tr_filename t))
          else if k = ''raw_info'' then Some (tr_info_raw t) else jfind (tr_raw t) k))"

lemma track_roundtrip:
  assumes "track_to_json t = Inr r"
  shows "\<not> is_null r \<and> (\<exists>t'. track_from_json r = Inr t' \<and> loaded_track t' t)"
proof -
  obtain r1 where s: "jset ''filename'' (JStr (tr_filename t)) (tr_raw t) = Inr r1" "jset ''raw_info'' (tr_info_raw t) r1 = Inr r"
    using assms by (auto simp: track_to_json_def elim!: bind_resultE)
  have ob: "is_object r" using s(2) by (cases r1) auto
  then have "\<not> is_null r" by (cases r) auto
  moreover have f: "jfind r ''filename'' = Some (JStr (tr_filename t))" "jfind r ''raw_info'' = Some (tr_info_raw t)"
    by (simp_all add: jfind_jset [OF s(2)] jfind_jset [OF s(1)])
  moreover have "jfind r k = jfind (tr_raw t) k" if "k \<noteq> ''filename''" "k \<noteq> ''raw_info''" for k
    using that by (simp add: jfind_jset [OF s(2)] jfind_jset [OF s(1)])
  ultimately show ?thesis
    by (simp add: track_from_json_def json_at_def ob loaded_track_def)
qed

lemma tracks_roundtrip:
  "tracks_to_json q = Inr rs \<Longrightarrow> length rs = length q \<and> (\<exists>ts. tracks_from_json rs = Inr ts \<and> list_all2 loaded_track ts q)"
proof (induction q arbitrary: rs)
  case (Cons t q)
  obtain r rs1 where r: "track_to_json t = Inr r" "tracks_to_json q = Inr rs1" "rs = r # rs1"
    using Cons.prems by (auto elim!: bind_resultE)
  obtain t' where t': "\<not> is_null r" "track_from_json r = Inr t'" "loaded_track t' t"
    using track_roundtrip [OF r(1)] by blast
  obtain ts where ts: "length rs1 = length q" "tracks_from_json rs1 = Inr ts" "list_all2 loaded_track ts q"
    using Cons.IH [OF r(2)] by blast
  then show ?case using t' r(3) by simp
qed simp

text \<open>C13: A queue or playlist that is saved and loaded again has as many tracks in the same order, each
  with its file name, its information and every member of its raw value, which now has the first two as members,
  too. Everything else that the bot knew of a track is not saved and comes back as it is for a new track: the
  user who asked for it, its repeats, how much of it had been read and where to seek. The empty list is saved as null and
  loaded as empty, which is reported.\<close>

theorem playlist_roundtrip:
  assumes "convert_playlist_to_json q = Inr j"
  shows "\<exists>ts. playlist_from_json j = Inr (ts, if q = [] then - 1 else 0) \<and> list_all2 loaded_track ts q"
proof -
  obtain rs where rs: "tracks_to_json q = Inr rs" "j = (if rs = [] then JNull else JArr rs)"
    using assms by (auto simp: convert_playlist_to_json_def elim!: bind_resultE)
  obtain ts where ts: "length rs = length q" "tracks_from_json rs = Inr ts" "list_all2 loaded_track ts q"
    using tracks_roundtrip [OF rs(1)] by blast
  show ?thesis
  proof (cases "q = []")
    case False
    then have "rs \<noteq> []" using ts(1) by auto
    then show ?thesis using False ts rs(2) by (simp add: playlist_from_json_def)
  qed (use ts rs(2) in \<open>simp add: playlist_from_json_def\<close>)
qed

theorem playlist_roundtrip_witness:
  "\<exists>j ts. convert_playlist_to_json [named ''1'', named ''2''] = Inr j \<and> playlist_from_json j = Inr (ts, 0)
    \<and> list_all2 loaded_track ts [named ''1'', named ''2'']"
proof -
  have "case convert_playlist_to_json [named ''1'', named ''2''] of Inr _ \<Rightarrow> True | Inl _ \<Rightarrow> False" by code_simp
  then obtain j where j: "convert_playlist_to_json [named ''1'', named ''2''] = Inr j" by (auto split: sum.split_asm)
  obtain ts where "playlist_from_json j = Inr (ts, 0)" "list_all2 loaded_track ts [named ''1'', named ''2'']"
    using playlist_roundtrip [OF j] by auto
  then show ?thesis using j by blast
qed

section \<open>Queries\<close>

datatype get_user_playlist_type = gup_all | gup_name_only | gup_raw_only | gup_ts_only

definition sq :: string where "sq = [CHR 0x27]"

text \<open>One value for each query the functions send, with the texts it contains.\<close>

datatype db_call =
    Q_all_playlists snowflake get_user_playlist_type
  | Q_playlist snowflake string get_user_playlist_type
  | Q_update_playlist snowflake string string
  | Q_insert_playlist snowflake string string
  | Q_delete_playlist snowflake string
  | Q_update_queue snowflake string
  | Q_queue snowflake
  | Q_delete_queue snowflake
  | Q_update_config snowflake "bool option" "int option" "loop_mode_t option" "string option"
  | Q_config snowflake
  | Q_auth snowflake
  | Q_update_auth snowflake string
  | Q_delete_auth snowflake
  | Q_preset_names
  | Q_preset string
  | Q_create_preset string string snowflake

definition sf_str :: "snowflake \<Rightarrow> string" where
  "sf_str i = nat_str (unat i)"

definition quoted_id :: "snowflake \<Rightarrow> string" where
  "quoted_id i = sq @ sf_str i @ sq"

definition gup_column :: "get_user_playlist_type \<Rightarrow> string" where
  "gup_column t = (case t of gup_all \<Rightarrow> ''*'' | gup_name_only \<Rightarrow> ''\"name\"'' | gup_raw_only \<Rightarrow> ''\"raw\"''
     | gup_ts_only \<Rightarrow> ''\"ts\"'')"

definition stringify_loop_mode :: "loop_mode_t \<Rightarrow> string" where
  "stringify_loop_mode m = (case m of l_none \<Rightarrow> ''0'' | l_song \<Rightarrow> ''1'' | l_queue \<Rightarrow> ''2'' | l_song_queue \<Rightarrow> ''3'')"

definition config_columns ::
  "(string \<Rightarrow> string) \<Rightarrow> bool option \<Rightarrow> int option \<Rightarrow> loop_mode_t option \<Rightarrow> string option \<Rightarrow> (string \<times> string) list" where
  "config_columns esc st th lm fx =
    (case st of None \<Rightarrow> [] | Some b \<Rightarrow> [(''\"autoplay_state\"'', if b then ''TRUE'' else ''FALSE'')])
    @ (case th of None \<Rightarrow> [] | Some t \<Rightarrow> [(''\"autoplay_threshold\"'', int_str t)])
    @ (case lm of None \<Rightarrow> [] | Some m \<Rightarrow> [(''\"loop_mode\"'', stringify_loop_mode m)])
    @ (case fx of None \<Rightarrow> [] | Some j \<Rightarrow> if esc j = [] then [] else [(''\"fx_states\"'', esc j)])"

fun comma_list :: "string list \<Rightarrow> string" where
  "comma_list [] = []"
| "comma_list [x] = x"
| "comma_list (x # xs) = x @ '', '' @ comma_list xs"

fun assignments :: "(string \<times> string) list \<Rightarrow> string" where
  "assignments [] = []"
| "assignments ((n, v) # cs) = n @ '' = '' @ v @ '', '' @ assignments cs"

definition set_now :: string where
  "set_now = ''\"uts\" = CURRENT_TIMESTAMP''"

definition upsert :: "string \<Rightarrow> string \<Rightarrow> string \<Rightarrow> string \<Rightarrow> string" where
  "upsert table key values k =
    ''INSERT INTO \"'' @ table @ ''\" ( \"raw\", \"'' @ key @ ''\") VALUES ('' @ values @ '', '' @ k
      @ '') ON CONFLICT (\"'' @ key @ ''\") DO UPDATE SET \"raw\" = '' @ values @ '', '' @ set_now @ '';''"

fun query_of :: "(string \<Rightarrow> string) \<Rightarrow> db_call \<Rightarrow> string" where
  "query_of esc (Q_all_playlists u t) =
    ''SELECT '' @ gup_column t @ '' FROM \"playlists\" WHERE \"uid\" = '' @ quoted_id u @ '';''"
| "query_of esc (Q_playlist u name t) =
    ''SELECT '' @ gup_column t @ '' FROM \"playlists\" WHERE \"uid\" = '' @ quoted_id u @ '' AND \"name\" = '' @ esc name @ '';''"
| "query_of esc (Q_update_playlist u name values) =
    ''UPDATE \"playlists\" SET \"raw\" = '' @ esc values @ '', '' @ set_now @ '' WHERE \"uid\" = '' @ quoted_id u
      @ '' AND \"name\" = '' @ esc name @ '' RETURNING \"name\";''"
| "query_of esc (Q_insert_playlist u name values) =
    ''INSERT INTO \"playlists\" (\"uid\", \"raw\", \"name\") VALUES ('' @ quoted_id u @ '', '' @ esc values @ '', '' @ esc name @ '');''"
| "query_of esc (Q_delete_playlist u name) =
    ''DELETE FROM \"playlists\" WHERE \"uid\" = '' @ quoted_id u @ '' AND \"name\" = '' @ esc name @ '' RETURNING \"name\" ;''"
| "query_of esc (Q_update_queue g values) = upsert ''guilds_current_queue'' ''gid'' (esc values) (quoted_id g)"
| "query_of esc (Q_queue g) = ''SELECT \"raw\" FROM \"guilds_current_queue\" WHERE \"gid\" = '' @ quoted_id g @ '';''"
| "query_of esc (Q_delete_queue g) =
    ''DELETE FROM \"guilds_current_queue\" WHERE \"gid\" = '' @ quoted_id g @ '' RETURNING \"gid\" ;''"
| "query_of esc (Q_update_config g st th lm fx) =
    (let cs = config_columns esc st th lm fx
     in ''INSERT INTO \"guilds_player_config\" ( \"gid\", '' @ comma_list (map fst cs) @ '' ) VALUES ( '' @ quoted_id g @ '', ''
       @ comma_list (map snd cs) @ '' ) ON CONFLICT (\"gid\") DO UPDATE SET '' @ assignments cs @ set_now @ '';'')"
| "query_of esc (Q_config g) =
    ''SELECT \"autoplay_state\", \"autoplay_threshold\", \"loop_mode\", \"fx_states\" FROM \"guilds_player_config\" WHERE \"gid\" = ''
      @ quoted_id g @ '';''"
| "query_of esc (Q_auth u) = ''SELECT \"raw\" FROM \"auths\" WHERE \"uid\" = '' @ quoted_id u @ '';''"
| "query_of esc (Q_update_auth u values) = upsert ''auths'' ''uid'' (esc values) (quoted_id u)"
| "query_of esc (Q_delete_auth u) = ''DELETE FROM \"auths\" WHERE \"uid\" = '' @ quoted_id u @ '';''"
| "query_of esc Q_preset_names = ''SELECT \"name\" FROM \"equalizer_presets\";''"
| "query_of esc (Q_preset name) =
    ''SELECT \"value\", \"name\" FROM \"equalizer_presets\" WHERE \"name\" = '' @ esc name @ '';''"
| "query_of esc (Q_create_preset name v u) =
    ''INSERT INTO \"equalizer_presets\" (\"uid\", \"value\", \"name\") VALUES ('' @ quoted_id u @ '', '' @ esc v @ '', '' @ esc name @ '');''"

section \<open>The functions\<close>

type_synonym 's pg_exec = "string \<Rightarrow> 's \<Rightarrow> pg_result option \<times> 's"

definition db_exec :: "'s pg_exec \<Rightarrow> (string \<Rightarrow> string) \<Rightarrow> db_call \<Rightarrow> 's \<Rightarrow> pg_result option \<times> 's" where
  "db_exec ex esc c s = ex (query_of esc c) s"

definition fetch_result :: "'s pg_exec \<Rightarrow> (string \<Rightarrow> string) \<Rightarrow> db_call \<Rightarrow> 's \<Rightarrow> (pg_result option \<times> int) \<times> 's" where
  "fetch_result ex esc c s = (case db_exec ex esc c s of (res, s1) \<Rightarrow> ((res, check_status res), s1))"

definition exec_status :: "'s pg_exec \<Rightarrow> (string \<Rightarrow> string) \<Rightarrow> db_call \<Rightarrow> 's \<Rightarrow> int \<times> 's" where
  "exec_status ex esc c s = (case db_exec ex esc c s of (res, s1) \<Rightarrow> (check_status res, s1))"

text \<open>Deleting reports an error when no row was returned.\<close>

definition delete_returning :: "'s pg_exec \<Rightarrow> (string \<Rightarrow> string) \<Rightarrow> db_call \<Rightarrow> 's \<Rightarrow> int \<times> 's" where
  "delete_returning ex esc c s =
    (case db_exec ex esc c s of (res, s1) \<Rightarrow> (if pq_value res 0 0 \<noteq> None then check_status res else PGRES_FATAL_ERROR, s1))"

definition get_all_user_playlist ::
  "'s pg_exec \<Rightarrow> (string \<Rightarrow> string) \<Rightarrow> snowflake \<Rightarrow> get_user_playlist_type \<Rightarrow> 's \<Rightarrow> (pg_result option \<times> int) \<times> 's" where
  "get_all_user_playlist ex esc u t s = (if u = 0 then ((None, - 1), s) else fetch_result ex esc (Q_all_playlists u t) s)"

definition get_user_playlist ::
  "'s pg_exec \<Rightarrow> (string \<Rightarrow> string) \<Rightarrow> snowflake \<Rightarrow> string \<Rightarrow> get_user_playlist_type \<Rightarrow> 's \<Rightarrow> (pg_result option \<times> int) \<times> 's" where
  "get_user_playlist ex esc u name t s =
    (if u = 0 then ((None, - 1), s) else if name = [] then ((None, - 3), s)
     else fetch_result ex esc (Q_playlist u name t) s)"

definition update_user_playlist ::
  "'s pg_exec \<Rightarrow> (string \<Rightarrow> string) \<Rightarrow> (json \<Rightarrow> string) \<Rightarrow> snowflake \<Rightarrow> string \<Rightarrow> MCTrack list \<Rightarrow> 's \<Rightarrow> (int \<times> 's) result" where
  "update_user_playlist ex esc dump u name playlist s =
    (if u = 0 then Inr (- 1, s)
     else bind_result (convert_playlist_to_json playlist) (\<lambda>jso.
       case db_exec ex esc (Q_update_playlist u name (dump jso)) s of
         (res, s1) \<Rightarrow>
           if pq_value res 0 0 \<noteq> None then Inr (PGRES_COMMAND_OK, s1)
           else Inr (exec_status ex esc (Q_insert_playlist u name (dump jso)) s1)))"

definition delete_user_playlist :: "'s pg_exec \<Rightarrow> (string \<Rightarrow> string) \<Rightarrow> snowflake \<Rightarrow> string \<Rightarrow> 's \<Rightarrow> int \<times> 's" where
  "delete_user_playlist ex esc u name s = (if u = 0 then (- 1, s) else delete_returning ex esc (Q_delete_playlist u name) s)"

definition update_guild_current_queue ::
  "'s pg_exec \<Rightarrow> (string \<Rightarrow> string) \<Rightarrow> (json \<Rightarrow> string) \<Rightarrow> snowflake \<Rightarrow> MCTrack list \<Rightarrow> 's \<Rightarrow> (int \<times> 's) result" where
  "update_guild_current_queue ex esc dump g playlist s =
    (if g = 0 then Inr (- 1, s) else if playlist = [] then Inr (- 2, s)
     else bind_result (convert_playlist_to_json playlist) (\<lambda>jso. Inr (exec_status ex esc (Q_update_queue g (dump jso)) s)))"

definition get_guild_current_queue :: "'s pg_exec \<Rightarrow> (string \<Rightarrow> string) \<Rightarrow> snowflake \<Rightarrow> 's \<Rightarrow> (pg_result option \<times> int) \<times> 's" where
  "get_guild_current_queue ex esc g s = (if g = 0 then ((None, - 1), s) else fetch_result ex esc (Q_queue g) s)"

definition delete_guild_current_queue :: "'s pg_exec \<Rightarrow> (string \<Rightarrow> string) \<Rightarrow> snowflake \<Rightarrow> 's \<Rightarrow> int \<times> 's" where
  "delete_guild_current_queue ex esc g s = (if g = 0 then (- 1, s) else delete_returning ex esc (Q_delete_queue g) s)"

definition update_guild_player_config ::
  "'s pg_exec \<Rightarrow> (string \<Rightarrow> string) \<Rightarrow> (json \<Rightarrow> string) \<Rightarrow> snowflake \<Rightarrow> bool option \<Rightarrow> int option \<Rightarrow> loop_mode_t option \<Rightarrow> json
    \<Rightarrow> 's \<Rightarrow> int \<times> 's" where
  "update_guild_player_config ex esc dump g st th lm fx s =
    (if g = 0 then (- 1, s)
     else if st = None \<and> th = None \<and> lm = None \<and> \<not> is_object fx then (- 2, s)
     else exec_status ex esc (Q_update_config g st th lm (if is_object fx then Some (dump fx) else None)) s)"

definition get_guild_player_config :: "'s pg_exec \<Rightarrow> (string \<Rightarrow> string) \<Rightarrow> snowflake \<Rightarrow> 's \<Rightarrow> (pg_result option \<times> int) \<times> 's" where
  "get_guild_player_config ex esc g s = (if g = 0 then ((None, - 1), s) else fetch_result ex esc (Q_config g) s)"

text \<open>\<open>atoi\<close>: zero for a text without a number.\<close>

definition atoi :: "string \<Rightarrow> int" where
  "atoi s = (case parse_dec s of Some i \<Rightarrow> i | None \<Rightarrow> 0)"

definition parse_loop_mode :: "string \<Rightarrow> loop_mode_t" where
  "parse_loop_mode s = (let tp = atoi s in if tp = 1 then l_song else if tp = 2 then l_queue else if tp = 3 then l_song_queue else l_none)"

lemma parse_loop_mode_digits:
  "parse_loop_mode ''0'' = l_none" "parse_loop_mode ''1'' = l_song" "parse_loop_mode ''2'' = l_queue"
  "parse_loop_mode ''3'' = l_song_queue"
  by code_simp+

lemma parse_stringify_loop_mode: "parse_loop_mode (stringify_loop_mode m) = m"
  by (cases m) (simp_all add: stringify_loop_mode_def parse_loop_mode_digits)

definition parse_guild_player_config :: "(string \<Rightarrow> json option) \<Rightarrow> pg_result option \<Rightarrow> player_config \<times> int" where
  "parse_guild_player_config parse res =
    (let st = (pq_value res 0 0 = Some ''t'');
         fx = Option.bind (pq_value res 0 3) parse
     in (\<lparr>pc_loop_mode = (case pq_value res 0 2 of Some v \<Rightarrow> parse_loop_mode v | None \<Rightarrow> l_none),
          pc_autoplay_threshold = (case pq_value res 0 1 of Some v \<Rightarrow> atoi v | None \<Rightarrow> 0),
          pc_autoplay_state = st, pc_fx_states = (case fx of Some j \<Rightarrow> j | None \<Rightarrow> JNull)\<rparr>,
         if st \<or> pq_value res 0 1 \<noteq> None \<or> pq_value res 0 2 \<noteq> None \<or> fx \<noteq> None then 0 else 1))"

definition get_user_auth :: "'s pg_exec \<Rightarrow> (string \<Rightarrow> string) \<Rightarrow> snowflake \<Rightarrow> 's \<Rightarrow> (pg_result option \<times> int) \<times> 's" where
  "get_user_auth ex esc u s = (if u = 0 then ((None, - 1), s) else fetch_result ex esc (Q_auth u) s)"

definition get_user_auth_json :: "(string \<Rightarrow> json option) \<Rightarrow> pg_result option \<Rightarrow> json \<times> int" where
  "get_user_auth_json parse res =
    (case pq_value res 0 0 of
       None \<Rightarrow> (JNull, - 2)
     | Some v \<Rightarrow> (case parse v of None \<Rightarrow> (JNull, - 1) | Some j \<Rightarrow> (j, 0)))"

text \<open>The number of members or elements; a value that is neither has one, null has none.\<close>

fun json_size :: "json \<Rightarrow> nat" where
  "json_size JNull = 0"
| "json_size (JArr js) = length js"
| "json_size (JObj kv) = length kv"
| "json_size _ = 1"

definition update_user_auth ::
  "'s pg_exec \<Rightarrow> (string \<Rightarrow> string) \<Rightarrow> (json \<Rightarrow> string) \<Rightarrow> snowflake \<Rightarrow> json \<Rightarrow> 's \<Rightarrow> int \<times> 's" where
  "update_user_auth ex esc dump u data s =
    (if u = 0 then (- 1, s) else if json_size data = 0 then (- 2, s) else exec_status ex esc (Q_update_auth u (dump data)) s)"

definition delete_user_auth :: "'s pg_exec \<Rightarrow> (string \<Rightarrow> string) \<Rightarrow> snowflake \<Rightarrow> 's \<Rightarrow> int \<times> 's" where
  "delete_user_auth ex esc u s = (if u = 0 then (- 1, s) else exec_status ex esc (Q_delete_auth u) s)"

definition get_all_equalizer_preset_name :: "'s pg_exec \<Rightarrow> (string \<Rightarrow> string) \<Rightarrow> 's \<Rightarrow> (pg_result option \<times> int) \<times> 's" where
  "get_all_equalizer_preset_name ex esc s = fetch_result ex esc Q_preset_names s"

definition get_equalizer_preset ::
  "'s pg_exec \<Rightarrow> (string \<Rightarrow> string) \<Rightarrow> string \<Rightarrow> 's \<Rightarrow> ((string \<times> string) \<times> int) \<times> 's" where
  "get_equalizer_preset ex esc name s =
    (if name = [] then ((([], []), - 1), s)
     else case fetch_result ex esc (Q_preset name) s of ((res, status), s1) \<Rightarrow>
       let field = (\<lambda>c. case pq_value res 0 c of Some v \<Rightarrow> v | None \<Rightarrow> [])
       in (((field 0, field 1), status), s1))"

definition create_equalizer_preset ::
  "'s pg_exec \<Rightarrow> (string \<Rightarrow> string) \<Rightarrow> string \<Rightarrow> string \<Rightarrow> snowflake \<Rightarrow> 's \<Rightarrow> int \<times> 's" where
  "create_equalizer_preset ex esc name v u s =
    (if name = [] \<or> v = [] \<or> u = 0 then (- 1, s) else exec_status ex esc (Q_create_preset name v u) s)"


section \<open>Texts stay literals\<close>

text \<open>How the server reads a query: a literal goes from a single quote, or from an escape prefix, to
  the next single quote that is not doubled. \<open>skel\<close> is the query with a question mark for each literal.\<close>

fun lit_rest :: "string \<Rightarrow> string" where
  "lit_rest [] = []"
| "lit_rest [c] = []"
| "lit_rest (c # d # cs) = (if c = CHR 0x27 then if d = CHR 0x27 then lit_rest cs else d # cs else lit_rest (d # cs))"

lemma lit_rest_length: "length (lit_rest s) \<le> length s"
  by (induction s rule: lit_rest.induct) auto

function skel :: "string \<Rightarrow> string" where
  "skel [] = []"
| "skel (c # cs) =
    (if c = CHR 0x27 then CHR ''?'' # skel (lit_rest cs)
     else if c = CHR '' '' \<and> take 2 cs = [CHR ''E'', CHR 0x27] then CHR ''?'' # skel (lit_rest (drop 2 cs))
     else c # skel cs)"
  by pat_completeness auto

termination
  by (relation "measure length") (auto simp: le_imp_less_Suc lit_rest_length intro!: le_imp_less_Suc order_trans [OF lit_rest_length])

text \<open>What escaping makes of a text: a literal, with its quotes doubled.\<close>

fun doubled :: "string \<Rightarrow> bool" where
  "doubled [] = True"
| "doubled [c] = (c \<noteq> CHR 0x27)"
| "doubled (c # d # cs) = (if c = CHR 0x27 then d = CHR 0x27 \<and> doubled cs else doubled (d # cs))"

definition is_lit :: "string \<Rightarrow> bool" where
  "is_lit w \<longleftrightarrow> (\<exists>body. doubled body \<and> (w = sq @ body @ sq \<or> w = '' E'' @ sq @ body @ sq))"

definition starts_q :: "string \<Rightarrow> bool" where
  "starts_q s \<longleftrightarrow> take 1 s = sq"

lemma lit_rest_doubled: "doubled body \<Longrightarrow> \<not> starts_q rest \<Longrightarrow> lit_rest (body @ CHR 0x27 # rest) = rest"
proof (induction body rule: doubled.induct)
  case 1
  then show ?case by (cases rest) (auto simp: starts_q_def sq_def)
next
  case (2 c)
  then show ?case by (cases rest) (auto simp: starts_q_def sq_def)
next
  case (3 c d cs)
  then show ?case by auto
qed

text \<open>A part of a query without quotes.\<close>

definition plain :: "string \<Rightarrow> bool" where
  "plain s \<longleftrightarrow> CHR 0x27 \<notin> set s \<and> take 2 (rev s) \<noteq> ''E ''"

lemma skel_plain: "plain pre \<Longrightarrow> take 1 rest \<noteq> ''E'' \<Longrightarrow> skel (pre @ rest) = pre @ skel rest"
proof (induction pre)
  case (Cons c pre)
  have p: "plain pre" using Cons.prems(1) by (cases "length pre < 2") (auto simp: plain_def)
  have "\<not> (c = CHR '' '' \<and> take 2 (pre @ rest) = [CHR ''E'', CHR 0x27])"
  proof
    assume a: "c = CHR '' '' \<and> take 2 (pre @ rest) = [CHR ''E'', CHR 0x27]"
    show False
    proof (cases pre)
      case Nil
      then show False using a Cons.prems(2) by (cases rest) auto
    next
      case (Cons d ds)
      then show False using a Cons.prems \<open>plain (c # pre)\<close> by (cases ds) (auto simp: plain_def)
    qed
  qed
  then show ?case using Cons.IH [OF p Cons.prems(2)] Cons.prems(1) by (auto simp: plain_def)
qed simp

lemma is_lit_start: "is_lit w \<Longrightarrow> take 1 (w @ rest) \<noteq> ''E''"
  by (auto simp: is_lit_def sq_def)

lemma skel_is_lit: "is_lit w \<Longrightarrow> \<not> starts_q rest \<Longrightarrow> skel (w @ rest) = CHR ''?'' # skel rest"
  by (auto simp: is_lit_def sq_def lit_rest_doubled)

lemma skel_lit:
  "plain pre \<Longrightarrow> is_lit w \<Longrightarrow> \<not> starts_q rest \<Longrightarrow> skel (pre @ w @ rest) = pre @ CHR ''?'' # skel rest"
  using skel_plain [of pre "w @ rest"] skel_is_lit is_lit_start by simp

lemma doubled_no_quote: "CHR 0x27 \<notin> set s \<Longrightarrow> doubled s"
  by (induction s rule: doubled.induct) auto

lemma sf_str_no_quote: "CHR 0x27 \<notin> set (sf_str i)"
proof -
  have "\<not> is_digit (CHR 0x27)" by code_simp
  then show ?thesis using nat_str_not_sign [of "CHR 0x27" "unat i"] by (auto simp: sf_str_def)
qed

lemma is_lit_id: "is_lit (quoted_id i)"
  using doubled_no_quote [OF sf_str_no_quote] by (auto simp: is_lit_def quoted_id_def)

text \<open>The same call without its texts and ids.\<close>

fun no_text :: "db_call \<Rightarrow> db_call" where
  "no_text (Q_all_playlists u t) = Q_all_playlists 0 t"
| "no_text (Q_playlist u n t) = Q_playlist 0 [] t"
| "no_text (Q_update_playlist u n v) = Q_update_playlist 0 [] []"
| "no_text (Q_insert_playlist u n v) = Q_insert_playlist 0 [] []"
| "no_text (Q_delete_playlist u n) = Q_delete_playlist 0 []"
| "no_text (Q_update_queue g v) = Q_update_queue 0 []"
| "no_text (Q_queue g) = Q_queue 0"
| "no_text (Q_delete_queue g) = Q_delete_queue 0"
| "no_text (Q_update_config g st th lm fx) = Q_update_config 0 st th lm (map_option (\<lambda>_. []) fx)"
| "no_text (Q_config g) = Q_config 0"
| "no_text (Q_auth u) = Q_auth 0"
| "no_text (Q_update_auth u v) = Q_update_auth 0 []"
| "no_text (Q_delete_auth u) = Q_delete_auth 0"
| "no_text Q_preset_names = Q_preset_names"
| "no_text (Q_preset n) = Q_preset []"
| "no_text (Q_create_preset n v u) = Q_create_preset [] [] 0"

lemma starts_q_Cons: "starts_q (c # cs) = (c = CHR 0x27)"
  by (simp add: starts_q_def sq_def)

lemma take2_lit: "is_lit w \<Longrightarrow> take 2 (w @ s) = [CHR ''E'', x] \<longleftrightarrow> False"
  by (auto simp: is_lit_def sq_def)

lemmas skel_rules = skel_is_lit is_lit_id take2_lit starts_q_Cons

lemma is_lit_not_Nil: "is_lit w \<Longrightarrow> w \<noteq> []"
  by (auto simp: is_lit_def sq_def)

text \<open>The columns of a guild's settings, with the one that holds a text apart.\<close>

definition config_scalars :: "bool option \<Rightarrow> int option \<Rightarrow> loop_mode_t option \<Rightarrow> (string \<times> string) list" where
  "config_scalars st th lm = config_columns (\<lambda>t. t) st th lm None"

definition no_quotes :: "(string \<times> string) list \<Rightarrow> bool" where
  "no_quotes cs \<longleftrightarrow> (\<forall>c \<in> set cs. CHR 0x27 \<notin> set (fst c) \<and> CHR 0x27 \<notin> set (snd c))"

lemma config_scalars_no_quotes: "no_quotes (config_scalars st th lm)"
proof -
  have "\<not> is_digit (CHR 0x27)" by code_simp
  then have "CHR 0x27 \<notin> set (int_str i)" for i
    using nat_str_not_sign by (auto simp: int_str_def dec_str_nat_str split: if_splits)
  moreover have "CHR 0x27 \<notin> set (stringify_loop_mode m)" for m by (cases m) (simp_all add: stringify_loop_mode_def)
  ultimately show ?thesis by (auto simp: no_quotes_def config_scalars_def config_columns_def split: option.splits)
qed

lemma config_columns_split:
  "config_columns esc st th lm None = config_scalars st th lm"
  "esc j \<noteq> [] \<Longrightarrow> config_columns esc st th lm (Some j) = config_scalars st th lm @ [(''\"fx_states\"'', esc j)]"
  by (simp_all add: config_columns_def config_scalars_def)

lemma comma_list_no_quote: "(\<And>x. x \<in> set xs \<Longrightarrow> CHR 0x27 \<notin> set x) \<Longrightarrow> CHR 0x27 \<notin> set (comma_list xs)"
  by (induction xs rule: comma_list.induct) auto

lemma assignments_no_quote: "no_quotes cs \<Longrightarrow> CHR 0x27 \<notin> set (assignments cs)"
  by (induction cs rule: assignments.induct) (auto simp: no_quotes_def)

lemma comma_list_snoc: "comma_list (xs @ [y]) = (if xs = [] then [] else comma_list xs @ '', '') @ y"
  by (induction xs rule: comma_list.induct) auto

lemma assignments_append: "assignments (xs @ ys) = assignments xs @ assignments ys"
  by (induction xs rule: assignments.induct) auto

lemma plain_end: "CHR 0x27 \<notin> set a \<Longrightarrow> plain b \<Longrightarrow> 2 \<le> length b \<Longrightarrow> plain (a @ b)"
  by (auto simp: plain_def)

lemma config_query_text:
  assumes "\<And>t. is_lit (esc t)" and tf_def: "tf = config_scalars st th lm"
  shows "skel (query_of esc (Q_update_config g st th lm (Some j))) =
    (''INSERT INTO \"guilds_player_config\" ( \"gid\", '' @ comma_list (map fst tf @ [''\"fx_states\"'']) @ '' ) VALUES ( '')
      @ CHR ''?'' # ('', '' @ (if tf = [] then [] else comma_list (map snd tf) @ '', ''))
      @ CHR ''?'' # ('' ) ON CONFLICT (\"gid\") DO UPDATE SET '' @ assignments tf @ ''\"fx_states\" = '')
      @ CHR ''?'' # skel ('', '' @ set_now @ '';'')" (is "_ = ?A @ CHR ''?'' # ?B @ CHR ''?'' # ?C @ CHR ''?'' # skel ?D")
proof -
  have nq: "no_quotes tf" unfolding tf_def by (rule config_scalars_no_quotes)
  have q: "query_of esc (Q_update_config g st th lm (Some j)) = ?A @ quoted_id g @ ?B @ esc j @ ?C @ esc j @ ?D"
    using is_lit_not_Nil [OF assms(1)] by (simp add: config_columns_split tf_def comma_list_snoc assignments_append Let_def)
  have A: "plain ?A"
    using nq comma_list_no_quote [of "map fst tf @ [''\"fx_states\"'']"]
    by (simp only: append_assoc [symmetric]) (rule plain_end; fastforce simp: no_quotes_def plain_def)
  have B: "plain ?B"
    using nq comma_list_no_quote [of "map snd tf"] plain_end [of "'', '' @ comma_list (map snd tf)" "'', ''"]
    by (auto simp: no_quotes_def plain_def)
  have C: "plain ?C"
    using assignments_no_quote [OF nq]
    by (simp only: append_assoc [symmetric]) (rule plain_end; auto simp: plain_def)
  have s: "\<not> starts_q (?B @ r)" "\<not> starts_q (?C @ r)" "\<not> starts_q ?D" for r
    by (simp_all add: starts_q_def sq_def)
  show ?thesis
    unfolding q using skel_lit [OF A is_lit_id s(1)] skel_lit [OF B assms(1) s(2)] skel_lit [OF C assms(1) s(3)] by metis
qed

lemma config_query_plain:
  "skel (query_of esc (Q_update_config g st th lm None)) = skel (query_of esc (Q_update_config h st th lm None))"
proof -
  define tf where "tf = config_scalars st th lm"
  define A where "A = (''INSERT INTO \"guilds_player_config\" ( \"gid\", '' @ comma_list (map fst tf)) @ '' ) VALUES ( ''"
  define B where "B = '', '' @ comma_list (map snd tf) @ '' ) ON CONFLICT (\"gid\") DO UPDATE SET '' @ assignments tf @ set_now @ '';''"
  have q: "query_of esc (Q_update_config i st th lm None) = A @ quoted_id i @ B" for i
    by (simp add: config_columns_split tf_def Let_def A_def B_def)
  have nq: "no_quotes tf" unfolding tf_def by (rule config_scalars_no_quotes)
  have A: "plain A" unfolding A_def
    using nq comma_list_no_quote [of "map fst tf"] by (intro plain_end) (auto simp: no_quotes_def plain_def)
  have "\<not> starts_q B" by (simp add: starts_q_def sq_def B_def)
  then show ?thesis unfolding q using skel_lit [OF A is_lit_id] by simp
qed

text \<open>C9: Texts never become SQL. When escaping returns a literal, the query that a function sends has the same
  structure for every name, JSON text and id: replacing each literal by a question mark leaves the
  same query as for empty texts.\<close>

theorem db_text_stays_literal:
  assumes "\<And>t. is_lit (esc t)"
  shows "skel (query_of esc c) = skel (query_of esc (no_text c))"
proof (cases c)
  case (Q_update_config g st th lm fx)
  then show ?thesis
    by (cases fx) (simp_all add: config_query_plain [of esc g st th lm 0] config_query_text [OF assms refl] del: query_of.simps)
qed (simp_all add: skel_rules upsert_def set_now_def gup_column_def assms del: take_append drop_append split: get_user_playlist_type.splits)

text \<open>Escaping that doubles the quotes, as libpq does for a text without backslashes.\<close>

fun double_quotes :: "string \<Rightarrow> string" where
  "double_quotes [] = []"
| "double_quotes (c # cs) = (if c = CHR 0x27 then CHR 0x27 # CHR 0x27 # double_quotes cs else c # double_quotes cs)"

definition escape_plain :: "string \<Rightarrow> string" where
  "escape_plain t = sq @ double_quotes t @ sq"

lemma doubled_quotes: "doubled (double_quotes t)"
proof (induction t)
  case (Cons c t)
  have "c \<noteq> CHR 0x27 \<Longrightarrow> doubled ts \<Longrightarrow> doubled (c # ts)" for ts by (cases ts) auto
  then show ?case using Cons by simp
qed simp

lemma escape_plain_is_lit: "is_lit (escape_plain t)"
  using doubled_quotes by (auto simp: is_lit_def escape_plain_def)

theorem db_text_stays_literal_witness:
  "skel (query_of escape_plain (Q_delete_playlist 7 (''x'' @ sq @ ''; DROP TABLE auths; --'')))
    = skel (query_of escape_plain (Q_delete_playlist 0 []))"
  using db_text_stays_literal [of escape_plain "Q_delete_playlist 7 (''x'' @ sq @ ''; DROP TABLE auths; --'')", OF escape_plain_is_lit]
  by (simp only: no_text.simps)

end
