(* ===== verification/Processor.thy ===== *)
theory Processor
  imports ChildCommand EqualizerFx
begin

text \<open>
  The audio processing child: \<open>src/musicat/audio_processing.cpp\<close> and \<open>src/musicat/helper_processor.cpp\<close>.
  One ffmpeg process decodes a file, others, the helpers, apply one effect each. The child reads the
  sound from the first, passes it through the chain of helpers by their pipes and writes it to the
  FIFO of the main process. The calls of the operating system are the functions of the record \<open>os\<close>;
  what was read from and written to each descriptor is recorded in the order it happened.
\<close>

section \<open>The wanted chain\<close>

record helper_chain_option_t =
  hc_raw_args :: string
  hc_debug :: bool
  hc_parsed :: bool
  hc_first_chain :: bool
  hc_final_chain :: bool

text \<open>The loop over the text \<open>s\<close>: \<open>i\<close> is the index, \<open>start_d\<close> the start of an entry or 0.\<close>

fun chain_option_loop :: "string \<Rightarrow> bool \<Rightarrow> nat \<Rightarrow> nat \<Rightarrow> string \<Rightarrow> helper_chain_option_t list" where
  "chain_option_loop s dbg i start_d [] = []"
| "chain_option_loop s dbg i start_d (c # cs) =
    (if start_d \<noteq> 0 \<and> start_d = i \<and> c = CHR ''!'' then chain_option_loop s dbg (i + 1) (start_d + 1) cs
     else if c \<noteq> CHR ''@'' then chain_option_loop s dbg (i + 1) start_d cs
     else if start_d = 0 then chain_option_loop s dbg (i + 1) (i + 1) cs
     else if i \<le> start_d then chain_option_loop s dbg (i + 1) 0 cs
     else \<lparr>hc_raw_args = substr s start_d (Some (i - start_d)), hc_debug = dbg, hc_parsed = False,
            hc_first_chain = (i = 0), hc_final_chain = (i = length s - 1)\<rparr>
          # chain_option_loop s dbg (i + 1) 0 cs)"

definition parse_helper_chain_option :: "command_options_t \<Rightarrow> helper_chain_option_t list" where
  "parse_helper_chain_option opts = chain_option_loop (op_helper_chain opts) (op_debug opts) 0 0 (op_helper_chain opts)"

text \<open>One entry: exclamation marks at its front are dropped, an empty one is no entry.\<close>

lemma chain_option_entry:
  "CHR ''@'' \<notin> set a \<Longrightarrow> s = pre @ a @ CHR ''@'' # rest \<Longrightarrow> pre \<noteq> [] \<Longrightarrow> i = length pre \<Longrightarrow>
    chain_option_loop s dbg i i (a @ CHR ''@'' # rest) =
      (let b = dropWhile (\<lambda>c. c = CHR ''!'') a
       in (if b = [] then [] else [\<lparr>hc_raw_args = b, hc_debug = dbg, hc_parsed = False, hc_first_chain = False,
             hc_final_chain = (rest = [])\<rparr>])
          @ chain_option_loop s dbg (i + length a + 1) 0 rest)"
proof (induction a arbitrary: pre i)
  case (Cons c a)
  show ?case
  proof (cases "c = CHR ''!''")
    case True
    then show ?thesis using Cons.IH [of "pre @ [c]" "Suc i"] Cons.prems by (simp add: Let_def)
  next
    case False
    have skip: "CHR ''@'' \<notin> set b \<Longrightarrow> i < j \<Longrightarrow>
      chain_option_loop s dbg j i (b @ CHR ''@'' # rest) = chain_option_loop s dbg (j + length b) i (CHR ''@'' # rest)" for b j
      by (induction b arbitrary: j) auto
    have "chain_option_loop s dbg i i ((c # a) @ CHR ''@'' # rest) = chain_option_loop s dbg (Suc i + length a) i (CHR ''@'' # rest)"
      using False Cons.prems skip [of a "Suc i"] by auto
    moreover have "substr s i (Some (Suc (length a))) = c # a" using Cons.prems by (simp add: substr_def)
    moreover have "Suc (i + length a) = length s - 1 \<longleftrightarrow> rest = []" using Cons.prems by auto
    moreover have "c \<noteq> CHR ''@''" using Cons.prems(1) by auto
    ultimately show ?thesis using False Cons.prems(2-) by (simp add: Let_def)
  qed
qed simp

definition chain_text :: "string list \<Rightarrow> string" where
  "chain_text args = concat (map (\<lambda>a. ''@'' @ a @ ''@'') args)"

lemma chain_option_loop_text:
  "(\<forall>a\<in>set args. CHR ''@'' \<notin> set a) \<Longrightarrow> s = pre @ chain_text args \<Longrightarrow>
    map hc_raw_args (chain_option_loop s dbg (length pre) 0 (chain_text args))
      = filter (\<lambda>b. b \<noteq> []) (map (dropWhile (\<lambda>c. c = CHR ''!'')) args)"
proof (induction args arbitrary: pre)
  case (Cons a args)
  have "chain_option_loop s dbg (length pre) 0 (chain_text (a # args))
    = chain_option_loop s dbg (length pre + 1) (length pre + 1) (a @ CHR ''@'' # chain_text args)"
    by (simp add: chain_text_def)
  also have "\<dots> = (let b = dropWhile (\<lambda>c. c = CHR ''!'') a
       in (if b = [] then [] else [\<lparr>hc_raw_args = b, hc_debug = dbg, hc_parsed = False, hc_first_chain = False,
             hc_final_chain = (chain_text args = [])\<rparr>])
          @ chain_option_loop s dbg (length pre + 1 + length a + 1) 0 (chain_text args))"
    using Cons.prems by (intro chain_option_entry [where pre = "pre @ ''@''"]) (auto simp: chain_text_def)
  finally show ?case
    using Cons.IH [of "pre @ ''@'' @ a @ ''@''"] Cons.prems by (simp add: chain_text_def Let_def)
qed (simp add: chain_text_def)

lemma chain_option_loop_unmarked: "\<forall>e\<in>set (chain_option_loop s dbg i st cs). hc_debug e = dbg \<and> \<not> hc_parsed e"
  by (induction s dbg i st cs rule: chain_option_loop.induct) (auto simp: Let_def)

text \<open>How the options of a command become that text.\<close>

lemma assign_helper_chain:
  "foldl (\<lambda>r a. bind_result r (\<lambda>st. assign_command_option_key_value st key_helper_chain a)) (Inr (opts, dbg)) args
    = Inr (opts\<lparr>op_helper_chain := op_helper_chain opts @ chain_text args\<rparr>, dbg)"
proof (induction args arbitrary: opts)
  case (Cons a args)
  have "assign_command_option_key_value (opts, dbg) key_helper_chain a
    = Inr (opts\<lparr>op_helper_chain := op_helper_chain opts @ ''@'' @ a @ ''@''\<rparr>, dbg)"
    by (simp add: assign_command_option_key_value_def command_options_keys_t)
  then show ?case using Cons.IH by (simp add: chain_text_def)
qed (simp add: chain_text_def)

text \<open>C20: The chain of effects that the main process asks for is the chain that the child builds. When a
  command carries one option per effect, none of them with an at sign, the child reads from the
  joined text one entry per effect, in the same order and with the same arguments; effects without
  arguments give none, and exclamation marks in front are dropped.\<close>

theorem helper_chain_options_exact:
  assumes "\<forall>a\<in>set args. CHR ''@'' \<notin> set a" and "op_helper_chain opts = []"
    and "foldl (\<lambda>r a. bind_result r (\<lambda>st. assign_command_option_key_value st key_helper_chain a)) (Inr (opts, dbg)) args
      = Inr (opts', dbg')"
  shows "map hc_raw_args (parse_helper_chain_option opts') = filter (\<lambda>b. b \<noteq> []) (map (dropWhile (\<lambda>c. c = CHR ''!'')) args)"
  using assms chain_option_loop_text [OF assms(1), of _ "[]"]
  by (auto simp: assign_helper_chain parse_helper_chain_option_def)

section \<open>The operating system\<close>

record revents =
  rv_in :: bool
  rv_out :: bool
  rv_hup :: bool
  rv_err :: bool
  rv_nval :: bool

text \<open>A descriptor is polled for reading (\<open>True\<close>) or for writing. A read gives no bytes at the end of the
  input and \<open>None\<close> for an error; a write gives the number of bytes accepted or a negative number.\<close>

record 's os =
  os_poll :: "(int \<times> bool) list \<Rightarrow> int \<Rightarrow> 's \<Rightarrow> (int \<times> revents list) \<times> 's"
  os_read :: "int \<Rightarrow> nat \<Rightarrow> 's \<Rightarrow> string option \<times> 's"
  os_write :: "int \<Rightarrow> string \<Rightarrow> 's \<Rightarrow> int \<times> 's"
  os_close :: "int \<Rightarrow> 's \<Rightarrow> 's"
  os_pipe :: "'s \<Rightarrow> (int \<times> int) option \<times> 's"
  os_fork :: "'s \<Rightarrow> int \<times> 's"
  os_sem_wait :: "'s \<Rightarrow> 's"
  os_waitpid :: "int \<Rightarrow> 's \<Rightarrow> int \<times> 's"
  os_open :: "string \<Rightarrow> 's \<Rightarrow> int \<times> 's"
  os_dup2 :: "int \<Rightarrow> int \<Rightarrow> 's \<Rightarrow> int \<times> 's"

text \<open>What was read, and what was given to each write with what the write returned. \<open>rd_bytes\<close> are the
  bytes read from a descriptor, \<open>off_bytes\<close> those that were given to its writes and \<open>wr_bytes\<close> those that
  the writes accepted.\<close>

datatype io = Rd int string | Wr int string int

fun rd_bytes :: "int \<Rightarrow> io list \<Rightarrow> string" where
  "rd_bytes fd [] = []"
| "rd_bytes fd (Rd x b # l) = (if x = fd then b else []) @ rd_bytes fd l"
| "rd_bytes fd (Wr x b n # l) = rd_bytes fd l"

fun wr_bytes :: "int \<Rightarrow> io list \<Rightarrow> string" where
  "wr_bytes fd [] = []"
| "wr_bytes fd (Wr x b n # l) = (if x = fd then take (nat n) b else []) @ wr_bytes fd l"
| "wr_bytes fd (Rd x b # l) = wr_bytes fd l"

fun off_bytes :: "int \<Rightarrow> io list \<Rightarrow> string" where
  "off_bytes fd [] = []"
| "off_bytes fd (Wr x b n # l) = (if x = fd then b else []) @ off_bytes fd l"
| "off_bytes fd (Rd x b # l) = off_bytes fd l"

fun writes_to :: "int \<Rightarrow> io list \<Rightarrow> (string \<times> int) list" where
  "writes_to fd [] = []"
| "writes_to fd (Wr x b n # l) = (if x = fd then [(b, n)] else []) @ writes_to fd l"
| "writes_to fd (Rd x b # l) = writes_to fd l"

text \<open>The calls that change which descriptors and processes there are.\<close>

datatype call = Closed int | Forked int | Waited int

record helper_chain_t =
  hp_write_fd :: int
  hp_read_fd :: int
  hp_pid :: int
  hp_options :: helper_chain_option_t

record 's processor =
  pr_os :: 's
  pr_io :: "io list"
  pr_calls :: "call list"
  pr_helpers :: "helper_chain_t list"
  pr_pending_read :: "int list"
  pr_pending_write :: "int list"
  pr_write_fifo :: int
  pr_notified :: bool
  pr_preadfd :: int
  pr_pwritefd :: int
  pr_cpid :: int

definition do_poll :: "'s os \<Rightarrow> (int \<times> bool) list \<Rightarrow> int \<Rightarrow> 's processor \<Rightarrow> (int \<times> revents list) \<times> 's processor" where
  "do_poll os fds t p = (case os_poll os fds t (pr_os p) of (r, s) \<Rightarrow> (r, p\<lparr>pr_os := s\<rparr>))"

definition do_read :: "'s os \<Rightarrow> int \<Rightarrow> nat \<Rightarrow> 's processor \<Rightarrow> string option \<times> 's processor" where
  "do_read os fd n p =
    (case os_read os fd n (pr_os p) of
       (r, s) \<Rightarrow> (r, p\<lparr>pr_os := s, pr_io := pr_io p @ (case r of None \<Rightarrow> [] | Some b \<Rightarrow> [Rd fd b])\<rparr>))"

definition do_write :: "'s os \<Rightarrow> int \<Rightarrow> string \<Rightarrow> 's processor \<Rightarrow> int \<times> 's processor" where
  "do_write os fd b p =
    (case os_write os fd b (pr_os p) of
       (n, s) \<Rightarrow> (n, p\<lparr>pr_os := s, pr_io := pr_io p @ [Wr fd b n]\<rparr>))"

definition do_close :: "'s os \<Rightarrow> int \<Rightarrow> 's processor \<Rightarrow> 's processor" where
  "do_close os fd p = p\<lparr>pr_os := os_close os fd (pr_os p), pr_calls := pr_calls p @ [Closed fd]\<rparr>"

definition do_waitpid :: "'s os \<Rightarrow> int \<Rightarrow> 's processor \<Rightarrow> 's processor" where
  "do_waitpid os pid p = p\<lparr>pr_os := snd (os_waitpid os pid (pr_os p)), pr_calls := pr_calls p @ [Waited pid]\<rparr>"

definition close_valid_fd :: "'s os \<Rightarrow> int \<Rightarrow> 's processor \<Rightarrow> 's processor" where
  "close_valid_fd os fd p = (if fd = - 1 then p else do_close os fd p)"

definition no_revents :: revents where
  "no_revents = \<lparr>rv_in = False, rv_out = False, rv_hup = False, rv_err = False, rv_nval = False\<rparr>"

definition rv_at :: "revents list \<Rightarrow> nat \<Rightarrow> revents" where
  "rv_at revs i = (if i < length revs then revs ! i else no_revents)"

definition BUFFER_SIZE :: nat where "BUFFER_SIZE = 4096"
definition PROCESSOR_BUFFER_SIZE :: nat where "PROCESSOR_BUFFER_SIZE = 4096"
definition MAX_SHUTDOWN_ITER :: nat where "MAX_SHUTDOWN_ITER = 50000"

section \<open>Writing to the main process\<close>

definition fifo_hup :: "int \<Rightarrow> revents list \<Rightarrow> bool" where
  "fifo_hup ev revs \<longleftrightarrow> ev \<noteq> 0 \<and> (rv_hup (rv_at revs 0) \<or> rv_err (rv_at revs 0))"

partial_function (option) write_loop ::
  "'s os \<Rightarrow> string \<Rightarrow> nat \<Rightarrow> bool \<Rightarrow> 's processor \<Rightarrow> (int \<times> 's processor) option" where
  "write_loop os buf written hup p =
    (if hup then Some (- 1, p)
     else case do_write os (pr_write_fifo p) (drop written buf) p of
       (n, p1) \<Rightarrow>
         if \<not> (n > 0 \<or> written < length buf) then Some (int written, p1)
         else if n < 0 then Some (- 1, p1)
         else case do_poll os [(pr_write_fifo p1, False)] 0 p1 of
           ((ev, revs), p2) \<Rightarrow> write_loop os buf (written + nat n) (fifo_hup ev revs) p2)"

definition notify_ready :: "'s os \<Rightarrow> 's processor \<Rightarrow> 's processor" where
  "notify_ready os p =
    (if pr_notified p then p
     else case write_command ''0'' 1 of
       None \<Rightarrow> p\<lparr>pr_notified := True\<rparr> | Some r \<Rightarrow> (snd (do_write os 1 r p))\<lparr>pr_notified := True\<rparr>)"

text \<open>\<open>write_stdout\<close> behind the chain. The buffer counts as used unless the result is \<open>- 1\<close>.\<close>

definition write_out :: "'s os \<Rightarrow> string \<Rightarrow> 's processor \<Rightarrow> (int \<times> 's processor) option" where
  "write_out os buf p =
    (if buf = [] then Some (0, p)
     else case do_poll os [(pr_write_fifo p, False)] 0 (notify_ready os p) of
       ((ev, revs), p1) \<Rightarrow> write_loop os buf 0 (fifo_hup ev revs) p1)"

section \<open>The chain of helpers\<close>

definition remove_pending :: "int \<Rightarrow> int list \<Rightarrow> int list" where
  "remove_pending fd vec = filter (\<lambda>x. x \<noteq> fd) vec"

definition add_pending :: "int \<Rightarrow> int list \<Rightarrow> int list" where
  "add_pending fd vec = (if fd \<in> set vec then vec else vec @ [fd])"

definition pass_buf :: "'s os \<Rightarrow> int \<Rightarrow> int \<Rightarrow> bool \<Rightarrow> 's processor \<Rightarrow> bool \<times> 's processor" where
  "pass_buf os ni_fd prev_fd discard p =
    (case do_read os ni_fd PROCESSOR_BUFFER_SIZE p of
       (r, p1) \<Rightarrow> (case r of
           None \<Rightarrow> (False, p1)
         | Some b \<Rightarrow> if b = [] then (False, p1)
             else let p2 = (if discard then p1 else snd (do_write os prev_fd b p1))
               in (True, p2\<lparr>pr_pending_read := remove_pending ni_fd (pr_pending_read p2),
                    pr_pending_write := remove_pending prev_fd (pr_pending_write p2)\<rparr>)))"

text \<open>Reading the last helper until nothing comes for five milliseconds: what was written, or \<open>- 1\<close>, and
  whether the descriptor counts as ready.\<close>

partial_function (option) read_first_loop ::
  "'s os \<Rightarrow> bool \<Rightarrow> int \<Rightarrow> bool \<Rightarrow> int \<Rightarrow> 's processor \<Rightarrow> ((int \<times> bool) \<times> 's processor) option" where
  "read_first_loop os discard fd ready written p =
    (if \<not> ready then Some ((written, False), p)
     else case do_read os fd BUFFER_SIZE p of
       (r, p1) \<Rightarrow> (case r of
           None \<Rightarrow> Some ((written, True), p1)
         | Some b \<Rightarrow>
             if b = [] then Some ((written, True), p1)
             else Option.bind (if discard then Some (1, p1) else write_out os b p1) (\<lambda>(n, p2).
               if n = - 1 then Some ((- 1, True), p2)
               else case do_poll os [(fd, True)] 5 p2 of
                 ((ev, revs), p3) \<Rightarrow>
                   read_first_loop os discard fd (ev > 0 \<and> rv_in (rv_at revs 0)) (if discard then 1 else written + n) p3)))"

definition read_first_fd_routine :: "'s os \<Rightarrow> int \<Rightarrow> bool \<Rightarrow> bool \<Rightarrow> 's processor \<Rightarrow> ((int \<times> bool) \<times> 's processor) option" where
  "read_first_fd_routine os fd ready discard p =
    Option.bind (read_first_loop os discard fd ready 0 p) (\<lambda>((written, ready1), p1).
      Some ((written, ready1),
        if written \<noteq> - 1 then p1\<lparr>pr_pending_read := remove_pending fd (pr_pending_read p1)\<rparr> else p1))"

text \<open>The variables of \<open>run_through_chain\<close>. \<open>cr_pfds\<close> are the descriptors with whether they are read; no
  descriptor is the null pointer. \<open>cr_size\<close> is the size that the caller sees.\<close>

record chain_run =
  cr_pfds :: "(int \<times> bool) list"
  cr_written :: int
  cr_first_ready :: bool
  cr_size :: nat
  cr_ori_written :: bool
  cr_last_hup :: bool
  cr_has_read :: bool

definition close_pfds_ni :: "'s os \<Rightarrow> nat \<Rightarrow> 's processor \<Rightarrow> chain_run \<Rightarrow> 's processor \<times> chain_run" where
  "close_pfds_ni os i p c =
    (case cr_pfds c ! i of
       (fd, rd) \<Rightarrow>
         (do_close os fd (if rd then p\<lparr>pr_pending_read := remove_pending fd (pr_pending_read p)\<rparr>
            else p\<lparr>pr_pending_write := remove_pending fd (pr_pending_write p)\<rparr>),
          c\<lparr>cr_pfds := take i (cr_pfds c) @ drop (Suc i) (cr_pfds c)\<rparr>))"

definition close_hup :: "'s os \<Rightarrow> nat \<Rightarrow> bool \<Rightarrow> 's processor \<Rightarrow> chain_run \<Rightarrow> 's processor \<times> chain_run" where
  "close_hup os i first_fd p c =
    (case close_pfds_ni os i p c of
       (p1, c1) \<Rightarrow> if first_fd then (p1, c1\<lparr>cr_last_hup := True\<rparr>)
         else if \<not> snd (cr_pfds c1 ! i) then close_pfds_ni os i p1 c1 else (p1, c1))"

text \<open>One descriptor of one round; the flag is whether the round goes on with the next lower one.\<close>

definition scan_one ::
  "'s os \<Rightarrow> string option \<Rightarrow> bool \<Rightarrow> revents list \<Rightarrow> nat \<Rightarrow> nat \<Rightarrow> 's processor \<Rightarrow> chain_run
    \<Rightarrow> (bool \<times> 's processor \<times> chain_run) option" where
  "scan_one os buf discard revs max_idx ni p c =
    (let read_idx = snd (cr_pfds c ! ni); ni_fd = fst (cr_pfds c ! ni); rv = rv_at revs ni;
         shutdown = (buf = None); first_fd = (ni = max_idx); last_fd = (ni = 0);
         prev_fd = fst (cr_pfds c ! (ni + 1)); prev_out = rv_out (rv_at revs (ni + 1));
         allow_read = (rv_in rv \<or> ni_fd \<in> set (pr_pending_read p));
         allow_write = (rv_out rv \<or> ni_fd \<in> set (pr_pending_write p))
     in if shutdown \<and> rv_hup rv \<and> \<not> allow_read \<and> \<not> allow_write then
          (case close_hup os ni first_fd p c of (p1, c1) \<Rightarrow> Some (False, p1, c1))
        else
          let c0 = (if shutdown \<and> \<not> cr_first_ready c \<and> allow_read \<and> first_fd then c\<lparr>cr_first_ready := True\<rparr> else c)
          in if read_idx \<and> allow_read then
               if first_fd then
                 Option.bind (read_first_fd_routine os ni_fd (cr_first_ready c0) discard p) (\<lambda>((written, ready), p1).
                   let c1 = c0\<lparr>cr_written := written, cr_first_ready := ready\<rparr>
                   in if written = - 1 then Some (False, p1, c1)
                      else Some (\<not> last_fd, p1, c1\<lparr>cr_has_read := written > 0\<rparr>))
               else if prev_out \<or> prev_fd \<in> set (pr_pending_write p) then
                 (case pass_buf os ni_fd prev_fd discard p of
                    (ok, p1) \<Rightarrow> Some (\<not> last_fd, p1, if ok then c0\<lparr>cr_has_read := True\<rparr> else c0))
               else Some (\<not> last_fd, p\<lparr>pr_pending_read := add_pending ni_fd (pr_pending_read p)\<rparr>, c0)
             else if \<not> read_idx \<and> allow_write then
               if last_fd \<and> cr_size c0 \<noteq> 0 then
                 if cr_ori_written c0 then Some (False, p, c0)
                 else (case do_write os ni_fd (case buf of Some b \<Rightarrow> b | None \<Rightarrow> []) p of
                   (_, p1) \<Rightarrow> Some (False, p1\<lparr>pr_pending_write := remove_pending ni_fd (pr_pending_write p1)\<rparr>,
                     c0\<lparr>cr_size := 0, cr_ori_written := True\<rparr>))
               else Some (\<not> last_fd, p\<lparr>pr_pending_write := add_pending ni_fd (pr_pending_write p)\<rparr>, c0)
             else if rv_hup rv \<or> rv_err rv \<or> rv_nval rv then
               Some (\<not> last_fd, if read_idx then p\<lparr>pr_pending_read := remove_pending ni_fd (pr_pending_read p)\<rparr>
                 else p\<lparr>pr_pending_write := remove_pending ni_fd (pr_pending_write p)\<rparr>, c0)
             else Some (\<not> last_fd, p, c0))"

fun scan_fds ::
  "'s os \<Rightarrow> string option \<Rightarrow> bool \<Rightarrow> revents list \<Rightarrow> nat \<Rightarrow> nat \<Rightarrow> 's processor \<Rightarrow> chain_run \<Rightarrow> ('s processor \<times> chain_run) option" where
  "scan_fds os buf discard revs max_idx 0 p c = map_option snd (scan_one os buf discard revs max_idx 0 p c)"
| "scan_fds os buf discard revs max_idx (Suc ni) p c =
    Option.bind (scan_one os buf discard revs max_idx (Suc ni) p c) (\<lambda>(go, p1, c1).
      if go then scan_fds os buf discard revs max_idx ni p1 c1 else Some (p1, c1))"

definition chain_done :: "bool \<Rightarrow> nat \<Rightarrow> chain_run \<Rightarrow> bool" where
  "chain_done shutdown iter c \<longleftrightarrow>
    cr_written c = - 1
    \<or> (if shutdown then cr_last_hup c \<or> iter \<ge> MAX_SHUTDOWN_ITER else cr_ori_written c) \<and> \<not> cr_has_read c"

text \<open>The result, with the size that is left in the caller's variable.\<close>

partial_function (option) chain_loop ::
  "'s os \<Rightarrow> string option \<Rightarrow> bool \<Rightarrow> nat \<Rightarrow> 's processor \<Rightarrow> chain_run \<Rightarrow> ((int \<times> nat) \<times> 's processor) option" where
  "chain_loop os buf discard iter p c =
    (if cr_pfds c = [] then Some ((cr_written c, cr_size c), p)
     else case do_poll os (cr_pfds c) 10 p of
       ((ev, revs), p1) \<Rightarrow>
         if ev = 0 \<and> pr_pending_read p1 = [] \<and> pr_pending_write p1 = [] then Some ((0, cr_size c), p1)
         else Option.bind (scan_fds os buf discard revs (length (cr_pfds c) - 1) (length (cr_pfds c) - 1) p1 (c\<lparr>cr_has_read := False\<rparr>))
           (\<lambda>(p2, c2).
             if chain_done (buf = None) (iter + 1) c2 then Some ((cr_written c2, cr_size c2), p2)
             else chain_loop os buf discard (iter + 1) p2 c2))"

definition close_first_write :: "'s os \<Rightarrow> 's processor \<Rightarrow> 's processor" where
  "close_first_write os p =
    (case pr_helpers p of
       [] \<Rightarrow> p
     | h # hs \<Rightarrow>
         (close_valid_fd os (hp_write_fd h) (p\<lparr>pr_pending_write := remove_pending (hp_write_fd h) (pr_pending_write p)\<rparr>))
           \<lparr>pr_helpers := h\<lparr>hp_write_fd := - 1\<rparr> # hs\<rparr>)"

definition helper_fds :: "helper_chain_t list \<Rightarrow> (int \<times> bool) list" where
  "helper_fds hs = concat (map (\<lambda>h. [(hp_write_fd h, False), (hp_read_fd h, True)]) hs)"

text \<open>\<open>buf\<close> is \<open>None\<close> to shut the chain down.\<close>

definition run_through_chain :: "'s os \<Rightarrow> string option \<Rightarrow> bool \<Rightarrow> 's processor \<Rightarrow> ((int \<times> nat) \<times> 's processor) option" where
  "run_through_chain os buf discard p =
    (let siz = (case buf of Some b \<Rightarrow> length b | None \<Rightarrow> 0)
     in if buf = Some [] then Some ((0, 0), p)
        else if pr_helpers p = [] then Some ((0, siz), p)
        else
          let p1 = (if buf = None then close_first_write os p else p);
              fds = (if buf = None then tl (helper_fds (pr_helpers p)) else helper_fds (pr_helpers p))
          in chain_loop os buf discard 0 p1
               \<lparr>cr_pfds = fds, cr_written = 0, cr_first_ready = True, cr_size = siz, cr_ori_written = False,
                cr_last_hup = False, cr_has_read = False\<rparr>)"

definition write_stdout :: "'s os \<Rightarrow> string \<Rightarrow> 's processor \<Rightarrow> ((int \<times> nat) \<times> 's processor) option" where
  "write_stdout os buf p =
    Option.bind (run_through_chain os (Some buf) False p) (\<lambda>((status, siz), p1).
      if status = - 1 then Some ((- 1, siz), p1)
      else if siz = 0 then Some ((0, 0), p1)
      else Option.bind (write_out os buf p1) (\<lambda>(ret, p2). Some ((ret, if ret = - 1 then siz else 0), p2)))"

section \<open>The chain is a pipeline\<close>

lemma rd_bytes_append [simp]: "rd_bytes fd (l @ m) = rd_bytes fd l @ rd_bytes fd m"
  by (induction fd l rule: rd_bytes.induct) auto

lemma wr_bytes_append [simp]: "wr_bytes fd (l @ m) = wr_bytes fd l @ wr_bytes fd m"
  by (induction fd l rule: wr_bytes.induct) auto

lemma off_bytes_append [simp]: "off_bytes fd (l @ m) = off_bytes fd l @ off_bytes fd m"
  by (induction fd l rule: off_bytes.induct) auto

lemma writes_to_append [simp]: "writes_to fd (l @ m) = writes_to fd l @ writes_to fd m"
  by (induction fd l rule: writes_to.induct) auto

text \<open>A write may be cut short or fail; a descriptor whose writes all took what they were given:\<close>

definition accepted :: "int \<Rightarrow> io list \<Rightarrow> bool" where
  "accepted fd l \<longleftrightarrow> (\<forall>(b, n)\<in>set (writes_to fd l). n = int (length b))"

lemma accepted_bytes: "accepted fd l \<Longrightarrow> wr_bytes fd l = off_bytes fd l"
  by (induction fd l rule: wr_bytes.induct) (auto simp: accepted_def)

text \<open>What is relied on: a write accepts no more than it is given, and a descriptor that is polled for
  reading is not reported as writable.\<close>

definition writes_bounded :: "'s os \<Rightarrow> bool" where
  "writes_bounded os \<longleftrightarrow> (\<forall>fd b s. fst (os_write os fd b s) \<le> int (length b))"



definition polls_requested :: "'s os \<Rightarrow> bool" where
  "polls_requested os \<longleftrightarrow> (\<forall>fds t s i. snd (fds ! i) \<longrightarrow> \<not> rv_out (rv_at (snd (fst (os_poll os fds t s))) i))"

text \<open>Steps that only use the descriptors \<open>rs\<close> and \<open>ws\<close> and leave the tables alone.\<close>

definition io_only :: "int set \<Rightarrow> int set \<Rightarrow> io list \<Rightarrow> bool" where
  "io_only rs ws l \<longleftrightarrow> (\<forall>e\<in>set l. case e of Rd fd b \<Rightarrow> fd \<in> rs | Wr fd b n \<Rightarrow> fd \<in> ws)"

lemma io_only_none:
  "io_only rs ws l \<Longrightarrow> fd \<notin> rs \<Longrightarrow> rd_bytes fd l = []" "io_only rs ws l \<Longrightarrow> fd \<notin> ws \<Longrightarrow> wr_bytes fd l = []"
  "io_only rs ws l \<Longrightarrow> fd \<notin> ws \<Longrightarrow> off_bytes fd l = []"
proof -
  show "io_only rs ws l \<Longrightarrow> fd \<notin> ws \<Longrightarrow> off_bytes fd l = []"
    by (induction fd l rule: off_bytes.induct) (auto simp: io_only_def)
  show "io_only rs ws l \<Longrightarrow> fd \<notin> rs \<Longrightarrow> rd_bytes fd l = []"
    by (induction fd l rule: rd_bytes.induct) (auto simp: io_only_def)
  show "io_only rs ws l \<Longrightarrow> fd \<notin> ws \<Longrightarrow> wr_bytes fd l = []"
    by (induction fd l rule: wr_bytes.induct) (auto simp: io_only_def)
qed

lemma io_only_append: "io_only rs ws (l @ m) \<longleftrightarrow> io_only rs ws l \<and> io_only rs ws m"
  by (auto simp: io_only_def)

lemma io_only_mono: "io_only rs ws l \<Longrightarrow> rs \<subseteq> rs' \<Longrightarrow> ws \<subseteq> ws' \<Longrightarrow> io_only rs' ws' l"
  by (fastforce simp: io_only_def split: io.splits)

definition same_tables :: "'s processor \<Rightarrow> 's processor \<Rightarrow> bool" where
  "same_tables p p' \<longleftrightarrow> pr_helpers p' = pr_helpers p \<and> pr_write_fifo p' = pr_write_fifo p
    \<and> pr_pending_read p' = pr_pending_read p \<and> pr_pending_write p' = pr_pending_write p"

lemma do_poll_same: "do_poll os fds t p = (r, p') \<Longrightarrow> pr_io p' = pr_io p \<and> same_tables p p'"
  by (auto simp: do_poll_def same_tables_def split: prod.split_asm)

lemma do_write_io:
  assumes "do_write os fd b p = (n, p')" and "writes_bounded os"
  shows "n \<le> int (length b) \<and> same_tables p p'
    \<and> (\<exists>m. pr_io p' = pr_io p @ m \<and> io_only {} {fd} m \<and> wr_bytes fd m = take (nat n) b)"
proof -
  have "n \<le> int (length b)"
    using assms by (auto simp: do_write_def writes_bounded_def split: prod.split_asm) (metis fst_conv)
  then show ?thesis using assms(1)
    by (auto simp: do_write_def same_tables_def io_only_def split: prod.split_asm if_split_asm)
qed

lemma do_write_offers:
  "do_write os fd b p = (n, p') \<Longrightarrow> same_tables p p'
    \<and> (\<exists>m. pr_io p' = pr_io p @ m \<and> io_only {} {fd} m \<and> off_bytes fd m = b)"
  by (auto simp: do_write_def same_tables_def io_only_def split: prod.split_asm)

lemma do_read_io:
  assumes "do_read os fd n p = (r, p')"
  shows "same_tables p p' \<and> (\<exists>m. pr_io p' = pr_io p @ m \<and> io_only {fd} {} m
    \<and> rd_bytes fd m = (case r of None \<Rightarrow> [] | Some b \<Rightarrow> b))"
  using assms by (auto simp: do_read_def same_tables_def io_only_def split: prod.split_asm option.splits)

lemma same_tables_trans: "same_tables p q \<Longrightarrow> same_tables q r \<Longrightarrow> same_tables p r"
  by (simp add: same_tables_def)

definition wrote :: "int \<Rightarrow> string \<Rightarrow> 's processor \<Rightarrow> int \<times> 's processor \<Rightarrow> bool" where
  "wrote fifo b p r \<longleftrightarrow> (case r of (n, p') \<Rightarrow> same_tables p p' \<and> (n = - 1 \<or> 0 \<le> n)
    \<and> (\<exists>m. pr_io p' = pr_io p @ m \<and> io_only {} {1, fifo} m \<and> (n \<noteq> - 1 \<longrightarrow> wr_bytes fifo m = b)))"

lemma wrote_after:
  assumes "same_tables p p1" and "pr_io p1 = pr_io p @ m" and "io_only {} {1, fifo} m" and "wrote fifo b p1 r"
  shows "wrote fifo (wr_bytes fifo m @ b) p r"
  using assms unfolding wrote_def same_tables_def by (fastforce simp: io_only_append)

lemma write_loop_wrote:
  assumes "write_loop os buf k hup p = Some r" and "writes_bounded os" and "k \<le> length buf"
  shows "wrote (pr_write_fifo p) (drop k buf) p r"
proof -
  let ?P = "\<lambda>os buf k hup (p :: 'a processor) r. writes_bounded os \<longrightarrow> k \<le> length buf \<longrightarrow> wrote (pr_write_fifo p) (drop k buf) p r"
  have "?P os buf k hup p r"
    using assms(1)
  proof (rule write_loop.raw_induct [where P = ?P, rotated], intro impI)
    fix f os buf k hup and p :: "'a processor" and r
    assume IH: "\<And>os buf k hup p r. f os buf k hup p = Some r \<Longrightarrow> ?P os buf k hup p r"
      and body: "(if hup then Some (- 1, p)
         else case do_write os (pr_write_fifo p) (drop k buf) p of
           (n, p1) \<Rightarrow>
             if \<not> (n > 0 \<or> k < length buf) then Some (int k, p1)
             else if n < 0 then Some (- 1, p1)
             else case do_poll os [(pr_write_fifo p1, False)] 0 p1 of
               ((ev, revs), p2) \<Rightarrow> f os buf (k + nat n) (fifo_hup ev revs) p2) = Some r"
      and wb: "writes_bounded os" and k: "k \<le> length buf"
    show "wrote (pr_write_fifo p) (drop k buf) p r"
    proof (cases hup)
      case True
      then show ?thesis using body by (auto simp: wrote_def same_tables_def io_only_def)
    next
      case False
      obtain n p1 where w: "do_write os (pr_write_fifo p) (drop k buf) p = (n, p1)" by (metis surj_pair)
      obtain m where m: "n \<le> int (length (drop k buf))" "same_tables p p1" "pr_io p1 = pr_io p @ m"
        "io_only {} {pr_write_fifo p} m" "wr_bytes (pr_write_fifo p) m = take (nat n) (drop k buf)"
        using do_write_io [OF w wb] by blast
      have m1: "io_only {} {1, pr_write_fifo p} m" using io_only_mono [OF m(4)] by auto
      consider (stop) "\<not> (n > 0 \<or> k < length buf)" "r = (int k, p1)" | (err) "n < 0" "r = (- 1, p1)"
        | (go) ev revs p2 where "0 \<le> n" "do_poll os [(pr_write_fifo p1, False)] 0 p1 = ((ev, revs), p2)"
          "f os buf (k + nat n) (fifo_hup ev revs) p2 = Some r"
        using body False w by (auto split: if_split_asm prod.split_asm)
      then show ?thesis
      proof cases
        case stop
        then show ?thesis using m m1 by (auto simp: wrote_def intro!: exI [of _ m])
      next
        case err
        then show ?thesis using m m1 by (auto simp: wrote_def)
      next
        case go
        have p: "pr_io p2 = pr_io p @ m" "same_tables p p2" "pr_write_fifo p2 = pr_write_fifo p"
          using do_poll_same [OF go(2)] m(2,3) by (auto simp: same_tables_def)
        have "k + nat n \<le> length buf" using m(1) go(1) k by simp
        then have "wrote (pr_write_fifo p) (drop (k + nat n) buf) p2 r" using IH [OF go(3)] wb p(3) by simp
        from wrote_after [OF p(2,1) m1 this] show ?thesis using append_take_drop_id [of "nat n" "drop k buf"] by (simp add: m(5) add.commute)
      qed
    qed
  qed
  then show ?thesis using assms by blast
qed

lemma write_out_wrote:
  assumes "write_out os b p = Some r" and "writes_bounded os" and "pr_write_fifo p \<noteq> 1"
  shows "wrote (pr_write_fifo p) b p r"
proof (cases "b = []")
  case True
  then show ?thesis using assms(1) by (auto simp: write_out_def wrote_def same_tables_def io_only_def)
next
  case False
  obtain ev revs p1 where q: "do_poll os [(pr_write_fifo p, False)] 0 (notify_ready os p) = ((ev, revs), p1)"
    by (metis surj_pair)
  have w: "write_loop os b 0 (fifo_hup ev revs) p1 = Some r" using assms(1) False q by (simp add: write_out_def)
  have "\<exists>m. same_tables p (notify_ready os p) \<and> pr_io (notify_ready os p) = pr_io p @ m \<and> io_only {} {1} m"
  proof (cases "write_command ''0'' 1")
    case None
    then show ?thesis by (auto simp: notify_ready_def same_tables_def io_only_def)
  next
    case (Some rec)
    obtain n p2 where d: "do_write os 1 rec p = (n, p2)" by (metis surj_pair)
    then show ?thesis using do_write_io [OF d assms(2)] Some
      by (auto simp: notify_ready_def same_tables_def io_only_def)
  qed
  then obtain m where m: "same_tables p (notify_ready os p)" "pr_io (notify_ready os p) = pr_io p @ m" "io_only {} {1} m"
    by blast
  have p1: "same_tables p p1" "pr_io p1 = pr_io p @ m" "pr_write_fifo p1 = pr_write_fifo p"
    using do_poll_same [OF q] m by (auto simp: same_tables_def)
  have "wr_bytes (pr_write_fifo p) m = []" using m(3) assms(3) io_only_none(2) by blast
  moreover have "wrote (pr_write_fifo p) b p1 r" using write_loop_wrote [OF w assms(2)] p1(3) by simp
  ultimately show ?thesis
    using wrote_after [OF p1(1,2) io_only_mono [OF m(3)]] by fastforce
qed

definition hears :: "int \<Rightarrow> int \<Rightarrow> 's processor \<Rightarrow> (int \<times> bool) \<times> 's processor \<Rightarrow> bool" where
  "hears fd fifo p r \<longleftrightarrow> (case r of ((n, ready), p') \<Rightarrow> same_tables p p' \<and> (n = - 1 \<or> 0 \<le> n)
    \<and> (\<exists>m. pr_io p' = pr_io p @ m \<and> io_only {fd} {1, fifo} m \<and> (n \<noteq> - 1 \<longrightarrow> wr_bytes fifo m = rd_bytes fd m)))"

lemma read_first_loop_hears:
  assumes "read_first_loop os False fd ready w p = Some r" and "writes_bounded os" and "pr_write_fifo p \<noteq> 1" and "0 \<le> w"
  shows "hears fd (pr_write_fifo p) p r"
proof -
  let ?P = "\<lambda>os d fd ready w (p :: 'a processor) r. \<not> d \<longrightarrow> writes_bounded os \<longrightarrow> pr_write_fifo p \<noteq> 1 \<longrightarrow> 0 \<le> w
    \<longrightarrow> hears fd (pr_write_fifo p) p r"
  have "?P os False fd ready w p r"
    using assms(1)
  proof (rule read_first_loop.raw_induct [where P = ?P, rotated], intro impI)
    fix f os d fd ready w and p :: "'a processor" and r
    assume IH: "\<And>os d fd ready w p r. f os d fd ready w p = Some r \<Longrightarrow> ?P os d fd ready w p r"
      and body: "(if \<not> ready then Some ((w, False), p)
         else case do_read os fd BUFFER_SIZE p of
           (r, p1) \<Rightarrow> (case r of
               None \<Rightarrow> Some ((w, True), p1)
             | Some b \<Rightarrow>
                 if b = [] then Some ((w, True), p1)
                 else Option.bind (if d then Some (1, p1) else write_out os b p1) (\<lambda>(n, p2).
                   if n = - 1 then Some ((- 1, True), p2)
                   else case do_poll os [(fd, True)] 5 p2 of
                     ((ev, revs), p3) \<Rightarrow> f os d fd (ev > 0 \<and> rv_in (rv_at revs 0)) (if d then 1 else w + n) p3))) = Some r"
      and d: "\<not> d" and wb: "writes_bounded os" and ff: "pr_write_fifo p \<noteq> 1" and w0: "0 \<le> w"
    let ?fifo = "pr_write_fifo p"
    show "hears fd ?fifo p r"
    proof (cases ready)
      case False
      then show ?thesis using body w0 by (auto simp: hears_def same_tables_def io_only_def)
    next
      case True
      obtain x p1 where x: "do_read os fd BUFFER_SIZE p = (x, p1)" by (metis surj_pair)
      obtain m where m: "same_tables p p1" "pr_io p1 = pr_io p @ m" "io_only {fd} {} m"
        "rd_bytes fd m = (case x of None \<Rightarrow> [] | Some b \<Rightarrow> b)"
        using do_read_io [OF x] by blast
      have wm: "wr_bytes ?fifo m = []" using io_only_none(2) [OF m(3)] by simp
      show ?thesis
      proof (cases "x = None \<or> x = Some []")
        case stop: True
        then have "r = ((w, True), p1)" using body True x by auto
        moreover have "rd_bytes fd m = []" using stop m(4) by auto
        ultimately show ?thesis using m w0 wm io_only_mono [OF m(3)] by (auto simp: hears_def)
      next
        case False
        then obtain b where b: "x = Some b" "b \<noteq> []" by (cases x) auto
        obtain n p2 where n: "write_out os b p1 = Some (n, p2)"
          using body True x b d by (cases "write_out os b p1") auto
        have fp1: "pr_write_fifo p1 = ?fifo" using m(1) by (simp add: same_tables_def)
        obtain m2 where m2: "same_tables p1 p2" "n = - 1 \<or> 0 \<le> n" "pr_io p2 = pr_io p1 @ m2"
          "io_only {} {1, ?fifo} m2" "n \<noteq> - 1 \<longrightarrow> wr_bytes ?fifo m2 = b"
          using write_out_wrote [OF n wb] ff by (auto simp: wrote_def fp1)
        have io: "io_only {fd} {1, ?fifo} (m @ m2)"
          using io_only_mono [OF m(3)] io_only_mono [OF m2(4)] by (simp add: io_only_append)
        show ?thesis
        proof (cases "n = - 1")
          case True
          then have "r = ((- 1, True), p2)" using body \<open>ready\<close> x b d n by simp
          then show ?thesis using m(1,2) m2 io same_tables_trans by (auto simp: hears_def)
        next
          case False
          obtain ev revs p3 where q: "do_poll os [(fd, True)] 5 p2 = ((ev, revs), p3)" by (metis surj_pair)
          have go: "f os d fd (ev > 0 \<and> rv_in (rv_at revs 0)) (w + n) p3 = Some r"
            using body \<open>ready\<close> x b d n False q by simp
          have p3: "same_tables p p3" "pr_io p3 = pr_io p @ m @ m2" "pr_write_fifo p3 = ?fifo"
            using do_poll_same [OF q] m(1,2) m2(1,3) by (auto simp: same_tables_def)
          have "hears fd ?fifo p3 r" using IH [OF go] d wb ff w0 m2(2) False p3(3) by simp
          then obtain y z p' m3 where r: "r = ((y, z), p')" "same_tables p3 p'" "y = - 1 \<or> 0 \<le> y" "pr_io p' = pr_io p3 @ m3"
            "io_only {fd} {1, ?fifo} m3" "y \<noteq> - 1 \<longrightarrow> wr_bytes ?fifo m3 = rd_bytes fd m3"
            by (auto simp: hears_def)
          have rd2: "rd_bytes fd m2 = []" using io_only_none(1) [OF m2(4)] by simp
          have "y \<noteq> - 1 \<longrightarrow> wr_bytes ?fifo (m @ m2 @ m3) = rd_bytes fd (m @ m2 @ m3)"
            using r(6) m2(5) False wm rd2 m(4) b by simp
          moreover have "io_only {fd} {1, ?fifo} (m @ m2 @ m3)" using io r(5) by (simp add: io_only_append)
          moreover have "pr_io p' = pr_io p @ (m @ m2 @ m3)" using r(4) p3(2) by simp
          ultimately show ?thesis using same_tables_trans [OF p3(1) r(2)] r(1,3) by (auto simp: hears_def)
        qed
      qed
    qed
  qed
  then show ?thesis using assms by blast
qed

definition links :: "helper_chain_t list \<Rightarrow> (int \<times> int) list" where
  "links hs = zip (map hp_read_fd hs) (tl (map hp_write_fd hs))"

definition fds_distinct :: "helper_chain_t list \<Rightarrow> int \<Rightarrow> bool" where
  "fds_distinct hs fifo \<longleftrightarrow> distinct (1 # fifo # map hp_read_fd hs @ map hp_write_fd hs)"

definition pipeline :: "helper_chain_t list \<Rightarrow> int \<Rightarrow> bool \<Rightarrow> string \<Rightarrow> io list \<Rightarrow> bool" where
  "pipeline hs fifo lost inp l \<longleftrightarrow>
    (\<forall>(r, w)\<in>set (links hs). off_bytes w l = rd_bytes r l)
    \<and> (\<not> lost \<longrightarrow> wr_bytes fifo l = rd_bytes (hp_read_fd (last hs)) l)
    \<and> off_bytes (hp_write_fd (hd hs)) l = inp"

definition chain_state :: "helper_chain_t list \<Rightarrow> int \<Rightarrow> bool \<Rightarrow> string \<Rightarrow> 's processor \<Rightarrow> bool" where
  "chain_state hs fifo lost inp p \<longleftrightarrow> pr_write_fifo p = fifo
    \<and> set (pr_pending_write p) \<subseteq> hp_write_fd ` set hs \<and> pipeline hs fifo lost inp (pr_io p)"

definition chain_laws :: "'s os \<Rightarrow> helper_chain_t list \<Rightarrow> int \<Rightarrow> bool" where
  "chain_laws os hs fifo \<longleftrightarrow> writes_bounded os \<and> polls_requested os \<and> fds_distinct hs fifo \<and> hs \<noteq> []"

lemma link_iff:
  "(r, w) \<in> set (links hs) \<longleftrightarrow> (\<exists>i. Suc i < length hs \<and> r = hp_read_fd (hs ! i) \<and> w = hp_write_fd (hs ! Suc i))"
proof -
  have n: "length (links hs) = length hs - 1" "\<And>i. i < length hs - 1 \<Longrightarrow> links hs ! i = (hp_read_fd (hs ! i), hp_write_fd (hs ! Suc i))"
    by (simp_all add: links_def nth_tl)
  have "(r, w) \<in> set (links hs) \<longleftrightarrow> (\<exists>i < length hs - 1. links hs ! i = (r, w))" using n(1) by (simp only: in_set_conv_nth)
  also have "\<dots> \<longleftrightarrow> (\<exists>i < length hs - 1. r = hp_read_fd (hs ! i) \<and> w = hp_write_fd (hs ! Suc i))" using n(2) by auto
  also have "\<dots> \<longleftrightarrow> (\<exists>i. Suc i < length hs \<and> r = hp_read_fd (hs ! i) \<and> w = hp_write_fd (hs ! Suc i))" by (simp add: less_diff_conv)
  finally show ?thesis .
qed

lemma link_fds: "(r, w) \<in> set (links hs) \<Longrightarrow> r \<in> hp_read_fd ` set hs \<and> w \<in> hp_write_fd ` set hs"
  by (auto simp: link_iff)

lemma fds_inj:
  assumes "fds_distinct hs fifo" and "i < length hs" and "j < length hs"
  shows "hp_read_fd (hs ! i) = hp_read_fd (hs ! j) \<longleftrightarrow> i = j" "hp_write_fd (hs ! i) = hp_write_fd (hs ! j) \<longleftrightarrow> i = j"
proof -
  have d: "distinct (map hp_read_fd hs)" "distinct (map hp_write_fd hs)" using assms(1) by (auto simp: fds_distinct_def)
  show "hp_read_fd (hs ! i) = hp_read_fd (hs ! j) \<longleftrightarrow> i = j"
    using nth_eq_iff_index_eq [OF d(1)] assms(2,3) by simp
  show "hp_write_fd (hs ! i) = hp_write_fd (hs ! j) \<longleftrightarrow> i = j"
    using nth_eq_iff_index_eq [OF d(2)] assms(2,3) by simp
qed

lemma link_unique:
  assumes "fds_distinct hs fifo" and "(r, w) \<in> set (links hs)" and "(r', w') \<in> set (links hs)"
  shows "r = r' \<longleftrightarrow> w = w'"
  using assms(2,3) fds_inj [OF assms(1)] unfolding link_iff by (metis Suc_inject Suc_lessD)

lemma link_not_ends:
  assumes "fds_distinct hs fifo" and "(r, w) \<in> set (links hs)"
  shows "r \<noteq> hp_read_fd (last hs)" "w \<noteq> hp_write_fd (hd hs)"
proof -
  obtain i where i: "Suc i < length hs" "r = hp_read_fd (hs ! i)" "w = hp_write_fd (hs ! Suc i)"
    using assms(2) by (auto simp: link_iff)
  then have "hs \<noteq> []" "i \<noteq> length hs - 1" by auto
  then show "r \<noteq> hp_read_fd (last hs)" "w \<noteq> hp_write_fd (hd hs)"
    using fds_inj [OF assms(1)] i by (simp_all add: last_conv_nth hd_conv_nth)
qed

lemma pipeline_append:
  assumes "pipeline hs fifo lost inp l" and "\<And>r w. (r, w) \<in> set (links hs) \<Longrightarrow> off_bytes w m = rd_bytes r m"
    and "\<not> lost' \<Longrightarrow> \<not> lost \<and> wr_bytes fifo m = rd_bytes (hp_read_fd (last hs)) m"
    and "inp' = inp @ off_bytes (hp_write_fd (hd hs)) m"
  shows "pipeline hs fifo lost' inp' (l @ m)"
  using assms by (auto simp: pipeline_def)

lemma fds_facts:
  assumes "fds_distinct hs fifo"
  shows "1 \<notin> hp_read_fd ` set hs" "1 \<notin> hp_write_fd ` set hs" "fifo \<notin> hp_read_fd ` set hs" "fifo \<notin> hp_write_fd ` set hs"
    "fifo \<noteq> 1" "hp_read_fd ` set hs \<inter> hp_write_fd ` set hs = {}"
  using assms by (auto simp: fds_distinct_def)

lemma chain_state_pending:
  "chain_state hs fifo lost inp p \<Longrightarrow> chain_state hs fifo lost inp (p\<lparr>pr_pending_read := v\<rparr>)"
  "chain_state hs fifo lost inp p \<Longrightarrow> set v \<subseteq> hp_write_fd ` set hs \<Longrightarrow> chain_state hs fifo lost inp (p\<lparr>pr_pending_write := v\<rparr>)"
  "chain_state hs fifo lost inp p \<Longrightarrow> chain_state hs fifo lost inp (p\<lparr>pr_pending_write := remove_pending fd (pr_pending_write p)\<rparr>)"
  "chain_state hs fifo lost inp p \<Longrightarrow> chain_state hs fifo lost inp (do_close os fd p)"
  by (auto simp: chain_state_def remove_pending_def do_close_def)

lemma chain_state_poll: "do_poll os fds t p = (r, p') \<Longrightarrow> chain_state hs fifo lost inp p \<Longrightarrow> chain_state hs fifo lost inp p'"
  using do_poll_same [of os fds t p r p'] by (simp add: chain_state_def same_tables_def)

lemma pass_buf_state:
  assumes "pass_buf os r w False p = (ok, p')" and "chain_laws os hs fifo" and "chain_state hs fifo lost inp p"
    and "(r, w) \<in> set (links hs)"
  shows "chain_state hs fifo lost inp p'"
proof -
  have d: "fds_distinct hs fifo" using assms(2) by (auto simp: chain_laws_def)
  obtain x p1 where x: "do_read os r PROCESSOR_BUFFER_SIZE p = (x, p1)" by (metis surj_pair)
  obtain m where m: "same_tables p p1" "pr_io p1 = pr_io p @ m" "io_only {r} {} m"
    "rd_bytes r m = (case x of None \<Rightarrow> [] | Some b \<Rightarrow> b)"
    using do_read_io [OF x] by blast
  have lk: "r \<in> hp_read_fd ` set hs" "w \<in> hp_write_fd ` set hs" using link_fds [OF assms(4)] by auto
  have ne: "r \<noteq> hp_read_fd (last hs)" "w \<noteq> hp_write_fd (hd hs)" "w \<noteq> fifo" "w \<noteq> 1"
    using link_not_ends [OF d assms(4)] lk fds_facts [OF d] by auto
  show ?thesis
  proof (cases "x = None \<or> x = Some []")
    case True
    then have "p' = p1" "rd_bytes r m = []" using assms(1) x m(4) by (auto simp: pass_buf_def)
    moreover have "rd_bytes r' m = []" for r' using \<open>rd_bytes r m = []\<close> io_only_none(1) [OF m(3)] by (cases "r' = r") auto
    moreover have "wr_bytes w' m = []" "off_bytes w' m = []" for w' using io_only_none(2,3) [OF m(3)] by simp_all
    ultimately show ?thesis using assms(3) m(1,2)
      by (auto simp: chain_state_def same_tables_def intro!: pipeline_append [where lost = lost and inp = inp])
  next
    case False
    then obtain b where b: "x = Some b" "b \<noteq> []" by (cases x) auto
    obtain n p2 where n: "do_write os w b p1 = (n, p2)" by (metis surj_pair)
    obtain m2 where m2: "same_tables p1 p2" "pr_io p2 = pr_io p1 @ m2" "io_only {} {w} m2" "off_bytes w m2 = b"
      using do_write_offers [OF n] by auto
    have p': "p' = p2\<lparr>pr_pending_read := remove_pending r (pr_pending_read p2), pr_pending_write := remove_pending w (pr_pending_write p2)\<rparr>"
      using assms(1) x b n by (simp add: pass_buf_def)
    have rd: "rd_bytes r' (m @ m2) = (if r' = r then b else [])" for r'
      using m(4) b io_only_none(1) [OF m(3)] io_only_none(1) [OF m2(3)] by auto
    have off: "off_bytes w' (m @ m2) = (if w' = w then b else [])" for w'
      using m2(4) io_only_none(3) [OF m(3)] io_only_none(3) [OF m2(3)] by auto
    have wr: "wr_bytes fifo (m @ m2) = []"
      using ne(3) io_only_none(2) [OF m(3)] io_only_none(2) [OF m2(3)] by auto
    have "pipeline hs fifo lost inp (pr_io p @ m @ m2)"
    proof (rule pipeline_append)
      show "pipeline hs fifo lost inp (pr_io p)" using assms(3) by (simp add: chain_state_def)
      show "off_bytes w' (m @ m2) = rd_bytes r' (m @ m2)" if "(r', w') \<in> set (links hs)" for r' w'
        using link_unique [OF d that assms(4)] by (simp only: rd off)
    qed (use ne in \<open>simp_all only: rd wr off if_False simp_thms append_Nil2 eq_commute\<close>)
    then show ?thesis using assms(3) m(1,2) m2(1,2) by (auto simp: p' chain_state_def same_tables_def remove_pending_def)
  qed
qed

lemma read_first_state:
  assumes "read_first_fd_routine os (hp_read_fd (last hs)) ready False p = Some ((n, ready'), p')"
    and "chain_laws os hs fifo" and "chain_state hs fifo False inp p"
  shows "chain_state hs fifo (n = - 1) inp p'"
proof -
  let ?r = "hp_read_fd (last hs)"
  have d: "fds_distinct hs fifo" and wb: "writes_bounded os" and ne: "hs \<noteq> []" using assms(2) by (auto simp: chain_laws_def)
  have f: "pr_write_fifo p = fifo" using assms(3) by (simp add: chain_state_def)
  obtain p1 where r: "read_first_loop os False ?r ready 0 p = Some ((n, ready'), p1)"
    and p': "p' = (if n \<noteq> - 1 then p1\<lparr>pr_pending_read := remove_pending ?r (pr_pending_read p1)\<rparr> else p1)"
    using assms(1) by (auto simp: read_first_fd_routine_def bind_eq_Some_conv)
  obtain m where m: "same_tables p p1" "pr_io p1 = pr_io p @ m" "io_only {?r} {1, fifo} m"
    "n \<noteq> - 1 \<longrightarrow> wr_bytes fifo m = rd_bytes ?r m"
    using read_first_loop_hears [OF r wb] fds_facts(5) [OF d] f by (auto simp: hears_def)
  have "pipeline hs fifo (n = - 1) inp (pr_io p @ m)"
  proof (rule pipeline_append)
    show "pipeline hs fifo False inp (pr_io p)" using assms(3) by (simp add: chain_state_def)
    show "off_bytes w' m = rd_bytes r' m" if l: "(r', w') \<in> set (links hs)" for r' w'
    proof -
      have "w' \<notin> {1, fifo}" "r' \<notin> {?r}"
        using link_fds [OF l] fds_facts [OF d] link_not_ends(1) [OF d l] by auto
      then show ?thesis using io_only_none [OF m(3)] by simp
    qed
    have "hp_write_fd (hd hs) \<in> hp_write_fd ` set hs" using ne by simp
    then have "hp_write_fd (hd hs) \<notin> {1, fifo}" using fds_facts [OF d] by auto
    then show "inp = inp @ off_bytes (hp_write_fd (hd hs)) m" using io_only_none(3) [OF m(3)] by simp
  qed (use m(4) in auto)
  then show ?thesis using assms(3) m(1,2) by (auto simp: p' chain_state_def same_tables_def)
qed

lemma first_write_state:
  assumes "do_write os (hp_write_fd (hd hs)) b p = (n, p')" and "chain_laws os hs fifo" and "chain_state hs fifo lost [] p"
  shows "chain_state hs fifo lost b p'"
proof -
  let ?w = "hp_write_fd (hd hs)"
  have d: "fds_distinct hs fifo" and ne: "hs \<noteq> []" using assms(2) by (auto simp: chain_laws_def)
  have w: "?w \<in> hp_write_fd ` set hs" using ne by simp
  obtain m where m: "same_tables p p'" "pr_io p' = pr_io p @ m" "io_only {} {?w} m" "off_bytes ?w m = b"
    using do_write_offers [OF assms(1)] by auto
  have "pipeline hs fifo lost b (pr_io p @ m)"
  proof (rule pipeline_append)
    show "pipeline hs fifo lost [] (pr_io p)" using assms(3) by (simp add: chain_state_def)
    show "off_bytes w' m = rd_bytes r' m" if l: "(r', w') \<in> set (links hs)" for r' w'
      using io_only_none [OF m(3)] link_not_ends(2) [OF d l] by simp
    show "\<not> lost \<and> wr_bytes fifo m = rd_bytes (hp_read_fd (last hs)) m" if "\<not> lost"
    proof -
      have "fifo \<noteq> ?w" using w fds_facts(4) [OF d] by metis
      then show ?thesis using that io_only_none [OF m(3)] by simp
    qed
  qed (simp add: m(4))
  then show ?thesis using assms(3) m(1,2) by (auto simp: chain_state_def same_tables_def)
qed

text \<open>The polled descriptors: a helper's output is followed by the input of the next helper, or by an output
  when that input has been closed; an input is followed by its helper's output.\<close>

definition adjacent :: "(int \<times> int) set \<Rightarrow> int \<times> bool \<Rightarrow> int \<times> bool \<Rightarrow> bool" where
  "adjacent L x y \<longleftrightarrow> (if snd x then snd y \<or> (fst x, fst y) \<in> L else snd y)"

definition fds_ok :: "helper_chain_t list \<Rightarrow> (int \<times> bool) list \<Rightarrow> bool" where
  "fds_ok hs fds \<longleftrightarrow> successively (adjacent (set (links hs))) fds
    \<and> (\<forall>x\<in>set fds. fst x \<in> (if snd x then hp_read_fd else hp_write_fd) ` set hs)"

definition ends_right :: "helper_chain_t list \<Rightarrow> (int \<times> bool) list \<Rightarrow> bool" where
  "ends_right hs fds \<longleftrightarrow> fds \<noteq> [] \<and> last fds = (hp_read_fd (last hs), True)"

lemma helper_fds_ok: "hs \<noteq> [] \<Longrightarrow> fds_ok hs (helper_fds hs) \<and> ends_right hs (helper_fds hs)"
proof -
  have "set (links hs) \<subseteq> L \<Longrightarrow> successively (adjacent L) (helper_fds hs)" for L
  proof (induction hs)
    case (Cons h hs)
    then show ?case by (cases hs) (auto simp: helper_fds_def links_def adjacent_def)
  qed (simp add: helper_fds_def)
  moreover have "hs \<noteq> [] \<Longrightarrow> ends_right hs (helper_fds hs)"
    by (cases hs rule: rev_cases) (auto simp: helper_fds_def ends_right_def)
  ultimately show "hs \<noteq> [] \<Longrightarrow> fds_ok hs (helper_fds hs) \<and> ends_right hs (helper_fds hs)"
    by (auto simp: fds_ok_def helper_fds_def)
qed

lemma fds_ok_tl: "fds_ok hs (x # fds) \<Longrightarrow> fds_ok hs fds"
  by (cases fds) (auto simp: fds_ok_def)

lemma fds_ok_remove:
  assumes "fds_ok hs (a @ x # y # b)" and "ends_right hs (a @ x # y # b)"
  shows "snd y \<Longrightarrow> fds_ok hs (a @ y # b) \<and> ends_right hs (a @ y # b)"
    and "\<not> snd y \<Longrightarrow> fds_ok hs (a @ b) \<and> ends_right hs (a @ b)"
proof -
  have s: "successively (adjacent (set (links hs))) (a @ x # y # b)" using assms(1) by (simp add: fds_ok_def)
  show "fds_ok hs (a @ y # b) \<and> ends_right hs (a @ y # b)" if "snd y"
    using s assms that by (auto simp: fds_ok_def ends_right_def successively_append_iff adjacent_def)
  show "fds_ok hs (a @ b) \<and> ends_right hs (a @ b)" if "\<not> snd y"
  proof -
    have b: "b \<noteq> []" using assms(2) that by (cases b) (auto simp: ends_right_def)
    then have "snd (hd b)" using s that by (cases b) (auto simp: successively_append_iff adjacent_def)
    then show ?thesis using s assms b
      by (cases b) (auto simp: fds_ok_def ends_right_def successively_append_iff adjacent_def)
  qed
qed

lemma close_hup_ok:
  assumes "close_hup os i first p c = (p', c')" and "first = (i = length (cr_pfds c) - 1)" and "i < length (cr_pfds c)"
    and "fds_ok hs (cr_pfds c)" and "ends_right hs (cr_pfds c)"
  shows "fds_ok hs (cr_pfds c') \<and> (first \<longrightarrow> cr_last_hup c') \<and> (\<not> first \<longrightarrow> ends_right hs (cr_pfds c') \<and> cr_last_hup c' = cr_last_hup c)
    \<and> cr_written c' = cr_written c \<and> cr_size c' = cr_size c \<and> cr_ori_written c' = cr_ori_written c \<and> cr_has_read c' = cr_has_read c
    \<and> (chain_state hs fifo lost inp p \<longrightarrow> chain_state hs fifo lost inp p')"
proof -
  have st: "chain_state hs fifo lost inp q \<Longrightarrow> chain_state hs fifo lost inp (fst (close_pfds_ni os j q d))" for j q d
    by (auto simp: close_pfds_ni_def intro!: chain_state_pending split: prod.split)
  have vs: "snd (close_pfds_ni os j q d) = d\<lparr>cr_pfds := take j (cr_pfds d) @ drop (Suc j) (cr_pfds d)\<rparr>" for j q d
    by (simp add: close_pfds_ni_def split: prod.split)
  obtain p1 c1 where c1: "close_pfds_ni os i p c = (p1, c1)" by (metis surj_pair)
  have c1v: "c1 = c\<lparr>cr_pfds := take i (cr_pfds c) @ drop (Suc i) (cr_pfds c)\<rparr>" using vs [of i p c] c1 by simp
  have p1s: "chain_state hs fifo lost inp p \<Longrightarrow> chain_state hs fifo lost inp p1" using st [of p i c] c1 by simp
  show ?thesis
  proof (cases first)
    case True
    have "cr_pfds c = take i (cr_pfds c) @ [last (cr_pfds c)]"
      using True assms(2,3) by (cases "cr_pfds c" rule: rev_cases) auto
    then have "fds_ok hs (take i (cr_pfds c))" using assms(4)
      by (metis fds_ok_def successively_append_iff Un_iff set_append)
    moreover have "drop (Suc i) (cr_pfds c) = []" using True assms(2,3) by simp
    ultimately show ?thesis using assms(1) True c1 c1v p1s by (auto simp: close_hup_def)
  next
    case False
    then have l: "Suc i < length (cr_pfds c)" using assms(2,3) by simp
    define a x y b where "a = take i (cr_pfds c)" "x = cr_pfds c ! i" "y = cr_pfds c ! Suc i" "b = drop (Suc (Suc i)) (cr_pfds c)"
    have e: "cr_pfds c = a @ x # y # b"
      using l unfolding a_x_y_b_def by (metis Cons_nth_drop_Suc Suc_lessD append_take_drop_id)
    have la: "length a = i" using l by (simp add: a_x_y_b_def)
    have c1f: "cr_pfds c1 = a @ y # b" using c1v e la by simp
    show ?thesis
    proof (cases "snd y")
      case True
      then have "(p', c') = (p1, c1)" using assms(1) False c1 c1f la by (simp add: close_hup_def nth_append)
      then show ?thesis using fds_ok_remove(1) [OF _ _ True] assms(4,5) e False c1f c1v p1s by simp
    next
      case w: False
      then have r: "close_pfds_ni os i p1 c1 = (p', c')" using assms(1) False c1 c1f la by (simp add: close_hup_def nth_append)
      have "c' = c1\<lparr>cr_pfds := a @ b\<rparr>" using vs [of i p1 c1] r c1f la by simp
      moreover have "chain_state hs fifo lost inp p \<Longrightarrow> chain_state hs fifo lost inp p'" using st [of p1 i c1] r p1s by simp
      ultimately show ?thesis using fds_ok_remove(2) [OF _ _ w] assms(4,5) e False c1v by simp
    qed
  qed
qed

definition buf_size :: "string option \<Rightarrow> nat" where
  "buf_size buf = (case buf of None \<Rightarrow> 0 | Some b \<Rightarrow> length b)"

definition handed :: "string option \<Rightarrow> chain_run \<Rightarrow> string" where
  "handed buf c = (if cr_ori_written c then case buf of None \<Rightarrow> [] | Some b \<Rightarrow> b else [])"

definition chain_inv :: "helper_chain_t list \<Rightarrow> int \<Rightarrow> string option \<Rightarrow> 's processor \<Rightarrow> chain_run \<Rightarrow> bool" where
  "chain_inv hs fifo buf p c \<longleftrightarrow> fds_ok hs (cr_pfds c)
    \<and> cr_size c = (if cr_ori_written c then 0 else buf_size buf)
    \<and> (buf \<noteq> None \<longrightarrow> cr_pfds c = helper_fds hs)
    \<and> chain_state hs fifo (cr_written c = - 1) (handed buf c) p"

text \<open>What holds before a descriptor is looked at, and after.\<close>

definition scan_pre :: "helper_chain_t list \<Rightarrow> int \<Rightarrow> string option \<Rightarrow> nat \<Rightarrow> 's processor \<Rightarrow> chain_run \<Rightarrow> bool" where
  "scan_pre hs fifo buf ni p c \<longleftrightarrow> chain_inv hs fifo buf p c \<and> cr_written c \<noteq> - 1 \<and> ends_right hs (cr_pfds c)
    \<and> \<not> cr_last_hup c \<and> ni < length (cr_pfds c) \<and> (ni = length (cr_pfds c) - 1 \<longrightarrow> \<not> cr_has_read c)"

definition scan_post :: "helper_chain_t list \<Rightarrow> int \<Rightarrow> string option \<Rightarrow> 's processor \<Rightarrow> chain_run \<Rightarrow> bool" where
  "scan_post hs fifo buf p c \<longleftrightarrow> chain_inv hs fifo buf p c
    \<and> (if cr_last_hup c then buf = None \<and> \<not> cr_has_read c else ends_right hs (cr_pfds c))"

lemma scan_postI:
  "chain_inv hs fifo buf p c \<Longrightarrow> \<not> cr_last_hup c \<Longrightarrow> ends_right hs (cr_pfds c) \<Longrightarrow> scan_post hs fifo buf p c"
  by (simp add: scan_post_def)

lemma chain_inv_pending:
  "chain_inv hs fifo buf p c \<Longrightarrow> chain_inv hs fifo buf (p\<lparr>pr_pending_read := v\<rparr>) c"
  "chain_inv hs fifo buf p c \<Longrightarrow> fd \<in> hp_write_fd ` set hs
    \<Longrightarrow> chain_inv hs fifo buf (p\<lparr>pr_pending_write := add_pending fd (pr_pending_write p)\<rparr>) c"
  "chain_inv hs fifo buf p c \<Longrightarrow> chain_inv hs fifo buf (p\<lparr>pr_pending_write := remove_pending fd (pr_pending_write p)\<rparr>) c"
  by (auto simp: chain_inv_def chain_state_def add_pending_def remove_pending_def)

lemma chain_inv_flags:
  "chain_inv hs fifo buf p (c\<lparr>cr_first_ready := x\<rparr>) = chain_inv hs fifo buf p c"
  "chain_inv hs fifo buf p (c\<lparr>cr_has_read := y\<rparr>) = chain_inv hs fifo buf p c"
  by (simp_all add: chain_inv_def handed_def)

lemma successively_at: "successively P xs \<Longrightarrow> Suc i < length xs \<Longrightarrow> P (xs ! i) (xs ! Suc i)"
proof (induction xs arbitrary: i rule: induct_list012)
  case (3 x y zs)
  then show ?case by (cases i) auto
qed simp_all

lemma pass_link:
  assumes "chain_inv hs fifo buf p c" and "fds_distinct hs fifo" and "Suc ni < length (cr_pfds c)" and "snd (cr_pfds c ! ni)"
    and "\<And>i. snd (cr_pfds c ! i) \<Longrightarrow> \<not> rv_out (rv_at revs i)"
    and "rv_out (rv_at revs (ni + 1)) \<or> fst (cr_pfds c ! (ni + 1)) \<in> set (pr_pending_write p)"
  shows "(fst (cr_pfds c ! ni), fst (cr_pfds c ! (ni + 1))) \<in> set (links hs)"
proof -
  let ?y = "cr_pfds c ! (ni + 1)"
  have ok: "fds_ok hs (cr_pfds c)" and pw: "set (pr_pending_write p) \<subseteq> hp_write_fd ` set hs"
    using assms(1) by (auto simp: chain_inv_def chain_state_def)
  have "?y \<in> set (cr_pfds c)" using assms(3) by simp
  then have y: "snd ?y \<Longrightarrow> fst ?y \<in> hp_read_fd ` set hs" using ok by (auto simp: fds_ok_def)
  have "\<not> snd ?y" using assms(5) [of "ni + 1"] assms(6) y pw fds_facts(6) [OF assms(2)] by blast
  moreover have "adjacent (set (links hs)) (cr_pfds c ! ni) ?y"
    using ok assms(3) successively_at [of "adjacent (set (links hs))" "cr_pfds c" ni] by (simp add: fds_ok_def)
  ultimately show ?thesis using assms(4) by (simp add: adjacent_def)
qed

lemma scan_one_ok:
  assumes "scan_one os buf False revs (length (cr_pfds c) - 1) ni p c = Some (go, p', c')" and "chain_laws os hs fifo"
    and "scan_pre hs fifo buf ni p c" and "\<And>i. snd (cr_pfds c ! i) \<Longrightarrow> \<not> rv_out (rv_at revs i)"
  shows "scan_post hs fifo buf p' c' \<and> (go \<longrightarrow> cr_pfds c' = cr_pfds c \<and> cr_written c' \<noteq> - 1 \<and> \<not> cr_last_hup c' \<and> 0 < ni)"
proof -
  define fd rd rv ar aw where "fd = fst (cr_pfds c ! ni)" "rd = snd (cr_pfds c ! ni)" "rv = rv_at revs ni"
    "ar = (rv_in rv \<or> fd \<in> set (pr_pending_read p))" "aw = (rv_out rv \<or> fd \<in> set (pr_pending_write p))"
  note dv = this
  define first where "first = (ni = length (cr_pfds c) - 1)"
  define prev where "prev = fst (cr_pfds c ! (ni + 1))"
  have pre: "chain_inv hs fifo buf p c" "cr_written c \<noteq> - 1" "ends_right hs (cr_pfds c)" "\<not> cr_last_hup c"
    "ni < length (cr_pfds c)" "first \<Longrightarrow> \<not> cr_has_read c"
    using assms(3) by (auto simp: scan_pre_def first_def)
  have dist: "fds_distinct hs fifo" and ne: "hs \<noteq> []" using assms(2) by (auto simp: chain_laws_def)
  have ok: "fds_ok hs (cr_pfds c)" using pre(1) by (simp add: chain_inv_def)
  have fdin: "fd \<in> (if rd then hp_read_fd else hp_write_fd) ` set hs"
    using ok pre(5) by (auto simp: fds_ok_def dv(1,2))
  note body = assms(1) [unfolded scan_one_def Let_def, folded dv(1,2,3), folded dv(4,5) first_def prev_def]
  show ?thesis
  proof (cases "buf = None \<and> rv_hup rv \<and> \<not> ar \<and> \<not> aw")
    case True
    obtain p1 c1 where c1: "close_hup os ni first p c = (p1, c1)" by (metis surj_pair)
    have r: "go = False" "p' = p1" "c' = c1" using body True c1 by auto
    note k = close_hup_ok [OF c1 first_def pre(5) ok pre(3), where fifo = fifo and lost = "cr_written c = - 1" and inp = "handed buf c"]
    have "chain_inv hs fifo buf p1 c1" using k pre(1) True by (auto simp: chain_inv_def handed_def)
    then show ?thesis using k pre(4,6) r True by (cases first) (auto simp: scan_post_def)
  next
    case nohup: False
    define c0 where "c0 = (if buf = None \<and> \<not> cr_first_ready c \<and> ar \<and> first then c\<lparr>cr_first_ready := True\<rparr> else c)"
    have c0: "chain_inv hs fifo buf p c0" "cr_pfds c0 = cr_pfds c" "cr_written c0 = cr_written c" "cr_last_hup c0 = cr_last_hup c"
      "cr_size c0 = cr_size c" "cr_ori_written c0 = cr_ori_written c" "cr_has_read c0 = cr_has_read c"
      using pre(1) by (auto simp: c0_def chain_inv_flags)
    have keep: "scan_post hs fifo buf p' c0" if "chain_inv hs fifo buf p' c0"
      using that pre(3,4) c0 by (simp add: scan_post_def)
    note body2 = body [unfolded if_not_P [OF nohup], folded c0_def]
    consider (first) "rd" "ar" "first" | (pass) "rd" "ar" "\<not> first" "rv_out (rv_at revs (ni + 1)) \<or> prev \<in> set (pr_pending_write p)"
      | (mark) "rd" "ar" "\<not> first" "\<not> (rv_out (rv_at revs (ni + 1)) \<or> prev \<in> set (pr_pending_write p))"
      | (ori) "\<not> rd" "aw" "ni = 0" "cr_size c0 \<noteq> 0" | (wmark) "\<not> rd" "aw" "\<not> (ni = 0 \<and> cr_size c0 \<noteq> 0)"
      | (rest) "\<not> (rd \<and> ar)" "\<not> (\<not> rd \<and> aw)"
      by blast
    then show ?thesis
    proof cases
      case first
      have "cr_pfds c ! ni = (hp_read_fd (last hs), True)"
        using pre(3) first(3) last_conv_nth [of "cr_pfds c"] by (simp add: first_def ends_right_def)
      then have fdl: "fd = hp_read_fd (last hs)" by (simp add: dv(1))
      obtain n ready p1 where rf: "read_first_fd_routine os fd (cr_first_ready c0) False p = Some ((n, ready), p1)"
        using body2 first by (cases "read_first_fd_routine os fd (cr_first_ready c0) False p") auto
      define c1 where "c1 = c0\<lparr>cr_written := n, cr_first_ready := ready\<rparr>"
      have r: "p' = p1" "go = (n \<noteq> - 1 \<and> ni \<noteq> 0)" "c' = (if n = - 1 then c1 else c1\<lparr>cr_has_read := n > 0\<rparr>)"
        using body2 first rf by (auto simp: c1_def split: if_split_asm)
      have "chain_state hs fifo False (handed buf c) p" using pre(1,2) by (simp add: chain_inv_def)
      then have "chain_state hs fifo (n = - 1) (handed buf c) p1"
        using read_first_state [OF rf [unfolded fdl] assms(2)] by blast
      then have "chain_inv hs fifo buf p1 c1" using c0 by (simp add: chain_inv_def c1_def handed_def)
      then have "chain_inv hs fifo buf p' c'" by (simp add: r chain_inv_flags)
      then show ?thesis using c0 pre(3,4) by (auto simp: r c1_def intro!: scan_postI)
    next
      case pass
      obtain ok1 p1 where pb: "pass_buf os fd prev False p = (ok1, p1)" by (metis surj_pair)
      have r: "go = (ni \<noteq> 0)" "p' = p1" "c' = (if ok1 then c0\<lparr>cr_has_read := True\<rparr> else c0)"
        using body2 pass pb by auto
      have l: "Suc ni < length (cr_pfds c)" using pass(3) pre(5) by (simp add: first_def)
      have lk: "(fd, prev) \<in> set (links hs)"
        unfolding dv(1) prev_def
        by (rule pass_link [OF pre(1) dist l _ assms(4)]) (use pass in \<open>auto simp: dv(2) prev_def\<close>)
      have "chain_inv hs fifo buf p1 c0"
        using pass_buf_state [OF pb assms(2) _ lk] c0(1) by (auto simp: chain_inv_def)
      then show ?thesis using c0 pre(2,3,4) by (auto simp: r chain_inv_flags intro!: scan_postI)
    next
      case mark
      then have r: "go = (ni \<noteq> 0)" "p' = p\<lparr>pr_pending_read := add_pending fd (pr_pending_read p)\<rparr>" "c' = c0"
        using body2 by auto
      then show ?thesis using keep chain_inv_pending(1) [OF c0(1)] c0 pre(2,4) by simp
    next
      case ori
      show ?thesis
      proof (cases "cr_ori_written c0")
        case True
        then have "c' = c0" "p' = p" "go = False" using body2 ori by auto
        then show ?thesis using keep c0 by simp
      next
        case False
        have s: "cr_size c0 = buf_size buf" using c0(1) False by (simp add: chain_inv_def)
        then obtain b where b: "buf = Some b" using ori(4) by (cases buf) (auto simp: buf_size_def)
        have "cr_pfds c = helper_fds hs" using pre(1) b by (simp add: chain_inv_def)
        then have fdw: "fd = hp_write_fd (hd hs)" using ori(3) ne by (cases hs) (auto simp: dv(1) helper_fds_def)
        obtain n p1 where w: "do_write os fd b p = (n, p1)" by (metis surj_pair)
        have r: "go = False" "p' = p1\<lparr>pr_pending_write := remove_pending fd (pr_pending_write p1)\<rparr>"
          "c' = c0\<lparr>cr_size := 0, cr_ori_written := True\<rparr>"
          using body2 ori False b w by auto
        have "chain_state hs fifo (cr_written c0 = - 1) [] p" using c0(1) False by (simp add: chain_inv_def handed_def)
        then have "chain_state hs fifo (cr_written c0 = - 1) b p1"
          using first_write_state [OF w [unfolded fdw] assms(2)] by simp
        then have "chain_inv hs fifo buf p1 (c0\<lparr>cr_size := 0, cr_ori_written := True\<rparr>)"
          using c0(1) by (auto simp: chain_inv_def handed_def b)
        then have "chain_inv hs fifo buf p' c'" using chain_inv_pending(3) r(2,3) by blast
        then show ?thesis using c0 pre(3,4) by (auto simp: r intro!: scan_postI)
      qed
    next
      case wmark
      then have r: "go = (ni \<noteq> 0)" "p' = p\<lparr>pr_pending_write := add_pending fd (pr_pending_write p)\<rparr>" "c' = c0"
        using body2 by auto
      have "fd \<in> hp_write_fd ` set hs" using fdin wmark(1) by simp
      then show ?thesis using r keep chain_inv_pending(2) [OF c0(1)] c0 pre(2,4) by simp
    next
      case rest
      then have r: "go = (ni \<noteq> 0)" "c' = c0" "p' = p \<or> p' = p\<lparr>pr_pending_read := remove_pending fd (pr_pending_read p)\<rparr>
          \<or> p' = p\<lparr>pr_pending_write := remove_pending fd (pr_pending_write p)\<rparr>"
        using body2 by (auto split: if_split_asm)
      have "chain_inv hs fifo buf p' c0" using r(3) chain_inv_pending(1,3) [OF c0(1)] c0(1) by blast
      then show ?thesis using keep r(1,2) c0 pre(2,4) by simp
    qed
  qed
qed

lemma scan_fds_ok:
  assumes "scan_fds os buf False revs (length (cr_pfds c) - 1) ni p c = Some (p', c')" and "chain_laws os hs fifo"
    and "scan_pre hs fifo buf ni p c" and "\<And>i. snd (cr_pfds c ! i) \<Longrightarrow> \<not> rv_out (rv_at revs i)"
  shows "scan_post hs fifo buf p' c'"
  using assms(1,3,4)
proof (induction ni arbitrary: p c)
  case 0
  obtain go where o: "scan_one os buf False revs (length (cr_pfds c) - 1) 0 p c = Some (go, p', c')"
    using "0.prems"(1) by auto
  show ?case using scan_one_ok [OF o assms(2) "0.prems"(2,3)] by blast
next
  case (Suc ni)
  obtain go p1 c1 where o: "scan_one os buf False revs (length (cr_pfds c) - 1) (Suc ni) p c = Some (go, p1, c1)"
    and rest: "(if go then scan_fds os buf False revs (length (cr_pfds c) - 1) ni p1 c1 else Some (p1, c1)) = Some (p', c')"
    using Suc.prems(1) by (auto simp: bind_eq_Some_conv simp del: One_nat_def)
  note k = scan_one_ok [OF o assms(2) Suc.prems(2,3)]
  show ?case
  proof (cases go)
    case True
    have e: "cr_pfds c1 = cr_pfds c" using k True by blast
    have sp: "scan_pre hs fifo buf ni p1 c1"
      using k True Suc.prems(2) by (auto simp: scan_pre_def scan_post_def)
    have "scan_fds os buf False revs (length (cr_pfds c1) - 1) ni p1 c1 = Some (p', c')" using rest True e by simp
    then show ?thesis by (rule Suc.IH [OF _ sp]) (simp add: e Suc.prems(3))
  qed (use k rest in auto)
qed

definition chain_result :: "helper_chain_t list \<Rightarrow> int \<Rightarrow> string option \<Rightarrow> (int \<times> nat) \<times> 's processor \<Rightarrow> bool" where
  "chain_result hs fifo buf r \<longleftrightarrow> (case r of ((ret, siz), p') \<Rightarrow> \<exists>inp. chain_state hs fifo (ret = - 1) inp p'
    \<and> (siz = 0 \<and> inp = (case buf of None \<Rightarrow> [] | Some b \<Rightarrow> b) \<or> siz = buf_size buf \<and> inp = []))"

lemma chain_inv_result:
  "chain_inv hs fifo buf p c \<Longrightarrow> ret = cr_written c \<or> cr_written c \<noteq> - 1 \<Longrightarrow> ret = 0 \<or> ret = cr_written c
    \<Longrightarrow> chain_result hs fifo buf ((ret, cr_size c), p)"
  by (cases "cr_ori_written c") (auto simp: chain_inv_def chain_result_def handed_def chain_state_def pipeline_def split: option.splits)

lemma chain_loop_ok:
  assumes "chain_loop os buf False iter p c = Some r" and "chain_laws os hs fifo" and "chain_inv hs fifo buf p c"
    and "cr_written c \<noteq> - 1" and "cr_pfds c = [] \<or> \<not> cr_last_hup c \<and> ends_right hs (cr_pfds c)"
  shows "chain_result hs fifo buf r"
proof -
  let ?P = "\<lambda>os buf d iter (p :: 'a processor) c r. \<not> d \<longrightarrow> chain_laws os hs fifo \<longrightarrow> chain_inv hs fifo buf p c \<longrightarrow> cr_written c \<noteq> - 1
    \<longrightarrow> cr_pfds c = [] \<or> \<not> cr_last_hup c \<and> ends_right hs (cr_pfds c) \<longrightarrow> chain_result hs fifo buf r"
  have "?P os buf False iter p c r"
    using assms(1)
  proof (rule chain_loop.raw_induct [where P = ?P, rotated], intro impI)
    fix f os buf d iter and p :: "'a processor" and c r
    assume IH: "\<And>os buf d iter p c r. f os buf d iter p c = Some r \<Longrightarrow> ?P os buf d iter p c r"
      and body: "(if cr_pfds c = [] then Some ((cr_written c, cr_size c), p)
         else case do_poll os (cr_pfds c) 10 p of
           ((ev, revs), p1) \<Rightarrow>
             if ev = 0 \<and> pr_pending_read p1 = [] \<and> pr_pending_write p1 = [] then Some ((0, cr_size c), p1)
             else Option.bind (scan_fds os buf d revs (length (cr_pfds c) - 1) (length (cr_pfds c) - 1) p1 (c\<lparr>cr_has_read := False\<rparr>))
               (\<lambda>(p2, c2).
                 if chain_done (buf = None) (iter + 1) c2 then Some ((cr_written c2, cr_size c2), p2)
                 else f os buf d (iter + 1) p2 c2)) = Some r"
      and d: "\<not> d" and laws: "chain_laws os hs fifo" and inv: "chain_inv hs fifo buf p c" and w: "cr_written c \<noteq> - 1"
      and e: "cr_pfds c = [] \<or> \<not> cr_last_hup c \<and> ends_right hs (cr_pfds c)"
    show "chain_result hs fifo buf r"
    proof (cases "cr_pfds c = []")
      case True
      then have "r = ((cr_written c, cr_size c), p)" using body by simp
      then show ?thesis using chain_inv_result [OF inv] by simp
    next
      case False
      obtain ev revs p1 where q: "do_poll os (cr_pfds c) 10 p = ((ev, revs), p1)" by (metis surj_pair)
      have inv1: "chain_inv hs fifo buf p1 c" using inv chain_state_poll [OF q] by (simp add: chain_inv_def)
      have rv: "snd (cr_pfds c ! i) \<Longrightarrow> \<not> rv_out (rv_at revs i)" for i
        using q laws unfolding chain_laws_def polls_requested_def do_poll_def by (auto split: prod.split_asm) (metis fst_conv snd_conv)
      show ?thesis
      proof (cases "ev = 0 \<and> pr_pending_read p1 = [] \<and> pr_pending_write p1 = []")
        case True
        then have "r = ((0, cr_size c), p1)" using body False q by simp
        then show ?thesis using chain_inv_result [OF inv1] w by simp
      next
        case go: False
        let ?c = "c\<lparr>cr_has_read := False\<rparr>"
        obtain p2 c2 where s: "scan_fds os buf d revs (length (cr_pfds c) - 1) (length (cr_pfds c) - 1) p1 ?c = Some (p2, c2)"
          and rest: "(if chain_done (buf = None) (iter + 1) c2 then Some ((cr_written c2, cr_size c2), p2)
            else f os buf d (iter + 1) p2 c2) = Some r"
          using body False q go by (auto simp: bind_eq_Some_conv)
        have "scan_pre hs fifo buf (length (cr_pfds c) - 1) p1 ?c"
          using inv1 w e False by (auto simp: scan_pre_def chain_inv_flags)
        then have post: "scan_post hs fifo buf p2 c2"
          by (intro scan_fds_ok [where c = ?c and ni = "length (cr_pfds c) - 1" and os = os and revs = revs and p = p1])
            (use s d laws rv in simp_all)
        show ?thesis
        proof (cases "chain_done (buf = None) (iter + 1) c2")
          case True
          then have "r = ((cr_written c2, cr_size c2), p2)" using rest by simp
          moreover have "chain_inv hs fifo buf p2 c2" using post by (simp add: scan_post_def)
          ultimately show ?thesis using chain_inv_result by blast
        next
          case False
          then have g: "f os buf d (iter + 1) p2 c2 = Some r" using rest by simp
          have "cr_written c2 \<noteq> - 1" using False by (simp add: chain_done_def)
          moreover have "cr_pfds c2 = [] \<or> \<not> cr_last_hup c2 \<and> ends_right hs (cr_pfds c2)"
            using False post by (cases "cr_last_hup c2"; cases buf) (auto simp: scan_post_def chain_done_def)
          ultimately show ?thesis using IH [OF g] d laws post by (simp add: scan_post_def)
        qed
      qed
    qed
  qed
  then show ?thesis using assms by blast
qed

lemma run_through_chain_state:
  assumes "run_through_chain os buf False p = Some r" and "chain_laws os (pr_helpers p) (pr_write_fifo p)" and "pr_io p = []"
    and "set (pr_pending_write p) \<subseteq> hp_write_fd ` set (pr_helpers p)"
  shows "chain_result (pr_helpers p) (pr_write_fifo p) buf r"
proof -
  let ?hs = "pr_helpers p" and ?fifo = "pr_write_fifo p"
  have ne: "?hs \<noteq> []" using assms(2) by (simp add: chain_laws_def)
  have start: "chain_state ?hs ?fifo False [] p" using assms(3,4) by (auto simp: chain_state_def pipeline_def)
  show ?thesis
  proof (cases "buf = Some []")
    case True
    then have "r = ((0, 0), p)" using assms(1) by (simp add: run_through_chain_def)
    then show ?thesis using start True by (auto simp: chain_result_def buf_size_def)
  next
    case False
    define p1 where "p1 = (if buf = None then close_first_write os p else p)"
    define fds where "fds = (if buf = None then tl (helper_fds ?hs) else helper_fds ?hs)"
    have st: "chain_state ?hs ?fifo False [] p1"
    proof (cases "buf = None")
      case True
      obtain h hs where h: "?hs = h # hs" using ne by (cases ?hs) auto
      then show ?thesis using start True
        by (auto simp: p1_def close_first_write_def close_valid_fd_def do_close_def chain_state_def remove_pending_def)
    qed (use start in \<open>auto simp: p1_def\<close>)
    obtain x y where xy: "helper_fds ?hs = x # (hp_read_fd (hd ?hs), True) # y"
      using ne by (cases ?hs) (auto simp: helper_fds_def)
    have ok: "fds_ok ?hs fds" "ends_right ?hs fds"
      using helper_fds_ok [OF ne] fds_ok_tl [of ?hs x] xy by (auto simp: fds_def ends_right_def)
    have "chain_loop os buf False 0 p1 \<lparr>cr_pfds = fds, cr_written = 0, cr_first_ready = True, cr_size = buf_size buf,
        cr_ori_written = False, cr_last_hup = False, cr_has_read = False\<rparr> = Some r"
      using assms(1) False ne by (simp add: run_through_chain_def p1_def fds_def buf_size_def Let_def)
    then show ?thesis
      by (rule chain_loop_ok [OF _ assms(2)]) (use ok st in \<open>auto simp: chain_inv_def handed_def fds_def\<close>)
  qed
qed

text \<open>When the next helper has died, its write fails and \<open>pass_buf\<close> does not look at the result: the
  buffer is gone.\<close>

lemma pass_buf_ignores_failure:
  assumes "do_read os r PROCESSOR_BUFFER_SIZE p = (Some b, p1)" and "b \<noteq> []" and "fst (os_write os w b (pr_os p1)) = - 1"
  shows "\<exists>p'. pass_buf os r w False p = (True, p') \<and> pr_io p' = pr_io p @ [Rd r b, Wr w b (- 1)] \<and> wr_bytes w [Rd r b, Wr w b (- 1)] = []"
  using assms by (auto simp: pass_buf_def do_write_def do_read_def split: prod.split prod.split_asm)

text \<open>C8: The helpers form a pipeline. Whatever the operating system reports about the descriptors, in
  whatever order they become ready and whether its writes succeed or not, one call gives the whole buffer
  to the first helper or leaves it with the caller; what was read from a helper has been given to the
  writes for the next one, every byte once and in order, and has reached it when these writes were
  accepted whole; what was read from the last one has been written to the main process, unless that failed and the
  call says so. The same holds when the chain is shut down. A write to a helper that fails is not noticed and
  loses what it was given. Assumed: no descriptor has two numbers, a write takes no more than it is given, what is polled
  for reading is not reported as writable, and what is noted as ready for writing belongs to the chain.\<close>

theorem chain_is_pipeline:
  assumes "run_through_chain os buf False p = Some ((ret, siz), p')" and "chain_laws os (pr_helpers p) (pr_write_fifo p)"
    and "pr_io p = []" and "set (pr_pending_write p) \<subseteq> hp_write_fd ` set (pr_helpers p)"
  shows "(\<forall>i. Suc i < length (pr_helpers p) \<longrightarrow>
      (let r = hp_read_fd (pr_helpers p ! i); w = hp_write_fd (pr_helpers p ! Suc i)
       in off_bytes w (pr_io p') = rd_bytes r (pr_io p')
        \<and> (accepted w (pr_io p') \<longrightarrow> wr_bytes w (pr_io p') = rd_bytes r (pr_io p'))))
    \<and> (ret \<noteq> - 1 \<longrightarrow> wr_bytes (pr_write_fifo p) (pr_io p') = rd_bytes (hp_read_fd (last (pr_helpers p))) (pr_io p'))
    \<and> (case buf of
         None \<Rightarrow> off_bytes (hp_write_fd (hd (pr_helpers p))) (pr_io p') = []
       | Some b \<Rightarrow> (siz, off_bytes (hp_write_fd (hd (pr_helpers p))) (pr_io p')) \<in> {(0, b), (length b, [])})"
proof -
  obtain inp where k: "chain_state (pr_helpers p) (pr_write_fifo p) (ret = - 1) inp p'"
    "siz = 0 \<and> inp = (case buf of None \<Rightarrow> [] | Some b \<Rightarrow> b) \<or> siz = buf_size buf \<and> inp = []"
    using run_through_chain_state [OF assms] by (auto simp: chain_result_def)
  have pl: "pipeline (pr_helpers p) (pr_write_fifo p) (ret = - 1) inp (pr_io p')" using k(1) by (simp add: chain_state_def)
  have "off_bytes (hp_write_fd (pr_helpers p ! Suc i)) (pr_io p') = rd_bytes (hp_read_fd (pr_helpers p ! i)) (pr_io p')"
    if "Suc i < length (pr_helpers p)" for i
  proof -
    have "(hp_read_fd (pr_helpers p ! i), hp_write_fd (pr_helpers p ! Suc i)) \<in> set (links (pr_helpers p))"
      unfolding link_iff using that by blast
    then show ?thesis using pl by (auto simp: pipeline_def)
  qed
  moreover have "off_bytes (hp_write_fd (hd (pr_helpers p))) (pr_io p') = inp"
    "ret \<noteq> - 1 \<longrightarrow> wr_bytes (pr_write_fifo p) (pr_io p') = rd_bytes (hp_read_fd (last (pr_helpers p))) (pr_io p')"
    using pl by (auto simp: pipeline_def)
  ultimately show ?thesis using k(2) accepted_bytes by (auto simp: buf_size_def Let_def split: option.split)
qed

declare write_loop.simps [code] read_first_loop.simps [code] chain_loop.simps [code]

text \<open>A system in which everything is ready at the first poll and nothing after.\<close>

definition sample_os :: "nat os" where
  "sample_os =
    \<lparr>os_poll = (\<lambda>fds t s. ((if s = 0 then int (length fds) else 0,
        map (\<lambda>(fd, rd). if s = 0 then no_revents\<lparr>rv_in := rd, rv_out := \<not> rd\<rparr> else no_revents) fds), s + 1)),
     os_read = (\<lambda>fd n s. (Some (take n ''ab''), s)), os_write = (\<lambda>fd b s. (int (length b), s)), os_close = (\<lambda>fd s. s),
     os_pipe = (\<lambda>s. (Some (40, 41), s)), os_fork = (\<lambda>s. (100, s)), os_sem_wait = (\<lambda>s. s), os_waitpid = (\<lambda>pid s. (0, s)), os_open = (\<lambda>path s. (50, s)), os_dup2 = (\<lambda>a b s. (b, s))\<rparr>"

definition sample_helper :: "int \<Rightarrow> helper_chain_t" where
  "sample_helper n = \<lparr>hp_write_fd = 10 * n + 1, hp_read_fd = 10 * n, hp_pid = n,
    hp_options = \<lparr>hc_raw_args = [], hc_debug = False, hc_parsed = False, hc_first_chain = False, hc_final_chain = False\<rparr>\<rparr>"

definition sample_processor :: "nat processor" where
  "sample_processor = \<lparr>pr_os = 0, pr_io = [], pr_calls = [], pr_helpers = [sample_helper 1, sample_helper 2], pr_pending_read = [],
    pr_pending_write = [], pr_write_fifo = 5, pr_notified = True, pr_preadfd = 30, pr_pwritefd = 33, pr_cpid = 9\<rparr>"

lemma sample_laws: "chain_laws sample_os [sample_helper 1, sample_helper 2] 5"
  by (auto simp: chain_laws_def writes_bounded_def polls_requested_def fds_distinct_def
      sample_os_def sample_helper_def rv_at_def no_revents_def split: prod.split)

theorem chain_is_pipeline_witness:
  "\<exists>ret siz p'. run_through_chain sample_os (Some ''xy'') False sample_processor = Some ((ret, siz), p')
    \<and> wr_bytes 21 (pr_io p') = rd_bytes 10 (pr_io p') \<and> rd_bytes 10 (pr_io p') = ''ab''"
proof -
  have "case run_through_chain sample_os (Some ''xy'') False sample_processor of
      Some ((ret, siz), p') \<Rightarrow> rd_bytes 10 (pr_io p') = ''ab'' \<and> accepted 21 (pr_io p') | None \<Rightarrow> False"
    by code_simp
  then obtain ret siz p' where r: "run_through_chain sample_os (Some ''xy'') False sample_processor = Some ((ret, siz), p')"
    "rd_bytes 10 (pr_io p') = ''ab''" "accepted 21 (pr_io p')"
    by (auto split: option.split_asm)
  have h: "pr_helpers sample_processor = [sample_helper 1, sample_helper 2]" "pr_io sample_processor = []"
    "pr_pending_write sample_processor = []" "pr_write_fifo sample_processor = 5"
    by (simp_all add: sample_processor_def)
  have "\<forall>i. Suc i < length (pr_helpers sample_processor) \<longrightarrow>
      (let r = hp_read_fd (pr_helpers sample_processor ! i); w = hp_write_fd (pr_helpers sample_processor ! Suc i)
       in off_bytes w (pr_io p') = rd_bytes r (pr_io p')
        \<and> (accepted w (pr_io p') \<longrightarrow> wr_bytes w (pr_io p') = rd_bytes r (pr_io p')))"
    by (rule chain_is_pipeline [OF r(1), THEN conjunct1]) (simp_all add: h sample_laws)
  from spec [OF this, of 0] have "wr_bytes 21 (pr_io p') = rd_bytes 10 (pr_io p')"
    using r(3) by (simp add: h sample_helper_def)
  then show ?thesis using r by blast
qed

section \<open>Which helpers run\<close>

text \<open>The child after the fork is another process. The result is 0 or \<open>- 1\<close>.\<close>

definition create_helper :: "'s os \<Rightarrow> helper_chain_option_t \<Rightarrow> 's processor \<Rightarrow> int \<times> 's processor" where
  "create_helper os hco p =
    (case os_pipe os (pr_os p) of
       (None, s) \<Rightarrow> (- 1, p\<lparr>pr_os := s\<rparr>)
     | (Some (fr, fw), s) \<Rightarrow>
         (case os_pipe os s of
            (None, s1) \<Rightarrow> (- 1, do_close os fw (do_close os fr (p\<lparr>pr_os := s1\<rparr>)))
          | (Some (sr, sw), s1) \<Rightarrow>
              (case os_fork os s1 of
                 (pid, s2) \<Rightarrow>
                   if pid = - 1
                   then (- 1, do_close os fw (do_close os fr (do_close os sw (do_close os sr (p\<lparr>pr_os := s2\<rparr>)))))
                   else let p1 = do_close os sr (do_close os fw (p\<lparr>pr_os := s2, pr_calls := pr_calls p @ [Forked pid]\<rparr>))
                     in (0, p1\<lparr>pr_os := os_sem_wait os (pr_os p1),
                       pr_helpers := pr_helpers p1 @ [\<lparr>hp_write_fd = sw, hp_read_fd = fr, hp_pid = pid, hp_options = hco\<rparr>]\<rparr>))))"

definition reap_helper :: "'s os \<Rightarrow> bool \<Rightarrow> helper_chain_t \<Rightarrow> 's processor \<Rightarrow> 's processor" where
  "reap_helper os close_fds h p =
    (let p1 = (if close_fds then close_valid_fd os (hp_read_fd h) (close_valid_fd os (hp_write_fd h) p) else p)
     in do_waitpid os (hp_pid h) p1)"

definition reap_helpers :: "'s os \<Rightarrow> bool \<Rightarrow> 's processor \<Rightarrow> 's processor" where
  "reap_helpers os close_fds p =
    (fold (reap_helper os close_fds) (pr_helpers p) (p\<lparr>pr_pending_write := [], pr_pending_read := []\<rparr>))\<lparr>pr_helpers := []\<rparr>"

definition shutdown_chain :: "'s os \<Rightarrow> bool \<Rightarrow> 's processor \<Rightarrow> (int \<times> 's processor) option" where
  "shutdown_chain os discard p =
    (if discard then Some (0, reap_helpers os True p)
     else Option.bind (run_through_chain os None discard p) (\<lambda>((written, _), p1). Some (written, reap_helpers os False p1)))"

fun create_helpers :: "'s os \<Rightarrow> helper_chain_option_t list \<Rightarrow> 's processor \<Rightarrow> int \<times> 's processor" where
  "create_helpers os [] p = (0, p)"
| "create_helpers os (i # is) p =
    (case create_helper os i p of (status, p1) \<Rightarrow> if status \<noteq> 0 then (status, p1) else create_helpers os is p1)"

definition need_stop :: "helper_chain_option_t list \<Rightarrow> helper_chain_t list \<Rightarrow> bool" where
  "need_stop want hs \<longleftrightarrow> (if length want = length hs
    then \<exists>i<length want. hc_raw_args (want ! i) \<noteq> hc_raw_args (hp_options (hs ! i)) else True)"

definition manage_processor :: "'s os \<Rightarrow> helper_chain_option_t list \<Rightarrow> 's processor \<Rightarrow> (int \<times> 's processor) option" where
  "manage_processor os want p =
    (if want = [] \<and> pr_helpers p = [] then Some (0, p)
     else if \<not> need_stop want (pr_helpers p) then Some (0, p)
     else Option.bind (shutdown_chain os False p) (\<lambda>(_, p1). Some (create_helpers os want p1)))"

definition helper_args :: "'s processor \<Rightarrow> string list" where
  "helper_args p = map (hc_raw_args \<circ> hp_options) (pr_helpers p)"

lemma do_close_helpers [simp]: "pr_helpers (do_close os fd p) = pr_helpers p"
  by (simp add: do_close_def)

text \<open>The calls of a step: passing sound on closes descriptors, and creates and awaits no process.\<close>

definition only_closes :: "'s processor \<Rightarrow> 's processor \<Rightarrow> bool" where
  "only_closes p p' \<longleftrightarrow> (\<exists>fds. pr_calls p' = pr_calls p @ map Closed fds) \<and> map hp_pid (pr_helpers p') = map hp_pid (pr_helpers p)"

lemma only_closes_trans: "only_closes p q \<Longrightarrow> only_closes q r \<Longrightarrow> only_closes p r"
  by (auto simp: only_closes_def map_append [symmetric] simp del: map_append)

lemma only_closes_refl: "only_closes p p"
  by (simp add: only_closes_def)

lemma only_closes_update:
  "only_closes p (q\<lparr>pr_pending_read := v\<rparr>) = only_closes p q" "only_closes p (q\<lparr>pr_pending_write := v\<rparr>) = only_closes p q"
  "only_closes p (q\<lparr>pr_notified := x\<rparr>) = only_closes p q" "only_closes (q\<lparr>pr_pending_read := v\<rparr>) p = only_closes q p"
  "only_closes (q\<lparr>pr_pending_write := v\<rparr>) p = only_closes q p"
  by (simp_all add: only_closes_def)

lemma only_closes_calls:
  "do_poll os fds t p = (a, p') \<Longrightarrow> only_closes p p'" "do_read os fd n p = (b, p') \<Longrightarrow> only_closes p p'"
  "do_write os fd c p = (d, p') \<Longrightarrow> only_closes p p'" "only_closes p (do_close os fd p)" "only_closes p (close_valid_fd os fd p)"
  by (auto simp: only_closes_def do_poll_def do_read_def do_write_def do_close_def close_valid_fd_def split: prod.split_asm
      intro: exI [of _ "[]"] exI [of _ "[fd]"])

lemma write_loop_closes: "write_loop os buf k hup p = Some (n, p') \<Longrightarrow> only_closes p p'"
proof -
  let ?P = "\<lambda>os buf k hup (p :: 'a processor) r. only_closes p (snd r)"
  assume "write_loop os buf k hup p = Some (n, p')"
  then have "?P os buf k hup p (n, p')"
  proof (rule write_loop.raw_induct [where P = ?P, rotated])
    fix f os buf k hup and p :: "'a processor" and r
    assume IH: "\<And>os buf k hup p r. f os buf k hup p = Some r \<Longrightarrow> ?P os buf k hup p r"
      and body: "(if hup then Some (- 1, p)
         else case do_write os (pr_write_fifo p) (drop k buf) p of
           (n, p1) \<Rightarrow>
             if \<not> (n > 0 \<or> k < length buf) then Some (int k, p1)
             else if n < 0 then Some (- 1, p1)
             else case do_poll os [(pr_write_fifo p1, False)] 0 p1 of
               ((ev, revs), p2) \<Rightarrow> f os buf (k + nat n) (fifo_hup ev revs) p2) = Some r"
    obtain n p1 where w: "do_write os (pr_write_fifo p) (drop k buf) p = (n, p1)" by (metis surj_pair)
    obtain ev revs p2 where q: "do_poll os [(pr_write_fifo p1, False)] 0 p1 = ((ev, revs), p2)" by (metis surj_pair)
    have "only_closes p p1" "only_closes p p2"
      using only_closes_calls(3) [OF w] only_closes_trans only_closes_calls(1) [OF q] by blast+
    then show "only_closes p (snd r)"
      using body IH [of os buf "k + nat n" "fifo_hup ev revs" p2 r] only_closes_trans only_closes_refl [of p]
      by (auto simp: w q split: if_split_asm)
  qed
  then show "only_closes p p'" by simp
qed

lemma write_out_closes:
  assumes "write_out os b p = Some (n, p')"
  shows "only_closes p p'"
proof (cases "b = []")
  case False
  obtain ev revs p1 where q: "do_poll os [(pr_write_fifo p, False)] 0 (notify_ready os p) = ((ev, revs), p1)" by (metis surj_pair)
  have "only_closes p (notify_ready os p)"
    using only_closes_calls(3) [of os 1 _ p, OF surjective_pairing]
    by (auto simp: notify_ready_def only_closes_update only_closes_refl split: option.split)
  moreover have "only_closes p1 p'"
    using assms False q write_loop_closes by (auto simp: write_out_def)
  ultimately show ?thesis using only_closes_trans only_closes_calls(1) [OF q] by blast
qed (use assms in \<open>auto simp: write_out_def only_closes_refl\<close>)

lemma read_first_closes: "read_first_loop os d fd ready w p = Some (n, p') \<Longrightarrow> only_closes p p'"
proof -
  let ?P = "\<lambda>os d fd ready w (p :: 'a processor) r. only_closes p (snd r)"
  assume "read_first_loop os d fd ready w p = Some (n, p')"
  then have "?P os d fd ready w p (n, p')"
  proof (rule read_first_loop.raw_induct [where P = ?P, rotated])
    fix f os d fd ready w and p :: "'a processor" and r
    assume IH: "\<And>os d fd ready w p r. f os d fd ready w p = Some r \<Longrightarrow> ?P os d fd ready w p r"
      and body: "(if \<not> ready then Some ((w, False), p)
         else case do_read os fd BUFFER_SIZE p of
           (r, p1) \<Rightarrow> (case r of
               None \<Rightarrow> Some ((w, True), p1)
             | Some b \<Rightarrow>
                 if b = [] then Some ((w, True), p1)
                 else Option.bind (if d then Some (1, p1) else write_out os b p1) (\<lambda>(n, p2).
                   if n = - 1 then Some ((- 1, True), p2)
                   else case do_poll os [(fd, True)] 5 p2 of
                     ((ev, revs), p3) \<Rightarrow> f os d fd (ev > 0 \<and> rv_in (rv_at revs 0)) (if d then 1 else w + n) p3))) = Some r"
    show "only_closes p (snd r)"
    proof (cases ready)
      case True
      obtain x p1 where x: "do_read os fd BUFFER_SIZE p = (x, p1)" by (metis surj_pair)
      note p1 = only_closes_calls(2) [OF x]
      show ?thesis
      proof (cases "x = None \<or> x = Some []")
        case False
        then obtain b where b: "x = Some b" "b \<noteq> []" by (cases x) auto
        obtain n p2 where n: "(if d then Some (1, p1) else write_out os b p1) = Some (n, p2)"
          using body True x b by (cases "if d then Some (1, p1) else write_out os b p1") (auto split: if_split_asm)
        have "only_closes p1 p2" using n write_out_closes [of os b p1 n p2] only_closes_refl by (cases d) auto
        with p1 have p2: "only_closes p p2" by (rule only_closes_trans)
        obtain ev revs p3 where q: "do_poll os [(fd, True)] 5 p2 = ((ev, revs), p3)" by (metis surj_pair)
        have p3: "only_closes p p3" by (rule only_closes_trans [OF p2 only_closes_calls(1) [OF q]])
        show ?thesis
        proof (cases "n = - 1")
          case False
          then have "f os d fd (ev > 0 \<and> rv_in (rv_at revs 0)) (if d then 1 else w + n) p3 = Some r"
            using body True x b n q by simp
          then show ?thesis by (rule only_closes_trans [OF p3 IH])
        qed (use body True x b n p2 in auto)
      qed (use body True x p1 in auto)
    qed (use body only_closes_refl in auto)
  qed
  then show "only_closes p p'" by simp
qed

lemma close_pfds_ni_closes: "close_pfds_ni os i p c = (p', c') \<Longrightarrow> only_closes p p'"
  using only_closes_calls(4) [of "p\<lparr>pr_pending_read := _\<rparr>" os] only_closes_calls(4) [of "p\<lparr>pr_pending_write := _\<rparr>" os]
  by (auto simp: close_pfds_ni_def only_closes_update split: prod.split_asm)

lemma close_hup_closes: "close_hup os i first p c = (p', c') \<Longrightarrow> only_closes p p'"
  using close_pfds_ni_closes only_closes_trans
  by (fastforce simp: close_hup_def split: prod.split_asm if_split_asm)

lemma pass_buf_closes: "pass_buf os r w d p = (ok, p') \<Longrightarrow> only_closes p p'"
proof -
  assume pb: "pass_buf os r w d p = (ok, p')"
  obtain x p1 where x: "do_read os r PROCESSOR_BUFFER_SIZE p = (x, p1)" by (metis surj_pair)
  have "only_closes p1 (snd (do_write os w b p1))" for b
    using only_closes_calls(3) [OF surjective_pairing] .
  then have "only_closes p (snd (do_write os w b p1))" for b
    using only_closes_calls(2) [OF x] only_closes_trans by blast
  then show ?thesis using pb x only_closes_calls(2) [OF x]
    by (auto simp: pass_buf_def Let_def only_closes_update split: option.split_asm if_split_asm)
qed

lemma scan_one_closes:
  assumes "scan_one os buf d revs mx ni p c = Some (go, p', c')"
  shows "only_closes p p'"
proof -
  have rf: "read_first_fd_routine os fd x d p = Some (a, q) \<Longrightarrow> only_closes p q" for fd x a q
    using read_first_closes by (fastforce simp: read_first_fd_routine_def only_closes_update bind_eq_Some_conv split: if_split_asm)
  have h: "only_closes p (fst (close_hup os ni f p c))" for f
    using close_hup_closes [OF surjective_pairing] .
  have pb: "only_closes p (snd (pass_buf os a b d p))" for a b
    using pass_buf_closes [OF surjective_pairing] .
  have w: "only_closes p (snd (do_write os a b p))" for a b
    using only_closes_calls(3) [OF surjective_pairing] .
  define fd rd rv ar aw where "fd = fst (cr_pfds c ! ni)" "rd = snd (cr_pfds c ! ni)" "rv = rv_at revs ni"
    "ar = (rv_in rv \<or> fd \<in> set (pr_pending_read p))" "aw = (rv_out rv \<or> fd \<in> set (pr_pending_write p))"
  note dv = this
  define first where "first = (ni = mx)"
  define prev where "prev = fst (cr_pfds c ! (ni + 1))"
  define go_pass where "go_pass = (rv_out (rv_at revs (ni + 1)) \<or> prev \<in> set (pr_pending_write p))"
  note body = assms [unfolded scan_one_def Let_def, folded dv(1,2,3), folded dv(4,5) first_def prev_def, folded go_pass_def]
  show ?thesis
  proof (cases "buf = None \<and> rv_hup rv \<and> \<not> ar \<and> \<not> aw")
    case True
    then show ?thesis using body h [of first] by (auto simp: case_prod_beta)
  next
    case nohup: False
    define c0 where "c0 = (if buf = None \<and> \<not> cr_first_ready c \<and> ar \<and> first then c\<lparr>cr_first_ready := True\<rparr> else c)"
    note body2 = body [unfolded if_not_P [OF nohup], folded c0_def]
    consider (first) "rd" "ar" "first" | (pass) "rd" "ar" "\<not> first" "go_pass" | (mark) "rd" "ar" "\<not> first" "\<not> go_pass"
      | (ori) "\<not> rd" "aw" | (rest) "\<not> (rd \<and> ar)" "\<not> (\<not> rd \<and> aw)"
      by blast
    then show ?thesis
    proof cases
      case first
      then obtain n ready p1 where r: "read_first_fd_routine os fd (cr_first_ready c0) d p = Some ((n, ready), p1)"
        using body2 by (cases "read_first_fd_routine os fd (cr_first_ready c0) d p") auto
      then have "p' = p1" using body2 first by (auto split: if_split_asm)
      then show ?thesis using rf [OF r] by simp
    next
      case pass
      then show ?thesis using body2 pb [of fd prev] by (auto simp: case_prod_beta)
    next
      case mark
      then show ?thesis using body2 by (auto simp: only_closes_update only_closes_refl)
    next
      case ori
      then show ?thesis using body2 w [of fd "case buf of Some b \<Rightarrow> b | None \<Rightarrow> []"]
        by (auto simp: only_closes_update only_closes_refl case_prod_beta split: if_split_asm)
    next
      case rest
      then show ?thesis using body2 by (auto simp: only_closes_update only_closes_refl split: if_split_asm)
    qed
  qed
qed

lemma scan_fds_closes: "scan_fds os buf d revs mx ni p c = Some (p', c') \<Longrightarrow> only_closes p p'"
proof (induction ni arbitrary: p c)
  case (Suc ni)
  then obtain go p1 c1 where o: "scan_one os buf d revs mx (Suc ni) p c = Some (go, p1, c1)"
    and rest: "(if go then scan_fds os buf d revs mx ni p1 c1 else Some (p1, c1)) = Some (p', c')"
    by (auto simp: bind_eq_Some_conv)
  note p1 = scan_one_closes [OF o]
  show ?case
  proof (cases go)
    case True
    then show ?thesis using only_closes_trans [OF p1 Suc.IH] rest by simp
  qed (use rest p1 in simp)
qed (auto dest: scan_one_closes)

lemma chain_loop_closes: "chain_loop os buf d iter p c = Some (n, p') \<Longrightarrow> only_closes p p'"
proof -
  let ?P = "\<lambda>os buf d iter (p :: 'a processor) c r. only_closes p (snd r)"
  assume "chain_loop os buf d iter p c = Some (n, p')"
  then have "?P os buf d iter p c (n, p')"
  proof (rule chain_loop.raw_induct [where P = ?P, rotated])
    fix f os buf d iter and p :: "'a processor" and c r
    assume IH: "\<And>os buf d iter p c r. f os buf d iter p c = Some r \<Longrightarrow> ?P os buf d iter p c r"
      and body: "(if cr_pfds c = [] then Some ((cr_written c, cr_size c), p)
         else case do_poll os (cr_pfds c) 10 p of
           ((ev, revs), p1) \<Rightarrow>
             if ev = 0 \<and> pr_pending_read p1 = [] \<and> pr_pending_write p1 = [] then Some ((0, cr_size c), p1)
             else Option.bind (scan_fds os buf d revs (length (cr_pfds c) - 1) (length (cr_pfds c) - 1) p1 (c\<lparr>cr_has_read := False\<rparr>))
               (\<lambda>(p2, c2).
                 if chain_done (buf = None) (iter + 1) c2 then Some ((cr_written c2, cr_size c2), p2)
                 else f os buf d (iter + 1) p2 c2)) = Some r"
    obtain ev revs p1 where q: "do_poll os (cr_pfds c) 10 p = ((ev, revs), p1)" by (metis surj_pair)
    note p1 = only_closes_calls(1) [OF q]
    show "only_closes p (snd r)"
    proof (cases "cr_pfds c = [] \<or> ev = 0 \<and> pr_pending_read p1 = [] \<and> pr_pending_write p1 = []")
      case True
      then show ?thesis using body q p1 only_closes_refl by (auto split: if_split_asm)
    next
      case False
      then obtain p2 c2 where s: "scan_fds os buf d revs (length (cr_pfds c) - 1) (length (cr_pfds c) - 1) p1 (c\<lparr>cr_has_read := False\<rparr>) = Some (p2, c2)"
        and rest: "(if chain_done (buf = None) (iter + 1) c2 then Some ((cr_written c2, cr_size c2), p2)
          else f os buf d (iter + 1) p2 c2) = Some r"
        using body q by (auto simp: bind_eq_Some_conv)
      have p2: "only_closes p p2" by (rule only_closes_trans [OF p1 scan_fds_closes [OF s]])
      show ?thesis
      proof (cases "chain_done (buf = None) (iter + 1) c2")
        case False
        then have "f os buf d (iter + 1) p2 c2 = Some r" using rest by simp
        then show ?thesis by (rule only_closes_trans [OF p2 IH])
      qed (use rest p2 in auto)
    qed
  qed
  then show "only_closes p p'" by simp
qed

text \<open>The input of the first helper is closed first, and every helper is waited for, in the order of the chain.\<close>

definition first_close :: "'s processor \<Rightarrow> call list" where
  "first_close p = (if pr_helpers p = [] \<or> hp_write_fd (hd (pr_helpers p)) = - 1 then []
     else [Closed (hp_write_fd (hd (pr_helpers p)))])"

lemma reap_helpers_calls:
  "pr_calls (reap_helpers os False p) = pr_calls p @ map (Waited \<circ> hp_pid) (pr_helpers p) \<and> pr_helpers (reap_helpers os False p) = []"
proof -
  have "pr_calls (fold (reap_helper os False) hs q) = pr_calls q @ map (Waited \<circ> hp_pid) hs" for hs q
    by (induction hs arbitrary: q) (simp_all add: reap_helper_def do_waitpid_def)
  then show ?thesis by (simp add: reap_helpers_def)
qed

lemma shutdown_chain_calls:
  assumes "shutdown_chain os False p = Some (n, p')"
  shows "\<exists>fds. pr_calls p' = pr_calls p @ first_close p @ map Closed fds @ map (Waited \<circ> hp_pid) (pr_helpers p)"
    and "pr_helpers p' = []"
proof -
  obtain sz p1 where r: "run_through_chain os None False p = Some ((n, sz), p1)" and p': "p' = reap_helpers os False p1"
    using assms by (auto simp: shutdown_chain_def bind_eq_Some_conv)
  show "pr_helpers p' = []" by (simp add: p' reap_helpers_calls)
  have "\<exists>fds. pr_calls p1 = pr_calls p @ first_close p @ map Closed fds \<and> map hp_pid (pr_helpers p1) = map hp_pid (pr_helpers p)"
  proof (cases "pr_helpers p")
    case Nil
    then show ?thesis using r by (auto simp: run_through_chain_def first_close_def)
  next
    case (Cons h hs)
    let ?q = "close_first_write os p"
    have q: "pr_calls ?q = pr_calls p @ first_close p" "map hp_pid (pr_helpers ?q) = map hp_pid (pr_helpers p)"
      using Cons by (simp_all add: close_first_write_def close_valid_fd_def do_close_def first_close_def)
    have "only_closes ?q p1" using r Cons chain_loop_closes by (auto simp: run_through_chain_def Let_def)
    then show ?thesis using q by (auto simp: only_closes_def)
  qed
  then obtain fds where "pr_calls p1 = pr_calls p @ first_close p @ map Closed fds" "map hp_pid (pr_helpers p1) = map hp_pid (pr_helpers p)"
    by blast
  then show "\<exists>fds. pr_calls p' = pr_calls p @ first_close p @ map Closed fds @ map (Waited \<circ> hp_pid) (pr_helpers p)"
    by (intro exI [of _ fds]) (metis p' reap_helpers_calls append_assoc map_map)
qed

text \<open>When nothing is reported within ten milliseconds, shutting down closes the input of the first helper
  only: the others keep their inputs open while they are waited for.\<close>

lemma shutdown_may_wait_for_open_helpers:
  assumes "pr_helpers p = h # k # hs" and "hp_write_fd h \<noteq> - 1" and "pr_pending_read p = []" and "pr_pending_write p = []"
    and "\<And>fds s. fst (fst (os_poll os fds 10 s)) = 0"
  shows "\<exists>p'. shutdown_chain os False p = Some (0, p')
    \<and> pr_calls p' = pr_calls p @ Closed (hp_write_fd h) # map (Waited \<circ> hp_pid) (pr_helpers p)"
proof -
  let ?q = "close_first_write os p"
  let ?fds = "tl (helper_fds (pr_helpers p))"
  have ne: "?fds \<noteq> []" by (simp add: assms(1) helper_fds_def)
  obtain revs s where po: "os_poll os ?fds 10 (pr_os ?q) = ((0, revs), s)"
    using assms(5) [of ?fds "pr_os ?q"] by (metis prod.exhaust_sel)
  then have q: "do_poll os ?fds 10 ?q = ((0, revs), ?q\<lparr>pr_os := s\<rparr>)" by (simp add: do_poll_def)
  have e: "pr_pending_read ?q = []" "pr_pending_write ?q = []" "pr_calls ?q = pr_calls p @ [Closed (hp_write_fd h)]"
    "map hp_pid (pr_helpers ?q) = map hp_pid (pr_helpers p)"
    using assms(1-4) by (simp_all add: close_first_write_def close_valid_fd_def do_close_def remove_pending_def)
  have "run_through_chain os None False p = Some ((0, 0), ?q\<lparr>pr_os := s\<rparr>)"
    using ne q e by (simp add: run_through_chain_def assms(1) [THEN arg_cong [where f = "\<lambda>x. x = []"]] Let_def) (subst chain_loop.simps, simp)
  then show ?thesis using e reap_helpers_calls [of os "?q\<lparr>pr_os := s\<rparr>"]
    by (simp add: shutdown_chain_def) (metis map_map)
qed

lemma create_helper_args:
  "create_helper os hco p = (st, p') \<Longrightarrow> st = 0 \<and> helper_args p' = helper_args p @ [hc_raw_args hco] \<or> st \<noteq> 0 \<and> helper_args p' = helper_args p"
  by (auto simp: create_helper_def helper_args_def Let_def split: prod.split_asm option.split_asm if_split_asm)

lemma create_helpers_args:
  "create_helpers os want p = (st, p') \<Longrightarrow>
    if st = 0 then helper_args p' = helper_args p @ map hc_raw_args want
    else \<exists>k<length want. helper_args p' = helper_args p @ take k (map hc_raw_args want)"
proof (induction want arbitrary: p)
  case (Cons i want)
  obtain st1 p1 where c: "create_helper os i p = (st1, p1)" by (metis surj_pair)
  show ?case
  proof (cases "st1 = 0")
    case True
    then have h: "helper_args p1 = helper_args p @ [hc_raw_args i]" using create_helper_args [OF c] by auto
    have "create_helpers os want p1 = (st, p')" using Cons.prems c True by simp
    note k = Cons.IH [OF this]
    show ?thesis
    proof (cases "st = 0")
      case False
      then obtain j where "j < length want" "helper_args p' = helper_args p1 @ take j (map hc_raw_args want)" using k by auto
      then show ?thesis using False h by (auto intro!: exI [of _ "Suc j"])
    qed (use k h in simp)
  next
    case False
    then have "st = st1" "p' = p1" using Cons.prems c by auto
    then show ?thesis using create_helper_args [OF c] False by (auto intro!: exI [of _ 0])
  qed
qed simp

text \<open>Creating helpers awaits nothing; the processes that were forked are those of the new helpers, and it stops
  only when a pipe or a fork is refused.\<close>

fun forked :: "call list \<Rightarrow> int list" where
  "forked [] = []"
| "forked (c # l) = (case c of Forked pid \<Rightarrow> [pid] | _ \<Rightarrow> []) @ forked l"

lemma forked_append [simp]: "forked (l @ m) = forked l @ forked m"
  by (induction l) auto

definition none_waited :: "call list \<Rightarrow> bool" where
  "none_waited l \<longleftrightarrow> (\<forall>pid. Waited pid \<notin> set l)"

definition creation_refused :: "'s os \<Rightarrow> bool" where
  "creation_refused os \<longleftrightarrow> (\<exists>s. fst (os_pipe os s) = None \<or> fst (os_fork os s) = - 1)"

lemma create_helper_calls:
  assumes "create_helper os hco p = (st, p')"
  shows "(\<exists>l. pr_calls p' = pr_calls p @ l \<and> none_waited l \<and> map hp_pid (pr_helpers p') = map hp_pid (pr_helpers p) @ forked l)
    \<and> (st \<noteq> 0 \<longrightarrow> creation_refused os)"
proof -
  obtain f s where f: "os_pipe os (pr_os p) = (f, s)" by (metis surj_pair)
  obtain g s1 where g: "os_pipe os s = (g, s1)" by (metis surj_pair)
  obtain pid s2 where h: "os_fork os s1 = (pid, s2)" by (metis surj_pair)
  have "f = None \<or> g = None \<or> pid = - 1 \<Longrightarrow> creation_refused os"
    using f g h unfolding creation_refused_def by (metis fst_conv)
  moreover have "\<exists>l. pr_calls p' = pr_calls p @ l \<and> none_waited l \<and> map hp_pid (pr_helpers p') = map hp_pid (pr_helpers p) @ forked l"
    using assms f g h by (cases f; cases g; cases "pid = - 1")
      (auto simp: create_helper_def Let_def do_close_def none_waited_def split: prod.split_asm intro: exI [of _ "[]"])
  moreover have "st \<noteq> 0 \<Longrightarrow> f = None \<or> g = None \<or> pid = - 1"
    using assms f g h by (cases f; cases g; cases "pid = - 1") (auto simp: create_helper_def Let_def split: prod.split_asm)
  ultimately show ?thesis by blast
qed

lemma create_helpers_calls:
  "create_helpers os want p = (st, p') \<Longrightarrow>
    (\<exists>l. pr_calls p' = pr_calls p @ l \<and> none_waited l \<and> map hp_pid (pr_helpers p') = map hp_pid (pr_helpers p) @ forked l)
    \<and> (st \<noteq> 0 \<longrightarrow> creation_refused os)"
proof (induction want arbitrary: p)
  case (Cons i want)
  obtain st1 p1 where c: "create_helper os i p = (st1, p1)" by (metis surj_pair)
  obtain l where l: "pr_calls p1 = pr_calls p @ l" "none_waited l" "map hp_pid (pr_helpers p1) = map hp_pid (pr_helpers p) @ forked l"
    and r: "st1 \<noteq> 0 \<Longrightarrow> creation_refused os" using create_helper_calls [OF c] by blast
  show ?case
  proof (cases "st1 = 0")
    case True
    then have "create_helpers os want p1 = (st, p')" using Cons.prems c by simp
    from Cons.IH [OF this] obtain m where "pr_calls p' = pr_calls p1 @ m" "none_waited m"
      "map hp_pid (pr_helpers p') = map hp_pid (pr_helpers p1) @ forked m" "st \<noteq> 0 \<Longrightarrow> creation_refused os" by blast
    then show ?thesis using l by (auto simp: none_waited_def intro!: exI [of _ "l @ m"])
  qed (use Cons.prems c l r in auto)
qed (auto simp: none_waited_def intro: exI [of _ "[]"])

lemma reap_helpers_args: "helper_args (reap_helpers os x p) = []"
  by (simp add: reap_helpers_def helper_args_def)

lemma need_stop_args: "need_stop want (pr_helpers p) \<longleftrightarrow> map hc_raw_args want \<noteq> helper_args p"
  by (auto simp: need_stop_def helper_args_def map_equality_iff)

text \<open>C17: A chain that already is the wanted one is left as it is. Any other one is shut down
  whole: the input of its first helper is closed, and every process of it, in order, is waited for, before any
  new process is created. The helpers that run afterwards are exactly the processes created then,
  one per wanted effect, in the wanted order, with its arguments; when the system refuses a pipe or
  a process, those in front of the refused one run and those behind it do not.\<close>

theorem helpers_match_request:
  assumes "manage_processor os want p = Some (st, p')"
  shows "if helper_args p = map hc_raw_args want then st = 0 \<and> p' = p
    else (\<exists>fds new. pr_calls p' = pr_calls p @ first_close p @ map Closed fds @ map (Waited \<circ> hp_pid) (pr_helpers p) @ new
        \<and> none_waited new \<and> forked new = map hp_pid (pr_helpers p'))
      \<and> (if st = 0 then helper_args p' = map hc_raw_args want
         else (\<exists>k<length want. helper_args p' = take k (map hc_raw_args want)) \<and> creation_refused os)"
proof (cases "helper_args p = map hc_raw_args want")
  case True
  then have "(st, p') = (0, p)" using assms by (auto simp: manage_processor_def need_stop_args split: if_split_asm)
  then show ?thesis using True by simp
next
  case False
  then have n: "need_stop want (pr_helpers p)" by (simp add: need_stop_args)
  have "\<not> (want = [] \<and> pr_helpers p = [])" using False by (auto simp: helper_args_def)
  then obtain w p1 where s: "shutdown_chain os False p = Some (w, p1)" "create_helpers os want p1 = (st, p')"
    using assms n by (auto simp: manage_processor_def bind_eq_Some_conv split: if_split_asm)
  obtain fds where c1: "pr_calls p1 = pr_calls p @ first_close p @ map Closed fds @ map (Waited \<circ> hp_pid) (pr_helpers p)"
    using shutdown_chain_calls(1) [OF s(1)] by blast
  have h1: "pr_helpers p1 = []" by (rule shutdown_chain_calls(2) [OF s(1)])
  obtain new where c2: "pr_calls p' = pr_calls p1 @ new" "none_waited new" "map hp_pid (pr_helpers p') = forked new"
    and r: "st \<noteq> 0 \<Longrightarrow> creation_refused os" using create_helpers_calls [OF s(2)] h1 by auto
  have a: "if st = 0 then helper_args p' = map hc_raw_args want else \<exists>k<length want. helper_args p' = take k (map hc_raw_args want)"
    using create_helpers_args [OF s(2)] by (simp add: helper_args_def h1 del: map_map map_eq_conv cong: if_cong)
  have "\<exists>fds new. pr_calls p' = pr_calls p @ first_close p @ map Closed fds @ map (Waited \<circ> hp_pid) (pr_helpers p) @ new
      \<and> none_waited new \<and> forked new = map hp_pid (pr_helpers p')"
    using c1 c2 by (intro exI [of _ fds] exI [of _ new]) simp
  then show ?thesis using a r False by (cases "st = 0") simp_all
qed

theorem helpers_match_request_witness:
  "\<exists>st p'. manage_processor sample_os [hp_options (sample_helper 3)\<lparr>hc_raw_args := ''earwax''\<rparr>] (sample_processor\<lparr>pr_os := 1\<rparr>) = Some (st, p')
    \<and> (if st = 0 then helper_args p' = [''earwax''] else helper_args p' = [])
    \<and> (\<exists>fds new. pr_calls p' = [Closed 11] @ map Closed fds @ [Waited 1, Waited 2] @ new \<and> forked new = map hp_pid (pr_helpers p'))"
proof -
  let ?p = "sample_processor\<lparr>pr_os := 1\<rparr>"
  have h: "helper_args ?p \<noteq> map hc_raw_args [hp_options (sample_helper 3)\<lparr>hc_raw_args := ''earwax''\<rparr>]" "pr_calls ?p = []" "first_close ?p = [Closed 11]" "map (Waited \<circ> hp_pid) (pr_helpers ?p) = [Waited 1, Waited 2]"
    by (simp_all add: sample_processor_def sample_helper_def helper_args_def first_close_def)
  have "case manage_processor sample_os [hp_options (sample_helper 3)\<lparr>hc_raw_args := ''earwax''\<rparr>] (sample_processor\<lparr>pr_os := 1\<rparr>) of
      Some _ \<Rightarrow> True | None \<Rightarrow> False"
    by code_simp
  then obtain st p' where r: "manage_processor sample_os [hp_options (sample_helper 3)\<lparr>hc_raw_args := ''earwax''\<rparr>] (sample_processor\<lparr>pr_os := 1\<rparr>) = Some (st, p')"
    by (auto split: option.split_asm)
  have "(\<exists>fds new. pr_calls p' = pr_calls ?p @ first_close ?p @ map Closed fds @ map (Waited \<circ> hp_pid) (pr_helpers ?p) @ new
        \<and> none_waited new \<and> forked new = map hp_pid (pr_helpers p'))
      \<and> (if st = 0 then helper_args p' = map hc_raw_args [hp_options (sample_helper 3)\<lparr>hc_raw_args := ''earwax''\<rparr>]
         else (\<exists>k<length [hp_options (sample_helper 3)\<lparr>hc_raw_args := ''earwax''\<rparr>].
            helper_args p' = take k (map hc_raw_args [hp_options (sample_helper 3)\<lparr>hc_raw_args := ''earwax''\<rparr>])) \<and> creation_refused sample_os)"
    using helpers_match_request [OF r] unfolding if_not_P [OF h(1)] .
  then have "\<exists>fds new. pr_calls p' = [Closed 11] @ map Closed fds @ [Waited 1, Waited 2] @ new \<and> forked new = map hp_pid (pr_helpers p')"
    "if st = 0 then helper_args p' = [''earwax''] else helper_args p' = []"
    unfolding h by (auto split: if_split_asm)
  then show ?thesis using r by blast
qed

section \<open>A buffer is written whole\<close>

definition writes_progress :: "'s os \<Rightarrow> bool" where
  "writes_progress os \<longleftrightarrow> (\<forall>fd b s. b \<noteq> [] \<longrightarrow> fst (os_write os fd b s) \<noteq> 0)"

lemma write_loop_returns:
  assumes "writes_bounded os" and "writes_progress os"
  shows "k \<le> length buf \<Longrightarrow> \<exists>r. write_loop os buf k hup p = Some r"
proof (induction "length buf - k" arbitrary: k hup p rule: less_induct)
  case less
  obtain n p1 where w: "do_write os (pr_write_fifo p) (drop k buf) p = (n, p1)" by (metis surj_pair)
  have n: "n \<le> int (length buf - k)" using do_write_io [OF w assms(1)] by simp
  show ?case
  proof (cases "\<not> hup \<and> (n > 0 \<or> k < length buf) \<and> \<not> n < 0")
    case False
    then show ?thesis by (subst write_loop.simps) (auto simp: w)
  next
    case True
    have "n \<noteq> 0"
    proof (cases "k < length buf")
      case True
      then show ?thesis using w assms(2) unfolding do_write_def writes_progress_def
        by (auto split: prod.split_asm) (metis drop_eq_Nil fst_conv not_less)
    qed (use True n in simp)
    then have "length buf - (k + nat n) < length buf - k" "k + nat n \<le> length buf" using True n less.prems by auto
    moreover obtain ev revs p2 where "do_poll os [(pr_write_fifo p1, False)] 0 p1 = ((ev, revs), p2)" by (metis surj_pair)
    ultimately show ?thesis using less.hyps True by (subst write_loop.simps) (simp add: w)
  qed
qed

text \<open>C26: Writing to the main process ends, and either it failed or the whole buffer has been written, in
  pieces as the FIFO takes them, with nothing else between them. This needs of the operating system
  that a write accepts at most what it is given and never nothing without an error.\<close>

theorem buffer_written_whole:
  assumes "writes_bounded os" and "writes_progress os" and "pr_write_fifo p \<noteq> 1" and "pr_io p = []"
  shows "\<exists>n p'. write_out os b p = Some (n, p') \<and> (n = - 1 \<or> 0 \<le> n \<and> wr_bytes (pr_write_fifo p) (pr_io p') = b)"
proof -
  have "\<exists>r. write_out os b p = Some r"
    using write_loop_returns [OF assms(1,2), of 0 b] by (auto simp: write_out_def split: prod.split)
  then obtain n p' where r: "write_out os b p = Some (n, p')" by (metis surj_pair)
  then show ?thesis using write_out_wrote [OF r assms(1,3)] assms(4) by (auto simp: wrote_def)
qed

theorem buffer_written_whole_witness:
  "\<exists>n p'. write_out sample_os ''abc'' sample_processor = Some (n, p') \<and> (n = - 1 \<or> 0 \<le> n \<and> wr_bytes 5 (pr_io p') = ''abc'')"
  using buffer_written_whole [of sample_os sample_processor "''abc''"]
  by (auto simp: sample_os_def sample_processor_def writes_bounded_def writes_progress_def)

section \<open>The processing child\<close>

text \<open>The options of the child that change while it runs, and the debug flag of the process.\<close>

record proc_run =
  pn_file_path :: string
  pn_seek_to :: string
  pn_volume :: int
  pn_current_volume :: int
  pn_chain :: "helper_chain_option_t list"
  pn_debug :: bool

definition volume_text :: "int \<Rightarrow> string" where
  "volume_text v = vol_to_str (fl_of_int 24 v)"

definition standalone_args :: "proc_run \<Rightarrow> string list" where
  "standalone_args r =
    [''ffmpeg''] @ (if pn_seek_to r \<noteq> [] then [''-ss'', pn_seek_to r] else [])
    @ [''-v'', ''debug'', ''-c:a'', ''opus'', ''-f'', ''ogg'', ''-i'', pn_file_path r, ''-af'', ''volume='' @ volume_text (pn_volume r),
       ''-ac'', ''2'', ''-ar'', ''48000'', ''-threads'', ''1'', ''-stdin'', ''-f'', ''s16le'', ''pipe:1'']"

definition helper_main_args :: "helper_chain_option_t \<Rightarrow> string list" where
  "helper_main_args hco =
    [''ffmpeg'', ''-v'', ''debug'', ''-probesize'', ''32'', ''-f'', ''s16le'', ''-ac'', ''2'', ''-ar'', ''48000'', ''-i'', ''-'',
     ''-af'', hc_raw_args hco, ''-f'', ''s16le'', ''-ac'', ''2'', ''-threads'', ''1'', ''-nostdin'', ''-'']"

definition ERR_SFIFO :: int where "ERR_SFIFO = 2"
definition ERR_SPIPE :: int where "ERR_SPIPE = 3"
definition ERR_SFORK :: int where "ERR_SFORK = 4"

text \<open>A FIFO takes the place of a standard stream. \<open>False\<close> is an error.\<close>

definition redirect_fifo :: "'s os \<Rightarrow> string \<Rightarrow> int \<Rightarrow> 's processor \<Rightarrow> bool \<times> 's processor" where
  "redirect_fifo os path target p =
    (case os_open os path (pr_os p) of
       (fd, s) \<Rightarrow> if fd < 0 then (False, p\<lparr>pr_os := s\<rparr>)
         else (case os_dup2 os fd target s of (st, s1) \<Rightarrow> (st \<noteq> - 1, close_valid_fd os fd (p\<lparr>pr_os := s1\<rparr>))))"

definition init_fifos :: "'s os \<Rightarrow> command_options_t \<Rightarrow> 's processor \<Rightarrow> int \<times> 's processor" where
  "init_fifos os opts p =
    (case os_open os (op_audio_stream_fifo_path opts) (pr_os p) of
       (w, s) \<Rightarrow>
         let p1 = p\<lparr>pr_os := s, pr_write_fifo := w\<rparr>;
             failed = (\<lambda>q. (ERR_SFIFO, do_close os 1 ((close_valid_fd os (pr_write_fifo q) q)\<lparr>pr_write_fifo := - 1\<rparr>)))
         in if w < 0 then (ERR_SFIFO, do_close os 1 p1)
            else case redirect_fifo os (op_audio_stream_stdin_path opts) 0 p1 of
              (ok, p2) \<Rightarrow> if \<not> ok then failed p2
                else (case redirect_fifo os (op_audio_stream_stdout_path opts) 1 p2 of
                  (ok1, p3) \<Rightarrow> if \<not> ok1 then failed p3 else (0, p3)))"

text \<open>The descriptors of both pipes are closed when something fails.\<close>

definition standalone_failed :: "'s os \<Rightarrow> int \<Rightarrow> int \<Rightarrow> 's processor \<Rightarrow> 's processor" where
  "standalone_failed os creadfd cwritefd p =
    (close_valid_fd os cwritefd (close_valid_fd os (pr_preadfd p) (close_valid_fd os creadfd (close_valid_fd os (pr_pwritefd p) p))))
      \<lparr>pr_preadfd := - 1, pr_pwritefd := - 1\<rparr>"

definition init_standalone :: "'s os \<Rightarrow> 's processor \<Rightarrow> int \<times> 's processor" where
  "init_standalone os p =
    (case os_pipe os (pr_os p) of
       (None, s) \<Rightarrow> (ERR_SPIPE, standalone_failed os (- 1) (- 1) (p\<lparr>pr_os := s\<rparr>))
     | (Some (pread, cwrite), s) \<Rightarrow>
         let p1 = p\<lparr>pr_os := s, pr_preadfd := pread\<rparr>
         in case os_pipe os s of
              (None, s1) \<Rightarrow> (ERR_SPIPE, standalone_failed os (- 1) cwrite (p1\<lparr>pr_os := s1\<rparr>))
            | (Some (cread, pwrite), s1) \<Rightarrow>
                (case os_fork os s1 of
                   (pid, s2) \<Rightarrow>
                     let p2 = p1\<lparr>pr_os := s2, pr_pwritefd := pwrite, pr_cpid := pid,
                       pr_calls := pr_calls p1 @ (if pid = - 1 then [] else [Forked pid])\<rparr>
                     in if pid = - 1 then (ERR_SFORK, standalone_failed os cread cwrite p2)
                        else let p3 = close_valid_fd os cread (close_valid_fd os cwrite p2)
                          in (0, p3\<lparr>pr_os := os_sem_wait os (pr_os p3)\<rparr>)))"

text \<open>At most one command from the standard input; an option that cannot be parsed throws.\<close>

definition apply_command :: "command_options_t \<Rightarrow> proc_run \<Rightarrow> proc_run" where
  "apply_command c r =
    (if op_command c = key_seek then r\<lparr>pn_seek_to := op_seek c\<rparr>
     else if op_command c = key_volume then r\<lparr>pn_volume := op_volume c\<rparr>
     else if op_command c = key_helper_chain then r\<lparr>pn_chain := parse_helper_chain_option c\<rparr>
     else r)"

definition read_command :: "'s os \<Rightarrow> proc_run \<Rightarrow> 's processor \<Rightarrow> (bool \<times> proc_run \<times> 's processor) result" where
  "read_command os r p =
    (case do_poll os [(0, True)] 0 p of
       ((ev, revs), p1) \<Rightarrow>
         if \<not> (ev > 0 \<and> rv_in (rv_at revs 0)) then Inr (False, r, p1)
         else case do_read os 0 CMD_BUFSIZE p1 of
           (x, p2) \<Rightarrow>
             if x = None \<or> x = Some [] then Inr (False, r, p2)
             else bind_result (parse_command_to_options (c_str (the x)) (create_command_options, pn_debug r)) (\<lambda>(c, dbg).
               Inr (True, apply_command c (r\<lparr>pn_debug := dbg\<rparr>), p2)))"

definition notify_seek_done :: "'s os \<Rightarrow> 's processor \<Rightarrow> 's processor" where
  "notify_seek_done os p = snd (do_write os (pr_write_fifo p) ''BOOB'' p)"

text \<open>Passing on what ffmpeg has decoded, until nothing is ready, a command came, or writing failed: what
  is left of the last buffer, the two flags, and the states.\<close>

partial_function (option) drain_loop ::
  "'s os \<Rightarrow> bool \<Rightarrow> string \<Rightarrow> proc_run \<Rightarrow> 's processor \<Rightarrow> ((string \<times> bool \<times> bool) \<times> proc_run \<times> 's processor) result option" where
  "drain_loop os ready cur r p =
    (if \<not> ready then Some (Inr ((cur, False, False), r, p))
     else case do_read os (pr_preadfd p) BUFFER_SIZE p of
       (x, p1) \<Rightarrow>
         if x = None \<or> x = Some [] then Some (Inr (([], False, False), r, p1))
         else Option.bind (write_stdout os (the x) p1) (\<lambda>((ret, siz), p2).
           let left = take siz (the x)
           in if ret = - 1 then Some (Inr ((left, True, False), r, p2))
              else case read_command os r p2 of
                Inl e \<Rightarrow> Some (Inl e)
              | Inr (got, r1, p3) \<Rightarrow>
                  if got then Some (Inr ((left, False, True), r1, p3))
                  else case do_poll os [(pr_preadfd p3, True)] 0 p3 of
                    ((ev, revs), p4) \<Rightarrow> drain_loop os (ev > 0 \<and> rv_in (rv_at revs 0)) left r1 p4))"

datatype round_end = R_next | R_done bool | R_fail int

definition close_standalone :: "'s os \<Rightarrow> 's processor \<Rightarrow> 's processor" where
  "close_standalone os p =
    (let p1 = (close_valid_fd os (pr_preadfd p) (close_valid_fd os (pr_pwritefd p) p))\<lparr>pr_preadfd := - 1, pr_pwritefd := - 1\<rparr>
     in do_waitpid os (pr_cpid p1) p1)"

text \<open>A new position means a new ffmpeg process and helpers without a past. The status is that of \<open>init_standalone\<close>.\<close>

definition apply_seek :: "'s os \<Rightarrow> proc_run \<Rightarrow> 's processor \<Rightarrow> (int \<times> proc_run \<times> 's processor) option" where
  "apply_seek os r p =
    (if pn_seek_to r = [] then Some (0, r, p)
     else case init_standalone os (close_standalone os p) of
       (st, p1) \<Rightarrow>
         if st \<noteq> 0 then Some (st, r, notify_seek_done os p1)
         else Option.bind (shutdown_chain os True p1) (\<lambda>(_, p2). Some (0, r\<lparr>pn_seek_to := []\<rparr>, notify_seek_done os p2)))"

definition apply_volume :: "'s os \<Rightarrow> proc_run \<Rightarrow> 's processor \<Rightarrow> proc_run \<times> 's processor" where
  "apply_volume os r p =
    (if pn_volume r = pn_current_volume r then (r, p)
     else (r\<lparr>pn_current_volume := pn_volume r\<rparr>,
       snd (do_write os (pr_pwritefd p) (''call -1 volume '' @ volume_text (pn_volume r) @ [CHR 0x0A, NUL]) p)))"

definition apply_options :: "'s os \<Rightarrow> proc_run \<Rightarrow> 's processor \<Rightarrow> (round_end \<times> proc_run \<times> 's processor) option" where
  "apply_options os r p =
    Option.bind (apply_seek os r p) (\<lambda>(st, r1, p1).
      if st \<noteq> 0 then Some (R_fail st, r1, p1)
      else Option.bind (manage_processor os (pn_chain r1) p1) (\<lambda>(_, p2).
        case apply_volume os r1 p2 of (r2, p3) \<Rightarrow> Some (R_next, r2, p3)))"

definition processor_round ::
  "'s os \<Rightarrow> proc_run \<Rightarrow> 's processor \<Rightarrow> (round_end \<times> proc_run \<times> 's processor) result option" where
  "processor_round os r p =
    (case do_poll os [(pr_preadfd p, True)] 10 p of
       ((ev, revs), p1) \<Rightarrow>
         if rv_err (rv_at revs 0) \<or> rv_hup (rv_at revs 0) then Some (Inr (R_done False, r, p1))
         else Option.bind (drain_loop os (ev > 0 \<and> rv_in (rv_at revs 0)) [] r p1) (\<lambda>d. case d of
           Inl e \<Rightarrow> Some (Inl e)
         | Inr ((left, failed, has_command), r2, p2) \<Rightarrow>
             if failed then Some (Inr (R_done True, r2, p2))
             else Option.bind (if left = [] then Some ((0, 0), p2) else write_stdout os left p2) (\<lambda>((ret, _), p3).
               if ret = - 1 then Some (Inr (R_done True, r2, p3))
               else case (if has_command then Inr (True, r2, p3) else read_command os r2 p3) of
                 Inl e \<Rightarrow> Some (Inl e)
               | Inr (_, r4, p4) \<Rightarrow> map_option Inr (apply_options os r4 p4))))"

partial_function (option) processor_loop ::
  "'s os \<Rightarrow> proc_run \<Rightarrow> 's processor \<Rightarrow> (round_end \<times> proc_run \<times> 's processor) result option" where
  "processor_loop os r p =
    Option.bind (processor_round os r p) (\<lambda>x. case x of
      Inl e \<Rightarrow> Some (Inl e)
    | Inr (e, r1, p1) \<Rightarrow> if e = R_next then processor_loop os r1 p1 else Some (Inr (e, r1, p1)))"

definition init_failed :: "'s os \<Rightarrow> int \<Rightarrow> 's processor \<Rightarrow> (int \<times> 's processor) result option" where
  "init_failed os st p = map_option (\<lambda>(_, p1). Inr (st, p1)) (shutdown_chain os True p)"

definition run_processor :: "'s os \<Rightarrow> command_options_t \<Rightarrow> bool \<Rightarrow> 's processor \<Rightarrow> (int \<times> 's processor) result option" where
  "run_processor os opts dbg p =
    (let r = \<lparr>pn_file_path = op_file_path opts, pn_seek_to = op_seek opts, pn_volume = op_volume opts,
           pn_current_volume = op_volume opts, pn_chain = parse_helper_chain_option opts, pn_debug = dbg\<rparr>
     in Option.bind (manage_processor os (pn_chain r) p) (\<lambda>(_, p0).
       case init_fifos os opts p0 of
         (st, p1) \<Rightarrow> if st \<noteq> 0 then init_failed os st p1
           else case init_standalone os p1 of
             (st1, p2) \<Rightarrow> if st1 \<noteq> 0 then init_failed os st1 p2
               else Option.bind (processor_loop os r p2) (\<lambda>x. case x of
                 Inl e \<Rightarrow> Some (Inl e)
               | Inr (e, _, p3) \<Rightarrow> (case e of
                   R_fail st2 \<Rightarrow> init_failed os st2 p3
                 | R_done failed \<Rightarrow> map_option (\<lambda>(_, p4). Inr (0, p4)) (shutdown_chain os failed (close_standalone os p3))
                 | R_next \<Rightarrow> None))))"

text \<open>The end of the track. When ffmpeg has finished, poll reports the hang-up together with what is still
  in the pipe, and the loop ends without reading it.\<close>

lemma tail_not_read:
  assumes "do_poll os [(pr_preadfd p, True)] 10 p = ((ev, revs), p1)" and "rv_hup (rv_at revs 0)"
  shows "processor_loop os r p = Some (Inr (R_done False, r, p1)) \<and> pr_io p1 = pr_io p"
  using assms do_poll_same [OF assms(1)] by (subst processor_loop.simps) (simp add: processor_round_def)

text \<open>A chain that does not take the buffer within ten milliseconds is passed by: the sound goes out
  without its effects.\<close>

lemma chain_bypassed:
  assumes "do_poll os (helper_fds (pr_helpers p)) 10 p = ((0, revs), p1)" and "pr_helpers p \<noteq> []" and "b \<noteq> []"
    and "pr_pending_read p = []" and "pr_pending_write p = []"
  shows "write_stdout os b p = Option.bind (write_out os b p1) (\<lambda>(ret, p2). Some ((ret, if ret = - 1 then length b else 0), p2))"
proof -
  have ne: "helper_fds (pr_helpers p) \<noteq> []" using assms(2) by (cases "pr_helpers p") (auto simp: helper_fds_def)
  have "pr_pending_read p1 = []" "pr_pending_write p1 = []"
    using do_poll_same [OF assms(1)] assms(4,5) by (auto simp: same_tables_def)
  then have "run_through_chain os (Some b) False p = Some ((0, length b), p1)"
    using assms ne by (simp add: run_through_chain_def) (subst chain_loop.simps, simp)
  then show ?thesis using assms(3) by (simp add: write_stdout_def)
qed

section \<open>A new position\<close>

definition quiet :: "'s processor \<Rightarrow> 's processor \<Rightarrow> bool" where
  "quiet p p' \<longleftrightarrow> pr_io p' = pr_io p \<and> pr_write_fifo p' = pr_write_fifo p"

lemma quiet_close: "quiet p (do_close os fd q) = quiet p q" "quiet p (close_valid_fd os fd q) = quiet p q"
  by (simp_all add: quiet_def do_close_def close_valid_fd_def)

lemma quiet_update:
  "quiet p (q\<lparr>pr_os := s\<rparr>) = quiet p q" "quiet p (q\<lparr>pr_helpers := h\<rparr>) = quiet p q" "quiet p (q\<lparr>pr_preadfd := a\<rparr>) = quiet p q"
  "quiet p (q\<lparr>pr_pwritefd := b\<rparr>) = quiet p q" "quiet p (q\<lparr>pr_cpid := c\<rparr>) = quiet p q" "quiet p p"
  "quiet p (q\<lparr>pr_calls := d\<rparr>) = quiet p q" "quiet p (do_waitpid os pid q) = quiet p q"
  "quiet p (q\<lparr>pr_pending_read := v\<rparr>) = quiet p q" "quiet p (q\<lparr>pr_pending_write := v\<rparr>) = quiet p q"
  by (simp_all add: quiet_def do_waitpid_def)

lemmas quiet_simps = quiet_close quiet_update

lemma quiet_trans: "quiet p q \<Longrightarrow> quiet q r \<Longrightarrow> quiet p r"
  by (simp add: quiet_def)

lemma quiet_init_standalone:
  "init_standalone os p = (st, p') \<Longrightarrow> quiet p p' \<and> (st = 0 \<longrightarrow> (\<exists>s a s'. os_pipe os s = (Some (a, pr_pwritefd p'), s')))"
  by (auto simp: init_standalone_def standalone_failed_def Let_def ERR_SPIPE_def ERR_SFORK_def quiet_simps
      close_valid_fd_def do_close_def split: prod.split_asm option.split_asm if_split_asm) blast+

lemma quiet_reap: "quiet p (reap_helpers os x p)"
proof -
  have "quiet p q \<Longrightarrow> quiet p (fold (reap_helper os x) hs q)" for hs q
    by (induction hs arbitrary: q) (simp_all add: reap_helper_def Let_def quiet_simps)
  then show ?thesis by (simp add: reap_helpers_def quiet_simps)
qed

lemma reap_pwritefd: "pr_pwritefd (reap_helpers os x p) = pr_pwritefd p" "pr_helpers (reap_helpers os x p) = []"
proof -
  have "pr_pwritefd (fold (reap_helper os x) hs q) = pr_pwritefd q" for hs q
    by (induction hs arbitrary: q) (simp_all add: reap_helper_def Let_def close_valid_fd_def do_close_def do_waitpid_def)
  then show "pr_pwritefd (reap_helpers os x p) = pr_pwritefd p" by (simp add: reap_helpers_def)
qed (simp add: reap_helpers_def)

lemma quiet_create: "create_helpers os want p = (st, p') \<Longrightarrow> quiet p p' \<and> pr_pwritefd p' = pr_pwritefd p"
proof (induction want arbitrary: p)
  case (Cons i want)
  obtain st1 p1 where c: "create_helper os i p = (st1, p1)" by (metis surj_pair)
  then have "quiet p p1 \<and> pr_pwritefd p1 = pr_pwritefd p"
    by (auto simp: create_helper_def Let_def quiet_simps do_close_def split: prod.split_asm option.split_asm if_split_asm)
  then show ?case using Cons c by (cases "st1 = 0") (auto dest: quiet_trans)
qed (simp add: quiet_simps)

lemma quiet_manage:
  assumes "manage_processor os want p = Some (st, p')" and "pr_helpers p = []"
  shows "quiet p p' \<and> pr_pwritefd p' = pr_pwritefd p"
proof (cases "want = []")
  case False
  then have "need_stop want (pr_helpers p)" using assms(2) by (simp add: need_stop_def)
  moreover have "shutdown_chain os False p = Some (0, reap_helpers os False p)"
    using assms(2) by (simp add: shutdown_chain_def run_through_chain_def)
  ultimately have "create_helpers os want (reap_helpers os False p) = (st, p')"
    using assms False by (auto simp: manage_processor_def)
  then show ?thesis using quiet_create quiet_trans [OF quiet_reap] reap_pwritefd(1) by metis
qed (use assms in \<open>auto simp: manage_processor_def quiet_simps\<close>)

lemma notify_seek_io:
  obtains n where "pr_io (notify_seek_done os p) = pr_io p @ [Wr (pr_write_fifo p) ''BOOB'' n]"
    "pr_write_fifo (notify_seek_done os p) = pr_write_fifo p" "pr_helpers (notify_seek_done os p) = pr_helpers p"
    "pr_pwritefd (notify_seek_done os p) = pr_pwritefd p"
proof -
  obtain n s where w: "os_write os (pr_write_fifo p) ''BOOB'' (pr_os p) = (n, s)" by (metis surj_pair)
  show ?thesis by (rule that [of n]) (use w in \<open>simp_all add: notify_seek_done_def do_write_def\<close>)
qed

definition sent_marker :: "'s processor \<Rightarrow> 's processor \<Rightarrow> bool" where
  "sent_marker p p' \<longleftrightarrow> (\<exists>n. writes_to (pr_write_fifo p) (pr_io p') = writes_to (pr_write_fifo p) (pr_io p) @ [(''BOOB'', n)]
    \<and> wr_bytes (pr_write_fifo p) (pr_io p') = wr_bytes (pr_write_fifo p) (pr_io p) @ take (nat n) ''BOOB'')"

lemma manage_from_none:
  assumes "manage_processor os want p = Some (st, p')" and "pr_helpers p = []"
  shows "helper_args p' = map hc_raw_args want
    \<or> (\<exists>k<length want. helper_args p' = take k (map hc_raw_args want)) \<and> creation_refused os"
proof (cases "want = []")
  case False
  then have "need_stop want (pr_helpers p)" using assms(2) by (simp add: need_stop_def)
  then obtain n p1 where s: "shutdown_chain os False p = Some (n, p1)" "create_helpers os want p1 = (st, p')"
    using assms(1) False by (auto simp: manage_processor_def bind_eq_Some_conv)
  have "helper_args p1 = []" using shutdown_chain_calls(2) [OF s(1)] by (simp add: helper_args_def)
  then show ?thesis using create_helpers_args [OF s(2)] create_helpers_calls [OF s(2)] by (cases "st = 0") auto
qed (use assms in \<open>auto simp: manage_processor_def helper_args_def\<close>)

lemma sent_marker_io: "pr_io p' = pr_io p @ [Wr (pr_write_fifo p) ''BOOB'' n] \<Longrightarrow> sent_marker p p'"
  by (auto simp: sent_marker_def)

text \<open>C22: Every seek is answered by exactly one marker. When the child works on a new position, the
  marker is the only thing it writes to the main process: one write of its four bytes, with no sound of the old position
  in front of them or behind them, whether a new ffmpeg process could be started or not. What the FIFO does not take of it is
  not sent again. If ffmpeg could be started, the position is no longer pending and the helpers are the wanted
  ones, or the first of them when the system refused a pipe or a process, which the child does not report.
  Assumed: a new pipe does not have the number of the open FIFO.\<close>

theorem seek_sends_one_marker:
  assumes "apply_options os r p = Some (e, r', p')" and "pn_seek_to r \<noteq> []"
    and "\<forall>s a b s'. os_pipe os s = (Some (a, b), s') \<longrightarrow> b \<noteq> pr_write_fifo p"
  shows "(\<exists>n. writes_to (pr_write_fifo p) (pr_io p') = writes_to (pr_write_fifo p) (pr_io p) @ [(''BOOB'', n)]
      \<and> wr_bytes (pr_write_fifo p) (pr_io p') = wr_bytes (pr_write_fifo p) (pr_io p) @ take (nat n) ''BOOB'')
    \<and> (e = R_next \<longrightarrow> pn_seek_to r' = [] \<and> (helper_args p' = map hc_raw_args (pn_chain r)
        \<or> (\<exists>k<length (pn_chain r). helper_args p' = take k (map hc_raw_args (pn_chain r))) \<and> creation_refused os))
    \<and> (e = R_next \<or> (\<exists>st. st \<noteq> 0 \<and> e = R_fail st))"
proof -
  let ?f = "pr_write_fifo p"
  have qc: "quiet p (close_standalone os p)" by (simp add: close_standalone_def Let_def quiet_simps)
  obtain st p1 where i: "init_standalone os (close_standalone os p) = (st, p1)" by (metis surj_pair)
  have q1: "quiet p p1" using quiet_trans [OF qc] quiet_init_standalone [OF i] by blast
  then have f1: "pr_write_fifo p1 = ?f" "pr_io p1 = pr_io p" by (simp_all add: quiet_def)
  show ?thesis
  proof (cases "st = 0")
    case False
    then have r: "e = R_fail st" "p' = notify_seek_done os p1"
      using assms(1,2) i by (auto simp: apply_options_def apply_seek_def)
    obtain n where "pr_io (notify_seek_done os p1) = pr_io p1 @ [Wr (pr_write_fifo p1) ''BOOB'' n]"
      by (rule notify_seek_io)
    then have "sent_marker p p'" by (intro sent_marker_io) (simp add: r(2) f1)
    then show ?thesis using r(1) False by (simp add: sent_marker_def)
  next
    case True
    let ?p2 = "reap_helpers os True p1"
    let ?p3 = "notify_seek_done os ?p2"
    have f2: "pr_write_fifo ?p2 = ?f" "pr_io ?p2 = pr_io p" using quiet_reap [of p1 os True] f1 by (auto simp: quiet_def)
    obtain k where n: "pr_io ?p3 = pr_io ?p2 @ [Wr ?f ''BOOB'' k]" "pr_write_fifo ?p3 = ?f" "pr_helpers ?p3 = pr_helpers ?p2"
      "pr_pwritefd ?p3 = pr_pwritefd ?p2"
      using notify_seek_io [of os ?p2] f2(1) by metis
    obtain x p4 where m: "manage_processor os (pn_chain r) ?p3 = Some (x, p4)"
      and e: "e = R_next" "(r', p') = apply_volume os (r\<lparr>pn_seek_to := []\<rparr>) p4"
      using assms(1,2) i True by (auto simp: apply_options_def apply_seek_def shutdown_chain_def bind_eq_Some_conv split: prod.split_asm)
    have "quiet ?p3 p4 \<and> pr_pwritefd p4 = pr_pwritefd ?p3"
      by (rule quiet_manage [OF m]) (simp add: n(3) reap_pwritefd(2))
    then have p4: "pr_io p4 = pr_io p @ [Wr ?f ''BOOB'' k]" "pr_pwritefd p4 = pr_pwritefd p1"
      using n f2 reap_pwritefd(1) by (simp_all add: quiet_def)
    have pw: "pr_pwritefd p1 \<noteq> ?f" using quiet_init_standalone [OF i] True assms(3) by blast
    have "pr_helpers ?p3 = []" by (simp add: n(3) reap_pwritefd(2))
    note args = manage_from_none [OF m this]
    have "\<exists>v. pr_io p' = pr_io p4 @ v \<and> writes_to ?f v = [] \<and> wr_bytes ?f v = [] \<and> pr_helpers p' = pr_helpers p4"
    proof (cases "pn_volume r = pn_current_volume r")
      case False
      let ?b = "''call -1 volume '' @ volume_text (pn_volume r) @ [CHR 0x0A, NUL]"
      obtain j p5 where w: "do_write os (pr_pwritefd p4) ?b p4 = (j, p5)" by (metis surj_pair)
      then have "p' = p5" using e(2) False by (simp add: apply_volume_def)
      then show ?thesis using w pw p4(2)
        by (intro exI [of _ "[Wr (pr_pwritefd p4) ?b j]"]) (auto simp: do_write_def split: prod.split_asm)
    qed (use e(2) in \<open>simp add: apply_volume_def\<close>)
    then obtain v where v: "pr_io p' = pr_io p4 @ v" "writes_to ?f v = []" "wr_bytes ?f v = []" "pr_helpers p' = pr_helpers p4" by blast
    have "sent_marker p p'" unfolding sent_marker_def by (intro exI [of _ k]) (simp add: v p4(1))
    moreover have "pn_seek_to r' = []" using e(2) by (auto simp: apply_volume_def split: if_split_asm)
    moreover have "helper_args p' = helper_args p4" by (simp add: helper_args_def v(4))
    ultimately show ?thesis using args e(1) unfolding sent_marker_def by simp
  qed
qed

definition sample_run :: proc_run where
  "sample_run = \<lparr>pn_file_path = ''a.opus'', pn_seek_to = ''1:00'', pn_volume = 100, pn_current_volume = 100, pn_chain = [], pn_debug = False\<rparr>"

theorem seek_sends_one_marker_witness:
  "\<exists>e r' p' n. apply_options sample_os sample_run sample_processor = Some (e, r', p') \<and> writes_to 5 (pr_io p') = [(''BOOB'', n)]"
proof -
  have "case apply_options sample_os sample_run sample_processor of Some _ \<Rightarrow> True | None \<Rightarrow> False" by code_simp
  then obtain e r' p' where r: "apply_options sample_os sample_run sample_processor = Some (e, r', p')"
    by (auto split: option.split_asm)
  have "\<exists>n. writes_to (pr_write_fifo sample_processor) (pr_io p') = writes_to (pr_write_fifo sample_processor) (pr_io sample_processor) @ [(''BOOB'', n)]
      \<and> wr_bytes (pr_write_fifo sample_processor) (pr_io p') = wr_bytes (pr_write_fifo sample_processor) (pr_io sample_processor) @ take (nat n) ''BOOB''"
    by (rule seek_sends_one_marker [OF r, THEN conjunct1]) (simp_all add: sample_run_def sample_os_def sample_processor_def)
  then show ?thesis using r by (auto simp: sample_processor_def)
qed

text \<open>The chain from the options to the text of a command and back.\<close>

theorem helper_chain_options_exact_witness:
  "\<exists>opts. map hc_raw_args (parse_helper_chain_option opts) = [''earwax'', ''tremolo=f=3'']"
proof -
  have "map hc_raw_args (parse_helper_chain_option (create_command_options\<lparr>op_helper_chain := [] @ chain_text [''earwax'', [], ''!tremolo=f=3'']\<rparr>))
    = filter (\<lambda>b. b \<noteq> []) (map (dropWhile (\<lambda>c. c = CHR ''!'')) [''earwax'', [], ''!tremolo=f=3''])"
    by (rule helper_chain_options_exact [of _ create_command_options False _ False])
      (simp_all only: assign_helper_chain, simp_all add: create_command_options_def)
  then show ?thesis by (intro exI [of _ "create_command_options\<lparr>op_helper_chain := [] @ chain_text [''earwax'', [], ''!tremolo=f=3'']\<rparr>"]) simp
qed

end
