(* ===== verification/Spec2Isabelle.thy ===== *)
theory Spec2Isabelle
  imports Worker Stream Filters Paginate Routes Tasks Leaf Db Processor
begin

text \<open>
  Musicat is a Discord music bot. This is the root of its verification development; every
  path below is relative to \<open>src/\<close> of the repository (so \<open>src/musicat/player.cpp\<close> is the file
  \<open>src/src/musicat/player.cpp\<close> of the tree, and \<open>include/musicat/\<close> is \<open>src/include/musicat/\<close>).

  \<^bold>\<open>The program.\<close> One process talks to Discord through the dpp library. Every guild (server) has a
  player: a queue of tracks, the place of the playing one, loop and effect settings. Slash
  commands, buttons, messages of the web dashboard, voice events and timers all work on it through
  the player manager. When a track ends, the voice connection reaches a track marker, and its
  handler starts the next one: the file is taken from the music folder or downloaded, a stream
  context decodes, filters and encodes it, and one of a few stream threads runs it. Work that may
  block (yt-dlp, ffmpeg, shell commands) is done by children of a second process, the worker, which
  the first one commands through pipes with lines of text.

  \<^bold>\<open>Theories, in the order they build on each other.\<close>

  \<^item> \<open>Prelude\<close>, \<open>CppStd\<close>, \<open>Floats\<close>, \<open>Json\<close>: machine types, outcomes (\<open>'a result\<close> is an
    exception or a value; \<open>'a option\<close> is \<open>None\<close> where the C++ is undefined), deque operations,
    \<open>std::to_string\<close> and \<open>std::stoi\<close>, finite \<open>float\<close> and \<open>double\<close> values as dyadic numbers with the
    rounding of each operation, the \<open>nlohmann::json\<close> calls the sources use.
  \<^item> \<open>Interfaces\<close>: the contracts shared by components, as locales: \<open>kv_store\<close> (a table read and
    written by key), \<open>registry\<close> (entries registered once per key), \<open>id_set\<close> (a set of guild ids
    kept in a vector or map). Each is interpreted on the tables of the components that provide it.
  \<^item> \<open>Util\<close>: \<open>src/musicat/util.cpp\<close> and the pure helpers of \<open>musicat.cpp\<close>: fuzzy match, focused
    option, highest role, the throttler (a step relation of threads that enter and leave).
  \<^item> \<open>Track\<close>: \<open>mctrack.cpp\<close> and \<open>YTDLPTrack.cpp\<close>: the record of a track and its accessors.
  \<^item> \<open>ChildCommand\<close>: \<open>child/command.cpp\<close>: escaping and parsing of commands, the queue of commands,
    the fixed-size records on the pipe, the table of children waited for.
  \<^item> \<open>Worker\<close>: \<open>child/worker.cpp\<close>, \<open>slave_manager.cpp\<close>, \<open>worker_command.cpp\<close>,
    \<open>worker_management.cpp\<close>: dispatch of each command, the table of slaves, files and processes the
    worker holds, reaping and shutdown. Forks, pipes and waits are answered by an oracle.
  \<^item> \<open>EqualizerFx\<close>: \<open>cmds/filters.cpp\<close>: the text form of the equalizer.
  \<^item> \<open>Processor\<close>: \<open>audio_processing.cpp\<close>, \<open>helper_processor.cpp\<close>: the child that decodes with ffmpeg and
    passes the sound through helpers, one per effect. Its state holds the descriptors and what was
    read from and written to each; the calls of the system are the record \<open>os\<close>.
  \<^item> \<open>Player\<close>: \<open>player.cpp\<close>: the record \<open>guild_player_t\<close> has the fields of the class; one definition
    per method. \<open>play_order\<close> is the abstract queue: the playing track first, then the others.
  \<^item> \<open>Discord\<close>: the answers of the library's caches at one moment, the record \<open>dpp_view\<close> (a
    parameter of everything above it), and the functions of \<open>musicat.cpp\<close> that query them.
  \<^item> \<open>Manager\<close>: \<open>player_manager.cpp\<close>, \<open>player_manager_timer.cpp\<close> and parts of
    \<open>player_manager_util.cpp\<close>: the record \<open>manager\<close> holds the tables that are global in the sources;
    joining and leaving channels is a step relation of threads and timers (\<open>rc_step\<close>).
  \<^item> \<open>MusicCache\<close>: the music folder, eviction, failed playbacks and the download queue of
    \<open>player_manager_util.cpp\<close>, and the fetching of \<open>mctrack.cpp\<close>.
  \<^item> \<open>TrackMarker\<close>: \<open>player_manager_events.cpp\<close> and the track marker of \<open>player_manager_util.cpp\<close>.
  \<^item> \<open>Seek\<close>, \<open>Commands\<close>, \<open>Dashboard\<close>: \<open>cmds/seek.cpp\<close>; the commands queue, move, remove, skip,
    previous, loop, stop, pause, volume and autoplay; \<open>server/ws/player/message.cpp\<close>.
  \<^item> \<open>Filters\<close>: \<open>cmds/filters.cpp\<close> and \<open>cmds/filters/\<close>: the effect commands and the presets.
  \<^item> \<open>Paginate\<close>: \<open>pagination.cpp\<close>, \<open>storage.cpp\<close>, the pages of \<open>queue\<close> and \<open>search\<close>, the choice of
    a search result in \<open>events/on_form_submit.cpp\<close>; clicks and answers of Discord are \<open>page_step\<close>s.
  \<^item> \<open>ServerStates\<close>: \<open>server/states.cpp\<close>, \<open>server/service_cache.cpp\<close>, \<open>search-cache.cpp\<close>: tables
    with timers, and the order in which their locks are taken.
  \<^item> \<open>ServerStream\<close>, \<open>ServerHttp\<close>, \<open>Routes\<close>: \<open>server/stream.cpp\<close>; \<open>server/response.cpp\<close>,
    \<open>middlewares.cpp\<close>, \<open>auth.cpp\<close>, \<open>routes.cpp\<close>; \<open>server/routes/\<close>, \<open>services.cpp\<close>, \<open>server/ws/\<close>.
    Calls on a response are a trace; requests, tasks, the thread of the server and clients that go
    away are \<open>http_step\<close>s.
  \<^item> \<open>Play\<close>: \<open>cmds/play.cpp\<close>, \<open>cmds/playlist.cpp\<close>, \<open>cmds/join.cpp\<close>, \<open>cmds/progress.cpp\<close> and the
    two threads of \<open>player_manager_util.cpp\<close> that search and download what is added. The three tasks of
    one command are three definitions that run on whatever state there is when their turn comes.
  \<^item> \<open>Embed\<close>, \<open>Buttons\<close>: \<open>player_manager_embed.cpp\<close>: the message that shows what is playing and the
    queue of requests for it; \<open>events/on_button_click.cpp\<close>: what a click on its buttons does.
  \<^item> \<open>Tasks\<close>: \<open>task.cpp\<close>, \<open>thread_manager.cpp\<close>: the main loop's queue as \<open>task_step\<close>s, whose history
    is part of the state, and the table of threads.
  \<^item> \<open>Leaf\<close>: \<open>autocomplete.cpp\<close>, \<open>events/on_autocomplete.cpp\<close>, \<open>cmds/download.cpp\<close>, \<open>cmds/image.cpp\<close>,
    \<open>cmds/say.cpp\<close>, \<open>eliza.cpp\<close> and other commands that only answer.
  \<^item> \<open>Db\<close>: \<open>db.cpp\<close>: a \<open>db_call\<close> is a query with its texts, \<open>query_of\<close> its SQL; libpq is a function from
    a query to a table of values that may be null.
  \<^item> \<open>Bot\<close>: the handlers that work on players as one step relation \<open>bot_step\<close> on the state \<open>world\<close>, and its invariant.
  \<^item> \<open>Decoder\<close>, \<open>StreamCodec\<close>, \<open>Stream\<close>: \<open>decoder.cpp\<close>, \<open>stream_codec.cpp\<close>,
    \<open>player_manager_stream.cpp\<close>. The FFmpeg library is a record of functions; the threads are a
    step relation \<open>stream_step\<close> whose steps are the sections between two locks.

  \<^bold>\<open>What the lemmas show.\<close> The protocol group: a command that was written is read back as it was,
  commands are written in the order they were sent, a reply reaches the thread that waits for it,
  and the worker neither loses a file descriptor nor a child, but for the case that the theorem
  \<open>execute_orphans_child\<close> isolates. The player group: every operation on the queue refines the
  operation on \<open>play_order\<close> that the command's user expects, the iterator used by \<open>reset_shifted\<close> is
  always valid, and \<open>Bot\<close> lifts this to every run of the bot. The playback group: what the track
  marker plays next, what a missing file does, what seeking lands on. The stream group: decoding
  ends and delivers the file in order, a context is held by at most one thread and every player that
  streams has one. The cache group: eviction is by least recent use, lists agree with the folder,
  timers fire exactly when due. The command group: a track or a playlist that is added stands where
  its user asked for it, the info message announces the track that is played next and its buttons do what they show, a saved queue is loaded with the same tracks in the same order and no text in a query is read as
  SQL, tasks run once and in order. The child group: the helpers pass the sound on in order, are replaced whole when
  others are wanted, and a seek is answered by one marker; what a failed write loses is stated. The server group: every
  request at a clean address is answered once, a login needs a fresh state
  and protected routes a token. Theorems of kind \<open>error\<close> state exactly what goes wrong where the code
  does something other than it means to.

  \<^bold>\<open>Bounds and fuel.\<close> Nothing uses fuel. Loops are structural recursions, or
  \<open>partial_function (option)\<close> in \<open>Decoder\<close>, \<open>Stream\<close> and \<open>Processor\<close>, where \<open>None\<close> is not returning:
  \<open>decoding_terminates\<close> excludes it for the decoder and \<open>buffer_written_whole\<close> for the writes of the processor. The
  loops of the processor that poll until a helper hangs up return when the other process lets them; their theorems
  are about the results. Integers that can wrap are words
  (\<open>snowflake\<close>, sizes, the positions of \<open>remove_track\<close>); others are unbounded with their bounds as
  hypotheses where they matter (positions below \<open>2 ^ 63\<close>, strings that fit the record of \<open>CMD_BUFSIZE\<close> bytes on a pipe).

  \<^bold>\<open>Parameters.\<close> Discord (\<open>dpp_view\<close>), FFmpeg (\<open>av_api\<close>), yt-search (\<open>yt_api\<close>), the clock, the
  random numbers, the file system and the database are arguments. Laws are assumed of FFmpeg
  (\<open>av_progress\<close>: calls make progress and end; \<open>av_delivers\<close>: no sample is reordered), of the system under the helpers
  (\<open>chain_laws\<close>: open descriptors differ, a write takes no more than it is given and may fail, poll reports what was asked
  for; \<open>writes_progress\<close> where a loop must end) and of libpq's escaping (\<open>is_lit\<close>), as named
  hypotheses, and concrete functions satisfy them. Calls that send something are values of an
  effect datatype, in the order the code makes them.

  \<^bold>\<open>Not modelled.\<close> Start-up and the command line (\<open>run.cpp\<close>, \<open>runtime_cli.cpp\<close>, \<open>cli.cpp\<close>,
  \<open>slash.cpp\<close>), the start of the server (\<open>server.cpp\<close>), connecting to the database, the children that
  run yt-dlp and shell commands (\<open>child/ytdlp.cpp\<close>, \<open>child/system.cpp\<close>: poll loops around other
  programs), the bridge to Python
  (\<open>yt-dlp/\<close>) and commands that send a fixed text: they are input and output around libraries, with
  no state of their own.

  \<^bold>\<open>Simplifications.\<close> Handlers of \<open>Bot\<close> and operations of \<open>ServerStates\<close> are atomic steps, also where the
  code takes the same lock twice (setting a cached value and making its timer). In \<open>Stream\<close> a context is pushed and marked as
  handled in one step, which nobody sees under the lock that is held. In \<open>Tasks\<close> a wait may end whenever its predicate
  holds; notifications are not modelled. \<open>Worker\<close> has no failing \<open>sem_open\<close>. In \<open>Manager\<close> a mark that is set
  again while a thread waits for it is kept in a history field, so that theorems can say when it happened.
\<close>

end
